(* ===== verification/Rust_Prelude.thy ===== *)
theory Rust_Prelude
  imports Main "HOL-Library.Word"
begin

text \<open>
  Shared vocabulary of the development: the machine integers the Rust code uses, the outcome type of
  a fallible function, checked slice access, and big-endian byte packing, with the
  lemmas about them that every component needs.

  A Rust function that returns \<open>Result<T, E>\<close> and may also panic is modelled by
  \<open>('a, 'e) result\<close>: \<open>Ok\<close> and \<open>Err\<close> are the two variants of \<open>Result\<close>, \<open>Panic\<close> stands for
  a panic (a slice or index out of range, a failed \<open>assert!\<close>, \<open>unreachable!\<close>, \<open>unwrap\<close> on
  \<open>None\<close>). The operator \<open>?\<close> is \<open>rbind\<close>.
\<close>

unbundle bit_operations_syntax

section \<open>Machine integers and bytes\<close>

type_synonym u8 = "8 word"
type_synonym u16 = "16 word"
type_synonym u32 = "32 word"
type_synonym u64 = "64 word"
type_synonym i32 = "32 word"
type_synonym bytes = "8 word list"

text \<open>\<open>usize::MAX\<close>, on a machine of 64 bits.\<close>

definition USIZE_MAX :: nat where
  "USIZE_MAX = 2 ^ 64 - 1"

named_theorems word_bytes \<open>unpacking what was packed, and lengths of packed words\<close>
named_theorems slices \<open>checked slice access resolved to list operations\<close>

section \<open>Outcomes of fallible functions\<close>

datatype ('a, 'e) result = Ok 'a | Err 'e | Panic

fun rbind :: "('a, 'e) result \<Rightarrow> ('a \<Rightarrow> ('b, 'e) result) \<Rightarrow> ('b, 'e) result" where
  "rbind (Ok x) f = f x"
| "rbind (Err e) f = Err e"
| "rbind Panic f = Panic"

fun map_err :: "('e \<Rightarrow> 'd) \<Rightarrow> ('a, 'e) result \<Rightarrow> ('a, 'd) result" where
  "map_err g (Ok x) = Ok x"
| "map_err g (Err e) = Err (g e)"
| "map_err g Panic = Panic"

fun map_ok :: "('a \<Rightarrow> 'b) \<Rightarrow> ('a, 'e) result \<Rightarrow> ('b, 'e) result" where
  "map_ok f (Ok x) = Ok (f x)"
| "map_ok f (Err e) = Err e"
| "map_ok f Panic = Panic"

lemma map_ok_eq_Ok: "map_ok f r = Ok y \<longleftrightarrow> (\<exists>x. r = Ok x \<and> y = f x)"
  by (cases r) auto

lemma map_ok_eq_Panic [simp]: "map_ok f r = Panic \<longleftrightarrow> r = Panic"
  by (cases r) auto

text \<open>\<open>run_ops f ops s\<close>: the calls of a history one after the other, until one fails.\<close>

fun run_ops :: "('op \<Rightarrow> 's \<Rightarrow> ('s, 'e) result) \<Rightarrow> 'op list \<Rightarrow> 's \<Rightarrow> ('s, 'e) result" where
  "run_ops f [] s = Ok s"
| "run_ops f (op # ops) s = rbind (f op s) (run_ops f ops)"

definition assert_that :: "bool \<Rightarrow> (unit, 'e) result" where
  "assert_that b = (if b then Ok () else Panic)"

lemma rbind_eq_Ok: "rbind r f = Ok y \<longleftrightarrow> (\<exists>x. r = Ok x \<and> f x = Ok y)"
  by (cases r) auto

lemma rbind_eq_Err: "rbind r f = Err e \<longleftrightarrow> r = Err e \<or> (\<exists>x. r = Ok x \<and> f x = Err e)"
  by (cases r) auto

lemma rbind_eq_Panic: "rbind r f = Panic \<longleftrightarrow> r = Panic \<or> (\<exists>x. r = Ok x \<and> f x = Panic)"
  by (cases r) auto

lemma rbind_assoc: "rbind (rbind r f) g = rbind r (\<lambda>x. rbind (f x) g)"
  by (cases r) auto

lemma rbind_cong [fundef_cong]:
  "r = r' \<Longrightarrow> (\<And>x. r' = Ok x \<Longrightarrow> f x = f' x) \<Longrightarrow> rbind r f = rbind r' f'"
  by (cases r') auto

lemma map_err_eq_Ok [simp]: "map_err g r = Ok x \<longleftrightarrow> r = Ok x"
  by (cases r) auto

lemma map_err_eq_Panic [simp]: "map_err g r = Panic \<longleftrightarrow> r = Panic"
  by (cases r) auto

lemma run_ops_append: "run_ops f (xs @ ys) s = rbind (run_ops f xs s) (run_ops f ys)"
  by (induction xs arbitrary: s) (simp_all add: rbind_assoc cong: rbind_cong)

lemma run_ops_invariant:
  assumes "run_ops f ops s = Ok t" "I s" "\<And>op s t. I s \<Longrightarrow> f op s = Ok t \<Longrightarrow> I t"
  shows "I t"
  using assms(1,2) by (induction ops arbitrary: s) (auto simp: rbind_eq_Ok intro: assms(3))

lemma assert_that_simps [simp]:
  "assert_that True = Ok ()" "assert_that False = Panic"
  by (simp_all add: assert_that_def)

section \<open>Operations on a state\<close>

text \<open>
  A method with \<open>&mut self\<close> (or a mutable buffer) maps the state to an outcome and the
  new state. The state is kept on every outcome, since a caller may look at a buffer after an error.
  \<open>sbind\<close> is sequencing with \<open>?\<close>.
\<close>

type_synonym ('s, 'a, 'e) op = "'s \<Rightarrow> ('a, 'e) result \<times> 's"

definition sret :: "'a \<Rightarrow> ('s, 'a, 'e) op" where
  "sret x s = (Ok x, s)"

definition sfail :: "'e \<Rightarrow> ('s, 'a, 'e) op" where
  "sfail e s = (Err e, s)"

definition spanic :: "('s, 'a, 'e) op" where
  "spanic s = (Panic, s)"

definition slift :: "('a, 'e) result \<Rightarrow> ('s, 'a, 'e) op" where
  "slift r s = (r, s)"

definition sbind :: "('s, 'a, 'e) op \<Rightarrow> ('a \<Rightarrow> ('s, 'b, 'e) op) \<Rightarrow> ('s, 'b, 'e) op" where
  "sbind m f s =
     (case m s of
        (Ok x, s') \<Rightarrow> f x s'
      | (Err e, s') \<Rightarrow> (Err e, s')
      | (Panic, s') \<Rightarrow> (Panic, s'))"

lemma sbind_simps [simp]:
  "m s = (Ok x, s') \<Longrightarrow> sbind m f s = f x s'"
  "m s = (Err e, s') \<Longrightarrow> sbind m f s = (Err e, s')"
  "m s = (Panic, s') \<Longrightarrow> sbind m f s = (Panic, s')"
  by (simp_all add: sbind_def)

lemma sret_apply [simp]: "sret x s = (Ok x, s)"
  by (simp add: sret_def)

lemma sfail_apply [simp]: "sfail e s = (Err e, s)"
  by (simp add: sfail_def)

lemma spanic_apply [simp]: "spanic s = (Panic, s)"
  by (simp add: spanic_def)

lemma slift_apply [simp]: "slift r s = (r, s)"
  by (simp add: slift_def)

lemma sbind_eq_Ok:
  "sbind m f s = (Ok y, t) \<longleftrightarrow> (\<exists>x s'. m s = (Ok x, s') \<and> f x s' = (Ok y, t))"
  by (auto simp: sbind_def split: prod.splits result.splits)

lemma sbind_eq_Err:
  "sbind m f s = (Err e, t) \<longleftrightarrow>
     m s = (Err e, t) \<or> (\<exists>x s'. m s = (Ok x, s') \<and> f x s' = (Err e, t))"
  by (auto simp: sbind_def split: prod.splits result.splits)

lemma sbind_eq_Panic:
  "sbind m f s = (Panic, t) \<longleftrightarrow>
     m s = (Panic, t) \<or> (\<exists>x s'. m s = (Ok x, s') \<and> f x s' = (Panic, t))"
  by (auto simp: sbind_def split: prod.splits result.splits)

lemma sbind_cong [fundef_cong]:
  assumes "m s = m' s'" "\<And>x t. m' s' = (Ok x, t) \<Longrightarrow> f x t = f' x t"
  shows "sbind m f s = sbind m' f' s'"
  using assms by (auto simp: sbind_def split: prod.splits result.splits)

text \<open>
  \<open>keeps I m\<close>: the operation \<open>m\<close>, started in a state with the invariant \<open>I\<close>, does not panic and ends
  in a state with the invariant, whatever the outcome.
\<close>

named_theorems keeps_rules \<open>operations that keep an invariant and do not panic\<close>

definition keeps :: "('s \<Rightarrow> bool) \<Rightarrow> ('s, 'a, 'e) op \<Rightarrow> bool" where
  "keeps I m \<longleftrightarrow> (\<forall>s r s'. I s \<longrightarrow> m s = (r, s') \<longrightarrow> r \<noteq> Panic \<and> I s')"

lemma keepsI: "(\<And>s r s'. I s \<Longrightarrow> m s = (r, s') \<Longrightarrow> r \<noteq> Panic \<and> I s') \<Longrightarrow> keeps I m"
  by (auto simp: keeps_def)

lemma keepsD: "keeps I m \<Longrightarrow> I s \<Longrightarrow> m s = (r, s') \<Longrightarrow> r \<noteq> Panic \<and> I s'"
  by (auto simp: keeps_def)

lemma keeps_sret [keeps_rules]: "keeps I (sret x)"
  by (simp add: keeps_def)

lemma keeps_sfail [keeps_rules]: "keeps I (sfail e)"
  by (simp add: keeps_def)

lemma keeps_slift [keeps_rules]: "r \<noteq> Panic \<Longrightarrow> keeps I (slift r)"
  by (simp add: keeps_def)

lemma keeps_sbind [keeps_rules]:
  assumes "keeps I m" "\<And>x. keeps I (f x)"
  shows "keeps I (sbind m f)"
proof (rule keepsI)
  fix s r s' assume "I s" "sbind m f s = (r, s')"
  with assms show "r \<noteq> Panic \<and> I s'"
    by (cases "m s") (auto simp: sbind_def dest: keepsD split: result.splits)
qed

lemma keeps_if [keeps_rules]: "(b \<Longrightarrow> keeps I m) \<Longrightarrow> (\<not> b \<Longrightarrow> keeps I m') \<Longrightarrow> keeps I (if b then m else m')"
  by simp

section \<open>Checked access to slices\<close>

text \<open>
  \<open>xs[i]\<close>, \<open>&xs[i..]\<close>, \<open>&xs[..j]\<close> and \<open>&xs[i..j]\<close> panic when an index is out of range.
\<close>

definition index_at :: "'a list \<Rightarrow> nat \<Rightarrow> ('a, 'e) result" where
  "index_at xs i = (if i < length xs then Ok (xs ! i) else Panic)"

definition slice_from :: "'a list \<Rightarrow> nat \<Rightarrow> ('a list, 'e) result" where
  "slice_from xs i = (if i \<le> length xs then Ok (drop i xs) else Panic)"

definition slice_to :: "'a list \<Rightarrow> nat \<Rightarrow> ('a list, 'e) result" where
  "slice_to xs j = (if j \<le> length xs then Ok (take j xs) else Panic)"

definition slice_range :: "'a list \<Rightarrow> nat \<Rightarrow> nat \<Rightarrow> ('a list, 'e) result" where
  "slice_range xs i j = (if i \<le> j \<and> j \<le> length xs then Ok (take (j - i) (drop i xs)) else Panic)"

lemma index_at_Ok [slices]: "i < length xs \<Longrightarrow> index_at xs i = Ok (xs ! i)"
  by (simp add: index_at_def)

lemma slice_from_Ok [slices]: "i \<le> length xs \<Longrightarrow> slice_from xs i = Ok (drop i xs)"
  by (simp add: slice_from_def)

lemma slice_to_Ok [slices]: "j \<le> length xs \<Longrightarrow> slice_to xs j = Ok (take j xs)"
  by (simp add: slice_to_def)

lemma slice_range_Ok [slices]:
  "i \<le> j \<Longrightarrow> j \<le> length xs \<Longrightarrow> slice_range xs i j = Ok (take (j - i) (drop i xs))"
  by (simp add: slice_range_def)

section \<open>Flag bits\<close>

lemma and_flag_iff:
  "n < LENGTH('a) \<Longrightarrow> (w :: 'a :: len word) AND push_bit n 1 = push_bit n 1 \<longleftrightarrow> bit w n"
proof
  assume n: "n < LENGTH('a)" and "w AND push_bit n 1 = push_bit n 1"
  then have "bit (w AND push_bit n 1) n" by (simp add: bit_simps)
  then show "bit w n" by (simp add: bit_simps)
next
  assume "bit w n"
  then show "w AND push_bit n 1 = push_bit n 1"
    by (intro bit_word_eqI) (auto simp: bit_simps)
qed

section \<open>Big-endian integers\<close>

text \<open>
  \<open>dst.put_u16(v)\<close>, \<open>dst.put_u32(v)\<close> and \<open>dst.put_uint(v, 3)\<close> of the crate \<open>bytes\<close> append the
  big-endian representation; \<open>u32::from_be_bytes\<close> of the standard library reads it back.
\<close>

definition be_u16 :: "u16 \<Rightarrow> bytes" where
  "be_u16 v = [ucast (drop_bit 8 v), ucast v]"

definition be_u24 :: "u64 \<Rightarrow> bytes" where
  "be_u24 v = [ucast (drop_bit 16 v), ucast (drop_bit 8 v), ucast v]"

definition be_u32 :: "u32 \<Rightarrow> bytes" where
  "be_u32 v = [ucast (drop_bit 24 v), ucast (drop_bit 16 v), ucast (drop_bit 8 v), ucast v]"

definition join_u16 :: "u8 \<Rightarrow> u8 \<Rightarrow> u16" where
  "join_u16 a b = push_bit 8 (ucast a) OR ucast b"

definition join_u32 :: "u8 \<Rightarrow> u8 \<Rightarrow> u8 \<Rightarrow> u8 \<Rightarrow> u32" where
  "join_u32 a b c d =
     push_bit 24 (ucast a) OR push_bit 16 (ucast b) OR push_bit 8 (ucast c) OR push_bit 0 (ucast d)"

lemma length_be [simp, word_bytes]:
  "length (be_u16 v) = 2" "length (be_u24 w) = 3" "length (be_u32 x) = 4"
  by (simp_all add: be_u16_def be_u24_def be_u32_def)

lemma join_u16_be [simp, word_bytes]: "join_u16 (ucast (drop_bit 8 v)) (ucast v) = v"
  unfolding join_u16_def
  by (rule bit_word_eqI) (auto simp: bit_simps; presburger)

lemma join_u32_be [simp, word_bytes]:
  "join_u32 (ucast (drop_bit 24 v)) (ucast (drop_bit 16 v)) (ucast (drop_bit 8 v)) (ucast v) = v"
proof (rule bit_word_eqI)
  fix n :: nat
  consider "n < 8" | "8 \<le> n" "n < 16" | "16 \<le> n" "n < 24" | "24 \<le> n" by linarith
  then show "bit (join_u32 (ucast (drop_bit 24 v)) (ucast (drop_bit 16 v))
      (ucast (drop_bit 8 v)) (ucast v)) n = bit v n" if "n < LENGTH(32)"
    using that by cases (auto simp: join_u32_def bit_simps)
qed

end
