(* ===== verification/Frame_Head.thy ===== *)
theory Frame_Head
  imports Rust_Prelude
begin

text \<open>
  Stream identifiers, error codes, frame errors and the nine-byte frame header
  (\<open>h2/frame/stream_id.rs\<close>, \<open>reason.rs\<close>, \<open>head.rs\<close>, the error type of \<open>frame/mod.rs\<close> and the
  HPACK error types it embeds).
\<close>

named_theorems frame_defs \<open>definitions of the frame encoders and decoders\<close>

section \<open>Stream identifiers\<close>

datatype stream_id = StreamId (sid_word: u32)

definition STREAM_ID_MASK :: u32 where
  "STREAM_ID_MASK = push_bit 31 1"

definition stream_id_ZERO :: stream_id where
  "stream_id_ZERO = StreamId 0"

definition stream_id_MAX :: stream_id where
  "stream_id_MAX = StreamId (drop_bit 1 (- 1))"

text \<open>The source derives \<open>PartialOrd\<close> and \<open>Ord\<close>: identifiers are ordered as unsigned words.\<close>

instantiation stream_id :: linorder
begin

definition less_eq_stream_id :: "stream_id \<Rightarrow> stream_id \<Rightarrow> bool" where
  "less_eq_stream_id a b \<longleftrightarrow> sid_word a \<le> sid_word b"

definition less_stream_id :: "stream_id \<Rightarrow> stream_id \<Rightarrow> bool" where
  "less_stream_id a b \<longleftrightarrow> sid_word a < sid_word b"

instance
  by intro_classes (auto simp: less_eq_stream_id_def less_stream_id_def stream_id.expand)

end

lemma stream_id_le_simp [simp]: "StreamId a \<le> StreamId b \<longleftrightarrow> a \<le> b"
  by (simp add: less_eq_stream_id_def)

lemma stream_id_less_simp [simp]: "StreamId a < StreamId b \<longleftrightarrow> a < b"
  by (simp add: less_stream_id_def)

definition from_be_bytes :: "bytes \<Rightarrow> (u32, 'e) result" where
  "from_be_bytes b =
     (if length b = 4 then Ok (join_u32 (b ! 0) (b ! 1) (b ! 2) (b ! 3)) else Panic)"

definition stream_id_parse :: "bytes \<Rightarrow> (stream_id \<times> bool, 'e) result" where
  "stream_id_parse buf =
     rbind (slice_range buf 0 4) (\<lambda>ubuf.
     rbind (from_be_bytes ubuf) (\<lambda>unpacked.
       let flag = (unpacked AND STREAM_ID_MASK = STREAM_ID_MASK)
       in Ok (StreamId (unpacked AND NOT STREAM_ID_MASK), flag)))"

fun is_client_initiated :: "stream_id \<Rightarrow> bool" where
  "is_client_initiated (StreamId i) \<longleftrightarrow> i \<noteq> 0 \<and> i mod 2 = 1"

fun is_server_initiated :: "stream_id \<Rightarrow> bool" where
  "is_server_initiated (StreamId i) \<longleftrightarrow> i \<noteq> 0 \<and> i mod 2 = 0"

definition stream_id_is_zero :: "stream_id \<Rightarrow> bool" where
  "stream_id_is_zero s \<longleftrightarrow> sid_word s = 0"

datatype stream_id_overflow = StreamIdOverflow

fun next_id :: "stream_id \<Rightarrow> (stream_id, stream_id_overflow) result" where
  "next_id (StreamId i) =
     (let next = i + 2
      in if next > sid_word stream_id_MAX then Err StreamIdOverflow else Ok (StreamId next))"

text \<open>\<open>From<u32>\<close> panics when the most significant bit is set.\<close>

definition stream_id_from :: "u32 \<Rightarrow> (stream_id, 'e) result" where
  "stream_id_from src =
     rbind (assert_that (src AND STREAM_ID_MASK = 0)) (\<lambda>_. Ok (StreamId src))"

text \<open>Every identifier the code builds has its most significant bit clear.\<close>

definition stream_id_ok :: "stream_id \<Rightarrow> bool" where
  "stream_id_ok s \<longleftrightarrow> \<not> bit (sid_word s) 31"

lemma STREAM_ID_MASK_bit: "bit STREAM_ID_MASK n \<longleftrightarrow> n = 31"
  unfolding STREAM_ID_MASK_def bit_push_bit_iff by auto

lemma and_mask_eq_mask_iff: "w AND STREAM_ID_MASK = STREAM_ID_MASK \<longleftrightarrow> bit w 31"
proof
  assume "w AND STREAM_ID_MASK = STREAM_ID_MASK"
  then have "bit (w AND STREAM_ID_MASK) 31" by (simp add: STREAM_ID_MASK_bit)
  then show "bit w 31" by (simp add: bit_simps)
next
  assume "bit w 31"
  then show "w AND STREAM_ID_MASK = STREAM_ID_MASK"
    by (intro bit_word_eqI) (auto simp: bit_simps STREAM_ID_MASK_bit)
qed

lemma and_mask_eq_0_iff: "w AND STREAM_ID_MASK = 0 \<longleftrightarrow> \<not> bit w 31"
proof
  assume a: "w AND STREAM_ID_MASK = 0"
  have "\<not> bit (w AND STREAM_ID_MASK) 31" by (simp add: a)
  then show "\<not> bit w 31" by (simp add: bit_simps STREAM_ID_MASK_bit)
next
  assume "\<not> bit w 31"
  then show "w AND STREAM_ID_MASK = 0"
    by (intro bit_word_eqI) (auto simp: bit_simps STREAM_ID_MASK_bit)
qed

lemma clear_mask_id: "\<not> bit w 31 \<Longrightarrow> w AND NOT STREAM_ID_MASK = w"
  by (rule bit_word_eqI) (auto simp: bit_simps STREAM_ID_MASK_bit)

lemma clear_mask_bit: "\<not> bit (w AND NOT STREAM_ID_MASK) 31"
  by (simp add: bit_simps STREAM_ID_MASK_bit)

lemma sid_word_MAX: "sid_word stream_id_MAX = 0x7FFFFFFF"
  by (simp add: stream_id_MAX_def mask_eq_exp_minus_1)

lemma unat_less_2_32: "unat (w :: u32) < 2 ^ 32"
  using unsigned_less [of w] by simp

lemma not_bit_31_iff: "\<not> bit (w :: u32) 31 \<longleftrightarrow> w \<le> sid_word stream_id_MAX"
proof -
  have "bit w 31 \<longleftrightarrow> bit (unat w) 31" by (simp add: bit_unsigned_iff)
  also have "\<dots> \<longleftrightarrow> odd (unat w div 2 ^ 31)" by (simp add: bit_iff_odd)
  also have "\<dots> \<longleftrightarrow> 2 ^ 31 \<le> unat w"
  proof (cases "unat w < 2 ^ 31")
    case False
    then have "unat w div 2 ^ 31 = 1"
      by (intro div_nat_eqI) (use unat_less_2_32 [of w] in simp_all)
    with False show ?thesis by (metis not_less odd_one)
  qed (metis div_less even_zero not_less)
  finally have "bit w 31 \<longleftrightarrow> 2 ^ 31 \<le> unat w" .
  moreover have "w \<le> sid_word stream_id_MAX \<longleftrightarrow> unat w \<le> 2 ^ 31 - 1"
    by (simp add: sid_word_MAX word_le_nat_alt)
  ultimately show ?thesis by auto
qed

lemma stream_id_ok_iff_le_MAX: "stream_id_ok s \<longleftrightarrow> s \<le> stream_id_MAX"
  by (cases s) (simp add: stream_id_ok_def not_bit_31_iff less_eq_stream_id_def)

lemma stream_id_parse_Ok:
  "4 \<le> length buf \<Longrightarrow> stream_id_parse buf =
     (let w = join_u32 (buf ! 0) (buf ! 1) (buf ! 2) (buf ! 3)
      in Ok (StreamId (w AND NOT STREAM_ID_MASK), bit w 31))"
  by (simp add: stream_id_parse_def slices from_be_bytes_def Let_def and_mask_eq_mask_iff)

lemma stream_id_parse_be [simp]:
  "stream_id_parse (be_u32 w @ rest) = Ok (StreamId (w AND NOT STREAM_ID_MASK), bit w 31)"
  by (subst stream_id_parse_Ok) (simp_all add: be_u32_def Let_def)

lemma stream_id_parse_be_ok:
  "stream_id_ok s \<Longrightarrow> stream_id_parse (be_u32 (sid_word s) @ rest) = Ok (s, False)"
  by (cases s) (simp add: stream_id_ok_def clear_mask_id)

lemma stream_id_parse_result:
  "stream_id_parse buf = Ok (s, e) \<Longrightarrow> stream_id_ok s"
  by (auto simp: stream_id_parse_def rbind_eq_Ok stream_id_ok_def clear_mask_bit Let_def)

section \<open>Error codes\<close>

datatype reason = Reason (reason_code: u32)

definition NO_ERROR :: reason where "NO_ERROR = Reason 0"
definition PROTOCOL_ERROR :: reason where "PROTOCOL_ERROR = Reason 1"
definition INTERNAL_ERROR :: reason where "INTERNAL_ERROR = Reason 2"
definition FLOW_CONTROL_ERROR :: reason where "FLOW_CONTROL_ERROR = Reason 3"
definition SETTINGS_TIMEOUT :: reason where "SETTINGS_TIMEOUT = Reason 4"
definition STREAM_CLOSED :: reason where "STREAM_CLOSED = Reason 5"
definition FRAME_SIZE_ERROR :: reason where "FRAME_SIZE_ERROR = Reason 6"
definition REFUSED_STREAM :: reason where "REFUSED_STREAM = Reason 7"
definition CANCEL :: reason where "CANCEL = Reason 8"
definition COMPRESSION_ERROR :: reason where "COMPRESSION_ERROR = Reason 9"
definition CONNECT_ERROR :: reason where "CONNECT_ERROR = Reason 10"
definition ENHANCE_YOUR_CALM :: reason where "ENHANCE_YOUR_CALM = Reason 11"
definition INADEQUATE_SECURITY :: reason where "INADEQUATE_SECURITY = Reason 12"
definition HTTP_1_1_REQUIRED :: reason where "HTTP_1_1_REQUIRED = Reason 13"

lemmas reason_defs =
  NO_ERROR_def PROTOCOL_ERROR_def INTERNAL_ERROR_def FLOW_CONTROL_ERROR_def SETTINGS_TIMEOUT_def
  STREAM_CLOSED_def FRAME_SIZE_ERROR_def REFUSED_STREAM_def CANCEL_def COMPRESSION_ERROR_def
  CONNECT_ERROR_def ENHANCE_YOUR_CALM_def INADEQUATE_SECURITY_def HTTP_1_1_REQUIRED_def

section \<open>Errors of the HPACK decoder and of the frame decoders\<close>

datatype need_more = UnexpectedEndOfStream | IntegerUnderflow | StringUnderflow

datatype decoder_error =
    InvalidRepresentation
  | InvalidIntegerPrefix
  | InvalidTableIndex
  | InvalidHuffmanCode
  | InvalidUtf8
  | InvalidStatusCode
  | InvalidPseudoheader
  | InvalidMaxDynamicSize
  | IntegerOverflow
  | NeedMore need_more

datatype frame_error =
    BadFrameSize
  | TooMuchPadding
  | InvalidSettingValue
  | InvalidWindowUpdateValue
  | InvalidPayloadLength
  | InvalidPayloadAckSettings
  | InvalidStreamId
  | MalformedMessage
  | InvalidDependencyId
  | Hpack decoder_error

section \<open>The frame header\<close>

datatype kind =
    Kind_Data
  | Kind_Headers
  | Kind_Priority
  | Kind_Reset
  | Kind_Settings
  | Kind_PushPromise
  | Kind_Ping
  | Kind_GoAway
  | Kind_WindowUpdate
  | Kind_Continuation
  | Kind_Unknown

definition kind_new :: "u8 \<Rightarrow> kind" where
  "kind_new byte =
     (if byte = 0 then Kind_Data
      else if byte = 1 then Kind_Headers
      else if byte = 2 then Kind_Priority
      else if byte = 3 then Kind_Reset
      else if byte = 4 then Kind_Settings
      else if byte = 5 then Kind_PushPromise
      else if byte = 6 then Kind_Ping
      else if byte = 7 then Kind_GoAway
      else if byte = 8 then Kind_WindowUpdate
      else if byte = 9 then Kind_Continuation
      else Kind_Unknown)"

text \<open>\<open>kind as u8\<close>: the discriminants of the enum; \<open>Unknown\<close> follows \<open>Continuation = 9\<close>.\<close>

fun kind_as_u8 :: "kind \<Rightarrow> u8" where
  "kind_as_u8 Kind_Data = 0"
| "kind_as_u8 Kind_Headers = 1"
| "kind_as_u8 Kind_Priority = 2"
| "kind_as_u8 Kind_Reset = 3"
| "kind_as_u8 Kind_Settings = 4"
| "kind_as_u8 Kind_PushPromise = 5"
| "kind_as_u8 Kind_Ping = 6"
| "kind_as_u8 Kind_GoAway = 7"
| "kind_as_u8 Kind_WindowUpdate = 8"
| "kind_as_u8 Kind_Continuation = 9"
| "kind_as_u8 Kind_Unknown = 10"

record head =
  head_kind :: kind
  head_flag :: u8
  head_stream_id :: stream_id

definition head_new :: "kind \<Rightarrow> u8 \<Rightarrow> stream_id \<Rightarrow> head" where
  "head_new k f s = \<lparr>head_kind = k, head_flag = f, head_stream_id = s\<rparr>"

definition HEADER_LEN :: nat where
  "HEADER_LEN = 9"

definition head_parse :: "bytes \<Rightarrow> (head, 'e) result" where
  "head_parse header =
     rbind (slice_from header 5) (\<lambda>tail.
     rbind (stream_id_parse tail) (\<lambda>(stream_id, _).
     rbind (index_at header 3) (\<lambda>k.
     rbind (index_at header 4) (\<lambda>f.
       Ok \<lparr>head_kind = kind_new k, head_flag = f, head_stream_id = stream_id\<rparr>))))"

definition head_encode :: "head \<Rightarrow> nat \<Rightarrow> bytes \<Rightarrow> bytes" where
  "head_encode h payload_len dst =
     dst @ be_u24 (of_nat payload_len) @ [kind_as_u8 (head_kind h)] @ [head_flag h]
         @ be_u32 (sid_word (head_stream_id h))"

lemma kind_new_as_u8 [simp]: "kind_new (kind_as_u8 k) = k"
  by (cases k) (simp_all add: kind_new_def)

lemma length_head_encode [simp]:
  "length (head_encode h n dst) = length dst + HEADER_LEN"
  by (simp add: head_encode_def HEADER_LEN_def)

lemma head_parse_Ok:
  assumes "HEADER_LEN \<le> length b"
  shows "head_parse b = Ok \<lparr>head_kind = kind_new (b ! 3), head_flag = b ! 4,
    head_stream_id =
      StreamId (join_u32 (b ! 5) (b ! 6) (b ! 7) (b ! 8) AND NOT STREAM_ID_MASK)\<rparr>"
  using assms
  by (simp add: head_parse_def HEADER_LEN_def slices stream_id_parse_Ok Let_def)

lemma head_parse_Panic_iff: "head_parse b = Panic \<longleftrightarrow> length b < HEADER_LEN"
proof
  show "length b < HEADER_LEN \<Longrightarrow> head_parse b = Panic"
    by (auto simp: head_parse_def HEADER_LEN_def slice_from_def stream_id_parse_def
        slice_range_def)
next
  show "head_parse b = Panic \<Longrightarrow> length b < HEADER_LEN"
    by (rule ccontr) (simp add: head_parse_Ok not_less)
qed

lemma head_parse_stream_id_ok: "head_parse b = Ok h \<Longrightarrow> stream_id_ok (head_stream_id h)"
  by (auto simp: head_parse_def rbind_eq_Ok dest: stream_id_parse_result)

lemma head_parse_encode:
  assumes "stream_id_ok (head_stream_id h)"
  shows "head_parse (head_encode h n [] @ payload) = Ok h"
proof -
  let ?b = "head_encode h n [] @ payload"
  have "head_parse ?b = Ok \<lparr>head_kind = head_kind h, head_flag = head_flag h,
      head_stream_id = StreamId (sid_word (head_stream_id h) AND NOT STREAM_ID_MASK)\<rparr>"
    by (subst head_parse_Ok) (simp_all add: head_encode_def be_u24_def be_u32_def HEADER_LEN_def)
  with assms show ?thesis by (cases h) (simp add: stream_id_ok_def clear_mask_id)
qed

lemma drop_head_encode [simp]: "drop HEADER_LEN (head_encode h n [] @ p) = p"
  by (simp add: head_encode_def HEADER_LEN_def be_u24_def be_u32_def)

end
