(* ===== verification/Frame_Control.thy ===== *)
theory Frame_Control
  imports Frame_Head
begin

text \<open>
  The fixed-layout frames: \<open>RST_STREAM\<close>, \<open>PRIORITY\<close>, \<open>WINDOW_UPDATE\<close>, \<open>PING\<close> and \<open>GOAWAY\<close>
  (\<open>h2/frame/reset.rs\<close>, \<open>priority.rs\<close>, \<open>window_update.rs\<close>, \<open>ping.rs\<close>, \<open>go_away.rs\<close>), and the
  contract \<open>frame_codec\<close> that a frame type with an encoder and a decoder satisfies.
  \<open>unpack_octets_4!\<close> is the macro of \<open>frame/mod.rs\<close>.
\<close>

section \<open>The contract between an encoder and a decoder\<close>

locale frame_codec =
  fixes head_of :: "'f \<Rightarrow> head"
    and payload :: "'f \<Rightarrow> bytes"
    and encode :: "'f \<Rightarrow> bytes \<Rightarrow> bytes"
    and load :: "head \<Rightarrow> bytes \<Rightarrow> ('f, frame_error) result"
    and valid :: "'f \<Rightarrow> bool"
  assumes encode_eq: "encode f dst = head_encode (head_of f) (length (payload f)) dst @ payload f"
    and load_payload: "valid f \<Longrightarrow> load (head_of f) (payload f) = Ok f"
    and head_ok: "valid f \<Longrightarrow> stream_id_ok (head_stream_id (head_of f))"
begin

lemma encode_append: "encode f dst = dst @ encode f []"
  by (simp add: encode_eq head_encode_def)

lemma length_encode: "length (encode f []) = HEADER_LEN + length (payload f)"
  by (simp add: encode_eq)

lemma length_field: "take 3 (encode f []) = be_u24 (of_nat (length (payload f)))"
  by (simp add: encode_eq head_encode_def be_u24_def)

lemma parse_head:
  assumes "valid f"
  shows "head_parse (encode f []) = Ok (head_of f)"
  by (simp add: encode_eq head_parse_encode head_ok [OF assms])

lemma load_encode:
  assumes "valid f"
  shows "rbind (head_parse (encode f [])) (\<lambda>h.
         rbind (slice_from (encode f []) HEADER_LEN) (load h)) = Ok f"
proof -
  have "slice_from (encode f []) HEADER_LEN = (Ok (payload f) :: (bytes, frame_error) result)"
    by (simp add: slice_from_def length_encode) (simp add: encode_eq)
  then show ?thesis by (simp add: parse_head [OF assms] load_payload [OF assms])
qed

lemma encode_inj:
  assumes "valid f" "valid g" "encode f [] = encode g []"
  shows "f = g"
  by (metis load_encode [OF assms(1)] load_encode [OF assms(2)] assms(3) result.inject(1))

end

definition unpack_octets_4 :: "bytes \<Rightarrow> nat \<Rightarrow> (u32, 'e) result" where
  "unpack_octets_4 buf offset =
     rbind (index_at buf offset) (\<lambda>a.
     rbind (index_at buf (offset + 1)) (\<lambda>b.
     rbind (index_at buf (offset + 2)) (\<lambda>c.
     rbind (index_at buf (offset + 3)) (\<lambda>d. Ok (join_u32 a b c d)))))"

lemma unpack_octets_4_Ok [slices]:
  "offset + 3 < length buf \<Longrightarrow> unpack_octets_4 buf offset =
     Ok (join_u32 (buf ! offset) (buf ! (offset + 1)) (buf ! (offset + 2)) (buf ! (offset + 3)))"
  by (simp add: unpack_octets_4_def slices)

lemma unpack_octets_4_be [simp]: "unpack_octets_4 (be_u32 w) 0 = Ok w"
  by (simp add: slices be_u32_def)

lemma length_eq_4: "length b = 4 \<longleftrightarrow> (\<exists>p q r s. b = [p, q, r, s])"
  by (auto simp: length_Suc_conv numeral_eq_Suc)

section \<open>RST_STREAM\<close>

record reset =
  reset_stream_id :: stream_id
  reset_error_code :: reason

definition reset_new :: "stream_id \<Rightarrow> reason \<Rightarrow> reset" where
  "reset_new s e = \<lparr>reset_stream_id = s, reset_error_code = e\<rparr>"

definition reset_load :: "head \<Rightarrow> bytes \<Rightarrow> (reset, frame_error) result" where
  "reset_load h payload =
     (if length payload \<noteq> 4 then Err InvalidPayloadLength
      else rbind (unpack_octets_4 payload 0) (\<lambda>error_code.
        Ok \<lparr>reset_stream_id = head_stream_id h, reset_error_code = Reason error_code\<rparr>))"

definition reset_encode :: "reset \<Rightarrow> bytes \<Rightarrow> bytes" where
  "reset_encode f dst =
     head_encode (head_new Kind_Reset 0 (reset_stream_id f)) 4 dst
       @ be_u32 (reason_code (reset_error_code f))"

interpretation reset_wire: frame_codec
  "\<lambda>f. head_new Kind_Reset 0 (reset_stream_id f)"
  "\<lambda>f. be_u32 (reason_code (reset_error_code f))"
  reset_encode reset_load "\<lambda>f. stream_id_ok (reset_stream_id f)"
  by unfold_locales (auto simp: reset_encode_def reset_load_def head_new_def)

section \<open>PRIORITY\<close>

record stream_dependency =
  dependency_id :: stream_id
  weight :: u8
  is_exclusive :: bool

record priority =
  priority_stream_id :: stream_id
  priority_dependency :: stream_dependency

definition stream_dependency_load :: "bytes \<Rightarrow> (stream_dependency, frame_error) result" where
  "stream_dependency_load src =
     (if length src \<noteq> 5 then Err InvalidPayloadLength
      else rbind (slice_to src 4) (\<lambda>id.
           rbind (stream_id_parse id) (\<lambda>(dep, excl).
           rbind (index_at src 4) (\<lambda>w.
             Ok \<lparr>dependency_id = dep, weight = w, is_exclusive = excl\<rparr>))))"

definition priority_load :: "head \<Rightarrow> bytes \<Rightarrow> (priority, frame_error) result" where
  "priority_load h payload =
     rbind (stream_dependency_load payload) (\<lambda>dep.
       if dependency_id dep = head_stream_id h then Err InvalidDependencyId
       else Ok \<lparr>priority_stream_id = head_stream_id h, priority_dependency = dep\<rparr>)"

lemma stream_dependency_load_Ok:
  "length src = 5 \<Longrightarrow> stream_dependency_load src =
     (let w = join_u32 (src ! 0) (src ! 1) (src ! 2) (src ! 3)
      in Ok \<lparr>dependency_id = StreamId (w AND NOT STREAM_ID_MASK), weight = src ! 4,
             is_exclusive = bit w 31\<rparr>)"
  by (simp add: stream_dependency_load_def slices stream_id_parse_Ok Let_def)

lemma priority_load_no_panic: "priority_load h payload \<noteq> Panic"
proof (cases "length payload = 5")
  case True
  then show ?thesis by (simp add: priority_load_def stream_dependency_load_Ok Let_def)
next
  case False
  then show ?thesis by (simp add: priority_load_def stream_dependency_load_def)
qed

lemma priority_load_not_self:
  "priority_load h payload = Ok p \<Longrightarrow>
     dependency_id (priority_dependency p) \<noteq> priority_stream_id p"
  by (auto simp: priority_load_def rbind_eq_Ok split: if_splits)

section \<open>WINDOW_UPDATE\<close>

definition SIZE_INCREMENT_MASK :: u32 where
  "SIZE_INCREMENT_MASK = push_bit 31 1"

record window_update =
  wu_stream_id :: stream_id
  wu_size_increment :: u32

definition window_update_new :: "stream_id \<Rightarrow> u32 \<Rightarrow> window_update" where
  "window_update_new s n = \<lparr>wu_stream_id = s, wu_size_increment = n\<rparr>"

definition window_update_load :: "head \<Rightarrow> bytes \<Rightarrow> (window_update, frame_error) result" where
  "window_update_load h payload =
     (if length payload \<noteq> 4 then Err BadFrameSize
      else rbind (unpack_octets_4 payload 0) (\<lambda>w.
        let size_increment = w AND NOT SIZE_INCREMENT_MASK
        in if size_increment = 0 then Err InvalidWindowUpdateValue
           else Ok \<lparr>wu_stream_id = head_stream_id h, wu_size_increment = size_increment\<rparr>))"

definition window_update_encode :: "window_update \<Rightarrow> bytes \<Rightarrow> bytes" where
  "window_update_encode f dst =
     head_encode (head_new Kind_WindowUpdate 0 (wu_stream_id f)) 4 dst
       @ be_u32 (wu_size_increment f)"

text \<open>The increments a peer may send: nonzero 31-bit values.\<close>

definition window_update_ok :: "window_update \<Rightarrow> bool" where
  "window_update_ok f \<longleftrightarrow> stream_id_ok (wu_stream_id f) \<and> wu_size_increment f \<noteq> 0
     \<and> \<not> bit (wu_size_increment f) 31"

lemma SIZE_INCREMENT_MASK_eq: "SIZE_INCREMENT_MASK = STREAM_ID_MASK"
  by (simp add: SIZE_INCREMENT_MASK_def STREAM_ID_MASK_def)

interpretation window_update_wire: frame_codec
  "\<lambda>f. head_new Kind_WindowUpdate 0 (wu_stream_id f)"
  "\<lambda>f. be_u32 (wu_size_increment f)"
  window_update_encode window_update_load window_update_ok
  by unfold_locales
     (auto simp: window_update_encode_def window_update_load_def head_new_def
       window_update_ok_def SIZE_INCREMENT_MASK_eq clear_mask_id)

lemma window_update_load_result:
  assumes "window_update_load h payload = Ok f" "stream_id_ok (head_stream_id h)"
  shows "window_update_ok f"
  using assms
  by (auto simp: window_update_load_def rbind_eq_Ok Let_def window_update_ok_def
      SIZE_INCREMENT_MASK_eq clear_mask_bit split: if_splits)

section \<open>PING\<close>

definition PING_ACK_FLAG :: u8 where
  "PING_ACK_FLAG = 0x1"

record ping =
  ping_ack :: bool
  ping_payload :: bytes

definition SHUTDOWN_PAYLOAD :: bytes where
  "SHUTDOWN_PAYLOAD = [0x0b, 0x7b, 0xa2, 0xf0, 0x8b, 0x9b, 0xfe, 0x54]"

definition USER_PAYLOAD :: bytes where
  "USER_PAYLOAD = [0x3b, 0x7c, 0xdb, 0x7a, 0x0b, 0x87, 0x16, 0xb4]"

definition ping_new :: "bytes \<Rightarrow> ping" where
  "ping_new p = \<lparr>ping_ack = False, ping_payload = p\<rparr>"

definition pong :: "bytes \<Rightarrow> ping" where
  "pong p = \<lparr>ping_ack = True, ping_payload = p\<rparr>"

definition ping_load :: "head \<Rightarrow> bytes \<Rightarrow> (ping, frame_error) result" where
  "ping_load h b =
     (if \<not> stream_id_is_zero (head_stream_id h) then Err InvalidStreamId
      else if length b \<noteq> 8 then Err BadFrameSize
      else Ok \<lparr>ping_ack = (head_flag h AND PING_ACK_FLAG \<noteq> 0), ping_payload = b\<rparr>)"

definition ping_flags :: "ping \<Rightarrow> u8" where
  "ping_flags f = (if ping_ack f then PING_ACK_FLAG else 0)"

definition ping_encode :: "ping \<Rightarrow> bytes \<Rightarrow> bytes" where
  "ping_encode f dst =
     head_encode (head_new Kind_Ping (ping_flags f) stream_id_ZERO) (length (ping_payload f)) dst
       @ ping_payload f"

interpretation ping_wire: frame_codec
  "\<lambda>f. head_new Kind_Ping (ping_flags f) stream_id_ZERO" ping_payload
  ping_encode ping_load "\<lambda>f. length (ping_payload f) = 8"
  by unfold_locales
     (auto simp: ping_encode_def ping_load_def head_new_def ping_flags_def PING_ACK_FLAG_def
       stream_id_ZERO_def stream_id_is_zero_def stream_id_ok_def)

section \<open>GOAWAY\<close>

record go_away =
  ga_last_stream_id :: stream_id
  ga_error_code :: reason
  ga_debug_data :: bytes

definition go_away_new :: "stream_id \<Rightarrow> reason \<Rightarrow> go_away" where
  "go_away_new s r = \<lparr>ga_last_stream_id = s, ga_error_code = r, ga_debug_data = []\<rparr>"

definition go_away_load :: "bytes \<Rightarrow> (go_away, frame_error) result" where
  "go_away_load payload =
     (if length payload < 8 then Err BadFrameSize
      else rbind (slice_to payload 4) (\<lambda>id.
           rbind (stream_id_parse id) (\<lambda>(last_stream_id, _).
           rbind (unpack_octets_4 payload 4) (\<lambda>error_code.
           rbind (slice_from payload 8) (\<lambda>debug_data.
             Ok \<lparr>ga_last_stream_id = last_stream_id, ga_error_code = Reason error_code,
                 ga_debug_data = debug_data\<rparr>)))))"

definition go_away_encode :: "go_away \<Rightarrow> bytes \<Rightarrow> bytes" where
  "go_away_encode f dst =
     head_encode (head_new Kind_GoAway 0 stream_id_ZERO) 8 dst
       @ be_u32 (sid_word (ga_last_stream_id f)) @ be_u32 (reason_code (ga_error_code f))"

text \<open>The encoder never writes debug data, so a frame that carries some does not round-trip.\<close>

definition go_away_ok :: "go_away \<Rightarrow> bool" where
  "go_away_ok f \<longleftrightarrow> stream_id_ok (ga_last_stream_id f) \<and> ga_debug_data f = []"

lemma go_away_load_Ok:
  assumes "8 \<le> length payload"
  shows "go_away_load payload = Ok \<lparr>
    ga_last_stream_id = StreamId (join_u32 (payload ! 0) (payload ! 1) (payload ! 2) (payload ! 3)
      AND NOT STREAM_ID_MASK),
    ga_error_code = Reason (join_u32 (payload ! 4) (payload ! 5) (payload ! 6) (payload ! 7)),
    ga_debug_data = drop 8 payload\<rparr>"
  using assms by (simp add: go_away_load_def slices stream_id_parse_Ok Let_def)

interpretation go_away_wire: frame_codec
  "\<lambda>f. head_new Kind_GoAway 0 stream_id_ZERO"
  "\<lambda>f. be_u32 (sid_word (ga_last_stream_id f)) @ be_u32 (reason_code (ga_error_code f))"
  go_away_encode "\<lambda>_. go_away_load" go_away_ok
proof unfold_locales
  fix f :: go_away
  assume "go_away_ok f"
  then show "go_away_load (be_u32 (sid_word (ga_last_stream_id f))
      @ be_u32 (reason_code (ga_error_code f))) = Ok f"
    by (cases f) (simp add: go_away_load_Ok go_away_ok_def be_u32_def stream_id_ok_def
        clear_mask_id)
qed (auto simp: go_away_encode_def head_new_def stream_id_ZERO_def stream_id_ok_def)

end
