(* ===== verification/Frame_Settings.thy ===== *)
theory Frame_Settings
  imports Frame_Control
begin

text \<open>
  The \<open>SETTINGS\<close> frame (\<open>h2/frame/settings.rs\<close>): the record of settings, one setting on the
  wire, the decoder with its value checks and the encoder. \<open>Settings::for_each\<close> is the list
  of the settings it visits, in its order.
\<close>

section \<open>Chunks of a slice\<close>

text \<open>\<open>payload.chunks(n)\<close> of the standard library, for a positive \<open>n\<close>; the last chunk may be short.\<close>

function chunks :: "nat \<Rightarrow> 'a list \<Rightarrow> 'a list list" where
  "chunks n xs = (if n = 0 \<or> xs = [] then [] else take n xs # chunks n (drop n xs))"
  by auto
termination by (relation "measure (\<lambda>(n, xs). length xs)") auto

declare chunks.simps [simp del]

lemma chunks_Nil [simp]: "chunks n [] = []"
  by (simp add: chunks.simps)

lemma chunks_append [simp]:
  "length c = n \<Longrightarrow> n \<noteq> 0 \<Longrightarrow> chunks n (c @ xs) = c # chunks n xs"
  by (subst chunks.simps) auto

lemma length_in_chunks:
  assumes "c \<in> set (chunks n xs)" "n dvd length xs"
  shows "length c = n"
  using assms
proof (induction n xs rule: chunks.induct)
  case (1 n xs)
  show ?case
  proof (cases "n = 0 \<or> xs = []")
    case False
    with "1.prems"(2) have "n \<le> length xs" by (simp add: dvd_imp_le)
    with False 1 show ?thesis
      by (subst (asm) chunks.simps [of n xs]) (auto simp: dvd_diff_nat)
  qed (use 1 in \<open>auto simp: chunks.simps [of n xs]\<close>)
qed

section \<open>The settings\<close>

datatype setting =
    HeaderTableSize u32
  | EnablePush u32
  | MaxConcurrentStreams u32
  | InitialWindowSize u32
  | MaxFrameSize u32
  | MaxHeaderListSize u32

record settings =
  settings_flags :: u8
  header_table_size :: "u32 option"
  enable_push :: "u32 option"
  max_concurrent_streams :: "u32 option"
  initial_window_size :: "u32 option"
  max_frame_size :: "u32 option"
  max_header_list_size :: "u32 option"

definition SETTINGS_ACK :: u8 where "SETTINGS_ACK = 0x1"
definition SETTINGS_ALL :: u8 where "SETTINGS_ALL = SETTINGS_ACK"
definition DEFAULT_SETTINGS_HEADER_TABLE_SIZE :: nat where
  "DEFAULT_SETTINGS_HEADER_TABLE_SIZE = 4096"
definition DEFAULT_INITIAL_WINDOW_SIZE :: u32 where "DEFAULT_INITIAL_WINDOW_SIZE = 65535"
definition DEFAULT_MAX_FRAME_SIZE :: u32 where "DEFAULT_MAX_FRAME_SIZE = 16384"
definition MAX_INITIAL_WINDOW_SIZE :: nat where "MAX_INITIAL_WINDOW_SIZE = 2147483647"
definition MAX_MAX_FRAME_SIZE :: u32 where "MAX_MAX_FRAME_SIZE = 16777215"

lemmas settings_consts =
  SETTINGS_ACK_def SETTINGS_ALL_def DEFAULT_MAX_FRAME_SIZE_def MAX_INITIAL_WINDOW_SIZE_def
  MAX_MAX_FRAME_SIZE_def

definition settings_default :: settings where
  "settings_default = \<lparr>settings_flags = 0, header_table_size = None, enable_push = None,
     max_concurrent_streams = None, initial_window_size = None, max_frame_size = None,
     max_header_list_size = None\<rparr>"

definition settings_ack :: settings where
  "settings_ack = settings_default\<lparr>settings_flags := SETTINGS_ACK\<rparr>"

definition flags_is_ack :: "u8 \<Rightarrow> bool" where
  "flags_is_ack f \<longleftrightarrow> f AND SETTINGS_ACK = SETTINGS_ACK"

definition settings_is_ack :: "settings \<Rightarrow> bool" where
  "settings_is_ack s \<longleftrightarrow> flags_is_ack (settings_flags s)"

definition set_max_frame_size :: "u32 option \<Rightarrow> settings \<Rightarrow> (settings, 'e) result" where
  "set_max_frame_size sz s =
     (case sz of
        Some val \<Rightarrow>
          rbind (assert_that (DEFAULT_MAX_FRAME_SIZE \<le> val \<and> val \<le> MAX_MAX_FRAME_SIZE)) (\<lambda>_.
            Ok (s\<lparr>max_frame_size := sz\<rparr>))
      | None \<Rightarrow> Ok (s\<lparr>max_frame_size := sz\<rparr>))"

definition set_enable_push :: "bool \<Rightarrow> settings \<Rightarrow> settings" where
  "set_enable_push enable s = s\<lparr>enable_push := Some (if enable then 1 else 0)\<rparr>"

definition is_push_enabled :: "settings \<Rightarrow> bool option" where
  "is_push_enabled s = map_option (\<lambda>val. val \<noteq> 0) (enable_push s)"

definition settings_list :: "settings \<Rightarrow> setting list" where
  "settings_list s =
     (case header_table_size s of Some v \<Rightarrow> [HeaderTableSize v] | None \<Rightarrow> []) @
     (case enable_push s of Some v \<Rightarrow> [EnablePush v] | None \<Rightarrow> []) @
     (case max_concurrent_streams s of Some v \<Rightarrow> [MaxConcurrentStreams v] | None \<Rightarrow> []) @
     (case initial_window_size s of Some v \<Rightarrow> [InitialWindowSize v] | None \<Rightarrow> []) @
     (case max_frame_size s of Some v \<Rightarrow> [MaxFrameSize v] | None \<Rightarrow> []) @
     (case max_header_list_size s of Some v \<Rightarrow> [MaxHeaderListSize v] | None \<Rightarrow> [])"

section \<open>One setting on the wire\<close>

definition setting_from_id :: "u16 \<Rightarrow> u32 \<Rightarrow> setting option" where
  "setting_from_id i val =
     (if i = 1 then Some (HeaderTableSize val)
      else if i = 2 then Some (EnablePush val)
      else if i = 3 then Some (MaxConcurrentStreams val)
      else if i = 4 then Some (InitialWindowSize val)
      else if i = 5 then Some (MaxFrameSize val)
      else if i = 6 then Some (MaxHeaderListSize val)
      else None)"

definition setting_load :: "bytes \<Rightarrow> (setting option, frame_error) result" where
  "setting_load raw =
     rbind (index_at raw 0) (\<lambda>a.
     rbind (index_at raw 1) (\<lambda>b.
     rbind (unpack_octets_4 raw 2) (\<lambda>val.
       Ok (setting_from_id (join_u16 a b) val))))"

fun setting_kind_val :: "setting \<Rightarrow> u16 \<times> u32" where
  "setting_kind_val (HeaderTableSize v) = (1, v)"
| "setting_kind_val (EnablePush v) = (2, v)"
| "setting_kind_val (MaxConcurrentStreams v) = (3, v)"
| "setting_kind_val (InitialWindowSize v) = (4, v)"
| "setting_kind_val (MaxFrameSize v) = (5, v)"
| "setting_kind_val (MaxHeaderListSize v) = (6, v)"

definition setting_encode :: "setting \<Rightarrow> bytes \<Rightarrow> bytes" where
  "setting_encode s dst = (case setting_kind_val s of (k, v) \<Rightarrow> dst @ be_u16 k @ be_u32 v)"

section \<open>The decoder\<close>

text \<open>
  The body of the loop over the chunks: an assignment to the field, or the early return on a value
  out of range; an unknown identifier is skipped.
\<close>

fun settings_apply :: "settings \<Rightarrow> setting option \<Rightarrow> (settings, frame_error) result" where
  "settings_apply s (Some (HeaderTableSize val)) = Ok (s\<lparr>header_table_size := Some val\<rparr>)"
| "settings_apply s (Some (EnablePush val)) =
     (if val = 0 \<or> val = 1 then Ok (s\<lparr>enable_push := Some val\<rparr>) else Err InvalidSettingValue)"
| "settings_apply s (Some (MaxConcurrentStreams val)) =
     Ok (s\<lparr>max_concurrent_streams := Some val\<rparr>)"
| "settings_apply s (Some (InitialWindowSize val)) =
     (if unat val > MAX_INITIAL_WINDOW_SIZE then Err InvalidSettingValue
      else Ok (s\<lparr>initial_window_size := Some val\<rparr>))"
| "settings_apply s (Some (MaxFrameSize val)) =
     (if val < DEFAULT_MAX_FRAME_SIZE \<or> val > MAX_MAX_FRAME_SIZE then Err InvalidSettingValue
      else Ok (s\<lparr>max_frame_size := Some val\<rparr>))"
| "settings_apply s (Some (MaxHeaderListSize val)) =
     Ok (s\<lparr>max_header_list_size := Some val\<rparr>)"
| "settings_apply s None = Ok s"

fun settings_load_chunks :: "bytes list \<Rightarrow> settings \<Rightarrow> (settings, frame_error) result" where
  "settings_load_chunks [] s = Ok s"
| "settings_load_chunks (raw # raws) s =
     rbind (setting_load raw) (\<lambda>st. rbind (settings_apply s st) (settings_load_chunks raws))"

definition settings_load :: "head \<Rightarrow> bytes \<Rightarrow> (settings, frame_error) result" where
  "settings_load h payload =
     (if \<not> stream_id_is_zero (head_stream_id h) then Err InvalidStreamId
      else let flag = head_flag h AND SETTINGS_ALL in
        if flags_is_ack flag then
          (if payload \<noteq> [] then Err InvalidPayloadLength else Ok settings_ack)
        else if length payload mod 6 \<noteq> 0 then Err InvalidPayloadAckSettings
        else settings_load_chunks (chunks 6 payload) settings_default)"

section \<open>The encoder\<close>

definition settings_payload_len :: "settings \<Rightarrow> nat" where
  "settings_payload_len s = foldl (\<lambda>n _. n + 6) 0 (settings_list s)"

definition settings_encode :: "settings \<Rightarrow> bytes \<Rightarrow> bytes" where
  "settings_encode s dst =
     (let h = head_new Kind_Settings (settings_flags s) stream_id_ZERO;
          payload_len = settings_payload_len s
      in foldl (\<lambda>d st. setting_encode st d) (head_encode h payload_len dst) (settings_list s))"

text \<open>The settings the decoder produces: values in range, and an acknowledgement is empty.\<close>

definition settings_ok :: "settings \<Rightarrow> bool" where
  "settings_ok s \<longleftrightarrow>
     s = settings_ack \<or>
     settings_flags s = 0
     \<and> (\<forall>v. enable_push s = Some v \<longrightarrow> v = 0 \<or> v = 1)
     \<and> (\<forall>v. initial_window_size s = Some v \<longrightarrow> unat v \<le> MAX_INITIAL_WINDOW_SIZE)
     \<and> (\<forall>v. max_frame_size s = Some v \<longrightarrow> DEFAULT_MAX_FRAME_SIZE \<le> v \<and> v \<le> MAX_MAX_FRAME_SIZE)"

section \<open>Correctness\<close>

abbreviation setting_bytes :: "setting \<Rightarrow> bytes" where
  "setting_bytes st \<equiv> setting_encode st []"

lemma setting_encode_append: "setting_encode st dst = dst @ setting_bytes st"
  by (simp add: setting_encode_def split: prod.split)

lemma length_setting_bytes [simp]: "length (setting_bytes st) = 6"
  by (simp add: setting_encode_def split: prod.split)

lemma setting_from_kind_val: "setting_kind_val st = (k, v) \<Longrightarrow> setting_from_id k v = Some st"
  by (cases st) (auto simp: setting_from_id_def)

lemma setting_load_bytes [simp]: "setting_load (setting_bytes st) = Ok (Some st)"
  by (auto simp: setting_load_def setting_encode_def be_u16_def be_u32_def slices
      setting_from_kind_val split: prod.split)

lemma foldl_setting_encode:
  "foldl (\<lambda>d st. setting_encode st d) dst sts = dst @ concat (map setting_bytes sts)"
proof (induction sts arbitrary: dst)
  case (Cons st sts)
  then show ?case by (simp add: setting_encode_append [of st dst])
qed simp

lemma foldl_add_const: "foldl (\<lambda>n _. n + c) k xs = (k :: nat) + c * length xs"
  by (induction xs arbitrary: k) simp_all

lemma settings_payload_len_eq:
  "settings_payload_len s = length (concat (map setting_bytes (settings_list s)))"
  by (simp add: settings_payload_len_def foldl_add_const length_concat comp_def sum_list_triv)

lemma chunks_settings [simp]:
  "chunks 6 (concat (map setting_bytes sts)) = map setting_bytes sts"
  by (induction sts) simp_all

lemma setting_load_Ok: "length raw = 6 \<Longrightarrow> \<exists>st. setting_load raw = Ok st"
  by (simp add: setting_load_def slices)

lemma settings_apply_ok:
  assumes "settings_apply s st = Ok s'" "settings_ok s" "settings_flags s = 0"
  shows "settings_ok s' \<and> settings_flags s' = 0"
proof (cases st)
  case (Some x)
  with assms show ?thesis
    by (cases x) (auto simp: settings_ok_def settings_ack_def settings_consts
        split: if_splits)
qed (use assms in simp)

lemma settings_load_chunks_ok:
  "settings_load_chunks raws s = Ok s' \<Longrightarrow> settings_ok s \<Longrightarrow> settings_flags s = 0 \<Longrightarrow>
     settings_ok s' \<and> settings_flags s' = 0"
proof (induction raws arbitrary: s)
  case (Cons raw raws)
  then obtain st s1 where "settings_apply s st = Ok s1"
    "settings_load_chunks raws s1 = Ok s'" by (auto simp: rbind_eq_Ok)
  with Cons settings_apply_ok [of s st s1] show ?case by blast
qed simp

lemma settings_apply_no_panic: "settings_apply s st \<noteq> Panic"
  by (cases "(s, st)" rule: settings_apply.cases) auto

lemma settings_load_chunks_no_panic:
  "\<forall>raw \<in> set raws. length raw = 6 \<Longrightarrow> settings_load_chunks raws s \<noteq> Panic"
proof (induction raws arbitrary: s)
  case (Cons raw raws)
  then obtain st where "setting_load raw = Ok st" using setting_load_Ok [of raw] by auto
  with Cons show ?case
    by (auto simp: rbind_eq_Panic settings_apply_no_panic)
qed simp

lemma settings_default_ok [simp]: "settings_ok settings_default"
  by (simp add: settings_ok_def settings_default_def)

lemma settings_load_chunks_append:
  "settings_load_chunks (raws @ raws') s =
     rbind (settings_load_chunks raws s) (settings_load_chunks raws')"
proof (induction raws arbitrary: s)
  case (Cons raw raws)
  then show ?case by (cases "setting_load raw") (auto simp: rbind_assoc intro!: rbind_cong)
qed simp

text \<open>Loading back the settings of one optional field sets that field.\<close>

lemma settings_load_opt:
  assumes "\<And>v. x = Some v \<Longrightarrow> settings_apply s (Some (C v)) = Ok (upd (\<lambda>_. Some v) s)"
    "x = None \<Longrightarrow> upd (\<lambda>_. None) s = s"
  shows "settings_load_chunks (map setting_bytes (case x of Some v \<Rightarrow> [C v] | None \<Rightarrow> [])) s =
    Ok (upd (\<lambda>_. x) s)"
  using assms by (cases x) simp_all

lemma settings_load_chunks_list:
  assumes "settings_ok s" "settings_flags s = 0"
  shows "settings_load_chunks (map setting_bytes (settings_list s)) settings_default = Ok s"
proof -
  have ok: "settings_ok s" "s \<noteq> settings_ack"
    using assms by (auto simp: settings_ack_def settings_consts)
  define load where "load x C = settings_load_chunks (map setting_bytes
    (case x of Some v \<Rightarrow> [C v] | None \<Rightarrow> []))" for x and C :: "u32 \<Rightarrow> setting"
  define s1 where "s1 = settings_default\<lparr>header_table_size := header_table_size s\<rparr>"
  define s2 where "s2 = s1\<lparr>enable_push := enable_push s\<rparr>"
  define s3 where "s3 = s2\<lparr>max_concurrent_streams := max_concurrent_streams s\<rparr>"
  define s4 where "s4 = s3\<lparr>initial_window_size := initial_window_size s\<rparr>"
  define s5 where "s5 = s4\<lparr>max_frame_size := max_frame_size s\<rparr>"
  define s6 where "s6 = s5\<lparr>max_header_list_size := max_header_list_size s\<rparr>"
  have 1: "load (header_table_size s) HeaderTableSize settings_default = Ok s1"
    unfolding load_def s1_def
    by (rule settings_load_opt)
      (use ok in \<open>auto simp: settings_default_def \<close>)
  have 2: "load (enable_push s) EnablePush s1 = Ok s2"
    unfolding load_def s2_def
    by (rule settings_load_opt)
      (use ok in \<open>auto simp: settings_default_def settings_ok_def s1_def\<close>)
  have 3: "load (max_concurrent_streams s) MaxConcurrentStreams s2 = Ok s3"
    unfolding load_def s3_def
    by (rule settings_load_opt)
      (use ok in \<open>auto simp: settings_default_def s1_def s2_def\<close>)
  have 4: "load (initial_window_size s) InitialWindowSize s3 = Ok s4"
    unfolding load_def s4_def
    by (rule settings_load_opt)
      (use ok in \<open>auto simp: settings_default_def settings_ok_def s1_def s2_def s3_def\<close>)
  have 5: "load (max_frame_size s) MaxFrameSize s4 = Ok s5"
    unfolding load_def s5_def
    by (rule settings_load_opt)
      (use ok in \<open>auto simp: settings_default_def settings_ok_def s1_def s2_def s3_def s4_def\<close>)
  have 6: "load (max_header_list_size s) MaxHeaderListSize s5 = Ok s6"
    unfolding load_def s6_def
    by (rule settings_load_opt)
      (use ok in \<open>auto simp: settings_default_def s1_def s2_def s3_def s4_def s5_def\<close>)
  have "settings_load_chunks (map setting_bytes (settings_list s)) settings_default = Ok s6"
    unfolding settings_list_def map_append settings_load_chunks_append load_def [symmetric]
    by (simp add: 1 2 3 4 5 6)
  also have "s6 = s"
    by (cases s) (use assms(2) in \<open>simp add: s6_def s5_def s4_def s3_def s2_def s1_def settings_default_def\<close>)
  finally show ?thesis .
qed

lemma settings_list_ack [simp]: "settings_list settings_ack = []"
  by (simp add: settings_list_def settings_ack_def settings_default_def)

interpretation settings_wire: frame_codec
  "\<lambda>s. head_new Kind_Settings (settings_flags s) stream_id_ZERO"
  "\<lambda>s. concat (map setting_bytes (settings_list s))"
  settings_encode settings_load settings_ok
proof unfold_locales
  fix s :: settings and dst :: bytes
  show "settings_encode s dst = head_encode (head_new Kind_Settings (settings_flags s) stream_id_ZERO)
      (length (concat (map setting_bytes (settings_list s)))) dst
      @ concat (map setting_bytes (settings_list s))"
    by (simp add: settings_encode_def Let_def foldl_setting_encode settings_payload_len_eq)
next
  fix s :: settings
  assume ok: "settings_ok s"
  show "settings_load (head_new Kind_Settings (settings_flags s) stream_id_ZERO)
      (concat (map setting_bytes (settings_list s))) = Ok s"
  proof (cases "s = settings_ack")
    case True
    then show ?thesis
      by (simp add: settings_load_def head_new_def stream_id_ZERO_def stream_id_is_zero_def
          flags_is_ack_def settings_consts) (simp add: settings_ack_def settings_consts)
  next
    case False
    with ok have "settings_flags s = 0" by (auto simp: settings_ok_def)
    with ok show ?thesis
      by (simp add: settings_load_def head_new_def stream_id_ZERO_def stream_id_is_zero_def
          flags_is_ack_def settings_consts settings_load_chunks_list length_concat comp_def
          sum_list_triv)
  qed
qed (simp add: head_new_def stream_id_ZERO_def stream_id_ok_def)

lemma settings_load_result:
  assumes "settings_load h payload = Ok s"
  shows "settings_ok s"
proof -
  have "settings_flags settings_default = 0" by (simp add: settings_default_def)
  from settings_load_chunks_ok [OF _ settings_default_ok this] assms show ?thesis
    by (auto simp: settings_load_def Let_def settings_ok_def [of settings_ack] split: if_splits)
qed

lemma settings_load_no_panic: "settings_load h payload \<noteq> Panic"
proof (cases "6 dvd length payload")
  case True
  then have "\<forall>raw \<in> set (chunks 6 payload). length raw = 6" by (auto dest: length_in_chunks)
  then show ?thesis
    by (auto simp: settings_load_def Let_def dest: settings_load_chunks_no_panic)
qed (simp add: settings_load_def Let_def dvd_eq_mod_eq_0)

text \<open>Settings whose identifier is not known are skipped.\<close>

lemma settings_load_chunks_unknown:
  assumes "setting_load raw = Ok None"
  shows "settings_load_chunks (raws @ raw # raws') s = settings_load_chunks (raws @ raws') s"
proof (induction raws arbitrary: s)
  case (Cons r raws)
  then show ?case by (auto intro!: rbind_cong)
qed (simp add: assms)

end
