(* ===== verification/Frame_Data.thy ===== *)
theory Frame_Data
  imports Frame_Control
begin

text \<open>
  The \<open>DATA\<close> frame (\<open>h2/frame/data.rs\<close>) and the padding that \<open>DATA\<close>, \<open>HEADERS\<close> and
  \<open>PUSH_PROMISE\<close> frames share (\<open>util::strip_padding\<close> of \<open>h2/frame/util.rs\<close>).
\<close>

section \<open>Padding\<close>

text \<open>
  The payload is a \<open>Bytes\<close>: \<open>split_to(1)\<close> drops the length byte, \<open>split_off(n)\<close> keeps the first
  \<open>n\<close> bytes of the rest; both panic when the position is out of range. The result is the padding
  length with what is left of the payload.
\<close>

definition strip_padding :: "bytes \<Rightarrow> (u8 \<times> bytes, frame_error) result" where
  "strip_padding payload =
     (let payload_len = length payload in
      if payload_len = 0 then Err TooMuchPadding
      else rbind (index_at payload 0) (\<lambda>p.
        let pad_len = unat p in
        if pad_len \<ge> payload_len then Err TooMuchPadding
        else rbind (slice_from payload 1) (\<lambda>rest.
             rbind (slice_to rest (payload_len - pad_len - 1)) (\<lambda>body.
               Ok (word_of_nat pad_len, body)))))"

lemma strip_padding_Nil [simp]: "strip_padding [] = Err TooMuchPadding"
  by (simp add: strip_padding_def)

lemma strip_padding_Cons:
  "strip_padding (p # body) =
     (if unat p > length body then Err TooMuchPadding
      else Ok (p, take (length body - unat p) body))"
  by (simp add: strip_padding_def slices Let_def Suc_le_eq not_less less_Suc_eq_le)

lemma strip_padding_padded [simp]:
  "unat p = length pad \<Longrightarrow> strip_padding (p # body @ pad) = Ok (p, body)"
  by (simp add: strip_padding_Cons)

lemma strip_padding_no_panic: "strip_padding payload \<noteq> Panic"
  by (cases payload) (simp_all add: strip_padding_Cons)

lemma strip_padding_eq_Ok_iff:
  "strip_padding payload = Ok (p, body) \<longleftrightarrow>
     (\<exists>pad. payload = p # body @ pad \<and> length pad = unat p)"
proof (cases payload)
  case (Cons q rest)
  show ?thesis
  proof
    assume "strip_padding payload = Ok (p, body)"
    with Cons have "q = p" "unat p \<le> length rest" "body = take (length rest - unat p) rest"
      by (auto simp: strip_padding_Cons split: if_splits)
    with Cons have "payload = p # body @ drop (length rest - unat p) rest \<and>
      length (drop (length rest - unat p) rest) = unat p" by simp
    then show "\<exists>pad. payload = p # body @ pad \<and> length pad = unat p" by blast
  qed (auto simp: strip_padding_Cons)
qed simp

section \<open>The frame\<close>

record 'a data_frame =
  data_stream_id :: stream_id
  data_data :: 'a
  data_flags :: u8
  data_pad_len :: "u8 option"

definition END_STREAM :: u8 where "END_STREAM = 0x1"
definition PADDED :: u8 where "PADDED = 0x8"
definition DATA_ALL :: u8 where "DATA_ALL = END_STREAM OR PADDED"

definition data_new :: "stream_id \<Rightarrow> 'a \<Rightarrow> ('a data_frame, 'e) result" where
  "data_new s payload =
     rbind (assert_that (\<not> stream_id_is_zero s)) (\<lambda>_.
       Ok \<lparr>data_stream_id = s, data_data = payload, data_flags = 0, data_pad_len = None\<rparr>)"

definition data_is_end_stream :: "'a data_frame \<Rightarrow> bool" where
  "data_is_end_stream f \<longleftrightarrow> data_flags f AND END_STREAM = END_STREAM"

definition data_set_end_stream :: "bool \<Rightarrow> 'a data_frame \<Rightarrow> 'a data_frame" where
  "data_set_end_stream val f =
     (if val then f\<lparr>data_flags := data_flags f OR END_STREAM\<rparr>
      else f\<lparr>data_flags := data_flags f AND NOT END_STREAM\<rparr>)"

definition data_is_padded :: "u8 \<Rightarrow> bool" where
  "data_is_padded flags \<longleftrightarrow> flags AND PADDED = PADDED"

definition data_head :: "'a data_frame \<Rightarrow> head" where
  "data_head f = head_new Kind_Data (data_flags f) (data_stream_id f)"

definition data_map :: "('a \<Rightarrow> 'b) \<Rightarrow> 'a data_frame \<Rightarrow> 'b data_frame" where
  "data_map g f = \<lparr>data_stream_id = data_stream_id f, data_data = g (data_data f),
     data_flags = data_flags f, data_pad_len = data_pad_len f\<rparr>"

definition data_load :: "head \<Rightarrow> bytes \<Rightarrow> (bytes data_frame, frame_error) result" where
  "data_load h payload =
     (let flags = head_flag h AND DATA_ALL in
      if stream_id_is_zero (head_stream_id h) then Err InvalidStreamId
      else rbind
        (if data_is_padded flags
         then rbind (strip_padding payload) (\<lambda>(len, body). Ok (Some len, body))
         else Ok (None, payload))
        (\<lambda>(pad_len, body).
          Ok \<lparr>data_stream_id = head_stream_id h, data_data = body, data_flags = flags,
              data_pad_len = pad_len\<rparr>))"

text \<open>
  \<open>encode_chunk\<close> moves the remaining payload into \<open>dst\<close>, whose free capacity is \<open>remaining_mut\<close>.
  The frame keeps an exhausted buffer.
\<close>

definition data_encode_chunk ::
  "bytes data_frame \<Rightarrow> nat \<Rightarrow> bytes \<Rightarrow> (bytes data_frame \<times> bytes, 'e) result" where
  "data_encode_chunk f remaining_mut dst =
     (let len = length (data_data f) in
      rbind (assert_that (remaining_mut \<ge> len)) (\<lambda>_.
        Ok (f\<lparr>data_data := []\<rparr>, head_encode (data_head f) len dst @ data_data f)))"

text \<open>The frames the crate sends: no padding and at most the flag \<open>END_STREAM\<close>.\<close>

definition data_ok :: "'a data_frame \<Rightarrow> bool" where
  "data_ok f \<longleftrightarrow> stream_id_ok (data_stream_id f) \<and> \<not> stream_id_is_zero (data_stream_id f)
     \<and> (data_flags f = 0 \<or> data_flags f = END_STREAM) \<and> data_pad_len f = None"

section \<open>Correctness\<close>

lemmas data_flag_defs = END_STREAM_def PADDED_def DATA_ALL_def

lemma END_STREAM_iff: "w AND END_STREAM = END_STREAM \<longleftrightarrow> bit w 0"
  using and_flag_iff [of 0 w] by (simp add: END_STREAM_def)

lemma bit_END_STREAM: "bit END_STREAM n \<longleftrightarrow> n = 0"
  by (simp add: END_STREAM_def bit_1_iff)

lemma PADDED_iff: "w AND PADDED = PADDED \<longleftrightarrow> bit w 3"
  using and_flag_iff [of 3 w] by (simp add: PADDED_def)

lemma data_new_ok:
  "stream_id_ok s \<Longrightarrow> \<not> stream_id_is_zero s \<Longrightarrow> \<exists>f. data_new s p = Ok f \<and> data_ok f \<and> data_data f = p"
  by (simp add: data_new_def data_ok_def)

lemma data_set_end_stream_ok: "data_ok f \<Longrightarrow> data_ok (data_set_end_stream val f)"
  by (auto simp: data_ok_def data_set_end_stream_def END_STREAM_def)

lemma data_is_end_stream_set [simp]:
  "data_is_end_stream (data_set_end_stream val f) \<longleftrightarrow> val"
  by (simp add: data_is_end_stream_def data_set_end_stream_def END_STREAM_iff bit_simps
      bit_END_STREAM)

lemma data_map_ok [simp]: "data_ok (data_map g f) \<longleftrightarrow> data_ok f"
  by (simp add: data_ok_def data_map_def)

text \<open>
  The encoder as a function of the destination alone; \<open>remaining_mut\<close> of a growable buffer is as
  large as its payload.
\<close>

definition data_encode :: "bytes data_frame \<Rightarrow> bytes \<Rightarrow> bytes" where
  "data_encode f dst =
     (case data_encode_chunk f (length (data_data f)) dst of
        Ok (_, out) \<Rightarrow> out | Err (e :: unit) \<Rightarrow> dst | Panic \<Rightarrow> dst)"

lemma data_encode_eq:
  "data_encode f dst = head_encode (data_head f) (length (data_data f)) dst @ data_data f"
  by (simp add: data_encode_def data_encode_chunk_def Let_def)

lemma data_encode_chunk_Ok:
  "length (data_data f) \<le> room \<Longrightarrow>
     data_encode_chunk f room dst = Ok (f\<lparr>data_data := []\<rparr>, data_encode f dst)"
  by (simp add: data_encode_chunk_def data_encode_eq Let_def)

interpretation data_wire: frame_codec data_head data_data data_encode data_load data_ok
proof unfold_locales
  fix f :: "bytes data_frame"
  assume ok: "data_ok f"
  then show "data_load (data_head f) (data_data f) = Ok f"
    by (cases f)
      (auto simp: data_load_def data_head_def head_new_def data_ok_def data_is_padded_def
        data_flag_defs Let_def)
  show "stream_id_ok (head_stream_id (data_head f))"
    using ok by (simp add: data_head_def head_new_def data_ok_def)
qed (simp add: data_encode_eq)

lemma data_load_no_panic: "data_load h payload \<noteq> Panic"
  by (auto simp: data_load_def Let_def rbind_eq_Panic strip_padding_no_panic)

lemma data_load_zero: "stream_id_is_zero (head_stream_id h) \<Longrightarrow> data_load h p = Err InvalidStreamId"
  by (simp add: data_load_def Let_def)

lemma data_load_padded:
  assumes "\<not> stream_id_is_zero (head_stream_id h)" "data_is_padded (head_flag h)"
  shows "data_load h payload = Ok f \<longleftrightarrow>
    (\<exists>p pad. payload = p # data_data f @ pad \<and> length pad = unat p \<and> data_pad_len f = Some p)
    \<and> data_stream_id f = head_stream_id h \<and> data_flags f = head_flag h AND DATA_ALL"
proof -
  have "data_is_padded (head_flag h AND DATA_ALL)"
    using assms(2) by (simp add: data_is_padded_def PADDED_iff bit_simps DATA_ALL_def END_STREAM_def)
      (simp add: PADDED_def bit_numeral_rec)
  with assms(1) show ?thesis
    by (cases f) (auto simp: data_load_def Let_def rbind_eq_Ok strip_padding_eq_Ok_iff)
qed

end
