(* ===== verification/Hpack_Integer.thy ===== *)
theory Hpack_Integer
  imports Frame_Head
begin

text \<open>
  The buffers HPACK reads from and writes to, and the integer representation:
  \<open>decode_int\<close>, \<open>peek_u8\<close>, \<open>take\<close> and \<open>consume\<close> of \<open>h2/hpack/decoder.rs\<close>, \<open>encode_int\<close> and
  \<open>encode_int_one_byte\<close> of \<open>h2/hpack/encoder.rs\<close>. A \<open>usize\<close> is a natural number: the bounds
  proved here show that no sum or shift reaches \<open>2 ^ 64\<close>.
\<close>

section \<open>The cursor of the decoder\<close>

text \<open>
  \<open>Cursor<&mut BytesMut>\<close>: the bytes of the buffer and a position. \<open>take\<close> splits the bytes
  up to the position and \<open>n\<close> more off the buffer and resets the position.
\<close>

record cursor =
  cur_data :: bytes
  cur_pos :: nat

definition cursor_new :: "bytes \<Rightarrow> cursor" where
  "cursor_new d = \<lparr>cur_data = d, cur_pos = 0\<rparr>"

definition cur_rest :: "cursor \<Rightarrow> bytes" where
  "cur_rest c = drop (cur_pos c) (cur_data c)"

definition remaining :: "cursor \<Rightarrow> nat" where
  "remaining c = length (cur_rest c)"

definition has_remaining :: "cursor \<Rightarrow> bool" where
  "has_remaining c \<longleftrightarrow> remaining c > 0"

definition advance :: "nat \<Rightarrow> cursor \<Rightarrow> cursor" where
  "advance n c = c\<lparr>cur_pos := cur_pos c + n\<rparr>"

definition peek_u8 :: "cursor \<Rightarrow> u8 option" where
  "peek_u8 c = (if has_remaining c then Some (hd (cur_rest c)) else None)"

definition get_u8 :: "(cursor, u8, 'e) op" where
  "get_u8 c = (case cur_rest c of [] \<Rightarrow> (Panic, c) | b # _ \<Rightarrow> (Ok b, advance 1 c))"

definition take_bytes :: "nat \<Rightarrow> (cursor, bytes, 'e) op" where
  "take_bytes n c =
     (if cur_pos c + n \<le> length (cur_data c)
      then (Ok (take n (cur_rest c)), cursor_new (drop (cur_pos c + n) (cur_data c)))
      else (Panic, c))"

definition consume :: "(cursor, unit, 'e) op" where
  "consume = sbind (take_bytes 0) (\<lambda>_. sret ())"

lemma has_remaining_iff: "has_remaining c \<longleftrightarrow> cur_rest c \<noteq> []"
  by (simp add: has_remaining_def remaining_def)

lemma cur_rest_advance [simp]: "cur_rest (advance n c) = drop n (cur_rest c)"
  by (simp add: cur_rest_def advance_def add.commute)

lemma cur_rest_new [simp]: "cur_rest (cursor_new d) = d"
  by (simp add: cur_rest_def cursor_new_def)

lemma cur_data_advance [simp]: "cur_data (advance n c) = cur_data c"
  by (simp add: advance_def)

lemma cur_pos_advance [simp]: "cur_pos (advance n c) = cur_pos c + n"
  by (simp add: advance_def)

lemma advance_advance [simp]: "advance m (advance n c) = advance (n + m) c"
  by (simp add: advance_def)

lemma advance_0 [simp]: "advance 0 c = c"
  by (simp add: advance_def)

lemma peek_u8_Cons [simp]: "cur_rest c = b # bs \<Longrightarrow> peek_u8 c = Some b"
  by (simp add: peek_u8_def has_remaining_iff)

lemma peek_u8_eq_None_iff [simp]: "peek_u8 c = None \<longleftrightarrow> cur_rest c = []"
  by (simp add: peek_u8_def has_remaining_iff)

lemma peek_u8_eq_Some_iff: "peek_u8 c = Some b \<longleftrightarrow> (\<exists>bs. cur_rest c = b # bs)"
  by (cases "cur_rest c") (auto simp: peek_u8_def has_remaining_iff)

lemma get_u8_Cons [simp]: "cur_rest c = b # bs \<Longrightarrow> get_u8 c = (Ok b, advance 1 c)"
  by (simp add: get_u8_def)

lemma take_bytes_Ok:
  "n \<le> length (cur_rest c) \<Longrightarrow> cur_pos c \<le> length (cur_data c) \<Longrightarrow>
     take_bytes n c = (Ok (take n (cur_rest c)), cursor_new (drop n (cur_rest c)))"
  by (simp add: take_bytes_def cur_rest_def add.commute)

lemma consume_Ok:
  "cur_pos c \<le> length (cur_data c) \<Longrightarrow> consume c = (Ok (), cursor_new (cur_rest c))"
  by (simp add: consume_def take_bytes_Ok)

section \<open>Reading an integer\<close>

definition MAX_BYTES :: nat where "MAX_BYTES = 5"
definition VARINT_MASK :: u8 where "VARINT_MASK = 0x7F"
definition VARINT_FLAG :: u8 where "VARINT_FLAG = 0x80"

function decode_int_loop :: "nat \<Rightarrow> nat \<Rightarrow> nat \<Rightarrow> (cursor, nat, decoder_error) op" where
  "decode_int_loop ret shift bytes buf =
     (if has_remaining buf then
        (case get_u8 buf of
           (Ok b, buf) \<Rightarrow>
             (let bytes = bytes + 1;
                  ret = ret + push_bit shift (unat (b AND VARINT_MASK));
                  shift = shift + 7
              in if b AND VARINT_FLAG = 0 then (Ok ret, buf)
                 else if bytes = MAX_BYTES then (Err IntegerOverflow, buf)
                 else decode_int_loop ret shift bytes buf)
         | (Err e, buf) \<Rightarrow> (Err e, buf)
         | (Panic, buf) \<Rightarrow> (Panic, buf))
      else (Err (NeedMore IntegerUnderflow), buf))"
  by auto
termination
  by (relation "measure (\<lambda>(_, _, _, buf). length (cur_rest buf))")
    (auto simp: get_u8_def has_remaining_iff split: list.splits)

declare decode_int_loop.simps [simp del]

definition prefix_mask :: "nat \<Rightarrow> u8" where
  "prefix_mask prefix_size = (if prefix_size = 8 then 0xFF else push_bit prefix_size 1 - 1)"

definition decode_int :: "nat \<Rightarrow> (cursor, nat, decoder_error) op" where
  "decode_int prefix_size buf =
     (if prefix_size < 1 \<or> prefix_size > 8 then (Err InvalidIntegerPrefix, buf)
      else if \<not> has_remaining buf then (Err (NeedMore IntegerUnderflow), buf)
      else let m = prefix_mask prefix_size in
        sbind get_u8 (\<lambda>b.
          let ret = unat (b AND m) in
          if ret < unat m then sret ret
          else decode_int_loop ret 0 1) buf)"

section \<open>Writing an integer\<close>

text \<open>
  The destinations (\<open>Limit<&mut BytesMut>\<close>, a byte slice) are a buffer and the room left in it.
  \<open>put_u8\<close> and \<open>put_slice\<close> panic when the room is exhausted; \<open>rewind\<close> truncates the buffer and
  leaves the limit as it is.
\<close>

datatype encoder_error = BufferOverflow

record dst_buf =
  dst_bytes :: bytes
  dst_room :: nat

definition put_slice :: "bytes \<Rightarrow> (dst_buf, unit, 'e) op" where
  "put_slice bs d =
     (if length bs \<le> dst_room d
      then (Ok (), d\<lparr>dst_bytes := dst_bytes d @ bs, dst_room := dst_room d - length bs\<rparr>)
      else (Panic, d))"

definition put_u8 :: "u8 \<Rightarrow> (dst_buf, unit, 'e) op" where
  "put_u8 b = put_slice [b]"

definition encode_int_one_byte :: "nat \<Rightarrow> nat \<Rightarrow> bool" where
  "encode_int_one_byte v prefix_bits \<longleftrightarrow> v < 2 ^ prefix_bits - 1"

fun encode_int_loop :: "nat \<Rightarrow> nat \<Rightarrow> (dst_buf, unit, encoder_error) op" where
  "encode_int_loop v rem d =
     (if v \<ge> 128 then
        if rem = 0 then (Err BufferOverflow, d)
        else sbind (put_u8 (0x80 OR word_of_nat v)) (\<lambda>_. encode_int_loop (v div 128) (rem - 1)) d
      else if rem = 0 then (Err BufferOverflow, d)
      else put_u8 (word_of_nat v) d)"

declare encode_int_loop.simps [simp del]

definition encode_int :: "nat \<Rightarrow> nat \<Rightarrow> u8 \<Rightarrow> (dst_buf, unit, encoder_error) op" where
  "encode_int v prefix_bits first_byte d =
     (let rem = dst_room d in
      if rem = 0 then (Err BufferOverflow, d)
      else if encode_int_one_byte v prefix_bits then put_u8 (first_byte OR word_of_nat v) d
      else
        let low = 2 ^ prefix_bits - 1;
            v = v - low
        in if v > 0x0fffffff then (Panic, d)
           else sbind (put_u8 (first_byte OR word_of_nat low)) (\<lambda>_. encode_int_loop v (rem - 1)) d)"

section \<open>The bytes of an integer\<close>

text \<open>The representation as a list of bytes, and the encoder as appending it.\<close>

fun varint :: "nat \<Rightarrow> bytes" where
  "varint v = (if v \<ge> 128 then (0x80 OR word_of_nat v) # varint (v div 128) else [word_of_nat v])"

declare varint.simps [simp del]

definition int_bytes :: "nat \<Rightarrow> nat \<Rightarrow> u8 \<Rightarrow> bytes" where
  "int_bytes v k first =
     (if encode_int_one_byte v k then [first OR word_of_nat v]
      else (first OR word_of_nat (2 ^ k - 1)) # varint (v - (2 ^ k - 1)))"

text \<open>Writing as many bytes as fit, with the error when the list is longer than the room.\<close>

definition put_all :: "bytes \<Rightarrow> (dst_buf, unit, encoder_error) op" where
  "put_all bs d =
     (if length bs \<le> dst_room d then put_slice bs d
      else (Err BufferOverflow, d\<lparr>dst_bytes := dst_bytes d @ take (dst_room d) bs, dst_room := 0\<rparr>))"

lemma put_all_Cons:
  "put_all (b # bs) d =
     (if dst_room d = 0 then (Err BufferOverflow, d)
      else sbind (put_u8 b) (\<lambda>_. put_all bs) d)"
  by (cases "dst_room d") (auto simp: put_all_def put_slice_def put_u8_def sbind_def)

lemma dst_room_put_u8:
  "put_u8 b d = (Ok (), d') \<Longrightarrow> dst_room d' = dst_room d - 1 \<and> dst_room d > 0"
  by (auto simp: put_u8_def put_slice_def split: if_splits)

lemma put_all_Nil [simp]: "put_all [] d = (Ok (), d)"
  by (simp add: put_all_def put_slice_def)

lemma put_u8_Ok:
  "0 < dst_room d \<Longrightarrow>
     put_u8 b d = (Ok (), d\<lparr>dst_bytes := dst_bytes d @ [b], dst_room := dst_room d - 1\<rparr>)"
  by (simp add: put_u8_def put_slice_def)

lemma put_all_single:
  "put_all [b] d = (if dst_room d = 0 then (Err BufferOverflow, d) else put_u8 b d)"
  by (simp add: put_all_def put_u8_def put_slice_def)

lemma encode_int_loop_eq: "encode_int_loop v (dst_room d) d = put_all (varint v) d"
proof (induction v arbitrary: d rule: less_induct)
  case (less v)
  show ?case
  proof (cases "v \<ge> 128 \<and> dst_room d > 0")
    case True
    then have "v div 128 < v" by simp
    from less.IH [OF this, of "d\<lparr>dst_bytes := dst_bytes d @ [0x80 OR word_of_nat v],
      dst_room := dst_room d - 1\<rparr>"] True
    show ?thesis
      by (simp add: encode_int_loop.simps [of v] varint.simps [of v] put_all_Cons put_u8_Ok)
  next
    case False
    then show ?thesis
      by (cases "128 \<le> v")
        (simp_all add: encode_int_loop.simps [of v] varint.simps [of v] put_all_single,
         simp add: put_all_Cons)
  qed
qed

theorem encode_int_eq:
  assumes "v \<le> 2 ^ k - 1 + 0x0fffffff"
  shows "encode_int v k first d = put_all (int_bytes v k first) d"
proof (cases "dst_room d = 0 \<or> encode_int_one_byte v k")
  case True
  then show ?thesis
    by (cases "encode_int_one_byte v k")
      (simp_all add: encode_int_def int_bytes_def put_all_single, simp add: put_all_Cons)
next
  case False
  define low :: nat where "low = 2 ^ k - 1"
  let ?d = "d\<lparr>dst_bytes := dst_bytes d @ [first OR word_of_nat low], dst_room := dst_room d - 1\<rparr>"
  have "encode_int_loop (v - low) (dst_room d - 1) ?d = put_all (varint (v - low)) ?d"
    using encode_int_loop_eq [of _ ?d] by simp
  moreover have "v - low \<le> 0x0fffffff" using assms by (simp add: low_def)
  ultimately show ?thesis
    using False
    unfolding encode_int_def int_bytes_def low_def [symmetric]
    by (simp add: put_all_Cons put_u8_Ok Let_def)
qed

lemma encode_int_Panic:
  assumes "v > 2 ^ k - 1 + 0x0fffffff" "dst_room d > 0"
  shows "encode_int v k first d = (Panic, d)"
  using assms by (auto simp: encode_int_def encode_int_one_byte_def Let_def)

section \<open>Decoding what was encoded\<close>

lemma VARINT_MASK_eq: "VARINT_MASK = mask 7"
  by (simp add: VARINT_MASK_def mask_eq_exp_minus_1)

lemma bit_128_int [simp]: "bit (128 :: int) n \<longleftrightarrow> n = 7"
proof -
  have "(128 :: int) = push_bit 7 1" by simp
  then show ?thesis by (simp only: bit_push_bit_iff bit_1_iff possible_bit_def) auto
qed

lemma VARINT_FLAG_iff: "b AND VARINT_FLAG = 0 \<longleftrightarrow> \<not> bit b 7"
proof -
  have "b AND VARINT_FLAG = 0 \<longleftrightarrow> (\<forall>n<8. bit b n \<longrightarrow> n \<noteq> 7)"
    by (auto simp: VARINT_FLAG_def bit_eq_iff [of "b AND 128"] bit_and_iff)
  moreover have "(7 :: nat) < 8" by simp
  ultimately show ?thesis by blast
qed

lemma unat_varint_mask: "unat (b AND VARINT_MASK) = unat b mod 128"
  by (simp add: VARINT_MASK_eq take_bit_eq_mask [symmetric] unsigned_take_bit_eq
      del: take_bit_eq_mod)
    (simp add: take_bit_eq_mod)

lemma bit_flag_or [simp]: "bit ((128 :: u8) OR w) 7"
  by (simp add: bit_or_iff)

lemma unat_flag_or_mod: "unat ((128 :: u8) OR word_of_nat v) mod 128 = v mod 128"
proof -
  have "unat ((128 :: u8) OR word_of_nat v) mod 128 =
    take_bit 7 (unat ((128 :: u8) OR word_of_nat v))"
    by (simp add: take_bit_eq_mod)
  also have "\<dots> = take_bit 7 v"
    by (rule bit_eqI) (auto simp: bit_take_bit_iff bit_unsigned_iff bit_or_iff bit_of_nat_iff possible_bit_def)
  finally show ?thesis by (simp add: take_bit_eq_mod)
qed

lemma unat_word_of_nat_small: "v < 128 \<Longrightarrow> unat (word_of_nat v :: u8) = v"
  by (simp add: unsigned_of_nat take_bit_nat_eq_self)

lemma not_bit_word_of_nat_small: "v < 128 \<Longrightarrow> \<not> bit (word_of_nat v :: u8) 7"
  by (simp add: bit_of_nat_iff) (simp add: bit_iff_odd)

lemma decode_int_loop_Cons:
  assumes "cur_rest c = b # bs"
  shows "decode_int_loop ret shift n c =
    (let ret = ret + (unat b mod 128) * 2 ^ shift in
     if \<not> bit b 7 then (Ok ret, advance 1 c)
     else if n + 1 = MAX_BYTES then (Err IntegerOverflow, advance 1 c)
     else decode_int_loop ret (shift + 7) (n + 1) (advance 1 c))"
  using assms
  by (subst decode_int_loop.simps)
    (simp add: has_remaining_iff unat_varint_mask VARINT_FLAG_iff push_bit_eq_mult Let_def)

lemma decode_int_loop_varint:
  assumes "cur_rest c = varint v @ rest" "n + length (varint v) \<le> MAX_BYTES"
  shows "decode_int_loop ret shift n c =
    (Ok (ret + v * 2 ^ shift), advance (length (varint v)) c)"
  using assms
proof (induction v arbitrary: c ret shift n rule: less_induct)
  case (less v)
  show ?case
  proof (cases "v < 128")
    case True
    with less.prems show ?thesis
      by (simp add: varint.simps [of v] decode_int_loop_Cons [of c "word_of_nat v" rest]
          not_bit_word_of_nat_small unat_word_of_nat_small)
  next
    case False
    then have v: "varint v = (128 OR word_of_nat v) # varint (v div 128)"
      by (simp add: varint.simps [of v])
    have "1 \<le> length (varint (v div 128))" by (subst varint.simps) simp
    then have n: "n + 1 \<noteq> MAX_BYTES" using less.prems(2) by (simp add: v)
    have "v div 128 < v" using False by simp
    from less.IH [OF this, of "advance 1 c" "n + 1" "ret + (v mod 128) * 2 ^ shift" "shift + 7"]
    have "decode_int_loop (ret + (v mod 128) * 2 ^ shift) (shift + 7) (n + 1) (advance 1 c) =
      (Ok (ret + (v mod 128) * 2 ^ shift + (v div 128) * 2 ^ (shift + 7)),
       advance (length (varint (v div 128)) + 1) c)"
      using less.prems v by (simp add: add.commute)
    moreover have "(v mod 128) * 2 ^ shift + (v div 128) * 2 ^ (shift + 7) =
        (v mod 128 + v div 128 * 128) * 2 ^ shift"
      by (simp only: power_add add_mult_distrib) simp
    ultimately show ?thesis
      using less.prems(1) n v
      by (simp add: decode_int_loop_Cons [of c "128 OR word_of_nat v" "varint (v div 128) @ rest"]
          unat_flag_or_mod Let_def)
  qed
qed

lemma length_varint: "v < 128 ^ n \<Longrightarrow> 0 < n \<Longrightarrow> length (varint v) \<le> n"
proof (induction n arbitrary: v)
  case (Suc n)
  then show ?case
    by (cases "n = 0") (auto simp: varint.simps [of v] less_mult_imp_div_less mult.commute)
qed simp

lemma prefix_mask_eq: "prefix_mask k = mask k" if "k \<le> 8"
proof (cases "k = 8")
  case True
  then show ?thesis by (simp add: prefix_mask_def mask_eq_exp_minus_1)
qed (simp add: prefix_mask_def mask_eq_exp_minus_1 push_bit_eq_mult)

lemma unat_prefix_mask:
  assumes "k \<le> 8"
  shows "unat (prefix_mask k) = 2 ^ k - 1"
proof -
  from assms have "k \<in> {0, 1, 2, 3, 4, 5, 6, 7, 8}" by auto
  then show ?thesis by (auto simp: prefix_mask_def)
qed

lemma unat_first_byte:
  assumes "k \<le> 8" "first AND prefix_mask k = 0" "v < 2 ^ k"
  shows "unat ((first OR word_of_nat v) AND prefix_mask k) = v"
proof -
  have "(first OR word_of_nat v) AND prefix_mask k = take_bit k (word_of_nat v)"
    using assms(1,2)
    by (simp add: bit.conj_disj_distrib2 prefix_mask_eq take_bit_eq_mask [symmetric])
  moreover have "(2 :: nat) ^ k \<le> 2 ^ 8" using assms(1) by (intro power_increasing) auto
  then have "v < 256" using assms(3) by simp
  then have "unat (word_of_nat v :: u8) = v" by (simp add: unsigned_of_nat take_bit_nat_eq_self)
  then have "unat (take_bit k (word_of_nat v :: u8)) = v"
    using assms(3) by (simp add: unsigned_take_bit_eq take_bit_nat_eq_self)
  ultimately show ?thesis by simp
qed

lemma decode_int_Cons:
  assumes "1 \<le> k" "k \<le> 8" "cur_rest c = b # bs"
  shows "decode_int k c =
    (let ret = unat (b AND prefix_mask k) in
     if ret < 2 ^ k - 1 then (Ok ret, advance 1 c) else decode_int_loop ret 0 1 (advance 1 c))"
  using assms by (simp add: decode_int_def has_remaining_iff unat_prefix_mask Let_def)

theorem decode_int_bytes:
  assumes "1 \<le> k" "k \<le> 8" "first AND prefix_mask k = 0" "v \<le> 2 ^ k - 1 + 0x0fffffff"
    and rest: "cur_rest c = int_bytes v k first @ rest"
  shows "decode_int k c = (Ok v, advance (length (int_bytes v k first)) c)"
proof (cases "encode_int_one_byte v k")
  case True
  then have "v < 2 ^ k" "v < 2 ^ k - 1" by (auto simp: encode_int_one_byte_def)
  with True assms show ?thesis
    by (simp add: int_bytes_def decode_int_Cons [of k c "first OR word_of_nat v" rest]
        unat_first_byte Let_def)
next
  case False
  define low :: nat where "low = 2 ^ k - 1"
  have "low < 2 ^ k" "low \<le> v" "v - low \<le> 0x0fffffff"
    using False assms(4) by (auto simp: low_def encode_int_one_byte_def)
  moreover from this have "length (varint (v - low)) \<le> 4" by (intro length_varint) simp_all
  moreover have "cur_rest c = (first OR word_of_nat low) # varint (v - low) @ rest"
    using rest False by (simp add: int_bytes_def low_def)
  ultimately show ?thesis
    using assms(1,2,3) False decode_int_Cons [of k c "first OR word_of_nat low"]
    unfolding int_bytes_def low_def [symmetric]
    by (simp add: unat_first_byte decode_int_loop_varint [where rest = rest] MAX_BYTES_def)
qed

section \<open>Bounds, failures and streaming of the reader\<close>

text \<open>
  No more than five bytes are read, and the value stays far below the range of \<open>usize\<close>; the reader
  never panics, and an answer does not change when more bytes follow.
\<close>

lemma decode_int_loop_Ok:
  assumes "decode_int_loop ret shift n c = (Ok v, c')" "n < MAX_BYTES"
  shows "\<exists>k. 0 < k \<and> n + k \<le> MAX_BYTES \<and> k \<le> length (cur_rest c) \<and> c' = advance k c
    \<and> v + 2 ^ shift \<le> ret + 128 ^ k * 2 ^ shift
    \<and> (\<forall>d. k \<le> length (cur_rest d) \<longrightarrow> take k (cur_rest d) = take k (cur_rest c) \<longrightarrow>
         decode_int_loop ret shift n d = (Ok v, advance k d))"
  using assms
proof (induction "cur_rest c" arbitrary: ret shift n c)
  case Nil
  then show ?case by (simp add: decode_int_loop.simps [of ret] has_remaining_iff)
next
  case (Cons b bs)
  note rest = Cons.hyps(2) [symmetric]
  let ?r = "ret + unat b mod 128 * 2 ^ shift"
  have r: "?r + 2 ^ shift \<le> ret + 128 * 2 ^ shift"
    using mult_le_mono1 [of "unat b mod 128" 127 "2 ^ shift"] by simp
  show ?case
  proof (cases "bit b 7")
    case False
    have "decode_int_loop ret shift n d = (Ok v, advance 1 d)"
      if d: "1 \<le> length (cur_rest d)" "take 1 (cur_rest d) = take 1 (cur_rest c)" for d
    proof -
      obtain bs' where "cur_rest d = b # bs'" using d rest by (cases "cur_rest d") auto
      then show ?thesis
        using False Cons.prems(1) by (simp add: decode_int_loop_Cons rest Let_def)
    qed
    moreover have "v = ?r" "c' = advance 1 c"
      using False Cons.prems(1) by (auto simp: decode_int_loop_Cons rest Let_def)
    ultimately show ?thesis using Cons.prems(2) r rest
      by (intro exI [of _ 1]) auto
  next
    case True
    then have n: "n + 1 < MAX_BYTES"
      and rec: "decode_int_loop ?r (shift + 7) (n + 1) (advance 1 c) = (Ok v, c')"
      using Cons.prems by (auto simp: decode_int_loop_Cons rest Let_def split: if_splits)
    have "bs = cur_rest (advance 1 c)" by (simp add: rest)
    from Cons.hyps(1) [OF this rec n] obtain k where k: "0 < k" "n + 1 + k \<le> MAX_BYTES"
      "k \<le> length bs" "c' = advance k (advance 1 c)"
      "v + 2 ^ (shift + 7) \<le> ?r + 128 ^ k * 2 ^ (shift + 7)"
      "\<And>d. k \<le> length (cur_rest d) \<Longrightarrow> take k (cur_rest d) = take k bs \<Longrightarrow>
         decode_int_loop ?r (shift + 7) (n + 1) d = (Ok v, advance k d)"
      by (auto simp: rest)
    have "decode_int_loop ret shift n d = (Ok v, advance (k + 1) d)"
      if d: "k + 1 \<le> length (cur_rest d)" "take (k + 1) (cur_rest d) = take (k + 1) (cur_rest c)" for d
    proof -
      obtain bs' where bs': "cur_rest d = b # bs'" "take k bs' = take k bs" "k \<le> length bs'"
        using d rest by (cases "cur_rest d") auto
      with k(6) [of "advance 1 d"] True n show ?thesis
        by (simp add: decode_int_loop_Cons Let_def)
    qed
    moreover have "v + 2 ^ shift \<le> ret + 128 ^ (k + 1) * 2 ^ shift"
    proof -
      have "v + 2 ^ shift * 128 \<le>
          ret + (2 ^ shift * (unat b mod 128) + 2 ^ shift * (128 * 128 ^ k))"
        using k(5) by (simp add: power_add algebra_simps)
      moreover have "2 ^ shift * (unat b mod 128) \<le> 2 ^ shift * 127" by simp
      ultimately have "v + 2 ^ shift \<le> ret + 2 ^ shift * (128 * 128 ^ k)" by linarith
      then show ?thesis by (simp add: mult.commute)
    qed
    ultimately show ?thesis using k rest
      by (intro exI [of _ "k + 1"]) (simp add: add.commute)
  qed
qed

lemma decode_int_Ok:
  assumes "decode_int p c = (Ok v, c')"
  shows "\<exists>k. 0 < k \<and> k \<le> MAX_BYTES \<and> k \<le> length (cur_rest c) \<and> c' = advance k c
    \<and> v < 2 ^ 28 + 2 ^ 8
    \<and> (\<forall>d. k \<le> length (cur_rest d) \<longrightarrow> take k (cur_rest d) = take k (cur_rest c) \<longrightarrow>
         decode_int p d = (Ok v, advance k d))"
proof -
  have p: "1 \<le> p" "p \<le> 8" using assms by (auto simp: decode_int_def split: if_splits)
  obtain b bs where rest: "cur_rest c = b # bs"
    using assms by (cases "cur_rest c") (auto simp: decode_int_def has_remaining_iff split: if_splits)
  let ?r = "unat (b AND prefix_mask p)"
  have r: "?r < 2 ^ 8" using unsigned_less [of "b AND prefix_mask p"] by simp
  show ?thesis
  proof (cases "?r < 2 ^ p - 1")
    case True
    have "decode_int p d = (Ok v, advance 1 d)"
      if d: "1 \<le> length (cur_rest d)" "take 1 (cur_rest d) = take 1 (cur_rest c)" for d
    proof -
      obtain bs' where "cur_rest d = b # bs'" using d rest by (cases "cur_rest d") auto
      then show ?thesis
        using True assms p by (simp add: decode_int_Cons rest Let_def)
    qed
    moreover have "v = ?r" "c' = advance 1 c"
      using assms True by (simp_all add: decode_int_Cons [OF p rest])
    ultimately show ?thesis using r rest
      by (intro exI [of _ 1]) (auto simp: MAX_BYTES_def)
  next
    case False
    with assms have "decode_int_loop ?r 0 1 (advance 1 c) = (Ok v, c')"
      by (simp add: decode_int_Cons [OF p rest])
    from decode_int_loop_Ok [OF this] obtain k where k: "0 < k" "1 + k \<le> MAX_BYTES"
      "k \<le> length bs" "c' = advance k (advance 1 c)" "v + 1 \<le> ?r + 128 ^ k"
      "\<And>d. k \<le> length (cur_rest d) \<Longrightarrow> take k (cur_rest d) = take k bs \<Longrightarrow>
         decode_int_loop ?r 0 1 d = (Ok v, advance k d)"
      by (auto simp: rest MAX_BYTES_def)
    have "decode_int p d = (Ok v, advance (k + 1) d)"
      if d: "k + 1 \<le> length (cur_rest d)" "take (k + 1) (cur_rest d) = take (k + 1) (cur_rest c)" for d
    proof -
      obtain bs' where bs': "cur_rest d = b # bs'" "take k bs' = take k bs" "k \<le> length bs'"
        using d rest by (cases "cur_rest d") auto
      with k(6) [of "advance 1 d"] False show ?thesis
        by (simp add: decode_int_Cons [OF p bs'(1)] Let_def)
    qed
    moreover have "(128 :: nat) ^ k \<le> 128 ^ 4"
      using k(2) by (intro power_increasing) (auto simp: MAX_BYTES_def)
    then have "v < 2 ^ 28 + 2 ^ 8" using k(5) r by simp
    ultimately show ?thesis using k rest
      by (intro exI [of _ "k + 1"]) (simp add: add.commute)
  qed
qed

lemma decode_int_loop_frame:
  "decode_int_loop ret shift n c = (r, c') \<Longrightarrow>
     r \<noteq> Panic \<and> cur_data c' = cur_data c \<and> (\<exists>k \<le> length (cur_rest c). c' = advance k c)"
proof (induction "length (cur_rest c)" arbitrary: ret shift n c)
  case 0
  then show ?case
    by (auto simp: decode_int_loop.simps [of ret] has_remaining_iff intro!: exI [of _ 0])
next
  case (Suc m)
  then obtain b bs where rest: "cur_rest c = b # bs" by (metis length_Suc_conv)
  then have m: "m = length (cur_rest (advance 1 c))" using Suc.hyps(2) by simp
  note IH = Suc.hyps(1) [OF m]
  show ?case
  proof (cases "\<not> bit b 7 \<or> n + 1 = MAX_BYTES")
    case True
    with Suc.prems rest show ?thesis
      by (auto simp: decode_int_loop_Cons [OF rest] Let_def split: if_splits intro!: exI [of _ 1])
  next
    case False
    with Suc.prems have
      "decode_int_loop (ret + unat b mod 128 * 2 ^ shift) (shift + 7) (n + 1) (advance 1 c) = (r, c')"
      by (simp add: decode_int_loop_Cons [OF rest] Let_def)
    from IH [OF this] obtain k where "r \<noteq> Panic" "cur_data c' = cur_data c"
      "k \<le> length bs" "c' = advance (1 + k) c"
      by (auto simp: rest)
    with rest show ?thesis by (intro conjI exI [of _ "1 + k"]) simp_all
  qed
qed

lemma decode_int_frame:
  assumes "decode_int p c = (r, c')"
  shows "r \<noteq> Panic \<and> cur_data c' = cur_data c \<and> (\<exists>k \<le> length (cur_rest c). c' = advance k c)"
proof (cases "1 \<le> p \<and> p \<le> 8 \<and> cur_rest c \<noteq> []")
  case True
  then obtain b bs where rest: "cur_rest c = b # bs" by (cases "cur_rest c") auto
  let ?r = "unat (b AND prefix_mask p)"
  show ?thesis
  proof (cases "?r < 2 ^ p - 1")
    case False
    with assms True have "decode_int_loop ?r 0 1 (advance 1 c) = (r, c')"
      by (simp add: decode_int_Cons [OF _ _ rest])
    from decode_int_loop_frame [OF this] obtain k where "r \<noteq> Panic" "cur_data c' = cur_data c"
      "k \<le> length bs" "c' = advance (1 + k) c"
      by (auto simp: rest)
    with rest show ?thesis by (intro conjI exI [of _ "1 + k"]) simp_all
  qed (use assms True rest in \<open>auto simp: decode_int_Cons [OF _ _ rest] intro!: exI [of _ 1]\<close>)
next
  case False
  then show ?thesis
    using assms by (auto simp: decode_int_def has_remaining_iff split: if_splits
        intro!: exI [of _ 0])
qed

section \<open>Properties\<close>

text \<open>
  C3: an integer written with a prefix of 1 to 8 bits into a buffer with room for it is
  read back from the bytes written, whatever follows them, and the reader stops right behind them.
  The pattern in the first byte must leave the prefix bits free, and the value be one the encoder
  does not panic on.
\<close>

theorem hpack_integer_roundtrip:
  assumes "1 \<le> k" "k \<le> 8" "first AND prefix_mask k = 0" "v \<le> 2 ^ k - 1 + 0x0fffffff"
    and "encode_int v k first \<lparr>dst_bytes = [], dst_room = n\<rparr> = (Ok (), d)"
  shows "decode_int k (cursor_new (dst_bytes d @ rest)) =
    (Ok v, advance (length (dst_bytes d)) (cursor_new (dst_bytes d @ rest)))"
proof -
  have "dst_bytes d = int_bytes v k first"
    using assms(5) by (auto simp: encode_int_eq [OF assms(4)] put_all_def put_slice_def
        split: if_splits)
  with decode_int_bytes [OF assms(1-4), of "cursor_new (dst_bytes d @ rest)" rest]
  show ?thesis by simp
qed

lemma hpack_integer_roundtrip_witness:
  "decode_int 5 (cursor_new ([0x3F, 0x9A, 0x0A] @ [7])) =
     (Ok 1337, advance 3 (cursor_new ([0x3F, 0x9A, 0x0A] @ [7])))"
  using hpack_integer_roundtrip [of 5 "0x20" 1337 8 "\<lparr>dst_bytes = [0x3F, 0x9A, 0x0A], dst_room = 5\<rparr>" "[7]"]
  by (simp add: prefix_mask_def encode_int_def encode_int_one_byte_def encode_int_loop.simps put_u8_def
      put_slice_def sbind_def)

end
