(* ===== verification/Huffman_Trie.thy ===== *)
theory Huffman_Trie
  imports Huffman_Tables
begin

text \<open>
  The code as a binary trie, and the two tables of the source checked against it. The states of the
  decoder are the inner nodes of the trie: a row of \<open>TRIE_CHUNKS\<close> gives for the state of its
  position the bits that lead to it from the root (their number and their value) and its two
  children, an inner node or a symbol. The trie is not part of the program: it is
  what the tables are proved to agree with, row by row, by evaluation.
\<close>

named_theorems trie_eval \<open>evaluation of the trie and of the tables\<close>

datatype trie_node = St nat | Sym nat

type_synonym trie_row = "nat \<times> nat \<times> trie_node \<times> trie_node"

section \<open>The trie\<close>

definition TRIE_0 :: "trie_row list" where
  "TRIE_0 = [
     (0, 0, St 1, St 22), (1, 0, St 2, St 9), (2, 0, St 3, St 6), (3, 0, St 4, St 5),
     (4, 0, Sym 48, Sym 49), (4, 1, Sym 50, Sym 97), (3, 1, St 7, St 8), (4, 2, Sym 99, Sym 101),
     (4, 3, Sym 105, Sym 111), (2, 1, St 10, St 15), (3, 2, St 11, St 12),
     (4, 4, Sym 115, Sym 116), (4, 5, St 13, St 14), (5, 10, Sym 32, Sym 37),
     (5, 11, Sym 45, Sym 46), (3, 3, St 16, St 19)]"

definition TRIE_1 :: "trie_row list" where
  "TRIE_1 = [
     (4, 6, St 17, St 18), (5, 12, Sym 47, Sym 51), (5, 13, Sym 52, Sym 53),
     (4, 7, St 20, St 21), (5, 14, Sym 54, Sym 55), (5, 15, Sym 56, Sym 57),
     (1, 1, St 23, St 40), (2, 2, St 24, St 31), (3, 4, St 25, St 28), (4, 8, St 26, St 27),
     (5, 16, Sym 61, Sym 65), (5, 17, Sym 95, Sym 98), (4, 9, St 29, St 30),
     (5, 18, Sym 100, Sym 102), (5, 19, Sym 103, Sym 104), (3, 5, St 32, St 35)]"

definition TRIE_2 :: "trie_row list" where
  "TRIE_2 = [
     (4, 10, St 33, St 34), (5, 20, Sym 108, Sym 109), (5, 21, Sym 110, Sym 112),
     (4, 11, St 36, St 37), (5, 22, Sym 114, Sym 117), (5, 23, St 38, St 39),
     (6, 46, Sym 58, Sym 66), (6, 47, Sym 67, Sym 68), (2, 3, St 41, St 56),
     (3, 6, St 42, St 49), (4, 12, St 43, St 46), (5, 24, St 44, St 45), (6, 48, Sym 69, Sym 70),
     (6, 49, Sym 71, Sym 72), (5, 25, St 47, St 48), (6, 50, Sym 73, Sym 74)]"

definition TRIE_3 :: "trie_row list" where
  "TRIE_3 = [
     (6, 51, Sym 75, Sym 76), (4, 13, St 50, St 53), (5, 26, St 51, St 52),
     (6, 52, Sym 77, Sym 78), (6, 53, Sym 79, Sym 80), (5, 27, St 54, St 55),
     (6, 54, Sym 81, Sym 82), (6, 55, Sym 83, Sym 84), (3, 7, St 57, St 64),
     (4, 14, St 58, St 61), (5, 28, St 59, St 60), (6, 56, Sym 85, Sym 86),
     (6, 57, Sym 87, Sym 89), (5, 29, St 62, St 63), (6, 58, Sym 106, Sym 107),
     (6, 59, Sym 113, Sym 118)]"

definition TRIE_4 :: "trie_row list" where
  "TRIE_4 = [
     (4, 15, St 65, St 68), (5, 30, St 66, St 67), (6, 60, Sym 119, Sym 120),
     (6, 61, Sym 121, Sym 122), (5, 31, St 69, St 72), (6, 62, St 70, St 71),
     (7, 124, Sym 38, Sym 42), (7, 125, Sym 44, Sym 59), (6, 63, St 73, St 74),
     (7, 126, Sym 88, Sym 90), (7, 127, St 75, St 78), (8, 254, St 76, St 77),
     (9, 508, Sym 33, Sym 34), (9, 509, Sym 40, Sym 41), (8, 255, St 79, St 81),
     (9, 510, Sym 63, St 80)]"

definition TRIE_5 :: "trie_row list" where
  "TRIE_5 = [
     (10, 1021, Sym 39, Sym 43), (9, 511, St 82, St 84), (10, 1022, Sym 124, St 83),
     (11, 2045, Sym 35, Sym 62), (10, 1023, St 85, St 88), (11, 2046, St 86, St 87),
     (12, 4092, Sym 0, Sym 36), (12, 4093, Sym 64, Sym 91), (11, 2047, St 89, St 90),
     (12, 4094, Sym 93, Sym 126), (12, 4095, St 91, St 92), (13, 8190, Sym 94, Sym 125),
     (13, 8191, St 93, St 94), (14, 16382, Sym 60, Sym 96), (14, 16383, Sym 123, St 95),
     (15, 32767, St 96, St 110)]"

definition TRIE_6 :: "trie_row list" where
  "TRIE_6 = [
     (16, 65534, St 97, St 101), (17, 131068, St 98, St 99), (18, 262136, Sym 92, Sym 195),
     (18, 262137, Sym 208, St 100), (19, 524275, Sym 128, Sym 130), (17, 131069, St 102, St 105),
     (18, 262138, St 103, St 104), (19, 524276, Sym 131, Sym 162),
     (19, 524277, Sym 184, Sym 194), (18, 262139, St 106, St 107),
     (19, 524278, Sym 224, Sym 226), (19, 524279, St 108, St 109),
     (20, 1048558, Sym 153, Sym 161), (20, 1048559, Sym 167, Sym 172),
     (16, 65535, St 111, St 133), (17, 131070, St 112, St 119)]"

definition TRIE_7 :: "trie_row list" where
  "TRIE_7 = [
     (18, 262140, St 113, St 116), (19, 524280, St 114, St 115), (20, 1048560, Sym 176, Sym 177),
     (20, 1048561, Sym 179, Sym 209), (19, 524281, St 117, St 118),
     (20, 1048562, Sym 216, Sym 217), (20, 1048563, Sym 227, Sym 229),
     (18, 262141, St 120, St 126), (19, 524282, St 121, St 123), (20, 1048564, Sym 230, St 122),
     (21, 2097129, Sym 129, Sym 132), (20, 1048565, St 124, St 125),
     (21, 2097130, Sym 133, Sym 134), (21, 2097131, Sym 136, Sym 146),
     (19, 524283, St 127, St 130), (20, 1048566, St 128, St 129)]"

definition TRIE_8 :: "trie_row list" where
  "TRIE_8 = [
     (21, 2097132, Sym 154, Sym 156), (21, 2097133, Sym 160, Sym 163),
     (20, 1048567, St 131, St 132), (21, 2097134, Sym 164, Sym 169),
     (21, 2097135, Sym 170, Sym 173), (17, 131071, St 134, St 153), (18, 262142, St 135, St 142),
     (19, 524284, St 136, St 139), (20, 1048568, St 137, St 138),
     (21, 2097136, Sym 178, Sym 181), (21, 2097137, Sym 185, Sym 186),
     (20, 1048569, St 140, St 141), (21, 2097138, Sym 187, Sym 189),
     (21, 2097139, Sym 190, Sym 196), (19, 524285, St 143, St 146), (20, 1048570, St 144, St 145)]"

definition TRIE_9 :: "trie_row list" where
  "TRIE_9 = [
     (21, 2097140, Sym 198, Sym 228), (21, 2097141, Sym 232, Sym 233),
     (20, 1048571, St 147, St 150), (21, 2097142, St 148, St 149), (22, 4194284, Sym 1, Sym 135),
     (22, 4194285, Sym 137, Sym 138), (21, 2097143, St 151, St 152),
     (22, 4194286, Sym 139, Sym 140), (22, 4194287, Sym 141, Sym 143),
     (18, 262143, St 154, St 169), (19, 524286, St 155, St 162), (20, 1048572, St 156, St 159),
     (21, 2097144, St 157, St 158), (22, 4194288, Sym 147, Sym 149),
     (22, 4194289, Sym 150, Sym 151), (21, 2097145, St 160, St 161)]"

definition TRIE_10 :: "trie_row list" where
  "TRIE_10 = [
     (22, 4194290, Sym 152, Sym 155), (22, 4194291, Sym 157, Sym 158),
     (20, 1048573, St 163, St 166), (21, 2097146, St 164, St 165),
     (22, 4194292, Sym 165, Sym 166), (22, 4194293, Sym 168, Sym 174),
     (21, 2097147, St 167, St 168), (22, 4194294, Sym 175, Sym 180),
     (22, 4194295, Sym 182, Sym 183), (19, 524287, St 170, St 180),
     (20, 1048574, St 171, St 174), (21, 2097148, St 172, St 173),
     (22, 4194296, Sym 188, Sym 191), (22, 4194297, Sym 197, Sym 231),
     (21, 2097149, St 175, St 177), (22, 4194298, Sym 239, St 176)]"

definition TRIE_11 :: "trie_row list" where
  "TRIE_11 = [
     (23, 8388597, Sym 9, Sym 142), (22, 4194299, St 178, St 179),
     (23, 8388598, Sym 144, Sym 145), (23, 8388599, Sym 148, Sym 159),
     (20, 1048575, St 181, St 190), (21, 2097150, St 182, St 185), (22, 4194300, St 183, St 184),
     (23, 8388600, Sym 171, Sym 206), (23, 8388601, Sym 215, Sym 225),
     (22, 4194301, St 186, St 187), (23, 8388602, Sym 236, Sym 237),
     (23, 8388603, St 188, St 189), (24, 16777206, Sym 199, Sym 207),
     (24, 16777207, Sym 234, Sym 235), (21, 2097151, St 191, St 207),
     (22, 4194302, St 192, St 199)]"

definition TRIE_12 :: "trie_row list" where
  "TRIE_12 = [
     (23, 8388604, St 193, St 196), (24, 16777208, St 194, St 195),
     (25, 33554416, Sym 192, Sym 193), (25, 33554417, Sym 200, Sym 201),
     (24, 16777209, St 197, St 198), (25, 33554418, Sym 202, Sym 205),
     (25, 33554419, Sym 210, Sym 213), (23, 8388605, St 200, St 203),
     (24, 16777210, St 201, St 202), (25, 33554420, Sym 218, Sym 219),
     (25, 33554421, Sym 238, Sym 240), (24, 16777211, St 204, St 205),
     (25, 33554422, Sym 242, Sym 243), (25, 33554423, Sym 255, St 206),
     (26, 67108847, Sym 203, Sym 204), (22, 4194303, St 208, St 223)]"

definition TRIE_13 :: "trie_row list" where
  "TRIE_13 = [
     (23, 8388606, St 209, St 216), (24, 16777212, St 210, St 213),
     (25, 33554424, St 211, St 212), (26, 67108848, Sym 211, Sym 212),
     (26, 67108849, Sym 214, Sym 221), (25, 33554425, St 214, St 215),
     (26, 67108850, Sym 222, Sym 223), (26, 67108851, Sym 241, Sym 244),
     (24, 16777213, St 217, St 220), (25, 33554426, St 218, St 219),
     (26, 67108852, Sym 245, Sym 246), (26, 67108853, Sym 247, Sym 248),
     (25, 33554427, St 221, St 222), (26, 67108854, Sym 250, Sym 251),
     (26, 67108855, Sym 252, Sym 253), (23, 8388607, St 224, St 238)]"

definition TRIE_14 :: "trie_row list" where
  "TRIE_14 = [
     (24, 16777214, St 225, St 231), (25, 33554428, St 226, St 228),
     (26, 67108856, Sym 254, St 227), (27, 134217713, Sym 2, Sym 3),
     (26, 67108857, St 229, St 230), (27, 134217714, Sym 4, Sym 5),
     (27, 134217715, Sym 6, Sym 7), (25, 33554429, St 232, St 235),
     (26, 67108858, St 233, St 234), (27, 134217716, Sym 8, Sym 11),
     (27, 134217717, Sym 12, Sym 14), (26, 67108859, St 236, St 237),
     (27, 134217718, Sym 15, Sym 16), (27, 134217719, Sym 17, Sym 18),
     (24, 16777215, St 239, St 246), (25, 33554430, St 240, St 243)]"

definition TRIE_15 :: "trie_row list" where
  "TRIE_15 = [
     (26, 67108860, St 241, St 242), (27, 134217720, Sym 19, Sym 20),
     (27, 134217721, Sym 21, Sym 23), (26, 67108861, St 244, St 245),
     (27, 134217722, Sym 24, Sym 25), (27, 134217723, Sym 26, Sym 27),
     (25, 33554431, St 247, St 250), (26, 67108862, St 248, St 249),
     (27, 134217724, Sym 28, Sym 29), (27, 134217725, Sym 30, Sym 31),
     (26, 67108863, St 251, St 252), (27, 134217726, Sym 127, Sym 220),
     (27, 134217727, Sym 249, St 253), (28, 268435455, St 254, St 255),
     (29, 536870910, Sym 10, Sym 13), (29, 536870911, Sym 22, Sym 256)]"

definition TRIE_CHUNKS :: "trie_row list list" where
  "TRIE_CHUNKS = [
     TRIE_0, TRIE_1, TRIE_2, TRIE_3, TRIE_4, TRIE_5, TRIE_6, TRIE_7, TRIE_8, TRIE_9, TRIE_10,
     TRIE_11, TRIE_12, TRIE_13, TRIE_14, TRIE_15]"

lemmas trie_chunk_defs =
  TRIE_0_def TRIE_1_def TRIE_2_def TRIE_3_def TRIE_4_def TRIE_5_def TRIE_6_def TRIE_7_def
  TRIE_8_def TRIE_9_def TRIE_10_def TRIE_11_def TRIE_12_def TRIE_13_def TRIE_14_def
  TRIE_15_def

section \<open>Access by chunks\<close>

lemma concat_nth_chunks:
  assumes "\<forall>c \<in> set (butlast cs). length c = n" "length (last cs) \<le> n" "i < length (concat cs)"
    "0 < n"
  shows "concat cs ! i = cs ! (i div n) ! (i mod n)"
  using assms
proof (induction cs arbitrary: i)
  case (Cons c cs)
  show ?case
  proof (cases "i < length c \<and> i < n \<or> cs = []")
    case False
    then have c: "length c = n" "cs \<noteq> []" "n \<le> i" using Cons.prems by (auto split: if_splits)
    then have "concat cs ! (i - n) = cs ! ((i - n) div n) ! ((i - n) mod n)"
      using Cons by (intro Cons.IH) (auto split: if_splits)
    moreover have "i div n = Suc ((i - n) div n)" "i mod n = (i - n) mod n"
      using c \<open>0 < n\<close> by (simp_all add: le_div_geq le_mod_geq)
    ultimately show ?thesis using c by (simp add: nth_append)
  qed (use Cons.prems in \<open>auto simp: nth_append\<close>)
qed simp

text \<open>The congruence rules keep the simplifier from visiting the elements of a table.\<close>

lemma length_lazy_cong: "length xs = length xs"
  by simp

lemma nth_index_cong: "n = n' \<Longrightarrow> xs ! n = xs ! n'"
  by simp

lemmas chunk_length_eqs =
  TRIE_0_def [THEN arg_cong, of length]
  TRIE_1_def [THEN arg_cong, of length]
  TRIE_2_def [THEN arg_cong, of length]
  TRIE_3_def [THEN arg_cong, of length]
  TRIE_4_def [THEN arg_cong, of length]
  TRIE_5_def [THEN arg_cong, of length]
  TRIE_6_def [THEN arg_cong, of length]
  TRIE_7_def [THEN arg_cong, of length]
  TRIE_8_def [THEN arg_cong, of length]
  TRIE_9_def [THEN arg_cong, of length]
  TRIE_10_def [THEN arg_cong, of length]
  TRIE_11_def [THEN arg_cong, of length]
  TRIE_12_def [THEN arg_cong, of length]
  TRIE_13_def [THEN arg_cong, of length]
  TRIE_14_def [THEN arg_cong, of length]
  TRIE_15_def [THEN arg_cong, of length]
  DECODE_TABLE_0_def [THEN arg_cong, of length]
  DECODE_TABLE_1_def [THEN arg_cong, of length]
  DECODE_TABLE_2_def [THEN arg_cong, of length]
  DECODE_TABLE_3_def [THEN arg_cong, of length]
  DECODE_TABLE_4_def [THEN arg_cong, of length]
  DECODE_TABLE_5_def [THEN arg_cong, of length]
  DECODE_TABLE_6_def [THEN arg_cong, of length]
  DECODE_TABLE_7_def [THEN arg_cong, of length]
  DECODE_TABLE_8_def [THEN arg_cong, of length]
  DECODE_TABLE_9_def [THEN arg_cong, of length]
  DECODE_TABLE_10_def [THEN arg_cong, of length]
  DECODE_TABLE_11_def [THEN arg_cong, of length]
  DECODE_TABLE_12_def [THEN arg_cong, of length]
  DECODE_TABLE_13_def [THEN arg_cong, of length]
  DECODE_TABLE_14_def [THEN arg_cong, of length]
  DECODE_TABLE_15_def [THEN arg_cong, of length]
  DECODE_TABLE_16_def [THEN arg_cong, of length]
  DECODE_TABLE_17_def [THEN arg_cong, of length]
  DECODE_TABLE_18_def [THEN arg_cong, of length]
  DECODE_TABLE_19_def [THEN arg_cong, of length]
  DECODE_TABLE_20_def [THEN arg_cong, of length]
  DECODE_TABLE_21_def [THEN arg_cong, of length]
  DECODE_TABLE_22_def [THEN arg_cong, of length]
  DECODE_TABLE_23_def [THEN arg_cong, of length]
  DECODE_TABLE_24_def [THEN arg_cong, of length]
  DECODE_TABLE_25_def [THEN arg_cong, of length]
  DECODE_TABLE_26_def [THEN arg_cong, of length]
  DECODE_TABLE_27_def [THEN arg_cong, of length]
  DECODE_TABLE_28_def [THEN arg_cong, of length]
  DECODE_TABLE_29_def [THEN arg_cong, of length]
  DECODE_TABLE_30_def [THEN arg_cong, of length]
  DECODE_TABLE_31_def [THEN arg_cong, of length]
  ENCODE_TABLE_0_def [THEN arg_cong, of length]
  ENCODE_TABLE_1_def [THEN arg_cong, of length]
  ENCODE_TABLE_2_def [THEN arg_cong, of length]
  ENCODE_TABLE_3_def [THEN arg_cong, of length]
  ENCODE_TABLE_4_def [THEN arg_cong, of length]
  ENCODE_TABLE_5_def [THEN arg_cong, of length]
  ENCODE_TABLE_6_def [THEN arg_cong, of length]
  ENCODE_TABLE_7_def [THEN arg_cong, of length]
  ENCODE_TABLE_8_def [THEN arg_cong, of length]
  ENCODE_TABLE_9_def [THEN arg_cong, of length]
  ENCODE_TABLE_10_def [THEN arg_cong, of length]
  ENCODE_TABLE_11_def [THEN arg_cong, of length]
  ENCODE_TABLE_12_def [THEN arg_cong, of length]
  ENCODE_TABLE_13_def [THEN arg_cong, of length]
  ENCODE_TABLE_14_def [THEN arg_cong, of length]
  ENCODE_TABLE_15_def [THEN arg_cong, of length]
  ENCODE_TABLE_16_def [THEN arg_cong, of length]

lemma length_decode_chunks:
  "length DECODE_TABLE_0 = 8"
  "length DECODE_TABLE_1 = 8"
  "length DECODE_TABLE_2 = 8"
  "length DECODE_TABLE_3 = 8"
  "length DECODE_TABLE_4 = 8"
  "length DECODE_TABLE_5 = 8"
  "length DECODE_TABLE_6 = 8"
  "length DECODE_TABLE_7 = 8"
  "length DECODE_TABLE_8 = 8"
  "length DECODE_TABLE_9 = 8"
  "length DECODE_TABLE_10 = 8"
  "length DECODE_TABLE_11 = 8"
  "length DECODE_TABLE_12 = 8"
  "length DECODE_TABLE_13 = 8"
  "length DECODE_TABLE_14 = 8"
  "length DECODE_TABLE_15 = 8"
  "length DECODE_TABLE_16 = 8"
  "length DECODE_TABLE_17 = 8"
  "length DECODE_TABLE_18 = 8"
  "length DECODE_TABLE_19 = 8"
  "length DECODE_TABLE_20 = 8"
  "length DECODE_TABLE_21 = 8"
  "length DECODE_TABLE_22 = 8"
  "length DECODE_TABLE_23 = 8"
  "length DECODE_TABLE_24 = 8"
  "length DECODE_TABLE_25 = 8"
  "length DECODE_TABLE_26 = 8"
  "length DECODE_TABLE_27 = 8"
  "length DECODE_TABLE_28 = 8"
  "length DECODE_TABLE_29 = 8"
  "length DECODE_TABLE_30 = 8"
  "length DECODE_TABLE_31 = 8"
  by (simp_all add: chunk_length_eqs cong: length_lazy_cong)

lemma length_trie_chunks:
  "length TRIE_0 = 16"
  "length TRIE_1 = 16"
  "length TRIE_2 = 16"
  "length TRIE_3 = 16"
  "length TRIE_4 = 16"
  "length TRIE_5 = 16"
  "length TRIE_6 = 16"
  "length TRIE_7 = 16"
  "length TRIE_8 = 16"
  "length TRIE_9 = 16"
  "length TRIE_10 = 16"
  "length TRIE_11 = 16"
  "length TRIE_12 = 16"
  "length TRIE_13 = 16"
  "length TRIE_14 = 16"
  "length TRIE_15 = 16"
  by (simp_all add: chunk_length_eqs cong: length_lazy_cong)

lemma length_encode_chunks:
  "length ENCODE_TABLE_0 = 16"
  "length ENCODE_TABLE_1 = 16"
  "length ENCODE_TABLE_2 = 16"
  "length ENCODE_TABLE_3 = 16"
  "length ENCODE_TABLE_4 = 16"
  "length ENCODE_TABLE_5 = 16"
  "length ENCODE_TABLE_6 = 16"
  "length ENCODE_TABLE_7 = 16"
  "length ENCODE_TABLE_8 = 16"
  "length ENCODE_TABLE_9 = 16"
  "length ENCODE_TABLE_10 = 16"
  "length ENCODE_TABLE_11 = 16"
  "length ENCODE_TABLE_12 = 16"
  "length ENCODE_TABLE_13 = 16"
  "length ENCODE_TABLE_14 = 16"
  "length ENCODE_TABLE_15 = 16"
  "length ENCODE_TABLE_16 = 1"
  by (simp_all add: chunk_length_eqs cong: length_lazy_cong)

lemma length_DECODE_TABLE: "length DECODE_TABLE = 256"
  by (simp add: DECODE_TABLE_def length_concat DECODE_CHUNKS_def length_decode_chunks)

lemma length_ENCODE_TABLE: "length ENCODE_TABLE = 257"
  by (simp add: ENCODE_TABLE_def length_concat ENCODE_CHUNKS_def length_encode_chunks)

definition encode_at :: "nat \<Rightarrow> nat \<Rightarrow> nat \<times> u64" where
  "encode_at k j = ENCODE_CHUNKS ! k ! j"

definition trie_at :: "nat \<Rightarrow> nat \<Rightarrow> trie_row" where
  "trie_at k j = TRIE_CHUNKS ! k ! j"

definition encode_entry :: "nat \<Rightarrow> nat \<times> u64" where
  "encode_entry y = encode_at (y div 16) (y mod 16)"

definition trie_row :: "nat \<Rightarrow> trie_row" where
  "trie_row s = trie_at (s div 16) (s mod 16)"

lemma encode_entry_eq: "y < 257 \<Longrightarrow> ENCODE_TABLE ! y = encode_entry y"
  unfolding ENCODE_TABLE_def encode_entry_def encode_at_def
  by (rule concat_nth_chunks)
    (simp_all add: ENCODE_CHUNKS_def length_encode_chunks length_concat)

lemma decode_row_eq: "s < 256 \<Longrightarrow> DECODE_TABLE ! s = DECODE_CHUNKS ! (s div 8) ! (s mod 8)"
  unfolding DECODE_TABLE_def
  by (rule concat_nth_chunks)
    (simp_all add: DECODE_CHUNKS_def length_decode_chunks length_concat)

lemma trie_at_chunk:
  "trie_at 0 j = TRIE_0 ! j"
  "trie_at (Suc 0) j = TRIE_1 ! j"
  "trie_at 2 j = TRIE_2 ! j"
  "trie_at 3 j = TRIE_3 ! j"
  "trie_at 4 j = TRIE_4 ! j"
  "trie_at 5 j = TRIE_5 ! j"
  "trie_at 6 j = TRIE_6 ! j"
  "trie_at 7 j = TRIE_7 ! j"
  "trie_at 8 j = TRIE_8 ! j"
  "trie_at 9 j = TRIE_9 ! j"
  "trie_at 10 j = TRIE_10 ! j"
  "trie_at 11 j = TRIE_11 ! j"
  "trie_at 12 j = TRIE_12 ! j"
  "trie_at 13 j = TRIE_13 ! j"
  "trie_at 14 j = TRIE_14 ! j"
  "trie_at 15 j = TRIE_15 ! j"
  by (simp_all add: trie_at_def TRIE_CHUNKS_def)

lemma encode_at_chunk:
  "encode_at 0 j = ENCODE_TABLE_0 ! j"
  "encode_at (Suc 0) j = ENCODE_TABLE_1 ! j"
  "encode_at 2 j = ENCODE_TABLE_2 ! j"
  "encode_at 3 j = ENCODE_TABLE_3 ! j"
  "encode_at 4 j = ENCODE_TABLE_4 ! j"
  "encode_at 5 j = ENCODE_TABLE_5 ! j"
  "encode_at 6 j = ENCODE_TABLE_6 ! j"
  "encode_at 7 j = ENCODE_TABLE_7 ! j"
  "encode_at 8 j = ENCODE_TABLE_8 ! j"
  "encode_at 9 j = ENCODE_TABLE_9 ! j"
  "encode_at 10 j = ENCODE_TABLE_10 ! j"
  "encode_at 11 j = ENCODE_TABLE_11 ! j"
  "encode_at 12 j = ENCODE_TABLE_12 ! j"
  "encode_at 13 j = ENCODE_TABLE_13 ! j"
  "encode_at 14 j = ENCODE_TABLE_14 ! j"
  "encode_at 15 j = ENCODE_TABLE_15 ! j"
  "encode_at 16 j = ENCODE_TABLE_16 ! j"
  by (simp_all add: encode_at_def ENCODE_CHUNKS_def)

lemmas trie_nth [trie_eval] =
  trie_at_chunk(1) [unfolded TRIE_0_def]
  trie_at_chunk(2) [unfolded TRIE_1_def]
  trie_at_chunk(3) [unfolded TRIE_2_def]
  trie_at_chunk(4) [unfolded TRIE_3_def]
  trie_at_chunk(5) [unfolded TRIE_4_def]
  trie_at_chunk(6) [unfolded TRIE_5_def]
  trie_at_chunk(7) [unfolded TRIE_6_def]
  trie_at_chunk(8) [unfolded TRIE_7_def]
  trie_at_chunk(9) [unfolded TRIE_8_def]
  trie_at_chunk(10) [unfolded TRIE_9_def]
  trie_at_chunk(11) [unfolded TRIE_10_def]
  trie_at_chunk(12) [unfolded TRIE_11_def]
  trie_at_chunk(13) [unfolded TRIE_12_def]
  trie_at_chunk(14) [unfolded TRIE_13_def]
  trie_at_chunk(15) [unfolded TRIE_14_def]
  trie_at_chunk(16) [unfolded TRIE_15_def]

lemmas encode_nth [trie_eval] =
  encode_at_chunk(1) [unfolded ENCODE_TABLE_0_def]
  encode_at_chunk(2) [unfolded ENCODE_TABLE_1_def]
  encode_at_chunk(3) [unfolded ENCODE_TABLE_2_def]
  encode_at_chunk(4) [unfolded ENCODE_TABLE_3_def]
  encode_at_chunk(5) [unfolded ENCODE_TABLE_4_def]
  encode_at_chunk(6) [unfolded ENCODE_TABLE_5_def]
  encode_at_chunk(7) [unfolded ENCODE_TABLE_6_def]
  encode_at_chunk(8) [unfolded ENCODE_TABLE_7_def]
  encode_at_chunk(9) [unfolded ENCODE_TABLE_8_def]
  encode_at_chunk(10) [unfolded ENCODE_TABLE_9_def]
  encode_at_chunk(11) [unfolded ENCODE_TABLE_10_def]
  encode_at_chunk(12) [unfolded ENCODE_TABLE_11_def]
  encode_at_chunk(13) [unfolded ENCODE_TABLE_12_def]
  encode_at_chunk(14) [unfolded ENCODE_TABLE_13_def]
  encode_at_chunk(15) [unfolded ENCODE_TABLE_14_def]
  encode_at_chunk(16) [unfolded ENCODE_TABLE_15_def]
  encode_at_chunk(17) [unfolded ENCODE_TABLE_16_def]

lemmas entry_eval [trie_eval] = trie_row_def encode_entry_def

section \<open>Bits\<close>

text \<open>The bits of a number of a given width, the most significant first, and back.\<close>

fun bits_of :: "nat \<Rightarrow> nat \<Rightarrow> bool list" where
  "bits_of 0 v = []"
| "bits_of (Suc n) v = bits_of n (v div 2) @ [odd v]"

definition val :: "bool list \<Rightarrow> nat" where
  "val bs = foldl (\<lambda>v b. 2 * v + of_bool b) 0 bs"

lemma length_bits [simp]: "length (bits_of n v) = n"
  by (induction n arbitrary: v) simp_all

lemma bits_numeral [trie_eval]:
  "bits_of (numeral k) v = bits_of (pred_numeral k) (v div 2) @ [odd v]"
  by (simp add: numeral_eq_Suc)

lemma val_Nil [simp]: "val [] = 0"
  by (simp add: val_def)

lemma val_snoc [simp]: "val (bs @ [b]) = 2 * val bs + of_bool b"
  by (simp add: val_def)

lemma bits_val [simp]: "bits_of (length bs) (val bs) = bs"
  by (induction bs rule: rev_induct) simp_all

lemma bits_eq_map_bit: "bits_of n v = map (bit v) (rev [0..<n])"
proof (induction n arbitrary: v)
  case (Suc n)
  have "[0..<Suc n] = 0 # map Suc [0..<n]"
    by (simp add: upt_conv_Cons map_Suc_upt del: upt_Suc)
  then have "rev [0..<Suc n] = map Suc (rev [0..<n]) @ [0]"
    by (simp add: rev_map del: upt_Suc)
  then show ?case
    by (simp only: bits_of.simps Suc.IH map_append map_map) (simp add: bit_0 comp_def bit_Suc)
qed simp

lemma nth_bits: "i < n \<Longrightarrow> bits_of n v ! i = bit v (n - 1 - i)"
  by (simp add: bits_eq_map_bit rev_nth)

lemma bits_append: "bits_of (m + n) v = bits_of m (v div 2 ^ n) @ bits_of n v"
  by (induction n arbitrary: v) (simp_all add: div_mult2_eq mult.commute)

lemma bits_ones: "bits_of n (2 ^ n - 1) = replicate n True"
proof (induction n)
  case (Suc n)
  have "(2 ^ Suc n - 1) div 2 = (2 ^ n - 1 :: nat)" "odd (2 ^ Suc n - 1 :: nat)" by auto
  then show ?case using Suc by (simp add: replicate_append_same)
qed simp

section \<open>The trie agrees with the table of codes\<close>

text \<open>
  Every edge of the trie, by the numbers of the rows: an inner node extends the bits of its parent,
  and a symbol has the code its position says. Conversely the code of each symbol leads to it.
\<close>

definition child :: "nat \<Rightarrow> bool \<Rightarrow> trie_node" where
  "child s b = (case trie_row s of (_, _, l, r) \<Rightarrow> if b then r else l)"

fun run :: "trie_node \<Rightarrow> bool list \<Rightarrow> trie_node option" where
  "run x [] = Some x"
| "run (St s) (b # bs) = run (child s b) bs"
| "run (Sym y) (b # bs) = None"

fun node_code :: "trie_node \<Rightarrow> nat \<times> nat" where
  "node_code (St s) = (case trie_row s of (n, v, _) \<Rightarrow> (n, v))"
| "node_code (Sym y) = (case encode_entry y of (n, c) \<Rightarrow> (n, unat c))"

fun node_ok :: "trie_node \<Rightarrow> bool" where
  "node_ok (St s) \<longleftrightarrow> s < 256"
| "node_ok (Sym y) \<longleftrightarrow> y < 257"

definition edges_ok :: "trie_row \<Rightarrow> bool" where
  "edges_ok row \<longleftrightarrow> (case row of (n, v, l, r) \<Rightarrow>
     node_ok l \<and> node_code l = (Suc n, 2 * v) \<and> node_ok r \<and> node_code r = (Suc n, 2 * v + 1))"

fun codes_ok_from :: "nat \<Rightarrow> (nat \<times> u64) list \<Rightarrow> bool" where
  "codes_ok_from y [] \<longleftrightarrow> True"
| "codes_ok_from y ((n, c) # es) \<longleftrightarrow>
     run (St 0) (bits_of n (unat c)) = Some (Sym y) \<and> codes_ok_from (Suc y) es"

lemma edges_ok_chunks:
  "list_all edges_ok TRIE_0"
  "list_all edges_ok TRIE_1"
  "list_all edges_ok TRIE_2"
  "list_all edges_ok TRIE_3"
  "list_all edges_ok TRIE_4"
  "list_all edges_ok TRIE_5"
  "list_all edges_ok TRIE_6"
  "list_all edges_ok TRIE_7"
  "list_all edges_ok TRIE_8"
  "list_all edges_ok TRIE_9"
  "list_all edges_ok TRIE_10"
  "list_all edges_ok TRIE_11"
  "list_all edges_ok TRIE_12"
  "list_all edges_ok TRIE_13"
  "list_all edges_ok TRIE_14"
  "list_all edges_ok TRIE_15"
  by (simp_all add: edges_ok_def trie_chunk_defs trie_eval cong: nth_index_cong)

lemma codes_ok_chunks:
  "codes_ok_from 0 ENCODE_TABLE_0"
  "codes_ok_from 16 ENCODE_TABLE_1"
  "codes_ok_from 32 ENCODE_TABLE_2"
  "codes_ok_from 48 ENCODE_TABLE_3"
  "codes_ok_from 64 ENCODE_TABLE_4"
  "codes_ok_from 80 ENCODE_TABLE_5"
  "codes_ok_from 96 ENCODE_TABLE_6"
  "codes_ok_from 112 ENCODE_TABLE_7"
  "codes_ok_from 128 ENCODE_TABLE_8"
  "codes_ok_from 144 ENCODE_TABLE_9"
  "codes_ok_from 160 ENCODE_TABLE_10"
  "codes_ok_from 176 ENCODE_TABLE_11"
  "codes_ok_from 192 ENCODE_TABLE_12"
  "codes_ok_from 208 ENCODE_TABLE_13"
  "codes_ok_from 224 ENCODE_TABLE_14"
  "codes_ok_from 240 ENCODE_TABLE_15"
  "codes_ok_from 256 ENCODE_TABLE_16"
  by (simp_all add: child_def encode_chunk_defs trie_eval cong: nth_index_cong)

section \<open>The table of the decoder agrees with the trie\<close>

text \<open>
  A half byte takes four steps in the trie, starting again at the root after a symbol;
  \<open>expand\<close> lists the results for the sixteen half bytes. An entry of the table must give
  the state reached and the symbol passed on the way, an error for the end-of-string symbol,
  and the flag \<open>MAYBE_EOS\<close> (or state 0) exactly when at most seven bits, all of them ones, lead to
  the state.
\<close>

fun walk :: "nat list \<times> nat \<Rightarrow> bool list \<Rightarrow> nat list \<times> nat" where
  "walk (out, s) [] = (out, s)"
| "walk (out, s) (b # bs) =
     (case child s b of St s' \<Rightarrow> walk (out, s') bs | Sym y \<Rightarrow> walk (out @ [y], 0) bs)"

fun expand :: "nat \<Rightarrow> nat list \<times> nat \<Rightarrow> (nat list \<times> nat) list" where
  "expand 0 x = [x]"
| "expand (Suc d) x = expand d (walk x [False]) @ expand d (walk x [True])"

lemma expand_numeral [trie_eval]:
  "expand (numeral k) x =
     expand (pred_numeral k) (walk x [False]) @ expand (pred_numeral k) (walk x [True])"
  by (simp add: numeral_eq_Suc)

definition ones_state :: "nat \<Rightarrow> bool" where
  "ones_state s \<longleftrightarrow> (case trie_row s of (n, v, _) \<Rightarrow> n \<le> 7 \<and> Suc v = 2 ^ n)"

definition entry_ok :: "nat list \<times> nat \<Rightarrow> decode_entry \<Rightarrow> bool" where
  "entry_ok x e \<longleftrightarrow> (case x of (out, s) \<Rightarrow> case e of (next, byte, flags) \<Rightarrow>
     if 256 \<in> set out then flags AND 4 = 4
     else flags AND 4 \<noteq> 4 \<and> next = s
       \<and> (flags AND 2 = 2 \<longleftrightarrow> out \<noteq> []) \<and> (out = [] \<or> out = [unat byte])
       \<and> (s = 0 \<or> flags AND 1 = 1 \<longleftrightarrow> ones_state s))"

fun rows_ok_from :: "nat \<Rightarrow> decode_entry list list \<Rightarrow> bool" where
  "rows_ok_from s [] \<longleftrightarrow> True"
| "rows_ok_from s (row # rows) \<longleftrightarrow>
     list_all2 entry_ok (expand 4 ([], s)) row \<and> rows_ok_from (Suc s) rows"

lemmas rows_eval = entry_ok_def ones_state_def child_def

lemma rows_ok_0: "rows_ok_from 0 DECODE_TABLE_0"
  by (simp add: DECODE_TABLE_0_def rows_eval trie_eval cong: nth_index_cong)

lemma rows_ok_1: "rows_ok_from 8 DECODE_TABLE_1"
  by (simp add: DECODE_TABLE_1_def rows_eval trie_eval cong: nth_index_cong)

lemma rows_ok_2: "rows_ok_from 16 DECODE_TABLE_2"
  by (simp add: DECODE_TABLE_2_def rows_eval trie_eval cong: nth_index_cong)

lemma rows_ok_3: "rows_ok_from 24 DECODE_TABLE_3"
  by (simp add: DECODE_TABLE_3_def rows_eval trie_eval cong: nth_index_cong)

lemma rows_ok_4: "rows_ok_from 32 DECODE_TABLE_4"
  by (simp add: DECODE_TABLE_4_def rows_eval trie_eval cong: nth_index_cong)

lemma rows_ok_5: "rows_ok_from 40 DECODE_TABLE_5"
  by (simp add: DECODE_TABLE_5_def rows_eval trie_eval cong: nth_index_cong)

lemma rows_ok_6: "rows_ok_from 48 DECODE_TABLE_6"
  by (simp add: DECODE_TABLE_6_def rows_eval trie_eval cong: nth_index_cong)

lemma rows_ok_7: "rows_ok_from 56 DECODE_TABLE_7"
  by (simp add: DECODE_TABLE_7_def rows_eval trie_eval cong: nth_index_cong)

lemma rows_ok_8: "rows_ok_from 64 DECODE_TABLE_8"
  by (simp add: DECODE_TABLE_8_def rows_eval trie_eval cong: nth_index_cong)

lemma rows_ok_9: "rows_ok_from 72 DECODE_TABLE_9"
  by (simp add: DECODE_TABLE_9_def rows_eval trie_eval cong: nth_index_cong)

lemma rows_ok_10: "rows_ok_from 80 DECODE_TABLE_10"
  by (simp add: DECODE_TABLE_10_def rows_eval trie_eval cong: nth_index_cong)

lemma rows_ok_11: "rows_ok_from 88 DECODE_TABLE_11"
  by (simp add: DECODE_TABLE_11_def rows_eval trie_eval cong: nth_index_cong)

lemma rows_ok_12: "rows_ok_from 96 DECODE_TABLE_12"
  by (simp add: DECODE_TABLE_12_def rows_eval trie_eval cong: nth_index_cong)

lemma rows_ok_13: "rows_ok_from 104 DECODE_TABLE_13"
  by (simp add: DECODE_TABLE_13_def rows_eval trie_eval cong: nth_index_cong)

lemma rows_ok_14: "rows_ok_from 112 DECODE_TABLE_14"
  by (simp add: DECODE_TABLE_14_def rows_eval trie_eval cong: nth_index_cong)

lemma rows_ok_15: "rows_ok_from 120 DECODE_TABLE_15"
  by (simp add: DECODE_TABLE_15_def rows_eval trie_eval cong: nth_index_cong)

lemma rows_ok_16: "rows_ok_from 128 DECODE_TABLE_16"
  by (simp add: DECODE_TABLE_16_def rows_eval trie_eval cong: nth_index_cong)

lemma rows_ok_17: "rows_ok_from 136 DECODE_TABLE_17"
  by (simp add: DECODE_TABLE_17_def rows_eval trie_eval cong: nth_index_cong)

lemma rows_ok_18: "rows_ok_from 144 DECODE_TABLE_18"
  by (simp add: DECODE_TABLE_18_def rows_eval trie_eval cong: nth_index_cong)

lemma rows_ok_19: "rows_ok_from 152 DECODE_TABLE_19"
  by (simp add: DECODE_TABLE_19_def rows_eval trie_eval cong: nth_index_cong)

lemma rows_ok_20: "rows_ok_from 160 DECODE_TABLE_20"
  by (simp add: DECODE_TABLE_20_def rows_eval trie_eval cong: nth_index_cong)

lemma rows_ok_21: "rows_ok_from 168 DECODE_TABLE_21"
  by (simp add: DECODE_TABLE_21_def rows_eval trie_eval cong: nth_index_cong)

lemma rows_ok_22: "rows_ok_from 176 DECODE_TABLE_22"
  by (simp add: DECODE_TABLE_22_def rows_eval trie_eval cong: nth_index_cong)

lemma rows_ok_23: "rows_ok_from 184 DECODE_TABLE_23"
  by (simp add: DECODE_TABLE_23_def rows_eval trie_eval cong: nth_index_cong)

lemma rows_ok_24: "rows_ok_from 192 DECODE_TABLE_24"
  by (simp add: DECODE_TABLE_24_def rows_eval trie_eval cong: nth_index_cong)

lemma rows_ok_25: "rows_ok_from 200 DECODE_TABLE_25"
  by (simp add: DECODE_TABLE_25_def rows_eval trie_eval cong: nth_index_cong)

lemma rows_ok_26: "rows_ok_from 208 DECODE_TABLE_26"
  by (simp add: DECODE_TABLE_26_def rows_eval trie_eval cong: nth_index_cong)

lemma rows_ok_27: "rows_ok_from 216 DECODE_TABLE_27"
  by (simp add: DECODE_TABLE_27_def rows_eval trie_eval cong: nth_index_cong)

lemma rows_ok_28: "rows_ok_from 224 DECODE_TABLE_28"
  by (simp add: DECODE_TABLE_28_def rows_eval trie_eval cong: nth_index_cong)

lemma rows_ok_29: "rows_ok_from 232 DECODE_TABLE_29"
  by (simp add: DECODE_TABLE_29_def rows_eval trie_eval cong: nth_index_cong)

lemma rows_ok_30: "rows_ok_from 240 DECODE_TABLE_30"
  by (simp add: DECODE_TABLE_30_def rows_eval trie_eval cong: nth_index_cong)

lemma rows_ok_31: "rows_ok_from 248 DECODE_TABLE_31"
  by (simp add: DECODE_TABLE_31_def rows_eval trie_eval cong: nth_index_cong)

lemmas rows_ok_all =
  rows_ok_0 rows_ok_1 rows_ok_2 rows_ok_3 rows_ok_4 rows_ok_5 rows_ok_6 rows_ok_7
  rows_ok_8 rows_ok_9 rows_ok_10 rows_ok_11 rows_ok_12 rows_ok_13 rows_ok_14 rows_ok_15
  rows_ok_16 rows_ok_17 rows_ok_18 rows_ok_19 rows_ok_20 rows_ok_21 rows_ok_22 rows_ok_23
  rows_ok_24 rows_ok_25 rows_ok_26 rows_ok_27 rows_ok_28 rows_ok_29 rows_ok_30 rows_ok_31

end
