(* ===== verification/Huffman_Codec.thy ===== *)
theory Huffman_Codec
  imports Huffman_Trie Hpack_Integer
begin

text \<open>
  The Huffman codec of HPACK (\<open>h2/hpack/huffman/mod.rs\<close>): the decoder that reads half bytes
  through \<open>DECODE_TABLE\<close>, and the encoder that collects codes in a 64-bit register. The decoder is
  proved to accept exactly the encodings with at most seven bits of padding, the encoder to
  produce them.
\<close>

section \<open>The decoder\<close>

record huff_decoder =
  hd_state :: nat
  hd_maybe_eos :: bool

definition MAYBE_EOS :: u8 where "MAYBE_EOS = 1"
definition DECODED :: u8 where "DECODED = 2"
definition HUFF_ERROR :: u8 where "HUFF_ERROR = 4"

definition huff_decoder_new :: huff_decoder where
  "huff_decoder_new = \<lparr>hd_state = 0, hd_maybe_eos = False\<rparr>"

definition decode4 :: "u8 \<Rightarrow> (huff_decoder, u8 option, decoder_error) op" where
  "decode4 input d =
     sbind (slift (index_at DECODE_TABLE (hd_state d))) (\<lambda>row.
     sbind (slift (index_at row (unat input))) (\<lambda>(next, byte, flags) d.
       if flags AND HUFF_ERROR = HUFF_ERROR then (Err InvalidHuffmanCode, d)
       else
         let ret = (if flags AND DECODED = DECODED then Some byte else None)
         in (Ok ret, d\<lparr>hd_state := next, hd_maybe_eos := (flags AND MAYBE_EOS = MAYBE_EOS)\<rparr>))) d"

definition is_final :: "huff_decoder \<Rightarrow> bool" where
  "is_final d \<longleftrightarrow> hd_state d = 0 \<or> hd_maybe_eos d"

text \<open>
  One half byte: \<open>if let Some(b) = decoder.decode4(..)? { buf.put_u8(b); }\<close>. The state of the
  operation is the decoder with the scratch buffer.
\<close>

definition decode_half :: "u8 \<Rightarrow> (huff_decoder \<times> bytes, unit, decoder_error) op" where
  "decode_half input db =
     (case db of (d, buf) \<Rightarrow> case decode4 input d of
        (Ok (Some b), d) \<Rightarrow> (Ok (), d, buf @ [b])
      | (Ok None, d) \<Rightarrow> (Ok (), d, buf)
      | (Err e, d) \<Rightarrow> (Err e, d, buf)
      | (Panic, d) \<Rightarrow> (Panic, d, buf))"

fun decode_bytes :: "bytes \<Rightarrow> (huff_decoder \<times> bytes, unit, decoder_error) op" where
  "decode_bytes [] = sret ()"
| "decode_bytes (b # src) =
     sbind (decode_half (drop_bit 4 b)) (\<lambda>_.
     sbind (decode_half (b AND 0xf)) (\<lambda>_. decode_bytes src))"

text \<open>\<open>buf.split()\<close> at the end hands out the whole buffer and leaves it empty.\<close>

definition huffman_decode :: "bytes \<Rightarrow> (bytes, bytes, decoder_error) op" where
  "huffman_decode src buf =
     (case decode_bytes src (huff_decoder_new, buf) of
        (Ok _, d, buf) \<Rightarrow> if \<not> is_final d then (Err InvalidHuffmanCode, buf) else (Ok buf, [])
      | (Err e, d, buf) \<Rightarrow> (Err e, buf)
      | (Panic, d, buf) \<Rightarrow> (Panic, buf))"

section \<open>The encoder\<close>

text \<open>
  \<open>flush\<close> is the inner loop: it writes a byte while at most 32 bits of the 40-bit window are free.
  It returns the register, the number of free bits and the room that is left.
\<close>

function flush :: "u64 \<Rightarrow> nat \<Rightarrow> nat \<Rightarrow> (dst_buf, u64 \<times> nat \<times> nat, encoder_error) op" where
  "flush bits bits_left rem d =
     (if bits_left \<le> 32 then
        if rem = 0 then (Err BufferOverflow, d)
        else sbind (put_u8 (ucast (drop_bit 32 bits))) (\<lambda>_.
               flush (push_bit 8 bits) (bits_left + 8) (rem - 1)) d
      else (Ok (bits, bits_left, rem), d))"
  by auto
termination by (relation "measure (\<lambda>(_, bits_left, _). 33 - bits_left)") auto

declare flush.simps [simp del]

fun encode_bytes :: "bytes \<Rightarrow> u64 \<Rightarrow> nat \<Rightarrow> nat \<Rightarrow> (dst_buf, u64 \<times> nat \<times> nat, encoder_error) op" where
  "encode_bytes [] bits bits_left rem = sret (bits, bits_left, rem)"
| "encode_bytes (b # src) bits bits_left rem =
     sbind (slift (index_at ENCODE_TABLE (unat b))) (\<lambda>(nbits, code).
     sbind (flush (bits OR push_bit (bits_left - nbits) code) (bits_left - nbits) rem)
       (\<lambda>(bits, bits_left, rem). encode_bytes src bits bits_left rem))"

definition huffman_encode :: "bytes \<Rightarrow> (dst_buf, unit, encoder_error) op" where
  "huffman_encode src d =
     sbind (encode_bytes src 0 40 (dst_room d)) (\<lambda>(bits, bits_left, rem) d.
       if bits_left \<noteq> 40 then
         if rem = 0 then (Err BufferOverflow, d)
         else put_u8 (ucast (drop_bit 32 (bits OR (push_bit bits_left 1 - 1)))) d
       else (Ok (), d)) d"

section \<open>The checks of the tables, assembled\<close>

lemma codes_ok_append:
  "codes_ok_from y (es @ es') \<longleftrightarrow> codes_ok_from y es \<and> codes_ok_from (y + length es) es'"
  by (induction y es rule: codes_ok_from.induct) auto

lemma rows_ok_append:
  "rows_ok_from s (rows @ rows') \<longleftrightarrow> rows_ok_from s rows \<and> rows_ok_from (s + length rows) rows'"
  by (induction s rows rule: rows_ok_from.induct) auto

lemma codes_ok: "codes_ok_from 0 ENCODE_TABLE"
  by (simp add: ENCODE_TABLE_def ENCODE_CHUNKS_def codes_ok_append length_encode_chunks
      codes_ok_chunks)

lemma rows_ok: "rows_ok_from 0 DECODE_TABLE"
  by (simp add: DECODE_TABLE_def DECODE_CHUNKS_def rows_ok_append length_decode_chunks rows_ok_all)

lemma codes_ok_nth:
  "codes_ok_from y es \<Longrightarrow> i < length es \<Longrightarrow>
     run (St 0) (bits_of (fst (es ! i)) (unat (snd (es ! i)))) = Some (Sym (y + i))"
proof (induction y es arbitrary: i rule: codes_ok_from.induct)
  case (2 y n c es)
  then show ?case by (cases i) auto
qed simp

lemma rows_ok_nth:
  "rows_ok_from s rows \<Longrightarrow> i < length rows \<Longrightarrow>
     list_all2 entry_ok (expand 4 ([], s + i)) (rows ! i)"
proof (induction s rows arbitrary: i rule: rows_ok_from.induct)
  case (2 s row rows)
  then show ?case by (cases i) auto
qed simp

lemma edges: "s < 256 \<Longrightarrow> edges_ok (trie_row s)"
proof -
  assume s: "s < 256"
  have "list_all (\<lambda>c. length c = 16 \<and> list_all edges_ok c) TRIE_CHUNKS"
    using edges_ok_chunks by (simp add: TRIE_CHUNKS_def length_trie_chunks)
  moreover have "TRIE_CHUNKS ! (s div 16) \<in> set TRIE_CHUNKS"
    using s by (intro nth_mem) (simp add: TRIE_CHUNKS_def)
  ultimately have "length (TRIE_CHUNKS ! (s div 16)) = 16"
    "list_all edges_ok (TRIE_CHUNKS ! (s div 16))"
    by (auto simp: list_all_iff)
  then show ?thesis by (simp add: trie_row_def trie_at_def list_all_length)
qed

section \<open>Paths in the trie\<close>

definition code_of :: "nat \<Rightarrow> bool list" where
  "code_of y = (case ENCODE_TABLE ! y of (n, c) \<Rightarrow> bits_of n (unat c))"

lemma run_append: "run x (p @ q) = Option.bind (run x p) (\<lambda>y. run y q)"
  by (induction x p rule: run.induct) auto

lemma run_code: "y < 257 \<Longrightarrow> run (St 0) (code_of y) = Some (Sym y)"
  using codes_ok_nth [OF codes_ok, of y]
  by (cases "ENCODE_TABLE ! y") (simp add: code_of_def length_ENCODE_TABLE)

lemma run_sound: "run (St 0) q = Some x \<Longrightarrow> node_ok x \<and> node_code x = (length q, val q)"
proof (induction q arbitrary: x rule: rev_induct)
  case Nil
  have "trie_row 0 = (0, 0, St 1, St 22)" by (simp add: trie_eval cong: nth_index_cong)
  with Nil show ?case by auto
next
  case (snoc b q)
  then obtain z where z: "run (St 0) q = Some z" "run z [b] = Some x"
    by (auto simp: run_append bind_eq_Some_conv)
  then obtain s where s: "run (St 0) q = Some (St s)" "child s b = x"
    by (cases z) auto
  with snoc.IH have "s < 256" "node_code (St s) = (length q, val q)" by auto
  with edges [of s] s(2) show ?case
    by (cases "trie_row s") (auto simp: edges_ok_def child_def)
qed

lemma run_SymD: "run (St 0) q = Some (Sym y) \<Longrightarrow> y < 257 \<and> q = code_of y"
  using run_sound [of q "Sym y"] bits_val [of q]
  by (auto simp: code_of_def encode_entry_eq split: prod.splits)

lemma run_StD: "run (St 0) q = Some (St s) \<Longrightarrow> s < 256"
  using run_sound [of q "St s"] by simp

lemma ones_state_iff:
  assumes "run (St 0) q = Some (St s)"
  shows "ones_state s \<longleftrightarrow> (\<exists>k \<le> 7. q = replicate k True)"
proof -
  have s: "fst (trie_row s) = length q" "fst (snd (trie_row s)) = val q"
    using run_sound [OF assms] by (auto split: prod.splits)
  have v: "Suc (val (replicate k True)) = 2 ^ k" for k
  proof (induction k)
    case (Suc k)
    then show ?case by (simp flip: replicate_append_same)
  qed simp
  show ?thesis
  proof
    assume "ones_state s"
    with s have n: "length q \<le> 7" "Suc (val q) = 2 ^ length q"
      by (auto simp: ones_state_def split: prod.splits)
    then have "val q = 2 ^ length q - 1" by simp
    then have "q = replicate (length q) True" using bits_val [of q] bits_ones [of "length q"] by simp
    with n show "\<exists>k \<le> 7. q = replicate k True" by blast
  next
    assume "\<exists>k \<le> 7. q = replicate k True"
    with s v show "ones_state s" by (auto simp: ones_state_def split: prod.splits)
  qed
qed

lemma ones_is_path: "k \<le> 7 \<Longrightarrow> \<exists>s. run (St 0) (replicate k True) = Some (St s)"
proof -
  assume k: "k \<le> 7"
  have "run (St 0) (replicate 7 True) = Some (St 74)"
  proof -
    have "replicate 7 True = [True, True, True, True, True, True, True]"
      by (simp add: numeral_eq_Suc)
    then show ?thesis by (simp add: child_def trie_eval cong: nth_index_cong)
  qed
  moreover have "replicate 7 True = replicate k True @ replicate (7 - k) True"
    using k by (simp flip: replicate_add)
  ultimately obtain x where "run (St 0) (replicate k True) = Some x" "run x (replicate (7 - k) True) = Some (St 74)"
    by (auto simp: run_append bind_eq_Some_conv)
  then show ?thesis by (cases x; cases "7 - k") auto
qed

section \<open>Walking the trie\<close>

definition byte_bits :: "u8 \<Rightarrow> bool list" where
  "byte_bits b = bits_of 8 (unat b)"

definition huffman_bits :: "bytes \<Rightarrow> bool list" where
  "huffman_bits src = concat (map byte_bits src)"

definition codes :: "nat list \<Rightarrow> bool list" where
  "codes ys = concat (map code_of ys)"

lemma codes_simps [simp]: "codes [] = []" "codes (y # ys) = code_of y @ codes ys"
  "codes (xs @ ys) = codes xs @ codes ys"
  by (simp_all add: codes_def)

lemma walk_append: "walk x (p @ q) = walk (walk x p) q"
  by (induction x p rule: walk.induct) (auto split: trie_node.split)

lemma walk_out: "walk (out, s) bs = (out @ fst (walk ([], s) bs), snd (walk ([], s) bs))"
proof (induction bs arbitrary: out s)
  case (Cons b bs)
  show ?case
  proof (cases "child s b")
    case (St t)
    then show ?thesis using Cons [of out t] by simp
  next
    case (Sym y)
    have "walk (out @ [y], 0) bs = (out @ fst (walk ([y], 0) bs), snd (walk ([y], 0) bs))"
      by (simp only: Cons [of "out @ [y]" 0] Cons [of "[y]" 0]) simp
    with Sym show ?thesis by simp
  qed
qed simp

lemma walk_run_St: "run (St s) q = Some (St s') \<Longrightarrow> walk (out, s) q = (out, s')"
proof (induction q arbitrary: s)
  case (Cons b q)
  then show ?case by (cases "child s b"; cases q) auto
qed simp

lemma walk_run_Sym: "run (St s) q = Some (Sym y) \<Longrightarrow> walk (out, s) q = (out @ [y], 0)"
proof (induction q arbitrary: s)
  case (Cons b q)
  then show ?case by (cases "child s b"; cases q) auto
qed simp

lemma walk_codes:
  "set ys \<subseteq> {..<257} \<Longrightarrow> run (St 0) p = Some (St s) \<Longrightarrow> walk (out, 0) (codes ys @ p) = (out @ ys, s)"
  by (induction ys arbitrary: out) (simp_all add: walk_run_St walk_append walk_run_Sym run_code)

lemma walk_sound:
  assumes "run (St 0) p = Some (St s)" "walk ([], s) q = (ys, s')"
  shows "\<exists>p'. p @ q = codes ys @ p' \<and> run (St 0) p' = Some (St s') \<and> set ys \<subseteq> {..<257}"
  using assms
proof (induction q arbitrary: p s ys)
  case (Cons b q)
  have r: "run (St 0) (p @ [b]) = Some (child s b)" using Cons.prems by (simp add: run_append)
  show ?case
  proof (cases "child s b")
    case (St t)
    with Cons.IH [of "p @ [b]" t ys] r Cons.prems show ?thesis by simp
  next
    case (Sym y)
    with r have y: "y < 257" "p @ [b] = code_of y" by (auto dest: run_SymD)
    from Sym Cons.prems have "walk ([y], 0) q = (ys, s')" by simp
    then obtain zs where zs: "ys = y # zs" "walk ([], 0) q = (zs, s')"
      using walk_out [of "[y]" 0 q] by (cases "walk ([], 0) q") auto
    with Cons.IH [of "[]" 0 zs] obtain p' where "q = codes zs @ p'"
      "run (St 0) p' = Some (St s')" "set zs \<subseteq> {..<257}" by auto
    moreover have "p @ b # q = code_of y @ q" using y(2) by (metis append.assoc append_Cons append_Nil)
    ultimately have "p @ b # q = codes ys @ p'" using zs(1) by simp
    then show ?thesis using \<open>run (St 0) p' = Some (St s')\<close> \<open>set zs \<subseteq> {..<257}\<close> zs(1) y(1) by auto
  qed
qed auto

text \<open>The code is uniquely decodable, also with an unfinished code behind it.\<close>

lemma codes_unique:
  assumes "set xs \<subseteq> {..<257}" "set ys \<subseteq> {..<257}" "codes xs @ p = codes ys @ q"
    "run (St 0) p = Some (St s)" "run (St 0) q = Some (St t)"
  shows "xs = ys \<and> p = q"
  using walk_codes [OF assms(1,4), of "[]"] walk_codes [OF assms(2,5), of "[]"] assms(3) by simp

section \<open>One half byte of the decoder\<close>

lemma walk_Cons: "walk x (b # q) = walk (walk x [b]) q"
  using walk_append [of x "[b]" q] by (simp only: append_Cons append_Nil)

lemma bits_Suc_front: "bits_of (Suc d) v = odd (v div 2 ^ d) # bits_of d v"
  by (induction d arbitrary: v) (simp_all add: div_mult2_eq)

lemma bits_Suc_low: "v < 2 ^ d \<Longrightarrow> bits_of (Suc d) v = False # bits_of d v"
  by (simp add: bits_Suc_front del: bits_of.simps)

lemma bits_take_bit:
  assumes "take_bit n v = take_bit n w"
  shows "bits_of n v = bits_of n w"
proof (rule nth_equalityI)
  fix i assume "i < length (bits_of n v)"
  then have i: "i < n" by simp
  have "bit (take_bit n v) (n - 1 - i) = bit (take_bit n w) (n - 1 - i)" by (simp add: assms)
  with i show "bits_of n v ! i = bits_of n w ! i" by (simp add: nth_bits bit_take_bit_iff)
qed simp

lemma bits_Suc_high:
  assumes "v < 2 ^ d"
  shows "bits_of (Suc d) (2 ^ d + v) = True # bits_of d v"
proof -
  have "take_bit d (2 ^ d + v) = take_bit d v" by (simp add: take_bit_eq_mod)
  then have "bits_of d (2 ^ d + v) = bits_of d v" by (rule bits_take_bit)
  moreover have "(2 ^ d + v) div 2 ^ d = 1" using assms by (simp add: div_add_self1)
  ultimately show ?thesis by (simp only: bits_Suc_front) simp
qed

lemma expand_eq: "expand d x = map (\<lambda>v. walk x (bits_of d v)) [0..<2 ^ d]"
proof (induction d arbitrary: x)
  case 0
  show ?case by (cases x) simp
next
  case (Suc d)
  let ?f = "\<lambda>v. walk x (bits_of (Suc d) v)"
  have "walk (walk x [False]) (bits_of d v) = ?f v" if "v < 2 ^ d" for v
    using walk_Cons [of x False "bits_of d v"] by (simp only: bits_Suc_low [OF that])
  then have l: "expand d (walk x [False]) = map ?f [0..<2 ^ d]"
    unfolding Suc by (intro map_cong [OF refl]) (simp only: set_upt atLeastLessThan_iff)
  have "walk (walk x [True]) (bits_of d v) = ?f (2 ^ d + v)" if "v < 2 ^ d" for v
    using walk_Cons [of x True "bits_of d v"] by (simp only: bits_Suc_high [OF that])
  then have h: "expand d (walk x [True]) = map (\<lambda>v. ?f (2 ^ d + v)) [0..<2 ^ d]"
    unfolding Suc by (intro map_cong [OF refl]) (simp only: set_upt atLeastLessThan_iff)
  have u: "[0..<2 ^ Suc d] = [0..<2 ^ d] @ map (\<lambda>v. 2 ^ d + v) [0..<2 ^ d]"
  proof -
    have "map (\<lambda>v. 2 ^ d + v) [0..<2 ^ d] = [2 ^ d..<2 ^ d + 2 ^ d]"
      using map_add_upt [of "2 ^ d" "2 ^ d"] by (simp add: add.commute)
    with upt_add_eq_append [of 0 "2 ^ d" "2 ^ d"] show ?thesis by (simp add: mult_2)
  qed
  show ?case by (simp only: u expand.simps l h map_append map_map comp_def)
qed

lemma table_entry_ok:
  assumes "s < 256" "n < 16"
  shows "length (DECODE_TABLE ! s) = 16 \<and>
    entry_ok (walk ([], s) (bits_of 4 n)) (DECODE_TABLE ! s ! n)"
proof -
  have "list_all2 entry_ok (map (\<lambda>v. walk ([], s) (bits_of 4 v)) [0..<16]) (DECODE_TABLE ! s)"
    using rows_ok_nth [OF rows_ok, of s] assms(1) by (simp add: length_DECODE_TABLE expand_eq)
  with assms(2) show ?thesis by (auto simp: list_all2_conv_all_nth)
qed

text \<open>
  The relation between the decoder and a path: the state is the node the pending bits lead to, and
  the decoder is final when the pending bits are padding.
\<close>

definition at_path :: "huff_decoder \<Rightarrow> bool list \<Rightarrow> bool" where
  "at_path d p \<longleftrightarrow> run (St 0) p = Some (St (hd_state d))
     \<and> (is_final d \<longleftrightarrow> (\<exists>k \<le> 7. p = replicate k True))"

lemma at_path_new: "at_path huff_decoder_new []"
  by (auto simp: at_path_def huff_decoder_new_def is_final_def)

lemma decode_half_ok:
  assumes "at_path d p" "unat nib < 16" "walk ([], hd_state d) (bits_of 4 (unat nib)) = (ys, s)"
  shows "if 256 \<in> set ys then decode_half nib (d, buf) = (Err InvalidHuffmanCode, d, buf)
    else \<exists>d' p'. decode_half nib (d, buf) = (Ok (), d', buf @ map word_of_nat ys)
      \<and> p @ bits_of 4 (unat nib) = codes ys @ p' \<and> at_path d' p' \<and> hd_state d' = s"
proof -
  obtain next' byte flags where e: "DECODE_TABLE ! hd_state d ! unat nib = (next', byte, flags)"
    by (cases "DECODE_TABLE ! hd_state d ! unat nib")
  have s: "hd_state d < 256" using assms(1) by (auto simp: at_path_def dest: run_StD)
  have ok: "length (DECODE_TABLE ! hd_state d) = 16" "entry_ok (ys, s) (next', byte, flags)"
    using table_entry_ok [OF s assms(2)] e assms(3) by auto
  obtain p' where p': "p @ bits_of 4 (unat nib) = codes ys @ p'" "run (St 0) p' = Some (St s)"
    using walk_sound [of p "hd_state d" "bits_of 4 (unat nib)" ys s] assms(1,3)
    by (auto simp: at_path_def)
  show ?thesis
  proof (cases "256 \<in> set ys")
    case True
    then show ?thesis
      using ok e s assms(2)
      by (simp add: decode_half_def decode4_def index_at_def length_DECODE_TABLE entry_ok_def
          HUFF_ERROR_def)
  next
    case False
    let ?d = "d\<lparr>hd_state := next', hd_maybe_eos := (flags AND MAYBE_EOS = MAYBE_EOS)\<rparr>"
    have "decode_half nib (d, buf) = (Ok (), ?d, buf @ map word_of_nat ys)"
      using ok e s assms(2) False
      by (auto simp add: decode_half_def decode4_def index_at_def length_DECODE_TABLE entry_ok_def
          HUFF_ERROR_def DECODED_def)
    moreover have "at_path ?d p'"
      using ok(2) False p'(2) ones_state_iff [OF p'(2)]
      by (auto simp: at_path_def entry_ok_def is_final_def MAYBE_EOS_def)
    moreover have "hd_state ?d = s" using ok(2) False by (simp add: entry_ok_def)
    ultimately show ?thesis using False p'(1) by auto
  qed
qed

section \<open>The whole decoder\<close>

lemma byte_bits_halves:
  "byte_bits b = bits_of 4 (unat (drop_bit 4 b)) @ bits_of 4 (unat (b AND 0xf))"
proof -
  have "b AND 0xf = take_bit 4 b" by (simp add: take_bit_eq_mask mask_eq_exp_minus_1)
  then have "unat (b AND 0xf) = take_bit 4 (unat b)" by (simp only: unsigned_take_bit_eq)
  then have "bits_of 4 (unat (b AND 0xf)) = bits_of 4 (unat b)"
    by (intro bits_take_bit) simp
  moreover have "unat (drop_bit 4 b) = unat b div 2 ^ 4"
    by (simp add: drop_bit_eq_div unat_div)
  ultimately show ?thesis using bits_append [of 4 4 "unat b"] by (simp add: byte_bits_def)
qed

lemma unat_half: "unat (drop_bit 4 (b :: u8)) < 16" "unat (b AND 0xf) < 16"
proof -
  show "unat (drop_bit 4 b) < 16"
    using unsigned_less [of b, where ?'a = nat] by (simp add: drop_bit_eq_div unat_div)
  have "b AND 0xf \<le> 0xf" by (rule word_and_le1)
  then show "unat (b AND 0xf) < 16" by (simp add: word_le_nat_alt)
qed

lemma walk_split:
  assumes "walk ([], s) (p @ q) = (ys, t)"
  obtains xs zs r where "walk ([], s) p = (xs, r)" "walk ([], r) q = (zs, t)" "ys = xs @ zs"
proof -
  obtain xs r where 1: "walk ([], s) p = (xs, r)" by fastforce
  obtain zs t' where 2: "walk ([], r) q = (zs, t')" by fastforce
  have "walk ([], s) (p @ q) = (xs @ zs, t')"
    using walk_out [of xs r q] by (simp add: walk_append 1 2)
  with assms have "ys = xs @ zs" "t' = t" by auto
  with 1 2 that show thesis by blast
qed

lemma decode_bytes_ok:
  assumes "at_path d p" "walk ([], hd_state d) (huffman_bits src) = (ys, s)"
  shows "if 256 \<in> set ys then \<exists>db. decode_bytes src (d, buf) = (Err InvalidHuffmanCode, db)
    else \<exists>d' p'. decode_bytes src (d, buf) = (Ok (), d', buf @ map word_of_nat ys)
      \<and> p @ huffman_bits src = codes ys @ p' \<and> at_path d' p'"
  using assms
proof (induction src arbitrary: d p ys s buf)
  case Nil
  then show ?case by (auto simp: huffman_bits_def)
next
  case (Cons b src)
  let ?h = "bits_of 4 (unat (drop_bit 4 b))" and ?l = "bits_of 4 (unat (b AND 0xf))"
  have "walk ([], hd_state d) (?h @ ?l @ huffman_bits src) = (ys, s)"
    using Cons.prems(2) by (simp add: huffman_bits_def byte_bits_halves)
  then obtain hs r ys' where h: "walk ([], hd_state d) ?h = (hs, r)"
    "walk ([], r) (?l @ huffman_bits src) = (ys', s)" "ys = hs @ ys'"
    by (rule walk_split)
  from h(2) obtain ls t zs where l: "walk ([], r) ?l = (ls, t)"
    "walk ([], t) (huffman_bits src) = (zs, s)" "ys' = ls @ zs"
    by (rule walk_split)
  note half = decode_half_ok [OF Cons.prems(1) unat_half(1) h(1), of buf]
  show ?case
  proof (cases "256 \<in> set hs")
    case True
    with half h(3) show ?thesis by simp
  next
    case False
    with half obtain d1 p1 where 1: "decode_half (drop_bit 4 b) (d, buf) =
        (Ok (), d1, buf @ map word_of_nat hs)" "p @ ?h = codes hs @ p1" "at_path d1 p1"
      "hd_state d1 = r" by auto
    note half2 = decode_half_ok [OF 1(3) unat_half(2), of b ls t "buf @ map word_of_nat hs"]
    show ?thesis
    proof (cases "256 \<in> set ls")
      case True
      with half2 1 l h(3) show ?thesis by simp
    next
      case False2: False
      with half2 1(4) l(1) obtain d2 p2 where 2: "decode_half (b AND 0xf)
          (d1, buf @ map word_of_nat hs) = (Ok (), d2, (buf @ map word_of_nat hs) @ map word_of_nat ls)"
        "p1 @ ?l = codes ls @ p2" "at_path d2 p2" "hd_state d2 = t" by auto
      have step: "decode_bytes (b # src) (d, buf) =
          decode_bytes src (d2, (buf @ map word_of_nat hs) @ map word_of_nat ls)"
        using 1(1) 2(1) by simp
      have p: "p @ huffman_bits (b # src) = codes hs @ codes ls @ p2 @ huffman_bits src"
      proof -
        have "p @ huffman_bits (b # src) = (p @ ?h) @ ?l @ huffman_bits src"
          by (simp add: huffman_bits_def byte_bits_halves)
        also have "\<dots> = codes hs @ (p1 @ ?l) @ huffman_bits src" by (simp only: 1(2) append.assoc)
        finally show ?thesis by (simp only: 2(2) append.assoc)
      qed
      have ys: "ys = hs @ ls @ zs" using l(3) h(3) by simp
      note IH = Cons.IH [OF 2(3) l(2) [folded 2(4)], of "(buf @ map word_of_nat hs) @ map word_of_nat ls"]
      show ?thesis
      proof (cases "256 \<in> set zs")
        case True
        then show ?thesis using IH step ys by simp
      next
        case False3: False
        with IH obtain d' p' where "decode_bytes src (d2, (buf @ map word_of_nat hs) @ map word_of_nat ls) =
            (Ok (), d', ((buf @ map word_of_nat hs) @ map word_of_nat ls) @ map word_of_nat zs)"
          "p2 @ huffman_bits src = codes zs @ p'" "at_path d' p'" by auto
        then have "decode_bytes (b # src) (d, buf) = (Ok (), d', buf @ map word_of_nat ys)"
          "p @ huffman_bits (b # src) = codes ys @ p'" "at_path d' p'"
          unfolding step p ys by simp_all
        moreover have "256 \<notin> set ys" using False False2 False3 ys by simp
        ultimately show ?thesis by auto
      qed
    qed
  qed
qed

text \<open>
  The decoder accepts exactly the encodings of byte strings, padded with at most seven one bits,
  and appends the decoded bytes to what the scratch buffer holds.
\<close>

definition huffman_code :: "bytes \<Rightarrow> bool list" where
  "huffman_code s = codes (map unat s)"

lemma set_unat: "set (map unat (s :: bytes)) \<subseteq> {..<256}"
proof -
  have "unat b < 256" for b :: u8 using unsigned_less [of b, where ?'a = nat] by simp
  then show ?thesis by auto
qed

theorem huffman_decode_iff:
  "(\<exists>buf'. huffman_decode src buf = (Ok out, buf')) \<longleftrightarrow>
     (\<exists>s k. out = buf @ s \<and> k \<le> 7 \<and> huffman_bits src = huffman_code s @ replicate k True)"
proof -
  obtain ys t where w: "walk ([], 0) (huffman_bits src) = (ys, t)" by fastforce
  have h0: "hd_state huff_decoder_new = 0" by (simp add: huff_decoder_new_def)
  note ok = decode_bytes_ok [OF at_path_new, unfolded h0, OF w, of buf]
  have rev: "ys = map unat s" if "k \<le> 7" "huffman_bits src = huffman_code s @ replicate k True" for s k
    using that w walk_codes [of "map unat s" "replicate k True" _ "[]"] ones_is_path [OF that(1)]
      set_unat [of s]
    by (fastforce simp: huffman_code_def)
  have "set ys \<subseteq> {..<257}" using walk_sound [of "[]" 0 _ ys t] w by auto
  show ?thesis
  proof (cases "256 \<in> set ys")
    case True
    then have "ys \<noteq> map unat s" for s :: bytes using set_unat [of s] by blast
    with rev True ok show ?thesis by (auto simp: huffman_decode_def)
  next
    case False
    then obtain d p where d: "decode_bytes src (huff_decoder_new, buf) = (Ok (), d, buf @ map word_of_nat ys)"
      "huffman_bits src = codes ys @ p" "at_path d p" using ok by auto
    have "unat (word_of_nat y :: u8) = y" if "y \<in> set ys" for y
    proof -
      have "y < 257" "y \<noteq> 256" using that False \<open>set ys \<subseteq> {..<257}\<close> by auto
      then have "y < 256" by simp
      then show ?thesis by (simp add: unsigned_of_nat take_bit_nat_eq_self)
    qed
    then have "map unat (map word_of_nat ys :: bytes) = ys" by (simp add: map_idI)
    then have c: "huffman_code (map word_of_nat ys) = codes ys" by (simp add: huffman_code_def)
    show ?thesis
    proof
      assume "\<exists>buf'. huffman_decode src buf = (Ok out, buf')"
      then have "is_final d" "out = buf @ map word_of_nat ys"
        using d(1) by (auto simp: huffman_decode_def split: if_splits)
      with d c show "\<exists>s k. out = buf @ s \<and> k \<le> 7 \<and> huffman_bits src = huffman_code s @ replicate k True"
        by (auto simp: at_path_def)
    next
      assume "\<exists>s k. out = buf @ s \<and> k \<le> 7 \<and> huffman_bits src = huffman_code s @ replicate k True"
      then obtain s k where s: "out = buf @ s" "k \<le> 7"
        "huffman_bits src = huffman_code s @ replicate k True" by blast
      then have "ys = map unat s" using rev by blast
      with s d(2) have "p = replicate k True" "s = map word_of_nat ys"
        by (auto simp: huffman_code_def comp_def)
      with d s show "\<exists>buf'. huffman_decode src buf = (Ok out, buf')"
        by (auto simp: huffman_decode_def at_path_def)
    qed
  qed
qed

lemma huffman_decode_no_panic: "huffman_decode src buf \<noteq> (Panic, buf')"
proof -
  obtain ys t where w: "walk ([], 0) (huffman_bits src) = (ys, t)" by fastforce
  have "hd_state huff_decoder_new = 0" by (simp add: huff_decoder_new_def)
  from decode_bytes_ok [OF at_path_new, unfolded this, OF w, of buf] show ?thesis
    by (auto simp: huffman_decode_def split: if_splits)
qed

lemma huffman_decode_Ok_buf: "huffman_decode src buf = (Ok out, buf') \<Longrightarrow> buf' = []"
  by (auto simp: huffman_decode_def split: prod.splits result.splits if_splits)

section \<open>The whole encoder\<close>

text \<open>The bytes of a bit string: the full octets, and the rest padded with ones.\<close>

definition byte_of :: "bool list \<Rightarrow> u8" where
  "byte_of bs = word_of_nat (val bs)"

function octets :: "bool list \<Rightarrow> bytes" where
  "octets bs = (if length bs < 8 then [] else byte_of (take 8 bs) # octets (drop 8 bs))"
  by auto
termination by (relation "measure length") auto

declare octets.simps [simp del]

definition odd_bits :: "bool list \<Rightarrow> bool list" where
  "odd_bits bs = drop (8 * (length bs div 8)) bs"

definition pack :: "bool list \<Rightarrow> bytes" where
  "pack bs = octets bs @
     (if odd_bits bs = [] then [] else [byte_of (take 8 (odd_bits bs @ replicate 7 True))])"

lemma length_odd_bits: "length (odd_bits bs) = length bs mod 8"
  by (simp add: odd_bits_def minus_mult_div_eq_mod)

lemma val_less: "val bs < 2 ^ length bs"
  by (induction bs rule: rev_induct) auto

lemma octets_small [simp]: "length bs < 8 \<Longrightarrow> octets bs = []"
  by (simp add: octets.simps)

lemma octets_step: "8 \<le> length bs \<Longrightarrow> octets bs = byte_of (take 8 bs) # octets (drop 8 bs)"
  by (simp add: octets.simps [of bs])

lemma odd_bits_small [simp]: "length bs < 8 \<Longrightarrow> odd_bits bs = bs"
  by (simp add: odd_bits_def)

lemma odd_bits_step: "8 \<le> length bs \<Longrightarrow> odd_bits (drop 8 bs) = odd_bits bs"
proof -
  assume "8 \<le> length bs"
  then obtain n where n: "length bs = 8 + n" using le_Suc_ex by blast
  have "(8 + n) div 8 = Suc (n div 8)" by simp
  then show ?thesis by (simp add: odd_bits_def n add.commute)
qed

lemma odd_bits_append: "odd_bits (p @ q) = odd_bits (odd_bits p @ q)"
proof (induction p rule: length_induct)
  case (1 p)
  show ?case
  proof (cases "length p < 8")
    case False
    then have "odd_bits (drop 8 p @ q) = odd_bits (odd_bits (drop 8 p) @ q)" using 1 by simp
    with False show ?thesis using odd_bits_step [of "p @ q"] by (simp add: odd_bits_step)
  qed simp
qed

lemma octets_append: "octets (p @ q) = octets p @ octets (odd_bits p @ q)"
proof (induction p rule: length_induct)
  case (1 p)
  show ?case
  proof (cases "length p < 8")
    case False
    then have "octets (drop 8 p @ q) = octets (drop 8 p) @ octets (odd_bits (drop 8 p) @ q)"
      using 1 by simp
    with False show ?thesis by (simp add: octets_step odd_bits_step)
  qed simp
qed

lemma bit_byte_of:
  assumes "length bs = 8" "k < 8"
  shows "bit (byte_of bs) k \<longleftrightarrow> bs ! (7 - k)"
proof -
  have "bits_of 8 (val bs) ! (7 - k) = bit (val bs) k"
    using assms(2) by (simp add: nth_bits)
  then show ?thesis
    using assms bits_val [of bs] by (simp add: byte_of_def bit_of_nat_iff)
qed

lemma byte_bits_byte_of: "length bs = 8 \<Longrightarrow> byte_bits (byte_of bs) = bs"
  by (rule nth_equalityI)
    (simp_all add: byte_bits_def nth_bits bit_byte_of bit_unsigned_iff)

lemma huffman_bits_octets: "huffman_bits (octets bs) @ odd_bits bs = bs"
proof (induction bs rule: length_induct)
  case (1 bs)
  show ?case
  proof (cases "length bs < 8")
    case False
    then have "huffman_bits (octets (drop 8 bs)) @ odd_bits (drop 8 bs) = drop 8 bs" using 1 by simp
    with False show ?thesis
      by (simp add: octets_step odd_bits_step huffman_bits_def byte_bits_byte_of)
  qed (simp add: huffman_bits_def)
qed

lemma huffman_bits_pack: "\<exists>k \<le> 7. huffman_bits (pack bs) = bs @ replicate k True"
proof (cases "odd_bits bs = []")
  case True
  then show ?thesis using huffman_bits_octets [of bs] by (intro exI [of _ 0]) (simp add: pack_def)
next
  case False
  let ?r = "odd_bits bs"
  have n: "0 < length ?r" using False by simp
  have "length ?r < 8" by (simp add: length_odd_bits)
  note n = n this
  have m: "8 - length ?r \<le> 7" using n(1) by linarith
  then have "take 8 (?r @ replicate 7 True) = ?r @ replicate (8 - length ?r) True"
    using n(2) by (simp add: take_replicate min_absorb1)
  moreover have "length (?r @ replicate (8 - length ?r) True) = 8" using n(2) by simp
  ultimately have "huffman_bits (pack bs) = (huffman_bits (octets bs) @ ?r) @ replicate (8 - length ?r) True"
    using False by (simp only: pack_def) (simp add: huffman_bits_def byte_bits_byte_of)
  then have "huffman_bits (pack bs) = bs @ replicate (8 - length ?r) True"
    by (simp add: huffman_bits_octets)
  with m show ?thesis by blast
qed

lemma put_all_append: "put_all (a @ b) d = sbind (put_all a) (\<lambda>_. put_all b) d"
proof (induction a arbitrary: d)
  case (Cons x a)
  show ?case by (cases "dst_room d = 0") (simp_all add: put_all_Cons put_u8_Ok Cons sbind_def)
qed (simp add: sbind_def)

text \<open>
  The register: the pending bits stand at the top of the 40-bit window and the free bits below are
  zero. What is above the window does not matter.
\<close>

definition window :: "bool list \<Rightarrow> u64 \<Rightarrow> nat \<Rightarrow> bool" where
  "window p w left \<longleftrightarrow> length p + left = 40
     \<and> (\<forall>i < length p. bit w (39 - i) = p ! i) \<and> (\<forall>j < left. \<not> bit w j)"

lemma window_new: "window [] 0 40"
  by (simp add: window_def)

lemma window_byte:
  assumes "window p w left" "8 \<le> length p"
  shows "(ucast (drop_bit 32 w) :: u8) = byte_of (take 8 p)"
proof (rule bit_word_eqI)
  fix k :: nat assume k: "k < LENGTH(8)"
  moreover have "39 - (7 - k) = 32 + k" using k by simp
  ultimately have "bit w (32 + k) = p ! (7 - k)"
    using assms by (auto simp: window_def dest!: spec [of _ "7 - k"])
  with k assms(2) show "bit (ucast (drop_bit 32 w) :: u8) k = bit (byte_of (take 8 p)) k"
    by (simp add: bit_byte_of bit_simps add.commute)
qed

lemma window_shift:
  assumes "window p w left" "8 \<le> length p"
  shows "window (drop 8 p) (push_bit 8 w) (left + 8)"
proof -
  have "bit (push_bit 8 w) (39 - i) = p ! (8 + i)" if "i < length p - 8" for i
  proof -
    have "8 + i < length p" "length p \<le> 40" using that assms by (auto simp: window_def)
    then have "bit w (39 - (8 + i)) = p ! (8 + i)" "39 - i - 8 = 39 - (8 + i)" "8 \<le> 39 - i"
      using assms(1) by (auto simp: window_def)
    then show ?thesis by (auto simp: bit_push_bit_iff)
  qed
  with assms show ?thesis by (auto simp: window_def bit_push_bit_iff)
qed

lemma flush_ok:
  assumes "window p w left"
  shows "\<exists>w' left'. window (odd_bits p) w' left' \<and> (\<forall>d. flush w left (dst_room d) d =
    sbind (put_all (octets p)) (\<lambda>_ d. (Ok (w', left', dst_room d), d)) d)"
  using assms
proof (induction "length p" arbitrary: p w left rule: less_induct)
  case less
  show ?case
  proof (cases "8 \<le> length p")
    case False
    then have "\<not> left \<le> 32" using less.prems by (simp add: window_def)
    with False less.prems show ?thesis by (auto simp: flush.simps)
  next
    case True
    then have left: "left \<le> 32" using less.prems by (simp add: window_def)
    have "length (drop 8 p) < length p" using True by simp
    from less.hyps [OF this window_shift [OF less.prems True]] obtain w' left' where
      w': "window (odd_bits (drop 8 p)) w' left'"
      "\<And>d. flush (push_bit 8 w) (left + 8) (dst_room d) d =
        sbind (put_all (octets (drop 8 p))) (\<lambda>_ d. (Ok (w', left', dst_room d), d)) d"
      by blast
    have "flush w left (dst_room d) d =
      sbind (put_all (octets p)) (\<lambda>_ d. (Ok (w', left', dst_room d), d)) d" for d
    proof (cases "dst_room d = 0")
      case True2: True
      with left True show ?thesis by (simp add: flush.simps octets_step put_all_Cons)
    next
      case False
      then show ?thesis
        using w'(2) [of "d\<lparr>dst_bytes := dst_bytes d @ [byte_of (take 8 p)], dst_room := dst_room d - 1\<rparr>"]
          left window_byte [OF less.prems True]
        by (subst flush.simps) (simp add: octets_step [OF True] put_all_Cons put_u8_Ok sbind_def)
    qed
    with w'(1) True show ?thesis by (auto simp: odd_bits_step)
  qed
qed

lemma list_all_encode:
  "list_all (\<lambda>(n, c). 5 \<le> n \<and> n \<le> 30) ENCODE_TABLE"
  by (simp add: ENCODE_TABLE_def ENCODE_CHUNKS_def encode_chunk_defs)

lemma encode_entry:
  assumes "y < 257" "ENCODE_TABLE ! y = (n, c)"
  shows "5 \<le> n" "n \<le> 30" "code_of y = bits_of n (unat c)" "unat c < 2 ^ n"
proof -
  have "(n, c) \<in> set ENCODE_TABLE"
    using assms nth_mem [of y ENCODE_TABLE] by (simp add: length_ENCODE_TABLE)
  then show "5 \<le> n" "n \<le> 30" using list_all_encode by (auto simp: list_all_iff)
  show c: "code_of y = bits_of n (unat c)" using assms(2) by (simp add: code_of_def)
  have "node_code (Sym y) = (length (code_of y), val (code_of y))"
    using run_sound [OF run_code [OF assms(1)]] by simp
  then have "unat c = val (code_of y)" "n = length (code_of y)"
    using assms by (auto simp: encode_entry_eq)
  then show "unat c < 2 ^ n" using val_less [of "code_of y"] by simp
qed

lemma window_or:
  assumes w: "window p w left" and e: "y < 257" "ENCODE_TABLE ! y = (n, c)" and n: "n \<le> left"
  shows "window (p @ code_of y) (w OR push_bit (left - n) c) (left - n)"
proof -
  have c: "bit c k = bit (unat c) k" for k by (auto simp: bit_unsigned_iff bit_imp_le_length)
  have hi: "\<not> bit c k" if "n \<le> k" for k
  proof -
    have "unat c < 2 ^ k"
      using encode_entry(4) [OF e] that power_increasing [of n k "2 :: nat"] by linarith
    then have "\<not> bit (unat c) k" by (simp add: bit_iff_odd)
    then show ?thesis by (simp add: c)
  qed
  have len: "length (code_of y) = n" using encode_entry(3) [OF e] by simp
  have p: "length p + left = 40" using w by (simp add: window_def)
  have "bit (w OR push_bit (left - n) c) (39 - i) = (p @ code_of y) ! i" if "i < length p + n" for i
  proof (cases "i < length p")
    case True
    then have "bit w (39 - i) = p ! i" "n \<le> 39 - i - (left - n)"
      using w p n by (auto simp: window_def)
    then show ?thesis using True hi [of "39 - i - (left - n)"] by (simp add: bit_or_iff bit_push_bit_iff nth_append)
  next
    case False
    then have "\<not> bit w (39 - i)" "39 - i - (left - n) = n - 1 - (i - length p)" "left - n \<le> 39 - i"
      using w p n that by (auto simp: window_def)
    moreover have "code_of y ! (i - length p) = bit c (n - 1 - (i - length p))"
      using False that by (simp add: encode_entry(3) [OF e] nth_bits c)
    moreover have "39 - i < 64" by simp
    ultimately show ?thesis using False by (simp add: bit_or_iff bit_push_bit_iff nth_append)
  qed
  moreover have "\<not> bit (w OR push_bit (left - n) c) j" if "j < left - n" for j
    using w that by (auto simp: window_def bit_or_iff bit_push_bit_iff)
  ultimately show ?thesis using p n len by (simp add: window_def)
qed

lemma encode_bytes_ok:
  assumes "window p w left" "length p < 8"
  shows "\<exists>w' left'. window (odd_bits (p @ huffman_code src)) w' left' \<and>
    (\<forall>d. encode_bytes src w left (dst_room d) d =
      sbind (put_all (octets (p @ huffman_code src))) (\<lambda>_ d. (Ok (w', left', dst_room d), d)) d)"
  using assms
proof (induction src arbitrary: p w left)
  case Nil
  then show ?case by (auto simp: huffman_code_def)
next
  case (Cons b src)
  obtain n c where e: "ENCODE_TABLE ! unat b = (n, c)" by fastforce
  have y: "unat b < 257" using set_unat [of "[b]"] by simp
  have n: "n \<le> left" using encode_entry(2) [OF y e] Cons.prems by (simp add: window_def)
  let ?p = "p @ code_of (unat b)" and ?w = "w OR push_bit (left - n) c"
  have code: "huffman_code (b # src) = code_of (unat b) @ huffman_code src"
    by (simp add: huffman_code_def)
  obtain w1 left1 where 1: "window (odd_bits ?p) w1 left1"
    "\<And>d. flush ?w (left - n) (dst_room d) d =
      sbind (put_all (octets ?p)) (\<lambda>_ d. (Ok (w1, left1, dst_room d), d)) d"
    using flush_ok [OF window_or [OF Cons.prems(1) y e n]] by blast
  have "length (odd_bits ?p) < 8" by (simp add: length_odd_bits)
  from Cons.IH [OF 1(1) this] obtain w2 left2 where
    2: "window (odd_bits (odd_bits ?p @ huffman_code src)) w2 left2"
    "\<And>d. encode_bytes src w1 left1 (dst_room d) d =
      sbind (put_all (octets (odd_bits ?p @ huffman_code src)))
        (\<lambda>_ d. (Ok (w2, left2, dst_room d), d)) d"
    by blast
  have o: "octets (p @ huffman_code (b # src)) = octets ?p @ octets (odd_bits ?p @ huffman_code src)"
    "odd_bits (p @ huffman_code (b # src)) = odd_bits (odd_bits ?p @ huffman_code src)"
    using octets_append [of ?p "huffman_code src"] odd_bits_append [of ?p "huffman_code src"]
    by (simp_all add: code)
  have "encode_bytes (b # src) w left (dst_room d) d =
    sbind (put_all (octets (p @ huffman_code (b # src)))) (\<lambda>_ d. (Ok (w2, left2, dst_room d), d)) d" for d
    using y by (simp add: o put_all_append e index_at_def length_ENCODE_TABLE 1(2) 2(2)
        sbind_def split: prod.split result.split)
  with 2(1) show ?case unfolding o by blast
qed

theorem huffman_encode_eq: "huffman_encode src d = put_all (pack (huffman_code src)) d"
proof -
  let ?r = "odd_bits (huffman_code src)"
  obtain w left where w: "window ?r w left"
    "encode_bytes src 0 40 (dst_room d) d =
      sbind (put_all (octets (huffman_code src))) (\<lambda>_ d. (Ok (w, left, dst_room d), d)) d"
    using encode_bytes_ok [OF window_new, of src] by auto
  have len: "length ?r < 8" "length ?r + left = 40"
    using w(1) by (simp_all add: length_odd_bits window_def)
  have last: "(ucast (drop_bit 32 (w OR (push_bit left 1 - 1))) :: u8) =
    byte_of (take 8 (?r @ replicate 7 True))" if "?r \<noteq> []"
  proof (rule bit_word_eqI)
    fix k :: nat assume k: "k < LENGTH(8)"
    define B where "B = w OR mask left"
    define T where "T = take 8 (?r @ replicate 7 True)"
    have B: "w OR (push_bit left 1 - 1) = B"
      by (simp add: B_def mask_eq_exp_minus_1 push_bit_eq_mult)
    have "bit (w OR mask left) (32 + k) = (?r @ replicate 7 True) ! (7 - k)"
    proof (cases "7 - k < length ?r")
      case True
      then have "bit w (39 - (7 - k)) = ?r ! (7 - k)" using w(1) by (simp add: window_def)
      moreover have "39 - (7 - k) = 32 + k" using k by simp
      moreover have "\<not> 32 + k < left" using True len k by simp
      ultimately show ?thesis using True by (simp add: bit_or_iff bit_mask_iff nth_append)
    next
      case False
      then have "32 + k < left" using len k by simp
      moreover have "7 - k - length ?r < 7" using that len k by (cases ?r) auto
      ultimately show ?thesis using False k by (simp add: bit_or_iff bit_mask_iff nth_append)
    qed
    moreover have "T ! (7 - k) = (?r @ replicate 7 True) ! (7 - k)"
      unfolding T_def by (rule nth_take) simp
    ultimately have "bit B (32 + k) = T ! (7 - k)" by (simp add: B_def)
    moreover have "length T = 8" using that unfolding T_def by (cases ?r) auto
    moreover have "bit (ucast (drop_bit 32 B) :: u8) k = bit B (32 + k)"
      using k by (simp add: bit_unsigned_iff bit_drop_bit_eq)
    ultimately show "bit (ucast (drop_bit 32 (w OR (push_bit left 1 - 1))) :: u8) k =
        bit (byte_of (take 8 (?r @ replicate 7 True))) k"
      using k by (simp only: B flip: T_def) (simp add: bit_byte_of)
  qed
  have "left = 40 \<longleftrightarrow> ?r = []" using len by auto
  with last show ?thesis
    by (auto simp: huffman_encode_def w(2) pack_def put_all_append put_all_single sbind_def
        split: prod.split result.split)
qed

lemma length_octets: "length (octets bs) = length bs div 8"
proof (induction bs rule: length_induct)
  case (1 bs)
  show ?case
  proof (cases "length bs < 8")
    case False
    then have "length (octets (drop 8 bs)) = length (drop 8 bs) div 8" using 1 by simp
    with False show ?thesis by (simp add: octets_step le_div_geq)
  qed simp
qed

lemma length_pack: "length (pack bs) \<le> (length bs + 7) div 8"
proof (cases "odd_bits bs = []")
  case True
  then show ?thesis by (simp add: pack_def length_octets div_le_mono)
next
  case False
  then have "0 < length bs mod 8" by (metis length_greater_0_conv length_odd_bits)
  then have "length bs div 8 + 1 \<le> (length bs + 7) div 8" by presburger
  with False show ?thesis by (simp add: pack_def length_octets)
qed

lemma length_huffman_code: "length (huffman_code s) \<le> 30 * length s"
proof (induction s)
  case (Cons b s)
  obtain n c where e: "ENCODE_TABLE ! unat b = (n, c)" by fastforce
  have "unat b < 257" using set_unat [of "[b]"] by simp
  from encode_entry(2,3) [OF this e] have "length (code_of (unat b)) \<le> 30" by simp
  with Cons show ?case by (simp add: huffman_code_def)
qed (simp add: huffman_code_def)

lemma length_pack_code: "length (pack (huffman_code s)) \<le> 4 * length s"
proof -
  have "(length (huffman_code s) + 7) div 8 \<le> (30 * length s + 7) div 8"
    by (intro div_le_mono) (simp add: length_huffman_code)
  also have "\<dots> \<le> 4 * length s" by linarith
  finally show ?thesis using length_pack [of "huffman_code s"] by linarith
qed

lemma huffman_encode_Ok:
  "length (pack (huffman_code s)) \<le> dst_room d \<Longrightarrow>
     huffman_encode s d = (Ok (), d\<lparr>dst_bytes := dst_bytes d @ pack (huffman_code s),
       dst_room := dst_room d - length (pack (huffman_code s))\<rparr>)"
  by (simp add: huffman_encode_eq put_all_def put_slice_def)

lemma huffman_decode_pack: "huffman_decode (pack (huffman_code s)) [] = (Ok s, [])"
  using huffman_bits_pack [of "huffman_code s"] huffman_decode_iff [of "pack (huffman_code s)" "[]" s]
  by (auto dest: huffman_decode_Ok_buf)

section \<open>Properties\<close>

text \<open>
  C1: the decoder driven by the 4-bit table accepts a string exactly when its bits are
  the codes of some byte string followed by at most seven one bits; the result is that byte string
  behind what the scratch buffer held, and the scratch buffer is left empty. In particular the
  end-of-string symbol, padding with a zero and padding of a whole byte are errors, and the tables
  are free of mistakes.
\<close>

theorem huffman_decode_exact:
  "huffman_decode src buf = (Ok out, buf') \<longleftrightarrow>
     buf' = [] \<and> (\<exists>s k. out = buf @ s \<and> k \<le> 7 \<and>
       huffman_bits src = huffman_code s @ replicate k True)"
proof -
  have "huffman_decode src buf = (Ok out, buf') \<longleftrightarrow>
      buf' = [] \<and> (\<exists>b. huffman_decode src buf = (Ok out, b))"
    by (auto dest: huffman_decode_Ok_buf)
  then show ?thesis by (simp only: huffman_decode_iff)
qed

text \<open>
  C2: whatever bytes are encoded into an empty buffer with four bytes of room per
  byte, the encoder succeeds and the decoder gives the bytes back.
\<close>

theorem huffman_codec_roundtrip:
  "\<exists>d. huffman_encode s \<lparr>dst_bytes = [], dst_room = 4 * length s\<rparr> = (Ok (), d)
     \<and> huffman_decode (dst_bytes d) [] = (Ok s, [])"
  using length_pack_code [of s] by (simp add: huffman_encode_Ok huffman_decode_pack)

end
