(* ===== verification/Hpack_Header.thy ===== *)
theory Hpack_Header
  imports Frame_Head
begin

text \<open>
  Headers as HPACK sees them (\<open>h2/hpack/header.rs\<close>), the static table (\<open>get_static\<close> of
  \<open>h2/hpack/decoder.rs\<close>) and its inverse (\<open>index_static\<close> of \<open>h2/hpack/table.rs\<close>). The types of the
  crate \<open>http\<close> stand for their text: a \<open>HeaderName\<close>, a \<open>Method\<close> and a \<open>StatusCode\<close> are the bytes of
  their \<open>as_str\<close>, a \<open>HeaderValue\<close> is its bytes with the flag \<open>is_sensitive\<close>. Which texts
  the crate accepts is a parameter.
\<close>

section \<open>Texts\<close>

definition ascii :: "string \<Rightarrow> bytes" where
  "ascii s = map of_char s"

lemma of_char_inj: "(of_char c :: u8) = of_char d \<longleftrightarrow> c = d"
proof
  assume "(of_char c :: u8) = of_char d"
  then have "(word_of_nat (of_char c) :: u8) = word_of_nat (of_char d)"
    by (simp only: of_nat_of_char)
  then have "unat (word_of_nat (of_char c) :: u8) = unat (word_of_nat (of_char d) :: u8)"
    by (simp only:)
  then have "(of_char c :: nat) = of_char d"
    using nat_of_char_less_256 [of c] nat_of_char_less_256 [of d]
    by (simp add: unsigned_of_nat take_bit_nat_eq_self)
  then show "c = d" by simp
qed simp

lemma ascii_inj [simp]: "ascii s = ascii t \<longleftrightarrow> s = t"
proof -
  have "inj (of_char :: char \<Rightarrow> u8)" by (simp add: inj_def of_char_inj)
  then show ?thesis by (simp add: ascii_def inj_map_eq_map)
qed

lemma ascii_simps [simp]: "ascii [] = []" "ascii (c # s) = of_char c # ascii s"
  "length (ascii s) = length s" "ascii s = [] \<longleftrightarrow> s = []" "[] = ascii s \<longleftrightarrow> s = []"
  by (auto simp: ascii_def)

declare ascii_simps(2) [simp del]

text \<open>\<open>std::str::from_utf8\<close>: the well-formed byte sequences of Unicode.\<close>

definition utf8_cont :: "u8 \<Rightarrow> bool" where
  "utf8_cont b \<longleftrightarrow> 0x80 \<le> b \<and> b \<le> 0xBF"

function utf8_ok :: "bytes \<Rightarrow> bool" where
  "utf8_ok bs =
     (case bs of
        [] \<Rightarrow> True
      | b # bs \<Rightarrow>
          if b < 0x80 then utf8_ok bs
          else if 0xC2 \<le> b \<and> b \<le> 0xDF then
            (case bs of c # bs \<Rightarrow> utf8_cont c \<and> utf8_ok bs | _ \<Rightarrow> False)
          else if 0xE0 \<le> b \<and> b \<le> 0xEF then
            (case bs of
               c # d # bs \<Rightarrow>
                 (if b = 0xE0 then 0xA0 \<le> c \<and> c \<le> 0xBF
                  else if b = 0xED then 0x80 \<le> c \<and> c \<le> 0x9F
                  else utf8_cont c) \<and> utf8_cont d \<and> utf8_ok bs
             | _ \<Rightarrow> False)
          else if 0xF0 \<le> b \<and> b \<le> 0xF4 then
            (case bs of
               c # d # e # bs \<Rightarrow>
                 (if b = 0xF0 then 0x90 \<le> c \<and> c \<le> 0xBF
                  else if b = 0xF4 then 0x80 \<le> c \<and> c \<le> 0x8F
                  else utf8_cont c) \<and> utf8_cont d \<and> utf8_cont e \<and> utf8_ok bs
             | _ \<Rightarrow> False)
          else False)"
  by auto
termination by (relation "measure length") auto

declare utf8_ok.simps [simp del]

section \<open>Headers\<close>

record hvalue =
  hv_bytes :: bytes
  hv_sensitive :: bool

datatype 'n header =
    Header_Field 'n hvalue
  | Header_Authority bytes
  | Header_Method bytes
  | Header_Scheme bytes
  | Header_Path bytes
  | Header_Status bytes

datatype hname =
    Name_Field bytes
  | Name_Authority
  | Name_Method
  | Name_Scheme
  | Name_Path
  | Name_Status

text \<open>
  The parsers of the crate \<open>http\<close>: \<open>HeaderName::from_lowercase\<close>, \<open>HeaderValue::from_bytes\<close>,
  \<open>Method::from_bytes\<close> and \<open>StatusCode::from_bytes\<close>. Each accepts some texts and keeps them as
  they are; a status has three digits, a name and a method are not empty.
\<close>

record http_lib =
  header_name_ok :: "bytes \<Rightarrow> bool"
  header_value_ok :: "bytes \<Rightarrow> bool"
  method_ok :: "bytes \<Rightarrow> bool"
  status_ok :: "bytes \<Rightarrow> bool"

definition http_lib_ok :: "http_lib \<Rightarrow> bool" where
  "http_lib_ok L \<longleftrightarrow> (\<forall>b. status_ok L b \<longrightarrow> length b = 3) \<and> \<not> header_name_ok L [] \<and> \<not> method_ok L []"

definition bytes_str_try_from :: "bytes \<Rightarrow> (bytes, decoder_error) result" where
  "bytes_str_try_from b = (if utf8_ok b then Ok b else Err InvalidUtf8)"

definition header_value_from_bytes :: "http_lib \<Rightarrow> bytes \<Rightarrow> (hvalue, decoder_error) result" where
  "header_value_from_bytes L b =
     (if header_value_ok L b then Ok \<lparr>hv_bytes = b, hv_sensitive = False\<rparr> else Err InvalidUtf8)"

definition method_from_bytes :: "http_lib \<Rightarrow> bytes \<Rightarrow> (bytes, decoder_error) result" where
  "method_from_bytes L b = (if method_ok L b then Ok b else Err InvalidUtf8)"

definition header_new ::
  "http_lib \<Rightarrow> bytes \<Rightarrow> bytes \<Rightarrow> (bytes header, decoder_error) result" where
  "header_new L name v =
     (if name = [] then Err (NeedMore UnexpectedEndOfStream)
      else if hd name = of_char CHR '':'' then
        (let field = tl name in
         if field = ascii ''authority'' then
           rbind (bytes_str_try_from v) (\<lambda>v. Ok (Header_Authority v))
         else if field = ascii ''method'' then
           rbind (method_from_bytes L v) (\<lambda>m. Ok (Header_Method m))
         else if field = ascii ''scheme'' then
           rbind (bytes_str_try_from v) (\<lambda>v. Ok (Header_Scheme v))
         else if field = ascii ''path'' then
           rbind (bytes_str_try_from v) (\<lambda>v. Ok (Header_Path v))
         else if field = ascii ''status'' then
           (if status_ok L v then Ok (Header_Status v) else Err InvalidUtf8)
         else Err InvalidPseudoheader)
      else if \<not> header_name_ok L name then Err InvalidUtf8
      else rbind (header_value_from_bytes L v) (\<lambda>v. Ok (Header_Field name v)))"

fun header_len :: "bytes header \<Rightarrow> nat" where
  "header_len (Header_Field name v) = 32 + length name + length (hv_bytes v)"
| "header_len (Header_Authority v) = 32 + 10 + length v"
| "header_len (Header_Method v) = 32 + 7 + length v"
| "header_len (Header_Scheme v) = 32 + 7 + length v"
| "header_len (Header_Path v) = 32 + 5 + length v"
| "header_len (Header_Status _) = 32 + 7 + 3"

fun header_name :: "bytes header \<Rightarrow> hname" where
  "header_name (Header_Field name _) = Name_Field name"
| "header_name (Header_Authority _) = Name_Authority"
| "header_name (Header_Method _) = Name_Method"
| "header_name (Header_Scheme _) = Name_Scheme"
| "header_name (Header_Path _) = Name_Path"
| "header_name (Header_Status _) = Name_Status"

fun value_slice :: "bytes header \<Rightarrow> bytes" where
  "value_slice (Header_Field _ v) = hv_bytes v"
| "value_slice (Header_Authority v) = v"
| "value_slice (Header_Method v) = v"
| "value_slice (Header_Scheme v) = v"
| "value_slice (Header_Path v) = v"
| "value_slice (Header_Status v) = v"

fun value_eq :: "bytes header \<Rightarrow> bytes header \<Rightarrow> bool" where
  "value_eq (Header_Field _ v) other =
     (case other of Header_Field _ w \<Rightarrow> hv_bytes v = hv_bytes w | _ \<Rightarrow> False)"
| "value_eq (Header_Authority a) other =
     (case other of Header_Authority b \<Rightarrow> a = b | _ \<Rightarrow> False)"
| "value_eq (Header_Method a) other = (case other of Header_Method b \<Rightarrow> a = b | _ \<Rightarrow> False)"
| "value_eq (Header_Scheme a) other = (case other of Header_Scheme b \<Rightarrow> a = b | _ \<Rightarrow> False)"
| "value_eq (Header_Path a) other = (case other of Header_Path b \<Rightarrow> a = b | _ \<Rightarrow> False)"
| "value_eq (Header_Status a) other = (case other of Header_Status b \<Rightarrow> a = b | _ \<Rightarrow> False)"

fun is_sensitive :: "bytes header \<Rightarrow> bool" where
  "is_sensitive (Header_Field _ v) = hv_sensitive v"
| "is_sensitive _ = False"

definition SKIP_VALUE_NAMES :: "bytes list" where
  "SKIP_VALUE_NAMES = map ascii
     [''age'', ''authorization'', ''content-length'', ''etag'', ''if-modified-since'',
      ''if-none-match'', ''location'', ''cookie'', ''set-cookie'']"

fun skip_value_index :: "bytes header \<Rightarrow> bool" where
  "skip_value_index (Header_Field name _) = (name \<in> set SKIP_VALUE_NAMES)"
| "skip_value_index (Header_Path _) = True"
| "skip_value_index _ = False"

fun into_entry :: "http_lib \<Rightarrow> hname \<Rightarrow> bytes \<Rightarrow> (bytes header, decoder_error) result" where
  "into_entry L (Name_Field name) v =
     rbind (header_value_from_bytes L v) (\<lambda>v. Ok (Header_Field name v))"
| "into_entry L Name_Authority v = rbind (bytes_str_try_from v) (\<lambda>v. Ok (Header_Authority v))"
| "into_entry L Name_Method v = rbind (method_from_bytes L v) (\<lambda>m. Ok (Header_Method m))"
| "into_entry L Name_Scheme v = rbind (bytes_str_try_from v) (\<lambda>v. Ok (Header_Scheme v))"
| "into_entry L Name_Path v = rbind (bytes_str_try_from v) (\<lambda>v. Ok (Header_Path v))"
| "into_entry L Name_Status v =
     (if status_ok L v then Ok (Header_Status v) else Err InvalidStatusCode)"

fun name_slice :: "hname \<Rightarrow> bytes" where
  "name_slice (Name_Field name) = name"
| "name_slice Name_Authority = ascii '':authority''"
| "name_slice Name_Method = ascii '':method''"
| "name_slice Name_Scheme = ascii '':scheme''"
| "name_slice Name_Path = ascii '':path''"
| "name_slice Name_Status = ascii '':status''"

text \<open>A header without its name is one that repeats the name of its predecessor.\<close>

fun reify :: "bytes option header \<Rightarrow> (bytes header, hvalue) result" where
  "reify (Header_Field (Some n) v) = Ok (Header_Field n v)"
| "reify (Header_Field None v) = Err v"
| "reify (Header_Authority v) = Ok (Header_Authority v)"
| "reify (Header_Method v) = Ok (Header_Method v)"
| "reify (Header_Scheme v) = Ok (Header_Scheme v)"
| "reify (Header_Path v) = Ok (Header_Path v)"
| "reify (Header_Status v) = Ok (Header_Status v)"

text \<open>What the parsers of the crate accept.\<close>

fun header_ok :: "http_lib \<Rightarrow> bytes header \<Rightarrow> bool" where
  "header_ok L (Header_Field name v) \<longleftrightarrow>
     name \<noteq> [] \<and> hd name \<noteq> of_char CHR '':'' \<and> header_name_ok L name \<and> header_value_ok L (hv_bytes v)"
| "header_ok L (Header_Authority v) \<longleftrightarrow> utf8_ok v"
| "header_ok L (Header_Method v) \<longleftrightarrow> method_ok L v"
| "header_ok L (Header_Scheme v) \<longleftrightarrow> utf8_ok v"
| "header_ok L (Header_Path v) \<longleftrightarrow> utf8_ok v"
| "header_ok L (Header_Status v) \<longleftrightarrow> status_ok L v"

text \<open>The header as the other side receives it: it never learns that a value is sensitive.\<close>

fun received :: "bytes header \<Rightarrow> bytes header" where
  "received (Header_Field name v) = Header_Field name (v\<lparr>hv_sensitive := False\<rparr>)"
| "received h = h"

lemma header_new_ok:
  assumes "header_ok L h"
  shows "header_new L (name_slice (header_name h)) (value_slice h) = Ok (received h)"
  using assms
  by (cases h)
    (auto simp: header_new_def bytes_str_try_from_def method_from_bytes_def
      header_value_from_bytes_def Let_def ascii_simps(2))

lemma into_entry_ok:
  assumes "header_ok L h"
  shows "into_entry L (header_name h) (value_slice h) = Ok (received h)"
  using assms
  by (cases h)
    (auto simp: bytes_str_try_from_def method_from_bytes_def header_value_from_bytes_def)

lemma header_new_no_panic: "header_new L name v \<noteq> Panic"
  by (auto simp: header_new_def bytes_str_try_from_def method_from_bytes_def
      header_value_from_bytes_def Let_def)

lemma into_entry_no_panic: "into_entry L name v \<noteq> Panic"
  by (cases name)
    (auto simp: bytes_str_try_from_def method_from_bytes_def header_value_from_bytes_def)

lemma received_simps [simp]:
  "header_len (received h) = header_len h" "header_name (received h) = header_name h"
  "value_slice (received h) = value_slice h" "received (received h) = received h"
  "header_ok L (received h) = header_ok L h"
  by (cases h; simp)+

lemma header_len_eq:
  "http_lib_ok L \<Longrightarrow> header_ok L h \<Longrightarrow>
     header_len h = 32 + length (name_slice (header_name h)) + length (value_slice h)"
  by (cases h) (auto simp: http_lib_ok_def)

lemma header_new_len:
  assumes "header_new L name v = Ok h"
  shows "name_slice (header_name h) = name" "value_slice h = v"
  using assms
  by (auto simp: header_new_def bytes_str_try_from_def method_from_bytes_def
      header_value_from_bytes_def Let_def rbind_eq_Ok neq_Nil_conv ascii_simps(2)
      split: if_splits)

section \<open>The static table\<close>

definition static_field :: "string \<Rightarrow> string \<Rightarrow> bytes header" where
  "static_field name v = Header_Field (ascii name) \<lparr>hv_bytes = ascii v, hv_sensitive = False\<rparr>"

definition STATIC_HEADERS_1 :: "bytes header list" where
  "STATIC_HEADERS_1 = [
     Header_Authority [], Header_Method (ascii ''GET''), Header_Method (ascii ''POST''),
     Header_Path (ascii ''/''), Header_Path (ascii ''/index.html''),
     Header_Scheme (ascii ''http''), Header_Scheme (ascii ''https''),
     Header_Status (ascii ''200''), Header_Status (ascii ''204''), Header_Status (ascii ''206''),
     Header_Status (ascii ''304''), Header_Status (ascii ''400''), Header_Status (ascii ''404''),
     Header_Status (ascii ''500''), static_field ''accept-charset'' '''',
     static_field ''accept-encoding'' ''gzip, deflate'', static_field ''accept-language'' '''',
     static_field ''accept-ranges'' '''', static_field ''accept'' '''',
     static_field ''access-control-allow-origin'' '''', static_field ''age'' '''',
     static_field ''allow'' '''', static_field ''authorization'' '''',
     static_field ''cache-control'' '''', static_field ''content-disposition'' '''',
     static_field ''content-encoding'' '''', static_field ''content-language'' '''',
     static_field ''content-length'' '''', static_field ''content-location'' '''',
     static_field ''content-range'' '''']"

definition STATIC_HEADERS_2 :: "bytes header list" where
  "STATIC_HEADERS_2 = [
     static_field ''content-type'' '''', static_field ''cookie'' '''',
     static_field ''date'' '''', static_field ''etag'' '''', static_field ''expect'' '''',
     static_field ''expires'' '''', static_field ''from'' '''', static_field ''host'' '''',
     static_field ''if-match'' '''', static_field ''if-modified-since'' '''',
     static_field ''if-none-match'' '''', static_field ''if-range'' '''',
     static_field ''if-unmodified-since'' '''', static_field ''last-modified'' '''',
     static_field ''link'' '''', static_field ''location'' '''',
     static_field ''max-forwards'' '''', static_field ''proxy-authenticate'' '''',
     static_field ''proxy-authorization'' '''', static_field ''range'' '''',
     static_field ''referer'' '''', static_field ''refresh'' '''',
     static_field ''retry-after'' '''', static_field ''server'' '''',
     static_field ''set-cookie'' '''', static_field ''strict-transport-security'' '''',
     static_field ''transfer-encoding'' '''', static_field ''user-agent'' '''',
     static_field ''vary'' '''', static_field ''via'' '''', static_field ''www-authenticate'' '''']"

definition STATIC_HEADERS :: "bytes header list" where
  "STATIC_HEADERS = STATIC_HEADERS_1 @ STATIC_HEADERS_2"

text \<open>\<open>match idx { 1 => .., .., 61 => .., _ => unreachable!() }\<close>\<close>

definition get_static :: "nat \<Rightarrow> (bytes header, 'e) result" where
  "get_static idx =
     (if 1 \<le> idx \<and> idx \<le> 61 then Ok (STATIC_HEADERS ! (idx - 1)) else Panic)"

text \<open>The position of a name in the static table and whether the value there is the same.\<close>

definition STATIC_FIELD_INDEX :: "(bytes \<times> nat) list" where
  "STATIC_FIELD_INDEX = [
     (ascii ''accept-charset'', 15), (ascii ''accept-language'', 17),
     (ascii ''accept-ranges'', 18), (ascii ''accept'', 19),
     (ascii ''access-control-allow-origin'', 20), (ascii ''age'', 21), (ascii ''allow'', 22),
     (ascii ''authorization'', 23), (ascii ''cache-control'', 24),
     (ascii ''content-disposition'', 25), (ascii ''content-encoding'', 26),
     (ascii ''content-language'', 27), (ascii ''content-length'', 28),
     (ascii ''content-location'', 29), (ascii ''content-range'', 30),
     (ascii ''content-type'', 31), (ascii ''cookie'', 32), (ascii ''date'', 33),
     (ascii ''etag'', 34), (ascii ''expect'', 35), (ascii ''expires'', 36), (ascii ''from'', 37),
     (ascii ''host'', 38), (ascii ''if-match'', 39), (ascii ''if-modified-since'', 40),
     (ascii ''if-none-match'', 41), (ascii ''if-range'', 42),
     (ascii ''if-unmodified-since'', 43), (ascii ''last-modified'', 44), (ascii ''link'', 45),
     (ascii ''location'', 46), (ascii ''max-forwards'', 47), (ascii ''proxy-authenticate'', 48),
     (ascii ''proxy-authorization'', 49), (ascii ''range'', 50), (ascii ''referer'', 51),
     (ascii ''refresh'', 52), (ascii ''retry-after'', 53), (ascii ''server'', 54),
     (ascii ''set-cookie'', 55), (ascii ''strict-transport-security'', 56),
     (ascii ''transfer-encoding'', 57), (ascii ''user-agent'', 58), (ascii ''vary'', 59),
     (ascii ''via'', 60), (ascii ''www-authenticate'', 61)]"

fun index_static :: "bytes header \<Rightarrow> (nat \<times> bool) option" where
  "index_static (Header_Field name v) =
     (if name = ascii ''accept-encoding'' then
        (if hv_bytes v = ascii ''gzip, deflate'' then Some (16, True) else Some (16, False))
      else map_option (\<lambda>n. (n, False)) (map_of STATIC_FIELD_INDEX name))"
| "index_static (Header_Authority _) = Some (1, False)"
| "index_static (Header_Method v) =
     (if v = ascii ''GET'' then Some (2, True)
      else if v = ascii ''POST'' then Some (3, True)
      else Some (2, False))"
| "index_static (Header_Scheme v) =
     (if v = ascii ''http'' then Some (6, True)
      else if v = ascii ''https'' then Some (7, True)
      else Some (6, False))"
| "index_static (Header_Path v) =
     (if v = ascii ''/'' then Some (4, True)
      else if v = ascii ''/index.html'' then Some (5, True)
      else Some (4, False))"
| "index_static (Header_Status v) =
     (if v = ascii ''200'' then Some (8, True)
      else if v = ascii ''204'' then Some (9, True)
      else if v = ascii ''206'' then Some (10, True)
      else if v = ascii ''304'' then Some (11, True)
      else if v = ascii ''400'' then Some (12, True)
      else if v = ascii ''404'' then Some (13, True)
      else if v = ascii ''500'' then Some (14, True)
      else Some (8, False))"

lemmas static_defs = STATIC_HEADERS_def STATIC_HEADERS_1_def STATIC_HEADERS_2_def static_field_def

lemma length_STATIC_HEADERS [simp]: "length STATIC_HEADERS = 61"
  by (simp add: static_defs)

lemma STATIC_FIELD_INDEX_ok:
  "list_all (\<lambda>(name, n). 1 \<le> n \<and> n \<le> 61 \<and> header_name (STATIC_HEADERS ! (n - 1)) = Name_Field name)
     STATIC_FIELD_INDEX"
  by (simp add: STATIC_FIELD_INDEX_def static_defs)

lemma index_static_sound:
  assumes "index_static h = Some (n, full)"
  shows "\<exists>h'. get_static n = Ok h' \<and> header_name h' = header_name h
    \<and> (full \<longrightarrow> value_slice h' = value_slice h)"
proof (cases h)
  case (Header_Field name v)
  show ?thesis
  proof (cases "name = ascii ''accept-encoding''")
    case True
    then show ?thesis
      using assms Header_Field by (auto simp: get_static_def static_defs split: if_splits)
  next
    case False
    with assms Header_Field have "(name, n) \<in> set STATIC_FIELD_INDEX" "\<not> full"
      by (auto dest: map_of_SomeD)
    with STATIC_FIELD_INDEX_ok Header_Field show ?thesis
      by (auto simp: list_all_iff get_static_def)
  qed
qed (use assms in \<open>auto simp: get_static_def static_defs split: if_splits\<close>)

text \<open>
  Every entry of the static table is found again: at its own position with its value where the
  value distinguishes it, at the first position of its name otherwise.
\<close>

lemma index_static_complete:
  assumes "get_static n = Ok h" "value_slice h \<noteq> []"
  shows "index_static h = Some (n, True)"
proof -
  have "list_all (\<lambda>(n, h). value_slice h \<noteq> [] \<longrightarrow> index_static h = Some (n, True))
    (enumerate 1 STATIC_HEADERS)"
    by (simp add: static_defs)
  moreover have "(n, h) \<in> set (enumerate 1 STATIC_HEADERS)"
    using assms(1) by (auto simp: get_static_def in_set_enumerate_eq split: if_splits)
  ultimately show ?thesis using assms(2) by (auto simp: list_all_iff)
qed

lemma get_static_Ok_iff: "(\<exists>h. get_static n = Ok h) \<longleftrightarrow> 1 \<le> n \<and> n \<le> 61"
  by (simp add: get_static_def)

text \<open>
  C6: the two transcriptions of the static table agree. When the
  encoder's match names an index, the decoder's match has a header with that name there, and with
  that value when the match says so; and an entry of the decoder's table that has a value
  is found by the encoder at its own index.
\<close>

theorem static_tables_agree:
  "(case index_static h of
      None \<Rightarrow> True
    | Some (n, full) \<Rightarrow> \<exists>h'. get_static n = Ok h' \<and> header_name h' = header_name h
        \<and> (if full then value_slice h' = value_slice h else True))
   \<and> (case get_static n of
        Ok h \<Rightarrow> if value_slice h = [] then True else index_static h = Some (n, True)
      | _ \<Rightarrow> n = 0 \<or> 61 < n)"
proof
  show "case index_static h of None \<Rightarrow> True
    | Some (n, full) \<Rightarrow> \<exists>h'. get_static n = Ok h' \<and> header_name h' = header_name h
        \<and> (if full then value_slice h' = value_slice h else True)"
    using index_static_sound by (fastforce split: option.split)
  show "case get_static n of
        Ok h \<Rightarrow> if value_slice h = [] then True else index_static h = Some (n, True)
      | _ \<Rightarrow> n = 0 \<or> 61 < n"
    using index_static_complete [of n]
    by (cases "get_static n :: (bytes header, decoder_error) result") (auto simp: get_static_def split: if_splits)
qed

end
