(* ===== verification/Hpack_Decoder.thy ===== *)
theory Hpack_Decoder
  imports Hpack_Header Huffman_Codec
begin

text \<open>
  The HPACK decoder (\<open>h2/hpack/decoder.rs\<close>): the dynamic table with its evictions, the
  representations, strings, and the loop over a header block. The decoder owns its table, the limit
  on table size updates and a scratch buffer for Huffman strings; it reads from a cursor.
\<close>

section \<open>The dynamic table\<close>

text \<open>The deque of entries is a list, the newest entry first.\<close>

record dec_table =
  dt_entries :: "bytes header list"
  dt_size :: nat
  dt_max_size :: nat

definition dt_new :: "nat \<Rightarrow> dec_table" where
  "dt_new m = \<lparr>dt_entries = [], dt_size = 0, dt_max_size = m\<rparr>"

definition dt_get :: "nat \<Rightarrow> dec_table \<Rightarrow> (bytes header, decoder_error) result" where
  "dt_get index t =
     (if index = 0 then Err InvalidTableIndex
      else if index \<le> 61 then get_static index
      else if index - 62 < length (dt_entries t) then Ok (dt_entries t ! (index - 62))
      else Err InvalidTableIndex)"

function dt_reserve :: "nat \<Rightarrow> dec_table \<Rightarrow> dec_table" where
  "dt_reserve n t =
     (if dt_size t + n > dt_max_size t then
        (if dt_entries t = [] then t
         else dt_reserve n (t\<lparr>dt_entries := butlast (dt_entries t),
                dt_size := dt_size t - header_len (last (dt_entries t))\<rparr>))
      else t)"
  by auto
termination by (relation "measure (\<lambda>(_, t). length (dt_entries t))") auto

declare dt_reserve.simps [simp del]

definition dt_insert :: "bytes header \<Rightarrow> dec_table \<Rightarrow> dec_table" where
  "dt_insert entry t =
     (let len = header_len entry;
          t = dt_reserve len t
      in if dt_size t + len \<le> dt_max_size t
         then t\<lparr>dt_size := dt_size t + len, dt_entries := entry # dt_entries t\<rparr>
         else t)"

text \<open>\<open>consolidate\<close> panics when the size is over the limit and no entry is left.\<close>

function dt_consolidate :: "dec_table \<Rightarrow> (dec_table, decoder_error) result" where
  "dt_consolidate t =
     (if dt_size t > dt_max_size t then
        (if dt_entries t = [] then Panic
         else dt_consolidate (t\<lparr>dt_entries := butlast (dt_entries t),
                dt_size := dt_size t - header_len (last (dt_entries t))\<rparr>))
      else Ok t)"
  by auto
termination by (relation "measure (\<lambda>t. length (dt_entries t))") auto

declare dt_consolidate.simps [simp del]

definition dt_set_max_size :: "nat \<Rightarrow> dec_table \<Rightarrow> (dec_table, decoder_error) result" where
  "dt_set_max_size n t = dt_consolidate (t\<lparr>dt_max_size := n\<rparr>)"

subsection \<open>The size is the sum of the entries and stays within the limit\<close>

definition entries_size :: "bytes header list \<Rightarrow> nat" where
  "entries_size hs = sum_list (map header_len hs)"

definition dt_ok :: "dec_table \<Rightarrow> bool" where
  "dt_ok t \<longleftrightarrow> dt_size t = entries_size (dt_entries t) \<and> dt_size t \<le> dt_max_size t"

lemma entries_size_simps [simp]:
  "entries_size [] = 0" "entries_size (h # hs) = header_len h + entries_size hs"
  "entries_size (hs @ hs') = entries_size hs + entries_size hs'"
  by (simp_all add: entries_size_def)

lemma entries_size_butlast:
  "hs \<noteq> [] \<Longrightarrow> entries_size hs - header_len (last hs) = entries_size (butlast hs)"
  by (cases hs rule: rev_cases) simp_all

text \<open>
  What is left after eviction is the longest prefix of the entries that fits: \<open>fitting n hs\<close>.
\<close>

fun fitting :: "nat \<Rightarrow> bytes header list \<Rightarrow> bytes header list" where
  "fitting n [] = []"
| "fitting n (h # hs) = (if header_len h \<le> n then h # fitting (n - header_len h) hs else [])"

lemma header_len_pos: "0 < header_len h"
  by (cases h) auto

lemma entries_size_fitting: "entries_size (fitting n hs) \<le> n"
  by (induction n hs rule: fitting.induct) auto

lemma fitting_id: "entries_size hs \<le> n \<Longrightarrow> fitting n hs = hs"
  by (induction n hs rule: fitting.induct) auto

lemma fitting_snoc: "n < entries_size (hs @ [h]) \<Longrightarrow> fitting n (hs @ [h]) = fitting n hs"
  by (induction n hs rule: fitting.induct) auto

lemma fitting_prefix: "\<exists>hs'. hs = fitting n hs @ hs'"
  by (induction n hs rule: fitting.induct) auto

lemma fitting_butlast:
  "n < entries_size hs \<Longrightarrow> fitting n (butlast hs) = fitting n hs"
  by (cases hs rule: rev_cases) (simp_all add: fitting_snoc)

lemma dt_reserve_eq:
  assumes "dt_size t = entries_size (dt_entries t)"
  shows "dt_reserve n t =
    (let hs = fitting (dt_max_size t - n) (dt_entries t)
     in t\<lparr>dt_entries := hs, dt_size := entries_size hs\<rparr>)"
  using assms
proof (induction n t rule: dt_reserve.induct)
  case (1 n t)
  show ?case
  proof (cases "dt_size t + n > dt_max_size t \<and> dt_entries t \<noteq> []")
    case True
    then have "dt_max_size t - n < entries_size (dt_entries t)" using 1(2)
      by (cases "n \<le> dt_max_size t") (auto simp: neq_Nil_conv header_len_pos)
    with True 1 show ?thesis
      by (subst dt_reserve.simps) (simp add: entries_size_butlast fitting_butlast Let_def)
  next
    case False
    then have "dt_reserve n t = t" by (auto simp: dt_reserve.simps [of n t])
    moreover have "fitting (dt_max_size t - n) (dt_entries t) = dt_entries t"
      using False 1(2) by (auto intro: fitting_id)
    ultimately show ?thesis using 1(2) by simp
  qed
qed

lemma dt_consolidate_eq:
  assumes "dt_size t = entries_size (dt_entries t)"
  shows "dt_consolidate t =
    (let hs = fitting (dt_max_size t) (dt_entries t)
     in Ok (t\<lparr>dt_entries := hs, dt_size := entries_size hs\<rparr>))"
  using assms
proof (induction t rule: dt_consolidate.induct)
  case (1 t)
  show ?case
  proof (cases "dt_size t > dt_max_size t")
    case True
    then have "dt_entries t \<noteq> []" using 1(2) by auto
    with True 1 show ?thesis
      by (subst dt_consolidate.simps) (simp add: entries_size_butlast fitting_butlast Let_def)
  next
    case False
    then show ?thesis using 1(2) by (simp add: dt_consolidate.simps [of t] fitting_id)
  qed
qed

text \<open>The table as the specification of HPACK has it: entries and a limit.\<close>

lemma dt_insert_eq:
  assumes "dt_ok t"
  shows "dt_insert h t =
    (if header_len h \<le> dt_max_size t
     then let hs = h # fitting (dt_max_size t - header_len h) (dt_entries t)
          in t\<lparr>dt_entries := hs, dt_size := entries_size hs\<rparr>
     else t\<lparr>dt_entries := [], dt_size := 0\<rparr>)"
proof -
  have f: "fitting 0 hs = []" for hs
    by (cases hs) (simp_all add: header_len_pos leD)
  have "entries_size (fitting (dt_max_size t - header_len h) (dt_entries t)) \<le> dt_max_size t - header_len h"
    by (rule entries_size_fitting)
  with assms f show ?thesis
    by (auto simp: dt_insert_def dt_ok_def dt_reserve_eq Let_def)
qed

lemma dt_insert_ok: "dt_ok t \<Longrightarrow> dt_ok (dt_insert h t)"
proof -
  assume t: "dt_ok t"
  have "entries_size (fitting (dt_max_size t - header_len h) (dt_entries t)) \<le> dt_max_size t - header_len h"
    by (rule entries_size_fitting)
  with t show ?thesis by (auto simp: dt_insert_eq dt_ok_def Let_def)
qed

lemma dt_insert_max [simp]: "dt_ok t \<Longrightarrow> dt_max_size (dt_insert h t) = dt_max_size t"
  by (simp add: dt_insert_eq Let_def)

lemma dt_set_max_size_eq:
  assumes "dt_ok t"
  shows "dt_set_max_size n t =
    (let hs = fitting n (dt_entries t)
     in Ok \<lparr>dt_entries = hs, dt_size = entries_size hs, dt_max_size = n\<rparr>)"
  using assms by (simp add: dt_set_max_size_def dt_consolidate_eq dt_ok_def Let_def)

lemma dt_set_max_size_ok:
  assumes "dt_ok t"
  shows "\<exists>t'. dt_set_max_size n t = Ok t' \<and> dt_ok t' \<and> dt_max_size t' = n"
  using assms entries_size_fitting [of n "dt_entries t"]
  by (simp add: dt_set_max_size_eq dt_ok_def Let_def)

lemma dt_new_ok: "dt_ok (dt_new m)"
  by (simp add: dt_ok_def dt_new_def)

lemma dt_get_no_panic: "dt_get i t \<noteq> Panic"
  by (auto simp: dt_get_def get_static_def)

section \<open>The decoder\<close>

record hpack_decoder =
  hd_max_size_update :: "nat option"
  hd_last_max_update :: nat
  hd_table :: dec_table
  hd_buffer :: bytes

definition hpack_decoder_new :: "nat \<Rightarrow> hpack_decoder" where
  "hpack_decoder_new n = \<lparr>hd_max_size_update = None, hd_last_max_update = n,
     hd_table = dt_new n, hd_buffer = []\<rparr>"

definition queue_size_update :: "nat \<Rightarrow> hpack_decoder \<Rightarrow> hpack_decoder" where
  "queue_size_update n d =
     (let n = (case hd_max_size_update d of Some v \<Rightarrow> max v n | None \<Rightarrow> n)
      in d\<lparr>hd_max_size_update := Some n\<rparr>)"

datatype representation =
    Indexed
  | LiteralWithIndexing
  | LiteralWithoutIndexing
  | LiteralNeverIndexed
  | SizeUpdate

definition representation_load :: "u8 \<Rightarrow> (representation, decoder_error) result" where
  "representation_load byte =
     (if byte AND 0x80 = 0x80 then Ok Indexed
      else if byte AND 0x40 = 0x40 then Ok LiteralWithIndexing
      else if byte AND 0xF0 = 0 then Ok LiteralWithoutIndexing
      else if byte AND 0xF0 = 0x10 then Ok LiteralNeverIndexed
      else if byte AND 0xE0 = 0x20 then Ok SizeUpdate
      else Err InvalidRepresentation)"

type_synonym dec_state = "hpack_decoder \<times> cursor"
type_synonym 'a dec_op = "(dec_state, 'a, decoder_error) op"

text \<open>Operations of the cursor and of the table, seen as operations of the decoder.\<close>

definition on_cursor :: "(cursor, 'a, decoder_error) op \<Rightarrow> 'a dec_op" where
  "on_cursor m dc = (case dc of (d, c) \<Rightarrow> case m c of (r, c) \<Rightarrow> (r, d, c))"

definition table_get :: "nat \<Rightarrow> bytes header dec_op" where
  "table_get i dc = (dt_get i (hd_table (fst dc)), dc)"

definition decode_string :: "bytes dec_op" where
  "decode_string dc =
     (case peek_u8 (snd dc) of
        None \<Rightarrow> (Err (NeedMore UnexpectedEndOfStream), dc)
      | Some hdr \<Rightarrow>
          let huff = (hdr AND 0x80 = 0x80)
          in sbind (on_cursor (decode_int 7)) (\<lambda>len (d, buf).
               if len > remaining buf then (Err (NeedMore StringUnderflow), d, buf)
               else if huff then
                 (case huffman_decode (take len (cur_rest buf)) (hd_buffer d) of
                    (ret, scratch) \<Rightarrow> (ret, d\<lparr>hd_buffer := scratch\<rparr>, advance len buf))
               else on_cursor (take_bytes len) (d, buf)) dc)"

definition decode_indexed :: "bytes header dec_op" where
  "decode_indexed = sbind (on_cursor (decode_int 7)) table_get"

definition decode_literal :: "http_lib \<Rightarrow> bool \<Rightarrow> bytes header dec_op" where
  "decode_literal L index =
     (let prefix = (if index then 6 else 4)
      in sbind (on_cursor (decode_int prefix)) (\<lambda>table_idx.
           if table_idx = 0 then
             sbind decode_string (\<lambda>name.
             sbind decode_string (\<lambda>v. slift (header_new L name v)))
           else
             sbind (table_get table_idx) (\<lambda>e.
             sbind decode_string (\<lambda>v. slift (into_entry L (header_name e) v)))))"

definition table_insert :: "bytes header \<Rightarrow> unit dec_op" where
  "table_insert h dc = (Ok (), (fst dc)\<lparr>hd_table := dt_insert h (hd_table (fst dc))\<rparr>, snd dc)"

definition process_size_update :: "unit dec_op" where
  "process_size_update =
     sbind (on_cursor (decode_int 5)) (\<lambda>new_size (d, c).
       if new_size > hd_last_max_update d then (Err InvalidMaxDynamicSize, d, c)
       else (case dt_set_max_size new_size (hd_table d) of
               Ok t \<Rightarrow> (Ok (), d\<lparr>hd_table := t\<rparr>, c)
             | Err e \<Rightarrow> (Err e, d, c)
             | Panic \<Rightarrow> (Panic, d, c)))"

text \<open>
  One representation of the block: the header it yields, if any. Table size updates are
  allowed only while no header was read.
\<close>

fun decode_one :: "http_lib \<Rightarrow> bool \<Rightarrow> representation \<Rightarrow> bytes header option dec_op" where
  "decode_one L can_resize Indexed =
     sbind decode_indexed (\<lambda>entry. sbind (on_cursor consume) (\<lambda>_. sret (Some entry)))"
| "decode_one L can_resize LiteralWithIndexing =
     sbind (decode_literal L True) (\<lambda>entry.
     sbind (table_insert entry) (\<lambda>_.
     sbind (on_cursor consume) (\<lambda>_. sret (Some entry))))"
| "decode_one L can_resize LiteralWithoutIndexing =
     sbind (decode_literal L False) (\<lambda>entry. sbind (on_cursor consume) (\<lambda>_. sret (Some entry)))"
| "decode_one L can_resize LiteralNeverIndexed =
     sbind (decode_literal L False) (\<lambda>entry. sbind (on_cursor consume) (\<lambda>_. sret (Some entry)))"
| "decode_one L can_resize SizeUpdate =
     (if \<not> can_resize then sfail InvalidMaxDynamicSize
      else sbind process_size_update (\<lambda>_. sbind (on_cursor consume) (\<lambda>_. sret None)))"

subsection \<open>Every representation takes bytes from the cursor\<close>

definition shrinks :: "nat \<Rightarrow> 'a dec_op \<Rightarrow> bool" where
  "shrinks k m \<longleftrightarrow> (\<forall>dc x dc'. m dc = (Ok x, dc') \<longrightarrow>
     length (cur_rest (snd dc')) + k \<le> length (cur_rest (snd dc)))"

named_theorems shrinks_rules

lemma shrinksD:
  "shrinks k m \<Longrightarrow> m dc = (Ok x, dc') \<Longrightarrow> length (cur_rest (snd dc')) + k \<le> length (cur_rest (snd dc))"
  unfolding shrinks_def by blast

lemma shrinks_simple [shrinks_rules]:
  "shrinks 0 (sret x)" "shrinks k (sfail e)" "shrinks 0 (slift r)" "shrinks 0 (table_get i)"
  "shrinks 0 (table_insert h)"
  by (auto simp: shrinks_def table_get_def table_insert_def)

lemma shrinks_sbind:
  assumes "shrinks a m" "\<And>x. shrinks b (f x)"
  shows "shrinks (a + b) (sbind m f)"
proof -
  have "length (cur_rest (snd dc')) + (a + b) \<le> length (cur_rest (snd dc))"
    if "sbind m f dc = (Ok y, dc')" for dc y dc'
  proof -
    from that obtain x d1 where "m dc = (Ok x, d1)" "f x d1 = (Ok y, dc')"
      by (auto simp: sbind_eq_Ok)
    from shrinksD [OF assms(1) this(1)] shrinksD [OF assms(2) this(2)] show ?thesis by linarith
  qed
  then show ?thesis by (auto simp: shrinks_def)
qed

lemma shrinks_sbind_0: "shrinks 0 m \<Longrightarrow> (\<And>x. shrinks 0 (f x)) \<Longrightarrow> shrinks 0 (sbind m f)"
  using shrinks_sbind [of 0 m 0 f] by simp

lemma shrinks_sbind_1: "shrinks 1 m \<Longrightarrow> (\<And>x. shrinks 0 (f x)) \<Longrightarrow> shrinks 1 (sbind m f)"
  using shrinks_sbind [of 1 m 0 f] by simp

lemma shrinks_decode_int: "shrinks 1 (on_cursor (decode_int p))"
proof -
  have "length (cur_rest (snd dc')) + 1 \<le> length (cur_rest (snd dc))"
    if "on_cursor (decode_int p) dc = (Ok v, dc')" for dc v dc'
  proof -
    from that obtain c' where c': "decode_int p (snd dc) = (Ok v, c')" "snd dc' = c'"
      by (auto simp: on_cursor_def split: prod.splits)
    from decode_int_Ok [OF c'(1)] c'(2) show ?thesis by auto
  qed
  then show ?thesis by (auto simp: shrinks_def)
qed

lemma shrinks_take_bytes: "shrinks 0 (on_cursor (take_bytes n))"
  by (auto simp: shrinks_def on_cursor_def take_bytes_def cur_rest_def cursor_new_def
      split: prod.splits if_splits)

lemma shrinks_consume: "shrinks 0 (on_cursor consume)"
proof -
  have "on_cursor consume = sbind (on_cursor (take_bytes 0)) (\<lambda>_. sret ())"
    by (auto simp: on_cursor_def consume_def sbind_def fun_eq_iff split: prod.split result.split)
  then show ?thesis by (simp add: shrinks_sbind_0 shrinks_take_bytes shrinks_rules)
qed

lemma shrinks_decode_string: "shrinks 1 decode_string"
proof -
  define after where "after huff len = (\<lambda>(d, buf). if len > remaining buf
      then (Err (NeedMore StringUnderflow), d, buf)
      else if huff then
        (case huffman_decode (take len (cur_rest buf)) (hd_buffer d) of
           (ret, scratch) \<Rightarrow> (ret, d\<lparr>hd_buffer := scratch\<rparr>, advance len buf))
      else on_cursor (take_bytes len) (d, buf))" for huff len
  have "shrinks 0 (after huff len)" for huff len
    using shrinksD [OF shrinks_take_bytes [of len]]
    by (fastforce simp: shrinks_def after_def split: prod.splits if_splits)
  then have "shrinks 1 (sbind (on_cursor (decode_int 7)) (after huff))" for huff
    by (intro shrinks_sbind_1 shrinks_decode_int)
  then show ?thesis
    unfolding shrinks_def decode_string_def after_def [symmetric]
    by (auto split: option.splits simp: Let_def)
qed

lemma shrinks_0: "shrinks 1 m \<Longrightarrow> shrinks 0 m"
  by (fastforce simp: shrinks_def)

lemma shrinks_decode_literal: "shrinks 1 (decode_literal L index)"
  unfolding decode_literal_def Let_def
  by (intro shrinks_sbind_1 shrinks_decode_int)
    (auto intro!: shrinks_sbind_0 shrinks_0 [OF shrinks_decode_string] shrinks_rules)

lemma shrinks_decode_indexed: "shrinks 1 decode_indexed"
  unfolding decode_indexed_def by (intro shrinks_sbind_1 shrinks_decode_int shrinks_rules)

lemma shrinks_process_size_update: "shrinks 1 process_size_update"
  unfolding process_size_update_def
  by (intro shrinks_sbind_1 shrinks_decode_int)
    (auto simp: shrinks_def split: if_splits result.splits)

lemma shrinks_decode_one: "shrinks 1 (decode_one L can_resize r)"
  by (cases r; simp only: decode_one.simps)
    (auto simp del: One_nat_def intro!: shrinks_sbind_1 shrinks_sbind_0 shrinks_decode_literal
      shrinks_decode_indexed shrinks_process_size_update shrinks_consume shrinks_rules)

lemma decode_one_less:
  "(Ok x, dc') = decode_one L can_resize r dc \<Longrightarrow>
     length (cur_rest (snd dc')) < length (cur_rest (snd dc))"
  using shrinksD [OF shrinks_decode_one [of L can_resize r], of dc x dc'] by simp

subsection \<open>The loop over the block\<close>

text \<open>The closure \<open>f\<close> updates a state of its own for every header.\<close>

function decode_loop ::
  "http_lib \<Rightarrow> (bytes header \<Rightarrow> 's \<Rightarrow> 's) \<Rightarrow> bool \<Rightarrow> (dec_state \<times> 's, unit, decoder_error) op" where
  "decode_loop L f can_resize (dc, acc) =
     (case peek_u8 (snd dc) of
        None \<Rightarrow> (Ok (), dc, acc)
      | Some ty \<Rightarrow>
          (case representation_load ty of
             Ok r \<Rightarrow>
               (case decode_one L can_resize r dc of
                  (Ok (Some entry), dc) \<Rightarrow> decode_loop L f False (dc, f entry acc)
                | (Ok None, dc) \<Rightarrow> decode_loop L f can_resize (dc, acc)
                | (Err e, dc) \<Rightarrow> (Err e, dc, acc)
                | (Panic, dc) \<Rightarrow> (Panic, dc, acc))
           | Err e \<Rightarrow> (Err e, dc, acc)
           | Panic \<Rightarrow> (Panic, dc, acc)))"
  by pat_completeness auto
termination
  by (relation "measure (\<lambda>(_, _, _, dc, _). length (cur_rest (snd dc)))")
    (simp_all add: decode_one_less)

declare decode_loop.simps [simp del]

definition hpack_decode ::
  "http_lib \<Rightarrow> (bytes header \<Rightarrow> 's \<Rightarrow> 's) \<Rightarrow> (dec_state \<times> 's, unit, decoder_error) op" where
  "hpack_decode L f s =
     (case s of ((d, c), acc) \<Rightarrow>
        let d = (case hd_max_size_update d of
                   Some n \<Rightarrow> d\<lparr>hd_max_size_update := None, hd_last_max_update := n\<rparr>
                 | None \<Rightarrow> d)
        in decode_loop L f True ((d, c), acc))"

section \<open>The decoder does not panic and keeps its table within the limit\<close>

definition dec_ok :: "dec_state \<Rightarrow> bool" where
  "dec_ok dc \<longleftrightarrow> dt_ok (hd_table (fst dc)) \<and> cur_pos (snd dc) \<le> length (cur_data (snd dc))"

lemma keeps_decode_int [keeps_rules]: "keeps dec_ok (on_cursor (decode_int p))"
proof (rule keepsI)
  fix dc :: dec_state and r dc' assume ok: "dec_ok dc" and m: "on_cursor (decode_int p) dc = (r, dc')"
  then obtain c' where c': "decode_int p (snd dc) = (r, c')" "dc' = (fst dc, c')"
    by (auto simp: on_cursor_def split: prod.splits)
  with decode_int_frame [OF c'(1)] ok show "r \<noteq> Panic \<and> dec_ok dc'"
    by (auto simp: dec_ok_def cur_rest_def)
qed

lemma keeps_consume [keeps_rules]: "keeps dec_ok (on_cursor consume)"
  by (auto simp: keeps_def dec_ok_def on_cursor_def consume_Ok cursor_new_def split: prod.splits)

lemma keeps_table_get [keeps_rules]: "keeps dec_ok (table_get i)"
  by (auto simp: keeps_def table_get_def dt_get_no_panic)

lemma keeps_table_insert [keeps_rules]: "keeps dec_ok (table_insert h)"
  by (auto simp: keeps_def table_insert_def dec_ok_def dt_insert_ok)

lemma keeps_decode_string [keeps_rules]: "keeps dec_ok decode_string"
proof -
  define after where "after huff len = (\<lambda>(d, buf). if len > remaining buf
      then (Err (NeedMore StringUnderflow), d, buf)
      else if huff then
        (case huffman_decode (take len (cur_rest buf)) (hd_buffer d) of
           (ret, scratch) \<Rightarrow> (ret, d\<lparr>hd_buffer := scratch\<rparr>, advance len buf))
      else on_cursor (take_bytes len) (d, buf))" for huff len
  have "keeps dec_ok (after huff len)" for huff len
    using huffman_decode_no_panic
    by (auto simp: keeps_def after_def dec_ok_def on_cursor_def take_bytes_Ok remaining_def
        cursor_new_def cur_rest_def split: prod.splits if_splits)
  then have "keeps dec_ok (sbind (on_cursor (decode_int 7)) (after huff))" for huff
    by (intro keeps_rules)
  then show ?thesis
    unfolding keeps_def decode_string_def after_def [symmetric]
    by (auto split: option.splits simp: Let_def)
qed

lemma keeps_decode_literal [keeps_rules]: "keeps dec_ok (decode_literal L index)"
  unfolding decode_literal_def Let_def
  by (intro keeps_rules header_new_no_panic into_entry_no_panic)

lemma keeps_decode_indexed [keeps_rules]: "keeps dec_ok decode_indexed"
  unfolding decode_indexed_def by (intro keeps_rules)

lemma keeps_process_size_update [keeps_rules]: "keeps dec_ok process_size_update"
proof -
  have "keeps dec_ok (\<lambda>(d, c). if n > hd_last_max_update d then (Err InvalidMaxDynamicSize, d, c)
     else (case dt_set_max_size n (hd_table d) of
             Ok t \<Rightarrow> (Ok (), d\<lparr>hd_table := t\<rparr>, c)
           | Err e \<Rightarrow> (Err e, d, c)
           | Panic \<Rightarrow> (Panic, d, c)))" for n
    using dt_set_max_size_ok [of _ n] by (fastforce simp: keeps_def dec_ok_def split: if_splits)
  then show ?thesis unfolding process_size_update_def by (intro keeps_rules)
qed

lemma keeps_decode_one: "keeps dec_ok (decode_one L can_resize r)"
  by (cases r; simp only: decode_one.simps; intro keeps_rules)

lemma representation_load_no_panic: "representation_load b \<noteq> Panic"
  by (simp add: representation_load_def)

lemma decode_loop_ok:
  "dec_ok dc \<Longrightarrow> decode_loop L f cr (dc, acc) = (r, dc', acc') \<Longrightarrow> r \<noteq> Panic \<and> dec_ok dc'"
proof (induction L f cr "(dc, acc)" arbitrary: dc acc rule: decode_loop.induct)
  case (1 L f cr dc acc)
  show ?case
  proof (cases "peek_u8 (snd dc)")
    case None
    with 1 show ?thesis by (auto simp: decode_loop.simps [of L f cr dc])
  next
    case (Some ty)
    show ?thesis
    proof (cases "representation_load ty")
      case (Ok rep)
      obtain x dc1 where m: "decode_one L cr rep dc = (x, dc1)" by (cases "decode_one L cr rep dc")
      have k: "x \<noteq> Panic \<and> dec_ok dc1"
        using keepsD [OF keeps_decode_one "1.prems"(1) m] by simp
      show ?thesis
      proof (cases x)
        case xOk: (Ok y)
        with Some Ok m k "1.hyps" "1.prems"(2) show ?thesis
          by (cases y) (auto simp: decode_loop.simps [of L f cr dc])
      qed (use Some Ok m k "1.prems"(2) in \<open>auto simp: decode_loop.simps [of L f cr dc]\<close>)
    qed (use Some "1.prems" representation_load_no_panic in
        \<open>auto simp: decode_loop.simps [of L f cr dc]\<close>)
  qed
qed

text \<open>
  C5: whatever bytes arrive, decoding them does not panic, ends in success
  or an error, and leaves a dynamic table whose recorded size is the size of its entries and
  does not exceed its limit.
\<close>

theorem hpack_decode_safe:
  assumes "dt_ok (hd_table d)" "cur_pos c \<le> length (cur_data c)"
    "hpack_decode L f ((d, c), acc) = (r, (d', c'), acc')"
  shows "r \<noteq> Panic \<and> dt_size (hd_table d') = sum_list (map header_len (dt_entries (hd_table d')))
    \<and> dt_size (hd_table d') \<le> dt_max_size (hd_table d') \<and> cur_pos c' \<le> length (cur_data c')"
proof -
  have "dec_ok (case hd_max_size_update d of
     Some n \<Rightarrow> d\<lparr>hd_max_size_update := None, hd_last_max_update := n\<rparr> | None \<Rightarrow> d, c)"
    using assms(1,2) by (simp add: dec_ok_def split: option.split)
  from decode_loop_ok [OF this, of L f True acc r "(d', c')" acc'] assms(3) show ?thesis
    by (simp add: hpack_decode_def Let_def dec_ok_def dt_ok_def entries_size_def)
qed

definition no_lib :: http_lib where
  "no_lib = \<lparr>header_name_ok = (\<lambda>_. False), header_value_ok = (\<lambda>_. False), method_ok = (\<lambda>_. False),
     status_ok = (\<lambda>_. False)\<rparr>"

lemma hpack_decode_safe_witness:
  "case hpack_decode no_lib (\<lambda>h acc. acc @ [h])
      ((hpack_decoder_new 4096, cursor_new [0x41, 0x81, 0x23, 0xC0, 0xFF]), []) of
    (r, (d', c'), acc') \<Rightarrow> r \<noteq> Panic \<and> dt_size (hd_table d') \<le> 4096"
proof -
  have "dt_ok (hd_table (hpack_decoder_new 4096))"
    by (simp add: hpack_decoder_new_def dt_new_ok)
  moreover obtain r d' c' acc' where run: "hpack_decode no_lib (\<lambda>h acc. acc @ [h])
      ((hpack_decoder_new 4096, cursor_new [0x41, 0x81, 0x23, 0xC0, 0xFF]), []) = (r, (d', c'), acc')"
    by (metis prod.exhaust)
  moreover have "dt_max_size (hd_table d') = 4096"
  proof -
    have "case hpack_decode no_lib (\<lambda>h acc. acc @ [h])
        ((hpack_decoder_new 4096, cursor_new [0x41, 0x81, 0x23, 0xC0, 0xFF]), []) of
      (r, (d', c'), acc') \<Rightarrow> dt_max_size (hd_table d') = 4096"
      by code_simp
    with run show ?thesis by simp
  qed
  ultimately show ?thesis
    using hpack_decode_safe [of "hpack_decoder_new 4096"
        "cursor_new [0x41, 0x81, 0x23, 0xC0, 0xFF]" no_lib "\<lambda>h acc. acc @ [h]" "[]" r d' c' acc']
    by (simp add: cursor_new_def)
qed

end
