(* ===== verification/Hpack_Block.thy ===== *)
theory Hpack_Block
  imports Hpack_Decoder
begin

text \<open>
  Header blocks as HPACK specifies them, apart from any program: strings, field representations, their
  bytes, and their meaning for a dynamic table given by its entries and its limit. The decoder
  is proved to compute this meaning.
\<close>

section \<open>Strings and representations\<close>

datatype hstring = Plain bytes | Coded bytes

fun hs_value :: "hstring \<Rightarrow> bytes" where
  "hs_value (Plain s) = s"
| "hs_value (Coded s) = s"

fun hs_bytes :: "hstring \<Rightarrow> bytes" where
  "hs_bytes (Plain s) = int_bytes (length s) 7 0 @ s"
| "hs_bytes (Coded s) =
     (let p = pack (huffman_code s) in int_bytes (length p) 7 0x80 @ p)"

fun hs_ok :: "hstring \<Rightarrow> bool" where
  "hs_ok (Plain s) \<longleftrightarrow> length s \<le> 0x0fffffff"
| "hs_ok (Coded s) \<longleftrightarrow> length (pack (huffman_code s)) \<le> 0x0fffffff"

datatype literal = Incremental | Without | Never

fun literal_prefix :: "literal \<Rightarrow> nat" where
  "literal_prefix Incremental = 6"
| "literal_prefix _ = 4"

fun literal_pattern :: "literal \<Rightarrow> u8" where
  "literal_pattern Incremental = 0x40"
| "literal_pattern Without = 0"
| "literal_pattern Never = 0x10"

datatype rep =
    RIndexed nat
  | RNamed literal nat hstring
  | RNew literal hstring hstring
  | RSize nat

fun rep_bytes :: "rep \<Rightarrow> bytes" where
  "rep_bytes (RIndexed i) = int_bytes i 7 0x80"
| "rep_bytes (RNamed k i v) = int_bytes i (literal_prefix k) (literal_pattern k) @ hs_bytes v"
| "rep_bytes (RNew k n v) =
     int_bytes 0 (literal_prefix k) (literal_pattern k) @ hs_bytes n @ hs_bytes v"
| "rep_bytes (RSize n) = int_bytes n 5 0x20"

text \<open>The numbers the integer representation covers.\<close>

fun rep_ok :: "rep \<Rightarrow> bool" where
  "rep_ok (RIndexed i) \<longleftrightarrow> i \<le> 0x0fffffff"
| "rep_ok (RNamed k i v) \<longleftrightarrow> 1 \<le> i \<and> i \<le> 0x0fffffff \<and> hs_ok v"
| "rep_ok (RNew k n v) \<longleftrightarrow> hs_ok n \<and> hs_ok v"
| "rep_ok (RSize n) \<longleftrightarrow> n \<le> 0x0fffffff"

section \<open>The meaning of a block\<close>

text \<open>A dynamic table is its entries, newest first, and its limit.\<close>

type_synonym dyn = "bytes header list \<times> nat"

fun dyn_insert :: "bytes header \<Rightarrow> dyn \<Rightarrow> dyn" where
  "dyn_insert h (hs, m) =
     ((if header_len h \<le> m then h # fitting (m - header_len h) hs else []), m)"

fun dyn_resize :: "nat \<Rightarrow> dyn \<Rightarrow> dyn" where
  "dyn_resize n (hs, m) = (fitting n hs, n)"

fun dyn_get :: "nat \<Rightarrow> dyn \<Rightarrow> (bytes header, decoder_error) result" where
  "dyn_get i (hs, m) =
     (if 1 \<le> i \<and> i \<le> 61 then get_static i
      else if 62 \<le> i \<and> i - 62 < length hs then Ok (hs ! (i - 62))
      else Err InvalidTableIndex)"

fun remember :: "literal \<Rightarrow> bytes header \<Rightarrow> dyn \<Rightarrow> dyn" where
  "remember Incremental h t = dyn_insert h t"
| "remember _ h t = t"

text \<open>\<open>limit\<close> is the largest table size the receiver allows.\<close>

fun meaning ::
  "http_lib \<Rightarrow> nat \<Rightarrow> bool \<Rightarrow> rep \<Rightarrow> dyn \<Rightarrow> (bytes header option \<times> dyn, decoder_error) result" where
  "meaning L limit can_resize (RIndexed i) t = rbind (dyn_get i t) (\<lambda>h. Ok (Some h, t))"
| "meaning L limit can_resize (RNamed k i v) t =
     rbind (dyn_get i t) (\<lambda>e.
     rbind (into_entry L (header_name e) (hs_value v)) (\<lambda>h. Ok (Some h, remember k h t)))"
| "meaning L limit can_resize (RNew k n v) t =
     rbind (header_new L (hs_value n) (hs_value v)) (\<lambda>h. Ok (Some h, remember k h t))"
| "meaning L limit can_resize (RSize n) t =
     (if \<not> can_resize \<or> n > limit then Err InvalidMaxDynamicSize else Ok (None, dyn_resize n t))"

fun block_meaning ::
  "http_lib \<Rightarrow> nat \<Rightarrow> bool \<Rightarrow> rep list \<Rightarrow> dyn \<Rightarrow> (bytes header list \<times> dyn, decoder_error) result" where
  "block_meaning L limit can_resize [] t = Ok ([], t)"
| "block_meaning L limit can_resize (r # rs) t =
     rbind (meaning L limit can_resize r t) (\<lambda>(h, t).
     rbind (block_meaning L limit (can_resize \<and> h = None) rs t) (\<lambda>(hs, t).
       Ok ((case h of None \<Rightarrow> hs | Some h \<Rightarrow> h # hs), t)))"

section \<open>The first byte of a representation\<close>

lemma bit_F0: "bit (0xF0 :: u8) n \<longleftrightarrow> 4 \<le> n \<and> n < 8"
proof -
  have "(0xF0 :: u8) = push_bit 4 (mask 4)" by (simp add: mask_eq_exp_minus_1)
  then show ?thesis by (simp only: bit_push_bit_iff bit_mask_iff possible_bit_def) auto
qed

lemma bit_E0: "bit (0xE0 :: u8) n \<longleftrightarrow> 5 \<le> n \<and> n < 8"
proof -
  have "(0xE0 :: u8) = push_bit 5 (mask 3)" by (simp add: mask_eq_exp_minus_1)
  then show ?thesis by (simp only: bit_push_bit_iff bit_mask_iff possible_bit_def) auto
qed

text \<open>The match on the masks is a match on the four leading bits; the error branch is not reached.\<close>

lemma representation_load_bits:
  "representation_load b =
     (if bit b 7 then Ok Indexed
      else if bit b 6 then Ok LiteralWithIndexing
      else if bit b 5 then Ok SizeUpdate
      else if bit b 4 then Ok LiteralNeverIndexed
      else Ok LiteralWithoutIndexing)"
proof -
  have split: "(\<forall>n. 4 \<le> n \<and> n < 8 \<longrightarrow> P n) \<longleftrightarrow> P 4 \<and> P 5 \<and> P 6 \<and> P (7 :: nat)" for P
  proof -
    have "4 \<le> n \<and> n < 8 \<longleftrightarrow> n = 4 \<or> n = 5 \<or> n = 6 \<or> n = (7 :: nat)" for n by auto
    then show ?thesis by auto
  qed
  have split3: "(\<forall>n. 5 \<le> n \<and> n < 8 \<longrightarrow> P n) \<longleftrightarrow> P 5 \<and> P 6 \<and> P (7 :: nat)" for P
  proof -
    have "5 \<le> n \<and> n < 8 \<longleftrightarrow> n = 5 \<or> n = 6 \<or> n = (7 :: nat)" for n by auto
    then show ?thesis by auto
  qed
  have 7: "b AND 0x80 = 0x80 \<longleftrightarrow> bit b 7" using and_flag_iff [of 7 b] by simp
  have 6: "b AND 0x40 = 0x40 \<longleftrightarrow> bit b 6" using and_flag_iff [of 6 b] by simp
  have p: "bit (0x10 :: u8) n \<longleftrightarrow> n = 4" "bit (0x20 :: u8) n \<longleftrightarrow> n = 5" for n
  proof -
    have "(0x10 :: u8) = push_bit 4 1" "(0x20 :: u8) = push_bit 5 1" by simp_all
    then show "bit (0x10 :: u8) n \<longleftrightarrow> n = 4" "bit (0x20 :: u8) n \<longleftrightarrow> n = 5"
      by (simp_all only: bit_push_bit_iff bit_1_iff possible_bit_def) auto
  qed
  have w: "v = w \<longleftrightarrow> (\<forall>n. bit v n = bit w n)" for v w :: u8
    by (auto intro: bit_eqI)
  have 0: "b AND 0xF0 = 0 \<longleftrightarrow> (\<forall>n. 4 \<le> n \<and> n < 8 \<longrightarrow> \<not> bit b n)"
    by (subst w) (auto simp only: bit_and_iff bit_F0 bit_0_eq bot_apply bot_bool_def)
  have 1: "b AND 0xF0 = 0x10 \<longleftrightarrow> (\<forall>n. 4 \<le> n \<and> n < 8 \<longrightarrow> (bit b n \<longleftrightarrow> n = 4))"
    by (subst w) (auto simp only: bit_and_iff bit_F0 p)
  have 2: "b AND 0xE0 = 0x20 \<longleftrightarrow> (\<forall>n. 5 \<le> n \<and> n < 8 \<longrightarrow> (bit b n \<longleftrightarrow> n = 5))"
    by (subst w) (auto simp only: bit_and_iff bit_E0 p)
  show ?thesis
    unfolding representation_load_def 7 6 0 1 2 split split3 by simp
qed

section \<open>The decoder on the bytes of a block\<close>

lemma bit_first:
  assumes "w < 2 ^ k" "k \<le> n"
  shows "bit ((p OR word_of_nat w) :: u8) n \<longleftrightarrow> bit p n"
proof -
  have "w < 2 ^ n" using assms power_increasing [of k n "2 :: nat"] by linarith
  then have "\<not> bit w n" by (simp add: bit_iff_odd)
  then show ?thesis by (auto simp: bit_or_iff bit_of_nat_iff)
qed

lemma int_bytes_Cons: "\<exists>w bs. int_bytes v k p = (p OR word_of_nat w) # bs \<and> w < 2 ^ k"
  by (cases "encode_int_one_byte v k")
    (auto simp: int_bytes_def encode_int_one_byte_def intro: exI [of _ "2 ^ k - 1"])

lemma bit_patterns:
  "bit (0x80 :: int) n \<longleftrightarrow> n = 7" "bit (0x40 :: int) n \<longleftrightarrow> n = 6" "bit (0x20 :: int) n \<longleftrightarrow> n = 5"
  "bit (0x10 :: int) n \<longleftrightarrow> n = 4"
proof -
  have "(0x80 :: int) = push_bit 7 1" "(0x40 :: int) = push_bit 6 1" "(0x20 :: int) = push_bit 5 1"
    "(0x10 :: int) = push_bit 4 1" by simp_all
  then show "bit (0x80 :: int) n \<longleftrightarrow> n = 7" "bit (0x40 :: int) n \<longleftrightarrow> n = 6"
    "bit (0x20 :: int) n \<longleftrightarrow> n = 5" "bit (0x10 :: int) n \<longleftrightarrow> n = 4"
    by (simp_all only: bit_push_bit_iff bit_1_iff possible_bit_def) auto
qed

fun rep_kind :: "rep \<Rightarrow> representation" where
  "rep_kind (RIndexed i) = Indexed"
| "rep_kind (RNamed k i v) =
     (case k of Incremental \<Rightarrow> LiteralWithIndexing | Without \<Rightarrow> LiteralWithoutIndexing
      | Never \<Rightarrow> LiteralNeverIndexed)"
| "rep_kind (RNew k n v) =
     (case k of Incremental \<Rightarrow> LiteralWithIndexing | Without \<Rightarrow> LiteralWithoutIndexing
      | Never \<Rightarrow> LiteralNeverIndexed)"
| "rep_kind (RSize n) = SizeUpdate"

lemma int_bytes_first:
  "\<exists>b bs. int_bytes v p q @ x = b # bs \<and> (p \<le> 7 \<longrightarrow> (bit b 7 \<longleftrightarrow> bit q 7))
     \<and> (p \<le> 6 \<longrightarrow> (bit b 6 \<longleftrightarrow> bit q 6)) \<and> (p \<le> 5 \<longrightarrow> (bit b 5 \<longleftrightarrow> bit q 5))
     \<and> (p \<le> 4 \<longrightarrow> (bit b 4 \<longleftrightarrow> bit q 4))"
proof -
  obtain w bs where "int_bytes v p q = (q OR word_of_nat w) # bs" "w < 2 ^ p"
    using int_bytes_Cons by blast
  with bit_first [of w p _ q] show ?thesis by simp
qed

lemma literal_first:
  "\<exists>b bs. int_bytes v (literal_prefix k) (literal_pattern k) @ x = b # bs
     \<and> representation_load b = Ok (case k of Incremental \<Rightarrow> LiteralWithIndexing
         | Without \<Rightarrow> LiteralWithoutIndexing | Never \<Rightarrow> LiteralNeverIndexed)"
  using int_bytes_first [of v "literal_prefix k" "literal_pattern k" x]
  by (cases k) (auto simp: representation_load_bits bit_patterns)

lemma rep_bytes_Cons: "\<exists>b bs. rep_bytes r = b # bs \<and> representation_load b = Ok (rep_kind r)"
proof (cases r)
  case (RIndexed i)
  then show ?thesis using int_bytes_first [of i 7 "0x80" "[]"]
    by (auto simp: representation_load_bits bit_patterns)
next
  case (RNamed k i v)
  then show ?thesis using literal_first [of i k "hs_bytes v"] by simp
next
  case (RNew k n v)
  then show ?thesis using literal_first [of 0 k "hs_bytes n @ hs_bytes v"] by simp
next
  case (RSize n)
  then show ?thesis using int_bytes_first [of n 5 "0x20" "[]"]
    by (auto simp: representation_load_bits bit_patterns)
qed

text \<open>
  \<open>at_rest d rest dc\<close>: the decoder is \<open>d\<close> with an empty scratch buffer, and \<open>rest\<close> is still to be read.
\<close>

definition at_rest :: "hpack_decoder \<Rightarrow> bytes \<Rightarrow> dec_state \<Rightarrow> bool" where
  "at_rest d rest dc \<longleftrightarrow> fst dc = d \<and> hd_buffer d = [] \<and> cur_rest (snd dc) = rest
     \<and> cur_pos (snd dc) \<le> length (cur_data (snd dc))"

lemma prefix_masks:
  "0x80 AND prefix_mask 7 = 0" "0 AND prefix_mask k = 0" "0x40 AND prefix_mask 6 = 0"
  "0x10 AND prefix_mask 4 = 0" "0x20 AND prefix_mask 5 = 0"
  by (simp_all add: prefix_mask_def)

lemma decode_int_at:
  assumes "at_rest d (int_bytes v k p @ rest) dc" "1 \<le> k" "k \<le> 8" "p AND prefix_mask k = 0"
    "v \<le> 0x0fffffff"
  shows "\<exists>dc'. on_cursor (decode_int k) dc = (Ok v, dc') \<and> at_rest d rest dc'"
proof -
  have "v \<le> 2 ^ k - 1 + 0x0fffffff" using assms(5) by (rule trans_le_add2)
  moreover have rest: "cur_rest (snd dc) = int_bytes v k p @ rest"
    using assms(1) by (simp add: at_rest_def)
  ultimately have m: "decode_int k (snd dc) = (Ok v, advance (length (int_bytes v k p)) (snd dc))"
    by (intro decode_int_bytes assms)
  have "cur_pos (snd dc) + length (int_bytes v k p) \<le> length (cur_data (snd dc))"
    using arg_cong [OF rest, of length] assms(1) by (auto simp: cur_rest_def at_rest_def)
  with m rest assms(1) show ?thesis
    by (auto simp: on_cursor_def at_rest_def split: prod.splits)
qed

lemma cursor_new_wf [simp]: "cur_pos (cursor_new d) \<le> length (cur_data (cursor_new d))"
  by (simp add: cursor_new_def)

lemma decode_string_at:
  assumes "at_rest d (hs_bytes s @ rest) dc" "hs_ok s"
  shows "\<exists>dc'. decode_string dc = (Ok (hs_value s), dc') \<and> at_rest d rest dc'"
proof (cases s)
  case (Plain t)
  let ?n = "length t"
  obtain b bs where b: "cur_rest (snd dc) = b # bs" "bit b 7 \<longleftrightarrow> False"
    using int_bytes_first [of ?n 7 0 "t @ rest"] assms(1) Plain
    by (auto simp: at_rest_def bit_patterns)
  obtain dc1 where 1: "on_cursor (decode_int 7) dc = (Ok ?n, dc1)" "at_rest d (t @ rest) dc1"
    using decode_int_at [of d ?n 7 0 "t @ rest" dc] assms Plain by (auto simp: prefix_masks)
  have "b AND 0x80 \<noteq> 0x80" using b(2) and_flag_iff [of 7 b] by simp
  with b 1 Plain show ?thesis
    by (cases dc1) (auto simp: decode_string_def Let_def at_rest_def remaining_def on_cursor_def
        take_bytes_Ok)
next
  case (Coded t)
  let ?p = "pack (huffman_code t)"
  let ?n = "length ?p"
  obtain b bs where b: "cur_rest (snd dc) = b # bs" "bit b 7"
    using int_bytes_first [of ?n 7 "0x80" "?p @ rest"] assms(1) Coded
    by (auto simp: at_rest_def bit_patterns Let_def)
  obtain dc1 where 1: "on_cursor (decode_int 7) dc = (Ok ?n, dc1)" "at_rest d (?p @ rest) dc1"
    using decode_int_at [of d ?n 7 "0x80" "?p @ rest" dc] assms Coded
    by (auto simp: prefix_masks Let_def)
  have "b AND 0x80 = 0x80" using b(2) and_flag_iff [of 7 b] by simp
  moreover have e: "cur_rest (snd dc1) = ?p @ rest" using 1(2) by (simp add: at_rest_def)
  have "cur_pos (snd dc1) + ?n \<le> length (cur_data (snd dc1))"
  proof -
    have "length (cur_data (snd dc1)) - cur_pos (snd dc1) = ?n + length rest"
      using e by (metis cur_rest_def length_append length_drop)
    moreover have "cur_pos (snd dc1) \<le> length (cur_data (snd dc1))" using 1(2) by (simp add: at_rest_def)
    ultimately show ?thesis by linarith
  qed
  ultimately show ?thesis
    using b 1 Coded
    by (cases dc1) (auto simp: decode_string_def Let_def at_rest_def remaining_def
        huffman_decode_pack)
qed

lemma consume_at:
  assumes "at_rest d rest dc"
  shows "\<exists>dc'. on_cursor consume dc = (Ok (), dc') \<and> at_rest d rest dc'"
  using assms
  by (cases dc) (auto simp: on_cursor_def consume_Ok at_rest_def)

text \<open>The table of the decoder as a table of the specification.\<close>

definition dyn_of :: "dec_table \<Rightarrow> dyn" where
  "dyn_of t = (dt_entries t, dt_max_size t)"

lemma dt_get_dyn: "dt_get i t = dyn_get i (dyn_of t)"
  by (auto simp: dt_get_def dyn_of_def)

lemma dyn_insert_ok: "dt_ok t \<Longrightarrow> dyn_of (dt_insert h t) = dyn_insert h (dyn_of t)"
  by (simp add: dt_insert_eq dyn_of_def Let_def)

lemma dyn_resize_ok:
  "dt_ok t \<Longrightarrow> \<exists>t'. dt_set_max_size n t = Ok t' \<and> dyn_of t' = dyn_resize n (dyn_of t) \<and> dt_ok t'"
  using dt_set_max_size_ok [of t n] by (auto simp: dt_set_max_size_eq dyn_of_def Let_def)

text \<open>
  \<open>yields m x d rest dc\<close>: the operation succeeds with \<open>x\<close>, the decoder \<open>d\<close> and \<open>rest\<close> to be read.
\<close>

definition yields :: "'a dec_op \<Rightarrow> 'a \<Rightarrow> hpack_decoder \<Rightarrow> bytes \<Rightarrow> dec_state \<Rightarrow> bool" where
  "yields m x d rest dc \<longleftrightarrow> (\<exists>dc'. m dc = (Ok x, dc') \<and> at_rest d rest dc')"

lemma yields_sbind:
  assumes "yields m x d rest dc" "\<And>dc. at_rest d rest dc \<Longrightarrow> yields (f x) y d' rest' dc"
  shows "yields (sbind m f) y d' rest' dc"
  using assms by (fastforce simp: yields_def)

lemma fails_sbind:
  assumes "yields m x d rest dc" "\<And>dc. at_rest d rest dc \<Longrightarrow> fst (f x dc) = Err e"
  shows "fst (sbind m f dc) = Err e"
  using assms by (fastforce simp: yields_def)

lemma yields_int:
  "at_rest d (int_bytes v k p @ rest) dc \<Longrightarrow> 1 \<le> k \<Longrightarrow> k \<le> 8 \<Longrightarrow> p AND prefix_mask k = 0 \<Longrightarrow>
     v \<le> 0x0fffffff \<Longrightarrow> yields (on_cursor (decode_int k)) v d rest dc"
  unfolding yields_def by (rule decode_int_at)

lemma yields_string:
  "at_rest d (hs_bytes s @ rest) dc \<Longrightarrow> hs_ok s \<Longrightarrow> yields decode_string (hs_value s) d rest dc"
  unfolding yields_def by (rule decode_string_at)

lemma yields_consume: "at_rest d rest dc \<Longrightarrow> yields (on_cursor consume) () d rest dc"
  unfolding yields_def by (rule consume_at)

lemma yields_sret: "at_rest d rest dc \<Longrightarrow> yields (sret x) x d rest dc"
  by (simp add: yields_def)

lemma yields_slift: "at_rest d rest dc \<Longrightarrow> r = Ok x \<Longrightarrow> yields (slift r) x d rest dc"
  by (simp add: yields_def)

lemma table_get_at:
  "at_rest d rest dc \<Longrightarrow> table_get i dc = (dyn_get i (dyn_of (hd_table d)), dc)"
  by (simp add: table_get_def dt_get_dyn at_rest_def)

lemma yields_insert:
  "at_rest d rest dc \<Longrightarrow>
     yields (table_insert h) () (d\<lparr>hd_table := dt_insert h (hd_table d)\<rparr>) rest dc"
  by (auto simp: yields_def table_insert_def at_rest_def)

lemma literal_patterns:
  "1 \<le> literal_prefix k" "literal_prefix k \<le> 8"
  "literal_pattern k AND prefix_mask (literal_prefix k) = 0"
  "literal_prefix k = (if k = Incremental then 6 else 4)"
  by (cases k; simp add: prefix_masks)+

text \<open>A literal: the header it stands for, or the error.\<close>

lemma decode_literal_named:
  assumes "at_rest d (int_bytes i (literal_prefix k) (literal_pattern k) @ hs_bytes v @ rest) dc"
    "1 \<le> i" "i \<le> 0x0fffffff" "hs_ok v"
  shows "case rbind (dyn_get i (dyn_of (hd_table d))) (\<lambda>e. into_entry L (header_name e) (hs_value v)) of
      Ok h \<Rightarrow> yields (decode_literal L (k = Incremental)) h d rest dc
    | Err e \<Rightarrow> fst (decode_literal L (k = Incremental) dc) = Err e | Panic \<Rightarrow> True"
proof -
  note int = yields_int [OF assms(1) literal_patterns(1-3) assms(3), unfolded literal_patterns(4)]
  show ?thesis
  proof (cases "dyn_get i (dyn_of (hd_table d))")
    case (Ok e)
    have get: "yields (table_get i) e d rest' dc" if "at_rest d rest' dc" for rest' dc
      using that Ok by (simp add: yields_def table_get_at)
    show ?thesis
    proof (cases "into_entry L (header_name e) (hs_value v)")
      case (Ok h)
      with \<open>1 \<le> i\<close> have "yields (decode_literal L (k = Incremental)) h d rest dc"
        unfolding decode_literal_def Let_def
        by (intro yields_sbind [OF int]) (auto intro!: yields_sbind [OF get]
            yields_sbind [OF yields_string] yields_slift simp: \<open>hs_ok v\<close>)
      with \<open>dyn_get i _ = Ok e\<close> Ok show ?thesis by simp
    next
      case (Err x)
      with \<open>1 \<le> i\<close> have "fst (decode_literal L (k = Incremental) dc) = Err x"
        unfolding decode_literal_def Let_def
        by (intro fails_sbind [OF int]) (auto intro!: fails_sbind [OF get]
            fails_sbind [OF yields_string] simp: \<open>hs_ok v\<close>)
      with \<open>dyn_get i _ = Ok e\<close> Err show ?thesis by simp
    qed (simp add: into_entry_no_panic)
  next
    case (Err x)
    with \<open>1 \<le> i\<close> have "fst (decode_literal L (k = Incremental) dc) = Err x"
      unfolding decode_literal_def Let_def
      by (intro fails_sbind [OF int]) (auto simp: table_get_at sbind_def)
    with Err show ?thesis by simp
  qed simp
qed

lemma decode_literal_new:
  assumes "at_rest d (int_bytes 0 (literal_prefix k) (literal_pattern k) @ hs_bytes n @ hs_bytes v @ rest) dc"
    "hs_ok n" "hs_ok v"
  shows "case header_new L (hs_value n) (hs_value v) of
      Ok h \<Rightarrow> yields (decode_literal L (k = Incremental)) h d rest dc
    | Err e \<Rightarrow> fst (decode_literal L (k = Incremental) dc) = Err e | Panic \<Rightarrow> True"
proof -
  note int = yields_int [OF assms(1) literal_patterns(1-3), unfolded literal_patterns(4), simplified]
  show ?thesis
  proof (cases "header_new L (hs_value n) (hs_value v)")
    case (Ok h)
    then have "yields (decode_literal L (k = Incremental)) h d rest dc"
      unfolding decode_literal_def Let_def
      by (intro yields_sbind [OF int]) (auto intro!: yields_sbind [OF yields_string]
          yields_slift simp: assms(2,3))
    with Ok show ?thesis by simp
  next
    case (Err x)
    then have "fst (decode_literal L (k = Incremental) dc) = Err x"
      unfolding decode_literal_def Let_def
      by (intro fails_sbind [OF int]) (auto intro!: fails_sbind [OF yields_string] simp: assms(2,3))
    with Err show ?thesis by simp
  qed simp
qed

text \<open>
  One representation: what the decoder yields and its table are as the specification has them.
\<close>

definition agrees :: "nat \<Rightarrow> dyn \<Rightarrow> hpack_decoder \<Rightarrow> bool" where
  "agrees limit t d \<longleftrightarrow> dyn_of (hd_table d) = t \<and> dt_ok (hd_table d) \<and> hd_last_max_update d = limit"

lemma decode_one_literal:
  fixes k :: literal
  assumes m: "case r of Ok h \<Rightarrow> yields (decode_literal L (k = Incremental)) h d rest dc
    | Err e \<Rightarrow> fst (decode_literal L (k = Incremental) dc) = Err e | Panic \<Rightarrow> True"
    and a: "agrees limit t d"
    and kind: "kind = (case k of Incremental \<Rightarrow> LiteralWithIndexing
      | Without \<Rightarrow> LiteralWithoutIndexing | Never \<Rightarrow> LiteralNeverIndexed)"
  shows "case rbind r (\<lambda>h. Ok (Some h, remember k h t)) of
      Ok (h, t') \<Rightarrow> \<exists>d'. yields (decode_one L cr kind) h d' rest dc \<and> agrees limit t' d'
        \<and> hd_max_size_update d' = hd_max_size_update d
    | Err e \<Rightarrow> fst (decode_one L cr kind dc) = Err e | Panic \<Rightarrow> True"
proof (cases r)
  case (Ok h)
  with m have l: "yields (decode_literal L (k = Incremental)) h d rest dc" by simp
  let ?d = "if k = Incremental then d\<lparr>hd_table := dt_insert h (hd_table d)\<rparr> else d"
  have "agrees limit (remember k h t) ?d"
    using a by (cases k) (auto simp: agrees_def dyn_insert_ok dt_insert_ok)
  moreover have "yields (decode_one L cr kind) (Some h) ?d rest dc"
  proof (cases "k = Incremental")
    case True
    with l have "yields (decode_literal L True) h d rest dc" by simp
    then have "yields (sbind (decode_literal L True) (\<lambda>entry. sbind (table_insert entry)
        (\<lambda>_. sbind (on_cursor consume) (\<lambda>_. sret (Some entry))))) (Some h)
        (d\<lparr>hd_table := dt_insert h (hd_table d)\<rparr>) rest dc"
      by (rule yields_sbind)
        (intro yields_sbind [OF yields_insert] yields_sbind [OF yields_consume] yields_sret)
    then show ?thesis using True kind by simp
  next
    case False
    with l have "yields (decode_literal L False) h d rest dc" by simp
    then have "yields (sbind (decode_literal L False)
        (\<lambda>entry. sbind (on_cursor consume) (\<lambda>_. sret (Some entry)))) (Some h) d rest dc"
      by (rule yields_sbind) (intro yields_sbind [OF yields_consume] yields_sret)
    then show ?thesis using False kind by (cases k) auto
  qed
  ultimately show ?thesis using Ok by auto
next
  case (Err e)
  with m kind show ?thesis by (cases k) (auto simp: sbind_def split: prod.split)
qed simp

lemma decode_one_at:
  assumes at: "at_rest d (rep_bytes r @ rest) dc" and ok: "rep_ok r" and a: "agrees limit t d"
  shows "case meaning L limit cr r t of
      Ok (h, t') \<Rightarrow> \<exists>d'. yields (decode_one L cr (rep_kind r)) h d' rest dc \<and> agrees limit t' d'
        \<and> hd_max_size_update d' = hd_max_size_update d
    | Err e \<Rightarrow> fst (decode_one L cr (rep_kind r) dc) = Err e | Panic \<Rightarrow> True"
proof (cases r)
  case (RIndexed i)
  have i: "yields (on_cursor (decode_int 7)) i d rest dc"
    using at ok RIndexed by (intro yields_int) (auto simp: prefix_masks)
  have t: "dyn_of (hd_table d) = t" using a by (simp add: agrees_def)
  show ?thesis
  proof (cases "dyn_get i t")
    case (Ok h)
    then have "yields (table_get i) h d rest dc" if "at_rest d rest dc" for dc
      using that t by (simp add: yields_def table_get_at)
    then have "yields decode_indexed h d rest dc"
      unfolding decode_indexed_def by (intro yields_sbind [OF i])
    then have "yields (decode_one L cr Indexed) (Some h) d rest dc"
      by (auto intro!: yields_sbind yields_consume yields_sret)
    with Ok a RIndexed show ?thesis by auto
  next
    case (Err e)
    have "fst (decode_indexed dc) = Err e"
      unfolding decode_indexed_def by (rule fails_sbind [OF i]) (simp add: table_get_at t Err)
    with Err RIndexed show ?thesis by (auto simp: sbind_def split: prod.split)
  qed (simp add: RIndexed)
next
  case (RNamed k i v)
  have "at_rest d (int_bytes i (literal_prefix k) (literal_pattern k) @ hs_bytes v @ rest) dc"
    using at RNamed by simp
  from decode_literal_named [OF this, of L] ok RNamed a
  have "case rbind (dyn_get i t) (\<lambda>e. into_entry L (header_name e) (hs_value v)) of
      Ok h \<Rightarrow> yields (decode_literal L (k = Incremental)) h d rest dc
    | Err e \<Rightarrow> fst (decode_literal L (k = Incremental) dc) = Err e | Panic \<Rightarrow> True"
    by (simp add: agrees_def)
  from decode_one_literal [OF this a refl, of cr] show ?thesis
    unfolding RNamed rep_kind.simps meaning.simps rbind_assoc .
next
  case (RNew k n v)
  have "at_rest d (int_bytes 0 (literal_prefix k) (literal_pattern k) @ hs_bytes n @ hs_bytes v @ rest) dc"
    using at RNew by simp
  from decode_literal_new [OF this, of L] ok RNew
  have "case header_new L (hs_value n) (hs_value v) of
      Ok h \<Rightarrow> yields (decode_literal L (k = Incremental)) h d rest dc
    | Err e \<Rightarrow> fst (decode_literal L (k = Incremental) dc) = Err e | Panic \<Rightarrow> True"
    by simp
  from decode_one_literal [OF this a refl, of cr] show ?thesis
    unfolding RNew rep_kind.simps meaning.simps .
next
  case (RSize n)
  show ?thesis
  proof (cases cr)
    case True
    have i: "yields (on_cursor (decode_int 5)) n d rest dc"
      using at ok RSize by (intro yields_int) (auto simp: prefix_masks)
    have limit: "hd_last_max_update d = limit" using a by (simp add: agrees_def)
    show ?thesis
    proof (cases "n > limit")
      case True2: True
      have "fst (process_size_update dc) = Err InvalidMaxDynamicSize"
        unfolding process_size_update_def
        by (rule fails_sbind [OF i]) (auto simp: at_rest_def limit True2)
      with RSize True True2 show ?thesis by (auto simp: sbind_def split: prod.split)
    next
      case False
      obtain tab where tab: "dt_set_max_size n (hd_table d) = Ok tab"
        "dyn_of tab = dyn_resize n t" "dt_ok tab"
        using dyn_resize_ok [of "hd_table d" n] a by (auto simp: agrees_def)
      let ?d = "d\<lparr>hd_table := tab\<rparr>"
      have "yields process_size_update () ?d rest dc"
        unfolding process_size_update_def
        by (rule yields_sbind [OF i]) (auto simp: at_rest_def limit False tab(1) yields_def)
      then have "yields (decode_one L cr SizeUpdate) None ?d rest dc"
        using True by (auto intro!: yields_sbind yields_consume yields_sret)
      moreover have "agrees limit (dyn_resize n t) ?d" using tab limit by (simp add: agrees_def)
      ultimately show ?thesis using RSize True False by auto
    qed
  qed (simp add: RSize)
qed

text \<open>The loop: the closure has seen the headers of the block, in their order, and no byte is left.\<close>

lemma consume_pos: "on_cursor consume dc = (Ok x, dc') \<Longrightarrow> cur_pos (snd dc') = 0"
  by (auto simp: on_cursor_def consume_def take_bytes_def cursor_new_def sbind_eq_Ok
      split: prod.splits if_splits result.splits)

lemma decode_one_pos: "decode_one L cr r dc = (Ok x, dc') \<Longrightarrow> cur_pos (snd dc') = 0"
  by (cases r) (auto simp: sbind_eq_Ok dest: consume_pos split: if_splits)

lemma decode_loop_at:
  assumes "at_rest d (concat (map rep_bytes rs)) dc" "list_all rep_ok rs" "agrees limit t d"
    "cur_pos (snd dc) = 0"
  shows "case block_meaning L limit cr rs t of
      Ok (hs, t') \<Rightarrow> \<exists>d' dc'. decode_loop L f cr (dc, acc) = (Ok (), dc', fold f hs acc)
        \<and> at_rest d' [] dc' \<and> agrees limit t' d' \<and> cur_data (snd dc') = []
        \<and> hd_max_size_update d' = hd_max_size_update d
    | Err e \<Rightarrow> fst (decode_loop L f cr (dc, acc)) = Err e | Panic \<Rightarrow> True"
  using assms
proof (induction rs arbitrary: d dc cr t acc)
  case Nil
  then have "peek_u8 (snd dc) = None"
    by (simp add: at_rest_def peek_u8_eq_None_iff)
  then have "decode_loop L f cr (dc, acc) = (Ok (), dc, acc)"
    by (simp add: decode_loop.simps [of L f cr dc] del: peek_u8_eq_None_iff)
  moreover have "cur_data (snd dc) = []" using Nil by (simp add: at_rest_def cur_rest_def)
  ultimately show ?case using Nil by auto
next
  case (Cons r rs)
  let ?rest = "concat (map rep_bytes rs)"
  have at: "at_rest d (rep_bytes r @ ?rest) dc" using Cons.prems(1) by simp
  obtain b bs where b: "cur_rest (snd dc) = b # bs" "representation_load b = Ok (rep_kind r)"
    using rep_bytes_Cons [of r] at by (auto simp: at_rest_def)
  have ok: "rep_ok r" "list_all rep_ok rs" using Cons.prems(2) by auto
  note one = decode_one_at [OF at ok(1) Cons.prems(3), of L cr]
  note step = decode_loop.simps [of L f cr dc acc]
  show ?case
  proof (cases "meaning L limit cr r t")
    case (Ok p)
    then obtain h t1 where p: "meaning L limit cr r t = Ok (h, t1)" by (cases p) auto
    with one obtain d1 dc1 where 1: "decode_one L cr (rep_kind r) dc = (Ok h, dc1)"
      "at_rest d1 ?rest dc1" "agrees limit t1 d1" "hd_max_size_update d1 = hd_max_size_update d"
      by (auto simp: yields_def)
    note IH = Cons.IH [OF 1(2) ok(2) 1(3) decode_one_pos [OF 1(1)]]
    show ?thesis
    proof (cases h)
      case None
      with 1 b have "decode_loop L f cr (dc, acc) = decode_loop L f cr (dc1, acc)" by (simp add: step)
      with IH [of cr acc] p None 1(4) show ?thesis
        by (auto split: result.splits)
    next
      case (Some e)
      with 1 b have "decode_loop L f cr (dc, acc) = decode_loop L f False (dc1, f e acc)"
        by (simp add: step)
      with IH [of False "f e acc"] p Some 1(4) show ?thesis
        by (auto split: result.splits)
    qed
  next
    case (Err e)
    with one b show ?thesis
      by (cases "decode_one L cr (rep_kind r) dc") (auto simp: step)
  qed simp
qed

section \<open>The decoder computes the meaning\<close>

lemma dyn_get_no_panic: "dyn_get i t \<noteq> Panic"
  by (cases t) (auto simp: get_static_def)

lemma meaning_no_panic: "meaning L limit cr r t \<noteq> Panic"
  by (cases r)
    (auto simp: rbind_eq_Panic dyn_get_no_panic into_entry_no_panic header_new_no_panic)

lemma block_meaning_no_panic: "block_meaning L limit cr rs t \<noteq> Panic"
  by (induction rs arbitrary: cr t)
    (auto simp: rbind_eq_Panic meaning_no_panic split: prod.splits)

text \<open>The limit on table sizes in force when a block is read.\<close>

definition size_limit :: "hpack_decoder \<Rightarrow> nat" where
  "size_limit d = (case hd_max_size_update d of Some n \<Rightarrow> n | None \<Rightarrow> hd_last_max_update d)"

text \<open>A decoder between two blocks: its table is \<open>t\<close>, table sizes up to \<open>limit\<close> are allowed.\<close>

definition decoder_at :: "dyn \<Rightarrow> nat \<Rightarrow> hpack_decoder \<Rightarrow> bool" where
  "decoder_at t limit d \<longleftrightarrow> dyn_of (hd_table d) = t \<and> dt_ok (hd_table d) \<and> hd_buffer d = []
     \<and> size_limit d = limit"

lemma decoder_at_new: "decoder_at ([], n) n (hpack_decoder_new n)"
  by (simp add: decoder_at_def hpack_decoder_new_def dt_new_def dt_ok_def size_limit_def dyn_of_def)

lemma hpack_decode_at:
  assumes "list_all rep_ok rs" "decoder_at t limit d"
  shows "case block_meaning L limit True rs t of
      Ok (hs, t') \<Rightarrow> \<exists>d' c'. hpack_decode L f ((d, cursor_new (concat (map rep_bytes rs))), acc) =
          (Ok (), (d', c'), fold f hs acc) \<and> cur_data c' = [] \<and> decoder_at t' limit d'
    | Err e \<Rightarrow> fst (hpack_decode L f ((d, cursor_new (concat (map rep_bytes rs))), acc)) = Err e
    | Panic \<Rightarrow> False"
proof -
  let ?b = "concat (map rep_bytes rs)"
  define d1 where "d1 = (case hd_max_size_update d of
     Some n \<Rightarrow> d\<lparr>hd_max_size_update := None, hd_last_max_update := n\<rparr> | None \<Rightarrow> d)"
  have run: "hpack_decode L f ((d, cursor_new ?b), acc) = decode_loop L f True ((d1, cursor_new ?b), acc)"
    by (simp add: hpack_decode_def d1_def Let_def)
  have none: "hd_max_size_update d1 = None" by (simp add: d1_def split: option.split)
  have 1: "at_rest d1 ?b (d1, cursor_new ?b)"
    using assms(2)
    by (simp add: at_rest_def d1_def cur_rest_def cursor_new_def decoder_at_def split: option.split)
  have 2: "agrees limit t d1"
    using assms(2) by (simp add: agrees_def d1_def size_limit_def decoder_at_def split: option.splits)
  have 3: "cur_pos (snd (d1, cursor_new ?b)) = 0" by (simp add: cursor_new_def)
  note * = decode_loop_at [OF 1 assms(1) 2 3, where L = L and cr = True and f = f and acc = acc]
  show ?thesis
  proof (cases "block_meaning L limit True rs t")
    case (Ok p)
    then obtain hs t' where p: "block_meaning L limit True rs t = Ok (hs, t')" by (cases p) auto
    with * obtain d' dc' where l: "decode_loop L f True ((d1, cursor_new ?b), acc) = (Ok (), dc', fold f hs acc)"
      "at_rest d' [] dc'" "agrees limit t' d'" "cur_data (snd dc') = []" "hd_max_size_update d' = None"
      using none by auto
    then show ?thesis
      using p by (cases dc') (auto simp: run at_rest_def agrees_def decoder_at_def size_limit_def)
  next
    case (Err e)
    with * show ?thesis by (simp add: run)
  qed (simp add: block_meaning_no_panic)
qed

lemma fold_snoc: "fold (\<lambda>h acc. acc @ [h]) hs acc = acc @ hs"
  by (induction hs arbitrary: acc) auto

text \<open>
  C4: on the bytes of a header block (any sequence of
  indexed fields, literals with plain or Huffman-coded strings, and table size updates, in HPACK's
  format) the decoder hands its caller exactly the fields the block means, in order, reads the
  block to its end and leaves the dynamic table HPACK prescribes; when the block has no meaning
  it reports that error. It never panics.
\<close>

theorem hpack_decode_meaning:
  assumes "list_all rep_ok rs" "dt_ok (hd_table d)" "hd_buffer d = []"
  shows "case block_meaning L (size_limit d) True rs (dyn_of (hd_table d)) of
      Ok (hs, t) \<Rightarrow> \<exists>d' c'.
        hpack_decode L (\<lambda>h acc. acc @ [h]) ((d, cursor_new (concat (map rep_bytes rs))), []) =
          (Ok (), (d', c'), hs)
        \<and> cur_data c' = [] \<and> decoder_at t (size_limit d) d'
    | Err e \<Rightarrow>
        fst (hpack_decode L (\<lambda>h acc. acc @ [h])
          ((d, cursor_new (concat (map rep_bytes rs))), [])) = Err e
    | Panic \<Rightarrow> False"
proof -
  have "decoder_at (dyn_of (hd_table d)) (size_limit d) d"
    using assms(2,3) by (simp add: decoder_at_def)
  from hpack_decode_at [OF assms(1) this, of L "\<lambda>h acc. acc @ [h]" "[]"] show ?thesis
    by (auto simp: fold_snoc split: result.splits)
qed

text \<open>A block with \<open>:method: GET\<close>, the new field \<open>x: y\<close>, and the new field again from the table.\<close>

definition any_lib :: http_lib where
  "any_lib = \<lparr>header_name_ok = (\<lambda>b. b \<noteq> []), header_value_ok = (\<lambda>_. True),
     method_ok = (\<lambda>b. b \<noteq> []), status_ok = (\<lambda>b. length b = 3)\<rparr>"

lemma hpack_decode_meaning_witness:
  "\<exists>d' c'. hpack_decode any_lib (\<lambda>h acc. acc @ [h])
      ((hpack_decoder_new 4096, cursor_new [0x82, 0x40, 1, 0x78, 1, 0x79, 0xBE]), []) =
    (Ok (), (d', c'), [Header_Method (ascii ''GET''),
      Header_Field [0x78] \<lparr>hv_bytes = [0x79], hv_sensitive = False\<rparr>,
      Header_Field [0x78] \<lparr>hv_bytes = [0x79], hv_sensitive = False\<rparr>])"
proof -
  let ?rs = "[RIndexed 2, RNew Incremental (Plain [0x78]) (Plain [0x79]), RIndexed 62]"
  have b: "concat (map rep_bytes ?rs) = [0x82, 0x40, 1, 0x78, 1, 0x79, 0xBE]"
    by (simp add: int_bytes_def encode_int_one_byte_def)
  show ?thesis
    using hpack_decode_meaning [of ?rs "hpack_decoder_new 4096" any_lib]
    unfolding b
    by (auto simp: hpack_decoder_new_def dt_new_def dt_ok_def size_limit_def dyn_of_def any_lib_def
        header_new_def header_value_from_bytes_def get_static_def static_defs ascii_def)
qed

section \<open>A plain name cut from its value\<close>

text \<open>
  \<open>take\<close> splits the bytes of a plain name off the buffer before the value is known to be there.
  When a block is cut between them the decoder asks for more bytes, but the name is no
  longer in the buffer for the second attempt: the same two fragments decode when they come
  as one.
\<close>

lemma plain_name_lost:
  "case hpack_decode any_lib (\<lambda>h acc. acc @ [h])
      ((hpack_decoder_new 4096, cursor_new [0x40, 1, 0x78]), []) of
    (r, (d', c'), hs) \<Rightarrow> r = Err (NeedMore UnexpectedEndOfStream) \<and> hs = [] \<and> cur_data c' = []"
  by code_simp

end
