(* ===== verification/Flow_Control.thy ===== *)
theory Flow_Control
  imports Frame_Head "HOL-Library.Signed_Division"
begin

text \<open>
  Flow-control windows (\<open>h2/proto/streams/flow_control.rs\<close>). A \<open>Window\<close> is an \<open>i32\<close>, a
  \<open>WindowSize\<close> a \<open>u32\<close>; both are 32-bit words here, read by \<open>sint\<close> and by \<open>unat\<close>, and the
  arithmetic wraps, as it does in a release build. The lemmas give the cases in which no
  wrap-around happens: then the windows behave as integers.
\<close>

section \<open>Windows\<close>

definition MAX_WINDOW_SIZE :: u32 where
  "MAX_WINDOW_SIZE = push_bit 31 1 - 1"

definition window_as_size :: "i32 \<Rightarrow> u32" where
  "window_as_size w = (if w <s 0 then 0 else w)"

definition window_checked_size :: "i32 \<Rightarrow> (u32, 'e) result" where
  "window_checked_size w = (if 0 \<le>s w then Ok w else Panic)"

text \<open>\<open>PartialOrd<WindowSize> for Window\<close> and \<open>PartialOrd<Window> for WindowSize\<close>.\<close>

definition window_less_size :: "i32 \<Rightarrow> u32 \<Rightarrow> bool" where
  "window_less_size w n \<longleftrightarrow> (if w <s 0 then True else w < n)"

definition size_less_window :: "u32 \<Rightarrow> i32 \<Rightarrow> bool" where
  "size_less_window n w \<longleftrightarrow> (if w <s 0 then False else n < w)"

definition size_le_window :: "u32 \<Rightarrow> i32 \<Rightarrow> bool" where
  "size_le_window n w \<longleftrightarrow> (if w <s 0 then False else n \<le> w)"

section \<open>The controller\<close>

record flow_control =
  fc_window_size :: i32
  fc_available :: i32

definition flow_new :: flow_control where
  "flow_new = \<lparr>fc_window_size = 0, fc_available = 0\<rparr>"

definition flow_window_size :: "flow_control \<Rightarrow> u32" where
  "flow_window_size fc = window_as_size (fc_window_size fc)"

definition has_unavailable :: "flow_control \<Rightarrow> bool" where
  "has_unavailable fc \<longleftrightarrow>
     (if window_less_size (fc_window_size fc) 0 then False
      else fc_available fc <s fc_window_size fc)"

definition claim_capacity :: "u32 \<Rightarrow> flow_control \<Rightarrow> flow_control" where
  "claim_capacity capacity fc = fc\<lparr>fc_available := fc_available fc - capacity\<rparr>"

definition flow_assign_capacity :: "u32 \<Rightarrow> flow_control \<Rightarrow> flow_control" where
  "flow_assign_capacity capacity fc = fc\<lparr>fc_available := fc_available fc + capacity\<rparr>"

text \<open>Division of \<open>i32\<close> truncates towards zero.\<close>

definition i32_div :: "i32 \<Rightarrow> i32 \<Rightarrow> i32" where
  "i32_div a b = word_of_int (sint a sdiv sint b)"

definition UNCLAIMED_NUMERATOR :: i32 where
  "UNCLAIMED_NUMERATOR = 1"

definition UNCLAIMED_DENOMINATOR :: i32 where
  "UNCLAIMED_DENOMINATOR = 2"

definition unclaimed_capacity :: "flow_control \<Rightarrow> u32 option" where
  "unclaimed_capacity fc =
     (let available = fc_available fc
      in if available \<le>s fc_window_size fc then None
         else
           let unclaimed = available - fc_window_size fc;
               threshold = i32_div (fc_window_size fc) UNCLAIMED_DENOMINATOR * UNCLAIMED_NUMERATOR
           in if unclaimed <s threshold then None else Some unclaimed)"

text \<open>\<open>overflowing_add\<close> of the standard library.\<close>

definition overflowing_add :: "i32 \<Rightarrow> i32 \<Rightarrow> i32 \<times> bool" where
  "overflowing_add a b = (a + b, sint (a + b) \<noteq> sint a + sint b)"

definition inc_window :: "u32 \<Rightarrow> flow_control \<Rightarrow> (flow_control, reason) result" where
  "inc_window sz fc =
     (case overflowing_add (fc_window_size fc) sz of (val, overflow) \<Rightarrow>
        if overflow then Err FLOW_CONTROL_ERROR
        else if MAX_WINDOW_SIZE <s val then Err FLOW_CONTROL_ERROR
        else Ok (fc\<lparr>fc_window_size := val\<rparr>))"

definition dec_send_window :: "u32 \<Rightarrow> flow_control \<Rightarrow> flow_control" where
  "dec_send_window sz fc = fc\<lparr>fc_window_size := fc_window_size fc - sz\<rparr>"

definition dec_recv_window :: "u32 \<Rightarrow> flow_control \<Rightarrow> flow_control" where
  "dec_recv_window sz fc =
     fc\<lparr>fc_window_size := fc_window_size fc - sz, fc_available := fc_available fc - sz\<rparr>"

definition flow_send_data :: "u32 \<Rightarrow> flow_control \<Rightarrow> (flow_control, 'e) result" where
  "flow_send_data sz fc =
     rbind (assert_that (size_le_window sz (fc_window_size fc))) (\<lambda>_.
       Ok (fc\<lparr>fc_window_size := fc_window_size fc - sz, fc_available := fc_available fc - sz\<rparr>))"

section \<open>Windows as integers\<close>

abbreviation MAX_WINDOW :: int where
  "MAX_WINDOW \<equiv> 2 ^ 31 - 1"

lemma sint_i32_range: "- (2 ^ 31) \<le> sint (w :: i32)" "sint (w :: i32) \<le> MAX_WINDOW"
  using sint_greater_eq [of w] sint_less [of w] by simp_all

lemma sint_add_i32:
  "- (2 ^ 31) \<le> sint a + sint b \<Longrightarrow> sint a + sint b \<le> MAX_WINDOW \<Longrightarrow>
     sint (a + b :: i32) = sint a + sint b"
  by (simp add: sint_word_ariths signed_take_bit_int_eq_self)

lemma sint_diff_i32:
  "- (2 ^ 31) \<le> sint a - sint b \<Longrightarrow> sint a - sint b \<le> MAX_WINDOW \<Longrightarrow>
     sint (a - b :: i32) = sint a - sint b"
  by (simp add: sint_word_ariths signed_take_bit_int_eq_self)

lemma sint_size:
  assumes "uint (n :: u32) < 2 ^ 31"
  shows "sint n = uint n"
proof -
  have "- (2 ^ 31) \<le> uint n" by (rule order_trans [of _ 0]) simp_all
  with assms have "signed_take_bit 31 (uint n) = uint n"
    by (intro signed_take_bit_int_eq_self)
  then show ?thesis by (simp add: sint_uint)
qed

lemma sint_nonneg:
  assumes "0 \<le> sint (w :: i32)"
  shows "sint w = uint w"
proof -
  have "take_bit 32 (sint w) = sint w"
    using assms sint_i32_range(2) [of w] by (intro take_bit_int_eq_self) simp_all
  then show ?thesis by (simp add: uint_sint)
qed

lemma MAX_WINDOW_SIZE_eq: "MAX_WINDOW_SIZE = 0x7FFFFFFF"
  by (simp add: MAX_WINDOW_SIZE_def)

lemma no_window_above_MAX: "\<not> MAX_WINDOW_SIZE <s (w :: i32)"
  using sint_i32_range(2) [of w] by (simp add: word_sless_alt MAX_WINDOW_SIZE_eq)

lemma size_le_window_iff: "size_le_window n w \<longleftrightarrow> uint n \<le> sint w"
proof (cases "w <s 0")
  case False
  then have "0 \<le> sint w" by (simp add: word_sless_alt)
  then have "sint w = uint w" by (rule sint_nonneg)
  with False show ?thesis by (simp add: size_le_window_def word_le_def)
next
  case True
  then have "sint w < 0" by (simp add: word_sless_alt)
  moreover have "0 \<le> uint n" by simp
  ultimately have "\<not> uint n \<le> sint w" by linarith
  with True show ?thesis by (simp add: size_le_window_def)
qed

section \<open>The controller refines integer windows\<close>

text \<open>
  The specification: the window and the capacity are integers; a window over \<open>2 ^ 31 - 1\<close>
  is an error; data larger than the window is a panic.
\<close>

datatype flow_op =
    Inc_Window u32
  | Dec_Send u32
  | Dec_Recv u32
  | Assign u32
  | Claim u32
  | Send_Data u32

fun op_size :: "flow_op \<Rightarrow> u32" where
  "op_size (Inc_Window n) = n"
| "op_size (Dec_Send n) = n"
| "op_size (Dec_Recv n) = n"
| "op_size (Assign n) = n"
| "op_size (Claim n) = n"
| "op_size (Send_Data n) = n"

fun flow_step :: "flow_op \<Rightarrow> flow_control \<Rightarrow> (flow_control, reason) result" where
  "flow_step (Inc_Window n) fc = inc_window n fc"
| "flow_step (Dec_Send n) fc = Ok (dec_send_window n fc)"
| "flow_step (Dec_Recv n) fc = Ok (dec_recv_window n fc)"
| "flow_step (Assign n) fc = Ok (flow_assign_capacity n fc)"
| "flow_step (Claim n) fc = Ok (claim_capacity n fc)"
| "flow_step (Send_Data n) fc = flow_send_data n fc"

fun window_step :: "flow_op \<Rightarrow> int \<times> int \<Rightarrow> (int \<times> int, reason) result" where
  "window_step (Inc_Window n) (w, a) =
     (if w + uint n > MAX_WINDOW then Err FLOW_CONTROL_ERROR else Ok (w + uint n, a))"
| "window_step (Dec_Send n) (w, a) = Ok (w - uint n, a)"
| "window_step (Dec_Recv n) (w, a) = Ok (w - uint n, a - uint n)"
| "window_step (Assign n) (w, a) = Ok (w, a + uint n)"
| "window_step (Claim n) (w, a) = Ok (w, a - uint n)"
| "window_step (Send_Data n) (w, a) = (if uint n \<le> w then Ok (w - uint n, a - uint n) else Panic)"

definition windows :: "flow_control \<Rightarrow> int \<times> int" where
  "windows fc = (sint (fc_window_size fc), sint (fc_available fc))"

fun in_i32 :: "int \<times> int \<Rightarrow> bool" where
  "in_i32 (w, a) \<longleftrightarrow> - (2 ^ 31) \<le> w \<and> w \<le> MAX_WINDOW \<and> - (2 ^ 31) \<le> a \<and> a \<le> MAX_WINDOW"

lemma inc_window_eq:
  assumes "uint n < 2 ^ 31"
  shows "inc_window n fc =
    (if sint (fc_window_size fc) + uint n > MAX_WINDOW then Err FLOW_CONTROL_ERROR
     else Ok (fc\<lparr>fc_window_size := fc_window_size fc + n\<rparr>))"
proof (cases "sint (fc_window_size fc) + uint n > MAX_WINDOW")
  case True
  then have "sint (fc_window_size fc + n) \<noteq> sint (fc_window_size fc) + sint n"
    using sint_i32_range(2) [of "fc_window_size fc + n"] sint_size [OF assms] by linarith
  with True show ?thesis by (simp add: inc_window_def overflowing_add_def)
next
  case False
  moreover have "- (2 ^ 31) \<le> sint (fc_window_size fc) + uint n"
    by (rule order_trans [OF sint_i32_range(1) [of "fc_window_size fc"]]) simp
  ultimately have "sint (fc_window_size fc + n) = sint (fc_window_size fc) + sint n"
    by (intro sint_add_i32) (simp_all add: sint_size [OF assms])
  with False show ?thesis by (simp add: inc_window_def overflowing_add_def no_window_above_MAX)
qed

lemma flow_step_refines:
  assumes "uint (op_size op) < 2 ^ 31"
    "case window_step op (windows fc) of Ok s \<Rightarrow> in_i32 s | _ \<Rightarrow> True"
  shows "map_ok windows (flow_step op fc) = window_step op (windows fc)"
proof -
  have n: "sint (op_size op) = uint (op_size op)" by (rule sint_size [OF assms(1)])
  show ?thesis
  proof (cases op)
    case (Inc_Window n)
    with assms n show ?thesis
      by (auto simp: inc_window_eq windows_def sint_add_i32 split: if_splits)
  next
    case (Send_Data n)
    with assms n show ?thesis
      by (auto simp: flow_send_data_def size_le_window_iff windows_def sint_diff_i32 split: if_splits)
  qed (use assms n in \<open>auto simp: windows_def dec_send_window_def dec_recv_window_def
      flow_assign_capacity_def claim_capacity_def sint_add_i32 sint_diff_i32\<close>)
qed

text \<open>A history of calls: the outcome is that of the specification while its integers stay within \<open>i32\<close>.\<close>

fun stays_in_i32 :: "flow_op list \<Rightarrow> int \<times> int \<Rightarrow> bool" where
  "stays_in_i32 [] s \<longleftrightarrow> True"
| "stays_in_i32 (op # ops) s \<longleftrightarrow>
     (case window_step op s of Ok s \<Rightarrow> in_i32 s \<and> stays_in_i32 ops s | _ \<Rightarrow> True)"

text \<open>
  C7: over any history of calls with sizes that are window sizes, as
  long as the integers of the specification stay in the range of \<open>i32\<close>, the machine words of the
  controller are those integers, and it fails and panics exactly when the specification does: an
  increment over \<open>2 ^ 31 - 1\<close> is a flow-control error, sending more than the window a panic.
\<close>

theorem flow_control_refines:
  assumes "\<forall>op \<in> set ops. uint (op_size op) < 2 ^ 31" "stays_in_i32 ops (windows fc)"
  shows "map_ok windows (run_ops flow_step ops fc) = run_ops window_step ops (windows fc)"
  using assms
proof (induction ops arbitrary: fc)
  case (Cons op ops)
  then have "case window_step op (windows fc) of Ok s \<Rightarrow> in_i32 s | _ \<Rightarrow> True"
    by (auto split: result.splits)
  with Cons.prems(1) have step: "map_ok windows (flow_step op fc) = window_step op (windows fc)"
    by (intro flow_step_refines) auto
  show ?case
  proof (cases "flow_step op fc")
    case (Ok fc')
    with step have "window_step op (windows fc) = Ok (windows fc')" by simp
    with Ok Cons show ?thesis by auto
  next
    case (Err e)
    with step have "window_step op (windows fc) = Err e" by simp
    with Err show ?thesis by simp
  next
    case Panic
    with step have "window_step op (windows fc) = Panic" by simp
    with Panic show ?thesis by simp
  qed
qed simp

lemma flow_control_refines_witness:
  "map_ok windows (run_ops flow_step [Inc_Window 65535, Assign 65535, Send_Data 1000, Inc_Window 0x7FFFFFFF] flow_new)
     = Err FLOW_CONTROL_ERROR
   \<and> map_ok windows (run_ops flow_step [Inc_Window 65535, Dec_Send 65536, Send_Data 0] flow_new) = Panic"
  using flow_control_refines [of "[Inc_Window 65535, Assign 65535, Send_Data 1000, Inc_Window 0x7FFFFFFF]" flow_new]
    flow_control_refines [of "[Inc_Window 65535, Dec_Send 65536, Send_Data 0]" flow_new]
  by (simp add: windows_def flow_new_def)

text \<open>When the receiver announces released capacity: at least half of its window.\<close>

lemma i32_div_2: "sint (i32_div w UNCLAIMED_DENOMINATOR * UNCLAIMED_NUMERATOR) = sint w sdiv 2"
proof -
  have "- (2 ^ 31) \<le> sint w sdiv 2" "sint w sdiv 2 \<le> MAX_WINDOW"
    using sint_i32_range [of w] by (auto simp: signed_divide_int_def sgn_if)
  then have "signed_take_bit 31 (sint w sdiv 2) = sint w sdiv 2"
    by (intro signed_take_bit_int_eq_self) simp_all
  then have "sint (word_of_int (sint w sdiv 2) :: i32) = sint w sdiv 2"
    by (simp add: sint_sbintrunc')
  then show ?thesis by (simp add: i32_div_def UNCLAIMED_DENOMINATOR_def UNCLAIMED_NUMERATOR_def)
qed

lemma unclaimed_capacity_eq:
  assumes "windows fc = (w, a)" "a - w \<le> MAX_WINDOW"
  shows "case unclaimed_capacity fc of
      None \<Rightarrow> a \<le> w \<or> a - w < w sdiv 2
    | Some n \<Rightarrow> w < a \<and> uint n = a - w \<and> w sdiv 2 \<le> a - w"
proof (cases "a \<le> w")
  case True
  with assms(1) show ?thesis
    by (auto simp: unclaimed_capacity_def windows_def word_sle_eq)
next
  case False
  have d: "sint (fc_available fc - fc_window_size fc) = a - w"
    using assms False by (auto simp: windows_def intro!: trans [OF sint_diff_i32])
  moreover from d False have "sint (fc_available fc - fc_window_size fc) = uint (fc_available fc - fc_window_size fc)"
    by (intro sint_nonneg) simp
  ultimately show ?thesis
    using assms(1) False
    by (auto simp: unclaimed_capacity_def windows_def word_sle_eq word_sless_alt i32_div_2 Let_def
        simp del: sint_uint)
qed

end
