(* ===== verification/H2_Errors.thy ===== *)
theory H2_Errors
  imports Frame_Head
begin

text \<open>
  The errors of the HTTP/2 layers: \<open>h2/codec/error.rs\<close>, \<open>h2/proto/error.rs\<close> and \<open>h2/error.rs\<close>, with the
  conversions between them. An \<open>io::Error\<close> is known by its \<open>kind\<close>; the kinds the code names
  are constructors, any other kind is \<open>Io_Other\<close>.
\<close>

datatype io_error = BrokenPipe | UnexpectedEof | InvalidData | Io_Other nat

datatype recv_error =
    Recv_Connection reason
  | Recv_Stream stream_id reason
  | Recv_Io io_error

datatype user_error =
    InactiveStreamId
  | UnexpectedFrameType
  | PayloadTooBig
  | HeaderTooBig
  | Rejected
  | ReleaseCapacityTooBig
  | OverflowedStreamId
  | MalformedHeaders
  | MissingUriSchemeAndAuthority
  | PollResetAfterSendResponse
  | SendPingWhilePending
  | SendSettingsWhilePending
  | PeerDisabledServerPush

datatype send_error =
    Send_User user_error
  | Send_Connection reason
  | Send_Io io_error

datatype proto_error =
    Proto_Reason reason
  | Proto_Io io_error

datatype h2_error =
    H2_Proto reason
  | H2_User user_error
  | H2_Io io_error

fun shallow_clone :: "proto_error \<Rightarrow> proto_error" where
  "shallow_clone (Proto_Reason r) = Proto_Reason r"
| "shallow_clone (Proto_Io e) = Proto_Io e"

fun recv_error_of_proto :: "proto_error \<Rightarrow> recv_error" where
  "recv_error_of_proto (Proto_Reason r) = Recv_Connection r"
| "recv_error_of_proto (Proto_Io e) = Recv_Io e"

fun send_error_of_proto :: "proto_error \<Rightarrow> send_error" where
  "send_error_of_proto (Proto_Reason r) = Send_Connection r"
| "send_error_of_proto (Proto_Io e) = Send_Io e"

fun h2_error_of_proto :: "proto_error \<Rightarrow> h2_error" where
  "h2_error_of_proto (Proto_Reason r) = H2_Proto r"
| "h2_error_of_proto (Proto_Io e) = H2_Io e"

fun h2_error_of_send :: "send_error \<Rightarrow> h2_error" where
  "h2_error_of_send (Send_User e) = H2_User e"
| "h2_error_of_send (Send_Connection r) = H2_Proto r"
| "h2_error_of_send (Send_Io e) = H2_Io e"

fun h2_error_reason :: "h2_error \<Rightarrow> reason option" where
  "h2_error_reason (H2_Proto r) = Some r"
| "h2_error_reason _ = None"

fun h2_error_io :: "h2_error \<Rightarrow> io_error option" where
  "h2_error_io (H2_Io e) = Some e"
| "h2_error_io _ = None"

end
