(* ===== verification/Stream_State.thy ===== *)
theory Stream_State
  imports H2_Errors
begin

text \<open>
  The state machine of a stream (\<open>h2/proto/streams/state.rs\<close>): its transitions with their error
  branches, its queries, and their relation to the state diagram of RFC 7540, section 5.1.
  A transition returns the new state; on an error the state is the old one, since the code
  returns before it assigns.
\<close>

section \<open>States and transitions\<close>

datatype stream_peer = AwaitingHeaders | Streaming

datatype cause =
    Cause_EndStream
  | Cause_Proto reason
  | Cause_LocallyReset reason
  | Cause_Io
  | Cause_Scheduled reason

datatype stream_state =
    Idle
  | ReservedLocal
  | ReservedRemote
  | Open stream_peer stream_peer
  | HalfClosedLocal stream_peer
  | HalfClosedRemote stream_peer
  | Closed cause

fun state_send_open :: "bool \<Rightarrow> stream_state \<Rightarrow> (stream_state, user_error) result" where
  "state_send_open eos Idle =
     Ok (if eos then HalfClosedLocal AwaitingHeaders else Open Streaming AwaitingHeaders)"
| "state_send_open eos (Open AwaitingHeaders remote) =
     Ok (if eos then HalfClosedLocal remote else Open Streaming remote)"
| "state_send_open eos (HalfClosedRemote AwaitingHeaders) =
     Ok (if eos then Closed Cause_EndStream else HalfClosedRemote Streaming)"
| "state_send_open eos ReservedLocal =
     Ok (if eos then Closed Cause_EndStream else HalfClosedRemote Streaming)"
| "state_send_open eos _ = Err UnexpectedFrameType"

text \<open>The flag says whether these are the first headers of the stream.\<close>

fun state_recv_open :: "bool \<Rightarrow> stream_state \<Rightarrow> (bool \<times> stream_state, recv_error) result" where
  "state_recv_open eos Idle =
     Ok (True, if eos then HalfClosedRemote AwaitingHeaders else Open AwaitingHeaders Streaming)"
| "state_recv_open eos ReservedRemote =
     Ok (True, if eos then Closed Cause_EndStream else HalfClosedLocal Streaming)"
| "state_recv_open eos (Open local AwaitingHeaders) =
     Ok (False, if eos then HalfClosedRemote local else Open local Streaming)"
| "state_recv_open eos (HalfClosedLocal AwaitingHeaders) =
     Ok (False, if eos then Closed Cause_EndStream else HalfClosedLocal Streaming)"
| "state_recv_open eos _ = Err (Recv_Connection PROTOCOL_ERROR)"

fun state_reserve_remote :: "stream_state \<Rightarrow> (stream_state, recv_error) result" where
  "state_reserve_remote Idle = Ok ReservedRemote"
| "state_reserve_remote _ = Err (Recv_Connection PROTOCOL_ERROR)"

fun state_reserve_local :: "stream_state \<Rightarrow> (stream_state, user_error) result" where
  "state_reserve_local Idle = Ok ReservedLocal"
| "state_reserve_local _ = Err UnexpectedFrameType"

fun state_recv_close :: "stream_state \<Rightarrow> (stream_state, recv_error) result" where
  "state_recv_close (Open local _) = Ok (HalfClosedRemote local)"
| "state_recv_close (HalfClosedLocal _) = Ok (Closed Cause_EndStream)"
| "state_recv_close _ = Err (Recv_Connection PROTOCOL_ERROR)"

fun state_is_closed :: "stream_state \<Rightarrow> bool" where
  "state_is_closed (Closed _) = True"
| "state_is_closed _ = False"

definition state_recv_reset :: "reason \<Rightarrow> bool \<Rightarrow> stream_state \<Rightarrow> stream_state" where
  "state_recv_reset reason queued s =
     (if state_is_closed s \<and> \<not> queued then s else Closed (Cause_Proto reason))"

definition state_recv_err :: "proto_error \<Rightarrow> stream_state \<Rightarrow> stream_state" where
  "state_recv_err err s =
     (if state_is_closed s then s
      else Closed (case err of Proto_Reason reason \<Rightarrow> Cause_LocallyReset reason | Proto_Io _ \<Rightarrow> Cause_Io))"

definition state_recv_eof :: "stream_state \<Rightarrow> stream_state" where
  "state_recv_eof s = (if state_is_closed s then s else Closed Cause_Io)"

fun state_send_close :: "stream_state \<Rightarrow> (stream_state, 'e) result" where
  "state_send_close (Open _ remote) = Ok (HalfClosedLocal remote)"
| "state_send_close (HalfClosedRemote _) = Ok (Closed Cause_EndStream)"
| "state_send_close _ = Panic"

definition state_set_reset :: "reason \<Rightarrow> stream_state \<Rightarrow> stream_state" where
  "state_set_reset reason s = Closed (Cause_LocallyReset reason)"

definition state_set_scheduled_reset :: "reason \<Rightarrow> stream_state \<Rightarrow> stream_state" where
  "state_set_scheduled_reset reason s = Closed (Cause_Scheduled reason)"

section \<open>Queries\<close>

fun get_scheduled_reset :: "stream_state \<Rightarrow> reason option" where
  "get_scheduled_reset (Closed (Cause_Scheduled reason)) = Some reason"
| "get_scheduled_reset _ = None"

fun is_scheduled_reset :: "stream_state \<Rightarrow> bool" where
  "is_scheduled_reset (Closed (Cause_Scheduled _)) = True"
| "is_scheduled_reset _ = False"

fun is_local_reset :: "stream_state \<Rightarrow> bool" where
  "is_local_reset (Closed (Cause_LocallyReset _)) = True"
| "is_local_reset (Closed (Cause_Scheduled _)) = True"
| "is_local_reset _ = False"

fun is_reset :: "stream_state \<Rightarrow> bool" where
  "is_reset (Closed Cause_EndStream) = False"
| "is_reset (Closed _) = True"
| "is_reset _ = False"

fun is_send_streaming :: "stream_state \<Rightarrow> bool" where
  "is_send_streaming (Open Streaming _) = True"
| "is_send_streaming (HalfClosedRemote Streaming) = True"
| "is_send_streaming _ = False"

fun is_recv_headers :: "stream_state \<Rightarrow> bool" where
  "is_recv_headers Idle = True"
| "is_recv_headers (Open _ AwaitingHeaders) = True"
| "is_recv_headers (HalfClosedLocal AwaitingHeaders) = True"
| "is_recv_headers ReservedRemote = True"
| "is_recv_headers _ = False"

fun is_recv_streaming :: "stream_state \<Rightarrow> bool" where
  "is_recv_streaming (Open _ Streaming) = True"
| "is_recv_streaming (HalfClosedLocal Streaming) = True"
| "is_recv_streaming _ = False"

fun is_recv_closed :: "stream_state \<Rightarrow> bool" where
  "is_recv_closed (Closed _) = True"
| "is_recv_closed (HalfClosedRemote _) = True"
| "is_recv_closed ReservedLocal = True"
| "is_recv_closed _ = False"

fun is_send_closed :: "stream_state \<Rightarrow> bool" where
  "is_send_closed (Closed _) = True"
| "is_send_closed (HalfClosedLocal _) = True"
| "is_send_closed ReservedRemote = True"
| "is_send_closed _ = False"

fun state_is_idle :: "stream_state \<Rightarrow> bool" where
  "state_is_idle Idle = True"
| "state_is_idle _ = False"

fun ensure_recv_open :: "stream_state \<Rightarrow> (bool, proto_error) result" where
  "ensure_recv_open (Closed (Cause_Proto reason)) = Err (Proto_Reason reason)"
| "ensure_recv_open (Closed (Cause_LocallyReset reason)) = Err (Proto_Reason reason)"
| "ensure_recv_open (Closed (Cause_Scheduled reason)) = Err (Proto_Reason reason)"
| "ensure_recv_open (Closed Cause_Io) = Err (Proto_Io BrokenPipe)"
| "ensure_recv_open (Closed Cause_EndStream) = Ok False"
| "ensure_recv_open (HalfClosedRemote _) = Ok False"
| "ensure_recv_open ReservedLocal = Ok False"
| "ensure_recv_open _ = Ok True"

datatype poll_reset = PollReset_AwaitingHeaders | PollReset_Streaming

definition ensure_reason_streaming :: "poll_reset \<Rightarrow> (reason option, h2_error) result" where
  "ensure_reason_streaming mode =
     (case mode of
        PollReset_AwaitingHeaders \<Rightarrow> Err (H2_User PollResetAfterSendResponse)
      | PollReset_Streaming \<Rightarrow> Ok None)"

fun ensure_reason :: "poll_reset \<Rightarrow> stream_state \<Rightarrow> (reason option, h2_error) result" where
  "ensure_reason mode (Closed (Cause_Proto reason)) = Ok (Some reason)"
| "ensure_reason mode (Closed (Cause_LocallyReset reason)) = Ok (Some reason)"
| "ensure_reason mode (Closed (Cause_Scheduled reason)) = Ok (Some reason)"
| "ensure_reason mode (Closed Cause_Io) = Err (h2_error_of_proto (Proto_Io BrokenPipe))"
| "ensure_reason mode (Open Streaming _) = ensure_reason_streaming mode"
| "ensure_reason mode (HalfClosedRemote Streaming) = ensure_reason_streaming mode"
| "ensure_reason mode _ = Ok None"

section \<open>Histories of a stream\<close>

datatype state_op =
    Send_Open bool
  | Recv_Open bool
  | Reserve_Remote
  | Reserve_Local
  | Recv_Close
  | Recv_Reset reason bool
  | Recv_Err proto_error
  | Recv_Eof
  | Send_Close
  | Set_Reset reason
  | Set_Scheduled_Reset reason

fun state_step :: "state_op \<Rightarrow> stream_state \<Rightarrow> (stream_state, user_error + recv_error) result" where
  "state_step (Send_Open eos) s = map_err Inl (state_send_open eos s)"
| "state_step (Recv_Open eos) s = map_err Inr (map_ok snd (state_recv_open eos s))"
| "state_step Reserve_Remote s = map_err Inr (state_reserve_remote s)"
| "state_step Reserve_Local s = map_err Inl (state_reserve_local s)"
| "state_step Recv_Close s = map_err Inr (state_recv_close s)"
| "state_step (Recv_Reset reason queued) s = Ok (state_recv_reset reason queued s)"
| "state_step (Recv_Err err) s = Ok (state_recv_err err s)"
| "state_step Recv_Eof s = Ok (state_recv_eof s)"
| "state_step Send_Close s = state_send_close s"
| "state_step (Set_Reset reason) s = Ok (state_set_reset reason s)"
| "state_step (Set_Scheduled_Reset reason) s = Ok (state_set_scheduled_reset reason s)"

lemmas state_total_defs = state_recv_reset_def state_recv_err_def state_recv_eof_def
  state_set_reset_def state_set_scheduled_reset_def

text \<open>The successful calls of the partial transitions.\<close>

lemma state_send_open_Ok:
  "state_send_open eos s = Ok t \<longleftrightarrow>
     s = Idle \<and> t = (if eos then HalfClosedLocal AwaitingHeaders else Open Streaming AwaitingHeaders)
     \<or> (\<exists>r. s = Open AwaitingHeaders r \<and> t = (if eos then HalfClosedLocal r else Open Streaming r))
     \<or> s \<in> {HalfClosedRemote AwaitingHeaders, ReservedLocal}
       \<and> t = (if eos then Closed Cause_EndStream else HalfClosedRemote Streaming)"
  by (cases "(eos, s)" rule: state_send_open.cases) auto

lemma state_recv_open_Ok:
  "state_recv_open eos s = Ok (initial, t) \<longleftrightarrow>
     s = Idle \<and> initial \<and> t = (if eos then HalfClosedRemote AwaitingHeaders else Open AwaitingHeaders Streaming)
     \<or> s = ReservedRemote \<and> initial \<and> t = (if eos then Closed Cause_EndStream else HalfClosedLocal Streaming)
     \<or> (\<exists>l. s = Open l AwaitingHeaders \<and> \<not> initial \<and> t = (if eos then HalfClosedRemote l else Open l Streaming))
     \<or> s = HalfClosedLocal AwaitingHeaders \<and> \<not> initial
       \<and> t = (if eos then Closed Cause_EndStream else HalfClosedLocal Streaming)"
  by (cases "(eos, s)" rule: state_recv_open.cases) auto

lemma state_close_Ok:
  "state_recv_close s = Ok t \<longleftrightarrow>
     (\<exists>l r. s = Open l r \<and> t = HalfClosedRemote l) \<or> (\<exists>r. s = HalfClosedLocal r \<and> t = Closed Cause_EndStream)"
  "state_send_close s = Ok t \<longleftrightarrow>
     (\<exists>l r. s = Open l r \<and> t = HalfClosedLocal r) \<or> (\<exists>l. s = HalfClosedRemote l \<and> t = Closed Cause_EndStream)"
  "state_reserve_remote s = Ok t \<longleftrightarrow> s = Idle \<and> t = ReservedRemote"
  "state_reserve_local s = Ok t \<longleftrightarrow> s = Idle \<and> t = ReservedLocal"
  by (cases s; auto)+

lemmas state_steps = state_send_open_Ok state_recv_open_Ok state_close_Ok map_ok_eq_Ok
  state_total_defs

section \<open>The state diagram of RFC 7540\<close>

datatype rfc_state =
    Rfc_Idle | Rfc_Reserved_Local | Rfc_Reserved_Remote | Rfc_Open
  | Rfc_Half_Closed_Local | Rfc_Half_Closed_Remote | Rfc_Closed

text \<open>
  The events of the diagram; a reset or the loss of the connection closes the stream from
  any state.
\<close>

datatype rfc_event = Send_H | Recv_H | Send_ES | Recv_ES | Send_PP | Recv_PP | Abort

fun rfc_step :: "rfc_event \<Rightarrow> rfc_state \<Rightarrow> rfc_state option" where
  "rfc_step Send_H Rfc_Idle = Some Rfc_Open"
| "rfc_step Send_H Rfc_Reserved_Local = Some Rfc_Half_Closed_Remote"
| "rfc_step Send_H Rfc_Open = Some Rfc_Open"
| "rfc_step Send_H Rfc_Half_Closed_Remote = Some Rfc_Half_Closed_Remote"
| "rfc_step Recv_H Rfc_Idle = Some Rfc_Open"
| "rfc_step Recv_H Rfc_Reserved_Remote = Some Rfc_Half_Closed_Local"
| "rfc_step Recv_H Rfc_Open = Some Rfc_Open"
| "rfc_step Recv_H Rfc_Half_Closed_Local = Some Rfc_Half_Closed_Local"
| "rfc_step Send_ES Rfc_Open = Some Rfc_Half_Closed_Local"
| "rfc_step Send_ES Rfc_Half_Closed_Remote = Some Rfc_Closed"
| "rfc_step Recv_ES Rfc_Open = Some Rfc_Half_Closed_Remote"
| "rfc_step Recv_ES Rfc_Half_Closed_Local = Some Rfc_Closed"
| "rfc_step Send_PP Rfc_Idle = Some Rfc_Reserved_Local"
| "rfc_step Recv_PP Rfc_Idle = Some Rfc_Reserved_Remote"
| "rfc_step Abort _ = Some Rfc_Closed"
| "rfc_step _ _ = None"

fun rfc_run :: "rfc_event list \<Rightarrow> rfc_state \<Rightarrow> rfc_state option" where
  "rfc_run [] s = Some s"
| "rfc_run (e # es) s = (case rfc_step e s of Some s \<Rightarrow> rfc_run es s | None \<Rightarrow> None)"

fun rfc_of :: "stream_state \<Rightarrow> rfc_state" where
  "rfc_of Idle = Rfc_Idle"
| "rfc_of ReservedLocal = Rfc_Reserved_Local"
| "rfc_of ReservedRemote = Rfc_Reserved_Remote"
| "rfc_of (Open _ _) = Rfc_Open"
| "rfc_of (HalfClosedLocal _) = Rfc_Half_Closed_Local"
| "rfc_of (HalfClosedRemote _) = Rfc_Half_Closed_Remote"
| "rfc_of (Closed _) = Rfc_Closed"

fun events :: "state_op \<Rightarrow> rfc_event list" where
  "events (Send_Open eos) = Send_H # (if eos then [Send_ES] else [])"
| "events (Recv_Open eos) = Recv_H # (if eos then [Recv_ES] else [])"
| "events Reserve_Remote = [Recv_PP]"
| "events Reserve_Local = [Send_PP]"
| "events Recv_Close = [Recv_ES]"
| "events Send_Close = [Send_ES]"
| "events _ = [Abort]"

lemma rfc_run_append:
  "rfc_run (es @ es') s = (case rfc_run es s of Some s \<Rightarrow> rfc_run es' s | None \<Rightarrow> None)"
  by (induction es arbitrary: s) (auto split: option.split)

lemma state_step_rfc:
  assumes "state_step op s = Ok t"
  shows "rfc_run (events op) (rfc_of s) = Some (rfc_of t)"
  using assms by (cases op) (auto simp: state_steps; cases s; auto)+

text \<open>
  C8: in every history of successful calls from a new stream,
  each call is a sequence of events the diagram of RFC 7540 allows, and the state reached is
  the state of the diagram: no call takes an edge the diagram does not have.
\<close>

theorem stream_states_follow_rfc:
  assumes "run_ops state_step ops Idle = Ok s"
  shows "rfc_run (concat (map events ops)) Rfc_Idle = Some (rfc_of s)"
proof -
  have "rfc_run (concat (map events ops)) (rfc_of s0) = Some (rfc_of s)"
    if "run_ops state_step ops s0 = Ok s" for s0
    using that
    by (induction ops arbitrary: s0)
      (auto simp: rbind_eq_Ok rfc_run_append dest!: state_step_rfc)
  from this [OF assms] show ?thesis by simp
qed

lemma stream_states_follow_rfc_witness:
  "rfc_run [Recv_H, Send_H, Recv_ES, Send_ES] Rfc_Idle = Some Rfc_Closed"
  using stream_states_follow_rfc [of "[Recv_Open False, Send_Open False, Recv_Close, Send_Close]"
      "Closed Cause_EndStream"]
  by simp

section \<open>Closing is final\<close>

text \<open>
  A side that is closed stays closed; a closed stream stays closed, and only a local reset or a
  queued reset from the peer replaces its cause.
\<close>

definition closes :: "stream_state \<Rightarrow> stream_state \<Rightarrow> bool" where
  "closes s t \<longleftrightarrow> (is_recv_closed s \<longrightarrow> is_recv_closed t) \<and> (is_send_closed s \<longrightarrow> is_send_closed t)
     \<and> (state_is_closed s \<longrightarrow> state_is_closed t)"

fun replaces_cause :: "state_op \<Rightarrow> bool" where
  "replaces_cause (Recv_Reset _ queued) = queued"
| "replaces_cause (Set_Reset _) = True"
| "replaces_cause (Set_Scheduled_Reset _) = True"
| "replaces_cause _ = False"

lemma state_step_closes: "state_step op s = Ok t \<Longrightarrow> closes s t"
  by (cases op) (auto simp: state_steps closes_def split: if_splits; cases s; auto)+

lemma state_step_closed:
  "state_is_closed s \<Longrightarrow> state_step op s = Ok t \<Longrightarrow> \<not> replaces_cause op \<Longrightarrow> t = s"
  by (cases op) (auto simp: state_steps split: if_splits)

text \<open>
  C9: along any history of successful calls, a side of the
  stream that is closed stays closed and a closed stream stays closed; unless a call sets a reset
  (or the peer's reset is forced by a queued frame) a closed stream does not change at all.
\<close>

theorem stream_closing_is_final:
  assumes "run_ops state_step ops s = Ok t"
  shows "(is_recv_closed s \<longrightarrow> is_recv_closed t) \<and> (is_send_closed s \<longrightarrow> is_send_closed t)
    \<and> (state_is_closed s \<longrightarrow> state_is_closed t)
    \<and> (state_is_closed s \<and> list_all (\<lambda>op. \<not> replaces_cause op) ops \<longrightarrow> t = s)"
  using assms
proof (induction ops arbitrary: s)
  case (Cons op ops)
  then obtain s1 where s1: "state_step op s = Ok s1" "run_ops state_step ops s1 = Ok t"
    by (auto simp: rbind_eq_Ok)
  from state_step_closes [OF s1(1)] state_step_closed [OF _ s1(1)] Cons.IH [OF s1(2)]
  show ?case by (auto simp: closes_def)
qed simp

lemma stream_closing_is_final_witness:
  "is_recv_closed (HalfClosedRemote Streaming) \<and> is_recv_closed (Closed (Cause_Proto CANCEL))"
  using stream_closing_is_final [of "[Recv_Reset CANCEL False]" "HalfClosedRemote Streaming"
      "Closed (Cause_Proto CANCEL)"]
  by (simp add: state_recv_reset_def)

section \<open>The first headers\<close>

text \<open>\<open>initials ops s\<close> counts the calls of \<open>recv_open\<close> that report the first headers of the stream.\<close>

fun initials :: "state_op list \<Rightarrow> stream_state \<Rightarrow> nat" where
  "initials [] s = 0"
| "initials (op # ops) s =
     (case op of
        Recv_Open eos \<Rightarrow> (case state_recv_open eos s of Ok (True, _) \<Rightarrow> 1 | _ \<Rightarrow> 0)
      | _ \<Rightarrow> 0)
     + (case state_step op s of Ok t \<Rightarrow> initials ops t | _ \<Rightarrow> 0)"

definition opened :: "stream_state \<Rightarrow> bool" where
  "opened s \<longleftrightarrow> s \<notin> {Idle, ReservedRemote}"

lemma opened_step: "state_step op s = Ok t \<Longrightarrow> opened s \<Longrightarrow> opened t"
  by (cases op) (auto simp: state_steps opened_def split: if_splits)

lemma opened_not_initial: "opened s \<Longrightarrow> state_recv_open eos s \<noteq> Ok (True, t)"
  by (auto simp: state_recv_open_Ok opened_def)

lemma initials_opened: "opened s \<Longrightarrow> initials ops s = 0"
proof (induction ops arbitrary: s)
  case (Cons op ops)
  have "(case state_recv_open eos s of Ok (True, _) \<Rightarrow> 1 | _ \<Rightarrow> 0) = (0 :: nat)" for eos
    using opened_not_initial [OF Cons.prems, of eos] by (auto split: result.split bool.split)
  moreover have "initials ops t = 0" if "state_step op s = Ok t" for t
    using Cons.IH [OF opened_step [OF that Cons.prems]] .
  ultimately show ?case by (cases op; cases "state_step op s"; simp)
qed simp

text \<open>
  C10: in any history of calls on a stream, \<open>recv_open\<close>
  reports at most once that the headers are the first of the stream, so a stream is counted
  and handed to the application at most once.
\<close>

theorem initial_headers_at_most_once: "initials ops s \<le> 1"
proof (induction ops arbitrary: s)
  case (Cons op ops)
  show ?case
  proof (cases "\<exists>eos t. op = Recv_Open eos \<and> state_recv_open eos s = Ok (True, t)")
    case True
    then obtain eos t where t: "op = Recv_Open eos" "state_recv_open eos s = Ok (True, t)" by blast
    then have "opened t" by (auto simp: state_recv_open_Ok opened_def split: if_splits)
    with t show ?thesis by (simp add: initials_opened)
  next
    case False
    then have "(case state_recv_open eos s of Ok (True, _) \<Rightarrow> 1 | _ \<Rightarrow> 0) = (0 :: nat)"
      if "op = Recv_Open eos" for eos
      using that by (auto split: result.split bool.split)
    then show ?thesis
      using Cons.IH by (cases op; cases "state_step op s"; simp)
  qed
qed simp

end
