(* ===== verification/Frame_Headers.thy ===== *)
theory Frame_Headers
  imports Frame_Control Hpack_Block "HOL-Library.Multiset"
begin

text \<open>
  HEADERS and PUSH_PROMISE frames (\<open>h2/frame/headers.rs\<close>): flags, the layout of the payload, and the
  header block they carry, filled from the HPACK decoder over one or several fragments.

  The type \<open>HeaderMap\<close> of the crate \<open>http\<close> is a parameter: an empty map, \<open>append\<close>, and the list of
  its fields in the order of iteration. \<open>append\<close> panics (here: \<open>None\<close>) when the map is full; \<open>hm_max\<close> is a
  number of fields it takes in any case. \<open>header_map_ok\<close> is its documented behaviour: appending puts
  a value behind the values of the same name and leaves other names alone, and does not panic as long
  as there are fewer than \<open>hm_max\<close> fields.
\<close>

section \<open>Header maps\<close>

record 'm header_map_lib =
  hm_new :: 'm
  hm_append :: "bytes \<Rightarrow> hvalue \<Rightarrow> 'm \<Rightarrow> 'm option"
  hm_list :: "'m \<Rightarrow> (bytes \<times> hvalue) list"
  hm_max :: nat

type_synonym field_list = "(bytes \<times> hvalue) list"

definition values_of :: "bytes \<Rightarrow> field_list \<Rightarrow> hvalue list" where
  "values_of n fs = map snd (filter (\<lambda>f. fst f = n) fs)"

definition header_map_ok :: "'m header_map_lib \<Rightarrow> bool" where
  "header_map_ok H \<longleftrightarrow> hm_list H (hm_new H) = []
     \<and> (\<forall>n n' v m m'. hm_append H n' v m = Some m' \<longrightarrow>
          values_of n (hm_list H m') = values_of n (hm_list H m) @ (if n = n' then [v] else []))
     \<and> (\<forall>n v m. length (hm_list H m) < hm_max H \<longrightarrow> hm_append H n v m \<noteq> None)"

section \<open>Pseudo-headers and header blocks\<close>

record pseudo =
  ps_method :: "bytes option"
  ps_scheme :: "bytes option"
  ps_authority :: "bytes option"
  ps_path :: "bytes option"
  ps_status :: "bytes option"

definition pseudo_default :: pseudo where
  "pseudo_default = \<lparr>ps_method = None, ps_scheme = None, ps_authority = None, ps_path = None,
     ps_status = None\<rparr>"

definition pseudo_response :: "bytes \<Rightarrow> pseudo" where
  "pseudo_response status = pseudo_default\<lparr>ps_status := Some status\<rparr>"

text \<open>The parts of a \<open>Uri\<close> of the crate \<open>http\<close>, as texts.\<close>

record uri_parts =
  uri_scheme :: "bytes option"
  uri_authority :: "bytes option"
  uri_path_and_query :: "bytes option"

definition set_scheme :: "bytes \<Rightarrow> pseudo \<Rightarrow> pseudo" where
  "set_scheme scheme ps = ps\<lparr>ps_scheme := Some scheme\<rparr>"

definition set_authority :: "bytes \<Rightarrow> pseudo \<Rightarrow> pseudo" where
  "set_authority authority ps = ps\<lparr>ps_authority := Some authority\<rparr>"

definition pseudo_request :: "bytes \<Rightarrow> uri_parts \<Rightarrow> pseudo" where
  "pseudo_request method parts =
     (let path = (case uri_path_and_query parts of Some p \<Rightarrow> p | None \<Rightarrow> []);
          path = (if path = [] \<and> method \<noteq> ascii ''OPTIONS'' then ascii ''/'' else path);
          ps = \<lparr>ps_method = Some method, ps_scheme = None, ps_authority = None, ps_path = Some path,
                ps_status = None\<rparr>;
          ps = (case uri_scheme parts of Some s \<Rightarrow> set_scheme s ps | None \<Rightarrow> ps);
          ps = (case uri_authority parts of Some a \<Rightarrow> set_authority a ps | None \<Rightarrow> ps)
      in ps)"

record 'm header_block =
  hb_fields :: 'm
  hb_is_over_size :: bool
  hb_pseudo :: pseudo

definition header_block_new :: "'m header_map_lib \<Rightarrow> 'm header_block" where
  "header_block_new H = \<lparr>hb_fields = hm_new H, hb_is_over_size = False, hb_pseudo = pseudo_default\<rparr>"

definition MAX_HEADER_LENGTH :: nat where
  "MAX_HEADER_LENGTH = 1024 * 16 - 100"

definition decoded_header_size :: "nat \<Rightarrow> nat \<Rightarrow> nat" where
  "decoded_header_size name v = name + v + 32"

text \<open>\<open>pseudo_size!(name)\<close>: the name with its colon.\<close>

definition pseudo_size :: "string \<Rightarrow> bytes option \<Rightarrow> nat" where
  "pseudo_size name v = (case v of Some m \<Rightarrow> decoded_header_size (length name + 1) (length m) | None \<Rightarrow> 0)"

definition field_size :: "bytes \<times> hvalue \<Rightarrow> nat" where
  "field_size = (\<lambda>(name, v). decoded_header_size (length name) (length (hv_bytes v)))"

definition calculate_header_list_size :: "'m header_map_lib \<Rightarrow> 'm header_block \<Rightarrow> nat" where
  "calculate_header_list_size H b =
     pseudo_size ''method'' (ps_method (hb_pseudo b)) + pseudo_size ''scheme'' (ps_scheme (hb_pseudo b))
     + pseudo_size ''status'' (ps_status (hb_pseudo b))
     + pseudo_size ''authority'' (ps_authority (hb_pseudo b))
     + pseudo_size ''path'' (ps_path (hb_pseudo b))
     + sum_list (map field_size (hm_list H (hb_fields b)))"

definition has_too_big_field :: "'m header_map_lib \<Rightarrow> 'm header_block \<Rightarrow> bool" where
  "has_too_big_field H b \<longleftrightarrow>
     (if pseudo_size ''method'' (ps_method (hb_pseudo b)) > MAX_HEADER_LENGTH then True
      else if pseudo_size ''scheme'' (ps_scheme (hb_pseudo b)) > MAX_HEADER_LENGTH then True
      else if pseudo_size ''authority'' (ps_authority (hb_pseudo b)) > MAX_HEADER_LENGTH then True
      else if pseudo_size ''path'' (ps_path (hb_pseudo b)) > MAX_HEADER_LENGTH then True
      else list_ex (\<lambda>f. field_size f > MAX_HEADER_LENGTH) (hm_list H (hb_fields b)))"

section \<open>Loading a header block\<close>

text \<open>
  The variables the closure of \<open>HeaderBlock::load\<close> captures. \<open>stringify!($ident)\<close> in the macro
  \<open>set_pseudo!\<close> names no parameter of the macro (the parameter is \<open>$field\<close>), so it is the literal text
  \<open>$ident\<close>, whatever the field is. \<open>ls_panicked\<close> says that \<open>append\<close> has panicked: what the closure and the
  decoder would do after that is of no consequence, since the outcome of \<open>load\<close> is the panic.
\<close>

record 'm load_state =
  ls_block :: "'m header_block"
  ls_reg :: bool
  ls_malformed :: bool
  ls_size :: nat
  ls_panicked :: bool

definition STRINGIFY_IDENT :: string where
  "STRINGIFY_IDENT = ''$ident''"

definition set_pseudo ::
  "(pseudo \<Rightarrow> bytes option) \<Rightarrow> (bytes \<Rightarrow> pseudo \<Rightarrow> pseudo) \<Rightarrow> bytes \<Rightarrow> nat \<Rightarrow> 'm load_state \<Rightarrow> 'm load_state" where
  "set_pseudo get put v max_header_list_size st =
     (let b = ls_block st in
      if ls_reg st then st\<lparr>ls_malformed := True\<rparr>
      else if get (hb_pseudo b) \<noteq> None then st\<lparr>ls_malformed := True\<rparr>
      else
        let size = ls_size st + decoded_header_size (length STRINGIFY_IDENT + 1) (length v);
            st = st\<lparr>ls_size := size\<rparr>
        in if size < max_header_list_size
           then st\<lparr>ls_block := b\<lparr>hb_pseudo := put v (hb_pseudo b)\<rparr>\<rparr>
           else st\<lparr>ls_block := b\<lparr>hb_is_over_size := True\<rparr>\<rparr>)"

definition CONNECTION_HEADERS :: "bytes list" where
  "CONNECTION_HEADERS = map ascii
     [''connection'', ''transfer-encoding'', ''upgrade'', ''keep-alive'', ''proxy-connection'']"

fun load_header ::
  "'m header_map_lib \<Rightarrow> nat \<Rightarrow> bytes header \<Rightarrow> 'm load_state \<Rightarrow> 'm load_state" where
  "load_header H max_header_list_size (Header_Field name v) st =
     (if name \<in> set CONNECTION_HEADERS then st\<lparr>ls_malformed := True\<rparr>
      else if name = ascii ''te'' \<and> hv_bytes v \<noteq> ascii ''trailers'' then st\<lparr>ls_malformed := True\<rparr>
      else
        let b = ls_block st;
            size = ls_size st + decoded_header_size (length name) (length (hv_bytes v));
            st = st\<lparr>ls_reg := True, ls_size := size\<rparr>
        in if size < max_header_list_size
           then (case hm_append H name v (hb_fields b) of
                   Some fs \<Rightarrow> st\<lparr>ls_block := b\<lparr>hb_fields := fs\<rparr>\<rparr>
                 | None \<Rightarrow> st\<lparr>ls_panicked := True\<rparr>)
           else st\<lparr>ls_block := b\<lparr>hb_is_over_size := True\<rparr>\<rparr>)"
| "load_header H m (Header_Authority v) st = set_pseudo ps_authority (\<lambda>v. ps_authority_update (\<lambda>_. Some v)) v m st"
| "load_header H m (Header_Method v) st = set_pseudo ps_method (\<lambda>v. ps_method_update (\<lambda>_. Some v)) v m st"
| "load_header H m (Header_Scheme v) st = set_pseudo ps_scheme (\<lambda>v. ps_scheme_update (\<lambda>_. Some v)) v m st"
| "load_header H m (Header_Path v) st = set_pseudo ps_path (\<lambda>v. ps_path_update (\<lambda>_. Some v)) v m st"
| "load_header H m (Header_Status v) st = set_pseudo ps_status (\<lambda>v. ps_status_update (\<lambda>_. Some v)) v m st"

definition load_start :: "'m header_map_lib \<Rightarrow> 'm header_block \<Rightarrow> 'm load_state" where
  "load_start H b = \<lparr>ls_block = b, ls_reg = (hm_list H (hb_fields b) \<noteq> []), ls_malformed = False,
     ls_size = calculate_header_list_size H b, ls_panicked = False\<rparr>"

text \<open>
  The block, the buffer \<open>src\<close> and the decoder are all borrowed mutably: their new values are part of
  the result on every outcome. What the cursor has not split off stays in \<open>src\<close>.
\<close>

definition header_block_load ::
  "http_lib \<Rightarrow> 'm header_map_lib \<Rightarrow> nat \<Rightarrow> ('m header_block \<times> bytes \<times> hpack_decoder, unit, frame_error) op" where
  "header_block_load L H max_header_list_size s =
     (case s of (b, src, decoder) \<Rightarrow>
      case hpack_decode L (load_header H max_header_list_size) ((decoder, cursor_new src), load_start H b) of
        (res, (decoder, cursor), st) \<Rightarrow>
          (if ls_panicked st then Panic
           else
             (case res of
                Err e \<Rightarrow> Err (Hpack e)
              | Panic \<Rightarrow> Panic
              | Ok _ \<Rightarrow> if ls_malformed st then Err MalformedMessage else Ok ()),
           ls_block st, cur_data cursor, decoder))"

section \<open>HEADERS frames\<close>

definition H_END_STREAM :: u8 where "H_END_STREAM = 0x1"
definition H_END_HEADERS :: u8 where "H_END_HEADERS = 0x4"
definition H_PADDED :: u8 where "H_PADDED = 0x8"
definition H_PRIORITY :: u8 where "H_PRIORITY = 0x20"
definition H_ALL :: u8 where "H_ALL = H_END_STREAM OR H_END_HEADERS OR H_PADDED OR H_PRIORITY"

definition headers_flag_load :: "u8 \<Rightarrow> u8" where "headers_flag_load bits = bits AND H_ALL"
definition headers_flag_default :: u8 where "headers_flag_default = H_END_HEADERS"
definition flag_is_end_stream :: "u8 \<Rightarrow> bool" where "flag_is_end_stream f \<longleftrightarrow> f AND H_END_STREAM = H_END_STREAM"
definition flag_set_end_stream :: "u8 \<Rightarrow> u8" where "flag_set_end_stream f = f OR H_END_STREAM"
definition flag_is_end_headers :: "u8 \<Rightarrow> bool" where "flag_is_end_headers f \<longleftrightarrow> f AND H_END_HEADERS = H_END_HEADERS"
definition flag_set_end_headers :: "u8 \<Rightarrow> u8" where "flag_set_end_headers f = f OR H_END_HEADERS"
definition flag_is_padded :: "u8 \<Rightarrow> bool" where "flag_is_padded f \<longleftrightarrow> f AND H_PADDED = H_PADDED"
definition flag_is_priority :: "u8 \<Rightarrow> bool" where "flag_is_priority f \<longleftrightarrow> f AND H_PRIORITY = H_PRIORITY"

record 'm headers =
  h_stream_id :: stream_id
  h_stream_dep :: "stream_dependency option"
  h_block :: "'m header_block"
  h_flags :: u8

definition headers_new :: "stream_id \<Rightarrow> pseudo \<Rightarrow> 'm \<Rightarrow> 'm headers" where
  "headers_new sid ps fs = \<lparr>h_stream_id = sid, h_stream_dep = None,
     h_block = \<lparr>hb_fields = fs, hb_is_over_size = False, hb_pseudo = ps\<rparr>,
     h_flags = headers_flag_default\<rparr>"

definition headers_trailers :: "stream_id \<Rightarrow> 'm \<Rightarrow> 'm headers" where
  "headers_trailers sid fs = \<lparr>h_stream_id = sid, h_stream_dep = None,
     h_block = \<lparr>hb_fields = fs, hb_is_over_size = False, hb_pseudo = pseudo_default\<rparr>,
     h_flags = flag_set_end_stream headers_flag_default\<rparr>"

text \<open>The length byte of the padding, and the padding itself cut off the end.\<close>

definition take_pad :: "bool \<Rightarrow> bytes \<Rightarrow> (nat \<times> bytes, frame_error) result" where
  "take_pad padded src =
     (if padded then
        (if src = [] then Err MalformedMessage else Ok (unat (hd src), drop 1 src))
      else Ok (0, src))"

definition drop_pad :: "nat \<Rightarrow> bytes \<Rightarrow> (bytes, frame_error) result" where
  "drop_pad pad src =
     (if pad > 0 then
        (if pad > length src then Err TooMuchPadding else Ok (take (length src - pad) src))
      else Ok src)"

definition headers_load ::
  "'m header_map_lib \<Rightarrow> head \<Rightarrow> bytes \<Rightarrow> ('m headers \<times> bytes, frame_error) result" where
  "headers_load H h src =
     (let flags = head_flag h in
      rbind (take_pad (flag_is_padded flags) src) (\<lambda>(pad, src).
      rbind
        (if flag_is_priority flags then
           (if length src < 5 then Err MalformedMessage
            else rbind (slice_to src 5) (\<lambda>dep_src.
                 rbind (stream_dependency_load dep_src) (\<lambda>stream_dep.
                   if dependency_id stream_dep = head_stream_id h then Err InvalidDependencyId
                   else Ok (Some stream_dep, drop 5 src))))
         else Ok (None, src)) (\<lambda>(stream_dep, src).
      rbind (drop_pad pad src) (\<lambda>src.
        Ok (\<lparr>h_stream_id = head_stream_id h, h_stream_dep = stream_dep,
             h_block = header_block_new H, h_flags = flags\<rparr>, src)))))"

definition headers_load_hpack ::
  "http_lib \<Rightarrow> 'm header_map_lib \<Rightarrow> nat \<Rightarrow> ('m headers \<times> bytes \<times> hpack_decoder, unit, frame_error) op" where
  "headers_load_hpack L H max_header_list_size s =
     (case s of (f, src, decoder) \<Rightarrow>
      case header_block_load L H max_header_list_size (h_block f, src, decoder) of
        (r, b, src, decoder) \<Rightarrow> (r, f\<lparr>h_block := b\<rparr>, src, decoder))"

definition headers_is_end_headers :: "'m headers \<Rightarrow> bool" where
  "headers_is_end_headers f = flag_is_end_headers (h_flags f)"

definition headers_set_end_headers :: "'m headers \<Rightarrow> 'm headers" where
  "headers_set_end_headers f = f\<lparr>h_flags := flag_set_end_headers (h_flags f)\<rparr>"

definition headers_is_end_stream :: "'m headers \<Rightarrow> bool" where
  "headers_is_end_stream f = flag_is_end_stream (h_flags f)"

definition headers_set_end_stream :: "'m headers \<Rightarrow> 'm headers" where
  "headers_set_end_stream f = f\<lparr>h_flags := flag_set_end_stream (h_flags f)\<rparr>"

definition headers_is_over_size :: "'m headers \<Rightarrow> bool" where
  "headers_is_over_size f = hb_is_over_size (h_block f)"

definition headers_head :: "'m headers \<Rightarrow> head" where
  "headers_head f = head_new Kind_Headers (h_flags f) (h_stream_id f)"

section \<open>PUSH_PROMISE frames\<close>

record 'm push_promise =
  pp_stream_id :: stream_id
  pp_promised_id :: stream_id
  pp_block :: "'m header_block"
  pp_flags :: u8

definition push_promise_new :: "stream_id \<Rightarrow> stream_id \<Rightarrow> pseudo \<Rightarrow> 'm \<Rightarrow> 'm push_promise" where
  "push_promise_new sid promised ps fs = \<lparr>pp_stream_id = sid, pp_promised_id = promised,
     pp_block = \<lparr>hb_fields = fs, hb_is_over_size = False, hb_pseudo = ps\<rparr>,
     pp_flags = headers_flag_default\<rparr>"

definition push_promise_load ::
  "'m header_map_lib \<Rightarrow> head \<Rightarrow> bytes \<Rightarrow> ('m push_promise \<times> bytes, frame_error) result" where
  "push_promise_load H h src =
     (let flags = head_flag h in
      rbind (take_pad (flag_is_padded flags) src) (\<lambda>(pad, src).
      if length src < 5 then Err MalformedMessage
      else
        rbind (slice_to src 4) (\<lambda>id_src.
        rbind (stream_id_parse id_src) (\<lambda>(promised_id, _).
        rbind (drop_pad pad (drop 4 src)) (\<lambda>src.
          Ok (\<lparr>pp_stream_id = head_stream_id h, pp_promised_id = promised_id,
               pp_block = header_block_new H, pp_flags = flags\<rparr>, src))))))"

definition push_promise_load_hpack ::
  "http_lib \<Rightarrow> 'm header_map_lib \<Rightarrow> nat \<Rightarrow> ('m push_promise \<times> bytes \<times> hpack_decoder, unit, frame_error) op" where
  "push_promise_load_hpack L H max_header_list_size s =
     (case s of (f, src, decoder) \<Rightarrow>
      case header_block_load L H max_header_list_size (pp_block f, src, decoder) of
        (r, b, src, decoder) \<Rightarrow> (r, f\<lparr>pp_block := b\<rparr>, src, decoder))"

definition push_promise_is_end_headers :: "'m push_promise \<Rightarrow> bool" where
  "push_promise_is_end_headers f = flag_is_end_headers (pp_flags f)"

definition push_promise_set_end_headers :: "'m push_promise \<Rightarrow> 'm push_promise" where
  "push_promise_set_end_headers f = f\<lparr>pp_flags := flag_set_end_headers (pp_flags f)\<rparr>"

definition push_promise_head :: "'m push_promise \<Rightarrow> head" where
  "push_promise_head f = head_new Kind_PushPromise (pp_flags f) (pp_stream_id f)"

text \<open>\<open>parse_u64\<close>, in the 64-bit arithmetic of the code.\<close>

fun parse_u64_loop :: "bytes \<Rightarrow> u64 \<Rightarrow> (u64, unit) result" where
  "parse_u64_loop [] ret = Ok ret"
| "parse_u64_loop (d # src) ret =
     (if d < of_char CHR ''0'' \<or> d > of_char CHR ''9'' then Err ()
      else parse_u64_loop src (ret * 10 + ucast (d - of_char CHR ''0'')))"

definition parse_u64 :: "bytes \<Rightarrow> (u64, unit) result" where
  "parse_u64 src = (if length src > 19 then Err () else parse_u64_loop src 0)"

datatype push_promise_header_error =
    InvalidContentLength "(u64, unit) result"
  | NotSafeAndCacheable

definition safe_and_cacheable :: "bytes \<Rightarrow> bool" where
  "safe_and_cacheable method \<longleftrightarrow> method = ascii ''GET'' \<or> method = ascii ''HEAD''"

text \<open>The arguments are the method of the request and its first \<open>content-length\<close>.\<close>

definition validate_request :: "bytes \<Rightarrow> bytes option \<Rightarrow> (unit, push_promise_header_error) result" where
  "validate_request method content_length =
     (let check = (if safe_and_cacheable method then Ok () else Err NotSafeAndCacheable) in
      case content_length of
        Some c \<Rightarrow> if parse_u64 c \<noteq> Ok 0 then Err (InvalidContentLength (parse_u64 c)) else check
      | None \<Rightarrow> check)"

section \<open>Decimal numbers\<close>

definition is_digit :: "u8 \<Rightarrow> bool" where
  "is_digit d \<longleftrightarrow> 0x30 \<le> d \<and> d \<le> 0x39"

definition decimal :: "bytes \<Rightarrow> nat \<Rightarrow> nat" where
  "decimal ds n = foldl (\<lambda>n d. n * 10 + (unat d - 0x30)) n ds"

lemma decimal_less: "n < 10 ^ k \<Longrightarrow> list_all is_digit ds \<Longrightarrow> decimal ds n < 10 ^ (k + length ds)"
proof (induction ds arbitrary: n k)
  case (Cons d ds)
  then have "unat d - 0x30 \<le> 9" by (auto simp: is_digit_def word_le_nat_alt)
  with Cons.prems(1) have "n * 10 + (unat d - 0x30) < 10 ^ Suc k" by simp
  from Cons.IH [OF this] Cons.prems(2) show ?case by (simp add: decimal_def)
qed (simp add: decimal_def)

lemma parse_u64_loop_eq:
  assumes "unat ret < 10 ^ k" "k + length src \<le> 19"
  shows "parse_u64_loop src ret =
    (if list_all is_digit src then Ok (of_nat (decimal src (unat ret))) else Err ())"
  using assms
proof (induction src arbitrary: ret k)
  case (Cons d src)
  show ?case
  proof (cases "is_digit d")
    case True
    have digit: "unat d - 0x30 \<le> 9" "0x30 \<le> d"
      using True by (auto simp: is_digit_def word_le_nat_alt)
    have u: "unat (ucast (d - 0x30) :: u64) = unat d - 0x30"
    proof -
      have "unat d - 0x30 < 2 ^ 64" using digit(1) by simp
      with digit(2) show ?thesis
        by (simp add: unsigned_ucast_eq unat_sub word_le_nat_alt take_bit_nat_eq_self)
    qed
    have small: "unat ret * 10 + (unat d - 0x30) < 10 ^ Suc k" using Cons.prems(1) digit(1) by simp
    also have "(10 :: nat) ^ Suc k \<le> 10 ^ 19" using Cons.prems(2) by (intro power_increasing) auto
    also have "(10 :: nat) ^ 19 < 2 ^ 64" by simp
    finally have less: "unat ret * 10 + (unat d - 0x30) < 2 ^ LENGTH(64)" by simp
    then have "unat (ret * 10) = unat ret * 10"
      by (subst unat_mult_lem [THEN iffD1]) simp_all
    with less u have n: "unat (ret * 10 + ucast (d - 0x30)) = unat ret * 10 + (unat d - 0x30)"
      by (subst unat_add_lem [THEN iffD1]) simp_all
    have "parse_u64_loop (d # src) ret = parse_u64_loop src (ret * 10 + ucast (d - 0x30))"
      using True by (auto simp: is_digit_def not_less)
    also have "\<dots> = (if list_all is_digit src
        then Ok (of_nat (decimal src (unat (ret * 10 + ucast (d - 0x30))))) else Err ())"
      by (rule Cons.IH [of _ "Suc k"]) (use small n Cons.prems(2) in simp_all)
    finally show ?thesis using True unfolding n by (simp add: decimal_def)
  next
    case False
    then show ?thesis by (auto simp: is_digit_def not_le)
  qed
qed (simp add: decimal_def)

text \<open>
  C14: \<open>parse_u64\<close> accepts exactly the strings of at most 19 decimal
  digits (the empty one included) and returns the number they denote; its 64-bit arithmetic
  does not wrap.
\<close>

theorem parse_u64_correct:
  "case parse_u64 src of
     Ok n \<Rightarrow> length src \<le> 19 \<and> list_all is_digit src \<and> unat n = decimal src 0
   | Err _ \<Rightarrow> 19 < length src \<or> list_ex (\<lambda>d. \<not> is_digit d) src
   | Panic \<Rightarrow> False"
proof (cases "length src \<le> 19")
  case True
  have e: "parse_u64 src = (if list_all is_digit src then Ok (of_nat (decimal src 0)) else Err ())"
    using True parse_u64_loop_eq [of 0 0 src] by (simp add: parse_u64_def)
  have "unat (of_nat (decimal src 0) :: u64) = decimal src 0" if "list_all is_digit src"
  proof -
    have "decimal src 0 < 10 ^ (0 + length src)" using that by (intro decimal_less) simp_all
    also have "(10 :: nat) ^ (0 + length src) \<le> 10 ^ 19" using True by (intro power_increasing) auto
    also have "(10 :: nat) ^ 19 < 2 ^ 64" by simp
    finally show ?thesis by (simp add: unsigned_of_nat take_bit_nat_eq_self)
  qed
  with True show ?thesis by (auto simp: e list_all_iff list_ex_iff)
qed (simp add: parse_u64_def)

section \<open>Which blocks are accepted\<close>

text \<open>
  The rule of the protocol for a list of fields: pseudo-headers first, none of them twice, then
  regular fields, none of them specific to a connection.
\<close>

fun is_field :: "bytes header \<Rightarrow> bool" where
  "is_field (Header_Field _ _) = True"
| "is_field _ = False"

fun field_allowed :: "bytes header \<Rightarrow> bool" where
  "field_allowed (Header_Field name v) \<longleftrightarrow>
     name \<notin> set CONNECTION_HEADERS \<and> (name = ascii ''te'' \<longrightarrow> hv_bytes v = ascii ''trailers'')"
| "field_allowed _ \<longleftrightarrow> True"

definition acceptable :: "bytes header list \<Rightarrow> bool" where
  "acceptable hs \<longleftrightarrow>
     list_all field_allowed hs \<and> list_all is_field (dropWhile (\<lambda>h. \<not> is_field h) hs)
     \<and> distinct (map header_name (takeWhile (\<lambda>h. \<not> is_field h) hs))"

definition pseudo_value :: "hname \<Rightarrow> bytes header list \<Rightarrow> bytes option" where
  "pseudo_value nm hs =
     (case filter (\<lambda>h. header_name h = nm) hs of [] \<Rightarrow> None | h # _ \<Rightarrow> Some (value_slice h))"

definition pseudo_of :: "bytes header list \<Rightarrow> pseudo" where
  "pseudo_of hs = \<lparr>ps_method = pseudo_value Name_Method hs, ps_scheme = pseudo_value Name_Scheme hs,
     ps_authority = pseudo_value Name_Authority hs, ps_path = pseudo_value Name_Path hs,
     ps_status = pseudo_value Name_Status hs\<rparr>"

fun field_of :: "bytes header \<Rightarrow> field_list" where
  "field_of (Header_Field name v) = [(name, v)]"
| "field_of _ = []"

definition fields_of :: "bytes header list \<Rightarrow> field_list" where
  "fields_of hs = concat (map field_of hs)"

text \<open>What a header counts against the limit; for a pseudo-header the name counts as seven bytes.\<close>

fun header_cost :: "bytes header \<Rightarrow> nat" where
  "header_cost (Header_Field name v) = decoded_header_size (length name) (length (hv_bytes v))"
| "header_cost h = decoded_header_size 7 (length (value_slice h))"

definition list_cost :: "bytes header list \<Rightarrow> nat" where
  "list_cost hs = sum_list (map header_cost hs)"

lemma acceptable_Nil: "acceptable []"
  by (simp add: acceptable_def)

lemma acceptable_snoc:
  "acceptable (hs @ [h]) \<longleftrightarrow> acceptable hs \<and> field_allowed h
     \<and> (is_field h \<or> \<not> list_ex is_field hs \<and> header_name h \<notin> set (map header_name hs))"
proof (cases "list_ex is_field hs")
  case True
  then obtain x where x: "x \<in> set hs" "\<not> \<not> is_field x" by (auto simp: list_ex_iff)
  show ?thesis
    using True by (auto simp: acceptable_def dropWhile_append1 [where P = "\<lambda>h. \<not> is_field h", OF x]
        takeWhile_append1 [where P = "\<lambda>h. \<not> is_field h", OF x])
next
  case False
  then have "\<forall>x \<in> set hs. \<not> is_field x" by (auto simp: list_ex_iff)
  then have split: "takeWhile (\<lambda>h. \<not> is_field h) hs = hs" "dropWhile (\<lambda>h. \<not> is_field h) hs = []"
    "takeWhile (\<lambda>h. \<not> is_field h) (hs @ [h]) = hs @ (if is_field h then [] else [h])"
    "dropWhile (\<lambda>h. \<not> is_field h) (hs @ [h]) = (if is_field h then [h] else [])"
    by (auto simp: takeWhile_eq_all_conv dropWhile_eq_Nil_conv takeWhile_append dropWhile_append)
  from False show ?thesis unfolding acceptable_def split by auto
qed

text \<open>What the closure has built when it has seen the headers \<open>hs\<close>.\<close>

definition built :: "'m header_map_lib \<Rightarrow> bytes header list \<Rightarrow> 'm load_state \<Rightarrow> bool" where
  "built H hs st \<longleftrightarrow> ls_malformed st = (\<not> acceptable hs)
     \<and> (acceptable hs \<longrightarrow> ls_reg st = list_ex is_field hs \<and> ls_size st = list_cost hs
          \<and> \<not> hb_is_over_size (ls_block st) \<and> hb_pseudo (ls_block st) = pseudo_of hs
          \<and> (ls_panicked st \<or> (\<forall>n. values_of n (hm_list H (hb_fields (ls_block st))) = values_of n (fields_of hs))))"

lemma pseudo_value_snoc:
  "pseudo_value nm (hs @ [h]) =
     (case pseudo_value nm hs of Some v \<Rightarrow> Some v
      | None \<Rightarrow> if header_name h = nm then Some (value_slice h) else None)"
  by (auto simp: pseudo_value_def split: list.splits)

lemma pseudo_value_None_iff: "pseudo_value nm hs = None \<longleftrightarrow> nm \<notin> set (map header_name hs)"
proof -
  have "pseudo_value nm hs = None \<longleftrightarrow> filter (\<lambda>h. header_name h = nm) hs = []"
    by (simp add: pseudo_value_def split: list.split)
  then show ?thesis by (auto simp: filter_empty_conv)
qed

lemma fields_of_snoc: "fields_of (hs @ [h]) = fields_of hs @ field_of h"
  by (simp add: fields_of_def)

lemma values_of_append: "values_of n (fs @ gs) = values_of n fs @ values_of n gs"
  by (simp add: values_of_def)

lemma load_header_malformed: "ls_malformed st \<Longrightarrow> ls_malformed (load_header H m h st)"
  by (cases h) (auto simp: set_pseudo_def Let_def split: option.split)

lemma load_header_panicked: "ls_panicked st \<Longrightarrow> ls_panicked (load_header H m h st)"
  by (cases h) (auto simp: set_pseudo_def Let_def split: option.split)

lemma set_pseudo_built:
  assumes "built H hs st" "acceptable hs" "list_cost (hs @ [h]) < m"
    and h: "\<not> is_field h" "header_cost h = 7 + length v + 32"
    and get: "get (pseudo_of hs) = pseudo_value (header_name h) hs"
    and put: "get (pseudo_of hs) = None \<Longrightarrow> put v (pseudo_of hs) = pseudo_of (hs @ [h])"
  shows "built H (hs @ [h]) (set_pseudo get put v m st)"
proof -
  have other: "field_allowed h" "field_of h = []" using h(1) by (cases h; simp)+
  note b = assms(1,2) [unfolded built_def]
  have name: "header_name h \<in> set (map header_name hs) \<longleftrightarrow> get (hb_pseudo (ls_block st)) \<noteq> None"
    using b get pseudo_value_None_iff [of "header_name h" hs] by auto
  show ?thesis
  proof (cases "ls_reg st \<or> get (hb_pseudo (ls_block st)) \<noteq> None")
    case True
    then have "\<not> acceptable (hs @ [h])"
      using b h(1) name by (auto simp: acceptable_snoc)
    moreover have "ls_malformed (set_pseudo get put v m st)" using True by (auto simp: set_pseudo_def Let_def)
    ultimately show ?thesis by (simp add: built_def)
  next
    case False
    then have "acceptable (hs @ [h])"
      using b name other(1) by (auto simp: acceptable_snoc)
    with False b put show ?thesis
      using assms(3) h other
      by (auto simp: built_def set_pseudo_def Let_def list_cost_def fields_of_snoc
          decoded_header_size_def STRINGIFY_IDENT_def)
  qed
qed

lemma load_header_built:
  assumes "built H hs st" "header_map_ok H" "list_cost (hs @ [h]) < m"
  shows "built H (hs @ [h]) (load_header H m h st)"
proof (cases "acceptable hs")
  case False
  then show ?thesis
    using assms(1) by (simp add: built_def acceptable_snoc load_header_malformed)
next
  case True
  note b = assms(1) [unfolded built_def] True
  show ?thesis
  proof (cases h)
    case (Header_Field name v)
    show ?thesis
    proof (cases "field_allowed h")
      case allowed: True
      with Header_Field True have "acceptable (hs @ [h])" by (simp add: acceptable_snoc)
      moreover have "pseudo_of (hs @ [h]) = pseudo_of hs"
        using Header_Field by (simp add: pseudo_of_def pseudo_value_snoc split: option.split)
      ultimately show ?thesis
        using b assms(2,3) Header_Field allowed
        by (auto simp: built_def Let_def list_cost_def header_map_ok_def fields_of_snoc
            values_of_append decoded_header_size_def values_of_def split: option.split)
    next
      case False
      with Header_Field show ?thesis by (auto simp: built_def acceptable_snoc)
    qed
  qed (use assms(3) in \<open>auto intro!: set_pseudo_built [OF assms(1) True] simp: decoded_header_size_def
      pseudo_of_def pseudo_value_snoc split: option.split\<close>)
qed

lemma fold_load_header_built:
  assumes "header_map_ok H" "list_cost hs < m"
  shows "built H hs (fold (load_header H m) hs (load_start H (header_block_new H)))"
  using assms(2)
proof (induction hs rule: rev_induct)
  case Nil
  show ?case
    using assms(1)
    by (simp add: built_def load_start_def header_block_new_def header_map_ok_def acceptable_Nil
        calculate_header_list_size_def pseudo_size_def pseudo_default_def pseudo_of_def
        pseudo_value_def fields_of_def values_of_def list_cost_def)
next
  case (snoc h hs)
  then have "built H hs (fold (load_header H m) hs (load_start H (header_block_new H)))"
    by (simp add: list_cost_def)
  from load_header_built [OF this assms(1) snoc.prems] show ?case by simp
qed

section \<open>The map is large enough\<close>

text \<open>
  A limit on the size of the list bounds the number of fields, each of which counts 32 bytes at least; and
  there are no more fields than bytes in the block.
\<close>

definition map_suffices :: "'m header_map_lib \<Rightarrow> nat \<Rightarrow> nat \<Rightarrow> bool" where
  "map_suffices H max_header_list_size len \<longleftrightarrow> max_header_list_size \<le> 32 * (hm_max H + 1) \<or> len \<le> hm_max H"

lemma count_values_of: "count (mset (values_of n fs)) v = count (mset fs) (n, v)"
  by (induction fs) (auto simp: values_of_def)

lemma append_length:
  assumes "header_map_ok H" "hm_append H n v m = Some m'"
  shows "length (hm_list H m') = Suc (length (hm_list H m))"
proof -
  have "values_of k (hm_list H m') = values_of k (hm_list H m) @ (if k = n then [v] else [])" for k
    using assms by (simp add: header_map_ok_def)
  then have "count (mset (hm_list H m')) (k, u) = count (mset ((n, v) # hm_list H m)) (k, u)" for k u
    unfolding count_values_of [symmetric] by (simp add: values_of_def)
  then have "mset (hm_list H m') = mset ((n, v) # hm_list H m)" by (metis multiset_eqI surj_pair)
  then show ?thesis by (metis length_Cons size_mset)
qed

definition kept :: "'m header_map_lib \<Rightarrow> 'm load_state \<Rightarrow> nat" where
  "kept H st = length (hm_list H (hb_fields (ls_block st)))"

lemma set_pseudo_kept:
  "kept H (set_pseudo get put v m st) = kept H st" "ls_panicked (set_pseudo get put v m st) = ls_panicked st"
  "ls_size st \<le> ls_size (set_pseudo get put v m st)"
  by (simp_all add: kept_def set_pseudo_def Let_def)

text \<open>One more header, when the map takes it.\<close>

lemma load_header_kept:
  assumes "header_map_ok H" "\<not> ls_panicked st" "32 * (kept H st + 1) < m \<longrightarrow> kept H st < hm_max H" "32 * kept H st \<le> ls_size st"
  shows "\<not> ls_panicked (load_header H m h st)" "kept H (load_header H m h st) \<le> Suc (kept H st)"
    "32 * kept H (load_header H m h st) \<le> ls_size (load_header H m h st)"
proof -
  have all: "\<not> ls_panicked (load_header H m h st) \<and> kept H (load_header H m h st) \<le> Suc (kept H st)
    \<and> 32 * kept H (load_header H m h st) \<le> ls_size (load_header H m h st)"
  proof (cases h)
    case (Header_Field name v)
    let ?size = "ls_size st + decoded_header_size (length name) (length (hv_bytes v))"
    show ?thesis
    proof (cases "?size < m")
      case True
      then have "hm_append H name v (hb_fields (ls_block st)) \<noteq> None"
        using assms by (auto simp: header_map_ok_def kept_def decoded_header_size_def)
      then obtain fs where fs: "hm_append H name v (hb_fields (ls_block st)) = Some fs" by blast
      from append_length [OF assms(1) fs] True fs Header_Field assms(2,4) show ?thesis
        by (auto simp: kept_def Let_def decoded_header_size_def)
    qed (use Header_Field assms(2,4) in \<open>auto simp: kept_def Let_def decoded_header_size_def\<close>)
  qed (use assms(2,4) order_trans [OF assms(4) set_pseudo_kept(3)] in \<open>auto simp: set_pseudo_kept\<close>)
  then show "\<not> ls_panicked (load_header H m h st)" "kept H (load_header H m h st) \<le> Suc (kept H st)"
    "32 * kept H (load_header H m h st) \<le> ls_size (load_header H m h st)" by blast+
qed

lemma fold_load_header_kept:
  assumes "header_map_ok H" "\<not> ls_panicked st" "32 * kept H st \<le> ls_size st"
    "m \<le> 32 * (hm_max H + 1) \<or> kept H st + length hs \<le> hm_max H"
  shows "\<not> ls_panicked (fold (load_header H m) hs st)"
  using assms(2-4)
proof (induction hs arbitrary: st)
  case (Cons h hs)
  have room: "32 * (kept H st + 1) < m \<longrightarrow> kept H st < hm_max H" using Cons.prems(3) by auto
  note step = load_header_kept [OF assms(1) Cons.prems(1) room Cons.prems(2), of h]
  have "m \<le> 32 * (hm_max H + 1) \<or> kept H (load_header H m h st) + length hs \<le> hm_max H"
    using Cons.prems(3) step(2) by auto
  from Cons.IH [OF step(1,3) this] show ?case by simp
qed simp

lemma load_start_kept: "\<not> ls_panicked (load_start H b)" "32 * kept H (load_start H b) \<le> ls_size (load_start H b)"
proof -
  have "32 * length fs \<le> sum_list (map field_size fs)" for fs
    by (induction fs) (auto simp: field_size_def decoded_header_size_def)
  from this [of "hm_list H (hb_fields b)"] show "\<not> ls_panicked (load_start H b)"
    "32 * kept H (load_start H b) \<le> ls_size (load_start H b)"
    by (simp_all add: load_start_def kept_def calculate_header_list_size_def)
qed

text \<open>What the closure has seen when the decoder ends, with or without an error.\<close>

lemma decode_loop_fold:
  "decode_loop L f cr (dc, acc) = (r, dc', acc') \<Longrightarrow>
     \<exists>hs. acc' = fold f hs acc \<and> length hs \<le> length (cur_rest (snd dc))"
proof (induction L f cr "(dc, acc)" arbitrary: dc acc rule: decode_loop.induct)
  case (1 L f cr dc acc)
  note run = "1.prems" [unfolded decode_loop.simps [of L f cr dc acc]]
  have stop: ?case if "acc' = acc" using that by (intro exI [of _ "[]"]) simp
  show ?case
  proof (cases "peek_u8 (snd dc)")
    case None
    with run stop show ?thesis by simp
  next
    case (Some ty)
    show ?thesis
    proof (cases "representation_load ty")
      case (Ok rep)
      obtain x dc1 where one: "decode_one L cr rep dc = (x, dc1)" by (cases "decode_one L cr rep dc")
      show ?thesis
      proof (cases x)
        case xOk: (Ok y)
        have less: "length (cur_rest (snd dc1)) < length (cur_rest (snd dc))"
          using decode_one_less Some Ok one xOk by metis
        show ?thesis
        proof (cases y)
          case None
          with "1.hyps"(1) [OF Some Ok one [symmetric] xOk None] run Some Ok one xOk less show ?thesis by fastforce
        next
          case (Some h)
          with "1.hyps"(2) [OF \<open>peek_u8 (snd dc) = Some ty\<close> Ok one [symmetric] xOk Some] run
            \<open>peek_u8 (snd dc) = Some ty\<close> Ok one xOk
          obtain hs where "acc' = fold f hs (f h acc)" "length hs \<le> length (cur_rest (snd dc1))" by auto
          with less show ?thesis by (intro exI [of _ "h # hs"]) simp
        qed
      qed (use run Some Ok one stop in auto)
    qed (use run Some stop in auto)
  qed
qed

lemma load_fold:
  assumes "hpack_decode L (load_header H m) ((d, cursor_new src), st) = (res, dc, st')"
  shows "\<exists>hs. st' = fold (load_header H m) hs st \<and> length hs \<le> length src"
  using assms decode_loop_fold [of L "load_header H m" True _ st res dc st']
  by (fastforce simp: hpack_decode_def Let_def cur_rest_def cursor_new_def)

lemma load_no_panic:
  assumes "header_map_ok H" "map_suffices H m (length (hm_list H (hb_fields b)) + length src)"
    "hpack_decode L (load_header H m) ((d, cursor_new src), load_start H b) = (res, dc, st)"
  shows "\<not> ls_panicked st"
proof -
  obtain hs where hs: "st = fold (load_header H m) hs (load_start H b)" "length hs \<le> length src"
    using load_fold [OF assms(3)] by blast
  have "kept H (load_start H b) = length (hm_list H (hb_fields b))" by (simp add: kept_def load_start_def)
  with hs assms(2) show ?thesis
    by (auto simp: map_suffices_def intro!: fold_load_header_kept [OF assms(1) load_start_kept])
qed

section \<open>What is loaded\<close>

text \<open>The size counts every header of an acceptable list, kept or not.\<close>

fun get_pseudo :: "hname \<Rightarrow> pseudo \<Rightarrow> bytes option" where
  "get_pseudo (Name_Field _) ps = None"
| "get_pseudo Name_Authority ps = ps_authority ps"
| "get_pseudo Name_Method ps = ps_method ps"
| "get_pseudo Name_Scheme ps = ps_scheme ps"
| "get_pseudo Name_Path ps = ps_path ps"
| "get_pseudo Name_Status ps = ps_status ps"

lemma pseudo_default_simps [simp]:
  "ps_method pseudo_default = None" "ps_scheme pseudo_default = None"
  "ps_authority pseudo_default = None" "ps_path pseudo_default = None"
  "ps_status pseudo_default = None" "get_pseudo nm pseudo_default = None"
  by (cases nm; simp add: pseudo_default_def)+

lemma get_pseudo_other [simp]:
  "nm \<noteq> Name_Authority \<Longrightarrow> get_pseudo nm (ps\<lparr>ps_authority := x\<rparr>) = get_pseudo nm ps"
  "nm \<noteq> Name_Method \<Longrightarrow> get_pseudo nm (ps\<lparr>ps_method := x\<rparr>) = get_pseudo nm ps"
  "nm \<noteq> Name_Scheme \<Longrightarrow> get_pseudo nm (ps\<lparr>ps_scheme := x\<rparr>) = get_pseudo nm ps"
  "nm \<noteq> Name_Path \<Longrightarrow> get_pseudo nm (ps\<lparr>ps_path := x\<rparr>) = get_pseudo nm ps"
  "nm \<noteq> Name_Status \<Longrightarrow> get_pseudo nm (ps\<lparr>ps_status := x\<rparr>) = get_pseudo nm ps"
  by (cases nm; simp)+

definition counted :: "nat \<Rightarrow> bytes header list \<Rightarrow> 'm load_state \<Rightarrow> bool" where
  "counted m hs st \<longleftrightarrow> ls_malformed st = False \<and> ls_reg st = list_ex is_field hs
     \<and> ls_size st = list_cost hs
     \<and> hb_is_over_size (ls_block st) = (hs \<noteq> [] \<and> m \<le> list_cost hs)
     \<and> (\<forall>nm. get_pseudo nm (hb_pseudo (ls_block st)) \<noteq> None \<longrightarrow> nm \<in> header_name ` set hs)"

lemma header_cost_pos: "0 < header_cost h"
  by (cases h) (simp_all add: decoded_header_size_def)

lemma set_pseudo_counted:
  assumes "counted m hs st" "acceptable (hs @ [h])"
    and h: "\<not> is_field h" "header_cost h = 7 + length v + 32"
    and get: "\<And>ps. get ps = get_pseudo (header_name h) ps"
    and put: "\<And>nm ps. get_pseudo nm (put v ps) \<noteq> None \<Longrightarrow>
      get_pseudo nm ps \<noteq> None \<or> nm = header_name h"
  shows "counted m (hs @ [h]) (set_pseudo get put v m st)"
proof -
  have "\<not> list_ex is_field hs" "header_name h \<notin> header_name ` set hs"
    using assms(2) h(1) by (auto simp: acceptable_snoc)
  with assms(1) get have "\<not> ls_reg st" "get (hb_pseudo (ls_block st)) = None"
    unfolding counted_def get by auto
  moreover have "list_cost hs \<le> list_cost (hs @ [h])" by (simp add: list_cost_def)
  ultimately show ?thesis
    using assms(1) h put
    by (auto simp: counted_def set_pseudo_def Let_def list_cost_def decoded_header_size_def
        STRINGIFY_IDENT_def)
qed

lemma load_header_counted:
  assumes "counted m hs st" "acceptable (hs @ [h])"
  shows "counted m (hs @ [h]) (load_header H m h st)"
proof (cases h)
  case (Header_Field name v)
  moreover have "field_allowed h" using assms(2) by (simp add: acceptable_snoc)
  ultimately show ?thesis
    using assms(1)
    by (auto simp: counted_def Let_def list_cost_def decoded_header_size_def split: option.split)
qed (use assms(2) in \<open>auto intro!: set_pseudo_counted [OF assms(1)] simp: decoded_header_size_def\<close>)

lemma fold_load_header_counted:
  assumes "header_map_ok H" "acceptable hs"
  shows "counted m hs (fold (load_header H m) hs (load_start H (header_block_new H)))"
  using assms(2)
proof (induction hs rule: rev_induct)
  case Nil
  show ?case
    using assms(1)
    by (auto simp: counted_def load_start_def header_block_new_def header_map_ok_def
        calculate_header_list_size_def pseudo_size_def list_cost_def)
next
  case (snoc h hs)
  then have "counted m hs (fold (load_header H m) hs (load_start H (header_block_new H)))"
    by (simp add: acceptable_snoc)
  from load_header_counted [OF this snoc.prems, of H] show ?case by simp
qed

text \<open>
  C11: loading the bytes of a header block into a new frame. If
  the fields of the block follow the rules of HTTP/2 (pseudo-headers first and once, nothing
  specific to a connection) they are all there, the pseudo-headers by name and the other fields with
  their values in order, as long as they stay below the limit on their size; at the limit the
  frame is marked as over size. A block below the limit that breaks a rule is reported as
  malformed, a block without meaning with the error of HPACK. The bytes are used up and the
  dynamic table advances in any case. The map has to take the fields: its capacity exceeds what the limit allows, or
  the number of bytes of the block.
\<close>

theorem header_block_load_meaning:
  assumes "header_map_ok H" "list_all rep_ok rs" "decoder_at t limit d"
    "map_suffices H m (length (concat (map rep_bytes rs)))"
  shows "case block_meaning L limit True rs t of
      Ok (hs, t') \<Rightarrow> \<exists>r b d'.
        header_block_load L H m (header_block_new H, concat (map rep_bytes rs), d) = (r, b, [], d')
        \<and> decoder_at t' limit d'
        \<and> (acceptable hs \<longrightarrow> r = Ok () \<and> hb_is_over_size b = (hs \<noteq> [] \<and> m \<le> list_cost hs))
        \<and> (list_cost hs < m \<longrightarrow>
             (if acceptable hs
              then r = Ok () \<and> hb_pseudo b = pseudo_of hs
                \<and> (\<forall>n. values_of n (hm_list H (hb_fields b)) = values_of n (fields_of hs))
              else r = Err MalformedMessage))
    | Err e \<Rightarrow>
        fst (header_block_load L H m (header_block_new H, concat (map rep_bytes rs), d)) = Err (Hpack e)
    | Panic \<Rightarrow> False"
proof -
  let ?st = "load_start H (header_block_new H)"
  note decode = hpack_decode_at [OF assms(2,3), of L "load_header H m" ?st]
  have "length (hm_list H (hb_fields (header_block_new H))) = 0"
    using assms(1) by (simp add: header_block_new_def header_map_ok_def)
  then have room: "\<not> ls_panicked st"
    if "hpack_decode L (load_header H m) ((d, cursor_new (concat (map rep_bytes rs))), ?st) = (res, dc, st)" for res dc st
    using load_no_panic [OF assms(1) _ that] assms(4) by simp
  show ?thesis
  proof (cases "block_meaning L limit True rs t")
    case (Ok p)
    then obtain hs t' where p: "block_meaning L limit True rs t = Ok (hs, t')" by (cases p) auto
    with decode obtain d' c' where run:
      "hpack_decode L (load_header H m) ((d, cursor_new (concat (map rep_bytes rs))), ?st) =
        (Ok (), (d', c'), fold (load_header H m) hs ?st)" "cur_data c' = []" "decoder_at t' limit d'"
      by auto
    from fold_load_header_built [OF assms(1), of hs m] fold_load_header_counted [OF assms(1), of hs m]
    show ?thesis
      using run room [OF run(1)] p by (auto simp: header_block_load_def built_def counted_def)
  next
    case (Err e)
    with decode room show ?thesis
      by (auto simp: header_block_load_def split: prod.splits)
  qed (use decode in simp)
qed

text \<open>A map that is a list, for a limited number of names.\<close>

definition bounded_fields :: "nat \<Rightarrow> field_list header_map_lib" where
  "bounded_fields n = \<lparr>hm_new = [],
     hm_append = (\<lambda>name v m. if name \<in> fst ` set m \<or> length (remdups (map fst m)) < n then Some (m @ [(name, v)]) else None),
     hm_list = (\<lambda>m. m), hm_max = n\<rparr>"

definition list_fields :: "field_list header_map_lib" where
  "list_fields = bounded_fields 32768"

lemma bounded_fields_ok: "header_map_ok (bounded_fields n)"
proof -
  have "length (remdups (map fst m)) \<le> length m" for m :: field_list
    by (metis length_map length_remdups_leq)
  then have "length (remdups (map fst m)) < n" if "length m < n" for m :: field_list
    using that order.strict_trans1 by blast
  then show ?thesis by (auto simp: header_map_ok_def bounded_fields_def values_of_def)
qed

lemma list_fields_ok: "header_map_ok list_fields"
  unfolding list_fields_def by (rule bounded_fields_ok)

lemma list_fields_simps [simp]:
  "hm_new list_fields = []" "hm_list list_fields m = m" "hm_max list_fields = 32768"
  by (simp_all add: list_fields_def bounded_fields_def)

text \<open>\<open>:method: GET\<close> with \<open>x: y\<close> is accepted; the pseudo-header behind the field is not.\<close>

lemma header_block_load_meaning_witness:
  "(\<exists>b d'. header_block_load any_lib list_fields 1000
       (header_block_new list_fields, [0x82, 0, 1, 0x78, 1, 0x79], hpack_decoder_new 4096) = (Ok (), b, [], d')
      \<and> ps_method (hb_pseudo b) = Some (ascii ''GET''))
   \<and> (\<exists>b d'. header_block_load any_lib list_fields 1000
       (header_block_new list_fields, [0, 1, 0x78, 1, 0x79, 0x82], hpack_decoder_new 4096)
      = (Err MalformedMessage, b, [], d'))"
proof -
  let ?f = "RNew Without (Plain [0x78]) (Plain [0x79])"
  note load = header_block_load_meaning [OF list_fields_ok _ decoder_at_new, of _ 1000 any_lib 4096]
  have b: "concat (map rep_bytes [RIndexed 2, ?f]) = [0x82, 0, 1, 0x78, 1, 0x79]"
    "concat (map rep_bytes [?f, RIndexed 2]) = [0, 1, 0x78, 1, 0x79, 0x82]"
    by (simp_all add: int_bytes_def encode_int_one_byte_def)
  note defs = any_lib_def header_new_def header_value_from_bytes_def get_static_def static_defs
    list_cost_def decoded_header_size_def acceptable_def pseudo_of_def pseudo_value_def CONNECTION_HEADERS_def
  have room: "map_suffices list_fields 1000 n" for n by (simp add: map_suffices_def)
  show ?thesis
    using load [of "[RIndexed 2, ?f]", OF _ room] load [of "[?f, RIndexed 2]", OF _ room] unfolding b
    by (auto simp: defs ascii_def)
qed

section \<open>More names than the map takes\<close>

text \<open>A map that takes no name beyond \<open>n\<close>, as \<open>HeaderMap\<close> with its maximal capacity.\<close>

definition takes_at_most :: "'m header_map_lib \<Rightarrow> nat \<Rightarrow> bool" where
  "takes_at_most H n \<longleftrightarrow> (\<forall>name v m. name \<notin> fst ` set (hm_list H m) \<longrightarrow> n \<le> card (fst ` set (hm_list H m)) \<longrightarrow>
     hm_append H name v m = None)"

lemma names_of_values: "fst ` set fs = {n. values_of n fs \<noteq> []}"
  by (force simp: values_of_def filter_empty_conv)

definition names_in :: "'m header_map_lib \<Rightarrow> 'm load_state \<Rightarrow> bytes set" where
  "names_in H st = fst ` set (hm_list H (hb_fields (ls_block st)))"

lemma set_pseudo_names: "names_in H (set_pseudo get put v m st) = names_in H st"
  by (simp add: names_in_def set_pseudo_def Let_def)

lemma load_header_names:
  assumes "header_map_ok H" "takes_at_most H n" "card (names_in H st) \<le> n"
  shows "card (names_in H (load_header H m h st)) \<le> n"
proof (cases h)
  case (Header_Field name v)
  have "card (fst ` set (hm_list H fs)) \<le> n" if fs: "hm_append H name v (hb_fields (ls_block st)) = Some fs" for fs
  proof -
    have "values_of k (hm_list H fs) = values_of k (hm_list H (hb_fields (ls_block st))) @ (if k = name then [v] else [])" for k
      using assms(1) fs by (simp add: header_map_ok_def)
    then have names: "fst ` set (hm_list H fs) = insert name (names_in H st)"
      unfolding names_in_def names_of_values by auto
    show ?thesis
    proof (cases "name \<in> names_in H st")
      case False
      then have "card (names_in H st) < n" using assms(2) fs unfolding takes_at_most_def names_in_def by (metis not_le option.distinct(1))
      with names show ?thesis by (simp add: card_insert_if names_in_def)
    qed (use assms(3) names in \<open>simp add: insert_absorb\<close>)
  qed
  with Header_Field assms(3) show ?thesis
    by (auto simp: names_in_def Let_def split: option.split)
qed (use assms(3) in \<open>simp_all add: set_pseudo_names\<close>)

text \<open>
  C12: a block whose fields have more names than the map takes makes \<open>load\<close> panic, as long
  as the block is below the limit on its size. The limit does not prevent it: by default it is 16 MiB, room for
  hundreds of thousands of short fields, while a \<open>HeaderMap\<close> has at most 32,768 places.
\<close>

theorem too_many_names_panic:
  assumes "header_map_ok H" "takes_at_most H n" "list_all rep_ok rs" "decoder_at t limit d"
    "block_meaning L limit True rs t = Ok (hs, t')" "acceptable hs" "list_cost hs < m"
    "n < card (fst ` set (fields_of hs))"
  shows "fst (header_block_load L H m (header_block_new H, concat (map rep_bytes rs), d)) = Panic"
proof -
  let ?st = "load_start H (header_block_new H)"
  obtain d' c' where run: "hpack_decode L (load_header H m) ((d, cursor_new (concat (map rep_bytes rs))), ?st) =
      (Ok (), (d', c'), fold (load_header H m) hs ?st)"
    using hpack_decode_at [OF assms(3,4), of L "load_header H m" ?st] assms(5) by auto
  have "card (names_in H (fold (load_header H m) hs st)) \<le> n" if "card (names_in H st) \<le> n" for st
    using that by (induction hs arbitrary: st) (simp_all add: load_header_names [OF assms(1,2)])
  moreover have "names_in H ?st = {}"
    using assms(1) by (simp add: names_in_def load_start_def header_block_new_def header_map_ok_def)
  ultimately have few: "card (names_in H (fold (load_header H m) hs ?st)) \<le> n" by simp
  have "ls_panicked (fold (load_header H m) hs ?st)"
  proof (rule ccontr)
    assume "\<not> ls_panicked (fold (load_header H m) hs ?st)"
    with fold_load_header_built [OF assms(1,7)] assms(6)
    have "names_in H (fold (load_header H m) hs ?st) = fst ` set (fields_of hs)"
      unfolding names_in_def names_of_values by (simp add: built_def)
    with few assms(8) show False by simp
  qed
  with run show ?thesis by (simp add: header_block_load_def)
qed

lemma too_many_names_panic_witness:
  "fst (header_block_load any_lib (bounded_fields 1) 1000
     (header_block_new (bounded_fields 1), [0, 1, 0x78, 1, 0x79, 0, 1, 0x79, 1, 0x79], hpack_decoder_new 4096)) = Panic"
proof -
  let ?rs = "[RNew Without (Plain [0x78]) (Plain [0x79]), RNew Without (Plain [0x79]) (Plain [0x79])]"
  have b: "concat (map rep_bytes ?rs) = [0, 1, 0x78, 1, 0x79, 0, 1, 0x79, 1, 0x79]"
    by (simp add: int_bytes_def encode_int_one_byte_def)
  have full: "takes_at_most (bounded_fields 1) 1"
    by (auto simp: takes_at_most_def bounded_fields_def length_remdups_card_conv)
  have "rep_ok r" if "r \<in> set ?rs" for r using that by auto
  then have ok: "list_all rep_ok ?rs" by (simp add: list_all_iff)
  let ?f = "\<lambda>n. Header_Field [n] \<lparr>hv_bytes = [0x79], hv_sensitive = False\<rparr> :: bytes header"
  have meaning: "block_meaning any_lib 4096 True ?rs ([], 4096) = Ok ([?f 0x78, ?f 0x79], ([], 4096))"
    by (simp add: any_lib_def header_new_def header_value_from_bytes_def)
  show ?thesis
    using too_many_names_panic [OF bounded_fields_ok full ok decoder_at_new meaning, of 1000] unfolding b
    by (simp add: acceptable_def list_cost_def decoded_header_size_def CONNECTION_HEADERS_def ascii_def fields_of_def)
qed

section \<open>The layout of the payload\<close>

text \<open>Padding: its length in the first byte, as many bytes at the end.\<close>

definition padded_as :: "bool \<Rightarrow> bytes \<Rightarrow> bytes \<Rightarrow> bool" where
  "padded_as padded prefix suffix \<longleftrightarrow>
     (if padded then \<exists>p. prefix = [p] \<and> length suffix = unat p else prefix = [] \<and> suffix = [])"

lemma take_pad_Ok:
  "take_pad padded src = Ok (n, rest) \<longleftrightarrow>
     (\<exists>pre. src = pre @ rest \<and> (if padded then \<exists>p. pre = [p] \<and> n = unat p else pre = [] \<and> n = 0))"
  by (cases src) (auto simp: take_pad_def)

lemma drop_pad_Ok:
  "drop_pad n src = Ok frag \<longleftrightarrow> (\<exists>padding. src = frag @ padding \<and> length padding = n)"
proof
  assume "drop_pad n src = Ok frag"
  then show "\<exists>padding. src = frag @ padding \<and> length padding = n"
    by (auto simp: drop_pad_def split: if_splits intro: exI [of _ "drop (length src - n) src"])
qed (auto simp: drop_pad_def)

lemma take_pad_no_panic: "take_pad padded src \<noteq> Panic"
  by (simp add: take_pad_def)

lemma drop_pad_no_panic: "drop_pad n src \<noteq> Panic"
  by (simp add: drop_pad_def)

definition load_dep ::
  "bool \<Rightarrow> stream_id \<Rightarrow> bytes \<Rightarrow> (stream_dependency option \<times> bytes, frame_error) result" where
  "load_dep prio sid src =
     (if prio then
        (if length src < 5 then Err MalformedMessage
         else rbind (slice_to src 5) (\<lambda>dep_src.
              rbind (stream_dependency_load dep_src) (\<lambda>stream_dep.
                if dependency_id stream_dep = sid then Err InvalidDependencyId
                else Ok (Some stream_dep, drop 5 src))))
      else Ok (None, src))"

lemma load_dep_Ok:
  "load_dep prio sid src = Ok (dep, rest) \<longleftrightarrow>
     (\<exists>b. src = b @ rest \<and>
       (if prio then \<exists>d. length b = 5 \<and> stream_dependency_load b = Ok d \<and> dependency_id d \<noteq> sid
          \<and> dep = Some d
        else b = [] \<and> dep = None))"
  (is "?l \<longleftrightarrow> ?r")
proof (cases prio)
  case True
  show ?thesis
  proof
    assume ?l
    then have "5 \<le> length src" using True by (auto simp: load_dep_def split: if_splits)
    with \<open>?l\<close> True obtain d where "stream_dependency_load (take 5 src) = Ok d" "dependency_id d \<noteq> sid"
      "dep = Some d" "rest = drop 5 src"
      by (auto simp: load_dep_def slice_to_Ok rbind_eq_Ok split: if_splits)
    with \<open>5 \<le> length src\<close> True show ?r by (intro exI [of _ "take 5 src"]) simp
  next
    assume ?r
    then obtain b d where "src = b @ rest" "length b = 5" "stream_dependency_load b = Ok d"
      "dependency_id d \<noteq> sid" "dep = Some d"
      using True by auto
    with True show ?l by (simp add: load_dep_def slice_to_Ok)
  qed
qed (auto simp: load_dep_def)

lemma load_dep_no_panic: "load_dep prio sid src \<noteq> Panic"
  by (auto simp: load_dep_def slices rbind_eq_Panic stream_dependency_load_Ok Let_def)

lemma headers_load_eq:
  "headers_load H h src =
     (let flags = head_flag h in
      rbind (take_pad (flag_is_padded flags) src) (\<lambda>(pad, src).
      rbind (load_dep (flag_is_priority flags) (head_stream_id h) src) (\<lambda>(stream_dep, src).
      rbind (drop_pad pad src) (\<lambda>src.
        Ok (\<lparr>h_stream_id = head_stream_id h, h_stream_dep = stream_dep,
             h_block = header_block_new H, h_flags = flags\<rparr>, src)))))"
  unfolding headers_load_def load_dep_def ..

lemma headers_load_no_panic: "headers_load H h src \<noteq> Panic"
  by (auto simp: headers_load_eq Let_def rbind_eq_Panic take_pad_no_panic load_dep_no_panic
      drop_pad_no_panic)

lemma push_promise_load_no_panic: "push_promise_load H h src \<noteq> Panic"
  by (auto simp: push_promise_load_def Let_def rbind_eq_Panic take_pad_no_panic slices
      drop_pad_no_panic stream_id_parse_Ok split: if_splits)

text \<open>
  C13: a HEADERS payload is accepted exactly when it is the pad length
  (if the flag says so), a stream dependency other than the stream itself (if the flag says so),
  the fragment of the header block, and as much padding as announced; the fragment is what
  is handed on.
\<close>

theorem headers_load_exact:
  "headers_load H h src = Ok (f, frag) \<longleftrightarrow>
     (\<exists>pre dep padding. src = pre @ dep @ frag @ padding
        \<and> padded_as (flag_is_padded (head_flag h)) pre padding
        \<and> (if flag_is_priority (head_flag h)
           then \<exists>d. length dep = 5 \<and> stream_dependency_load dep = Ok d
             \<and> dependency_id d \<noteq> head_stream_id h \<and> h_stream_dep f = Some d
           else dep = [] \<and> h_stream_dep f = None)
        \<and> h_stream_id f = head_stream_id h \<and> h_flags f = head_flag h
        \<and> h_block f = header_block_new H)"
proof -
  let ?f = "\<lambda>dep. \<lparr>h_stream_id = head_stream_id h, h_stream_dep = dep, h_block = header_block_new H,
    h_flags = head_flag h\<rparr>"
  have "headers_load H h src = Ok (f, frag) \<longleftrightarrow>
    (\<exists>n s1 dep s2. take_pad (flag_is_padded (head_flag h)) src = Ok (n, s1)
       \<and> load_dep (flag_is_priority (head_flag h)) (head_stream_id h) s1 = Ok (dep, s2)
       \<and> drop_pad n s2 = Ok frag \<and> f = ?f dep)"
    by (auto simp: headers_load_eq Let_def rbind_eq_Ok)
  also have "\<dots> \<longleftrightarrow> (\<exists>n pre b padding dep. src = pre @ b @ frag @ padding \<and> length padding = n
      \<and> (if flag_is_padded (head_flag h) then \<exists>p. pre = [p] \<and> n = unat p else pre = [] \<and> n = 0)
      \<and> (if flag_is_priority (head_flag h)
         then \<exists>d. length b = 5 \<and> stream_dependency_load b = Ok d \<and> dependency_id d \<noteq> head_stream_id h
           \<and> dep = Some d
         else b = [] \<and> dep = None) \<and> f = ?f dep)"
    unfolding take_pad_Ok load_dep_Ok drop_pad_Ok by blast
  finally show ?thesis by (cases f) (simp add: padded_as_def, blast)
qed

section \<open>Loading fragments is safe\<close>

lemma header_block_load_ok:
  assumes "dt_ok (hd_table d)" "header_block_load L H m (b, src, d) = (r, b', src', d')"
    "header_map_ok H" "map_suffices H m (length (hm_list H (hb_fields b)) + length src)"
  shows "r \<noteq> Panic \<and> dt_ok (hd_table d')"
proof -
  let ?d = "case hd_max_size_update d of
     Some n \<Rightarrow> d\<lparr>hd_max_size_update := None, hd_last_max_update := n\<rparr> | None \<Rightarrow> d"
  obtain res d1 c1 st where run: "hpack_decode L (load_header H m) ((d, cursor_new src), load_start H b) =
      (res, (d1, c1), st)"
    by (metis prod.exhaust)
  have "dec_ok (?d, cursor_new src)"
    using assms(1) by (simp add: dec_ok_def cursor_new_def split: option.split)
  from decode_loop_ok [OF this, of L "load_header H m" True "load_start H b" res "(d1, c1)" st] run
  have "res \<noteq> Panic \<and> dec_ok (d1, c1)" by (simp add: hpack_decode_def Let_def)
  with assms(2) run load_no_panic [OF assms(3,4) run] show ?thesis
    by (auto simp: header_block_load_def dec_ok_def split: result.splits if_splits)
qed

end
