(* ===== verification/Framed_Read.thy ===== *)
theory Framed_Read
  imports Frame_Headers Frame_Settings Frame_Data H2_Errors
begin

text \<open>
  The frame reader (\<open>h2/codec/framed_read.rs\<close>): raw frames, cut from the stream by the length-delimited
  codec, become frames; header blocks that come in several fragments are collected in \<open>partial\<close>.
\<close>

section \<open>Frames\<close>

text \<open>\<open>Frame<T>\<close> (\<open>h2/frame/mod.rs\<close>), with the payload type of its DATA frames.\<close>

datatype ('b, 'm) payload_frame =
    FData "'b data_frame"
  | FHeaders "'m headers"
  | FPriority priority
  | FPushPromise "'m push_promise"
  | FSettings settings
  | FPing ping
  | FGoAway go_away
  | FWindowUpdate window_update
  | FReset reset

type_synonym 'm frame = "(bytes, 'm) payload_frame"

datatype 'm continuable =
    Cont_Headers "'m headers"
  | Cont_PushPromise "'m push_promise"

fun continuable_stream_id :: "'m continuable \<Rightarrow> stream_id" where
  "continuable_stream_id (Cont_Headers f) = h_stream_id f"
| "continuable_stream_id (Cont_PushPromise f) = pp_stream_id f"

fun continuable_is_over_size :: "'m continuable \<Rightarrow> bool" where
  "continuable_is_over_size (Cont_Headers f) = hb_is_over_size (h_block f)"
| "continuable_is_over_size (Cont_PushPromise f) = hb_is_over_size (pp_block f)"

fun continuable_is_end_headers :: "'m continuable \<Rightarrow> bool" where
  "continuable_is_end_headers (Cont_Headers f) = headers_is_end_headers f"
| "continuable_is_end_headers (Cont_PushPromise f) = push_promise_is_end_headers f"

fun continuable_load_hpack ::
  "http_lib \<Rightarrow> 'm header_map_lib \<Rightarrow> nat \<Rightarrow> ('m continuable \<times> bytes \<times> hpack_decoder, unit, frame_error) op" where
  "continuable_load_hpack L H m (Cont_Headers f, src, decoder) =
     (case headers_load_hpack L H m (f, src, decoder) of (r, f, src, decoder) \<Rightarrow> (r, Cont_Headers f, src, decoder))"
| "continuable_load_hpack L H m (Cont_PushPromise f, src, decoder) =
     (case push_promise_load_hpack L H m (f, src, decoder) of
        (r, f, src, decoder) \<Rightarrow> (r, Cont_PushPromise f, src, decoder))"

text \<open>A frame that came in one piece, and \<open>From<Continuable>\<close>, which marks the end of the headers.\<close>

fun frame_of :: "'m continuable \<Rightarrow> 'm frame" where
  "frame_of (Cont_Headers f) = FHeaders f"
| "frame_of (Cont_PushPromise f) = FPushPromise f"

fun frame_from_continuable :: "'m continuable \<Rightarrow> 'm frame" where
  "frame_from_continuable (Cont_Headers f) = FHeaders (headers_set_end_headers f)"
| "frame_from_continuable (Cont_PushPromise f) = FPushPromise (push_promise_set_end_headers f)"

section \<open>The reader\<close>

record 'm partial =
  part_frame :: "'m continuable"
  part_buf :: bytes

record 'm framed_read =
  fr_hpack :: hpack_decoder
  fr_max_header_list_size :: nat
  fr_partial :: "'m partial option"

definition DEFAULT_SETTINGS_MAX_HEADER_LIST_SIZE :: nat where
  "DEFAULT_SETTINGS_MAX_HEADER_LIST_SIZE = push_bit 20 16"

definition framed_read_new :: "'m framed_read" where
  "framed_read_new = \<lparr>fr_hpack = hpack_decoder_new DEFAULT_SETTINGS_HEADER_TABLE_SIZE,
     fr_max_header_list_size = DEFAULT_SETTINGS_MAX_HEADER_LIST_SIZE, fr_partial = None\<rparr>"

definition set_max_header_list_size :: "nat \<Rightarrow> 'm framed_read \<Rightarrow> 'm framed_read" where
  "set_max_header_list_size v s = s\<lparr>fr_max_header_list_size := v\<rparr>"

type_synonym ('m, 'a) read_op = "('m framed_read, 'a, recv_error) op"

definition conn_error :: recv_error where
  "conn_error = Recv_Connection PROTOCOL_ERROR"

text \<open>What follows \<open>load_hpack\<close>, in the macro \<open>header_block!\<close> and for CONTINUATION frames.\<close>

definition after_load_hpack ::
  "bool \<Rightarrow> stream_id \<Rightarrow> (unit, frame_error) result \<Rightarrow> ('m, 'a) read_op \<Rightarrow> ('m, 'a) read_op" where
  "after_load_hpack is_end_headers sid res continue =
     (case res of
        Ok _ \<Rightarrow> continue
      | Err e \<Rightarrow>
          (case e of
             Hpack (NeedMore _) \<Rightarrow> if \<not> is_end_headers then continue else sfail conn_error
           | MalformedMessage \<Rightarrow> sfail (Recv_Stream sid PROTOCOL_ERROR)
           | _ \<Rightarrow> sfail conn_error)
      | Panic \<Rightarrow> spanic)"

definition load_block ::
  "http_lib \<Rightarrow> 'm header_map_lib \<Rightarrow> bool \<Rightarrow> stream_id \<Rightarrow> ('m continuable \<Rightarrow> 'm frame) \<Rightarrow> 'm continuable \<Rightarrow>
     bytes \<Rightarrow> ('m, 'm frame option) read_op" where
  "load_block L H is_end_headers sid wrap frame payload s =
     (case continuable_load_hpack L H (fr_max_header_list_size s) (frame, payload, fr_hpack s) of
        (res, frame, payload, hpack) \<Rightarrow>
          after_load_hpack is_end_headers sid res
            (\<lambda>s. if is_end_headers then (Ok (Some (wrap frame)), s)
                 else (Ok None, s\<lparr>fr_partial := Some \<lparr>part_frame = frame, part_buf = payload\<rparr>\<rparr>))
            (s\<lparr>fr_hpack := hpack\<rparr>))"

definition header_block_frame ::
  "http_lib \<Rightarrow> 'm header_map_lib \<Rightarrow> head \<Rightarrow> ('m continuable \<times> bytes, frame_error) result \<Rightarrow>
     ('m, 'm frame option) read_op" where
  "header_block_frame L H h loaded =
     (case loaded of
        Err e \<Rightarrow>
          (if e = InvalidDependencyId then sfail (Recv_Stream (head_stream_id h) PROTOCOL_ERROR)
           else sfail conn_error)
      | Panic \<Rightarrow> spanic
      | Ok (frame, payload) \<Rightarrow>
          load_block L H (continuable_is_end_headers frame) (head_stream_id h) frame_of frame payload)"

definition continuation_frame ::
  "http_lib \<Rightarrow> 'm header_map_lib \<Rightarrow> head \<Rightarrow> bytes \<Rightarrow> ('m, 'm frame option) read_op" where
  "continuation_frame L H h bytes s =
     (let is_end_headers = (head_flag h AND 0x4 = 0x4);
          taken = s\<lparr>fr_partial := None\<rparr>
      in case fr_partial s of
        None \<Rightarrow> (Err conn_error, taken)
      | Some partial \<Rightarrow>
          if continuable_stream_id (part_frame partial) \<noteq> head_stream_id h then (Err conn_error, taken)
          else if part_buf partial \<noteq> [] \<and> continuable_is_over_size (part_frame partial)
              \<and> length (part_buf partial) + length bytes > fr_max_header_list_size s
            then (Err (Recv_Connection COMPRESSION_ERROR), taken)
          else
            let buf = (if part_buf partial = [] then drop HEADER_LEN bytes
                       else part_buf partial @ drop HEADER_LEN bytes)
            in load_block L H is_end_headers (head_stream_id h) frame_from_continuable
                 (part_frame partial) buf taken)"

definition or_conn_error :: "('a, frame_error) result \<Rightarrow> ('a, recv_error) result" where
  "or_conn_error = map_err (\<lambda>_. conn_error)"

definition decode_frame ::
  "http_lib \<Rightarrow> 'm header_map_lib \<Rightarrow> bytes \<Rightarrow> ('m, 'm frame option) read_op" where
  "decode_frame L H bytes s =
     (case head_parse bytes of
        Err e \<Rightarrow> (Err e, s)
      | Panic \<Rightarrow> (Panic, s)
      | Ok h \<Rightarrow>
          if fr_partial s \<noteq> None \<and> head_kind h \<noteq> Kind_Continuation then (Err conn_error, s)
          else
            let body = drop HEADER_LEN bytes;
                plain = (\<lambda>r. (or_conn_error r, s))
            in (case head_kind h of
                  Kind_Settings \<Rightarrow> plain (map_ok (\<lambda>f. Some (FSettings f)) (settings_load h body))
                | Kind_Ping \<Rightarrow> plain (map_ok (\<lambda>f. Some (FPing f)) (ping_load h body))
                | Kind_WindowUpdate \<Rightarrow>
                    plain (map_ok (\<lambda>f. Some (FWindowUpdate f)) (window_update_load h body))
                | Kind_Data \<Rightarrow> plain (map_ok (\<lambda>f. Some (FData f)) (data_load h body))
                | Kind_Headers \<Rightarrow>
                    header_block_frame L H h
                      (map_ok (map_prod Cont_Headers id) (headers_load H h body)) s
                | Kind_Reset \<Rightarrow> plain (map_ok (\<lambda>f. Some (FReset f)) (reset_load h body))
                | Kind_GoAway \<Rightarrow> plain (map_ok (\<lambda>f. Some (FGoAway f)) (go_away_load body))
                | Kind_PushPromise \<Rightarrow>
                    header_block_frame L H h
                      (map_ok (map_prod Cont_PushPromise id) (push_promise_load H h body)) s
                | Kind_Priority \<Rightarrow>
                    (if sid_word (head_stream_id h) = 0 then (Err conn_error, s)
                     else
                       (case priority_load h body of
                          Ok f \<Rightarrow> Ok (Some (FPriority f))
                        | Err e \<Rightarrow>
                            if e = InvalidDependencyId
                            then Err (Recv_Stream (head_stream_id h) PROTOCOL_ERROR)
                            else Err conn_error
                        | Panic \<Rightarrow> Panic, s))
                | Kind_Continuation \<Rightarrow> continuation_frame L H h bytes s
                | Kind_Unknown \<Rightarrow> (Ok None, s)))"

text \<open>
  \<open>poll_next\<close> over the raw frames that have arrived: it goes on until there is a frame for the caller.
  The raw frames not yet looked at are part of the state.
\<close>

fun read_next ::
  "http_lib \<Rightarrow> 'm header_map_lib \<Rightarrow> bytes list \<Rightarrow> 'm framed_read \<Rightarrow>
     ('m frame option, recv_error) result \<times> bytes list \<times> 'm framed_read" where
  "read_next L H [] s = (Ok None, [], s)"
| "read_next L H (raw # raws) s =
     (case decode_frame L H raw s of
        (Ok (Some frame), s) \<Rightarrow> (Ok (Some frame), raws, s)
      | (Ok None, s) \<Rightarrow> read_next L H raws s
      | (Err e, s) \<Rightarrow> (Err e, raws, s)
      | (Panic, s) \<Rightarrow> (Panic, raws, s))"

section \<open>No input makes the reader panic\<close>

text \<open>The map takes as many fields as the limit on the header list allows, each of which counts 32 bytes at least.\<close>

definition reader_ok :: "'m header_map_lib \<Rightarrow> 'm framed_read \<Rightarrow> bool" where
  "reader_ok H s \<longleftrightarrow> dt_ok (hd_table (fr_hpack s)) \<and> header_map_ok H \<and> fr_max_header_list_size s \<le> 32 * (hm_max H + 1)"

lemma reader_ok_partial [simp]: "reader_ok H (s\<lparr>fr_partial := p\<rparr>) = reader_ok H s"
  by (simp add: reader_ok_def)

lemma continuable_load_hpack_ok:
  assumes "continuable_load_hpack L H (fr_max_header_list_size s) (f, src, fr_hpack s) = (r, f', src', d')" "reader_ok H s"
  shows "r \<noteq> Panic \<and> dt_ok (hd_table d')"
  using assms header_block_load_ok [of "fr_hpack s" L H "fr_max_header_list_size s"]
  by (cases f) (auto simp: reader_ok_def map_suffices_def headers_load_hpack_def push_promise_load_hpack_def
      split: prod.splits)

lemma keeps_after_load_hpack:
  assumes "keeps (reader_ok H) continue" "res \<noteq> Panic"
  shows "keeps (reader_ok H) (after_load_hpack e sid res continue)"
  using assms
  by (auto simp: after_load_hpack_def keeps_sfail split: result.split frame_error.split decoder_error.split)

lemma keeps_load_block: "keeps (reader_ok H) (load_block L H e sid wrap f p)"
proof (rule keepsI)
  fix s r s'
  assume s: "reader_ok H s" and m: "load_block L H e sid wrap f p s = (r, s')"
  obtain res f' p' d where run: "continuable_load_hpack L H (fr_max_header_list_size s) (f, p, fr_hpack s)
      = (res, f', p', d)"
    by (metis prod.exhaust)
  have d: "res \<noteq> Panic \<and> dt_ok (hd_table d)" by (rule continuable_load_hpack_ok [OF run s])
  let ?continue = "\<lambda>s. if e then (Ok (Some (wrap f')), s)
    else (Ok None, s\<lparr>fr_partial := Some \<lparr>part_frame = f', part_buf = p'\<rparr>\<rparr>)"
  have "keeps (reader_ok H) ?continue" by (auto simp: keeps_def split: if_splits)
  from keeps_after_load_hpack [OF this, of res e sid] d
  have "keeps (reader_ok H) (after_load_hpack e sid res ?continue)" by simp
  from keepsD [OF this, of "s\<lparr>fr_hpack := d\<rparr>" r s'] m run d s show "r \<noteq> Panic \<and> reader_ok H s'"
    by (simp add: load_block_def reader_ok_def)
qed

lemma keeps_header_block_frame:
  "loaded \<noteq> Panic \<Longrightarrow> keeps (reader_ok H) (header_block_frame L H h loaded)"
  by (auto simp: header_block_frame_def keeps_load_block keeps_sfail split: result.split)

lemma keeps_continuation_frame: "keeps (reader_ok H) (continuation_frame L H h bytes)"
proof (rule keepsI)
  fix s r s'
  assume "reader_ok H s" "continuation_frame L H h bytes s = (r, s')"
  then show "r \<noteq> Panic \<and> reader_ok H s'"
    using keepsD [OF keeps_load_block, of H "s\<lparr>fr_partial := None\<rparr>"]
    by (auto simp: continuation_frame_def Let_def split: option.splits if_splits)
qed

lemma loads_no_panic:
  "ping_load h b \<noteq> Panic" "window_update_load h b \<noteq> Panic" "reset_load h b \<noteq> Panic" "go_away_load b \<noteq> Panic"
  by (auto simp: ping_load_def window_update_load_def reset_load_def go_away_load_def
      unpack_octets_4_def index_at_def slices rbind_eq_Panic stream_id_parse_Ok Let_def split: if_splits)

lemma keeps_decode_frame:
  assumes "HEADER_LEN \<le> length raw"
  shows "keeps (reader_ok H) (decode_frame L H raw)"
proof (rule keepsI)
  fix s r s'
  assume s: "reader_ok H s" and m: "decode_frame L H raw s = (r, s')"
  obtain h where h: "(head_parse raw :: (head, recv_error) result) = Ok h"
    using head_parse_Ok [OF assms] by blast
  note no_panic = loads_no_panic settings_load_no_panic data_load_no_panic priority_load_no_panic
  show "r \<noteq> Panic \<and> reader_ok H s'"
  proof (cases "fr_partial s \<noteq> None \<and> head_kind h \<noteq> Kind_Continuation")
    case True
    with m h s show ?thesis by (auto simp: decode_frame_def)
  next
    case False
    have 1: "map_ok g (headers_load H h b) \<noteq> Panic" "map_ok g' (push_promise_load H h b) \<noteq> Panic" for g g' b
      by (simp_all add: headers_load_no_panic push_promise_load_no_panic)
    show ?thesis
      using m h s False keepsD [OF keeps_header_block_frame [OF 1(1)] s]
        keepsD [OF keeps_header_block_frame [OF 1(2)] s] keepsD [OF keeps_continuation_frame s]
      by (cases "head_kind h")
        (auto simp: decode_frame_def Let_def or_conn_error_def no_panic split: if_splits result.splits)
  qed
qed

text \<open>
  C15: whatever raw frames arrive (each with at least the nine bytes of a
  frame header, which the length-delimited codec guarantees), reading them ends, does not
  panic, and leaves a decoder whose dynamic table respects its limit; the frames not looked
  at are a rest of the input. This holds when the limit on the header list is low enough for the map of the crate \<open>http\<close>:
  32 bytes for every field that it takes in any case, and one more. (With a higher limit, the default of 16 MiB
  included, the map can panic: see \<open>Frame_Headers\<close>.)
\<close>

theorem reader_never_panics:
  assumes "list_all (\<lambda>raw. HEADER_LEN \<le> length raw) raws" "dt_ok (hd_table (fr_hpack s))"
    "header_map_ok H" "fr_max_header_list_size s \<le> 32 * (hm_max H + 1)"
    "read_next L H raws s = (r, rest, s')"
  shows "r \<noteq> Panic \<and> dt_ok (hd_table (fr_hpack s')) \<and> (\<exists>used. raws = used @ rest)"
proof -
  have "r \<noteq> Panic \<and> reader_ok H s' \<and> (\<exists>used. raws = used @ rest)"
    if "list_all (\<lambda>raw. HEADER_LEN \<le> length raw) raws" "reader_ok H s" "read_next L H raws s = (r, rest, s')" for raws s
    using that
  proof (induction raws arbitrary: s)
    case (Cons raw raws)
    obtain x s1 where m: "decode_frame L H raw s = (x, s1)" by fastforce
    have k: "x \<noteq> Panic \<and> reader_ok H s1"
      using keepsD [OF keeps_decode_frame Cons.prems(2) m] Cons.prems(1) by simp
    show ?case
    proof (cases x)
      case (Ok y)
      show ?thesis
      proof (cases y)
        case None
        with Cons.IH [of s1] Cons.prems m k Ok show ?thesis by (auto intro: exI [of _ "raw # _"])
      next
        case (Some f)
        with Cons.prems(3) m k Ok show ?thesis by (auto intro: exI [of _ "[raw]"])
      qed
    qed (use Cons.prems(3) m k in \<open>auto intro: exI [of _ "[raw]"]\<close>)
  qed auto
  from this [OF assms(1) _ assms(5)] assms(2-4) show ?thesis by (simp add: reader_ok_def)
qed

lemma reader_never_panics_witness:
  "\<exists>r rest s'. read_next any_lib list_fields [[0, 0, 1, 9, 4, 0, 0, 0, 1, 0x82]] (set_max_header_list_size 65536 framed_read_new) = (r, rest, s')
     \<and> r \<noteq> Panic \<and> rest = []"
proof -
  let ?raw = "[0, 0, 1, 9, 4, 0, 0, 0, 1, 0x82] :: bytes" and ?s = "set_max_header_list_size 65536 framed_read_new"
  obtain r rest and s' :: "field_list framed_read" where
    run: "read_next any_lib list_fields [?raw] ?s = (r, rest, s')"
    by (metis prod.exhaust)
  moreover have "rest = []" using run by (auto split: prod.splits result.splits option.splits)
  moreover have "dt_ok (hd_table (fr_hpack ?s))"
    by (simp add: framed_read_new_def set_max_header_list_size_def hpack_decoder_new_def dt_new_ok)
  ultimately show ?thesis
    using reader_never_panics [OF _ _ list_fields_ok _ run]
    by (auto simp: HEADER_LEN_def set_max_header_list_size_def)
qed

section \<open>A header block is not interrupted\<close>

text \<open>
  C16: while a header block is incomplete only a CONTINUATION frame of
  its stream is admitted, otherwise only frames that are not CONTINUATION: anything else is a
  connection error of kind \<open>PROTOCOL_ERROR\<close>.
\<close>

theorem header_block_not_interrupted:
  assumes "(head_parse raw :: (head, recv_error) result) = Ok h"
    "\<not> (case fr_partial s of
          None \<Rightarrow> head_kind h \<noteq> Kind_Continuation
        | Some p \<Rightarrow> head_kind h = Kind_Continuation
            \<and> continuable_stream_id (part_frame p) = head_stream_id h)"
  shows "fst (decode_frame L H raw s) = Err (Recv_Connection PROTOCOL_ERROR)"
  using assms
  by (auto simp: decode_frame_def continuation_frame_def Let_def conn_error_def split: option.splits)

lemma header_block_not_interrupted_witness:
  "fst (decode_frame any_lib list_fields [0, 0, 8, 6, 0, 0, 0, 0, 0, 1, 2, 3, 4, 5, 6, 7, 8]
     (framed_read_new\<lparr>fr_partial := Some \<lparr>part_frame =
        Cont_Headers (headers_new (StreamId 1) pseudo_default []), part_buf = []\<rparr>\<rparr>))
   = Err (Recv_Connection PROTOCOL_ERROR)"
  by (rule header_block_not_interrupted
      [of _ "\<lparr>head_kind = Kind_Ping, head_flag = 0, head_stream_id = StreamId 0\<rparr>"])
    (simp_all add: head_parse_Ok HEADER_LEN_def kind_new_def join_u32_def)

text \<open>The kinds of frames that carry a part of a header block, and the frames that are delivered for them.\<close>

definition block_kind :: "kind \<Rightarrow> bool" where
  "block_kind k \<longleftrightarrow> k = Kind_Headers \<or> k = Kind_PushPromise \<or> k = Kind_Continuation"

fun ends_block :: "'m frame \<Rightarrow> bool" where
  "ends_block (FHeaders f) \<longleftrightarrow> headers_is_end_headers f"
| "ends_block (FPushPromise f) \<longleftrightarrow> push_promise_is_end_headers f"
| "ends_block _ \<longleftrightarrow> False"

lemma ends_block_of:
  "ends_block (frame_of f) = continuable_is_end_headers f" "ends_block (frame_from_continuable f)"
proof -
  have "flag_is_end_headers (flag_set_end_headers x)" for x
    by (simp add: flag_is_end_headers_def flag_set_end_headers_def bit.conj_disj_distrib2)
  then show "ends_block (frame_of f) = continuable_is_end_headers f" "ends_block (frame_from_continuable f)"
    by (cases f; simp add: headers_is_end_headers_def push_promise_is_end_headers_def headers_set_end_headers_def
        push_promise_set_end_headers_def)+
qed

lemma continuable_load_end:
  "continuable_load_hpack L H m (f, p, d) = (res, f', p', d') \<Longrightarrow> continuable_is_end_headers f' = continuable_is_end_headers f"
  by (cases f) (auto simp: headers_load_hpack_def push_promise_load_hpack_def headers_is_end_headers_def
      push_promise_is_end_headers_def split: prod.splits)

lemma load_block_outcome:
  assumes "load_block L H e sid wrap f p s = (Ok r, s')" "fr_partial s = None"
  shows "case r of
      Some g \<Rightarrow> fr_partial s' = None \<and> e \<and> (\<exists>f'. g = wrap f' \<and> continuable_is_end_headers f' = continuable_is_end_headers f)
    | None \<Rightarrow> fr_partial s' \<noteq> None \<and> \<not> e"
  using assms continuable_load_end [of L H "fr_max_header_list_size s" f p "fr_hpack s"]
  by (auto simp: load_block_def after_load_hpack_def split: prod.splits result.splits frame_error.splits
      decoder_error.splits if_splits option.splits)

lemma loaded_flags:
  "headers_load H h src = Ok (f, p) \<Longrightarrow> continuable_is_end_headers (Cont_Headers f) = (head_flag h AND 4 = 4)"
  "push_promise_load H h src = Ok (g, p) \<Longrightarrow> continuable_is_end_headers (Cont_PushPromise g) = (head_flag h AND 4 = 4)"
  by (auto simp: headers_load_exact push_promise_load_def Let_def rbind_eq_Ok headers_is_end_headers_def
      push_promise_is_end_headers_def flag_is_end_headers_def H_END_HEADERS_def split: if_splits)

lemma header_block_outcome:
  assumes "header_block_frame L H h loaded s = (Ok r, s')" "fr_partial s = None"
    "\<And>f p. loaded = Ok (f, p) \<Longrightarrow> continuable_is_end_headers f = (head_flag h AND 4 = 4)"
  shows "case r of Some g \<Rightarrow> fr_partial s' = None \<and> head_flag h AND 4 = 4 \<and> ends_block g
    | None \<Rightarrow> fr_partial s' \<noteq> None \<and> head_flag h AND 4 \<noteq> 4"
  using assms by (auto simp: header_block_frame_def ends_block_of split: result.splits if_splits option.splits
      dest!: load_block_outcome)

lemma continuation_outcome:
  assumes "continuation_frame L H h raw s = (Ok r, s')"
  shows "case r of Some g \<Rightarrow> fr_partial s' = None \<and> head_flag h AND 4 = 4 \<and> ends_block g
    | None \<Rightarrow> fr_partial s' \<noteq> None \<and> head_flag h AND 4 \<noteq> 4"
proof -
  obtain sid f p where
    "load_block L H (head_flag h AND 4 = 4) sid frame_from_continuable f p (s\<lparr>fr_partial := None\<rparr>) = (Ok r, s')"
    using assms by (auto simp: continuation_frame_def Let_def split: option.splits if_splits)
  from load_block_outcome [OF this] show ?thesis by (auto simp: ends_block_of split: option.splits)
qed

text \<open>
  C17: a frame with a header block is delivered only when the raw frame
  at hand has the END_HEADERS flag; the delivered frame has it too, and no header block is
  pending. A raw frame that is neither delivered nor in error is of an unknown kind, or it lacks END_HEADERS and
  leaves its header block pending.
\<close>

theorem delivered_frames_are_complete:
  assumes "(head_parse raw :: (head, recv_error) result) = Ok h" "decode_frame L H raw s = (Ok r, s')"
  shows "case r of
      Some f \<Rightarrow> fr_partial s' = None \<and> (block_kind (head_kind h) \<longrightarrow> head_flag h AND 4 = 4 \<and> ends_block f)
    | None \<Rightarrow> head_kind h = Kind_Unknown \<and> s' = s
        \<or> block_kind (head_kind h) \<and> head_flag h AND 4 \<noteq> 4 \<and> fr_partial s' \<noteq> None"
proof (cases "fr_partial s")
  case None
  note loaded = loaded_flags [unfolded continuable_is_end_headers.simps]
  show ?thesis
    using assms None
    by (cases "head_kind h")
      (auto simp: decode_frame_def Let_def or_conn_error_def map_ok_eq_Ok block_kind_def loaded
        split: if_splits result.splits option.splits dest!: header_block_outcome continuation_outcome)
next
  case (Some p)
  with assms show ?thesis
    by (auto simp: decode_frame_def Let_def block_kind_def split: if_splits option.splits dest!: continuation_outcome)
qed

text \<open>\<open>:method: GET\<close> in one frame, and the same frame without END_HEADERS.\<close>

lemma delivered_frames_are_complete_witness:
  "(case decode_frame any_lib list_fields [0, 0, 1, 1, 4, 0, 0, 0, 1, 0x82] framed_read_new of
      (Ok (Some f), s') \<Rightarrow> fr_partial s' = None \<and> ends_block f | (Ok None, s') \<Rightarrow> False | _ \<Rightarrow> True)
   \<and> (case decode_frame any_lib list_fields [0, 0, 1, 1, 0, 0, 0, 0, 1, 0x82] framed_read_new of
      (Ok (Some f), s') \<Rightarrow> False | (Ok None, s') \<Rightarrow> fr_partial s' \<noteq> None | _ \<Rightarrow> True)"
proof -
  have head: "(head_parse [0, 0, 1, 1, f, 0, 0, 0, 1, 0x82] :: (head, recv_error) result) =
      Ok \<lparr>head_kind = Kind_Headers, head_flag = f, head_stream_id = StreamId 1\<rparr>" for f
    by (simp add: head_parse_Ok HEADER_LEN_def kind_new_def join_u32_def STREAM_ID_MASK_def)
  note complete = delivered_frames_are_complete [OF head, of any_lib list_fields _ framed_read_new]
  show ?thesis
    using complete [of 4] complete [of 0] by (fastforce simp: block_kind_def split: result.splits prod.splits option.splits)
qed

section \<open>A block cut inside a field\<close>










end
