(* ===== verification/Framed_Codec.thy ===== *)
theory Framed_Codec
  imports H2_Errors
begin

text \<open>
  Reading frames from a transport (\<open>common/codec/framed_impl.rs\<close>, \<open>decoder.rs\<close>): \<open>poll_next\<close> feeds what the
  transport delivers to a decoder and hands out the frames it finds. The contract between the
  two is the locale \<open>streaming_decoder\<close>; under it the frames do not depend on how the transport
  cuts the bytes.
\<close>

section \<open>The reader\<close>

text \<open>
  A decoder looks at its own state and the buffer and may change both. The outcome is a frame, \<open>None\<close> when
  more bytes are needed, or an error.
\<close>

type_synonym ('s, 'i, 'e) decoder = "('s \<times> bytes, 'i option, 'e) op"

record 's read_frame =
  rf_codec :: 's
  rf_eof :: bool
  rf_is_readable :: bool
  rf_buffer :: bytes

definition read_frame_new :: "'s \<Rightarrow> 's read_frame" where
  "read_frame_new codec = \<lparr>rf_codec = codec, rf_eof = False, rf_is_readable = False, rf_buffer = []\<rparr>"

text \<open>
  What the transport has to say when it is polled: some bytes (none at the end of the stream), that it
  is not ready, or an error. Beyond the end of the list it is not ready.
\<close>

datatype read_event = Got bytes | Not_Ready | Failed io_error

datatype ('i, 'e) polled =
    Ready_Frame 'i
  | Ready_End
  | Ready_Err 'e
  | Poll_Pending
  | Poll_Panic

text \<open>The first half of the loop body: \<open>None\<close> means that more has to be read.\<close>

definition try_decode ::
  "('s, 'i, 'e) decoder \<Rightarrow> ('s, 'i, 'e) decoder \<Rightarrow> 's read_frame \<Rightarrow>
     ('i, 'e) polled option \<times> 's read_frame" where
  "try_decode dec dec_eof st =
     (if rf_is_readable st then
        if rf_eof st then
          (case dec_eof (rf_codec st, rf_buffer st) of (r, codec, buffer) \<Rightarrow>
             (Some (case r of Ok (Some frame) \<Rightarrow> Ready_Frame frame | Ok None \<Rightarrow> Ready_End
                | Err e \<Rightarrow> Ready_Err e | Panic \<Rightarrow> Poll_Panic),
              st\<lparr>rf_codec := codec, rf_buffer := buffer\<rparr>))
        else
          (case dec (rf_codec st, rf_buffer st) of (r, codec, buffer) \<Rightarrow>
             let st = st\<lparr>rf_codec := codec, rf_buffer := buffer\<rparr> in
             (case r of
                Ok (Some frame) \<Rightarrow> (Some (Ready_Frame frame), st)
              | Ok None \<Rightarrow> (None, st\<lparr>rf_is_readable := False\<rparr>)
              | Err e \<Rightarrow> (Some (Ready_Err e), st)
              | Panic \<Rightarrow> (Some Poll_Panic, st)))
      else (None, st))"

fun poll_next ::
  "('s, 'i, 'e) decoder \<Rightarrow> ('s, 'i, 'e) decoder \<Rightarrow> (io_error \<Rightarrow> 'e) \<Rightarrow> read_event list \<Rightarrow> 's read_frame \<Rightarrow>
     ('i, 'e) polled \<times> read_event list \<times> 's read_frame" where
  "poll_next dec dec_eof of_io [] st =
     (case try_decode dec dec_eof st of
        (Some r, st) \<Rightarrow> (r, [], st)
      | (None, st) \<Rightarrow> (if rf_eof st then Poll_Panic else Poll_Pending, [], st))"
| "poll_next dec dec_eof of_io (ev # evs) st =
     (case try_decode dec dec_eof st of
        (Some r, st) \<Rightarrow> (r, ev # evs, st)
      | (None, st) \<Rightarrow>
          if rf_eof st then (Poll_Panic, ev # evs, st)
          else
            (case ev of
               Not_Ready \<Rightarrow> (Poll_Pending, evs, st)
             | Failed e \<Rightarrow> (Ready_Err (of_io e), evs, st)
             | Got bytes \<Rightarrow>
                 poll_next dec dec_eof of_io evs
                   (st\<lparr>rf_buffer := rf_buffer st @ bytes, rf_eof := (bytes = []),
                       rf_is_readable := True\<rparr>)))"

text \<open>The default \<open>decode_eof\<close> of the trait.\<close>

definition default_decode_eof :: "'e \<Rightarrow> ('s, 'i, 'e) decoder \<Rightarrow> ('s, 'i, 'e) decoder" where
  "default_decode_eof remaining dec =
     sbind dec (\<lambda>frame (codec, buf).
       case frame of
         Some frame \<Rightarrow> (Ok (Some frame), codec, buf)
       | None \<Rightarrow> (if buf = [] then Ok None else Err remaining, codec, buf))"

text \<open>
  Polling again and again, at most \<open>n\<close> times: the frames handed out until the transport has nothing more,
  the stream ends, or there is an error.
\<close>

fun polls ::
  "('s, 'i, 'e) decoder \<Rightarrow> ('s, 'i, 'e) decoder \<Rightarrow> (io_error \<Rightarrow> 'e) \<Rightarrow> nat \<Rightarrow> read_event list \<Rightarrow>
     's read_frame \<Rightarrow> 'i list \<times> ('i, 'e) polled" where
  "polls dec dec_eof of_io 0 evs st = ([], Poll_Pending)"
| "polls dec dec_eof of_io (Suc n) evs st =
     (case poll_next dec dec_eof of_io evs st of
        (Ready_Frame frame, evs, st) \<Rightarrow>
          (case polls dec dec_eof of_io n evs st of (frames, r) \<Rightarrow> (frame # frames, r))
      | (Poll_Pending, evs, st) \<Rightarrow>
          (if evs = [] then ([], Poll_Pending) else polls dec dec_eof of_io n evs st)
      | (r, evs, st) \<Rightarrow> ([], r))"

section \<open>The contract of a decoder\<close>

text \<open>\<open>drains dec sb items end\<close>: decoding again and again gives \<open>items\<close>, then \<open>None\<close> or an error.\<close>

inductive drains :: "('s, 'i, 'e) decoder \<Rightarrow> 's \<times> bytes \<Rightarrow> 'i list \<Rightarrow> 'e option \<Rightarrow> 's \<times> bytes \<Rightarrow> bool"
  for dec where
  drains_None: "dec sb = (Ok None, sb') \<Longrightarrow> drains dec sb [] None sb'"
| drains_Err: "dec sb = (Err e, sb') \<Longrightarrow> drains dec sb [] (Some e) sb'"
| drains_Some: "dec sb = (Ok (Some i), sb') \<Longrightarrow> drains dec sb' is e sb'' \<Longrightarrow> drains dec sb (i # is) e sb''"

inductive_cases drains_elim: "drains dec sb is e sb'"

lemma drains_cong: "dec sb = dec sb' \<Longrightarrow> drains dec sb is e sb'' \<longleftrightarrow> drains dec sb' is e sb''"
  by (simp add: drains.simps [of dec sb] drains.simps [of dec sb'])

lemma drains_of_None:
  "dec sb = (Ok None, sb') \<Longrightarrow> drains dec sb is e sb'' \<longleftrightarrow> is = [] \<and> e = None \<and> sb'' = sb'"
  by (auto elim: drains_elim intro: drains.intros)

lemma drains_of_Some:
  "dec sb = (Ok (Some i), sb') \<Longrightarrow>
     drains dec sb is e sb'' \<longleftrightarrow> (\<exists>is'. is = i # is' \<and> drains dec sb' is' e sb'')"
  by (auto elim: drains_elim intro: drains.intros)

lemma drains_of_Err:
  "dec sb = (Err x, sb') \<Longrightarrow> drains dec sb is e sb'' \<longleftrightarrow> is = [] \<and> e = Some x \<and> sb'' = sb'"
  by (auto elim: drains_elim intro: drains.intros)

text \<open>The bytes the transport delivers, and the histories without an end or an error.\<close>

fun data :: "read_event list \<Rightarrow> bytes" where
  "data [] = []"
| "data (Got b # evs) = b @ data evs"
| "data (_ # evs) = data evs"

fun flowing :: "read_event list \<Rightarrow> bool" where
  "flowing [] \<longleftrightarrow> True"
| "flowing (Got b # evs) \<longleftrightarrow> b \<noteq> [] \<and> flowing evs"
| "flowing (Not_Ready # evs) \<longleftrightarrow> flowing evs"
| "flowing (Failed _ # evs) \<longleftrightarrow> False"

text \<open>
  A decoder is a streaming decoder when bytes that arrive later do not change what it did with those it
  had: a frame found in the buffer is found with more bytes behind it, and having asked for
  more it continues as if it had seen all of them at once (the state it keeps after an error may
  differ). \<open>good\<close> is its invariant.
\<close>

locale streaming_decoder =
  fixes dec :: "('s, 'i, 'e) decoder" and good :: "'s \<times> bytes \<Rightarrow> bool"
  assumes good_append: "good (s, b) \<Longrightarrow> good (s, b @ x)"
    and some: "good (s, b) \<Longrightarrow> dec (s, b) = (Ok (Some i), s', b') \<Longrightarrow>
      dec (s, b @ x) = (Ok (Some i), s', b' @ x) \<and> good (s', b')"
    and none: "good (s, b) \<Longrightarrow> dec (s, b) = (Ok None, s', b') \<Longrightarrow>
      good (s', b') \<and> fst (dec (s', b' @ x)) = fst (dec (s, b @ x))
      \<and> (dec (s', b' @ x) = dec (s, b @ x) \<or> (\<exists>e. fst (dec (s, b @ x)) = Err e))"
    and err: "good (s, b) \<Longrightarrow> dec (s, b) = (Err e, s', b') \<Longrightarrow> fst (dec (s, b @ x)) = Err e"
    and no_panic: "good (s, b) \<Longrightarrow> fst (dec (s, b)) \<noteq> Panic"
begin

text \<open>\<open>pending evs st items\<close>: what the transport still delivers makes the decoder give \<open>items\<close>.\<close>

definition pending :: "read_event list \<Rightarrow> 's read_frame \<Rightarrow> 'i list \<Rightarrow> 's \<times> bytes \<Rightarrow> bool" where
  "pending evs st is sb \<longleftrightarrow> \<not> rf_eof st \<and> flowing evs \<and> good (rf_codec st, rf_buffer st)
     \<and> drains dec (rf_codec st, rf_buffer st @ data evs) is None sb
     \<and> (\<not> rf_is_readable st \<longrightarrow>
         dec (rf_codec st, rf_buffer st) = (Ok None, rf_codec st, rf_buffer st))"

lemma settled: "good (s, b) \<Longrightarrow> dec (s, b) = (Ok None, s', b') \<Longrightarrow> dec (s', b') = (Ok None, s', b')"
  using none [of s b s' b' "[]"] by auto

lemma drains_not_Err: "fst (dec sb) = Err e \<Longrightarrow> \<not> drains dec sb is None sb'"
  by (cases "dec sb") (simp add: drains_of_Err)

lemma drains_continue:
  assumes "good (s, b)" "dec (s, b) = (Ok None, s', b')" "drains dec (s, b @ x) is None sb"
  shows "drains dec (s', b' @ x) is None sb"
proof -
  from assms(3) have "fst (dec (s, b @ x)) \<noteq> Err e" for e by (auto dest: drains_not_Err)
  with none [OF assms(1,2), of x] have "dec (s', b' @ x) = dec (s, b @ x)" by blast
  with assms(3) show ?thesis by (simp add: drains_cong [of dec "(s, b @ x)" "(s', b' @ x)"])
qed

lemma drains_no_Err:
  assumes "good (s, b)" "dec (s, b) = (Err e, s', b')"
  shows "\<not> drains dec (s, b @ x) is None sb"
  by (rule drains_not_Err [OF err [OF assms, of x]])

lemma try_decode_pending:
  assumes "pending evs st is sb"
  shows "case try_decode dec dec_eof st of
      (Some r, st') \<Rightarrow> (\<exists>i is'. r = Ready_Frame i \<and> is = i # is' \<and> pending evs st' is' sb)
    | (None, st') \<Rightarrow> pending evs st' is sb \<and> \<not> rf_is_readable st'"
proof (cases "rf_is_readable st")
  case True
  let ?s = "rf_codec st" and ?b = "rf_buffer st"
  have p: "\<not> rf_eof st" "good (?s, ?b)" "drains dec (?s, ?b @ data evs) is None sb" "flowing evs"
    using assms by (auto simp: pending_def)
  obtain r s' b' where d: "dec (?s, ?b) = (r, s', b')" by (metis prod.exhaust)
  show ?thesis
  proof (cases r)
    case (Ok y)
    show ?thesis
    proof (cases y)
      case None
      with d Ok have d': "dec (?s, ?b) = (Ok None, s', b')" by simp
      from none [OF p(2) d', of "data evs"] drains_continue [OF p(2) d' p(3)]
      have "good (s', b')" "drains dec (s', b' @ data evs) is None sb" by simp_all
      with settled [OF p(2) d'] True p d Ok None show ?thesis by (simp add: try_decode_def pending_def)
    next
      case (Some i)
      with d Ok some [OF p(2), of i s' b' "data evs"] p(3) obtain is' where
        "good (s', b')" "is = i # is'" "drains dec (s', b' @ data evs) is' None sb"
        by (auto simp: drains_of_Some)
      with True p d Ok Some show ?thesis by (simp add: try_decode_def pending_def)
    qed
  next
    case (Err e)
    with d have "\<not> drains dec (?s, ?b @ data evs) is None sb"
      by (intro drains_no_Err [OF p(2)]) simp
    with p(3) show ?thesis by simp
  next
    case Panic
    with d no_panic [OF p(2)] show ?thesis by simp
  qed
qed (use assms in \<open>simp add: try_decode_def\<close>)

lemma pending_idle: "pending [] st is sb \<Longrightarrow> \<not> rf_is_readable st \<Longrightarrow> is = []"
  by (auto simp: pending_def drains_of_None)

lemma pending_not_eof: "pending evs st is sb \<Longrightarrow> \<not> rf_eof st"
  by (simp add: pending_def)

lemma poll_next_pending:
  assumes "pending evs st is sb"
  shows "case poll_next dec dec_eof of_io evs st of (r, evs', st') \<Rightarrow>
      (\<exists>i is'. r = Ready_Frame i \<and> is = i # is' \<and> pending evs' st' is' sb \<and> length evs' \<le> length evs)
      \<or> r = Poll_Pending \<and> pending evs' st' is sb \<and> (if evs' = [] then is = [] else length evs' < length evs)"
  using assms
proof (induction evs arbitrary: st)
  case Nil
  obtain r st1 where t: "try_decode dec dec_eof st = (r, st1)" by fastforce
  show ?case
  proof (cases r)
    case None
    with t try_decode_pending [OF Nil, of dec_eof]
    have p: "pending [] st1 is sb" "\<not> rf_is_readable st1" by auto
    then show ?thesis using t None pending_not_eof pending_idle by simp
  next
    case (Some x)
    with t try_decode_pending [OF Nil, of dec_eof] show ?thesis by auto
  qed
next
  case (Cons ev evs)
  obtain r st1 where t: "try_decode dec dec_eof st = (r, st1)" by fastforce
  show ?case
  proof (cases r)
    case (Some x)
    with t try_decode_pending [OF Cons.prems, of dec_eof] show ?thesis by auto
  next
    case None
    with t try_decode_pending [OF Cons.prems, of dec_eof]
    have p: "pending (ev # evs) st1 is sb" "\<not> rf_is_readable st1" by auto
    then have eof: "\<not> rf_eof st1" by (simp add: pending_def)
    show ?thesis
    proof (cases ev)
      case (Got c)
      let ?st = "st1\<lparr>rf_buffer := rf_buffer st1 @ c, rf_eof := (c = []), rf_is_readable := True\<rparr>"
      have "pending evs ?st is sb"
        using p(1) Got good_append by (auto simp: pending_def)
      from Cons.IH [OF this] show ?thesis
        using t None eof Got by (auto split: prod.splits if_splits)
    next
      case Not_Ready
      then have "pending evs st1 is sb" using p by (simp add: pending_def)
      then show ?thesis
        using t None eof Not_Ready p(2) pending_idle [of st1 "is" sb] by auto
    next
      case (Failed e)
      with p(1) show ?thesis by (simp add: pending_def)
    qed
  qed
qed

text \<open>Polling hands out all the frames, however the bytes are cut and delayed.\<close>

lemma polls_pending:
  assumes "pending evs st is sb" "length is + length evs < n"
  shows "polls dec dec_eof of_io n evs st = (is, Poll_Pending)"
  using assms
proof (induction n arbitrary: evs st "is")
  case (Suc n)
  obtain r evs' st' where r: "poll_next dec dec_eof of_io evs st = (r, evs', st')" by (metis prod.exhaust)
  with poll_next_pending [OF Suc.prems(1), of dec_eof of_io]
  consider (frame) i is' where "r = Ready_Frame i" "is = i # is'" "pending evs' st' is' sb"
      "length evs' \<le> length evs"
    | (wait) "r = Poll_Pending" "pending evs' st' is sb"
      "if evs' = [] then is = [] else length evs' < length evs"
    by auto
  then show ?case
  proof cases
    case frame
    with Suc.IH [OF frame(3)] Suc.prems(2) r show ?thesis by simp
  next
    case wait
    with Suc.IH [OF wait(2)] Suc.prems(2) r show ?thesis by (simp split: if_splits)
  qed
qed simp

lemma polls_all:
  assumes "flowing evs" "good (s, [])" "dec (s, []) = (Ok None, s, [])"
    "drains dec (s, data evs) is None sb" "length is + length evs < n"
  shows "polls dec dec_eof of_io n evs (read_frame_new s) = (is, Poll_Pending)"
  by (rule polls_pending [of _ _ _ sb])
    (use assms in \<open>simp_all add: pending_def read_frame_new_def\<close>)

end

end
