(* ===== verification/Length_Delimited.thy ===== *)
theory Length_Delimited
  imports Framed_Codec
begin

text \<open>
  The length-delimited codec (\<open>common/codec/length_delimited.rs\<close>), which cuts the byte stream of a connection
  into raw frames. Lengths are \<open>nat\<close>; \<open>usize::MAX\<close> is written out where the code checks for overflow.
\<close>

section \<open>Configuration\<close>

record ld_builder =
  max_frame_len :: nat
  length_field_len :: nat
  length_field_offset :: nat
  length_adjustment :: int
  num_skip :: "nat option"
  length_field_is_big_endian :: bool

definition builder_new :: ld_builder where
  "builder_new = \<lparr>max_frame_len = 8 * 1024 * 1024, length_field_len = 4, length_field_offset = 0,
     length_adjustment = 0, num_skip = None, length_field_is_big_endian = True\<rparr>"

definition set_max_frame_length :: "nat \<Rightarrow> ld_builder \<Rightarrow> ld_builder" where
  "set_max_frame_length v b = b\<lparr>max_frame_len := v\<rparr>"

definition set_length_field_length :: "nat \<Rightarrow> ld_builder \<Rightarrow> (ld_builder, 'e) result" where
  "set_length_field_length v b =
     rbind (assert_that (v > 0 \<and> v \<le> 8)) (\<lambda>_. Ok (b\<lparr>length_field_len := v\<rparr>))"

definition num_head_bytes :: "ld_builder \<Rightarrow> nat" where
  "num_head_bytes b =
     (let num = length_field_offset b + length_field_len b
      in max num (case num_skip b of Some n \<Rightarrow> n | None \<Rightarrow> 0))"

definition get_num_skip :: "ld_builder \<Rightarrow> nat" where
  "get_num_skip b =
     (case num_skip b of Some n \<Rightarrow> n | None \<Rightarrow> length_field_offset b + length_field_len b)"

section \<open>Decoding\<close>

datatype decode_state = Head | Data nat

record ld_codec =
  ld_builder_of :: ld_builder
  ld_state :: decode_state

definition new_codec :: "ld_builder \<Rightarrow> ld_codec" where
  "new_codec b = \<lparr>ld_builder_of = b, ld_state = Head\<rparr>"

text \<open>
  The errors: a \<open>LengthDelimitedCodecError\<close> of kind \<open>InvalidData\<close> when reading and of kind \<open>InvalidInput\<close> when
  writing, an adjustment that overflows, what is left at the end of the stream, and the
  errors of the transport.
\<close>

datatype ld_error =
    Frame_Too_Big
  | Payload_Too_Big
  | Adjustment_Overflow
  | Bytes_Remaining
  | Ld_Io io_error

text \<open>\<open>get_uint\<close> and \<open>get_uint_le\<close> of a buffer, \<open>put_uint\<close> and \<open>put_uint_le\<close>.\<close>

definition uint_be :: "bytes \<Rightarrow> nat" where
  "uint_be bs = foldl (\<lambda>n b. n * 256 + unat b) 0 bs"

fun be_uint :: "nat \<Rightarrow> nat \<Rightarrow> bytes" where
  "be_uint v 0 = []"
| "be_uint v (Suc n) = be_uint (v div 256) n @ [of_nat (v mod 256)]"

definition get_uint :: "bool \<Rightarrow> nat \<Rightarrow> bytes \<Rightarrow> nat" where
  "get_uint big_endian n src =
     (if big_endian then uint_be (take n src) else uint_be (rev (take n src)))"

definition put_uint :: "bool \<Rightarrow> nat \<Rightarrow> nat \<Rightarrow> bytes" where
  "put_uint big_endian v n = (if big_endian then be_uint v n else rev (be_uint v n))"

definition adjust :: "int \<Rightarrow> nat \<Rightarrow> nat option" where
  "adjust adj n =
     (if adj < 0 then (if nat (- adj) \<le> n then Some (n - nat (- adj)) else None)
      else (if n + nat adj \<le> USIZE_MAX then Some (n + nat adj) else None))"

definition decode_head :: "ld_builder \<Rightarrow> (bytes, nat option, ld_error) op" where
  "decode_head b src =
     (if length src < num_head_bytes b then (Ok None, src)
      else
        let n = get_uint (length_field_is_big_endian b) (length_field_len b)
                  (drop (length_field_offset b) src)
        in if n > max_frame_len b then (Err Frame_Too_Big, src)
           else
             (case adjust (length_adjustment b) n of
                None \<Rightarrow> (Err Adjustment_Overflow, src)
              | Some n \<Rightarrow> (Ok (Some n), if get_num_skip b > 0 then drop (get_num_skip b) src else src)))"

definition decode_data :: "nat \<Rightarrow> (ld_codec \<times> bytes, bytes option, ld_error) op" where
  "decode_data n s =
     (case s of (c, src) \<Rightarrow>
        if length src < n then (Ok None, c, src)
        else (Ok (Some (take n src)), c\<lparr>ld_state := Head\<rparr>, drop n src))"

definition ld_decode :: "(ld_codec, bytes, ld_error) decoder" where
  "ld_decode s =
     (case s of (c, src) \<Rightarrow>
        (case ld_state c of
           Head \<Rightarrow>
             (case decode_head (ld_builder_of c) src of
                (Ok (Some n), src) \<Rightarrow> decode_data n (c\<lparr>ld_state := Data n\<rparr>, src)
              | (Ok None, src) \<Rightarrow> (Ok None, c, src)
              | (Err e, src) \<Rightarrow> (Err e, c, src)
              | (Panic, src) \<Rightarrow> (Panic, c, src))
         | Data n \<Rightarrow> decode_data n (c, src)))"

definition ld_decode_eof :: "(ld_codec, bytes, ld_error) decoder" where
  "ld_decode_eof = default_decode_eof Bytes_Remaining ld_decode"

section \<open>Encoding\<close>



text \<open>\<open>map_err\<close> of the frame reader.\<close>

fun map_ld_err :: "ld_error \<Rightarrow> recv_error" where
  "map_ld_err Frame_Too_Big = Recv_Connection FRAME_SIZE_ERROR"
| "map_ld_err Payload_Too_Big = Recv_Io (Io_Other 2)"
| "map_ld_err Adjustment_Overflow = Recv_Io (Io_Other 0)"
| "map_ld_err Bytes_Remaining = Recv_Io (Io_Other 1)"
| "map_ld_err (Ld_Io e) = Recv_Io e"

section \<open>Integers on the wire\<close>

lemma uint_be_snoc: "uint_be (bs @ [b]) = uint_be bs * 256 + unat b"
  by (simp add: uint_be_def)

lemma length_be_uint [simp]: "length (be_uint v n) = n"
  by (induction n arbitrary: v) auto



lemma length_put_uint [simp]: "length (put_uint e v n) = n"
  by (simp add: put_uint_def)


section \<open>The codec is a streaming decoder\<close>

lemma decode_data_append:
  "decode_data n (c, src) = (Ok (Some i), c', src') \<Longrightarrow>
     decode_data n (c, src @ x) = (Ok (Some i), c', src' @ x)"
  by (auto simp: decode_data_def split: if_splits)

lemma decode_head_append:
  assumes "num_head_bytes b \<le> length src"
  shows "decode_head b (src @ x) = (case decode_head b src of (r, src') \<Rightarrow> (r, src' @ x))"
proof -
  have "length_field_offset b + length_field_len b \<le> length src" "get_num_skip b \<le> length src"
    using assms by (auto simp: num_head_bytes_def get_num_skip_def Let_def split: option.splits)
  then have "take (length_field_len b) (drop (length_field_offset b) (src @ x)) =
      take (length_field_len b) (drop (length_field_offset b) src)"
    and skip: "drop (get_num_skip b) (src @ x) = drop (get_num_skip b) src @ x"
    by auto
  then have get: "get_uint e (length_field_len b) (drop (length_field_offset b) (src @ x)) =
      get_uint e (length_field_len b) (drop (length_field_offset b) src)" for e
    unfolding get_uint_def by (simp only:)
  have "\<not> length (src @ x) < num_head_bytes b" "\<not> length src < num_head_bytes b"
    using assms by auto
  then show ?thesis
    unfolding decode_head_def Let_def get skip by (simp split: option.split)
qed

lemma ld_decode_some:
  assumes "ld_decode (c, b) = (Ok (Some i), c', b')"
  shows "ld_decode (c, b @ x) = (Ok (Some i), c', b' @ x)"
proof (cases "ld_state c")
  case Head
  with assms have len: "num_head_bytes (ld_builder_of c) \<le> length b"
    by (auto simp: ld_decode_def decode_head_def split: if_splits)
  from assms Head show ?thesis
    by (auto simp: ld_decode_def decode_head_append [OF len] decode_data_append
        split: prod.splits result.splits option.splits)
next
  case (Data n)
  with assms show ?thesis by (simp add: ld_decode_def decode_data_append)
qed

lemma ld_decode_none:
  assumes "ld_decode (c, b) = (Ok None, c', b')"
  shows "ld_decode (c, b @ x) = ld_decode (c', b' @ x)"
proof (cases "ld_state c")
  case Head
  show ?thesis
  proof (cases "num_head_bytes (ld_builder_of c) \<le> length b")
    case False
    with assms Head show ?thesis by (auto simp: ld_decode_def decode_head_def)
  next
    case True
    from assms Head obtain n src where h: "decode_head (ld_builder_of c) b = (Ok (Some n), src)"
      by (auto simp: ld_decode_def decode_head_def Let_def split: prod.splits result.splits option.splits if_splits)
        (use True in auto)
    with assms Head have "c' = c\<lparr>ld_state := Data n\<rparr>" "b' = src"
      by (auto simp: ld_decode_def decode_data_def split: if_splits)
    with h Head show ?thesis
      by (simp add: ld_decode_def decode_head_append [OF True])
  qed
next
  case (Data n)
  with assms show ?thesis by (auto simp: ld_decode_def decode_data_def split: if_splits)
qed

lemma ld_decode_err:
  assumes "ld_decode (c, b) = (Err e, c', b')"
  shows "fst (ld_decode (c, b @ x)) = Err e"
proof (cases "ld_state c")
  case Head
  with assms have len: "num_head_bytes (ld_builder_of c) \<le> length b"
    by (auto simp: ld_decode_def decode_head_def split: if_splits)
  from assms Head show ?thesis
    by (auto simp: ld_decode_def decode_head_append [OF len] decode_data_def
        split: prod.splits result.splits option.splits if_splits)
next
  case (Data n)
  with assms show ?thesis by (auto simp: ld_decode_def decode_data_def split: if_splits)
qed

lemma ld_decode_no_panic: "fst (ld_decode (c, b)) \<noteq> Panic"
  by (auto simp: ld_decode_def decode_head_def decode_data_def Let_def
      split: decode_state.split option.split)

interpretation ld: streaming_decoder ld_decode "\<lambda>_. True"
  by unfold_locales (auto simp: ld_decode_some ld_decode_err ld_decode_no_panic ld_decode_none)

section \<open>Frames of HTTP/2\<close>

text \<open>The configuration of \<open>Codec::with_max_recv_frame_size\<close> (\<open>h2/codec/mod.rs\<close>).\<close>

definition h2_builder :: "nat \<Rightarrow> ld_builder" where
  "h2_builder max_frame_size = builder_new\<lparr>length_field_len := 3, length_adjustment := 9,
     num_skip := Some 0, max_frame_len := max_frame_size\<rparr>"

text \<open>A raw frame: nine bytes of header, of which the first three give the length of the payload.\<close>

definition raw_frame :: "nat \<Rightarrow> bytes \<Rightarrow> bool" where
  "raw_frame max_frame_size raw \<longleftrightarrow> 9 \<le> length raw \<and> uint_be (take 3 raw) = length raw - 9
     \<and> length raw - 9 \<le> max_frame_size"

lemma take_3_bound: "uint_be (take 3 raw) < 2 ^ 24"
proof -
  have "uint_be bs < 256 ^ length bs" for bs
  proof (induction bs rule: rev_induct)
    case (snoc b bs)
    have "unat b < 256" using unsigned_less [of b] by simp
    with snoc show ?case by (simp add: uint_be_snoc)
  qed (simp add: uint_be_def)
  from this [of "take 3 raw"] have "uint_be (take 3 raw) < 256 ^ min (length raw) 3" by simp
  also have "(256 :: nat) ^ min (length raw) 3 \<le> 256 ^ 3" by (intro power_increasing) auto
  finally show ?thesis by simp
qed

lemma ld_decode_raw:
  assumes "raw_frame m raw"
  shows "ld_decode (new_codec (h2_builder m), raw @ rest) = (Ok (Some raw), new_codec (h2_builder m), rest)"
proof -
  have len: "9 \<le> length raw" "uint_be (take 3 raw) = length raw - 9" "length raw - 9 \<le> m"
    using assms by (auto simp: raw_frame_def)
  have "length raw < 2 ^ 24 + 9" using take_3_bound [of raw] len by linarith
  then have "adjust 9 (length raw - 9) = Some (length raw)"
    using len(1) by (simp add: adjust_def USIZE_MAX_def)
  with len show ?thesis
    by (simp add: ld_decode_def new_codec_def decode_head_def h2_builder_def builder_new_def
        num_head_bytes_def get_num_skip_def get_uint_def decode_data_def)
qed

lemma ld_decode_empty:
  assumes "0 < num_head_bytes b"
  shows "ld_decode (new_codec b, []) = (Ok None, new_codec b, [])"
  using assms by (simp add: ld_decode_def new_codec_def decode_head_def)

lemma ld_drains_raws:
  "list_all (raw_frame m) raws \<Longrightarrow>
     drains ld_decode (new_codec (h2_builder m), concat raws) raws None (new_codec (h2_builder m), [])"
proof (induction raws)
  case Nil
  have "0 < num_head_bytes (h2_builder m)"
    by (simp add: num_head_bytes_def h2_builder_def builder_new_def)
  from drains_None [of ld_decode, OF ld_decode_empty [OF this]] show ?case by simp
next
  case (Cons raw raws)
  then show ?case
    by (simp add: drains_of_Some [of ld_decode, OF ld_decode_raw])
qed

text \<open>
  C19: however the transport cuts and delays the bytes of a sequence of
  HTTP/2 frames within the size limit, polling the reader often enough hands out exactly
  these frames, in order, and then waits.
\<close>

theorem h2_frames_any_chunking:
  assumes "list_all (raw_frame m) raws" "flowing evs" "data evs = concat raws"
    "length raws + length evs < n"
  shows "polls ld_decode ld_decode_eof Ld_Io n evs (read_frame_new (new_codec (h2_builder m)))
    = (raws, Poll_Pending)"
proof (rule ld.polls_all [OF assms(2) TrueI _ _ assms(4)])
  show "ld_decode (new_codec (h2_builder m), []) = (Ok None, new_codec (h2_builder m), [])"
    by (rule ld_decode_empty) (simp add: num_head_bytes_def h2_builder_def builder_new_def)
  show "drains ld_decode (new_codec (h2_builder m), data evs) raws None (new_codec (h2_builder m), [])"
    using ld_drains_raws [OF assms(1)] assms(3) by simp
qed

lemma h2_frames_any_chunking_witness:
  "polls ld_decode ld_decode_eof Ld_Io 7
     [Got [0, 0], Not_Ready, Got [1, 6, 0, 0, 0, 0, 0, 7, 0, 0, 0, 4], Got [1, 0, 0, 0, 0]]
     (read_frame_new (new_codec (h2_builder 16384)))
   = ([[0, 0, 1, 6, 0, 0, 0, 0, 0, 7], [0, 0, 0, 4, 1, 0, 0, 0, 0]], Poll_Pending)"
  by (rule h2_frames_any_chunking) (simp_all add: raw_frame_def uint_be_def)

section \<open>Encoding and decoding\<close>













end
