(* ===== verification/Lines_Codec.thy ===== *)
theory Lines_Codec
  imports Framed_Codec Hpack_Header
begin

text \<open>
  The line codec and the byte codec (\<open>common/codec/lines_codec.rs\<close>, \<open>bytes_codec.rs\<close>) as decoders
  of the frame reader. A \<open>String\<close> is the list of its UTF-8 bytes.
\<close>

section \<open>UTF-8\<close>

text \<open>\<open>str::from_utf8\<close> accepts well-formed UTF-8: no overlong forms, no surrogates, nothing beyond U+10FFFF.\<close>

definition utf8_tail :: "u8 \<Rightarrow> bool" where
  "utf8_tail b \<longleftrightarrow> 0x80 \<le> b \<and> b \<le> 0xBF"

definition utf8_second :: "u8 \<Rightarrow> u8 \<Rightarrow> bool" where
  "utf8_second a b \<longleftrightarrow>
     (if a = 0xE0 then 0xA0 \<le> b \<and> b \<le> 0xBF
      else if a = 0xED then 0x80 \<le> b \<and> b \<le> 0x9F
      else if a = 0xF0 then 0x90 \<le> b \<and> b \<le> 0xBF
      else if a = 0xF4 then 0x80 \<le> b \<and> b \<le> 0x8F
      else utf8_tail b)"

fun utf8_valid :: "bytes \<Rightarrow> bool" where
  "utf8_valid [] \<longleftrightarrow> True"
| "utf8_valid (a # bs) \<longleftrightarrow>
     (if a < 0x80 then utf8_valid bs
      else if 0xC2 \<le> a \<and> a \<le> 0xDF then
        (case bs of b # bs \<Rightarrow> utf8_tail b \<and> utf8_valid bs | _ \<Rightarrow> False)
      else if 0xE0 \<le> a \<and> a \<le> 0xEF then
        (case bs of b # c # bs \<Rightarrow> utf8_second a b \<and> utf8_tail c \<and> utf8_valid bs | _ \<Rightarrow> False)
      else if 0xF0 \<le> a \<and> a \<le> 0xF4 then
        (case bs of b # c # d # bs \<Rightarrow> utf8_second a b \<and> utf8_tail c \<and> utf8_tail d \<and> utf8_valid bs
         | _ \<Rightarrow> False)
      else False)"

section \<open>The line codec\<close>

record lines_codec =
  lc_next_index :: nat
  lc_max_length :: nat
  lc_is_discarding :: bool

datatype lines_error = Max_Line_Length_Exceeded | Line_Not_Utf8 | Lines_Io io_error

definition lines_new_with_max_length :: "nat \<Rightarrow> lines_codec" where
  "lines_new_with_max_length n = \<lparr>lc_next_index = 0, lc_max_length = n, lc_is_discarding = False\<rparr>"

definition lines_new :: lines_codec where
  "lines_new = lines_new_with_max_length (2 ^ 64 - 1)"

definition utf8 :: "bytes \<Rightarrow> (bytes, lines_error) result" where
  "utf8 bs = (if utf8_valid bs then Ok bs else Err Line_Not_Utf8)"

definition without_carriage_return :: "bytes \<Rightarrow> bytes" where
  "without_carriage_return s = (if s \<noteq> [] \<and> last s = 13 then butlast s else s)"

definition position_newline :: "bytes \<Rightarrow> nat option" where
  "position_newline bs = (if 10 \<in> set bs then Some (length (takeWhile (\<lambda>b. b \<noteq> 10) bs)) else None)"

lemma newline_bound: "10 \<in> set bs \<Longrightarrow> length (takeWhile (\<lambda>b. b \<noteq> (10 :: u8)) bs) < length bs"
  by (induction bs) auto

lemma position_newline_bound: "position_newline bs = Some n \<Longrightarrow> n < length bs"
  by (auto simp: position_newline_def newline_bound split: if_splits)

text \<open>The loop of \<open>decode\<close>. Lengths are \<open>nat\<close>: a buffer never reaches \<open>usize::MAX\<close>, so the addition saturates to no effect.\<close>

function lines_decode :: "lines_codec \<times> bytes \<Rightarrow> (bytes option, lines_error) result \<times> lines_codec \<times> bytes" where
  "lines_decode (c, buf) =
     (let read_to = min (lc_max_length c + 1) (length buf) in
      case slice_range buf (lc_next_index c) read_to of
        Err e \<Rightarrow> (Err e, c, buf)
      | Panic \<Rightarrow> (Panic, c, buf)
      | Ok window \<Rightarrow>
          (case (lc_is_discarding c, position_newline window) of
             (True, Some offset) \<Rightarrow>
               lines_decode (c\<lparr>lc_is_discarding := False, lc_next_index := 0\<rparr>,
                 drop (offset + lc_next_index c + 1) buf)
           | (True, None) \<Rightarrow>
               (let c = c\<lparr>lc_next_index := 0\<rparr>; buf = drop read_to buf in
                if buf = [] then (Err Max_Line_Length_Exceeded, c, buf) else lines_decode (c, buf))
           | (False, Some offset) \<Rightarrow>
               (let newline_index = offset + lc_next_index c;
                    line = without_carriage_return (take newline_index buf)
                in (map_ok Some (utf8 line), c\<lparr>lc_next_index := 0\<rparr>, drop (newline_index + 1) buf))
           | (False, None) \<Rightarrow>
               (if length buf > lc_max_length c
                then (Err Max_Line_Length_Exceeded, c\<lparr>lc_is_discarding := True\<rparr>, buf)
                else (Ok None, c\<lparr>lc_next_index := read_to\<rparr>, buf))))"
  by pat_completeness auto

termination
  by (relation "measure (\<lambda>(c, buf). length buf + (if lc_is_discarding c then 1 else 0))")
    (auto simp: slice_range_def split: if_splits)

declare lines_decode.simps [simp del]

definition lines_decode_eof :: "lines_codec \<times> bytes \<Rightarrow> (bytes option, lines_error) result \<times> lines_codec \<times> bytes" where
  "lines_decode_eof = sbind lines_decode (\<lambda>frame (c, buf).
     case frame of
       Some frame \<Rightarrow> (Ok (Some frame), c, buf)
     | None \<Rightarrow>
         if buf = [] \<or> buf = [13] then (Ok None, c, buf)
         else
           (case utf8 (without_carriage_return buf) of
              Ok line \<Rightarrow> (Ok (Some line), c\<lparr>lc_next_index := 0\<rparr>, [])
            | Err e \<Rightarrow> (Err e, c, [])
            | Panic \<Rightarrow> (Panic, c, [])))"

definition lines_encode :: "bytes \<Rightarrow> bytes \<Rightarrow> bytes" where
  "lines_encode line buf = buf @ line @ [10]"

section \<open>The byte codec\<close>

definition bytes_decode :: "(unit, bytes, io_error) decoder" where
  "bytes_decode s = (case s of (c, buf) \<Rightarrow> if buf \<noteq> [] then (Ok (Some buf), c, []) else (Ok None, c, buf))"

definition bytes_encode :: "bytes \<Rightarrow> bytes \<Rightarrow> bytes" where
  "bytes_encode payload buf = buf @ payload"

section \<open>The line codec is a streaming decoder\<close>

text \<open>Between lines, and when no newline was found in what is looked at.\<close>

fun lines_good :: "lines_codec \<times> bytes \<Rightarrow> bool" where
  "lines_good (c, buf) \<longleftrightarrow> \<not> lc_is_discarding c \<and> lc_next_index c \<le> min (lc_max_length c + 1) (length buf)
     \<and> 10 \<notin> set (take (lc_next_index c) buf)"

text \<open>What a call does between lines: it looks for a newline in the first \<open>max_length + 1\<close> bytes.\<close>

lemma takeWhile_skip:
  "10 \<notin> set (take n xs) \<Longrightarrow> n \<le> length xs \<Longrightarrow>
     length (takeWhile (\<lambda>b. b \<noteq> 10) (drop n xs)) + n = length (takeWhile (\<lambda>b. b \<noteq> (10 :: u8)) xs)"
proof -
  assume "10 \<notin> set (take n xs)" "n \<le> length xs"
  then have "takeWhile (\<lambda>b. b \<noteq> 10) (take n xs @ drop n xs) = take n xs @ takeWhile (\<lambda>b. b \<noteq> 10) (drop n xs)"
    by (intro takeWhile_append2) auto
  with \<open>n \<le> length xs\<close> show ?thesis by simp
qed

lemma slice_range_min:
  assumes "n \<le> min m (length xs)"
  shows "slice_range xs n (min m (length xs)) = Ok (drop n (take m xs))"
  using assms by (cases "m \<le> length xs") (simp_all add: slice_range_def drop_take)

lemma lines_decode_good:
  assumes "lines_good (c, buf)"
  shows "lines_decode (c, buf) =
     (let look = take (lc_max_length c + 1) buf; i = length (takeWhile (\<lambda>b. b \<noteq> 10) look) in
      if 10 \<in> set look
      then (map_ok Some (utf8 (without_carriage_return (take i buf))), c\<lparr>lc_next_index := 0\<rparr>, drop (i + 1) buf)
      else if length buf > lc_max_length c
      then (Err Max_Line_Length_Exceeded, c\<lparr>lc_is_discarding := True\<rparr>, buf)
      else (Ok None, c\<lparr>lc_next_index := length buf\<rparr>, buf))"
proof -
  define look where "look = take (lc_max_length c + 1) buf"
  let ?n = "lc_next_index c"
  have n: "?n \<le> min (lc_max_length c + 1) (length buf)" "\<not> lc_is_discarding c" "10 \<notin> set (take ?n buf)"
    using assms by auto
  then have nl: "10 \<notin> set (take ?n look)" "?n \<le> length look"
    by (auto simp: look_def min_absorb1 min_def split: if_splits)
  have slice: "slice_range buf ?n (min (lc_max_length c + 1) (length buf)) = Ok (drop ?n look)"
    unfolding look_def by (rule slice_range_min [OF n(1)])
  have mem: "10 \<in> set (drop ?n look) \<longleftrightarrow> 10 \<in> set look"
    using nl by (metis Un_iff append_take_drop_id set_append)
  have none: "min (lc_max_length c + 1) (length buf) = length buf" if "\<not> lc_max_length c < length buf"
    using that by simp
  show ?thesis
    unfolding lines_decode.simps [of c buf] Let_def slice position_newline_def mem look_def [symmetric]
    using n(2) takeWhile_skip [OF nl] none by (simp add: mem del: One_nat_def add_Suc_right)
qed

lemma takeWhile_take_append:
  "10 \<in> set (take m xs) \<Longrightarrow> takeWhile (\<lambda>b. b \<noteq> (10 :: u8)) (take m (xs @ ys)) = takeWhile (\<lambda>b. b \<noteq> 10) (take m xs)"
  by (metis (mono_tags, lifting) take_append takeWhile_append1)

lemma lines_good_append: "lines_good (c, b) \<Longrightarrow> lines_good (c, b @ x)"
  by auto

lemma lines_some:
  assumes "lines_good (c, b)" "lines_decode (c, b) = (Ok (Some i), c', b')"
  shows "lines_decode (c, b @ x) = (Ok (Some i), c', b' @ x) \<and> lines_good (c', b')"
proof -
  let ?look = "take (lc_max_length c + 1) b"
  let ?i = "length (takeWhile (\<lambda>b. b \<noteq> 10) ?look)"
  from assms have nl: "10 \<in> set ?look"
    by (auto simp: lines_decode_good Let_def split: if_splits)
  then have "?i < length b"
    using newline_bound [of ?look] by auto
  moreover have "takeWhile (\<lambda>b. b \<noteq> 10) (take (lc_max_length c + 1) (b @ x)) = takeWhile (\<lambda>b. b \<noteq> 10) ?look"
    by (rule takeWhile_take_append [OF nl])
  moreover have "10 \<in> set (take (lc_max_length c + 1) (b @ x))" using nl by auto
  ultimately show ?thesis
    using assms nl by (auto simp: lines_decode_good [OF lines_good_append] lines_decode_good Let_def)
qed

lemma lines_none:
  assumes "lines_good (c, b)" "lines_decode (c, b) = (Ok None, c', b')"
  shows "lines_good (c', b') \<and> fst (lines_decode (c', b' @ x)) = fst (lines_decode (c, b @ x))
     \<and> (lines_decode (c', b' @ x) = lines_decode (c, b @ x) \<or> (\<exists>e. fst (lines_decode (c, b @ x)) = Err e))"
proof -
  from assms have c: "c' = c\<lparr>lc_next_index := length b\<rparr>" "b' = b" "length b \<le> lc_max_length c"
    "10 \<notin> set (take (lc_max_length c + 1) b)"
    by (auto simp: lines_decode_good Let_def map_ok_eq_Ok split: if_splits)
  then have good: "lines_good (c', b')" using assms(1) by auto
  from lines_decode_good [OF lines_good_append [OF this], of x]
    lines_decode_good [OF lines_good_append [OF assms(1)], of x] good c
  show ?thesis by (simp add: Let_def)
qed

lemma lines_err:
  assumes "lines_good (c, b)" "lines_decode (c, b) = (Err e, c', b')"
  shows "fst (lines_decode (c, b @ x)) = Err e"
proof (cases "10 \<in> set (take (lc_max_length c + 1) b)")
  case True
  moreover have "takeWhile (\<lambda>b. b \<noteq> 10) (take (lc_max_length c + 1) (b @ x)) =
      takeWhile (\<lambda>b. b \<noteq> 10) (take (lc_max_length c + 1) b)"
    by (rule takeWhile_take_append [OF True])
  moreover have "10 \<in> set (take (lc_max_length c + 1) (b @ x))" using True by auto
  moreover have "length (takeWhile (\<lambda>b. b \<noteq> 10) (take (lc_max_length c + 1) b)) \<le> length b"
    by (metis length_takeWhile_le min.bounded_iff length_take)
  ultimately show ?thesis
    using assms by (simp add: lines_decode_good [OF lines_good_append] lines_decode_good Let_def)
next
  case False
  with assms have "length b > lc_max_length c" "e = Max_Line_Length_Exceeded"
    by (auto simp: lines_decode_good Let_def split: if_splits)
  moreover from this False have "10 \<notin> set (take (lc_max_length c + 1) (b @ x))" by simp
  ultimately show ?thesis
    using assms by (simp add: lines_decode_good [OF lines_good_append] Let_def)
qed

lemma utf8_no_panic [simp]: "utf8 b \<noteq> Panic"
  by (simp add: utf8_def)

interpretation lines: streaming_decoder lines_decode lines_good
proof (unfold_locales, goal_cases)
  case (1 s b x) then show ?case by (rule lines_good_append)
next
  case (2 s b i s' b' x) then show ?case by (rule lines_some)
next
  case (3 s b s' b' x) then show ?case by (rule lines_none)
next
  case (4 s b e s' b' x) then show ?case by (rule lines_err)
next
  case (5 s b) then show ?case by (simp add: lines_decode_good Let_def)
qed

section \<open>Lines over a transport\<close>

text \<open>A line that the codec transmits as it is.\<close>

definition line_ok :: "nat \<Rightarrow> bytes \<Rightarrow> bool" where
  "line_ok m line \<longleftrightarrow> utf8_valid line \<and> 10 \<notin> set line \<and> length line \<le> m \<and> (line = [] \<or> last line \<noteq> 13)"

lemma fold_lines_encode: "fold lines_encode ls buf = buf @ concat (map (\<lambda>l. l @ [10]) ls)"
  by (induction ls arbitrary: buf) (auto simp: lines_encode_def)

lemma takeWhile_line: "10 \<notin> set line \<Longrightarrow> takeWhile (\<lambda>b. b \<noteq> (10 :: u8)) (line @ 10 # rest) = line"
  by (induction line) auto

lemma lines_decode_line:
  assumes "line_ok m line"
  shows "lines_decode (lines_new_with_max_length m, line @ 10 # rest) =
    (Ok (Some line), lines_new_with_max_length m, rest)"
proof -
  let ?c = "lines_new_with_max_length m"
  have line: "utf8_valid line" "10 \<notin> set line" "length line \<le> m" "line = [] \<or> last line \<noteq> 13"
    using assms by (auto simp: line_ok_def)
  then have look: "take (m + 1) (line @ 10 # rest) = line @ 10 # take (m - length line) rest"
    by (simp add: Suc_diff_le)
  have max: "lc_max_length ?c = m" "?c\<lparr>lc_next_index := 0\<rparr> = ?c"
    by (simp_all add: lines_new_with_max_length_def)
  have good: "lines_good (?c, line @ 10 # rest)" by (simp add: lines_new_with_max_length_def)
  from line(4) have "without_carriage_return line = line" by (auto simp: without_carriage_return_def)
  with line show ?thesis
    unfolding lines_decode_good [OF good] max look Let_def by (simp add: takeWhile_line utf8_def)
qed

lemma lines_decode_empty:
  "lines_decode (lines_new_with_max_length m, []) = (Ok None, lines_new_with_max_length m, [])"
  by (subst lines_decode_good) (auto simp: lines_new_with_max_length_def Let_def)

lemma drains_lines:
  "list_all (line_ok m) ls \<Longrightarrow> drains lines_decode (lines_new_with_max_length m, concat (map (\<lambda>l. l @ [10]) ls))
     ls None (lines_new_with_max_length m, [])"
  by (induction ls)
    (auto intro: drains_None lines_decode_empty simp: drains_of_Some [of lines_decode, OF lines_decode_line])

text \<open>
  C21: lines written by the encoder (valid UTF-8 of at most \<open>max_length\<close> bytes, without
  a newline inside or a carriage return at the end) are the lines the reader hands out, however the
  transport cuts the bytes, even in the middle of a character.
\<close>

theorem lines_roundtrip:
  assumes "list_all (line_ok m) ls" "flowing evs" "data evs = fold lines_encode ls []"
    "length ls + length evs < n"
  shows "polls lines_decode lines_decode_eof Lines_Io n evs (read_frame_new (lines_new_with_max_length m))
    = (ls, Poll_Pending)"
  by (rule lines.polls_all [OF assms(2) _ lines_decode_empty _ assms(4)])
    (use drains_lines [OF assms(1)] assms(3) in \<open>simp_all add: fold_lines_encode lines_new_with_max_length_def\<close>)

lemma lines_roundtrip_witness:
  "polls lines_decode lines_decode_eof Lines_Io 8 [Got [104, 0xC3], Not_Ready, Got [0xA9, 10, 10], Got [33, 10]]
     (read_frame_new (lines_new_with_max_length 3)) = ([[104, 0xC3, 0xA9], [], [33]], Poll_Pending)"
  by (rule lines_roundtrip) (simp_all add: line_ok_def utf8_tail_def lines_encode_def)

text \<open>A line that is too long costs that line only: the decoder goes on behind its newline.\<close>

lemma lines_decode_discard:
  assumes "lc_is_discarding c" "lc_next_index c \<le> min (lc_max_length c + 1) (length junk)" "10 \<notin> set junk"
  shows "lines_decode (c, junk @ 10 # rest) =
    lines_decode (c\<lparr>lc_is_discarding := False, lc_next_index := 0\<rparr>, rest)"
  using assms
proof (induction "length junk" arbitrary: c junk rule: less_induct)
  case less
  let ?n = "lc_next_index c" and ?m = "lc_max_length c + 1" and ?buf = "junk @ 10 # rest"
  have slice: "slice_range ?buf ?n (min ?m (length ?buf)) = Ok (drop ?n (take ?m ?buf))"
    using less.prems(2) by (intro slice_range_min) auto
  show ?case
  proof (cases "length junk < ?m")
    case True
    then have window: "drop ?n (take ?m ?buf) = drop ?n junk @ 10 # take (?m - length junk - 1) rest"
      using less.prems(2) by (simp add: take_Cons')
    have "10 \<notin> set (drop ?n junk)" using less.prems(3) by (auto dest: in_set_dropD)
    then have "position_newline (drop ?n junk @ 10 # take (?m - length junk - 1) rest) = Some (length junk - ?n)"
      by (simp add: position_newline_def takeWhile_line)
    moreover have "length junk - ?n + ?n + 1 = length junk + 1" using less.prems(2) by simp
    ultimately show ?thesis
      unfolding lines_decode.simps [of c ?buf] Let_def slice window
      using less.prems(1) by (simp del: add_Suc_right)
  next
    case False
    then have window: "drop ?n (take ?m ?buf) = drop ?n (take ?m junk)" and rest: "drop ?m ?buf = drop ?m junk @ 10 # rest"
      by simp_all
    have "10 \<notin> set (drop ?n (take ?m junk))"
      using less.prems(3) by (meson in_set_dropD in_set_takeD)
    then have "position_newline (drop ?n (take ?m junk)) = None" by (simp add: position_newline_def)
    moreover have "min ?m (length ?buf) = ?m" using False by simp
    ultimately have "lines_decode (c, ?buf) = lines_decode (c\<lparr>lc_next_index := 0\<rparr>, drop ?m junk @ 10 # rest)"
      unfolding lines_decode.simps [of c ?buf] Let_def slice window
      using less.prems(1) by (simp add: rest del: drop_append One_nat_def)
    moreover have "10 \<notin> set (drop ?m junk)" using less.prems(3) by (auto dest: in_set_dropD)
    note less.hyps [of "drop ?m junk" "c\<lparr>lc_next_index := 0\<rparr>", OF _ _ _ this]
    with less.prems False have "lines_decode (c\<lparr>lc_next_index := 0\<rparr>, drop ?m junk @ 10 # rest)
        = lines_decode (c\<lparr>lc_next_index := 0, lc_is_discarding := False, lc_next_index := 0\<rparr>, rest)"
      by simp
    ultimately show ?thesis by simp
  qed
qed

text \<open>What comes in without a newline while a line is being discarded: it is thrown away, and the limit is reported again.\<close>

lemma lines_decode_junk:
  assumes "lc_is_discarding c" "lc_next_index c \<le> min (lc_max_length c + 1) (length junk)" "10 \<notin> set junk"
  shows "lines_decode (c, junk) = (Err Max_Line_Length_Exceeded, c\<lparr>lc_next_index := 0\<rparr>, [])"
  using assms
proof (induction "length junk" arbitrary: c junk rule: less_induct)
  case less
  let ?n = "lc_next_index c" and ?m = "lc_max_length c + 1"
  let ?to = "min ?m (length junk)"
  have slice: "slice_range junk ?n ?to = Ok (drop ?n (take ?m junk))"
    using less.prems(2) by (intro slice_range_min) auto
  have "10 \<notin> set (drop ?n (take ?m junk))"
    using less.prems(3) by (meson in_set_dropD in_set_takeD)
  then have none: "position_newline (drop ?n (take ?m junk)) = None" by (simp add: position_newline_def)
  have round: "lines_decode (c, junk) =
      (if drop ?to junk = [] then (Err Max_Line_Length_Exceeded, c\<lparr>lc_next_index := 0\<rparr>, [])
       else lines_decode (c\<lparr>lc_next_index := 0\<rparr>, drop ?to junk))"
    unfolding lines_decode.simps [of c junk] Let_def slice using none less.prems(1) by simp
  show ?case
  proof (cases "drop ?to junk = []")
    case False
    moreover from this have "length (drop ?to junk) < length junk" by simp
    moreover have "10 \<notin> set (drop ?to junk)" using less.prems(3) by (auto dest: in_set_dropD)
    ultimately show ?thesis
      using less.hyps [of "drop ?to junk" "c\<lparr>lc_next_index := 0\<rparr>"] less.prems(1) by (simp only: round) simp
  qed (simp only: round simp_thms if_True)
qed

text \<open>The decoder is called after every chunk: the outcomes and what is left.\<close>

fun feed :: "bytes list \<Rightarrow> lines_codec \<times> bytes \<Rightarrow> (bytes option, lines_error) result list \<times> lines_codec \<times> bytes" where
  "feed [] s = ([], s)"
| "feed (p # ps) (c, buf) =
     (case lines_decode (c, buf @ p) of (r, s) \<Rightarrow> (case feed ps s of (rs, s) \<Rightarrow> (r # rs, s)))"

lemma feed_junk:
  assumes "lc_is_discarding c" "lc_next_index c = 0" "10 \<notin> set buf" "list_all (\<lambda>p. 10 \<notin> set p) parts"
  shows "\<exists>buf'. 10 \<notin> set buf'
    \<and> feed (parts @ post) (c, buf) = (case feed post (c, buf') of (rs, s) \<Rightarrow> (replicate (length parts) (Err Max_Line_Length_Exceeded) @ rs, s))"
  using assms(3,4)
proof (induction parts arbitrary: buf)
  case (Cons p parts)
  have junk: "lines_decode (c, buf @ p) = (Err Max_Line_Length_Exceeded, c, [])"
    using lines_decode_junk [of c "buf @ p"] assms(1,2) Cons.prems by (cases c) simp
  obtain buf' where "10 \<notin> set buf'" "feed (parts @ post) (c, []) =
      (case feed post (c, buf') of (rs, s) \<Rightarrow> (replicate (length parts) (Err Max_Line_Length_Exceeded) @ rs, s))"
    using Cons.IH [of "[]"] Cons.prems(2) by auto
  with junk show ?case by (intro exI [of _ buf']) (simp split: prod.split)
qed (auto split: prod.split)

text \<open>
  C22: when a line exceeds the limit the decoder reports it before it has seen the
  end of the line. From then on every call reports the same error and empties the buffer, as long as no newline
  comes in, however the rest of the line is cut; the call that finds the newline continues behind it, with
  the outcome and the state of a new decoder.
\<close>

theorem long_line_is_discarded:
  assumes "10 \<notin> set junk" "m < length junk" "list_all (\<lambda>p. 10 \<notin> set p) parts" "10 \<notin> set fin"
  shows "feed ([junk] @ parts @ [fin @ 10 # rest]) (lines_new_with_max_length m, []) =
    (replicate (1 + length parts) (Err Max_Line_Length_Exceeded) @ [fst (lines_decode (lines_new_with_max_length m, rest))],
     snd (lines_decode (lines_new_with_max_length m, rest)))"
proof -
  let ?c = "lines_new_with_max_length m"
  let ?d = "?c\<lparr>lc_is_discarding := True\<rparr>"
  have good: "lines_good (?c, junk)" by (simp add: lines_new_with_max_length_def)
  have long: "lines_decode (?c, junk) = (Err Max_Line_Length_Exceeded, ?d, junk)"
    unfolding lines_decode_good [OF good] Let_def
    using assms by (auto simp: lines_new_with_max_length_def dest: in_set_takeD)
  obtain buf where buf: "10 \<notin> set buf" "feed (parts @ [fin @ 10 # rest]) (?d, junk) =
      (case feed [fin @ 10 # rest] (?d, buf) of (rs, s) \<Rightarrow> (replicate (length parts) (Err Max_Line_Length_Exceeded) @ rs, s))"
    using feed_junk [of ?d junk parts "[fin @ 10 # rest]"] assms(1,3) by (auto simp: lines_new_with_max_length_def)
  have "lines_decode (?d, (buf @ fin) @ 10 # rest) = lines_decode (?c, rest)"
    using assms(4) buf(1) by (subst lines_decode_discard) (simp_all add: lines_new_with_max_length_def)
  with long buf(2) show ?thesis by (cases "lines_decode (?c, rest)") simp
qed

lemma long_line_is_discarded_witness:
  "feed [[65, 66], [67], [], [68, 10, 69, 10]] (lines_new_with_max_length 1, []) =
    ([Err Max_Line_Length_Exceeded, Err Max_Line_Length_Exceeded, Err Max_Line_Length_Exceeded, Ok (Some [69])],
     lines_new_with_max_length 1, [])"
proof -
  have "lines_decode (lines_new_with_max_length 1, [69, 10]) = (Ok (Some [69]), lines_new_with_max_length 1, [])"
    using lines_decode_line [of 1 "[69]" "[]"] by (simp add: line_ok_def)
  moreover have "feed ([[65, 66]] @ [[67], []] @ [[68] @ 10 # [69, 10]]) (lines_new_with_max_length 1, []) =
      (replicate (1 + length [[67 :: u8], []]) (Err Max_Line_Length_Exceeded) @ [fst (lines_decode (lines_new_with_max_length 1, [69, 10]))],
       snd (lines_decode (lines_new_with_max_length 1, [69, 10])))"
    by (rule long_line_is_discarded) simp_all
  ultimately show ?thesis by (simp del: feed.simps add: numeral_2_eq_2)
qed

section \<open>An unfinished last line that is not UTF-8\<close>







end
