(* ===== verification/Hpack_Probing.thy ===== *)
theory Hpack_Probing
  imports Rust_Prelude "HOL-Library.Multiset"
begin

text \<open>
  The index array of the encoder's table (\<open>h2/hpack/table.rs\<close>): open addressing with Robin Hood probing.
  This theory has the loops over the array alone (probing, displacement, backward shift, growing)
  and shows that they keep the order of the probe sequences and the entries. Positions are \<open>nat\<close>, hashes,
  masks and slot indices are words, whose arithmetic wraps.

  A call that panics or a loop that does not end is \<open>None\<close>; the lemmas show \<open>Some\<close>.
\<close>

section \<open>Positions and the probing loop\<close>

record pos =
  pos_index :: u64
  pos_hash :: u64

text \<open>
  The macro \<open>probe_loop!\<close>: the body gets the position and the state of the loop; it breaks or returns
  (\<open>Inl\<close>) or goes on (\<open>Inr\<close>).
\<close>

partial_function (option) probe_loop ::
  "nat \<Rightarrow> (nat \<Rightarrow> 's \<Rightarrow> ('r + 's) option) \<Rightarrow> nat \<Rightarrow> 's \<Rightarrow> 'r option" where
  "probe_loop len body probe s =
     (if probe < len
      then Option.bind (body probe s) (\<lambda>r.
        case r of Inl r \<Rightarrow> Some r | Inr s \<Rightarrow> probe_loop len body (probe + 1) s)
      else probe_loop len body 0 s)"

definition desired_pos :: "u64 \<Rightarrow> u64 \<Rightarrow> nat" where
  "desired_pos m hash = unat (hash AND m)"

definition probe_distance :: "u64 \<Rightarrow> u64 \<Rightarrow> nat \<Rightarrow> nat" where
  "probe_distance m hash current = unat ((of_nat current - of_nat (desired_pos m hash)) AND m)"

text \<open>\<open>xs[i]\<close> for a \<open>Vec\<close>.\<close>

definition get :: "'a list \<Rightarrow> nat \<Rightarrow> 'a option" where
  "get xs i = (if i < length xs then Some (xs ! i) else None)"

section \<open>The loops over the array\<close>

text \<open>The end of \<open>index_vacant\<close>: the entry goes to \<open>probe\<close>, what was there and behind it moves on.\<close>

definition displace_body ::
  "nat \<Rightarrow> pos \<times> pos option list \<Rightarrow> (pos option list + pos \<times> pos option list) option" where
  "displace_body probe s =
     (case s of (prev, indices) \<Rightarrow>
        Option.bind (get indices probe) (\<lambda>p.
          let indices = indices[probe := Some prev] in
          Some (case p of Some p \<Rightarrow> Inr (p, indices) | None \<Rightarrow> Inl indices)))"

definition put_entry :: "pos \<Rightarrow> nat \<Rightarrow> pos option list \<Rightarrow> pos option list option" where
  "put_entry new probe indices =
     Option.bind (get indices probe) (\<lambda>prev.
       let indices = indices[probe := Some new] in
       case prev of
         Some prev \<Rightarrow> probe_loop (length indices) displace_body (probe + 1) (prev, indices)
       | None \<Rightarrow> Some indices)"

text \<open>\<open>remove_phase_two\<close>: the entries behind a hole move back until one is at its desired position.\<close>

definition remove_body ::
  "u64 \<Rightarrow> nat \<Rightarrow> nat \<times> pos option list \<Rightarrow> (pos option list + nat \<times> pos option list) option" where
  "remove_body m probe s =
     (case s of (last_probe, indices) \<Rightarrow>
        Option.bind (get indices probe) (\<lambda>p.
          Some (case p of
            Some pos \<Rightarrow>
              if probe_distance m (pos_hash pos) probe > 0
              then Inr (probe, indices[last_probe := Some pos, probe := None])
              else Inl indices
          | None \<Rightarrow> Inl indices)))"

definition remove_phase_two :: "u64 \<Rightarrow> nat \<Rightarrow> pos option list \<Rightarrow> pos option list option" where
  "remove_phase_two m probe indices =
     probe_loop (length indices) (remove_body m) (probe + 1) (probe, indices)"

text \<open>\<open>reinsert_entry_in_order\<close> and \<open>grow\<close>.\<close>

definition reinsert_body ::
  "pos \<Rightarrow> nat \<Rightarrow> pos option list \<Rightarrow> (pos option list + pos option list) option" where
  "reinsert_body pos probe indices =
     Option.bind (get indices probe) (\<lambda>p.
       Some (if p = None then Inl (indices[probe := Some pos]) else Inr indices))"

definition reinsert_entry_in_order ::
  "u64 \<Rightarrow> pos option \<Rightarrow> pos option list \<Rightarrow> pos option list option" where
  "reinsert_entry_in_order m pos indices =
     (case pos of
        Some pos \<Rightarrow>
          probe_loop (length indices) (reinsert_body pos) (desired_pos m (pos_hash pos)) indices
      | None \<Rightarrow> Some indices)"

fun for_each :: "('a \<Rightarrow> 's \<Rightarrow> 's option) \<Rightarrow> 'a list \<Rightarrow> 's \<Rightarrow> 's option" where
  "for_each f [] s = Some s"
| "for_each f (x # xs) s = Option.bind (f x s) (for_each f xs)"

definition first_ideal :: "u64 \<Rightarrow> pos option list \<Rightarrow> nat" where
  "first_ideal m indices =
     (case List.find (\<lambda>i. case indices ! i of
           Some pos \<Rightarrow> probe_distance m (pos_hash pos) i = 0 | None \<Rightarrow> False) [0..<length indices] of
        Some i \<Rightarrow> i | None \<Rightarrow> 0)"

definition grow_indices :: "u64 \<Rightarrow> u64 \<Rightarrow> nat \<Rightarrow> pos option list \<Rightarrow> pos option list option" where
  "grow_indices m m' new_raw_cap old =
     (let i = first_ideal m old in
      for_each (reinsert_entry_in_order m') (drop i old @ take i old) (replicate new_raw_cap None))"

section \<open>Positions modulo the length\<close>

definition gap :: "nat \<Rightarrow> nat \<Rightarrow> nat \<Rightarrow> nat" where
  "gap n h i = (i + n - h) mod n"

lemma gap_less: "0 < n \<Longrightarrow> gap n h i < n"
  by (simp add: gap_def)

lemma mod_in: "p < n \<Longrightarrow> i mod n < (n :: nat)"
  by simp

lemma gap_alt: "h < n \<Longrightarrow> i < n \<Longrightarrow> gap n h i = (if h \<le> i then i - h else i + n - h)"
proof (cases "h \<le> i")
  case True
  assume i: "h < n" "i < n"
  from True have e: "i + n - h = (i - h) + n" by linarith
  have "(i - h + n) mod n = i - h" using i by (metis less_imp_diff_less mod_add_self2 mod_less)
  then show ?thesis unfolding gap_def e using True by simp
qed (simp add: gap_def)

lemma gap_add: "h < n \<Longrightarrow> d < n \<Longrightarrow> gap n h ((h + d) mod n) = d"
proof -
  assume a: "h < n" "d < n"
  show ?thesis
  proof (cases "h + d < n")
    case False
    with a have "(h + d) mod n = h + d - n" "\<not> h \<le> h + d - n" "h + d - n < n"
      by (simp_all add: mod_if)
    with a False show ?thesis by (simp add: gap_alt)
  qed (simp add: gap_alt a)
qed

lemma add_gap: "h < n \<Longrightarrow> i < n \<Longrightarrow> (h + gap n h i) mod n = i"
  by (simp add: gap_alt mod_if)

lemma gap_Suc:
  assumes "h < n" "i < n" "Suc (gap n h i) < n"
  shows "gap n h (Suc i mod n) = Suc (gap n h i)"
proof -
  have "Suc i mod n = Suc (h + gap n h i) mod n"
    using add_gap [OF assms(1,2)] by (metis mod_Suc_eq)
  then show ?thesis using gap_add [OF assms(1,3)] by simp
qed

lemma gap_pred:
  assumes "h < n" "i < n" "gap n h (Suc i mod n) > 0"
  shows "gap n h (Suc i mod n) = Suc (gap n h i)"
proof (rule gap_Suc [OF assms(1,2)])
  show "Suc (gap n h i) < n"
  proof (rule ccontr)
    assume "\<not> Suc (gap n h i) < n"
    with gap_less [of n h i] assms(2) have "gap n h i = n - 1" by simp
    with add_gap [OF assms(1,2)] have "i = (h + (n - 1)) mod n" by simp
    then have "Suc i mod n = (h + n) mod n" using assms(1)
      by (metis Suc_diff_1 add_Suc_right gr_implies_not0 mod_Suc_eq neq0_conv)
    with assms show False by (simp add: gap_alt)
  qed
qed

lemma gap_self [simp]: "h < n \<Longrightarrow> gap n h h = 0"
  by (simp add: gap_alt)

lemma gap_eq_0: "h < n \<Longrightarrow> i < n \<Longrightarrow> gap n h i = 0 \<Longrightarrow> i = h"
  by (auto simp: gap_alt split: if_splits)

text \<open>The array and the mask belong together.\<close>

definition sized :: "u64 \<Rightarrow> 'a list \<Rightarrow> bool" where
  "sized m xs \<longleftrightarrow> (\<exists>k. 3 \<le> k \<and> k < 64 \<and> length xs = 2 ^ k \<and> m = mask k)"

lemma sized_length: "sized m xs \<Longrightarrow> length ys = length xs \<Longrightarrow> sized m ys"
  by (simp add: sized_def)

lemma sized_ge_8: "sized m xs \<Longrightarrow> 8 \<le> length xs"
proof -
  assume "sized m xs"
  then obtain k where "3 \<le> k" "length xs = 2 ^ k" by (auto simp: sized_def)
  moreover have "(2 :: nat) ^ 3 \<le> 2 ^ k" using \<open>3 \<le> k\<close> by (intro power_increasing) auto
  ultimately show ?thesis by simp
qed

lemma sized_gt_1: "sized m xs \<Longrightarrow> 1 < length xs"
  using sized_ge_8 [of m xs] by simp

lemma unat_and_mask: "k < 64 \<Longrightarrow> unat ((w :: u64) AND mask k) = unat w mod 2 ^ k"
  unfolding take_bit_eq_mask [symmetric] unsigned_take_bit_eq by (simp only: take_bit_eq_mod)

lemma desired_pos_mod: "sized m xs \<Longrightarrow> desired_pos m h = unat h mod length xs"
  by (auto simp: sized_def desired_pos_def unat_and_mask)

lemma desired_pos_less: "sized m xs \<Longrightarrow> desired_pos m h < length xs"
  using sized_gt_1 [of m xs] by (simp add: desired_pos_mod) (metis gr_zeroI less_zeroE mod_less_divisor)

lemma sub_and_mask:
  fixes a b k :: nat
  assumes "k < 64" "a < 2 ^ k" "b < 2 ^ k"
  shows "unat ((of_nat a - of_nat b :: u64) AND mask k) = gap (2 ^ k) b a"
proof -
  let ?x = "of_nat a - of_nat b :: u64"
  have u: "uint (of_nat a :: u64) = int a mod 2 ^ 64" "uint (of_nat b :: u64) = int b mod 2 ^ 64"
    by (simp_all add: unsigned_of_nat take_bit_eq_mod zmod_int)
  have "int (unat ?x) = (int a - int b) mod 2 ^ 64"
    by (simp add: uint_word_ariths u mod_diff_eq)
  then have "int (unat ?x mod 2 ^ k) = (int a - int b) mod 2 ^ 64 mod 2 ^ k"
    by (simp add: zmod_int)
  also have "\<dots> = (int a - int b) mod 2 ^ k"
  proof -
    have "(2 :: int) ^ k dvd 2 ^ 64" using assms(1) by (intro le_imp_power_dvd) simp
    then show ?thesis by (rule mod_mod_cancel)
  qed
  also have "\<dots> = (int a - int b + 2 ^ k) mod 2 ^ k" by simp
  also have "int a - int b + 2 ^ k = int (a + 2 ^ k - b)" using assms(3) by simp
  also have "\<dots> mod 2 ^ k = int ((a + 2 ^ k - b) mod 2 ^ k)" by (simp add: zmod_int)
  finally show ?thesis by (simp add: unat_and_mask [OF assms(1)] gap_def)
qed

lemma probe_distance_gap:
  assumes "sized m xs" "i < length xs"
  shows "probe_distance m h i = gap (length xs) (desired_pos m h) i"
proof -
  obtain k where k: "k < 64" "length xs = 2 ^ k" "m = mask k" using assms(1) by (auto simp: sized_def)
  with assms(2) desired_pos_less [OF assms(1), of h] show ?thesis
    by (simp add: probe_distance_def sub_and_mask)
qed

section \<open>Robin Hood order\<close>

text \<open>
  The rank of a position is zero when it is vacant and otherwise one more than the distance of its entry
  from where it wants to be. In Robin Hood order the rank grows by at most one from a position
  to the next. Positions count on past the end of the array.
\<close>

definition rank :: "u64 \<Rightarrow> pos option list \<Rightarrow> nat \<Rightarrow> nat" where
  "rank m xs i =
     (case xs ! (i mod length xs) of
        None \<Rightarrow> 0
      | Some p \<Rightarrow> Suc (gap (length xs) (desired_pos m (pos_hash p)) (i mod length xs)))"

definition robin :: "u64 \<Rightarrow> pos option list \<Rightarrow> bool" where
  "robin m xs \<longleftrightarrow> sized m xs \<and> (\<forall>i. rank m xs (Suc i) \<le> Suc (rank m xs i))"

definition vacancy :: "pos option list \<Rightarrow> bool" where
  "vacancy xs \<longleftrightarrow> None \<in> set xs"

lemma rank_mod [simp]: "rank m xs (i mod length xs) = rank m xs i"
  by (simp add: rank_def cong: option.case_cong)

lemma rank_cong_mod: "i mod length xs = j mod length xs \<Longrightarrow> rank m xs i = rank m xs j"
  by (simp add: rank_def cong: option.case_cong)

lemma rank_at: "i mod length xs = p \<Longrightarrow> rank m xs i = rank m xs p"
  by (metis rank_mod)

lemma rank_add_length [simp]: "rank m xs (i + length xs) = rank m xs i"
  by (rule rank_cong_mod) simp

lemma rank_vacant: "i < length xs \<Longrightarrow> xs ! i = None \<Longrightarrow> rank m xs i = 0"
  by (simp add: rank_def)

lemma rank_occupied:
  "i < length xs \<Longrightarrow> xs ! i = Some p \<Longrightarrow> rank m xs i = Suc (gap (length xs) (desired_pos m (pos_hash p)) i)"
  by (simp add: rank_def)

lemma rank_eq_0: "rank m xs i = 0 \<longleftrightarrow> xs ! (i mod length xs) = None"
  by (simp add: rank_def split: option.split)

lemma robin_sized: "robin m xs \<Longrightarrow> sized m xs"
  by (simp add: robin_def)

lemma robin_pos: "robin m xs \<Longrightarrow> 0 < length xs"
  using sized_gt_1 [of m xs] by (auto simp: robin_def)

lemma rank_run: "robin m xs \<Longrightarrow> rank m xs (i + j) \<le> rank m xs i + j"
proof (induction j)
  case (Suc j)
  then have "rank m xs (Suc (i + j)) \<le> Suc (rank m xs (i + j))" by (simp add: robin_def)
  with Suc show ?case by simp
qed simp

lemma robinI:
  assumes "sized m xs" "\<And>i. i < length xs \<Longrightarrow> rank m xs (Suc i) \<le> Suc (rank m xs i)"
  shows "robin m xs"
  unfolding robin_def
proof (intro conjI allI)
  fix i
  have "0 < length xs" using sized_gt_1 [OF assms(1)] by linarith
  then have "rank m xs (Suc (i mod length xs)) \<le> Suc (rank m xs i)"
    using assms(2) [of "i mod length xs"] by simp
  moreover have "rank m xs (Suc (i mod length xs)) = rank m xs (Suc i)"
    by (rule rank_cong_mod) (simp add: mod_Suc_eq)
  ultimately show "rank m xs (Suc i) \<le> Suc (rank m xs i)" by simp
qed (rule assms)

text \<open>An entry is found by walking from its desired position: nothing on the way is closer to home.\<close>

lemma rank_on_the_way:
  assumes "robin m xs" "i < length xs" "xs ! i = Some p" "d \<le> gap (length xs) (desired_pos m (pos_hash p)) i"
  shows "d < rank m xs (desired_pos m (pos_hash p) + d)"
proof -
  let ?h = "desired_pos m (pos_hash p)" and ?g = "gap (length xs) (desired_pos m (pos_hash p)) i"
  have "?h < length xs" using desired_pos_less robin_sized [OF assms(1)] .
  then have "rank m xs (?h + ?g) = Suc ?g"
    using add_gap [of ?h "length xs" i] assms(2,3) rank_mod [of m xs "?h + ?g"] by (simp add: rank_occupied)
  moreover have "rank m xs (?h + ?g) \<le> rank m xs (?h + d) + (?g - d)"
    using rank_run [OF assms(1), of "?h + d" "?g - d"] assms(4) by simp
  ultimately show ?thesis using assms(4) by linarith
qed

lemma rank_bound:
  assumes "robin m xs" "vacancy xs"
  shows "rank m xs i < length xs"
proof -
  obtain e where e: "e < length xs" "xs ! e = None"
    using assms(2) by (auto simp: vacancy_def in_set_conv_nth)
  let ?i = "i mod length xs"
  have i: "?i < length xs" using e by (intro mod_less_divisor) auto
  have "rank m xs (e + gap (length xs) e ?i) \<le> gap (length xs) e ?i"
    using rank_run [OF assms(1), of e] rank_vacant [OF e] by simp
  moreover have "rank m xs (e + gap (length xs) e ?i) = rank m xs i"
    by (metis add_gap [OF e(1) i] mod_mod_trivial rank_mod)
  moreover have "gap (length xs) e ?i < length xs" using i by (intro gap_less) linarith
  ultimately show ?thesis by simp
qed

text \<open>The stop condition of a search is met before all positions have been seen.\<close>

lemma stop_exists:
  assumes "robin m xs" "vacancy xs" "h < length xs"
  shows "\<exists>d < length xs. rank m xs (h + d) \<le> d"
proof -
  obtain e where e: "e < length xs" "xs ! e = None"
    using assms(2) by (auto simp: vacancy_def in_set_conv_nth)
  then have "rank m xs (h + gap (length xs) h e) = 0"
    by (metis add_gap assms(3) mod_mod_trivial rank_eq_0)
  moreover have "gap (length xs) h e < length xs" using e by (intro gap_less) linarith
  ultimately show ?thesis by auto
qed

section \<open>Rules for the probing loop\<close>

lemma probe_loop_wrap: "0 < len \<Longrightarrow> probe_loop len body len s = probe_loop len body 0 s"
  by (subst probe_loop.simps) simp

lemma probe_loop_mod:
  "0 < len \<Longrightarrow> i \<le> len \<Longrightarrow> probe_loop len body i s = probe_loop len body (i mod len) s"
  by (cases "i = len") (simp_all add: probe_loop_wrap)

lemma probe_loop_step:
  assumes "0 < len" "body (i mod len) s = Some (Inr s')"
  shows "probe_loop len body (i mod len) s = probe_loop len body (Suc i mod len) s'"
proof -
  have "i mod len < len" using assms(1) by simp
  then have "probe_loop len body (i mod len) s = probe_loop len body (Suc (i mod len)) s'"
    using assms by (subst probe_loop.simps) simp
  also have "\<dots> = probe_loop len body (Suc (i mod len) mod len) s'"
    using assms(1) by (intro probe_loop_mod) (auto simp: Suc_leI)
  finally show ?thesis by (simp add: mod_Suc_eq)
qed

lemma probe_loop_stop:
  assumes "0 < len" "body (i mod len) s = Some (Inl r)"
  shows "probe_loop len body (i mod len) s = Some r"
  using assms by (subst probe_loop.simps) simp

lemma probe_loop_run:
  assumes "0 < len" "\<And>j. j < d \<Longrightarrow> body ((i + j) mod len) (st j) = Some (Inr (st (Suc j)))"
    "body ((i + d) mod len) (st d) = Some (Inl r)"
  shows "probe_loop len body (i mod len) (st 0) = Some r"
  using assms(2,3)
proof (induction d arbitrary: i st)
  case 0
  then show ?case using probe_loop_stop [OF assms(1)] by simp
next
  case (Suc d)
  have "probe_loop len body (i mod len) (st 0) = probe_loop len body (Suc i mod len) (st (Suc 0))"
    using Suc.prems(1) [of 0] by (intro probe_loop_step assms) simp
  also have "\<dots> = Some r"
    using Suc.prems(1) [of "Suc j" for j] Suc.prems(2) by (intro Suc.IH [of "Suc i" "\<lambda>j. st (Suc j)"]) simp_all
  finally show ?case .
qed

text \<open>A body that does not change its state.\<close>

lemma probe_loop_search:
  assumes "0 < len" "\<And>j. j < d \<Longrightarrow> body ((i + j) mod len) (s + j) = Some (Inr (Suc (s + j)))"
    "body ((i + d) mod len) (s + d) = Some (Inl r)" "i < len"
  shows "probe_loop len body i (s :: nat) = Some r"
  using probe_loop_run [of len d body i "\<lambda>j. s + j" r] assms by simp

section \<open>The entries of the array\<close>

definition entries :: "pos option list \<Rightarrow> pos multiset" where
  "entries xs = mset (map the (filter (\<lambda>x. x \<noteq> None) xs))"

lemma entries_Nil [simp]: "entries [] = {#}"
  by (simp add: entries_def)

lemma entries_Cons: "entries (x # xs) = (case x of None \<Rightarrow> entries xs | Some p \<Rightarrow> add_mset p (entries xs))"
  by (simp add: entries_def split: option.split)

lemma entries_append [simp]: "entries (xs @ ys) = entries xs + entries ys"
  by (simp add: entries_def)

lemma entries_rotate: "entries (drop i xs @ take i xs) = entries xs"
  by (metis append_take_drop_id entries_append union_commute)

lemma entries_replicate [simp]: "entries (replicate n None) = {#}"
  by (simp add: entries_def)

definition opt_mset :: "'a option \<Rightarrow> 'a multiset" where
  "opt_mset x = (case x of None \<Rightarrow> {#} | Some p \<Rightarrow> {#p#})"

lemma opt_mset_simps [simp]: "opt_mset None = {#}" "opt_mset (Some p) = {#p#}"
  by (simp_all add: opt_mset_def)

lemma entries_split: "i < length xs \<Longrightarrow> entries xs = entries (take i xs) + opt_mset (xs ! i) + entries (drop (Suc i) xs)"
  by (subst id_take_nth_drop [of i xs]) (simp_all add: entries_Cons split: option.split)

lemma entries_update:
  assumes "i < length xs"
  shows "entries (xs[i := x]) + opt_mset (xs ! i) = entries xs + opt_mset x"
  using entries_split [OF assms] entries_split [of i "xs[i := x]"] assms by simp

lemma entries_in: "p \<in># entries xs \<longleftrightarrow> Some p \<in> set xs"
  by (force simp: entries_def)

lemma size_entries_less: "size (entries xs) < length xs \<longleftrightarrow> vacancy xs"
proof (induction xs)
  case (Cons x xs)
  have "size (entries xs) \<le> length xs"
    unfolding entries_def size_mset length_map by (rule length_filter_le)
  with Cons show ?case by (cases x) (auto simp: entries_Cons vacancy_def)
qed (simp add: vacancy_def)

section \<open>Displacement\<close>

lemma rank_update:
  assumes "p < length xs"
  shows "rank m (xs[p := x]) i = (if i mod length xs = p
    then (case x of None \<Rightarrow> 0 | Some e \<Rightarrow> Suc (gap (length xs) (desired_pos m (pos_hash e)) p))
    else rank m xs i)"
  using assms by (auto simp: rank_def cong: option.case_cong)

text \<open>The entry \<open>e\<close> may go to position \<open>p\<close>: the array stays in order.\<close>

definition may_place :: "u64 \<Rightarrow> pos option list \<Rightarrow> pos \<Rightarrow> nat \<Rightarrow> bool" where
  "may_place m xs e p \<longleftrightarrow> p < length xs
     \<and> gap (length xs) (desired_pos m (pos_hash e)) p \<le> rank m xs (p + length xs - 1)
     \<and> rank m xs p \<le> Suc (gap (length xs) (desired_pos m (pos_hash e)) p)"

lemma robin_place:
  assumes "robin m xs" "may_place m xs e p"
  shows "robin m (xs[p := Some e])"
proof (rule robinI)
  let ?n = "length xs" and ?d = "gap (length xs) (desired_pos m (pos_hash e)) p"
  have p: "p < ?n" "?d \<le> rank m xs (p + ?n - 1)" "rank m xs p \<le> Suc ?d"
    using assms(2) by (auto simp: may_place_def)
  have n: "1 < ?n" using sized_gt_1 robin_sized [OF assms(1)] .
  show "sized m (xs[p := Some e])" using robin_sized [OF assms(1)] by (rule sized_length) simp
  fix i assume i: "i < length (xs[p := Some e])"
  show "rank m (xs[p := Some e]) (Suc i) \<le> Suc (rank m (xs[p := Some e]) i)"
  proof (cases "Suc i mod ?n = p")
    case True
    with i n have "i \<noteq> p" by (auto simp: mod_if split: if_splits)
    have "(p + ?n - 1) mod ?n = i mod ?n"
      using True i n by (cases "Suc i = ?n") auto
    then have "rank m xs (p + ?n - 1) = rank m xs i" by (rule rank_cong_mod)
    with True p \<open>i \<noteq> p\<close> i show ?thesis by (simp add: rank_update)
  next
    case False
    show ?thesis
    proof (cases "i = p")
      case True
      have "rank m xs (Suc i) \<le> Suc (rank m xs i)" using assms(1) by (simp add: robin_def)
      with False True p show ?thesis by (simp add: rank_update)
    next
      case neq: False
      have "rank m xs (Suc i) \<le> Suc (rank m xs i)" using assms(1) by (simp add: robin_def)
      with False neq p(1) i show ?thesis by (simp add: rank_update)
    qed
  qed
qed

lemma may_place_next:
  assumes "robin m xs" "vacancy xs" "may_place m xs e p" "xs ! p = Some q"
  shows "may_place m (xs[p := Some e]) q (Suc p mod length xs)"
proof -
  let ?n = "length xs" and ?g = "\<lambda>e i. gap (length xs) (desired_pos m (pos_hash e)) i"
  have p: "p < ?n" "rank m xs p \<le> Suc (?g e p)" using assms(3) by (auto simp: may_place_def)
  have n: "1 < ?n" using sized_gt_1 robin_sized [OF assms(1)] .
  have q: "rank m xs p = Suc (?g q p)" using rank_occupied [OF p(1) assms(4)] .
  with rank_bound [OF assms(1,2), of p] have "Suc (?g q p) < ?n" by simp
  moreover have "desired_pos m (pos_hash q) < ?n" using desired_pos_less robin_sized [OF assms(1)] .
  ultimately have g: "?g q (Suc p mod ?n) = Suc (?g q p)" using p(1) by (intro gap_Suc)
  have neq: "Suc p mod ?n \<noteq> p" using p(1) n by (auto simp: mod_if)
  have "(Suc p mod ?n + ?n - 1) mod ?n = p"
    using p(1) n by (cases "Suc p = ?n") auto
  then have "rank m (xs[p := Some e]) (Suc p mod ?n + ?n - 1) = Suc (?g e p)"
    using p(1) by (simp add: rank_update)
  moreover have "rank m (xs[p := Some e]) (Suc p mod ?n) = rank m xs (Suc p)"
    using p(1) neq by (simp add: rank_update)
  moreover have "rank m xs (Suc p) \<le> Suc (rank m xs p)" using assms(1) by (simp add: robin_def)
  moreover have "Suc p mod ?n < ?n" using p(1) by (rule mod_in)
  ultimately show ?thesis using g q p by (simp add: may_place_def)
qed

lemma displace_ok:
  assumes "robin m xs" "may_place m xs e p" "xs ! ((p + r) mod length xs) = None" "r < length xs"
  shows "\<exists>ys. probe_loop (length xs) displace_body p (e, xs) = Some ys \<and> robin m ys
    \<and> length ys = length xs \<and> entries ys = add_mset e (entries xs)"
  using assms
proof (induction r arbitrary: xs e p)
  case 0
  then have p: "p < length xs" "xs ! p = None" by (auto simp: may_place_def)
  then have "probe_loop (length xs) displace_body p (e, xs) = Some (xs[p := Some e])"
    by (subst probe_loop.simps) (simp add: displace_body_def get_def)
  then show ?case using robin_place [OF 0(1,2)] entries_update [OF p(1), of "Some e"] p(2) by simp
next
  case (Suc r)
  let ?n = "length xs" and ?ys = "xs[p := Some e]"
  have p: "p < ?n" using Suc.prems(2) by (simp add: may_place_def)
  have vac: "vacancy xs"
    unfolding vacancy_def in_set_conv_nth using Suc.prems(3) p
    by (intro exI [of _ "(p + Suc r) mod ?n"]) (auto intro: mod_less_divisor)
  show ?case
  proof (cases "xs ! p")
    case None
    then have "probe_loop ?n displace_body p (e, xs) = Some ?ys"
      using p by (subst probe_loop.simps) (simp add: displace_body_def get_def)
    then show ?thesis
      using robin_place [OF Suc.prems(1,2)] entries_update [OF p, of "Some e"] None by simp
  next
    case (Some q)
    have "probe_loop ?n displace_body p (e, xs) = probe_loop ?n displace_body (Suc p mod ?n) (q, ?ys)"
      using probe_loop_step [of ?n displace_body p "(e, xs)" "(q, ?ys)", OF le_less_trans [OF _ p]] p Some
      by (simp add: displace_body_def get_def)
    moreover have "(p + Suc r) mod ?n \<noteq> p"
      using Suc.prems(4) p by (auto simp: mod_if)
    then have "?ys ! ((Suc p mod ?n + r) mod ?n) = None"
      using Suc.prems(3) by (simp add: mod_add_left_eq)
    moreover note robin_place [OF Suc.prems(1,2)] may_place_next [OF Suc.prems(1) vac Suc.prems(2) Some]
    ultimately obtain zs where "probe_loop ?n displace_body p (e, xs) = Some zs" "robin m zs"
      "length zs = ?n" "entries zs = add_mset q (entries ?ys)"
      using Suc.IH [of ?ys q "Suc p mod ?n"] Suc.prems(4) by auto
    moreover have "add_mset q (entries ?ys) = add_mset e (entries xs)"
      using entries_update [OF p, of "Some e"] Some by simp
    ultimately show ?thesis by auto
  qed
qed

lemma vacancy_offset:
  assumes "vacancy xs" "p < length xs"
  obtains r where "r < length xs" "xs ! ((p + r) mod length xs) = None"
proof -
  obtain e where e: "e < length xs" "xs ! e = None"
    using assms(1) by (auto simp: vacancy_def in_set_conv_nth)
  have "gap (length xs) p e < length xs" using e by (intro gap_less) linarith
  moreover have "xs ! ((p + gap (length xs) p e) mod length xs) = None"
    using add_gap [OF assms(2) e(1)] e(2) by simp
  ultimately show ?thesis by (rule that)
qed

text \<open>Putting an entry where it may go.\<close>

lemma put_entry_ok:
  assumes "robin m xs" "vacancy xs" "may_place m xs e p"
  shows "\<exists>ys. put_entry e p xs = Some ys \<and> robin m ys \<and> length ys = length xs
    \<and> entries ys = add_mset e (entries xs)"
proof -
  have p: "p < length xs" using assms(3) by (simp add: may_place_def)
  obtain r where r: "r < length xs" "xs ! ((p + r) mod length xs) = None"
    using vacancy_offset [OF assms(2) p] .
  have "put_entry e p xs = probe_loop (length xs) displace_body p (e, xs)"
    using p unfolding put_entry_def probe_loop.simps [of "length xs" displace_body p]
    by (auto simp: displace_body_def get_def Let_def split: option.split)
  with displace_ok [OF assms(1,3) r(2,1)] show ?thesis by simp
qed

section \<open>Backward shift\<close>

text \<open>An array with a hole at \<open>hole\<close> that the next entry may fill.\<close>

definition holed :: "u64 \<Rightarrow> pos option list \<Rightarrow> nat \<Rightarrow> bool" where
  "holed m xs hole \<longleftrightarrow> sized m xs \<and> hole < length xs \<and> xs ! hole = None
     \<and> (\<forall>i < length xs. i \<noteq> hole \<longrightarrow> rank m xs (Suc i) \<le> Suc (rank m xs i))
     \<and> rank m xs (Suc hole) \<le> rank m xs (hole + length xs - 1) + 2"

lemma holed_remove:
  assumes "robin m xs" "hole < length xs"
  shows "holed m (xs[hole := None]) hole" "rank m (xs[hole := None]) i \<le> rank m xs i"
proof -
  let ?n = "length xs" and ?ys = "xs[hole := None]"
  have n: "1 < ?n" using sized_gt_1 robin_sized [OF assms(1)] .
  have r: "rank m xs (Suc i) \<le> Suc (rank m xs i)" for i using assms(1) by (simp add: robin_def)
  have pred: "(hole + ?n - 1) mod ?n \<noteq> hole" "Suc (hole + ?n - 1) mod ?n = hole"
    using assms(2) n by (auto simp: mod_if)
  then have "rank m xs hole \<le> Suc (rank m xs (hole + ?n - 1))"
    using r [of "hole + ?n - 1"] rank_mod [of m xs "Suc (hole + ?n - 1)"] by simp
  with r [of hole] have "rank m xs (Suc hole) \<le> rank m xs (hole + ?n - 1) + 2" by simp
  moreover have "Suc hole mod ?n \<noteq> hole" using assms(2) n by (auto simp: mod_if)
  ultimately show "holed m ?ys hole"
    using assms(2) pred(1) r sized_length [OF robin_sized [OF assms(1)], of ?ys]
    by (auto simp: holed_def rank_update)
  show "rank m ?ys i \<le> rank m xs i" using assms(2) by (simp add: rank_update)
qed

lemma holed_done:
  assumes "holed m xs hole" "rank m xs (Suc hole) \<le> 1"
  shows "robin m xs"
proof (rule robinI)
  show "sized m xs" using assms(1) by (simp add: holed_def)
  fix i assume "i < length xs"
  with assms show "rank m xs (Suc i) \<le> Suc (rank m xs i)"
    by (cases "i = hole") (auto simp: holed_def)
qed

lemma successor_positions:
  assumes "l < n" "8 \<le> n"
  shows "Suc l mod n \<noteq> l" "Suc (Suc l mod n) mod n \<noteq> l" "Suc (Suc l mod n) mod n \<noteq> Suc l mod n"
    "(Suc l mod n + n - 1) mod n = l"
proof -
  consider "Suc l = n" | "Suc (Suc l) = n" | "Suc (Suc l) < n" using assms by linarith
  then have "Suc l mod n \<noteq> l \<and> Suc (Suc l mod n) mod n \<noteq> l \<and> Suc (Suc l mod n) mod n \<noteq> Suc l mod n
      \<and> (Suc l mod n + n - 1) mod n = l"
    using assms by cases auto
  then show "Suc l mod n \<noteq> l" "Suc (Suc l mod n) mod n \<noteq> l" "Suc (Suc l mod n) mod n \<noteq> Suc l mod n"
    "(Suc l mod n + n - 1) mod n = l" by auto
qed

text \<open>One step of the shift.\<close>

lemma holed_step:
  assumes "holed m xs hole" "xs ! (Suc hole mod length xs) = Some q" "rank m xs (Suc hole) > 1"
  defines "ys \<equiv> xs[hole := Some q, Suc hole mod length xs := None]"
  shows "holed m ys (Suc hole mod length xs)" "entries ys = entries xs"
    "i mod length xs \<noteq> hole \<Longrightarrow> rank m ys i \<le> rank m xs i" "rank m ys hole \<le> rank m xs (Suc hole) - 1"
proof -
  let ?n = "length xs" and ?h = "desired_pos m (pos_hash q)" and ?q = "Suc hole mod length xs"
  have l: "hole < ?n" "xs ! hole = None" "rank m xs (Suc hole) \<le> rank m xs (hole + ?n - 1) + 2"
    and r: "\<And>i. i < ?n \<Longrightarrow> i \<noteq> hole \<Longrightarrow> rank m xs (Suc i) \<le> Suc (rank m xs i)"
    and sized: "sized m xs"
    using assms(1) by (auto simp: holed_def)
  have n: "8 \<le> ?n" using sized_ge_8 [OF sized] .
  have q: "?q < ?n" "?q \<noteq> hole" using l(1) n by (auto simp: mod_if)
  have h: "?h < ?n" using desired_pos_less [OF sized] .
  have "rank m xs (Suc hole) = Suc (gap ?n ?h ?q)"
    using assms(2) by (simp add: rank_def)
  moreover from this assms(3) gap_pred [OF h l(1)] have "gap ?n ?h ?q = Suc (gap ?n ?h hole)" by simp
  ultimately have rl: "Suc (gap ?n ?h hole) = rank m xs (Suc hole) - 1" by simp
  have rank: "rank m ys i = (if i mod ?n = ?q then 0 else if i mod ?n = hole
      then rank m xs (Suc hole) - 1 else rank m xs i)" for i
    unfolding ys_def using l(1) q rl by (simp add: rank_update)
  show "rank m ys hole \<le> rank m xs (Suc hole) - 1" using rank [of hole] q(2) l(1) by simp
  show "i mod ?n \<noteq> hole \<Longrightarrow> rank m ys i \<le> rank m xs i" by (simp add: rank)
  have "xs[hole := Some q] ! ?q = Some q" using assms(2) q by simp
  then show "entries ys = entries xs"
    using entries_update [OF l(1), of "Some q"] entries_update [of ?q "xs[hole := Some q]" None] q l(2)
    by (simp add: ys_def)
  have len: "length ys = ?n" by (simp add: ys_def)
  show "holed m ys ?q"
    unfolding holed_def len
  proof (intro conjI allI impI)
    show "sized m ys" using sized by (rule sized_length) (rule len)
    show "?q < ?n" by (rule q)
    show "ys ! ?q = None" using q by (simp add: ys_def)
    have "Suc ?q mod ?n \<noteq> hole" "Suc ?q mod ?n \<noteq> ?q" "(?q + ?n - 1) mod ?n = hole"
      using successor_positions [OF l(1) n] by auto
    then have "rank m ys (Suc ?q) = rank m xs (Suc ?q)" "rank m ys (?q + ?n - 1) = rank m xs (Suc hole) - 1"
      using q by (simp_all add: rank)
    with r [OF q] show "rank m ys (Suc ?q) \<le> rank m ys (?q + ?n - 1) + 2"
      using assms(3) by simp
    fix i assume i: "i < ?n" "i \<noteq> ?q"
    show "rank m ys (Suc i) \<le> Suc (rank m ys i)"
    proof (cases "Suc i mod ?n = hole")
      case True
      then have "i \<noteq> hole" "(hole + ?n - 1) mod ?n = i" using successor_positions [OF i(1) n] by auto
      then have "rank m xs (hole + ?n - 1) = rank m xs i" using rank_mod by metis
      with True l(3) i \<open>i \<noteq> hole\<close> q(2) show ?thesis by (simp add: rank)
    next
      case False
      show ?thesis
      proof (cases "i = hole")
        case True
        then show ?thesis by (simp add: rank)
      next
        case neq: False
        with False r [OF i(1)] i show ?thesis by (simp add: rank)
      qed
    qed
  qed
qed

lemma offset_positions:
  assumes "l < n" "0 < d" "Suc d < n"
  shows "(l + Suc d) mod n \<noteq> l" "(l + Suc d) mod n \<noteq> Suc l mod n"
proof -
  have "gap n l ((l + Suc d) mod n) = Suc d" "gap n l (Suc l mod n) = 1"
    using gap_add [of l n "Suc d"] gap_add [of l n 1] assms by simp_all
  with assms show "(l + Suc d) mod n \<noteq> l" "(l + Suc d) mod n \<noteq> Suc l mod n" by auto
qed

lemma remove_loop_ok:
  assumes "holed m xs hole" "xs ! ((hole + Suc r) mod length xs) = None" "Suc r < length xs"
  shows "\<exists>ys. probe_loop (length xs) (remove_body m) (Suc hole mod length xs) (hole, xs) = Some ys
    \<and> robin m ys \<and> length ys = length xs \<and> entries ys = entries xs
    \<and> (\<forall>i. rank m ys i \<le> (if i mod length xs = hole then rank m xs (Suc hole) - 1 else rank m xs i))"
  using assms
proof (induction r arbitrary: xs hole)
  case (0 xs hole)
  let ?n = "length xs" and ?q = "Suc hole mod length xs"
  have hole: "hole < ?n" "xs ! hole = None" using 0(1) by (auto simp: holed_def)
  have q: "?q < ?n" using mod_in [OF hole(1)] .
  have v: "xs ! ?q = None" using 0(2) by simp
  have "probe_loop ?n (remove_body m) ?q (hole, xs) = Some xs"
    by (rule probe_loop_stop) (use q v hole in \<open>auto simp: remove_body_def get_def\<close>)
  moreover have "rank m xs (Suc hole) = 0" using v by (simp add: rank_eq_0)
  moreover have "rank m xs i \<le> (if i mod ?n = hole then rank m xs (Suc hole) - 1 else rank m xs i)" for i
    using rank_vacant [OF hole] rank_at [of i xs hole m] by auto
  ultimately show ?case using holed_done [OF 0(1)] by auto
next
  case (Suc r xs hole)
  let ?n = "length xs" and ?q = "Suc hole mod length xs"
  have hole: "hole < ?n" "xs ! hole = None" and sized: "sized m xs"
    using Suc.prems(1) by (auto simp: holed_def)
  have q: "?q < ?n" using mod_in [OF hole(1)] .
  have n: "0 < ?n" using hole(1) by linarith
  show ?case
  proof (cases "rank m xs (Suc hole) \<le> 1")
    case True
    have "remove_body m ?q (hole, xs) = Some (Inl xs)"
    proof (cases "xs ! ?q")
      case (Some p)
      with True rank_mod [of m xs "Suc hole"] rank_occupied [OF q] have "gap ?n (desired_pos m (pos_hash p)) ?q = 0"
        by simp
      with Some q show ?thesis by (simp add: remove_body_def get_def probe_distance_gap [OF sized q])
    qed (use q in \<open>simp add: remove_body_def get_def\<close>)
    then have "probe_loop ?n (remove_body m) ?q (hole, xs) = Some xs"
      by (rule probe_loop_stop [OF n])
    moreover have "rank m xs i \<le> (if i mod ?n = hole then rank m xs (Suc hole) - 1 else rank m xs i)" for i
      using rank_vacant [OF hole] rank_at [of i xs hole m] by auto
    ultimately show ?thesis using holed_done [OF Suc.prems(1) True] by auto
  next
    case False
    then obtain p where p: "xs ! ?q = Some p" by (cases "xs ! ?q") (auto simp: rank_eq_0 rank_def)
    let ?ys = "xs[hole := Some p, ?q := None]"
    note step = holed_step [OF Suc.prems(1) p] 
    from False have gt: "rank m xs (Suc hole) > 1" by simp
    have "gap ?n (desired_pos m (pos_hash p)) ?q > 0"
      using gt p by (simp add: rank_def)
    then have "remove_body m ?q (hole, xs) = Some (Inr (?q, ?ys))"
      using p q by (simp add: remove_body_def get_def probe_distance_gap [OF sized q])
    then have loop: "probe_loop ?n (remove_body m) ?q (hole, xs) = probe_loop ?n (remove_body m) (Suc ?q mod ?n) (?q, ?ys)"
      using probe_loop_step [OF n] by (metis mod_Suc_eq)
    have neq: "(hole + Suc (Suc r)) mod ?n \<noteq> hole" "(hole + Suc (Suc r)) mod ?n \<noteq> ?q"
      using Suc.prems(3) hole(1) offset_positions [of hole ?n "Suc r"] by auto
    have pos: "(?q + Suc r) mod ?n = (hole + Suc (Suc r)) mod ?n"
      by (metis add_Suc_shift mod_add_left_eq)
    have len: "length ?ys = ?n" by simp
    have vac: "?ys ! ((?q + Suc r) mod length ?ys) = None"
      unfolding len pos using neq Suc.prems(2) by simp
    have "Suc r < length ?ys" using Suc.prems(3) by simp
    from Suc.IH [OF _ vac this] step(1) [OF gt] obtain zs where
      zs: "probe_loop ?n (remove_body m) (Suc ?q mod ?n) (?q, ?ys) = Some zs" "robin m zs" "length zs = ?n"
        "entries zs = entries ?ys"
        "\<And>i. rank m zs i \<le> (if i mod ?n = ?q then rank m ?ys (Suc ?q) - 1 else rank m ?ys i)"
      by (auto simp: len)
    have "rank m zs i \<le> (if i mod ?n = hole then rank m xs (Suc hole) - 1 else rank m xs i)" for i
    proof (cases "i mod ?n = ?q")
      case True
      have "?q \<noteq> hole" using hole(1) sized_ge_8 [OF sized] by (auto simp: mod_if)
      have "rank m ?ys (Suc ?q) - 1 \<le> rank m xs ?q"
      proof -
        have "Suc ?q mod ?n \<noteq> hole" using successor_positions [OF hole(1) sized_ge_8 [OF sized]] by simp
        from step(3) [OF gt this] have "rank m ?ys (Suc ?q) \<le> rank m xs (Suc ?q)" .
        also have "\<dots> \<le> Suc (rank m xs ?q)" using Suc.prems(1) q \<open>?q \<noteq> hole\<close> by (auto simp: holed_def)
        finally show ?thesis by simp
      qed
      also have "\<dots> = rank m xs i" using True rank_mod by metis
      finally show ?thesis using zs(5) [of i] True \<open>?q \<noteq> hole\<close> by simp
    next
      case False
      show ?thesis
      proof (cases "i mod ?n = hole")
        case True
        then have "rank m ?ys i = rank m ?ys hole" using rank_mod [of m ?ys i] by simp
        with zs(5) [of i] False True step(4) [OF gt] show ?thesis by simp
      next
        case neq: False
        with zs(5) [of i] False step(3) [OF gt neq] show ?thesis by simp
      qed
    qed
    with zs loop step(2) [OF gt] show ?thesis by auto
  qed
qed

text \<open>Removing an entry: the others stay and come closer to their desired positions.\<close>

lemma remove_ok:
  assumes "robin m xs" "vacancy xs" "p < length xs" "xs ! p = Some e"
  shows "\<exists>ys. remove_phase_two m p (xs[p := None]) = Some ys \<and> robin m ys \<and> length ys = length xs
    \<and> add_mset e (entries ys) = entries xs \<and> (\<forall>i. rank m ys i \<le> rank m xs i)"
proof -
  let ?n = "length xs" and ?ys = "xs[p := None]"
  note holed = holed_remove [OF assms(1,3)]
  obtain r where r: "r < ?n" "xs ! ((p + r) mod ?n) = None" using vacancy_offset [OF assms(2,3)] .
  with assms(3,4) have "r \<noteq> 0" by (cases r) auto
  then obtain r' where r': "r = Suc r'" by (cases r) auto
  from r assms(3,4) have "(p + r) mod ?n \<noteq> p" by auto
  with r r' have "?ys ! ((p + Suc r') mod length ?ys) = None" "Suc r' < length ?ys" by simp_all
  from remove_loop_ok [OF holed(1) this] obtain zs where
    zs: "probe_loop ?n (remove_body m) (Suc p mod ?n) (p, ?ys) = Some zs" "robin m zs" "length zs = ?n"
      "entries zs = entries ?ys"
      "\<And>i. rank m zs i \<le> (if i mod ?n = p then rank m ?ys (Suc p) - 1 else rank m ?ys i)"
    by auto
  have "remove_phase_two m p ?ys = Some zs"
    using zs(1)
    by (simp add: remove_phase_two_def probe_loop_mod [OF le_less_trans [OF le0 assms(3)] Suc_leI [OF assms(3)]])
  moreover have "add_mset e (entries zs) = entries xs"
    using entries_update [OF assms(3), of None] assms(4) zs(4) by simp
  moreover have "rank m zs i \<le> rank m xs i" for i
  proof (cases "i mod ?n = p")
    case True
    have "rank m xs (Suc p) \<le> Suc (rank m xs p)" using assms(1) by (simp add: robin_def)
    with holed(2) [of "Suc p"] zs(5) [of i] True have "rank m zs i \<le> rank m xs p" by simp
    with True show ?thesis by (metis rank_mod)
  next
    case False
    with zs(5) [of i] holed(2) [of i] show ?thesis by simp
  qed
  ultimately show ?thesis using zs(2,3) by blast
qed

section \<open>Growing\<close>

text \<open>
  The entries are inserted again in the order of their desired positions, starting at one that is where it
  wants to be. In an array of twice the length every entry has its old desired position or the one half the
  array further on; in each half the entries come in order, and none goes beyond its half.
\<close>

lemma first_ideal_rank:
  assumes "robin m xs" "vacancy xs"
  shows "first_ideal m xs < length xs" "rank m xs (first_ideal m xs) \<le> 1"
proof -
  have sized: "sized m xs" by (rule robin_sized [OF assms(1)])
  have ideal: "(case xs ! i of Some p \<Rightarrow> probe_distance m (pos_hash p) i = 0 | None \<Rightarrow> False)
      \<longleftrightarrow> rank m xs i = 1" if "i < length xs" for i
    using that by (auto simp: rank_def probe_distance_gap [OF sized that] split: option.split)
  show "first_ideal m xs < length xs" "rank m xs (first_ideal m xs) \<le> 1"
  proof (atomize (full), cases "\<exists>i < length xs. rank m xs i = 1")
    case True
    then obtain i where "i < length xs" "rank m xs i = 1" by blast
    then have "List.find (\<lambda>i. case xs ! i of Some p \<Rightarrow> probe_distance m (pos_hash p) i = 0 | None \<Rightarrow> False)
        [0..<length xs] \<noteq> None"
      using ideal by (auto simp: find_None_iff)
    then obtain j where j: "List.find (\<lambda>i. case xs ! i of Some p \<Rightarrow> probe_distance m (pos_hash p) i = 0 | None \<Rightarrow> False)
        [0..<length xs] = Some j" by blast
    then have "j < length xs" "rank m xs j = 1"
      using ideal [of j] by (auto simp: find_Some_iff)
    with j show "first_ideal m xs < length xs \<and> rank m xs (first_ideal m xs) \<le> 1"
      by (simp add: first_ideal_def)
  next
    case False
    then have none: "List.find (\<lambda>i. case xs ! i of Some p \<Rightarrow> probe_distance m (pos_hash p) i = 0 | None \<Rightarrow> False)
        [0..<length xs] = None"
      using ideal by (auto simp: find_None_iff)
    obtain e where e: "e < length xs" "xs ! e = None"
      using assms(2) by (auto simp: vacancy_def in_set_conv_nth)
    have not_1: "rank m xs i \<noteq> 1" for i
    proof -
      have "i mod length xs < length xs" using e(1) by (rule mod_in)
      with False rank_mod [of m xs i] show ?thesis by metis
    qed
    have "rank m xs (e + j) = 0" for j
    proof (induction j)
      case (Suc j)
      then have "rank m xs (e + Suc j) \<le> 1" using assms(1) by (simp add: robin_def) (metis Suc_le_mono le_zero_eq)
      with not_1 [of "e + Suc j"] show ?case by simp
    qed (simp add: rank_vacant [OF e])
    from this [of "length xs - e"] have "rank m xs 0 = 0"
      using e(1) rank_mod [of m xs "length xs"] by simp
    then show "first_ideal m xs < length xs \<and> rank m xs (first_ideal m xs) \<le> 1"
      using none e(1) by (auto simp: first_ideal_def)
  qed
qed

lemma gap_offset:
  assumes "u \<le> s" "s < n"
  shows "gap n ((f + u) mod n) ((f + s) mod n) = s - u"
proof -
  have "(f + u) mod n < n" using assms(2) by (rule mod_in)
  moreover have "s - u < n" using assms(2) by simp
  ultimately have "gap n ((f + u) mod n) (((f + u) mod n + (s - u)) mod n) = s - u" by (rule gap_add)
  moreover have "((f + u) mod n + (s - u)) mod n = (f + u + (s - u)) mod n" by (rule mod_add_left_eq)
  then have "((f + u) mod n + (s - u)) mod n = (f + s) mod n" using assms(1) by simp
  ultimately show ?thesis by simp
qed

lemma mod_cancel:
  assumes "(a + g) mod n = (b + g) mod (n :: nat)"
  shows "a mod n = b mod n"
proof (cases "n = 0")
  case False
  then have x: "x + g + (n * g - g) = x + n * g" for x by simp
  from assms have "(a + g + (n * g - g)) mod n = (b + g + (n * g - g)) mod n"
    by (metis mod_add_left_eq)
  then show ?thesis unfolding x by simp
qed (use assms in simp)

text \<open>Offset of the desired position from \<open>f\<close>.\<close>

definition off :: "u64 \<Rightarrow> nat \<Rightarrow> nat \<Rightarrow> pos \<Rightarrow> nat" where
  "off m n f e = gap n f (desired_pos m (pos_hash e))"

lemma off_rank:
  assumes "robin m xs" "f < length xs" "rank m xs f \<le> 1" "t < length xs"
    "xs ! ((f + t) mod length xs) = Some e"
  shows "off m (length xs) f e + rank m xs (f + t) = t + 1"
proof -
  let ?n = "length xs" and ?h = "desired_pos m (pos_hash e)"
  have r: "rank m xs (f + t) = Suc (gap ?n ?h ((f + t) mod ?n))"
    using assms(5) by (simp add: rank_def)
  have "rank m xs (f + t) \<le> 1 + t"
    using rank_run [OF assms(1), of f t] assms(3) by linarith
  with r have g: "gap ?n ?h ((f + t) mod ?n) \<le> t" by simp
  let ?o = "t - gap ?n ?h ((f + t) mod ?n)"
  have h: "?h < ?n" using desired_pos_less robin_sized [OF assms(1)] .
  have "(?h + gap ?n ?h ((f + t) mod ?n)) mod ?n = (f + t) mod ?n"
    by (rule add_gap [OF h mod_in [OF assms(4)]])
  also have "\<dots> = (f + ?o + gap ?n ?h ((f + t) mod ?n)) mod ?n" using g by simp
  finally have "?h mod ?n = (f + ?o) mod ?n" by (rule mod_cancel)
  then have "?h = (f + ?o) mod ?n" using h by simp
  moreover have "?o < ?n" using assms(4) by simp
  ultimately have "off m ?n f e = ?o"
    unfolding off_def using gap_add [OF assms(2), of ?o] by metis
  with r g show ?thesis by simp
qed

lemma off_mono:
  assumes "robin m xs" "f < length xs" "rank m xs f \<le> 1" "t \<le> u" "u < length xs"
    "xs ! ((f + t) mod length xs) = Some d" "xs ! ((f + u) mod length xs) = Some e"
  shows "off m (length xs) f d \<le> off m (length xs) f e"
proof -
  have "rank m xs (f + u) \<le> rank m xs (f + t) + (u - t)"
    using rank_run [OF assms(1), of "f + t" "u - t"] assms(4) by simp
  with off_rank [OF assms(1-3) _ assms(6)] off_rank [OF assms(1-3) assms(5,7)] assms(4,5)
  show ?thesis by linarith
qed

lemma off_home:
  assumes "sized m xs" "f < length xs"
  shows "off m (length xs) f e < length xs"
    "(f + off m (length xs) f e) mod length xs = desired_pos m (pos_hash e)"
  unfolding off_def
  by (rule gap_less [OF le_less_trans [OF le0 assms(2)]], rule add_gap [OF assms(2) desired_pos_less [OF assms(1)]])

lemma off_double:
  assumes "sized m xs" "sized m' ys" "length ys = 2 * length xs" "f < length xs"
  shows "off m' (length ys) f e mod length xs = off m (length xs) f e"
proof -
  let ?n = "length xs" and ?u = "off m' (length ys) f e"
  have f: "f < length ys" using assms(3,4) by simp
  have "(f + ?u) mod length ys = unat (pos_hash e) mod length ys"
    using off_home(2) [OF assms(2) f] by (simp add: desired_pos_mod [OF assms(2)])
  then have "(f + ?u) mod length ys mod ?n = unat (pos_hash e) mod length ys mod ?n" by simp
  then have "(f + ?u) mod ?n = unat (pos_hash e) mod ?n"
    unfolding assms(3) by (simp only: mod_mult_self2_is_0 mod_mod_cancel dvd_triv_right)
  moreover have "(f + off m ?n f e) mod ?n = unat (pos_hash e) mod ?n"
    using off_home(2) [OF assms(1,4)] by (simp add: desired_pos_mod [OF assms(1)])
  ultimately have "(?u + f) mod ?n = (off m ?n f e + f) mod ?n" by (simp add: add.commute)
  then have "?u mod ?n = off m ?n f e mod ?n" by (rule mod_cancel)
  then show ?thesis using off_home(1) [OF assms(1,4)] by simp
qed

text \<open>The new array after the first \<open>t\<close> positions from \<open>f\<close> on.\<close>

definition grown :: "u64 \<Rightarrow> u64 \<Rightarrow> pos option list \<Rightarrow> nat \<Rightarrow> nat \<Rightarrow> pos option list \<Rightarrow> bool" where
  "grown m m' xs f t ys \<longleftrightarrow> robin m' ys \<and> length ys = 2 * length xs
     \<and> entries ys = entries (take t (rotate f xs))
     \<and> (\<forall>s < length ys. \<forall>e. ys ! ((f + s) mod length ys) = Some e \<longrightarrow>
          (\<exists>u < t. xs ! ((f + u) mod length xs) = Some e) \<and> s mod length xs < t
          \<and> off m' (length ys) f e \<le> s \<and> s div length xs = off m' (length ys) f e div length xs)"

lemma reinsert_ok:
  assumes "robin m xs" "f < length xs" "rank m xs f \<le> 1" "grown m m' xs f t ys" "t < length xs"
    "xs ! ((f + t) mod length xs) = Some e"
  shows "\<exists>zs. reinsert_entry_in_order m' (Some e) ys = Some zs \<and> grown m m' xs f (Suc t) zs"
proof -
  let ?n = "length xs" and ?N = "length ys"
  let ?u = "\<lambda>e. off m' (length ys) f e"
  have robin: "robin m' ys" and N: "?N = 2 * ?n" and ents: "entries ys = entries (take t (rotate f xs))"
    and old: "\<And>s q. s < ?N \<Longrightarrow> ys ! ((f + s) mod ?N) = Some q \<Longrightarrow>
      (\<exists>u < t. xs ! ((f + u) mod ?n) = Some q) \<and> s mod ?n < t \<and> ?u q \<le> s \<and> s div ?n = ?u q div ?n"
    using assms(4) by (auto simp: grown_def)
  have sized: "sized m xs" and sized': "sized m' ys" using robin_sized assms(1) robin by auto
  have f: "f < ?N" using assms(2) N by simp
  have n: "0 < ?n" using assms(2) by linarith
  note home = off_home [OF sized' f, of e]
  have mod_u: "?u q mod ?n = off m ?n f q" for q by (rule off_double [OF sized sized' N assms(2)])
  have le_t: "off m ?n f e \<le> t" using off_rank [OF assms(1-3,5,6)] rank_eq_0 [of m xs "f + t"] assms(6) by auto
  define S where "S = ?n * (?u e div ?n) + t"
  have u_eq: "?u q = ?n * (?u q div ?n) + off m ?n f q" for q
    using mult_div_mod_eq [of ?n "?u q"] mod_u [of q] by simp
  have "?u e div ?n < 2" using home(1) N by (simp add: less_mult_imp_div_less)
  then have "?n * (?u e div ?n) \<le> ?n" by simp
  then have "S < ?n + ?n" using assms(5) unfolding S_def by linarith
  then have S: "?u e \<le> S" "S < ?N" "S div ?n = ?u e div ?n" "S mod ?n = t"
    using u_eq [of e] le_t assms(5) N n by (simp_all add: S_def)
  have vacant_S: "ys ! ((f + S) mod ?N) = None"
  proof (cases "ys ! ((f + S) mod ?N)")
    case (Some q)
    with old [OF S(2)] S(4) show ?thesis by simp
  qed
  define s where "s = (LEAST s. ?u e \<le> s \<and> ys ! ((f + s) mod ?N) = None)"
  have s: "?u e \<le> s" "ys ! ((f + s) mod ?N) = None" "s \<le> S"
    unfolding s_def using LeastI [of "\<lambda>s. ?u e \<le> s \<and> ys ! ((f + s) mod ?N) = None" S]
      Least_le [of "\<lambda>s. ?u e \<le> s \<and> ys ! ((f + s) mod ?N) = None" S] S(1) vacant_S by auto
  have occ: "ys ! ((f + x) mod ?N) \<noteq> None" if "?u e \<le> x" "x < s" for x
    using not_less_Least [of x "\<lambda>s. ?u e \<le> s \<and> ys ! ((f + s) mod ?N) = None"] that by (auto simp: s_def)
  have sN: "s < ?N" using s(3) S(2) by simp
  have block: "x div ?n = ?u e div ?n" if "?u e \<le> x" "x \<le> S" for x
    using div_le_mono [OF that(1), of ?n] div_le_mono [OF that(2), of ?n] S(3) by simp
  let ?p = "(f + s) mod ?N" and ?zs = "ys[(f + s) mod ?N := Some e]"
  have p: "?p < ?N" using f by (rule mod_in)
  have pos: "(desired_pos m' (pos_hash e) + j) mod ?N = (f + (?u e + j)) mod ?N" for j
    using home(2) by (metis add.assoc mod_add_left_eq)
  have "probe_loop ?N (reinsert_body e) (desired_pos m' (pos_hash e) mod ?N) ys = Some ?zs"
  proof (rule probe_loop_run [where st = "\<lambda>_. ys" and d = "s - ?u e"])
    show "0 < ?N" using f by linarith
    fix j assume j: "j < s - ?u e"
    then have "ys ! ((f + (?u e + j)) mod ?N) \<noteq> None" by (intro occ) auto
    then show "reinsert_body e ((desired_pos m' (pos_hash e) + j) mod ?N) ys = Some (Inr ys)"
      unfolding pos using mod_in [OF f] by (simp add: reinsert_body_def get_def)
  next
    have "(f + (?u e + (s - ?u e))) mod ?N = ?p" using s(1) by simp
    then show "reinsert_body e ((desired_pos m' (pos_hash e) + (s - ?u e)) mod ?N) ys = Some (Inl ?zs)"
      unfolding pos using s(2) p by (simp add: reinsert_body_def get_def)
  qed
  then have run: "reinsert_entry_in_order m' (Some e) ys = Some ?zs"
    using desired_pos_less [OF sized', of "pos_hash e"] by (simp add: reinsert_entry_in_order_def)
  have g: "gap ?N (desired_pos m' (pos_hash e)) ?p = s - ?u e"
    using gap_offset [OF s(1) sN, of f] home(2) by simp
  have "s - ?u e \<le> rank m' ys (?p + ?N - 1)"
  proof (cases "s = ?u e")
    case False
    with s(1) have s1: "?u e \<le> s - 1" "s - 1 < s" "0 < s" by auto
    from occ [OF s1(1,2)] obtain q where q: "ys ! ((f + (s - 1)) mod ?N) = Some q" by auto
    have s1N: "s - 1 < ?N" using sN by simp
    from old [OF s1N q] obtain u where u: "u < t" "xs ! ((f + u) mod ?n) = Some q" "?u q \<le> s - 1"
      "(s - 1) div ?n = ?u q div ?n" by blast
    have "off m ?n f q \<le> off m ?n f e"
      using off_mono [OF assms(1-3) _ assms(5) u(2) assms(6)] u(1) by simp
    moreover have "?u q div ?n = ?u e div ?n" using block [of "s - 1"] s1(1) s(3) u(4) by simp
    ultimately have "?u q \<le> ?u e" using u_eq [of q] u_eq [of e] by simp
    moreover have "rank m' ys (f + (s - 1)) = Suc (s - 1 - ?u q)"
      using q gap_offset [OF u(3) s1N, of f] off_home(2) [OF sized' f, of q] by (simp add: rank_def)
    moreover have "rank m' ys (?p + ?N - 1) = rank m' ys (f + (s - 1))"
    proof (rule rank_cong_mod)
      have "?p + ?N - 1 = ?p + (?N - 1)" using f by simp
      then have "(?p + ?N - 1) mod ?N = (f + s + (?N - 1)) mod ?N" by (simp add: mod_add_left_eq)
      also have "f + s + (?N - 1) = f + (s - 1) + ?N" using s1(3) f by simp
      finally show "(?p + ?N - 1) mod ?N = (f + (s - 1)) mod ?N" by simp
    qed
    ultimately show ?thesis using s1 by simp
  qed simp
  moreover have "rank m' ys ?p = 0" using s(2) by (simp add: rank_eq_0)
  ultimately have "may_place m' ys e ?p" using p g by (simp add: may_place_def)
  from robin_place [OF robin this] have robin': "robin m' ?zs" .
  have "take (Suc t) (rotate f xs) = take t (rotate f xs) @ [Some e]"
    using assms(5,6) by (simp add: take_Suc_conv_app_nth nth_rotate)
  then have ents': "entries ?zs = entries (take (Suc t) (rotate f xs))"
    using entries_update [OF p, of "Some e"] s(2) ents by (simp add: entries_Cons)
  have "(\<exists>v < Suc t. xs ! ((f + v) mod ?n) = Some q) \<and> x mod ?n < Suc t \<and> ?u q \<le> x \<and> x div ?n = ?u q div ?n"
    if x: "x < ?N" "?zs ! ((f + x) mod ?N) = Some q" for x q
  proof (cases "(f + x) mod ?N = ?p")
    case True
    then have "(x + f) mod ?N = (s + f) mod ?N" by (simp add: add.commute)
    then have "x = s" using mod_cancel [of x f ?N s] x(1) sN by simp
    moreover from True x(2) p have "q = e" by simp
    moreover have "s mod ?n < Suc t"
    proof -
      have "s = ?n * (?u e div ?n) + s mod ?n" using block [OF s(1,3)] mult_div_mod_eq [of ?n s] by simp
      with s(3) show ?thesis by (simp add: S_def)
    qed
    ultimately show ?thesis using s(1) block [OF s(1,3)] assms(6) by auto
  next
    case False
    with x(2) p have "ys ! ((f + x) mod ?N) = Some q" by simp
    from old [OF x(1) this] show ?thesis using less_SucI by blast
  qed
  with robin' ents' N have "grown m m' xs f (Suc t) ?zs" by (simp add: grown_def)
  with run show ?thesis by blast
qed

lemma for_each_append: "for_each f (xs @ ys) s = Option.bind (for_each f xs s) (for_each f ys)"
  by (induction xs arbitrary: s) (auto split: bind_split)

lemma reinsert_None [simp]: "reinsert_entry_in_order m None xs = Some xs"
  by (simp add: reinsert_entry_in_order_def)

lemma robin_replicate:
  assumes "sized m' (replicate N (None :: pos option))"
  shows "robin m' (replicate N None)"
proof (rule robinI [OF assms])
  fix i assume "i < length (replicate N (None :: pos option))"
  then show "rank m' (replicate N None) (Suc i) \<le> Suc (rank m' (replicate N None) i)"
    using mod_in [of i N "Suc i"] by (simp add: rank_def)
qed

lemma grow_indices_ok:
  assumes "robin m xs" "vacancy xs" "sized m' (replicate (2 * length xs) (None :: pos option))"
  shows "\<exists>ys. grow_indices m m' (2 * length xs) xs = Some ys \<and> robin m' ys \<and> length ys = 2 * length xs
    \<and> entries ys = entries xs"
proof -
  let ?f = "first_ideal m xs" and ?empty = "replicate (2 * length xs) None :: pos option list"
  note f = first_ideal_rank [OF assms(1,2)]
  have rot: "drop ?f xs @ take ?f xs = rotate ?f xs" using f(1) by (simp add: rotate_drop_take)
  have "\<exists>ys. for_each (reinsert_entry_in_order m') (take t (rotate ?f xs)) ?empty = Some ys
      \<and> grown m m' xs ?f t ys" if "t \<le> length xs" for t
    using that
  proof (induction t)
    case 0
    then show ?case
      using robin_replicate [OF assms(3)] mod_in [of _ "2 * length xs"] by (auto simp: grown_def)
  next
    case (Suc t)
    then obtain ys where ys: "for_each (reinsert_entry_in_order m') (take t (rotate ?f xs)) ?empty = Some ys"
      "grown m m' xs ?f t ys" by auto
    let ?x = "xs ! ((?f + t) mod length xs)"
    have snoc: "take (Suc t) (rotate ?f xs) = take t (rotate ?f xs) @ [?x]"
      using Suc.prems by (simp add: take_Suc_conv_app_nth nth_rotate)
    show ?case
    proof (cases ?x)
      case None
      have "entries (take (Suc t) (rotate ?f xs)) = entries (take t (rotate ?f xs))"
        unfolding snoc by (simp add: None entries_Cons)
      with ys(2) have "grown m m' xs ?f (Suc t) ys"
        unfolding grown_def using less_SucI by metis
      with ys(1) show ?thesis unfolding snoc by (simp add: for_each_append None)
    next
      case (Some e)
      with reinsert_ok [OF assms(1) f ys(2) _ Some] Suc.prems ys(1) show ?thesis
        unfolding snoc by (auto simp: for_each_append)
    qed
  qed
  from this [of "length xs"] obtain ys where
    "for_each (reinsert_entry_in_order m') (rotate ?f xs) ?empty = Some ys" "grown m m' xs ?f (length xs) ys"
    by auto
  moreover have "entries (rotate ?f xs) = entries xs" using rot entries_rotate by metis
  ultimately show ?thesis by (simp add: grow_indices_def rot grown_def)
qed

end
