(* ===== verification/Hpack_Table.thy ===== *)
theory Hpack_Table
  imports Hpack_Probing Hpack_Decoder
begin

text \<open>
  The encoder's table (\<open>h2/hpack/table.rs\<close>): the dynamic table as a deque of slots, found by name through
  the index array of \<open>Hpack_Probing\<close>. The slots of one name form a chain from the oldest, to which the
  array points, to the newest. Slots are named by when they were inserted, so that the name
  of a slot does not change when others come and go; the counter wraps.

  The hasher of the crate \<open>fnv\<close> is the parameter \<open>H\<close>. As in \<open>Hpack_Probing\<close>, \<open>None\<close> is a call that
  panics or does not return.
\<close>

section \<open>The table\<close>

record slot =
  slot_hash :: u64
  slot_header :: "bytes header"
  slot_next :: "u64 option"

record enc_table =
  t_mask :: u64
  t_indices :: "pos option list"
  t_slots :: "slot list"
  t_inserted :: u64
  t_size :: nat
  t_max_size :: nat

datatype index =
    Ix_Indexed nat "bytes header"
  | Ix_Name nat "bytes header"
  | Ix_Inserted nat
  | Ix_InsertedValue nat nat
  | Ix_NotIndexed "bytes header"

definition DYN_OFFSET :: nat where
  "DYN_OFFSET = 62"

definition usable_capacity :: "nat \<Rightarrow> nat" where
  "usable_capacity cap = cap - cap div 4"

definition to_raw_capacity :: "nat \<Rightarrow> nat" where
  "to_raw_capacity n = n + n div 3"

text \<open>\<open>usize::next_power_of_two\<close>.\<close>

definition next_power_of_two :: "nat \<Rightarrow> nat" where
  "next_power_of_two n = 2 ^ length (takeWhile (\<lambda>k. 2 ^ k < n) [0..<n])"

definition enc_table_new :: "nat \<Rightarrow> nat \<Rightarrow> enc_table" where
  "enc_table_new max_size capacity =
     (if capacity = 0
      then \<lparr>t_mask = 0, t_indices = [], t_slots = [], t_inserted = 0, t_size = 0, t_max_size = max_size\<rparr>
      else
        let capacity = max (next_power_of_two (to_raw_capacity capacity)) 8
        in \<lparr>t_mask = of_nat capacity - 1, t_indices = replicate capacity None, t_slots = [],
            t_inserted = 0, t_size = 0, t_max_size = max_size\<rparr>)"

definition table_capacity :: "enc_table \<Rightarrow> nat" where
  "table_capacity t = usable_capacity (length (t_indices t))"

fun resolve :: "enc_table \<Rightarrow> index \<Rightarrow> bytes header option" where
  "resolve t (Ix_Indexed _ h) = Some h"
| "resolve t (Ix_Name _ h) = Some h"
| "resolve t (Ix_Inserted idx) = map_option slot_header (get (t_slots t) idx)"
| "resolve t (Ix_InsertedValue _ idx) = map_option slot_header (get (t_slots t) idx)"
| "resolve t (Ix_NotIndexed h) = Some h"

fun resolve_idx :: "index \<Rightarrow> nat option" where
  "resolve_idx (Ix_Indexed idx _) = Some idx"
| "resolve_idx (Ix_Name idx _) = Some idx"
| "resolve_idx (Ix_Inserted idx) = Some (idx + DYN_OFFSET)"
| "resolve_idx (Ix_InsertedValue _ slot_idx) = Some (slot_idx + DYN_OFFSET)"
| "resolve_idx (Ix_NotIndexed _) = None"

fun index_new :: "(nat \<times> bool) option \<Rightarrow> bytes header \<Rightarrow> index" where
  "index_new None e = Ix_NotIndexed e"
| "index_new (Some (n, True)) e = Ix_Indexed n e"
| "index_new (Some (n, False)) e = Ix_Name n e"

definition hash_header :: "(hname \<Rightarrow> u64) \<Rightarrow> bytes header \<Rightarrow> u64" where
  "hash_header H h = H (header_name h) AND 0xFFFF"

section \<open>Eviction\<close>

definition evict_body ::
  "u64 \<Rightarrow> u64 \<Rightarrow> slot \<Rightarrow> u64 option \<Rightarrow> u64 \<Rightarrow> nat \<Rightarrow> pos option list \<Rightarrow>
     (pos option list + pos option list) option" where
  "evict_body m pos_idx slot prev_idx inserted probe indices =
     Option.bind (get indices probe) (\<lambda>p. Option.bind p (\<lambda>pos.
       if pos_index pos = pos_idx then
         (case slot_next slot of
            Some idx \<Rightarrow> Some (Inl (indices[probe := Some (pos\<lparr>pos_index := idx\<rparr>)]))
          | None \<Rightarrow>
              if Some (pos_index pos) = prev_idx
              then Some (Inl (indices[probe := Some (pos\<lparr>pos_index := 0 - (inserted + 1)\<rparr>)]))
              else map_option Inl (remove_phase_two m probe (indices[probe := None])))
       else Some (Inr indices)))"

definition evict :: "u64 option \<Rightarrow> enc_table \<Rightarrow> enc_table option" where
  "evict prev_idx t =
     (if t_slots t = [] then None
      else
        let pos_idx = of_nat (length (t_slots t) - 1) - t_inserted t; slot = last (t_slots t) in
        Option.bind
          (probe_loop (length (t_indices t))
            (evict_body (t_mask t) pos_idx slot prev_idx (t_inserted t))
            (desired_pos (t_mask t) (slot_hash slot)) (t_indices t))
          (\<lambda>indices. Some (t\<lparr>t_slots := butlast (t_slots t),
             t_size := t_size t - header_len (slot_header slot), t_indices := indices\<rparr>)))"

partial_function (option) converge_loop :: "u64 option \<Rightarrow> bool \<Rightarrow> enc_table \<Rightarrow> (bool \<times> enc_table) option" where
  "converge_loop prev_idx ret t =
     (if t_size t > t_max_size t
      then Option.bind (evict prev_idx t) (converge_loop prev_idx True)
      else Some (ret, t))"

definition converge :: "u64 option \<Rightarrow> enc_table \<Rightarrow> (bool \<times> enc_table) option" where
  "converge prev_idx t = converge_loop prev_idx False t"

definition update_size :: "nat \<Rightarrow> u64 option \<Rightarrow> enc_table \<Rightarrow> (bool \<times> enc_table) option" where
  "update_size len prev_idx t = converge prev_idx (t\<lparr>t_size := t_size t + len\<rparr>)"

definition table_resize :: "nat \<Rightarrow> enc_table \<Rightarrow> enc_table option" where
  "table_resize new_size t =
     (let t = t\<lparr>t_max_size := new_size\<rparr> in
      if new_size = 0
      then Some (t\<lparr>t_size := 0, t_indices := map (\<lambda>_. None) (t_indices t), t_slots := [], t_inserted := 0\<rparr>)
      else map_option snd (converge None t))"

section \<open>Insertion\<close>

definition insert_slot :: "bytes header \<Rightarrow> u64 \<Rightarrow> enc_table \<Rightarrow> enc_table" where
  "insert_slot header hash t =
     t\<lparr>t_inserted := t_inserted t + 1,
       t_slots := \<lparr>slot_hash = hash, slot_header = header, slot_next = None\<rparr> # t_slots t\<rparr>"

text \<open>The end of \<open>index_occupied\<close>: insert, and let the slot that was the newest of its name point there.\<close>

definition insert_linked :: "bytes header \<Rightarrow> u64 \<Rightarrow> u64 \<Rightarrow> enc_table \<Rightarrow> enc_table" where
  "insert_linked header hash index t =
     (let t = insert_slot header hash t; new_real_idx = unat (index + t_inserted t) in
      if new_real_idx < length (t_slots t)
      then t\<lparr>t_slots := (t_slots t)[new_real_idx :=
              (t_slots t ! new_real_idx)\<lparr>slot_next := Some (0 - t_inserted t)\<rparr>]\<rparr>
      else t)"

partial_function (option) index_occupied ::
  "bytes header \<Rightarrow> u64 \<Rightarrow> u64 \<Rightarrow> nat option \<Rightarrow> enc_table \<Rightarrow> (index \<times> enc_table) option" where
  "index_occupied header hash index statik t =
     (let real_idx = unat (index + t_inserted t) in
      Option.bind (get (t_slots t) real_idx) (\<lambda>slot.
        if value_eq (slot_header slot) header then Some (Ix_Indexed (real_idx + DYN_OFFSET) header, t)
        else
          (case slot_next slot of
             Some next \<Rightarrow> index_occupied header hash next statik t
           | None \<Rightarrow>
               if is_sensitive header then Some (Ix_Name (real_idx + DYN_OFFSET) header, t)
               else
                 Option.bind (update_size (header_len header) (Some index) t) (\<lambda>(_, t).
                   Some (case statik of
                       Some n \<Rightarrow> Ix_InsertedValue n 0
                     | None \<Rightarrow> Ix_InsertedValue (real_idx + DYN_OFFSET) 0,
                     insert_linked header hash index t)))))"

text \<open>After an eviction the entry may go to an earlier position.\<close>

fun retreat :: "u64 \<Rightarrow> pos option list \<Rightarrow> nat \<Rightarrow> nat \<Rightarrow> nat option" where
  "retreat m indices 0 probe = Some probe"
| "retreat m indices (Suc dist) probe =
     (let back = unat ((of_nat probe - 1) AND m) in
      Option.bind (get indices back) (\<lambda>p.
        case p of
          Some pos \<Rightarrow>
            if probe_distance m (pos_hash pos) back < dist then retreat m indices dist back else Some probe
        | None \<Rightarrow> retreat m indices dist back))"

definition index_vacant ::
  "bytes header \<Rightarrow> u64 \<Rightarrow> nat \<Rightarrow> nat \<Rightarrow> (nat \<times> bool) option \<Rightarrow> enc_table \<Rightarrow> (index \<times> enc_table) option" where
  "index_vacant header hash dist probe statik t =
     (if is_sensitive header then Some (index_new statik header, t)
      else
        Option.bind (update_size (header_len header) None t) (\<lambda>(evicted, t).
        Option.bind (if evicted then retreat (t_mask t) (t_indices t) dist probe else Some probe) (\<lambda>probe.
          let t = insert_slot header hash t; pos_idx = 0 - t_inserted t in
          Option.bind (put_entry \<lparr>pos_index = pos_idx, pos_hash = hash\<rparr> probe (t_indices t)) (\<lambda>indices.
            Some (case statik of Some (n, _) \<Rightarrow> Ix_InsertedValue n 0 | None \<Rightarrow> Ix_Inserted 0,
              t\<lparr>t_indices := indices\<rparr>)))))"

definition grow :: "nat \<Rightarrow> enc_table \<Rightarrow> enc_table option" where
  "grow new_raw_cap t =
     (let m = of_nat new_raw_cap - 1 in
      map_option (\<lambda>indices. t\<lparr>t_indices := indices, t_mask := m\<rparr>)
        (grow_indices (t_mask t) m new_raw_cap (t_indices t)))"

definition reserve_one :: "enc_table \<Rightarrow> enc_table option" where
  "reserve_one t =
     (let len = length (t_slots t) in
      if len = table_capacity t then
        (if len = 0 then Some (t\<lparr>t_mask := 8 - 1, t_indices := replicate 8 None\<rparr>)
         else grow (length (t_indices t) * 2) t)
      else Some t)"

definition dynamic_body ::
  "bytes header \<Rightarrow> u64 \<Rightarrow> (nat \<times> bool) option \<Rightarrow> enc_table \<Rightarrow> nat \<Rightarrow> nat \<Rightarrow>
     (index \<times> enc_table + nat) option" where
  "dynamic_body header hash statik t probe dist =
     Option.bind (get (t_indices t) probe) (\<lambda>p.
       case p of
         Some pos \<Rightarrow>
           let their_dist = probe_distance (t_mask t) (pos_hash pos) probe;
               slot_idx = unat (pos_index pos + t_inserted t)
           in if their_dist < dist then map_option Inl (index_vacant header hash dist probe statik t)
              else if pos_hash pos = hash then
                Option.bind (get (t_slots t) slot_idx) (\<lambda>slot.
                  if header_name (slot_header slot) = header_name header
                  then map_option Inl (index_occupied header hash (pos_index pos) (map_option fst statik) t)
                  else Some (Inr (dist + 1)))
              else Some (Inr (dist + 1))
       | None \<Rightarrow> map_option Inl (index_vacant header hash dist probe statik t))"

definition index_dynamic ::
  "(hname \<Rightarrow> u64) \<Rightarrow> bytes header \<Rightarrow> (nat \<times> bool) option \<Rightarrow> enc_table \<Rightarrow> (index \<times> enc_table) option" where
  "index_dynamic H header statik t =
     Option.bind
       (if header_len header + t_size t < t_max_size t \<or> \<not> is_sensitive header
        then reserve_one t else Some t)
       (\<lambda>t.
         if t_indices t = [] then Some (index_new statik header, t)
         else
           let hash = hash_header H header in
           probe_loop (length (t_indices t)) (dynamic_body header hash statik t)
             (desired_pos (t_mask t) hash) 0)"

definition table_index :: "(hname \<Rightarrow> u64) \<Rightarrow> bytes header \<Rightarrow> enc_table \<Rightarrow> (index \<times> enc_table) option" where
  "table_index H header t =
     (let statik = index_static header in
      if skip_value_index header then Some (index_new statik header, t)
      else
        (case statik of
           Some (n, True) \<Rightarrow> Some (Ix_Indexed n header, t)
         | _ \<Rightarrow>
             if header_len header * 4 > t_max_size t * 3 then Some (index_new statik header, t)
             else index_dynamic H header statik t))"

section \<open>The invariant\<close>

definition slot_name :: "slot \<Rightarrow> hname" where
  "slot_name s = header_name (slot_header s)"

text \<open>The slot at \<open>j\<close> is the oldest of its name.\<close>

definition oldest :: "slot list \<Rightarrow> nat \<Rightarrow> bool" where
  "oldest ss j \<longleftrightarrow> j < length ss \<and> (\<forall>k < length ss. j < k \<longrightarrow> slot_name (ss ! k) \<noteq> slot_name (ss ! j))"

text \<open>The slot at \<open>j\<close> points to the next newer slot of its name.\<close>

definition link_ok :: "u64 \<Rightarrow> slot list \<Rightarrow> nat \<Rightarrow> bool" where
  "link_ok ins ss j \<longleftrightarrow>
     (case slot_next (ss ! j) of
        None \<Rightarrow> \<forall>k < j. slot_name (ss ! k) \<noteq> slot_name (ss ! j)
      | Some p \<Rightarrow> \<exists>k < j. p = of_nat k - ins \<and> slot_name (ss ! k) = slot_name (ss ! j)
          \<and> (\<forall>i. k < i \<longrightarrow> i < j \<longrightarrow> slot_name (ss ! i) \<noteq> slot_name (ss ! j)))"

definition pos_of :: "u64 \<Rightarrow> slot list \<Rightarrow> nat \<Rightarrow> pos" where
  "pos_of ins ss j = \<lparr>pos_index = of_nat j - ins, pos_hash = slot_hash (ss ! j)\<rparr>"

definition linked :: "(hname \<Rightarrow> u64) \<Rightarrow> enc_table \<Rightarrow> bool" where
  "linked H t \<longleftrightarrow> robin (t_mask t) (t_indices t)
     \<and> length (t_slots t) \<le> table_capacity t
     \<and> entries (t_indices t) = image_mset (pos_of (t_inserted t) (t_slots t)) (mset_set {j. oldest (t_slots t) j})
     \<and> (\<forall>j < length (t_slots t). link_ok (t_inserted t) (t_slots t) j
          \<and> slot_hash (t_slots t ! j) = hash_header H (slot_header (t_slots t ! j)))"

definition table_headers :: "enc_table \<Rightarrow> bytes header list" where
  "table_headers t = map slot_header (t_slots t)"

definition table_ok :: "(hname \<Rightarrow> u64) \<Rightarrow> enc_table \<Rightarrow> bool" where
  "table_ok H t \<longleftrightarrow> (linked H t \<or> t_indices t = [] \<and> t_slots t = [])
     \<and> t_size t = entries_size (table_headers t) \<and> t_size t \<le> t_max_size t \<and> t_max_size t < 2 ^ 32"

section \<open>Slots and their names\<close>

lemma word_minus_eq:
  assumes "(of_nat j - ins :: u64) = of_nat k - ins" "j < 2 ^ 64" "k < 2 ^ 64"
  shows "j = k"
proof -
  from assms(1) have "(of_nat j :: u64) = of_nat k" by simp
  then have "unat (of_nat j :: u64) = unat (of_nat k :: u64)" by (rule arg_cong)
  with assms(2,3) show ?thesis by (simp add: unsigned_of_nat take_bit_nat_eq_self)
qed

lemma unat_small: "n < 2 ^ 64 \<Longrightarrow> unat (of_nat n :: u64) = n"
  by (simp add: unsigned_of_nat take_bit_nat_eq_self)

lemma unat_real: "j < 2 ^ 64 \<Longrightarrow> unat ((of_nat j - ins :: u64) + ins) = j"
  by (simp add: unsigned_of_nat take_bit_nat_eq_self)

lemma linked_sized: "linked H t \<Longrightarrow> sized (t_mask t) (t_indices t)"
  by (simp add: linked_def robin_sized)

lemma length_lt_2_63: "sized m xs \<Longrightarrow> length xs < 2 ^ 64"
proof -
  assume "sized m xs"
  then obtain k where "k < 64" "length xs = 2 ^ k" by (auto simp: sized_def)
  then show ?thesis using power_strict_increasing [of k 64 "2 :: nat"] by simp
qed

lemma table_capacity_less: "sized m (t_indices t) \<Longrightarrow> table_capacity t < length (t_indices t)"
  using sized_ge_8 [of m "t_indices t"] by (simp add: table_capacity_def usable_capacity_def)

lemma linked_slots:
  assumes "linked H t"
  shows "length (t_slots t) < length (t_indices t)" "length (t_slots t) < 2 ^ 64"
  using table_capacity_less [OF linked_sized [OF assms]] length_lt_2_63 [OF linked_sized [OF assms]] assms
  by (simp_all add: linked_def)

lemma linked_size [simp]: "linked H (t\<lparr>t_size := x\<rparr>) \<longleftrightarrow> linked H t" "linked H (t\<lparr>t_max_size := x\<rparr>) \<longleftrightarrow> linked H t"
  by (simp_all add: linked_def table_capacity_def)

lemma finite_oldest [simp]: "finite {j. oldest ss j}"
  by (rule finite_subset [of _ "{..<length ss}"]) (auto simp: oldest_def)

lemma linked_vacancy:
  assumes "linked H t"
  shows "vacancy (t_indices t)"
proof -
  have "card {j. oldest (t_slots t) j} \<le> card {..<length (t_slots t)}"
    by (intro card_mono) (auto simp: oldest_def)
  with assms linked_slots(1) [OF assms] have "size (entries (t_indices t)) < length (t_indices t)"
    by (simp add: linked_def)
  then show ?thesis by (simp add: size_entries_less)
qed

lemma linked_entry:
  assumes "linked H t" "oldest (t_slots t) j"
  shows "\<exists>i < length (t_indices t). t_indices t ! i = Some (pos_of (t_inserted t) (t_slots t) j)"
proof -
  have "pos_of (t_inserted t) (t_slots t) j \<in># entries (t_indices t)"
    using assms by (simp add: linked_def)
  then show ?thesis by (auto simp: entries_in in_set_conv_nth)
qed

lemma linked_entry_of:
  assumes "linked H t" "i < length (t_indices t)" "t_indices t ! i = Some p"
  shows "\<exists>j. oldest (t_slots t) j \<and> p = pos_of (t_inserted t) (t_slots t) j"
proof -
  have "p \<in># entries (t_indices t)" using assms(2,3) by (auto simp: entries_in in_set_conv_nth)
  then show ?thesis using assms(1) by (auto simp: linked_def)
qed

lemma exists_oldest:
  assumes "j < length ss"
  shows "\<exists>k. oldest ss k \<and> slot_name (ss ! k) = slot_name (ss ! j) \<and> j \<le> k"
proof -
  let ?K = "{k. k < length ss \<and> slot_name (ss ! k) = slot_name (ss ! j)}"
  have fin: "finite ?K" by simp
  have j: "j \<in> ?K" using assms by simp
  then have M: "Max ?K \<in> ?K" using Max_in [OF fin] by blast
  have "oldest ss (Max ?K)"
    unfolding oldest_def
  proof (intro conjI allI impI)
    show "Max ?K < length ss" using M by simp
    fix k assume k: "k < length ss" "Max ?K < k"
    then have "k \<notin> ?K" using Max_ge [OF fin, of k] by linarith
    with k(1) M show "slot_name (ss ! k) \<noteq> slot_name (ss ! Max ?K)" by auto
  qed
  with M Max_ge [OF fin j] show ?thesis by auto
qed

lemma oldest_unique:
  "oldest ss j \<Longrightarrow> oldest ss k \<Longrightarrow> slot_name (ss ! j) = slot_name (ss ! k) \<Longrightarrow> j = k"
  unfolding oldest_def by (metis linorder_neqE_nat)

lemma slot_hash_name:
  assumes "linked H t" "j < length (t_slots t)" "k < length (t_slots t)"
    "slot_name (t_slots t ! j) = slot_name (t_slots t ! k)"
  shows "slot_hash (t_slots t ! j) = slot_hash (t_slots t ! k)"
  using assms by (auto simp: linked_def hash_header_def slot_name_def)

section \<open>Eviction keeps the invariant\<close>

lemma oldest_butlast:
  assumes "ss \<noteq> []"
  shows "{j. oldest (butlast ss) j} = {j. oldest ss j} - {length ss - 1}
    \<union> {k. k < length ss - 1 \<and> slot_name (ss ! k) = slot_name (last ss)
        \<and> (\<forall>i. k < i \<longrightarrow> i < length ss - 1 \<longrightarrow> slot_name (ss ! i) \<noteq> slot_name (last ss))}"
proof -
  let ?l = "length ss - 1"
  have l: "length ss = Suc ?l" using assms by simp
  have lst: "last ss = ss ! ?l" using assms by (simp add: last_conv_nth)
  have "oldest (butlast ss) j \<longleftrightarrow> j < ?l \<and> (\<forall>k < ?l. j < k \<longrightarrow> slot_name (ss ! k) \<noteq> slot_name (ss ! j))" for j
    by (auto simp: oldest_def nth_butlast)
  moreover have "oldest ss j \<longleftrightarrow> j < Suc ?l \<and> (\<forall>k < ?l. j < k \<longrightarrow> slot_name (ss ! k) \<noteq> slot_name (ss ! j))
      \<and> (j < ?l \<longrightarrow> slot_name (ss ! ?l) \<noteq> slot_name (ss ! j))" for j
    unfolding oldest_def by (subst (1 2) l) (auto simp: less_Suc_eq simp del: One_nat_def)
  ultimately show ?thesis unfolding lst by (auto simp: less_Suc_eq)
qed

lemma link_ok_butlast:
  assumes "link_ok ins ss j" "j < length ss - 1"
  shows "link_ok ins (butlast ss) j"
proof -
  have "butlast ss ! i = ss ! i" if "i \<le> j" for i
    using that assms(2) by (intro nth_butlast) simp
  with assms(1) show ?thesis
    unfolding link_ok_def by (auto split: option.splits intro: less_imp_le)
qed

lemma pos_of_butlast: "j < length ss - 1 \<Longrightarrow> pos_of ins (butlast ss) j = pos_of ins ss j"
  by (simp add: pos_of_def nth_butlast)

lemma robin_repoint:
  assumes "robin m xs" "i < length xs" "xs ! i = Some p"
  shows "robin m (xs[i := Some (p\<lparr>pos_index := q\<rparr>)])" "rank m (xs[i := Some (p\<lparr>pos_index := q\<rparr>)]) k = rank m xs k"
proof -
  have rank: "rank m (xs[i := Some (p\<lparr>pos_index := q\<rparr>)]) k = rank m xs k" for k
    using assms(2,3) rank_at [of k xs i m] by (simp add: rank_update rank_occupied)
  then show "robin m (xs[i := Some (p\<lparr>pos_index := q\<rparr>)])"
    using assms(1) sized_length [of m xs "xs[i := Some (p\<lparr>pos_index := q\<rparr>)]"] by (simp add: robin_def)
  show "rank m (xs[i := Some (p\<lparr>pos_index := q\<rparr>)]) k = rank m xs k" by (rule rank)
qed

text \<open>The loop of \<open>evict\<close> finds the entry of the last slot.\<close>

lemma evict_finds:
  assumes "linked H t" "t_slots t \<noteq> []"
  defines "l \<equiv> length (t_slots t) - 1" and "n \<equiv> length (t_indices t)"
  shows "\<exists>i. i < n \<and> t_indices t ! i = Some (pos_of (t_inserted t) (t_slots t) l)
    \<and> probe_loop n (evict_body (t_mask t) (of_nat l - t_inserted t) (last (t_slots t)) prev (t_inserted t))
        (desired_pos (t_mask t) (slot_hash (last (t_slots t)))) (t_indices t)
      = map_option (\<lambda>r. case r of Inl x \<Rightarrow> x | Inr x \<Rightarrow> x)
          (evict_body (t_mask t) (of_nat l - t_inserted t) (last (t_slots t)) prev (t_inserted t) i (t_indices t))"
proof -
  let ?xs = "t_indices t" and ?m = "t_mask t" and ?p = "pos_of (t_inserted t) (t_slots t) l"
  let ?h = "desired_pos ?m (slot_hash (last (t_slots t)))"
  let ?body = "evict_body ?m (of_nat l - t_inserted t) (last (t_slots t)) prev (t_inserted t)"
  have robin: "robin ?m ?xs" using assms(1) by (simp add: linked_def)
  have l: "l < length (t_slots t)" using assms(2) by (simp add: l_def)
  then have "oldest (t_slots t) l" by (auto simp: oldest_def l_def)
  from linked_entry [OF assms(1) this] obtain i where i: "i < n" "?xs ! i = Some ?p" by (auto simp: n_def)
  have hash: "pos_hash ?p = slot_hash (last (t_slots t))"
    using assms(2) by (simp add: pos_of_def l_def last_conv_nth)
  have h: "?h < n" unfolding n_def by (rule desired_pos_less [OF linked_sized [OF assms(1)]])
  define d where "d = (LEAST d. ?xs ! ((?h + d) mod n) = Some ?p)"
  have ex: "?xs ! ((?h + gap n ?h i) mod n) = Some ?p" using add_gap [OF h i(1)] i(2) by simp
  have d: "?xs ! ((?h + d) mod n) = Some ?p" "d \<le> gap n ?h i"
    unfolding d_def by (rule LeastI [of "\<lambda>d. ?xs ! ((?h + d) mod n) = Some ?p", OF ex], rule Least_le, rule ex)
  have go: "?body ((?h + j) mod n) ?xs = Some (Inr ?xs)" if "j < d" for j
  proof -
    have "j \<le> gap n ?h i" using that d(2) by simp
    then have "j < rank ?m ?xs (?h + j)"
      using rank_on_the_way [OF robin, of i ?p j] i hash by (simp add: n_def)
    then obtain q where q: "?xs ! ((?h + j) mod n) = Some q"
      using rank_eq_0 [of ?m ?xs "?h + j"] by (cases "?xs ! ((?h + j) mod n)") (auto simp: n_def)
    have "(?h + j) mod n < n" using h by (rule mod_in)
    with linked_entry_of [OF assms(1) _ q] obtain k where
      k: "oldest (t_slots t) k" "q = pos_of (t_inserted t) (t_slots t) k" by (auto simp: n_def)
    have "q \<noteq> ?p" using not_less_Least [of j "\<lambda>d. ?xs ! ((?h + d) mod n) = Some ?p"] that q
      by (auto simp: d_def)
    then have "k \<noteq> l" using k(2) by auto
    with k(1) l linked_slots(2) [OF assms(1)] have "pos_index q \<noteq> of_nat l - t_inserted t"
      using word_minus_eq [of k "t_inserted t" l] k(2) by (auto simp: pos_of_def oldest_def)
    with q \<open>(?h + j) mod n < n\<close> show ?thesis by (simp add: evict_body_def get_def n_def)
  qed
  have at: "(?h + d) mod n < n" using h by (rule mod_in)
  show ?thesis
  proof (intro exI [of _ "(?h + d) mod n"] conjI at d(1))
    let ?r = "?body ((?h + d) mod n) ?xs"
    have shape: "?r = None \<or> (\<exists>x. ?r = Some (Inl x))"
      using d(1) at by (auto simp: evict_body_def get_def pos_of_def n_def split: option.split)
    show "probe_loop n ?body ?h ?xs = map_option (\<lambda>r. case r of Inl x \<Rightarrow> x | Inr x \<Rightarrow> x) ?r"
    proof (cases ?r)
      case (Some r)
      with shape obtain x where x: "?r = Some (Inl x)" by auto
      have "probe_loop n ?body (?h mod n) ?xs = Some x"
        by (rule probe_loop_run [where st = "\<lambda>_. ?xs" and d = d]) (use h go x in auto)
      with h x show ?thesis by simp
    next
      case None
      have "probe_loop n ?body ((?h + j) mod n) ?xs = None" if "j \<le> d" for j
        using that
      proof (induction "d - j" arbitrary: j)
        case 0
        then have "j = d" by simp
        with None at show ?case by (subst probe_loop.simps) simp
      next
        case (Suc x)
        then have "j < d" by simp
        have "probe_loop n ?body ((?h + j) mod n) ?xs = probe_loop n ?body (Suc (?h + j) mod n) ?xs"
          by (rule probe_loop_step) (use h go [OF \<open>j < d\<close>] in auto)
        also have "\<dots> = None" using Suc(1) [of "Suc j"] Suc(2) \<open>j < d\<close> by simp
        finally show ?case .
      qed
      from this [of 0] None h show ?thesis by simp
    qed
  qed
qed

text \<open>What an eviction leaves: the array with the entry of the last slot redirected or removed.\<close>

definition evicted :: "enc_table \<Rightarrow> pos option list \<Rightarrow> enc_table" where
  "evicted t xs = t\<lparr>t_slots := butlast (t_slots t),
     t_size := t_size t - header_len (slot_header (last (t_slots t))), t_indices := xs\<rparr>"

lemma linked_evicted:
  assumes "linked H t" "t_slots t \<noteq> []" "robin (t_mask t) ys" "length ys = length (t_indices t)"
    "entries ys = image_mset (pos_of (t_inserted t) (t_slots t)) (mset_set {j. oldest (butlast (t_slots t)) j})"
  shows "linked H (evicted t ys)"
proof -
  let ?ss = "t_slots t" and ?ins = "t_inserted t"
  have "image_mset (pos_of ?ins (butlast ?ss)) (mset_set {j. oldest (butlast ?ss) j})
      = image_mset (pos_of ?ins ?ss) (mset_set {j. oldest (butlast ?ss) j})"
    by (rule image_mset_cong) (auto simp: oldest_def pos_of_butlast)
  moreover have "\<forall>j < length (butlast ?ss). link_ok ?ins (butlast ?ss) j
      \<and> slot_hash (butlast ?ss ! j) = hash_header H (slot_header (butlast ?ss ! j))"
    using assms(1) by (auto simp: linked_def nth_butlast intro: link_ok_butlast)
  moreover have "length (butlast ?ss) \<le> usable_capacity (length ys)"
    using assms(1,4) by (auto simp: linked_def table_capacity_def)
  ultimately show ?thesis using assms(3,5) by (simp add: linked_def evicted_def table_capacity_def)
qed

lemma evict_ok:
  assumes "linked H t" "t_slots t \<noteq> []"
  shows "\<exists>ys. evict None t = Some (evicted t ys) \<and> linked H (evicted t ys)
    \<and> length ys = length (t_indices t) \<and> (\<forall>i. rank (t_mask t) ys i \<le> rank (t_mask t) (t_indices t) i)"
proof -
  let ?xs = "t_indices t" and ?m = "t_mask t" and ?ss = "t_slots t" and ?ins = "t_inserted t"
  let ?l = "length ?ss - 1" and ?O = "{j. oldest ?ss j}" and ?O' = "{j. oldest (butlast ?ss) j}"
  have robin: "robin ?m ?xs" and ents: "entries ?xs = image_mset (pos_of ?ins ?ss) (mset_set ?O)"
    and link: "link_ok ?ins ?ss ?l"
    using assms by (auto simp: linked_def)
  have l: "?l < length ?ss" "last ?ss = ?ss ! ?l" using assms(2) by (simp_all add: last_conv_nth)
  then have lO: "?l \<in> ?O" by (auto simp: oldest_def)
  obtain i where i: "i < length ?xs" "?xs ! i = Some (pos_of ?ins ?ss ?l)"
    and loop: "probe_loop (length ?xs) (evict_body ?m (of_nat ?l - ?ins) (last ?ss) None ?ins)
        (desired_pos ?m (slot_hash (last ?ss))) ?xs
      = map_option (\<lambda>r. case r of Inl x \<Rightarrow> x | Inr x \<Rightarrow> x)
          (evict_body ?m (of_nat ?l - ?ins) (last ?ss) None ?ins i ?xs)"
    using evict_finds [OF assms, of None] by blast
  have rem: "mset_set ?O = add_mset ?l (mset_set (?O - {?l}))"
    using mset_set.remove [OF finite_oldest lO] .
  have upd: "entries (?xs[i := x]) + {#pos_of ?ins ?ss ?l#} = entries ?xs + opt_mset x" for x
    using entries_update [OF i(1), of x] i(2) by simp
  have step: "\<exists>ys. evict_body ?m (of_nat ?l - ?ins) (last ?ss) None ?ins i ?xs = Some (Inl ys)
      \<and> robin ?m ys \<and> length ys = length ?xs \<and> entries ys = image_mset (pos_of ?ins ?ss) (mset_set ?O')
      \<and> (\<forall>i. rank ?m ys i \<le> rank ?m ?xs i)"
  proof (cases "slot_next (last ?ss)")
    case None
    have "\<forall>k < ?l. slot_name (?ss ! k) \<noteq> slot_name (last ?ss)"
      using link None l(2) by (simp add: link_ok_def)
    then have "?O' = ?O - {?l}" using oldest_butlast [OF assms(2)] by auto
    moreover obtain ys where ys: "remove_phase_two ?m i (?xs[i := None]) = Some ys" "robin ?m ys"
      "length ys = length ?xs" "add_mset (pos_of ?ins ?ss ?l) (entries ys) = entries ?xs"
      "\<forall>i. rank ?m ys i \<le> rank ?m ?xs i"
      using remove_ok [OF robin linked_vacancy [OF assms(1)] i] by blast
    ultimately have "entries ys = image_mset (pos_of ?ins ?ss) (mset_set ?O')"
      using ents rem by simp
    with ys i None show ?thesis by (simp add: evict_body_def get_def pos_of_def)
  next
    case (Some q)
    then obtain k where k: "k < ?l" "q = of_nat k - ?ins" "slot_name (?ss ! k) = slot_name (last ?ss)"
      "\<forall>i. k < i \<longrightarrow> i < ?l \<longrightarrow> slot_name (?ss ! i) \<noteq> slot_name (last ?ss)"
      using link l(2) by (auto simp: link_ok_def)
    have kn: "k \<notin> ?O" using k(1,3) l by (auto simp: oldest_def)
    have "?O' = insert k (?O - {?l})"
    proof -
      have "{j. j < ?l \<and> slot_name (?ss ! j) = slot_name (last ?ss)
          \<and> (\<forall>i. j < i \<longrightarrow> i < ?l \<longrightarrow> slot_name (?ss ! i) \<noteq> slot_name (last ?ss))} = {k}"
        using k(1,3,4) by (auto intro: antisym_conv3 [THEN iffD1])
      then show ?thesis using oldest_butlast [OF assms(2)] by simp
    qed
    moreover have "pos_of ?ins ?ss k = (pos_of ?ins ?ss ?l)\<lparr>pos_index := q\<rparr>"
      using slot_hash_name [OF assms(1), of k ?l] k l by (simp add: pos_of_def)
    ultimately have "entries (?xs[i := Some ((pos_of ?ins ?ss ?l)\<lparr>pos_index := q\<rparr>)])
        = image_mset (pos_of ?ins ?ss) (mset_set ?O')"
      using upd [of "Some ((pos_of ?ins ?ss ?l)\<lparr>pos_index := q\<rparr>)"] ents rem kn by simp
    with i Some robin_repoint [OF robin i] show ?thesis
      by (simp add: evict_body_def get_def pos_of_def)
  qed
  then obtain ys where ys: "evict_body ?m (of_nat ?l - ?ins) (last ?ss) None ?ins i ?xs = Some (Inl ys)"
    "robin ?m ys" "length ys = length ?xs" "entries ys = image_mset (pos_of ?ins ?ss) (mset_set ?O')"
    "\<forall>i. rank ?m ys i \<le> rank ?m ?xs i" by blast
  then have "evict None t = Some (evicted t ys)"
    using assms(2) loop by (simp add: evict_def evicted_def Let_def)
  with linked_evicted [OF assms ys(2-4)] ys(3,5) show ?thesis by blast
qed

text \<open>Eviction goes on until the size is within the limit; \<open>extra\<close> is the size of what will be inserted.\<close>

lemma entries_size_append [simp]: "entries_size (xs @ ys) = entries_size xs + entries_size ys"
  by (induction xs) auto

lemma table_headers_butlast: "map slot_header (butlast ss) = butlast (map slot_header ss)"
  by (simp add: map_butlast)

lemma entries_size_last:
  assumes "ss \<noteq> []"
  shows "entries_size (map slot_header ss) = entries_size (butlast (map slot_header ss)) + header_len (slot_header (last ss))"
proof -
  have "map slot_header ss = butlast (map slot_header ss) @ [slot_header (last ss)]"
    using assms by (metis append_butlast_last_id last_map map_is_Nil_conv)
  then show ?thesis by (metis add.right_neutral entries_size_append entries_size_simps)
qed

lemma converge_ok:
  assumes "linked H t" "t_size t = extra + entries_size (table_headers t)" "extra \<le> t_max_size t"
  shows "\<exists>b ss ys. converge_loop None ret t = Some (b, t\<lparr>t_slots := ss, t_size := extra + entries_size (map slot_header ss),
        t_indices := ys\<rparr>)
      \<and> linked H (t\<lparr>t_slots := ss, t_size := extra + entries_size (map slot_header ss), t_indices := ys\<rparr>)
      \<and> map slot_header ss = fitting (t_max_size t - extra) (table_headers t)
      \<and> length ys = length (t_indices t) \<and> (\<forall>i. rank (t_mask t) ys i \<le> rank (t_mask t) (t_indices t) i)
      \<and> (\<not> b \<longrightarrow> \<not> ret \<and> ss = t_slots t \<and> ys = t_indices t)"
  using assms
proof (induction "length (t_slots t)" arbitrary: t ret)
  case 0
  then have "converge_loop None ret t = Some (ret, t)" "t_size t = extra" "t_slots t = []"
    by (simp_all add: table_headers_def converge_loop.simps [of None ret t])
  moreover from this 0 have "linked H (t\<lparr>t_slots := [], t_size := extra\<rparr>)" by (cases t) simp
  ultimately show ?case using 0 by (intro exI [of _ ret] exI [of _ "t_slots t"] exI [of _ "t_indices t"]) (simp add: table_headers_def)
next
  case (Suc n t)
  show ?case
  proof (cases "t_size t > t_max_size t")
    case False
    then have "converge_loop None ret t = Some (ret, t)" by (simp add: converge_loop.simps)
    moreover have "fitting (t_max_size t - extra) (table_headers t) = table_headers t"
      using False Suc.prems(2) by (intro fitting_id) simp
    ultimately show ?thesis using Suc.prems
      by (intro exI [of _ ret] exI [of _ "t_slots t"] exI [of _ "t_indices t"]) (simp add: table_headers_def)
  next
    case True
    have ne: "t_slots t \<noteq> []" using Suc.hyps(2) by auto
    obtain ys where ys: "evict None t = Some (evicted t ys)" "linked H (evicted t ys)"
      "length ys = length (t_indices t)" "\<forall>i. rank (t_mask t) ys i \<le> rank (t_mask t) (t_indices t) i"
      using evict_ok [OF Suc.prems(1) ne] by blast
    let ?u = "evicted t ys"
    have u: "t_slots ?u = butlast (t_slots t)" "t_max_size ?u = t_max_size t" "t_mask ?u = t_mask t"
      "t_indices ?u = ys" by (simp_all add: evicted_def)
    have n: "n = length (t_slots ?u)" using Suc.hyps(2) by (simp add: u)
    have limit: "extra \<le> t_max_size ?u" using Suc.prems(3) by (simp add: u)
    have "t_size ?u = extra + entries_size (table_headers ?u)"
      using Suc.prems(2) entries_size_last [OF ne] by (simp add: evicted_def table_headers_def map_butlast)
    from Suc.hyps(1) [OF n ys(2) this limit, of True] obtain b ss zs where
      z: "converge_loop None True ?u = Some (b, ?u\<lparr>t_slots := ss, t_size := extra + entries_size (map slot_header ss),
          t_indices := zs\<rparr>)"
        "linked H (?u\<lparr>t_slots := ss, t_size := extra + entries_size (map slot_header ss), t_indices := zs\<rparr>)"
        "map slot_header ss = fitting (t_max_size t - extra) (table_headers ?u)"
        "length zs = length ys" "\<forall>i. rank (t_mask t) zs i \<le> rank (t_mask t) ys i" "b"
      unfolding u by blast
    have "t_max_size t - extra < entries_size (table_headers t)"
      using True Suc.prems(2,3) by linarith
    then have "fitting (t_max_size t - extra) (table_headers ?u) = fitting (t_max_size t - extra) (table_headers t)"
      using fitting_butlast by (simp add: u table_headers_def map_butlast)
    moreover have "converge_loop None ret t = converge_loop None True ?u"
      using True ys(1) by (simp add: converge_loop.simps [of None ret t])
    moreover have "?u\<lparr>t_slots := ss, t_size := x, t_indices := zs\<rparr> = t\<lparr>t_slots := ss, t_size := x, t_indices := zs\<rparr>" for x
      by (simp add: evicted_def)
    moreover have "\<forall>i. rank (t_mask t) zs i \<le> rank (t_mask t) (t_indices t) i"
      using z(5) ys(4) le_trans by blast
    ultimately show ?thesis using z ys(3)
      by (intro exI [of _ b] exI [of _ ss] exI [of _ zs]) auto
  qed
qed

section \<open>Inserting behind the newest slot of a name\<close>

text \<open>
  Eviction before the insertion, with \<open>prev_idx\<close>, does what eviction after the insertion would do:
  it may evict the very slot the new one is to be linked to.
\<close>

lemma insert_linked_eq:
  assumes "index = of_nat i - t_inserted t" "Suc i < 2 ^ 64"
  shows "insert_linked h hash index t = t\<lparr>t_inserted := t_inserted t + 1,
     t_slots := \<lparr>slot_hash = hash, slot_header = h, slot_next = None\<rparr> #
       (t_slots t)[i := (t_slots t ! i)\<lparr>slot_next := Some (0 - (t_inserted t + 1))\<rparr>]\<rparr>"
proof -
  have "index + (t_inserted t + 1) = of_nat (Suc i)" using assms(1) by simp
  then have "unat (index + (t_inserted t + 1)) = Suc i"
    using unat_small [OF assms(2)] by (simp only:)
  then show ?thesis
    by (cases "i < length (t_slots t)") (simp_all add: insert_linked_def insert_slot_def Let_def list_update_beyond)
qed

lemma evict_body_prev:
  assumes "prev = Some pos_idx" "slot_next s = None"
  shows "evict_body m pos_idx s prev ins = evict_body m pos_idx (s\<lparr>slot_next := Some (0 - (ins + 1))\<rparr>) None (ins + 1)"
proof (intro ext)
  fix probe indices
  show "evict_body m pos_idx s prev ins probe indices = evict_body m pos_idx (s\<lparr>slot_next := Some (0 - (ins + 1))\<rparr>) None (ins + 1) probe indices"
    using assms by (cases "get indices probe") (auto simp: evict_body_def bind_eq_None_conv split: option.splits bind_split)
qed

lemma evict_body_no_prev:
  assumes "prev \<noteq> Some pos_idx"
  shows "evict_body m pos_idx s prev ins = evict_body m pos_idx s None (ins + 1)"
proof (intro ext)
  fix probe indices
  show "evict_body m pos_idx s prev ins probe indices = evict_body m pos_idx s None (ins + 1) probe indices"
    using assms by (cases "get indices probe") (auto simp: evict_body_def bind_eq_None_conv split: option.splits bind_split)
qed

lemma evict_insert_linked:
  assumes "t_slots t \<noteq> []" "index = of_nat i - t_inserted t" "Suc i < 2 ^ 64" "length (t_slots t) < 2 ^ 64"
    "i < length (t_slots t) \<longrightarrow> slot_next (t_slots t ! i) = None"
  shows "evict None (insert_linked h hash index t) =
    map_option (insert_linked h hash index) (evict (Some index) t)"
proof -
  let ?ss = "t_slots t" and ?ins = "t_inserted t"
  let ?l = "length ?ss - 1" and ?new = "\<lparr>slot_hash = hash, slot_header = h, slot_next = None\<rparr>"
  let ?next = "Some (0 - (?ins + 1))"
  let ?upd = "?ss[i := (?ss ! i)\<lparr>slot_next := ?next\<rparr>]"
  have l: "length ?ss = Suc ?l" using assms(1) by simp
  have idx: "(of_nat (length ?upd) - (?ins + 1) :: u64) = of_nat ?l - ?ins"
    using l by (metis (no_types, lifting) add_diff_cancel_right' diff_diff_eq length_list_update of_nat_Suc add.commute)
  have lst: "last (?new # ?upd) = (if i = ?l then (last ?ss)\<lparr>slot_next := ?next\<rparr> else last ?ss)"
    using assms(1) l by (auto simp: last_conv_nth nth_list_update)
  have but: "butlast (?new # ?upd) = ?new # (butlast ?ss)[i := (butlast ?ss ! i)\<lparr>slot_next := ?next\<rparr>]"
  proof -
    have "butlast ?upd = (butlast ?ss)[i := (butlast ?ss ! i)\<lparr>slot_next := ?next\<rparr>]"
      by (cases "i < ?l") (auto simp: butlast_list_update nth_butlast list_update_beyond not_less)
    moreover have "?upd \<noteq> []" using assms(1) by simp
    ultimately show ?thesis by simp
  qed
  have body: "evict_body m (of_nat ?l - ?ins) (last ?ss) (Some index) ?ins
      = evict_body m (of_nat ?l - ?ins) (last (?new # ?upd)) None (?ins + 1)" for m
  proof (cases "i = ?l")
    case True
    with assms(1,5) have "slot_next (last ?ss) = None" by (simp add: last_conv_nth)
    from evict_body_prev [OF _ this] True assms(2) show ?thesis unfolding lst by simp
  next
    case False
    moreover have "?l < 2 ^ 64" "i < 2 ^ 64" using assms(3,4) l by simp_all
    ultimately have "index \<noteq> of_nat ?l - ?ins"
      using word_minus_eq [of i ?ins ?l] assms(2) by metis
    then have "Some index \<noteq> Some (of_nat ?l - ?ins)" by simp
    from evict_body_no_prev [OF this] False show ?thesis unfolding lst by simp
  qed
  have V: "insert_linked h hash index u = u\<lparr>t_inserted := ?ins + 1, t_slots := ?new #
      (t_slots u)[i := (t_slots u ! i)\<lparr>slot_next := ?next\<rparr>]\<rparr>" if "t_inserted u = ?ins" for u
    using insert_linked_eq [of index i u] that assms(2,3) by simp
  have hash: "slot_hash (last (?new # ?upd)) = slot_hash (last ?ss)"
    "slot_header (last (?new # ?upd)) = slot_header (last ?ss)" unfolding lst by simp_all
  define N where "N = ?new # ?upd"
  have N: "N \<noteq> []" "length N - 1 = length ?upd" by (simp_all add: N_def)
  have body': "evict_body m (of_nat ?l - ?ins) (last ?ss) (Some index) ?ins
      = evict_body m (of_nat (length N - 1) - (?ins + 1)) (last N) None (?ins + 1)" for m
    unfolding N(2) idx unfolding N_def by (rule body)
  let ?loop = "probe_loop (length (t_indices t)) (evict_body (t_mask t) (of_nat ?l - ?ins) (last ?ss) (Some index) ?ins)
      (desired_pos (t_mask t) (slot_hash (last ?ss))) (t_indices t)"
  have "evict None (t\<lparr>t_inserted := ?ins + 1, t_slots := N\<rparr>) = Option.bind ?loop (\<lambda>indices.
      Some (t\<lparr>t_inserted := ?ins + 1, t_slots := butlast N,
        t_size := t_size t - header_len (slot_header (last ?ss)), t_indices := indices\<rparr>))"
    unfolding body' hash [symmetric] N_def [symmetric] evict_def Let_def using N(1) by simp
  then have "evict None (insert_linked h hash index t) = Option.bind ?loop (\<lambda>indices.
      Some (t\<lparr>t_inserted := ?ins + 1, t_slots := ?new # (butlast ?ss)[i := (butlast ?ss ! i)\<lparr>slot_next := ?next\<rparr>],
        t_size := t_size t - header_len (slot_header (last ?ss)), t_indices := indices\<rparr>))"
    unfolding V [OF refl] N_def but .
  moreover have "map_option (insert_linked h hash index) (evict (Some index) t) = Option.bind ?loop (\<lambda>indices.
      Some (insert_linked h hash index (t\<lparr>t_slots := butlast ?ss,
        t_size := t_size t - header_len (slot_header (last ?ss)), t_indices := indices\<rparr>)))"
    using assms(1) by (auto simp: evict_def Let_def split: bind_splits)
  moreover have "(\<lambda>indices. Some (t\<lparr>t_inserted := ?ins + 1,
        t_slots := ?new # (butlast ?ss)[i := (butlast ?ss ! i)\<lparr>slot_next := ?next\<rparr>],
        t_size := t_size t - header_len (slot_header (last ?ss)), t_indices := indices\<rparr>))
      = (\<lambda>indices. Some (insert_linked h hash index (t\<lparr>t_slots := butlast ?ss,
        t_size := t_size t - header_len (slot_header (last ?ss)), t_indices := indices\<rparr>)))"
    by (intro ext) (simp add: V)
  ultimately show ?thesis by metis
qed

lemma converge_insert_linked:
  assumes "index = of_nat i - t_inserted t" "Suc i < 2 ^ 64" "length (t_slots t) < 2 ^ 64"
    "i < length (t_slots t) \<longrightarrow> slot_next (t_slots t ! i) = None"
    "t_size t = header_len h + entries_size (table_headers t)" "header_len h \<le> t_max_size t"
    "converge_loop None ret (insert_linked h hash index t) = Some (b, u)"
  shows "\<exists>t'. converge_loop (Some index) ret t = Some (b, t') \<and> u = insert_linked h hash index t'"
  using assms
proof (induction "length (t_slots t)" arbitrary: t ret)
  case (0 t)
  then have "t_size t \<le> t_max_size t" by (simp add: table_headers_def)
  moreover from this have "t_size (insert_linked h hash index t) \<le> t_max_size (insert_linked h hash index t)"
    using insert_linked_eq [OF 0(2,3)] by simp
  ultimately show ?case using 0(8) by (simp add: converge_loop.simps)
next
  case (Suc n t)
  let ?V = "insert_linked h hash index"
  have V: "t_size (?V t) = t_size t" "t_max_size (?V t) = t_max_size t"
    using insert_linked_eq [OF Suc.prems(1,2)] by simp_all
  show ?case
  proof (cases "t_size t > t_max_size t")
    case False
    with Suc.prems(7) V show ?thesis by (simp add: converge_loop.simps)
  next
    case True
    have ne: "t_slots t \<noteq> []" using Suc.hyps(2) by auto
    note evict = evict_insert_linked [OF ne Suc.prems(1-4)]
    from Suc.prems(7) True V have "Option.bind (evict None (?V t)) (converge_loop None True) = Some (b, u)"
      by (simp add: converge_loop.simps [of None ret "?V t"])
    then obtain t1 where t1: "evict (Some index) t = Some t1" "converge_loop None True (?V t1) = Some (b, u)"
      unfolding evict by (cases "evict (Some index) t") auto
    have slots: "t_slots t1 = butlast (t_slots t)" "t_inserted t1 = t_inserted t" "t_max_size t1 = t_max_size t"
      "t_size t1 = t_size t - header_len (slot_header (last (t_slots t)))"
      using t1(1) ne by (auto simp: evict_def Let_def split: bind_splits)
    have "\<exists>t'. converge_loop (Some index) True t1 = Some (b, t') \<and> u = ?V t'"
    proof (rule Suc.hyps(1))
      show "n = length (t_slots t1)" using Suc.hyps(2) slots by simp
      show "index = of_nat i - t_inserted t1" using Suc.prems(1) slots by simp
      show "i < length (t_slots t1) \<longrightarrow> slot_next (t_slots t1 ! i) = None"
        using Suc.prems(4) slots by (simp add: nth_butlast)
      show "t_size t1 = header_len h + entries_size (table_headers t1)"
        using Suc.prems(5) slots entries_size_last [OF ne] by (simp add: table_headers_def map_butlast)
    qed (use Suc.prems slots t1 in simp_all)
    with True t1(1) show ?thesis by (simp add: converge_loop.simps [of "Some index" ret t])
  qed
qed

section \<open>Insertion keeps the invariant\<close>

lemma image_mset_shift:
  assumes "finite A" "\<And>j. j \<in> A \<Longrightarrow> f (Suc j) = g j"
  shows "image_mset f (mset_set (Suc ` A)) = image_mset g (mset_set A)"
proof -
  have Suc: "mset_set (Suc ` A) = image_mset Suc (mset_set A)" by (simp add: image_mset_mset_set)
  show ?thesis unfolding Suc multiset.map_comp by (rule image_mset_cong) (use assms in simp)
qed

lemma pos_of_Suc:
  "slot_hash (ss' ! Suc j) = slot_hash (ss ! j) \<Longrightarrow> pos_of (ins + 1) ss' (Suc j) = pos_of ins ss j"
  by (simp add: pos_of_def)

text \<open>A link carries over when all slots move back by one and the new one has another name.\<close>

lemma link_ok_Suc:
  assumes "link_ok ins ss j" "slot_next (ss' ! Suc j) = slot_next (ss ! j)"
    "\<And>k. k \<le> j \<Longrightarrow> slot_name (ss' ! Suc k) = slot_name (ss ! k)"
    "slot_next (ss ! j) = None \<Longrightarrow> slot_name (ss' ! 0) \<noteq> slot_name (ss ! j)"
  shows "link_ok (ins + 1) ss' (Suc j)"
proof (cases "slot_next (ss ! j)")
  case None
  have "slot_name (ss' ! k) \<noteq> slot_name (ss' ! Suc j)" if "k < Suc j" for k
    using that assms None by (cases k) (auto simp: link_ok_def)
  with None assms(2) show ?thesis by (simp add: link_ok_def)
next
  case (Some p)
  with assms(1) obtain k where k: "k < j" "p = of_nat k - ins" "slot_name (ss ! k) = slot_name (ss ! j)"
    "\<forall>i. k < i \<longrightarrow> i < j \<longrightarrow> slot_name (ss ! i) \<noteq> slot_name (ss ! j)" by (auto simp: link_ok_def)
  have "slot_name (ss' ! i) \<noteq> slot_name (ss' ! Suc j)" if "Suc k < i" "i < Suc j" for i
    using that assms(3) k(4) by (cases i) auto
  moreover have "p = of_nat (Suc k) - (ins + 1)" using k(2) by simp
  moreover have "slot_name (ss' ! Suc k) = slot_name (ss' ! Suc j)" using k assms(3) by simp
  ultimately show ?thesis using Some assms(2) k(1) unfolding link_ok_def
    by (auto intro!: exI [of _ "Suc k"])
qed

lemma linked_insert_linked:
  assumes "linked H t" "length (t_slots t) < table_capacity t" "i < length (t_slots t)"
    "slot_next (t_slots t ! i) = None" "slot_name (t_slots t ! i) = header_name h"
  shows "linked H (insert_linked h (hash_header H h) (of_nat i - t_inserted t) t)"
proof -
  let ?ss = "t_slots t" and ?ins = "t_inserted t"
  define ss' where "ss' = \<lparr>slot_hash = hash_header H h, slot_header = h, slot_next = None\<rparr> #
    ?ss[i := (?ss ! i)\<lparr>slot_next := Some (0 - (?ins + 1))\<rparr>]"
  have len: "length ss' = Suc (length ?ss)" by (simp add: ss'_def)
  have link: "\<And>j. j < length ?ss \<Longrightarrow> link_ok ?ins ?ss j"
    and hash: "\<And>j. j < length ?ss \<Longrightarrow> slot_hash (?ss ! j) = hash_header H (slot_header (?ss ! j))"
    and ents: "entries (t_indices t) = image_mset (pos_of ?ins ?ss) (mset_set {j. oldest ?ss j})"
    using assms(1) by (auto simp: linked_def)
  have nth: "slot_name (ss' ! Suc j) = slot_name (?ss ! j)" "slot_hash (ss' ! Suc j) = slot_hash (?ss ! j)"
    "slot_header (ss' ! Suc j) = slot_header (?ss ! j)" if "j < length ?ss" for j
    using that by (cases "j = i"; simp add: slot_name_def ss'_def)+
  have nxt: "slot_next (ss' ! Suc j) = (if j = i then Some (0 - (?ins + 1)) else slot_next (?ss ! j))"
    if "j < length ?ss" for j
    using that by (simp add: ss'_def)
  have new: "slot_name (ss' ! 0) = header_name h" "slot_next (ss' ! 0) = None"
    "slot_hash (ss' ! 0) = hash_header H h" "slot_header (ss' ! 0) = h"
    by (simp_all add: slot_name_def ss'_def)
  have "slot_name (ss' ! Suc i) = header_name h" using nth(1) assms(3,5) by simp
  then have not_0: "\<not> oldest ss' 0" using assms(3) new by (auto simp: oldest_def len intro!: exI [of _ "Suc i"])
  have "oldest ss' (Suc j) \<longleftrightarrow> oldest ?ss j" for j
  proof -
    have "(\<forall>k < Suc (length ?ss). Suc j < k \<longrightarrow> slot_name (ss' ! k) \<noteq> slot_name (ss' ! Suc j))
        \<longleftrightarrow> (\<forall>k < length ?ss. j < k \<longrightarrow> slot_name (?ss ! k) \<noteq> slot_name (?ss ! j))" if "j < length ?ss"
      using nth(1) that by (simp only: All_less_Suc2 Suc_less_eq not_less0 simp_thms) simp
    then show ?thesis by (auto simp: oldest_def len)
  qed
  then have "{j. oldest ss' j} = Suc ` {j. oldest ?ss j}"
    using not_0 by (auto simp: image_iff) (metis not0_implies_Suc)
  then have "image_mset (pos_of (?ins + 1) ss') (mset_set {j. oldest ss' j}) = entries (t_indices t)"
    unfolding ents by (simp only:) (rule image_mset_shift; auto simp: oldest_def intro!: pos_of_Suc nth(2))
  moreover have "link_ok (?ins + 1) ss' j \<and> slot_hash (ss' ! j) = hash_header H (slot_header (ss' ! j))"
    if "j < length ss'" for j
  proof (cases j)
    case 0
    then show ?thesis by (simp add: link_ok_def new)
  next
    case (Suc k)
    with that have k: "k < length ?ss" by (simp add: len)
    have "link_ok (?ins + 1) ss' (Suc k)"
    proof (cases "k = i")
      case True
      have "\<forall>x < i. slot_name (?ss ! x) \<noteq> slot_name (?ss ! i)"
        using link [OF assms(3)] assms(4) by (simp add: link_ok_def)
      then have "slot_name (ss' ! x) \<noteq> slot_name (ss' ! Suc i)" if "0 < x" "x < Suc i" for x
        using that nth(1) assms(3) by (cases x) auto
      moreover have "slot_next (ss' ! Suc i) = Some (of_nat 0 - (?ins + 1))" using nxt assms(3) by simp
      moreover have "slot_name (ss' ! 0) = slot_name (ss' ! Suc i)" using nth(1) assms(3,5) new by simp
      ultimately show ?thesis unfolding True link_ok_def by (auto intro!: exI [of _ 0])
    next
      case False
      have "slot_name (ss' ! 0) \<noteq> slot_name (?ss ! k)" if "slot_next (?ss ! k) = None"
      proof
        assume "slot_name (ss' ! 0) = slot_name (?ss ! k)"
        with assms(5) new have "slot_name (?ss ! k) = slot_name (?ss ! i)" by simp
        with link [OF k] link [OF assms(3)] that assms(4) False show False
          by (auto simp: link_ok_def) (metis linorder_neqE_nat)
      qed
      with link [OF k] show ?thesis
        by (rule_tac link_ok_Suc) (use k nth(1) nxt False in auto)
    qed
    with Suc hash [OF k] nth [OF k] show ?thesis by simp
  qed
  moreover have "insert_linked h (hash_header H h) (of_nat i - ?ins) t = t\<lparr>t_inserted := ?ins + 1, t_slots := ss'\<rparr>"
    using linked_slots(2) [OF assms(1)] assms(3) unfolding ss'_def by (intro insert_linked_eq) auto
  ultimately show ?thesis using assms(1,2) by (simp add: linked_def table_capacity_def len)
qed

lemma linked_insert_fresh:
  assumes "linked H t" "length (t_slots t) < table_capacity t" "\<forall>j < length (t_slots t). slot_name (t_slots t ! j) \<noteq> header_name h"
    "robin (t_mask t) ys" "length ys = length (t_indices t)"
    "entries ys = add_mset \<lparr>pos_index = 0 - (t_inserted t + 1), pos_hash = hash_header H h\<rparr> (entries (t_indices t))"
  shows "linked H ((insert_slot h (hash_header H h) t)\<lparr>t_indices := ys\<rparr>)"
proof -
  let ?ss = "t_slots t" and ?ins = "t_inserted t"
  let ?new = "\<lparr>slot_hash = hash_header H h, slot_header = h, slot_next = None\<rparr>"
  let ?ss' = "?new # ?ss"
  have link: "\<And>j. j < length ?ss \<Longrightarrow> link_ok ?ins ?ss j"
    and hash: "\<And>j. j < length ?ss \<Longrightarrow> slot_hash (?ss ! j) = hash_header H (slot_header (?ss ! j))"
    and ents: "entries (t_indices t) = image_mset (pos_of ?ins ?ss) (mset_set {j. oldest ?ss j})"
    using assms(1) by (auto simp: linked_def)
  have new: "slot_name ?new = header_name h" by (simp add: slot_name_def)
  have "oldest ?ss' (Suc j) \<longleftrightarrow> oldest ?ss j" for j
    by (simp only: oldest_def length_Cons Suc_less_eq All_less_Suc2 nth_Cons_0 nth_Cons_Suc not_less0 simp_thms)
  moreover have "oldest ?ss' 0"
    using assms(3) new by (auto simp: oldest_def nth_Cons split: nat.split)
  ultimately have O: "{j. oldest ?ss' j} = insert 0 (Suc ` {j. oldest ?ss j})"
    by (auto simp: image_iff) (metis not0_implies_Suc)
  have "image_mset (pos_of (?ins + 1) ?ss') (mset_set (Suc ` {j. oldest ?ss j})) = entries (t_indices t)"
    unfolding ents by (rule image_mset_shift; auto simp: oldest_def intro!: pos_of_Suc)
  moreover have "pos_of (?ins + 1) ?ss' 0 = \<lparr>pos_index = 0 - (?ins + 1), pos_hash = hash_header H h\<rparr>"
    by (simp add: pos_of_def)
  ultimately have "image_mset (pos_of (?ins + 1) ?ss') (mset_set {j. oldest ?ss' j}) = entries ys"
    unfolding O using assms(6) by simp
  moreover have "link_ok (?ins + 1) ?ss' j \<and> slot_hash (?ss' ! j) = hash_header H (slot_header (?ss' ! j))"
    if "j < length ?ss'" for j
  proof (cases j)
    case 0
    then show ?thesis by (simp add: link_ok_def)
  next
    case (Suc k)
    with that have k: "k < length ?ss" by simp
    have "link_ok (?ins + 1) ?ss' (Suc k)"
      by (rule link_ok_Suc [OF link [OF k]]) (use assms(3) k new in auto)
    with Suc hash [OF k] show ?thesis by simp
  qed
  ultimately show ?thesis using assms(1,2,4,5) by (simp add: linked_def table_capacity_def insert_slot_def)
qed

section \<open>What an index stands for\<close>

text \<open>The header at an index: of the static table or of a list of dynamic entries.\<close>

definition lookup_at :: "bytes header list \<Rightarrow> nat \<Rightarrow> bytes header option" where
  "lookup_at hs n =
     (if 1 \<le> n \<and> n \<le> 61 then Some (STATIC_HEADERS ! (n - 1))
      else if 62 \<le> n \<and> n - 62 < length hs then Some (hs ! (n - 62))
      else None)"

definition name_at :: "bytes header list \<Rightarrow> nat \<Rightarrow> bytes header \<Rightarrow> bool" where
  "name_at hs n h \<longleftrightarrow> (\<exists>e. lookup_at hs n = Some e \<and> header_name e = header_name h)"

definition header_at :: "bytes header list \<Rightarrow> nat \<Rightarrow> bytes header \<Rightarrow> bool" where
  "header_at hs n h \<longleftrightarrow> (\<exists>e. lookup_at hs n = Some e \<and> header_name e = header_name h
     \<and> value_slice e = value_slice h)"

text \<open>
  The contract of \<open>index\<close>: \<open>hs\<close> are the dynamic entries before and \<open>hs'\<close> those after the call, with the
  limit \<open>m\<close>.
\<close>

fun indexed_as :: "nat \<Rightarrow> bytes header \<Rightarrow> bytes header list \<Rightarrow> index \<Rightarrow> bytes header list \<Rightarrow> bool" where
  "indexed_as m h hs (Ix_Indexed n g) hs' \<longleftrightarrow> g = h \<and> header_at hs n h \<and> hs' = hs"
| "indexed_as m h hs (Ix_Name n g) hs' \<longleftrightarrow> g = h \<and> name_at hs n h \<and> hs' = hs"
| "indexed_as m h hs (Ix_Inserted s) hs' \<longleftrightarrow> s = 0 \<and> \<not> is_sensitive h
     \<and> header_len h \<le> m \<and> hs' = h # fitting (m - header_len h) hs"
| "indexed_as m h hs (Ix_InsertedValue n s) hs' \<longleftrightarrow> s = 0 \<and> \<not> is_sensitive h \<and> name_at hs n h
     \<and> header_len h \<le> m \<and> hs' = h # fitting (m - header_len h) hs"
| "indexed_as m h hs (Ix_NotIndexed g) hs' \<longleftrightarrow> g = h \<and> hs' = hs"

lemma static_name_at: "index_static h = Some (n, b) \<Longrightarrow> name_at hs n h \<and> (b \<longrightarrow> header_at hs n h)"
  using index_static_sound [of h n b]
  by (force simp: name_at_def header_at_def lookup_at_def get_static_def split: if_splits)

lemma dynamic_name_at:
  "j < length hs \<Longrightarrow> header_name (hs ! j) = header_name h \<Longrightarrow> name_at hs (j + DYN_OFFSET) h"
  by (simp add: name_at_def lookup_at_def DYN_OFFSET_def)

lemma dynamic_header_at:
  assumes "j < length hs" "value_eq (hs ! j) h"
  shows "header_at hs (j + DYN_OFFSET) h \<or> header_name (hs ! j) \<noteq> header_name h"
proof (cases "header_name (hs ! j) = header_name h")
  case True
  then have "value_slice (hs ! j) = value_slice h"
    using assms(2) by (cases "hs ! j"; cases h) auto
  with True assms(1) show ?thesis by (simp add: header_at_def lookup_at_def DYN_OFFSET_def)
qed simp

lemma index_new_indexed: "index_static h = st \<Longrightarrow> indexed_as m h hs (index_new st h) hs"
  using static_name_at [of h] by (cases "(st, h)" rule: index_new.cases) auto

section \<open>The chain of a name\<close>

definition sized_ok :: "enc_table \<Rightarrow> bool" where
  "sized_ok t \<longleftrightarrow> t_size t = entries_size (table_headers t) \<and> t_size t \<le> t_max_size t"

lemma table_headers_nth: "j < length (t_slots t) \<Longrightarrow> table_headers t ! j = slot_header (t_slots t ! j)"
  by (simp add: table_headers_def)

lemma length_table_headers [simp]: "length (table_headers t) = length (t_slots t)"
  by (simp add: table_headers_def)

text \<open>At the newest slot of the name: eviction and insertion.\<close>

lemma occupied_insert_ok:
  assumes "linked H t" "sized_ok t" "length (t_slots t) < table_capacity t" "header_len h \<le> t_max_size t"
    "i < length (t_slots t)" "slot_next (t_slots t ! i) = None" "slot_name (t_slots t ! i) = header_name h"
  defines "index \<equiv> of_nat i - t_inserted t"
  shows "\<exists>b t1. update_size (header_len h) (Some index) t = Some (b, t1)
    \<and> linked H (insert_linked h (hash_header H h) index t1) \<and> sized_ok (insert_linked h (hash_header H h) index t1)
    \<and> table_headers (insert_linked h (hash_header H h) index t1) = h # fitting (t_max_size t - header_len h) (table_headers t)
    \<and> t_max_size (insert_linked h (hash_header H h) index t1) = t_max_size t"
proof -
  let ?V = "insert_linked h (hash_header H h) index"
  let ?t = "t\<lparr>t_size := t_size t + header_len h\<rparr>"
  have lt: "i < 2 ^ 64 - 1" "Suc i < 2 ^ 64" "length (t_slots t) < 2 ^ 64"
    using linked_slots(2) [OF assms(1)] assms(5) by auto
  have V: "?V u = u\<lparr>t_inserted := t_inserted t + 1, t_slots := \<lparr>slot_hash = hash_header H h, slot_header = h,
      slot_next = None\<rparr> # (t_slots u)[i := (t_slots u ! i)\<lparr>slot_next := Some (0 - (t_inserted t + 1))\<rparr>]\<rparr>"
    if "t_inserted u = t_inserted t" for u
    using insert_linked_eq [of index i u] lt(2) that by (simp add: index_def)
  have hd: "table_headers (?V ?t) = h # table_headers t"
    unfolding V [of ?t, simplified] by (simp add: table_headers_def map_update) (metis list_update_id map_update nth_map assms(5))
  have "linked H (?V t)"
    unfolding index_def by (rule linked_insert_linked [OF assms(1,3,5-7)])
  moreover have "?V ?t = (?V t)\<lparr>t_size := t_size t + header_len h\<rparr>" using V [of t] V [of ?t] by simp
  ultimately have lV: "linked H (?V ?t)" by simp
  have size: "t_size (?V ?t) = 0 + entries_size (table_headers (?V ?t))"
    unfolding hd using assms(2) V [of ?t] by (simp add: sized_ok_def)
  have max: "t_max_size (?V ?t) = t_max_size t" using V [of ?t] by simp
  obtain b ss ys where
    c: "converge_loop None False (?V ?t) = Some (b, (?V ?t)\<lparr>t_slots := ss, t_size := entries_size (map slot_header ss),
        t_indices := ys\<rparr>)"
      "linked H ((?V ?t)\<lparr>t_slots := ss, t_size := entries_size (map slot_header ss), t_indices := ys\<rparr>)"
      "map slot_header ss = fitting (t_max_size t) (h # table_headers t)"
    using converge_ok [where ret = False, OF lV size le0, unfolded hd max add_0 minus_nat.diff_0] by blast
  let ?u = "(?V ?t)\<lparr>t_slots := ss, t_size := entries_size (map slot_header ss), t_indices := ys\<rparr>"
  obtain t1 where t1: "converge_loop (Some index) False ?t = Some (b, t1)" "?u = ?V t1"
    using converge_insert_linked [OF _ lt(2), of index ?t h, OF _ _ _ _ _ c(1)] lt assms(2,4,6)
    by (auto simp: index_def sized_ok_def table_headers_def)
  have "table_headers ?u = h # fitting (t_max_size t - header_len h) (table_headers t)"
    using c(3) assms(4) by (simp add: table_headers_def)
  moreover have "t_max_size ?u = t_max_size t" using max by simp
  moreover have "sized_ok ?u"
    using entries_size_fitting [of "t_max_size t" "h # table_headers t"] c(3) max
    by (simp add: sized_ok_def table_headers_def)
  ultimately have "linked H (?V t1) \<and> sized_ok (?V t1)
      \<and> table_headers (?V t1) = h # fitting (t_max_size t - header_len h) (table_headers t)
      \<and> t_max_size (?V t1) = t_max_size t"
    using c(2) unfolding t1(2) [symmetric] by blast
  with t1(1) show ?thesis by (simp add: update_size_def converge_def)
qed

text \<open>Following the chain from a slot of the name.\<close>

lemma index_occupied_ok:
  assumes "linked H t" "sized_ok t" "header_len h \<le> t_max_size t"
    "length (t_slots t) < table_capacity t \<or> is_sensitive h"
    "statik = None \<or> (\<exists>n. statik = Some n \<and> name_at (table_headers t) n h)"
    "i < length (t_slots t)" "slot_name (t_slots t ! i) = header_name h"
  shows "\<exists>ix t'. index_occupied h (hash_header H h) (of_nat i - t_inserted t) statik t = Some (ix, t')
    \<and> linked H t' \<and> sized_ok t' \<and> t_max_size t' = t_max_size t
    \<and> indexed_as (t_max_size t) h (table_headers t) ix (table_headers t')"
  using assms(6,7)
proof (induction i rule: less_induct)
  case (less i)
  have real: "unat (of_nat i - t_inserted t + t_inserted t) = i"
    using linked_slots(2) [OF assms(1)] less.prems(1) by (intro unat_real) simp
  have get: "get (t_slots t) i = Some (t_slots t ! i)" using less.prems(1) by (simp add: get_def)
  note unfold = index_occupied.simps [of h "hash_header H h" "of_nat i - t_inserted t" statik t, unfolded real Let_def get]
  have nm: "header_name (table_headers t ! i) = header_name h"
    using less.prems by (simp add: table_headers_nth slot_name_def)
  then have at: "name_at (table_headers t) (i + DYN_OFFSET) h" using less.prems(1) by (intro dynamic_name_at) simp_all
  have link: "link_ok (t_inserted t) (t_slots t) i" using assms(1) less.prems(1) by (simp add: linked_def)
  show ?case
  proof (cases "value_eq (slot_header (t_slots t ! i)) h")
    case True
    then have "header_at (table_headers t) (i + DYN_OFFSET) h"
      using dynamic_header_at [of i "table_headers t" h] nm less.prems(1) by (simp add: table_headers_nth)
    with True assms(1,2) show ?thesis by (simp add: unfold)
  next
    case False
    show ?thesis
    proof (cases "slot_next (t_slots t ! i)")
      case (Some p)
      then obtain k where k: "k < i" "p = of_nat k - t_inserted t" "slot_name (t_slots t ! k) = slot_name (t_slots t ! i)"
        using link by (auto simp: link_ok_def)
      have "index_occupied h (hash_header H h) (of_nat i - t_inserted t) statik t
          = index_occupied h (hash_header H h) (of_nat k - t_inserted t) statik t"
        using False Some k(2) by (simp add: unfold)
      with less.IH [OF k(1)] k less.prems show ?thesis by simp
    next
      case None
      show ?thesis
      proof (cases "is_sensitive h")
        case True
        with False None assms(1,2) at show ?thesis by (simp add: unfold)
      next
        case ins: False
        with assms(4) have cap: "length (t_slots t) < table_capacity t" by simp
        obtain b t1 where t1: "update_size (header_len h) (Some (of_nat i - t_inserted t)) t = Some (b, t1)"
          "linked H (insert_linked h (hash_header H h) (of_nat i - t_inserted t) t1)"
          "sized_ok (insert_linked h (hash_header H h) (of_nat i - t_inserted t) t1)"
          "table_headers (insert_linked h (hash_header H h) (of_nat i - t_inserted t) t1)
             = h # fitting (t_max_size t - header_len h) (table_headers t)"
          "t_max_size (insert_linked h (hash_header H h) (of_nat i - t_inserted t) t1) = t_max_size t"
          using occupied_insert_ok [OF assms(1,2) cap assms(3) less.prems(1) None less.prems(2)] by blast
        let ?ix = "case statik of Some n \<Rightarrow> Ix_InsertedValue n 0 | None \<Rightarrow> Ix_InsertedValue (i + DYN_OFFSET) 0"
        have "index_occupied h (hash_header H h) (of_nat i - t_inserted t) statik t =
            Some (?ix, insert_linked h (hash_header H h) (of_nat i - t_inserted t) t1)"
          using False None ins t1(1) by (simp add: unfold)
        moreover have "indexed_as (t_max_size t) h (table_headers t) ?ix
            (h # fitting (t_max_size t - header_len h) (table_headers t))"
          using assms(3,5) at ins by (auto split: option.split)
        ultimately show ?thesis using t1(2-5) by simp
      qed
    qed
  qed
qed

section \<open>A new name\<close>

lemma back_position:
  assumes "sized m xs" "p < length xs"
  shows "unat ((of_nat p - 1 :: u64) AND m) = (p + length xs - 1) mod length xs"
proof -
  obtain k where k: "k < 64" "length xs = 2 ^ k" "m = mask k" using assms(1) by (auto simp: sized_def)
  moreover have "1 < length xs" using sized_gt_1 [OF assms(1)] .
  ultimately show ?thesis using sub_and_mask [of k p 1] assms(2) by (simp add: gap_def)
qed

lemma pred_position:
  assumes "1 < n" "h < n"
  shows "((h + Suc d) mod n + n - 1) mod n = (h + d) mod n"
proof -
  have "((h + Suc d) mod n + n - 1) mod n = ((h + Suc d) mod n + (n - 1)) mod n" using assms(1) by simp
  also have "\<dots> = (h + Suc d + (n - 1)) mod n" by (rule mod_add_left_eq)
  also have "h + Suc d + (n - 1) = h + d + n" using assms(1) by simp
  finally show ?thesis by simp
qed

lemma retreat_ok:
  assumes "robin m ys" "h < length ys" "rank m ys (h + dist) \<le> dist"
  shows "\<exists>d \<le> dist. retreat m ys dist ((h + dist) mod length ys) = Some ((h + d) mod length ys)
    \<and> rank m ys (h + d) \<le> d \<and> d \<le> rank m ys ((h + d) mod length ys + length ys - 1)"
  using assms(3)
proof (induction dist)
  case (Suc dist)
  let ?n = "length ys"
  have sized: "sized m ys" by (rule robin_sized [OF assms(1)])
  have before: "((h + Suc dist) mod ?n + ?n - 1) mod ?n = (h + dist) mod ?n"
    using pred_position [OF sized_gt_1 [OF sized] assms(2)] .
  have lt: "(h + dist) mod ?n < ?n" using assms(2) by (rule mod_in)
  have unat: "unat ((of_nat ((h + Suc dist) mod ?n) - 1 :: u64) AND m) = (h + dist) mod ?n"
    using back_position [OF sized mod_in [OF assms(2)]] before by simp
  have prev: "rank m ys ((h + Suc dist) mod ?n + ?n - 1) = rank m ys (h + dist)"
    using before by (rule rank_cong_mod)
  have step: "retreat m ys (Suc dist) ((h + Suc dist) mod ?n) =
      (if rank m ys (h + dist) \<le> dist then retreat m ys dist ((h + dist) mod ?n) else Some ((h + Suc dist) mod ?n))"
    unfolding retreat.simps unat Let_def
    using lt by (simp add: get_def rank_def probe_distance_gap [OF sized lt] split: option.split)
  show ?case
  proof (cases "rank m ys (h + dist) \<le> dist")
    case True
    from Suc.IH [OF this] step True show ?thesis by (metis le_SucI)
  next
    case False
    with step prev Suc.prems show ?thesis by (intro exI [of _ "Suc dist"]) simp
  qed
qed simp

lemma fitting_names:
  assumes "map slot_header ss' = fitting m (map slot_header ss)"
    "\<forall>j < length ss. slot_name (ss ! j) \<noteq> x" "j < length ss'"
  shows "slot_name (ss' ! j) \<noteq> x"
proof -
  obtain hs where hs: "map slot_header ss = map slot_header ss' @ hs"
    using fitting_prefix [of "map slot_header ss" m] assms(1) by auto
  have "length ss' \<le> length ss" using arg_cong [OF hs, of length] by simp
  moreover have "map slot_header ss ! j = map slot_header ss' ! j"
    unfolding hs using assms(3) by (simp add: nth_append)
  moreover from calculation(1) assms(2,3) have "slot_name (ss ! j) \<noteq> x" by simp
  ultimately show ?thesis using assms(3) \<open>length ss' \<le> length ss\<close> by (simp add: slot_name_def)
qed

lemma fitting_length: "length (fitting m hs) \<le> length hs"
  by (metis fitting_prefix le_add1 length_append)

lemma index_vacant_ok:
  assumes "linked H t" "sized_ok t" "header_len h \<le> t_max_size t"
    "length (t_slots t) < table_capacity t \<or> is_sensitive h"
    "statik = index_static h"
    "\<forall>j < length (t_slots t). slot_name (t_slots t ! j) \<noteq> header_name h"
  defines "home \<equiv> desired_pos (t_mask t) (hash_header H h)" and "n \<equiv> length (t_indices t)"
  assumes "dist < n" "rank (t_mask t) (t_indices t) (home + dist) \<le> dist"
    "dist \<le> rank (t_mask t) (t_indices t) ((home + dist) mod n + n - 1)"
  shows "\<exists>ix t'. index_vacant h (hash_header H h) dist ((home + dist) mod n) statik t = Some (ix, t')
    \<and> linked H t' \<and> sized_ok t' \<and> t_max_size t' = t_max_size t
    \<and> indexed_as (t_max_size t) h (table_headers t) ix (table_headers t')"
proof (cases "is_sensitive h")
  case True
  with assms(1,2,5) show ?thesis by (simp add: index_vacant_def index_new_indexed)
next
  case False
  let ?t = "t\<lparr>t_size := t_size t + header_len h\<rparr>" and ?m = "t_mask t"
  have home: "home < n" unfolding home_def n_def by (rule desired_pos_less [OF linked_sized [OF assms(1)]])
  have lt: "linked H ?t" using assms(1) by simp
  have size: "t_size ?t = header_len h + entries_size (table_headers ?t)"
    using assms(2) by (simp add: sized_ok_def table_headers_def)
  have max: "header_len h \<le> t_max_size ?t" using assms(3) by simp
  obtain b ss ys where c: "converge_loop None False ?t =
        Some (b, ?t\<lparr>t_slots := ss, t_size := header_len h + entries_size (map slot_header ss), t_indices := ys\<rparr>)"
    "linked H (?t\<lparr>t_slots := ss, t_size := header_len h + entries_size (map slot_header ss), t_indices := ys\<rparr>)"
    "map slot_header ss = fitting (t_max_size ?t - header_len h) (table_headers ?t)"
    "length ys = length (t_indices ?t)" "\<forall>i. rank (t_mask ?t) ys i \<le> rank (t_mask ?t) (t_indices ?t) i"
    "\<not> b \<longrightarrow> \<not> False \<and> ss = t_slots ?t \<and> ys = t_indices ?t"
    using converge_ok [where ret = False, OF lt size max] by blast
  let ?u = "?t\<lparr>t_slots := ss, t_size := header_len h + entries_size (map slot_header ss), t_indices := ys\<rparr>"
  have headers: "map slot_header ss = fitting (t_max_size t - header_len h) (table_headers t)"
    using c(3) by (simp add: table_headers_def)
  have robin: "robin ?m ys" using c(2) by (simp add: linked_def)
  have n: "length ys = n" using c(4) by (simp add: n_def)
  have "\<exists>d \<le> dist. (if b then retreat ?m ys dist ((home + dist) mod n) else Some ((home + dist) mod n))
        = Some ((home + d) mod n)
      \<and> rank ?m ys (home + d) \<le> d \<and> d \<le> rank ?m ys ((home + d) mod n + n - 1)"
  proof (cases b)
    case True
    have "rank ?m ys (home + dist) \<le> dist"
      using c(5) assms(10) le_trans by (metis (no_types, lifting) enc_table.select_convs(1,2) enc_table.update_convs(5) enc_table.surjective)
    from retreat_ok [OF robin _ this] home n True show ?thesis by simp
  next
    case False
    with c(6) assms(10,11) show ?thesis by (intro exI [of _ dist]) simp
  qed
  then obtain d where d: "d \<le> dist"
    "(if b then retreat ?m ys dist ((home + dist) mod n) else Some ((home + dist) mod n)) = Some ((home + d) mod n)"
    "rank ?m ys (home + d) \<le> d" "d \<le> rank ?m ys ((home + d) mod n + n - 1)" by blast
  let ?p = "(home + d) mod n" and ?e = "\<lparr>pos_index = 0 - (t_inserted t + 1), pos_hash = hash_header H h\<rparr>"
  have "gap n home ?p = d" using gap_add [OF home] d(1) assms(9) by simp
  then have "may_place ?m ys ?e ?p"
    using d(3,4) mod_in [OF home] rank_mod [of ?m ys "home + d"] by (simp add: may_place_def n home_def)
  moreover have "vacancy ys" using linked_vacancy [OF c(2)] by simp
  ultimately obtain zs where zs: "put_entry ?e ?p ys = Some zs" "robin ?m zs" "length zs = n"
    "entries zs = add_mset ?e (entries ys)"
    using put_entry_ok [OF robin] n by blast
  let ?v = "(insert_slot h (hash_header H h) ?u)\<lparr>t_indices := zs\<rparr>"
  have "length (t_slots ?u) < table_capacity ?u"
  proof -
    have "length ss \<le> length (t_slots t)"
      using arg_cong [OF headers, of length] fitting_length [of "t_max_size t - header_len h" "table_headers t"] by simp
    with assms(4) False c(4) show ?thesis by (simp add: table_capacity_def)
  qed
  moreover have "\<forall>j < length (t_slots ?u). slot_name (t_slots ?u ! j) \<noteq> header_name h"
    using fitting_names [OF headers [unfolded table_headers_def] assms(6)] by simp
  ultimately have "linked H ?v"
    using zs n by (intro linked_insert_fresh [OF c(2)]) simp_all
  moreover have hv: "table_headers ?v = h # fitting (t_max_size t - header_len h) (table_headers t)"
    using headers by (simp add: table_headers_def insert_slot_def)
  moreover have "sized_ok ?v"
    using hv entries_size_fitting [of "t_max_size t - header_len h" "table_headers t"] assms(3) headers
    by (simp add: sized_ok_def insert_slot_def)
  moreover have "t_max_size ?v = t_max_size t" by (simp add: insert_slot_def)
  moreover have "index_vacant h (hash_header H h) dist ((home + dist) mod n) statik t =
      Some (case statik of Some (n, _) \<Rightarrow> Ix_InsertedValue n 0 | None \<Rightarrow> Ix_Inserted 0, ?v)"
    using False c(1) d(2) zs(1)
    by (cases b) (simp_all add: index_vacant_def update_size_def converge_def insert_slot_def Let_def)
  moreover have "indexed_as (t_max_size t) h (table_headers t)
      (case statik of Some (n, _) \<Rightarrow> Ix_InsertedValue n 0 | None \<Rightarrow> Ix_Inserted 0)
      (h # fitting (t_max_size t - header_len h) (table_headers t))"
    using False assms(3,5) static_name_at [of h] by (auto split: option.split)
  ultimately show ?thesis by metis
qed

section \<open>Looking up a name\<close>

text \<open>
  The search stops where the name is found or where it would have to be: a name of the table is not
  missed.
\<close>

lemma search_finds:
  assumes "linked H t" "j < length (t_slots t)" "slot_name (t_slots t ! j) = header_name h"
  defines "home \<equiv> desired_pos (t_mask t) (hash_header H h)" and "n \<equiv> length (t_indices t)"
  shows "\<exists>d q. d < n \<and> q < length (t_slots t) \<and> slot_name (t_slots t ! q) = header_name h
    \<and> t_indices t ! ((home + d) mod n) = Some (pos_of (t_inserted t) (t_slots t) q)
    \<and> pos_hash (pos_of (t_inserted t) (t_slots t) q) = hash_header H h
    \<and> (\<forall>e \<le> d. e < rank (t_mask t) (t_indices t) (home + e))"
proof -
  obtain q where o: "oldest (t_slots t) q" "slot_name (t_slots t ! q) = header_name h"
    using exists_oldest [OF assms(2)] assms(3) by auto
  then have q: "q < length (t_slots t)" by (simp add: oldest_def)
  have "slot_hash (t_slots t ! q) = hash_header H h"
    using assms(1) q o(2) by (simp add: linked_def hash_header_def slot_name_def)
  then have hash: "pos_hash (pos_of (t_inserted t) (t_slots t) q) = hash_header H h" by (simp add: pos_of_def)
  obtain i where i: "i < n" "t_indices t ! i = Some (pos_of (t_inserted t) (t_slots t) q)"
    using linked_entry [OF assms(1) o(1)] by (auto simp: n_def)
  have home: "home < n" unfolding home_def n_def by (rule desired_pos_less [OF linked_sized [OF assms(1)]])
  have "(home + gap n home i) mod n = i" by (rule add_gap [OF home i(1)])
  moreover have "gap n home i < n" by (rule gap_less) (use i in linarith)
  moreover have "e < rank (t_mask t) (t_indices t) (home + e)" if "e \<le> gap n home i" for e
    using rank_on_the_way [of "t_mask t" "t_indices t" i "pos_of (t_inserted t) (t_slots t) q" e]
      assms(1) i that hash by (simp add: linked_def n_def home_def)
  ultimately show ?thesis using i(2) q o(2) hash by (intro exI [of _ "gap n home i"] exI [of _ q]) simp
qed

definition matches :: "(hname \<Rightarrow> u64) \<Rightarrow> bytes header \<Rightarrow> enc_table \<Rightarrow> nat \<Rightarrow> bool" where
  "matches H h t p \<longleftrightarrow> (case t_indices t ! (p mod length (t_indices t)) of
     None \<Rightarrow> False
   | Some pos \<Rightarrow> pos_hash pos = hash_header H h
       \<and> header_name (slot_header (t_slots t ! unat (pos_index pos + t_inserted t))) = header_name h)"

lemma dynamic_body_eq:
  assumes "linked H t" "p < length (t_indices t)"
  shows "dynamic_body h (hash_header H h) statik t p dist =
     (if rank (t_mask t) (t_indices t) p \<le> dist
      then map_option Inl (index_vacant h (hash_header H h) dist p statik t)
      else if matches H h t p
      then map_option Inl (index_occupied h (hash_header H h) (pos_index (the (t_indices t ! p))) (map_option fst statik) t)
      else Some (Inr (dist + 1)))"
proof (cases "t_indices t ! p")
  case None
  with assms(2) show ?thesis by (simp add: dynamic_body_def get_def rank_vacant)
next
  case (Some pos)
  obtain j where j: "oldest (t_slots t) j" "pos = pos_of (t_inserted t) (t_slots t) j"
    using linked_entry_of [OF assms Some] by blast
  then have "unat (pos_index pos + t_inserted t) = j" "j < length (t_slots t)"
    using linked_slots(2) [OF assms(1)] unat_real [of j "t_inserted t"] by (auto simp: pos_of_def oldest_def)
  with Some assms(2) show ?thesis
    by (simp add: dynamic_body_def get_def rank_occupied matches_def
        probe_distance_gap [OF linked_sized [OF assms(1)] assms(2)] Let_def less_eq_Suc_le)
qed

lemma index_search_ok:
  assumes "linked H t" "sized_ok t" "header_len h \<le> t_max_size t"
    "length (t_slots t) < table_capacity t \<or> is_sensitive h" "statik = index_static h"
  shows "\<exists>ix t'. probe_loop (length (t_indices t)) (dynamic_body h (hash_header H h) statik t)
      (desired_pos (t_mask t) (hash_header H h)) 0 = Some (ix, t')
    \<and> linked H t' \<and> sized_ok t' \<and> t_max_size t' = t_max_size t
    \<and> indexed_as (t_max_size t) h (table_headers t) ix (table_headers t')"
proof -
  let ?n = "length (t_indices t)" and ?home = "desired_pos (t_mask t) (hash_header H h)"
  let ?body = "dynamic_body h (hash_header H h) statik t"
  let ?good = "\<lambda>ix t'. linked H t' \<and> sized_ok t' \<and> t_max_size t' = t_max_size t
    \<and> indexed_as (t_max_size t) h (table_headers t) ix (table_headers t')"
  have robin: "robin (t_mask t) (t_indices t)" using assms(1) by (simp add: linked_def)
  have home: "?home < ?n" by (rule desired_pos_less [OF linked_sized [OF assms(1)]])
  have n: "0 < ?n" using home by linarith
  let ?stop = "\<lambda>d. rank (t_mask t) (t_indices t) (?home + d) \<le> d \<or> matches H h t (?home + d)"
  obtain d0 where d0: "d0 < ?n" "rank (t_mask t) (t_indices t) (?home + d0) \<le> d0"
    using stop_exists [OF robin linked_vacancy [OF assms(1)] home] by blast
  define d where "d = (LEAST d. ?stop d)"
  have d: "?stop d" "d < ?n"
    using LeastI [of ?stop d0] Least_le [of ?stop d0] d0 unfolding d_def by auto
  have before: "\<not> ?stop e" if "e < d" for e using not_less_Least [of e ?stop] that by (simp add: d_def)
  have mm: "matches H h t ((?home + e) mod ?n) = matches H h t (?home + e)" for e
    by (simp add: matches_def cong: option.case_cong)
  have body: "?body ((?home + e) mod ?n) (0 + e) = (if rank (t_mask t) (t_indices t) (?home + e) \<le> e
      then map_option Inl (index_vacant h (hash_header H h) e ((?home + e) mod ?n) statik t)
      else if matches H h t (?home + e)
      then map_option Inl (index_occupied h (hash_header H h)
        (pos_index (the (t_indices t ! ((?home + e) mod ?n)))) (map_option fst statik) t)
      else Some (Inr (e + 1)))" for e
    using dynamic_body_eq [OF assms(1) mod_in [OF home], of h statik "?home + e" e] by (simp add: mm)
  have "\<exists>ix t'. ?body ((?home + d) mod ?n) (0 + d) = Some (Inl (ix, t')) \<and> ?good ix t'"
  proof (cases "rank (t_mask t) (t_indices t) (?home + d) \<le> d")
    case True
    have fresh: "\<forall>j < length (t_slots t). slot_name (t_slots t ! j) \<noteq> header_name h"
    proof (intro allI impI notI)
      fix j assume "j < length (t_slots t)" "slot_name (t_slots t ! j) = header_name h"
      from search_finds [OF assms(1) this] obtain e q where e: "e < ?n" "q < length (t_slots t)"
        "slot_name (t_slots t ! q) = header_name h"
        "t_indices t ! ((?home + e) mod ?n) = Some (pos_of (t_inserted t) (t_slots t) q)"
        "pos_hash (pos_of (t_inserted t) (t_slots t) q) = hash_header H h"
        "\<forall>x \<le> e. x < rank (t_mask t) (t_indices t) (?home + x)" by blast
      have "unat (pos_index (pos_of (t_inserted t) (t_slots t) q) + t_inserted t) = q"
        using e(2) linked_slots(2) [OF assms(1)] unat_real [of q "t_inserted t"] by (simp add: pos_of_def)
      with e(3-5) have "matches H h t (?home + e)" by (simp add: matches_def slot_name_def)
      with before [of e] True e(6) show False by (cases "e < d") (auto simp: not_less dest: spec [of _ d])
    qed
    have "d \<le> rank (t_mask t) (t_indices t) ((?home + d) mod ?n + ?n - 1)"
    proof (cases d)
      case (Suc e)
      have "rank (t_mask t) (t_indices t) ((?home + d) mod ?n + ?n - 1) = rank (t_mask t) (t_indices t) (?home + e)"
        using pred_position [OF sized_gt_1 [OF linked_sized [OF assms(1)]] home, of e] Suc
        by (intro rank_cong_mod) simp
      with before [of e] Suc show ?thesis by simp
    qed simp
    with index_vacant_ok [OF assms fresh d(2) True] True show ?thesis
      unfolding body by auto
  next
    case False
    with d(1) have m: "matches H h t (?home + d)" by simp
    then obtain pos where pos: "t_indices t ! ((?home + d) mod ?n) = Some pos"
      "header_name (slot_header (t_slots t ! unat (pos_index pos + t_inserted t))) = header_name h"
      by (auto simp: matches_def split: option.splits)
    obtain j where j: "oldest (t_slots t) j" "pos = pos_of (t_inserted t) (t_slots t) j"
      using linked_entry_of [OF assms(1) mod_in [OF home] pos(1)] by blast
    then have u: "unat (pos_index pos + t_inserted t) = j" "j < length (t_slots t)" "pos_index pos = of_nat j - t_inserted t"
      using linked_slots(2) [OF assms(1)] unat_real [of j "t_inserted t"] by (auto simp: pos_of_def oldest_def)
    have "map_option fst statik = None \<or> (\<exists>n. map_option fst statik = Some n \<and> name_at (table_headers t) n h)"
      using static_name_at [of h] assms(5) by (cases statik) auto
    from index_occupied_ok [OF assms(1-4) this u(2)] pos(2) u False m pos(1) show ?thesis
      unfolding body by (auto simp: slot_name_def)
  qed
  then obtain ix t' where r: "?body ((?home + d) mod ?n) (0 + d) = Some (Inl (ix, t'))" "?good ix t'" by blast
  have go: "?body ((?home + e) mod ?n) (0 + e) = Some (Inr (Suc (0 + e)))" if "e < d" for e
    unfolding body using before [OF that] by auto
  have "probe_loop ?n ?body ?home 0 = Some (ix, t')"
    by (rule probe_loop_search [OF n go r(1) home])
  with r(2) show ?thesis by blast
qed

section \<open>Room for one more\<close>

lemma header_len_ge_32: "32 \<le> header_len h"
  by (cases h) auto

lemma entries_size_ge: "32 * length hs \<le> entries_size hs"
proof (induction hs)
  case (Cons h hs)
  with header_len_ge_32 [of h] show ?case by simp
qed simp

lemma linked_indices:
  assumes "robin m xs" "length (t_slots t) \<le> usable_capacity (length xs)" "entries xs = entries (t_indices t)" "linked H t"
  shows "linked H (t\<lparr>t_indices := xs, t_mask := m\<rparr>)"
  using assms by (simp add: linked_def table_capacity_def)

lemma linked_empty:
  assumes "sized m (replicate n (None :: pos option))"
  shows "linked H (t\<lparr>t_mask := m, t_indices := replicate n None, t_slots := []\<rparr>)"
proof -
  have "{j. oldest [] j} = {}" by (simp add: oldest_def)
  then show ?thesis using robin_replicate [OF assms] by (simp add: linked_def)
qed

lemma sized_8: "sized 7 (replicate 8 (None :: pos option))"
  unfolding sized_def by (rule exI [of _ 3]) (simp add: mask_eq_exp_minus_1)

lemma sized_double:
  assumes "sized m xs" "length xs < 2 ^ 62"
  shows "sized (of_nat (length xs * 2) - 1) (replicate (2 * length xs) (None :: pos option))"
proof -
  obtain k where k: "3 \<le> k" "length xs = 2 ^ k" using assms(1) by (auto simp: sized_def)
  then have "(2 :: nat) ^ k < 2 ^ 62" using assms(2) by simp
  then have "k < 62" by (rule power_less_imp_less_exp [rotated]) simp
  with k show ?thesis
    unfolding sized_def by (intro exI [of _ "Suc k"]) (simp add: mask_eq_exp_minus_1 mult.commute)
qed

lemma reserve_one_ok:
  assumes "table_ok H t"
  shows "\<exists>m xs. reserve_one t = Some (t\<lparr>t_indices := xs, t_mask := m\<rparr>) \<and> linked H (t\<lparr>t_indices := xs, t_mask := m\<rparr>)
    \<and> length (t_slots t) < usable_capacity (length xs)"
proof (cases "length (t_slots t) = table_capacity t")
  case False
  then have "linked H t"
    using assms by (auto simp: table_ok_def table_capacity_def usable_capacity_def)
  moreover from this False have "length (t_slots t) < table_capacity t" by (simp add: linked_def)
  moreover have "reserve_one t = Some t" using False by (simp add: reserve_one_def)
  ultimately show ?thesis by (intro exI [of _ "t_mask t"] exI [of _ "t_indices t"]) (simp add: table_capacity_def)
next
  case True
  show ?thesis
  proof (cases "t_slots t = []")
    case empty: True
    then have "reserve_one t = Some (t\<lparr>t_indices := replicate 8 None, t_mask := 7\<rparr>)"
      using True by (simp add: reserve_one_def)
    moreover have "linked H (t\<lparr>t_indices := replicate 8 None, t_mask := 7\<rparr>)"
      using linked_empty [OF sized_8, of H t] empty by (cases t) simp
    ultimately show ?thesis using empty
      by (intro exI [of _ 7] exI [of _ "replicate 8 None"]) (simp add: usable_capacity_def)
  next
    case False
    with assms have lt: "linked H t" and small: "32 * length (t_slots t) < 2 ^ 32"
      using entries_size_ge [of "table_headers t"] by (auto simp: table_ok_def)
    let ?n = "length (t_indices t)"
    have robin: "robin (t_mask t) (t_indices t)" using lt by (simp add: linked_def)
    have n8: "8 \<le> ?n" by (rule sized_ge_8 [OF linked_sized [OF lt]])
    have "?n - ?n div 4 = length (t_slots t)" using True by (simp add: table_capacity_def usable_capacity_def)
    moreover have "4 * (?n div 4) \<le> ?n" by simp
    ultimately have "?n \<le> 2 * length (t_slots t)" by linarith
    then have n: "?n < 2 ^ 62" using small by simp
    have cap: "table_capacity t \<noteq> 0" using True False by (metis length_0_conv)
    have sized: "sized (of_nat (?n * 2) - 1) (replicate (2 * ?n) (None :: pos option))"
      by (rule sized_double [OF linked_sized [OF lt] n])
    obtain ys where ys: "grow_indices (t_mask t) (of_nat (?n * 2) - 1) (2 * ?n) (t_indices t) = Some ys"
      "robin (of_nat (?n * 2) - 1) ys" "length ys = 2 * ?n" "entries ys = entries (t_indices t)"
      using grow_indices_ok [OF robin linked_vacancy [OF lt] sized] by blast
    then have "reserve_one t = Some (t\<lparr>t_indices := ys, t_mask := of_nat (?n * 2) - 1\<rparr>)"
      using cap by (simp add: reserve_one_def grow_def mult.commute True)
    moreover have lt_cap: "length (t_slots t) < usable_capacity (length ys)"
      using True n8 by (simp add: ys(3) table_capacity_def usable_capacity_def)
    ultimately show ?thesis
      using linked_indices [OF ys(2) less_imp_le [OF lt_cap] ys(4) lt] by blast
  qed
qed

section \<open>The operations of the table\<close>

lemma table_index_step:
  assumes "table_ok H t"
  shows "\<exists>ix t'. table_index H h t = Some (ix, t') \<and> table_ok H t' \<and> t_max_size t' = t_max_size t
    \<and> indexed_as (t_max_size t) h (table_headers t) ix (table_headers t')"
proof -
  have plain: ?thesis if "table_index H h t = Some (index_new (index_static h) h, t)"
    using that assms index_new_indexed [OF refl] by blast
  have indexed: ?thesis if "index_static h = Some (n, True)" for n
    by (rule plain) (simp add: that table_index_def Let_def)
  have dynamic: ?thesis if fits: "header_len h \<le> t_max_size t" and
    idx: "table_index H h t = index_dynamic H h (index_static h) t"
  proof -
    let ?reserve = "header_len h + t_size t < t_max_size t \<or> \<not> is_sensitive h"
    have search: ?thesis if u: "linked H (t\<lparr>t_indices := xs, t_mask := m\<rparr>)"
        "length (t_slots t) < usable_capacity (length xs) \<or> is_sensitive h"
        "(if ?reserve then reserve_one t else Some t) = Some (t\<lparr>t_indices := xs, t_mask := m\<rparr>)" for m xs
    proof -
      let ?u = "t\<lparr>t_indices := xs, t_mask := m\<rparr>"
      have "xs \<noteq> []" using sized_ge_8 [OF linked_sized [OF u(1)]] by auto
      then have run: "index_dynamic H h (index_static h) t =
          probe_loop (length (t_indices ?u)) (dynamic_body h (hash_header H h) (index_static h) ?u)
            (desired_pos (t_mask ?u) (hash_header H h)) 0"
        unfolding index_dynamic_def u(3) by (simp add: Let_def)
      have hs: "table_headers ?u = table_headers t" by (simp add: table_headers_def)
      have "sized_ok ?u" using assms by (simp add: sized_ok_def table_ok_def hs)
      moreover have "length (t_slots ?u) < table_capacity ?u \<or> is_sensitive h" using u(2) by (simp add: table_capacity_def)
      ultimately obtain ix t' where "index_dynamic H h (index_static h) t = Some (ix, t')"
        "linked H t'" "sized_ok t'" "t_max_size t' = t_max_size t"
        "indexed_as (t_max_size t) h (table_headers t) ix (table_headers t')"
        using index_search_ok [OF u(1), of h "index_static h"] fits unfolding run hs by auto
      with idx assms show ?thesis by (auto simp: table_ok_def sized_ok_def)
    qed
    show ?thesis
    proof (cases ?reserve)
      case True
      with reserve_one_ok [OF assms] search show ?thesis by auto
    next
      case False
      show ?thesis
      proof (cases "t_indices t = []")
        case True
        then have "index_dynamic H h (index_static h) t = Some (index_new (index_static h) h, t)"
          using False by (simp add: index_dynamic_def)
        with idx plain show ?thesis by simp
      next
        case ne: False
        then have "linked H t" using assms by (simp add: table_ok_def)
        with False search [of "t_mask t" "t_indices t"] show ?thesis by simp
      qed
    qed
  qed
  show ?thesis
  proof (cases "skip_value_index h \<or> header_len h * 4 > t_max_size t * 3")
    case True
    have "table_index H h t = Some (index_new (index_static h) h, t)"
    proof (cases "index_static h")
      case (Some p)
      with True show ?thesis by (cases p; cases "snd p") (auto simp: table_index_def Let_def)
    qed (use True in \<open>auto simp: table_index_def Let_def\<close>)
    then show ?thesis by (rule plain)
  next
    case False
    then have fits: "header_len h \<le> t_max_size t" by linarith
    show ?thesis
    proof (cases "\<exists>n. index_static h = Some (n, True)")
      case True
      then show ?thesis using indexed by blast
    next
      case no: False
      have "table_index H h t = index_dynamic H h (index_static h) t"
      proof (cases "index_static h")
        case (Some p)
        with no False show ?thesis by (cases p; cases "snd p") (auto simp: table_index_def Let_def)
      qed (use False in \<open>auto simp: table_index_def Let_def\<close>)
      then show ?thesis by (rule dynamic [OF fits])
    qed
  qed
qed

lemma table_resize_ok:
  assumes "table_ok H t" "n < 2 ^ 32"
  shows "\<exists>t'. table_resize n t = Some t' \<and> table_ok H t' \<and> t_max_size t' = n
    \<and> table_headers t' = fitting n (table_headers t)"
proof (cases "n = 0")
  case True
  let ?t = "t\<lparr>t_max_size := 0, t_size := 0, t_indices := map (\<lambda>_. None) (t_indices t), t_slots := [], t_inserted := 0\<rparr>"
  have "linked H ?t \<or> t_indices ?t = []"
  proof (cases "linked H t")
    case True
    have "sized (t_mask t) (replicate (length (t_indices t)) (None :: pos option))"
      by (rule sized_length [OF linked_sized [OF True]]) simp
    from linked_empty [OF this, of H "t\<lparr>t_size := 0, t_inserted := 0\<rparr>"]
    have "linked H (t\<lparr>t_size := 0, t_inserted := 0, t_mask := t_mask t,
        t_indices := replicate (length (t_indices t)) None, t_slots := []\<rparr>)" by simp
    then have "linked H (t\<lparr>t_size := 0, t_inserted := 0, t_mask := t_mask t,
        t_indices := replicate (length (t_indices t)) None, t_slots := []\<rparr>\<lparr>t_max_size := 0\<rparr>)" by (simp only: linked_size)
    then show ?thesis by (cases t) (simp add: map_replicate_const)
  qed (use assms(1) in \<open>simp add: table_ok_def\<close>)
  moreover have "fitting 0 hs = []" for hs
    using header_len_pos by (cases hs) (auto simp: not_le)
  ultimately show ?thesis using True by (auto simp: table_resize_def table_ok_def table_headers_def)
next
  case False
  let ?t = "t\<lparr>t_max_size := n\<rparr>"
  have size: "t_size ?t = 0 + entries_size (table_headers ?t)"
    using assms(1) by (simp add: table_ok_def table_headers_def)
  show ?thesis
  proof (cases "linked H t")
    case True
    then have lt: "linked H ?t" by simp
    obtain b ss ys where c: "converge_loop None False ?t =
          Some (b, ?t\<lparr>t_slots := ss, t_size := entries_size (map slot_header ss), t_indices := ys\<rparr>)"
      "linked H (?t\<lparr>t_slots := ss, t_size := entries_size (map slot_header ss), t_indices := ys\<rparr>)"
      and headers: "map slot_header ss = fitting (t_max_size ?t) (table_headers ?t)"
      using converge_ok [where ret = False, OF lt size le0, unfolded add_0 minus_nat.diff_0] by blast
    have c3: "map slot_header ss = fitting n (table_headers t)" using headers by (simp add: table_headers_def)
    let ?u = "?t\<lparr>t_slots := ss, t_size := entries_size (map slot_header ss), t_indices := ys\<rparr>"
    have "table_ok H ?u"
      unfolding table_ok_def using c(2) c3 assms(2) entries_size_fitting [of n "table_headers t"]
      by (simp add: table_headers_def)
    moreover have "table_resize n t = Some ?u"
      using False c(1) by (simp add: table_resize_def converge_def)
    ultimately show ?thesis using c3 by (simp add: table_headers_def)
  next
    case no: False
    then have e: "t_indices t = []" "t_slots t = []" using assms(1) by (auto simp: table_ok_def)
    with size have "converge_loop None False ?t = Some (False, ?t)"
      by (simp add: table_headers_def converge_loop.simps)
    with False e assms size show ?thesis
      by (simp add: table_resize_def converge_def table_ok_def table_headers_def)
  qed
qed

lemma next_power_of_two_eq: "\<exists>j. next_power_of_two n = 2 ^ j \<and> (2 ^ j < 2 * n \<or> n \<le> 1 \<and> j = 0)"
proof -
  let ?j = "length (takeWhile (\<lambda>k. 2 ^ k < n) [0..<n])"
  have "(2 :: nat) ^ ?j < 2 * n \<or> n \<le> 1 \<and> ?j = 0"
  proof (cases ?j)
    case 0
    then show ?thesis by (cases "n \<le> 1") auto
  next
    case (Suc i)
    then have "i < length (takeWhile (\<lambda>k. 2 ^ k < n) [0..<n])" by simp
    moreover from this have "i < n" using length_takeWhile_le [of "\<lambda>k. 2 ^ k < n" "[0..<n]"] by simp
    moreover have "2 ^ (takeWhile (\<lambda>k. 2 ^ k < n) [0..<n] ! i) < n"
      using set_takeWhileD [OF nth_mem [OF calculation(1)]] by blast
    ultimately have "2 ^ (takeWhile (\<lambda>k. 2 ^ k < n) [0..<n] ! i) < n" "i < n" by blast+
    then show ?thesis using Suc \<open>i < length (takeWhile (\<lambda>k. 2 ^ k < n) [0..<n])\<close> by (simp add: takeWhile_nth)
  qed
  then show ?thesis by (auto simp: next_power_of_two_def)
qed

lemma enc_table_new_ok:
  assumes "m < 2 ^ 32" "c < 2 ^ 32"
  shows "table_ok H (enc_table_new m c)" "table_headers (enc_table_new m c) = []" "t_max_size (enc_table_new m c) = m"
proof -
  show "table_headers (enc_table_new m c) = []" "t_max_size (enc_table_new m c) = m"
    by (simp_all add: enc_table_new_def table_headers_def Let_def)
  show "table_ok H (enc_table_new m c)"
  proof (cases "c = 0")
    case True
    with assms show ?thesis by (simp add: enc_table_new_def table_ok_def table_headers_def)
  next
    case False
    obtain j where j: "next_power_of_two (to_raw_capacity c) = 2 ^ j"
      "2 ^ j < 2 * to_raw_capacity c \<or> to_raw_capacity c \<le> 1 \<and> j = 0"
      using next_power_of_two_eq by blast
    have "(2 :: nat) ^ j < 2 ^ 35" using j(2) assms(2) by (auto simp: to_raw_capacity_def)
    then have "j < 35" by (rule power_less_imp_less_exp [rotated]) simp
    have max: "max (2 ^ j) 8 = (2 :: nat) ^ max j 3"
    proof (cases "3 \<le> j")
      case True
      then have "(2 :: nat) ^ 3 \<le> 2 ^ j" by (intro power_increasing) auto
      with True show ?thesis by simp
    next
      case False
      then have "(2 :: nat) ^ j \<le> 2 ^ 3" by (intro power_increasing) auto
      with False show ?thesis by simp
    qed
    let ?n = "max (2 ^ j) 8 :: nat"
    have "sized (of_nat ?n - 1) (replicate ?n (None :: pos option))"
      unfolding sized_def max using \<open>j < 35\<close>
      by (intro exI [of _ "max j 3"]) (simp add: mask_eq_exp_minus_1)
    from linked_empty [OF this, of H "\<lparr>t_mask = 0, t_indices = [], t_slots = [], t_inserted = 0, t_size = 0, t_max_size = m\<rparr>"]
    show ?thesis using False j(1) assms(1)
      by (simp add: enc_table_new_def table_ok_def table_headers_def Let_def)
  qed
qed

text \<open>
  C24: on a table in order \<open>index\<close> returns (it neither panics nor loops) and leaves the
  table in order. The index it returns stands for the header: an index into the static or dynamic table has the
  name and, where it stands for the whole header, the value; a header that was inserted is the newest entry, the
  other entries are the newest of the old ones that fit.
\<close>

theorem table_index_refines:
  assumes "table_ok H t"
  shows "\<exists>ix t'. table_index H h t = Some (ix, t') \<and> table_ok H t' \<and> t_max_size t' = t_max_size t
    \<and> indexed_as (t_max_size t) h (table_headers t) ix (table_headers t')"
  by (rule table_index_step [OF assms])

lemma table_index_refines_witness:
  "\<exists>ix t'. table_index (\<lambda>_. 7) (Header_Field (ascii ''x'') \<lparr>hv_bytes = ascii ''y'', hv_sensitive = False\<rparr>)
      (enc_table_new 4096 0) = Some (ix, t')
    \<and> table_ok (\<lambda>_. 7) t' \<and> t_max_size t' = 4096
    \<and> indexed_as 4096 (Header_Field (ascii ''x'') \<lparr>hv_bytes = ascii ''y'', hv_sensitive = False\<rparr>) [] ix (table_headers t')"
  using table_index_refines [OF enc_table_new_ok(1) [of 4096 0 "\<lambda>_. 7"]]
  by (simp add: enc_table_new_ok(2,3))

end
