(* ===== verification/Hpack_Encoder.thy ===== *)
theory Hpack_Encoder
  imports Hpack_Table Hpack_Block
begin

text \<open>
  The HPACK encoder (\<open>h2/hpack/encoder.rs\<close>): strings, representations, table size updates and header
  blocks that may continue in the next frame. The operations of \<open>Hpack_Table\<close> may panic (\<open>None\<close>), which is a
  \<open>Panic\<close> here.
\<close>

section \<open>Strings\<close>

text \<open>
  \<open>encode_str\<close> writes the Huffman code behind a place holder for its length; when the length needs more than
  one byte the code is moved up, from its end.
\<close>

fun move_up :: "nat \<Rightarrow> nat \<Rightarrow> nat \<Rightarrow> bytes \<Rightarrow> bytes" where
  "move_up idx head_len 0 written = written"
| "move_up idx head_len (Suc n) written =
     (let src_i = idx + 1 + n; dst_i = idx + head_len + n
      in move_up idx head_len n (written[dst_i := written ! src_i]))"

fun write_head :: "nat \<Rightarrow> bytes \<Rightarrow> bytes \<Rightarrow> bytes" where
  "write_head idx [] written = written"
| "write_head idx (b # buf) written = write_head (idx + 1) buf (written[idx := b])"

definition PLACEHOLDER_LEN :: nat where
  "PLACEHOLDER_LEN = 8"

definition write_str_len :: "nat \<Rightarrow> nat \<Rightarrow> (dst_buf, unit, encoder_error) op" where
  "write_str_len idx huff_len d =
     (if encode_int_one_byte huff_len 7
      then (Ok (), d\<lparr>dst_bytes := (dst_bytes d)[idx := 0x80 OR word_of_nat huff_len]\<rparr>)
      else
        (case encode_int huff_len 7 0x80 \<lparr>dst_bytes = [], dst_room = PLACEHOLDER_LEN\<rparr> of
           (Ok _, head) \<Rightarrow>
             let buf = dst_bytes head; head_len = length buf in
             if dst_room d < head_len then (Err BufferOverflow, d)
             else
               sbind (put_slice (drop 1 buf)) (\<lambda>_ d.
                 (Ok (), d\<lparr>dst_bytes := write_head idx buf (move_up idx head_len huff_len (dst_bytes d))\<rparr>)) d
         | (Err e, _) \<Rightarrow> (Err e, d)
         | (Panic, _) \<Rightarrow> (Panic, d)))"

definition encode_str :: "bytes \<Rightarrow> (dst_buf, unit, encoder_error) op" where
  "encode_str v d =
     (if dst_room d = 0 then (Err BufferOverflow, d)
      else if v \<noteq> [] then
        let idx = length (dst_bytes d) in
        sbind (put_u8 0) (\<lambda>_.
        sbind (huffman_encode v) (\<lambda>_ d.
          write_str_len idx (length (dst_bytes d) - (idx + 1)) d)) d
      else put_u8 0 d)"

section \<open>Representations\<close>

definition encode_size_update :: "nat \<Rightarrow> (dst_buf, unit, encoder_error) op" where
  "encode_size_update v = encode_int v 5 0x20"

definition encode_not_indexed :: "nat \<Rightarrow> bytes \<Rightarrow> bool \<Rightarrow> (dst_buf, unit, encoder_error) op" where
  "encode_not_indexed name v sensitive =
     sbind (if sensitive then encode_int name 4 0x10 else encode_int name 4 0) (\<lambda>_. encode_str v)"

definition encode_not_indexed2 :: "bytes \<Rightarrow> bytes \<Rightarrow> bool \<Rightarrow> (dst_buf, unit, encoder_error) op" where
  "encode_not_indexed2 name v sensitive d =
     (if dst_room d = 0 then (Err BufferOverflow, d)
      else
        sbind (if sensitive then put_u8 0x10 else put_u8 0) (\<lambda>_.
        sbind (encode_str name) (\<lambda>_. encode_str v)) d)"

definition on_header :: "enc_table \<Rightarrow> index \<Rightarrow> (bytes header \<Rightarrow> (dst_buf, unit, encoder_error) op) \<Rightarrow>
    (dst_buf, unit, encoder_error) op" where
  "on_header t ix f = (case resolve t ix of Some h \<Rightarrow> f h | None \<Rightarrow> spanic)"

fun encode_header :: "enc_table \<Rightarrow> index \<Rightarrow> (dst_buf, unit, encoder_error) op" where
  "encode_header t (Ix_Indexed idx h) = encode_int idx 7 0x80"
| "encode_header t (Ix_Name idx h) = encode_not_indexed idx (value_slice h) (is_sensitive h)"
| "encode_header t (Ix_Inserted s) =
     on_header t (Ix_Inserted s) (\<lambda>h d.
       if is_sensitive h then (Panic, d)
       else if dst_room d = 0 then (Err BufferOverflow, d)
       else
         sbind (put_u8 0x40) (\<lambda>_.
         sbind (encode_str (name_slice (header_name h))) (\<lambda>_. encode_str (value_slice h))) d)"
| "encode_header t (Ix_InsertedValue idx s) =
     on_header t (Ix_InsertedValue idx s) (\<lambda>h d.
       if is_sensitive h then (Panic, d)
       else sbind (encode_int idx 6 0x40) (\<lambda>_. encode_str (value_slice h)) d)"
| "encode_header t (Ix_NotIndexed h) =
     encode_not_indexed2 (name_slice (header_name h)) (value_slice h) (is_sensitive h)"

definition encode_header_without_name ::
  "enc_table \<Rightarrow> index \<Rightarrow> hvalue \<Rightarrow> (dst_buf, unit, encoder_error) op" where
  "encode_header_without_name t ix v =
     (case ix of
        Ix_NotIndexed h \<Rightarrow>
          encode_not_indexed2 (name_slice (header_name h)) (hv_bytes v) (hv_sensitive v)
      | _ \<Rightarrow>
          (case resolve_idx ix of
             Some idx \<Rightarrow> encode_not_indexed idx (hv_bytes v) (hv_sensitive v)
           | None \<Rightarrow> spanic))"

section \<open>The encoder\<close>

datatype size_update = One nat | Two nat nat

record encoder =
  enc_table_of :: enc_table
  enc_size_update :: "size_update option"

record encode_state =
  es_index :: index
  es_value :: "hvalue option"

datatype encode_outcome = Full | Partial encode_state

definition encoder_new :: "nat \<Rightarrow> nat \<Rightarrow> encoder" where
  "encoder_new max_size capacity = \<lparr>enc_table_of = enc_table_new max_size capacity, enc_size_update = None\<rparr>"

definition update_max_size :: "nat \<Rightarrow> encoder \<Rightarrow> encoder" where
  "update_max_size v e =
     (case enc_size_update e of
        Some (One old) \<Rightarrow>
          if v > old then
            (if old > t_max_size (enc_table_of e) then e\<lparr>enc_size_update := Some (One v)\<rparr>
             else e\<lparr>enc_size_update := Some (Two old v)\<rparr>)
          else e\<lparr>enc_size_update := Some (One v)\<rparr>
      | Some (Two lo _) \<Rightarrow>
          if v < lo then e\<lparr>enc_size_update := Some (One v)\<rparr>
          else e\<lparr>enc_size_update := Some (Two lo v)\<rparr>
      | None \<Rightarrow>
          if v \<noteq> t_max_size (enc_table_of e) then e\<lparr>enc_size_update := Some (One v)\<rparr> else e)"

definition rewind :: "nat \<Rightarrow> dst_buf \<Rightarrow> dst_buf" where
  "rewind pos d = d\<lparr>dst_bytes := take pos (dst_bytes d)\<rparr>"

text \<open>The operations of the encoder work on the encoder and the buffer.\<close>

definition resize_table :: "nat \<Rightarrow> (encoder \<times> dst_buf, unit, encoder_error) op" where
  "resize_table n s =
     (case s of (e, d) \<Rightarrow>
        (case table_resize n (enc_table_of e) of
           Some t \<Rightarrow> (Ok (), e\<lparr>enc_table_of := t\<rparr>, d)
         | None \<Rightarrow> (Panic, e, d)))"

definition on_dst :: "(dst_buf, 'a, 'e) op \<Rightarrow> ('x \<times> dst_buf, 'a, 'e) op" where
  "on_dst m s = (case s of (e, d) \<Rightarrow> (case m d of (r, d) \<Rightarrow> (r, e, d)))"

definition encode_size_updates :: "(encoder \<times> dst_buf, unit, encoder_error) op" where
  "encode_size_updates s =
     (case s of (e, d) \<Rightarrow>
        let s = (e\<lparr>enc_size_update := None\<rparr>, d) in
        (case enc_size_update e of
           Some (One v) \<Rightarrow> sbind (resize_table v) (\<lambda>_. on_dst (encode_size_update v)) s
         | Some (Two lo hi) \<Rightarrow>
             sbind (resize_table lo) (\<lambda>_.
             sbind (resize_table hi) (\<lambda>_.
             sbind (on_dst (encode_size_update lo)) (\<lambda>_. on_dst (encode_size_update hi)))) s
         | None \<Rightarrow> (Ok (), s)))"

text \<open>
  The loop over the headers. The state is the table, what is left of the iterator and the buffer; the
  outcome \<open>None\<close> is a panic.
\<close>

fun encode_headers ::
  "(hname \<Rightarrow> u64) \<Rightarrow> index option \<Rightarrow> bytes option header list \<Rightarrow> enc_table \<Rightarrow> dst_buf \<Rightarrow>
     (encode_outcome \<times> bytes option header list \<times> enc_table \<times> dst_buf) option" where
  "encode_headers H last_index [] t d = Some (Full, [], t, d)"
| "encode_headers H last_index (header # headers) t d =
     (case reify header of
        Ok header \<Rightarrow>
          (case table_index H header t of
             None \<Rightarrow> None
           | Some (index, t) \<Rightarrow>
               (case encode_header t index d of
                  (Ok _, d) \<Rightarrow> encode_headers H (Some index) headers t d
                | (Err _, d') \<Rightarrow>
                    Some (Partial \<lparr>es_index = index, es_value = None\<rparr>, headers, t,
                      rewind (length (dst_bytes d)) d')
                | (Panic, _) \<Rightarrow> None))
      | Err v \<Rightarrow>
          (case last_index of
             None \<Rightarrow> None
           | Some index \<Rightarrow>
               (case encode_header_without_name t index v d of
                  (Ok _, d) \<Rightarrow> encode_headers H last_index headers t d
                | (Err _, d') \<Rightarrow>
                    Some (Partial \<lparr>es_index = index, es_value = Some v\<rparr>, headers, t,
                      rewind (length (dst_bytes d)) d')
                | (Panic, _) \<Rightarrow> None))
      | Panic \<Rightarrow> None)"

definition encode ::
  "(hname \<Rightarrow> u64) \<Rightarrow> encode_state option \<Rightarrow> bytes option header list \<Rightarrow> encoder \<Rightarrow> dst_buf \<Rightarrow>
     (encode_outcome \<times> bytes option header list \<times> encoder \<times> dst_buf) option" where
  "encode H resume headers e d =
     (case encode_size_updates (e, d) of
        (Ok _, e, d) \<Rightarrow>
          let finish = (\<lambda>last_index d.
            map_option (\<lambda>(r, hs, t, d). (r, hs, e\<lparr>enc_table_of := t\<rparr>, d))
              (encode_headers H last_index headers (enc_table_of e) d))
          in (case resume of
                None \<Rightarrow> finish None d
              | Some resume \<Rightarrow>
                  (case (case es_value resume of
                           Some v \<Rightarrow> encode_header_without_name (enc_table_of e) (es_index resume) v d
                         | None \<Rightarrow> encode_header (enc_table_of e) (es_index resume) d) of
                     (Ok _, d) \<Rightarrow> finish (Some (es_index resume)) d
                   | (Err _, d') \<Rightarrow> Some (Partial resume, headers, e, rewind (length (dst_bytes d)) d')
                   | (Panic, _) \<Rightarrow> None))
      | (_, _, _) \<Rightarrow> None)"

section \<open>Writing as appending\<close>

text \<open>
  \<open>writes bs m\<close>: the operation appends \<open>bs\<close>, or there is not more room than that and it reports the overflow
  with what was in the buffer untouched.
\<close>

definition writes :: "bytes \<Rightarrow> (dst_buf, unit, encoder_error) op \<Rightarrow> bool" where
  "writes bs m \<longleftrightarrow> (\<forall>d.
     m d = (Ok (), d\<lparr>dst_bytes := dst_bytes d @ bs, dst_room := dst_room d - length bs\<rparr>) \<and> length bs \<le> dst_room d
     \<or> (\<exists>e d'. m d = (Err e, d') \<and> take (length (dst_bytes d)) (dst_bytes d') = dst_bytes d
          \<and> dst_room d \<le> length bs))"

named_theorems writes_rules \<open>operations that append\<close>

lemma writesD:
  assumes "writes bs m"
  obtains (fits) "m d = (Ok (), d\<lparr>dst_bytes := dst_bytes d @ bs, dst_room := dst_room d - length bs\<rparr>)"
      "length bs \<le> dst_room d"
    | (full) e d' where "m d = (Err e, d')" "take (length (dst_bytes d)) (dst_bytes d') = dst_bytes d"
      "dst_room d \<le> length bs"
  using assms unfolding writes_def by metis

lemma writes_put_all [writes_rules]: "writes bs (put_all bs)"
  by (auto simp: writes_def put_all_def put_slice_def)

lemma writes_sbind [writes_rules]:
  assumes "writes a m" "writes b n"
  shows "writes (a @ b) (sbind m (\<lambda>_. n))"
  unfolding writes_def
proof
  fix d
  let ?goal = "sbind m (\<lambda>_. n) d = (Ok (), d\<lparr>dst_bytes := dst_bytes d @ a @ b, dst_room := dst_room d - length (a @ b)\<rparr>)
      \<and> length (a @ b) \<le> dst_room d
    \<or> (\<exists>e d'. sbind m (\<lambda>_. n) d = (Err e, d') \<and> take (length (dst_bytes d)) (dst_bytes d') = dst_bytes d
        \<and> dst_room d \<le> length (a @ b))"
  from assms(1) show ?goal
  proof (cases rule: writesD [where d = d])
    case fits
    let ?d = "d\<lparr>dst_bytes := dst_bytes d @ a, dst_room := dst_room d - length a\<rparr>"
    from assms(2) show ?thesis
    proof (cases rule: writesD [where d = ?d])
      case fits2: fits
      with fits show ?thesis by simp
    next
      case (full e d')
      have "take (length (dst_bytes d)) (dst_bytes d') = take (length (dst_bytes d)) (take (length (dst_bytes ?d)) (dst_bytes d'))"
        by simp
      also have "\<dots> = dst_bytes d" unfolding full(2) by simp
      finally show ?thesis using fits full(1,3) by (intro disjI2) auto
    qed
  next
    case (full e d')
    then show ?thesis by (intro disjI2) simp
  qed
qed

lemma writes_cong: "writes bs m \<Longrightarrow> (\<And>d. m' d = m d) \<Longrightarrow> writes bs m'"
  by (simp add: writes_def)

lemma writes_encode_int [writes_rules]:
  "v \<le> 2 ^ k - 1 + 0x0fffffff \<Longrightarrow> writes (int_bytes v k first) (encode_int v k first)"
  by (rule writes_cong [OF writes_put_all]) (rule encode_int_eq)

lemma writes_if [writes_rules]:
  "(c \<Longrightarrow> writes bs m) \<Longrightarrow> (\<not> c \<Longrightarrow> writes bs m') \<Longrightarrow> writes bs (if c then m else m')"
  by simp

text \<open>An operation that writes at least a byte may check for room first.\<close>

lemma writes_check:
  assumes "writes bs m" "bs \<noteq> []"
  shows "writes bs (\<lambda>d. if dst_room d = 0 then (Err BufferOverflow, d) else m d)"
  using assms by (auto simp: writes_def)

lemma put_u8_put_all: "dst_room d \<noteq> 0 \<Longrightarrow> put_u8 b d = put_all [b] d"
  by (simp add: put_all_single)

section \<open>Strings\<close>

definition string_of :: "bytes \<Rightarrow> hstring" where
  "string_of s = (if s = [] then Plain [] else Coded s)"

definition string_ok :: "bytes \<Rightarrow> bool" where
  "string_ok s \<longleftrightarrow> length (pack (huffman_code s)) \<le> 0x0fffffff"

lemma string_of_simps [simp]: "hs_value (string_of s) = s" "string_ok s \<Longrightarrow> hs_ok (string_of s)"
  by (simp_all add: string_of_def string_ok_def)

lemma length_move_up [simp]: "length (move_up idx hl n w) = length w"
  by (induction n arbitrary: w) (simp_all add: Let_def)

lemma nth_move_up:
  "1 \<le> hl \<Longrightarrow> idx + hl + n \<le> length w \<Longrightarrow> j < length w \<Longrightarrow>
     move_up idx hl n w ! j = (if idx + hl \<le> j \<and> j < idx + hl + n then w ! (j - hl + 1) else w ! j)"
proof (induction n arbitrary: w)
  case (Suc n)
  let ?w = "w[idx + hl + n := w ! (idx + 1 + n)]"
  have "move_up idx hl (Suc n) w ! j = move_up idx hl n ?w ! j" by (simp add: Let_def)
  also have "\<dots> = (if idx + hl \<le> j \<and> j < idx + hl + n then ?w ! (j - hl + 1) else ?w ! j)"
    using Suc.prems by (intro Suc.IH) simp_all
  also have "\<dots> = (if idx + hl \<le> j \<and> j < idx + hl + Suc n then w ! (j - hl + 1) else w ! j)"
  proof (cases "j = idx + hl + n")
    case True
    then have "j - hl + 1 = idx + 1 + n" by simp
    with True Suc.prems show ?thesis by simp
  next
    case False
    with Suc.prems show ?thesis by auto
  qed
  finally show ?case .
qed auto

lemma write_head_eq:
  "idx + length buf \<le> length w \<Longrightarrow> write_head idx buf w = take idx w @ buf @ drop (idx + length buf) w"
proof (induction buf arbitrary: idx w)
  case (Cons b buf)
  have "write_head (idx + 1) buf (w[idx := b]) =
      take (idx + 1) (w[idx := b]) @ buf @ drop (idx + 1 + length buf) (w[idx := b])"
    using Cons.prems by (intro Cons.IH) simp
  moreover have "take (idx + 1) (w[idx := b]) = take idx w @ [b]"
    using Cons.prems by (simp add: take_Suc_conv_app_nth)
  ultimately show ?case by simp
qed simp

lemma move_up_string:
  assumes "buf \<noteq> []"
  shows "write_head (length a) buf (move_up (length a) (length buf) (length p) (a @ [x] @ p @ drop 1 buf)) = a @ buf @ p"
proof -
  let ?w = "a @ [x] @ p @ drop 1 buf"
  let ?m = "move_up (length a) (length buf) (length p) ?w"
  have len: "length ?w = length a + length buf + length p" using assms by (cases buf) auto
  have hl: "1 \<le> length buf" using assms by (cases buf) auto
  have "take (length a) ?m = a"
    using len hl by (intro nth_equalityI) (auto simp: nth_move_up nth_append)
  moreover have "drop (length a + length buf) ?m = p"
  proof (intro nth_equalityI)
    show "length (drop (length a + length buf) ?m) = length p" using len by simp
    fix i assume "i < length (drop (length a + length buf) ?m)"
    then have i: "i < length p" using len by simp
    then have "drop (length a + length buf) ?m ! i = ?m ! (length a + length buf + i)" using len by simp
    also have "\<dots> = ?w ! (length a + 1 + i)" using len hl i by (subst nth_move_up) auto
    finally show "drop (length a + length buf) ?m ! i = p ! i" using i by (simp add: nth_append)
  qed
  ultimately show ?thesis using len by (subst write_head_eq) simp_all
qed

lemma int_bytes_ne: "int_bytes v k f \<noteq> []"
  by (simp add: int_bytes_def)

lemma length_int_bytes: "v \<le> 2 ^ k - 1 + 0x0fffffff \<Longrightarrow> length (int_bytes v k f) \<le> 5"
  using length_varint [of "v - (2 ^ k - 1)" 4] by (auto simp: int_bytes_def)

lemma length_varint_pos: "1 \<le> length (varint v)"
  by (subst varint.simps) simp

lemma write_str_len_ok:
  assumes "length p \<le> 2 ^ 7 - 1 + 0x0fffffff" "dst_bytes d = a @ [0] @ p"
  defines "head \<equiv> int_bytes (length p) 7 0x80"
  shows "write_str_len (length a) (length p) d =
    (if length head = 1 \<or> length head \<le> dst_room d
     then (Ok (), d\<lparr>dst_bytes := a @ head @ p, dst_room := dst_room d - (length head - 1)\<rparr>)
     else (Err BufferOverflow, d))"
proof (cases "encode_int_one_byte (length p) 7")
  case True
  then show ?thesis using assms(2) by (simp add: write_str_len_def head_def int_bytes_def list_update_append)
next
  case False
  have "2 \<le> length head"
    using False length_varint_pos [of "length p - (2 ^ 7 - 1)"] by (simp add: head_def int_bytes_def)
  moreover have "length head \<le> 5" unfolding head_def by (rule length_int_bytes [OF assms(1)])
  ultimately have "encode_int (length p) 7 0x80 \<lparr>dst_bytes = [], dst_room = PLACEHOLDER_LEN\<rparr>
      = (Ok (), \<lparr>dst_bytes = head, dst_room = PLACEHOLDER_LEN - length head\<rparr>)"
    by (simp add: encode_int_eq [OF assms(1)] put_all_def put_slice_def PLACEHOLDER_LEN_def head_def)
  moreover have "write_head (length a) head (move_up (length a) (length head) (length p) (a @ [0] @ p @ drop 1 head))
      = a @ head @ p"
    unfolding head_def by (rule move_up_string [OF int_bytes_ne])
  ultimately show ?thesis using False assms(2) \<open>2 \<le> length head\<close>
    by (auto simp: write_str_len_def put_slice_def sbind_def Let_def)
qed

lemma writes_encode_str [writes_rules]:
  assumes "string_ok s"
  shows "writes (hs_bytes (string_of s)) (encode_str s)"
proof (cases "s = []")
  case True
  then have "hs_bytes (string_of s) = [0]" by (simp add: string_of_def int_bytes_def encode_int_one_byte_def)
  then show ?thesis
    using True by (auto simp: writes_def encode_str_def put_u8_def put_slice_def)
next
  case False
  let ?p = "pack (huffman_code s)"
  let ?head = "int_bytes (length ?p) 7 0x80"
  let ?hs = "?head @ ?p"
  have hs: "hs_bytes (string_of s) = ?hs" using False by (simp add: string_of_def Let_def)
  have bound: "length ?p \<le> 2 ^ 7 - 1 + 0x0fffffff" using assms by (simp add: string_ok_def)
  have "?head \<noteq> []" by (rule int_bytes_ne)
  then have len: "1 \<le> length ?head" by (cases ?head) auto
  show ?thesis
    unfolding writes_def hs
  proof
    fix d :: dst_buf
    let ?d1 = "d\<lparr>dst_bytes := dst_bytes d @ [0], dst_room := dst_room d - 1\<rparr>"
    let ?goal = "encode_str s d = (Ok (), d\<lparr>dst_bytes := dst_bytes d @ ?hs, dst_room := dst_room d - length ?hs\<rparr>)
        \<and> length ?hs \<le> dst_room d
      \<or> (\<exists>e d'. encode_str s d = (Err e, d') \<and> take (length (dst_bytes d)) (dst_bytes d') = dst_bytes d
          \<and> dst_room d \<le> length ?hs)"
    show ?goal
    proof (cases "dst_room d = 0")
      case True
      then show ?thesis by (simp add: encode_str_def)
    next
      case room: False
      then have run: "encode_str s d = sbind (put_all ?p) (\<lambda>_ d'.
          write_str_len (length (dst_bytes d)) (length (dst_bytes d') - (length (dst_bytes d) + 1)) d') ?d1"
        using False by (simp add: encode_str_def put_u8_Ok huffman_encode_eq sbind_def Let_def)
      show ?thesis
      proof (cases "length ?p \<le> dst_room d - 1")
        case fits: False
        then have "encode_str s d = (Err BufferOverflow,
            ?d1\<lparr>dst_bytes := dst_bytes ?d1 @ take (dst_room ?d1) ?p, dst_room := 0\<rparr>)"
          unfolding run by (simp add: put_all_def)
        with fits len show ?thesis by auto
      next
        case True
        let ?d2 = "d\<lparr>dst_bytes := dst_bytes d @ [0] @ ?p, dst_room := dst_room d - 1 - length ?p\<rparr>"
        have "encode_str s d = write_str_len (length (dst_bytes d)) (length ?p) ?d2"
          unfolding run using True by (simp add: put_all_def put_slice_def)
        also have "\<dots> = (if length ?head = 1 \<or> length ?head \<le> dst_room ?d2
            then (Ok (), ?d2\<lparr>dst_bytes := dst_bytes d @ ?hs, dst_room := dst_room ?d2 - (length ?head - 1)\<rparr>)
            else (Err BufferOverflow, ?d2))"
          by (rule write_str_len_ok [OF bound]) simp
        finally have "encode_str s d = \<dots>" .
        moreover have "dst_room ?d2 - (length ?head - 1) = dst_room d - length ?hs"
          using len by simp
        ultimately show ?thesis using len True room by auto
      qed
    qed
  qed
qed

section \<open>Headers and representations\<close>

definition kind_of :: "bool \<Rightarrow> literal" where
  "kind_of sensitive = (if sensitive then Never else Without)"

lemma kind_of_prefix: "literal_prefix (kind_of b) = 4"
  by (simp add: kind_of_def)

lemma remember_kind_of: "remember (kind_of b) h t = t"
  by (simp add: kind_of_def)

text \<open>The representation an index is written as.\<close>

fun rep_of :: "bytes header \<Rightarrow> index \<Rightarrow> rep" where
  "rep_of h (Ix_Indexed n _) = RIndexed n"
| "rep_of h (Ix_Name n _) = RNamed (kind_of (is_sensitive h)) n (string_of (value_slice h))"
| "rep_of h (Ix_Inserted _) = RNew Incremental (string_of (name_slice (header_name h))) (string_of (value_slice h))"
| "rep_of h (Ix_InsertedValue n _) = RNamed Incremental n (string_of (value_slice h))"
| "rep_of h (Ix_NotIndexed _) =
     RNew (kind_of (is_sensitive h)) (string_of (name_slice (header_name h))) (string_of (value_slice h))"

definition strings_ok :: "bytes header \<Rightarrow> bool" where
  "strings_ok h \<longleftrightarrow> string_ok (name_slice (header_name h)) \<and> string_ok (value_slice h)"

lemma lookup_at_bound: "lookup_at hs n = Some e \<Longrightarrow> 1 \<le> n \<and> n < 62 + length hs"
  by (auto simp: lookup_at_def split: if_splits)

lemma indexed_as_bound:
  assumes "indexed_as m h hs ix hs'" "62 + length hs \<le> 0x0fffffff" "strings_ok h"
  shows "rep_ok (rep_of h ix)"
  using assms
  by (cases ix) (auto simp: header_at_def name_at_def strings_ok_def dest!: lookup_at_bound)

lemma int_bytes_0: "1 \<le> k \<Longrightarrow> int_bytes 0 (k + 1) f = [f]"
proof -
  have "(2 :: nat) ^ 2 \<le> 2 ^ (k + 1)" if "1 \<le> k" using that by (intro power_increasing) auto
  then show "1 \<le> k \<Longrightarrow> int_bytes 0 (k + 1) f = [f]"
    by (simp add: int_bytes_def encode_int_one_byte_def)
qed

lemma int_bytes_0_eval [simp]: "int_bytes 0 4 f = [f]" "int_bytes 0 6 f = [f]"
  using int_bytes_0 [of 3 f] int_bytes_0 [of 5 f] by simp_all

lemma writes_not_indexed [writes_rules]:
  assumes "idx \<le> 2 ^ 4 - 1 + 0x0fffffff" "string_ok v"
  shows "writes (int_bytes idx 4 (literal_pattern (kind_of b)) @ hs_bytes (string_of v)) (encode_not_indexed idx v b)"
  unfolding encode_not_indexed_def
  by (cases b; simp add: kind_of_def; intro writes_rules assms)

lemma writes_put_u8: "writes [b] (\<lambda>d. if dst_room d = 0 then (Err BufferOverflow, d) else put_u8 b d)"
  by (auto simp: writes_def put_u8_def put_slice_def)

text \<open>A byte, and then more, behind one check for room.\<close>

lemma writes_check_put:
  assumes "writes bs m"
  shows "writes (b # bs) (\<lambda>d. if dst_room d = 0 then (Err BufferOverflow, d) else sbind (put_u8 b) (\<lambda>_. m) d)"
proof -
  have "writes ([b] @ bs) (sbind (put_all [b]) (\<lambda>_. m))" by (intro writes_rules assms)
  then have "writes ([b] @ bs) (\<lambda>d. if dst_room d = 0 then (Err BufferOverflow, d) else sbind (put_all [b]) (\<lambda>_. m) d)"
    by (rule writes_check) simp
  moreover have "(if dst_room d = 0 then (Err BufferOverflow, d) else sbind (put_u8 b) (\<lambda>_. m) d) =
      (if dst_room d = 0 then (Err BufferOverflow, d) else sbind (put_all [b]) (\<lambda>_. m) d)" for d
    by (simp add: sbind_def put_all_single)
  ultimately show ?thesis by simp
qed

lemma writes_not_indexed2 [writes_rules]:
  assumes "string_ok n" "string_ok v"
  shows "writes (int_bytes 0 4 (literal_pattern (kind_of b)) @ hs_bytes (string_of n) @ hs_bytes (string_of v))
    (encode_not_indexed2 n v b)"
proof -
  have w: "writes (hs_bytes (string_of n) @ hs_bytes (string_of v)) (sbind (encode_str n) (\<lambda>_. encode_str v))"
    by (intro writes_rules assms)
  have e: "encode_not_indexed2 n v b = (\<lambda>d. if dst_room d = 0 then (Err BufferOverflow, d)
      else sbind (put_u8 (literal_pattern (kind_of b))) (\<lambda>_. sbind (encode_str n) (\<lambda>_. encode_str v)) d)"
    by (intro ext) (simp add: encode_not_indexed2_def kind_of_def)
  show ?thesis unfolding e using writes_check_put [OF w] by simp
qed

text \<open>Encoding an index appends its representation.\<close>

lemma encode_header_writes:
  assumes "indexed_as m h hs ix (table_headers t)" "62 + length hs \<le> 0x0fffffff" "strings_ok h"
  shows "writes (rep_bytes (rep_of h ix)) (encode_header t ix)"
proof (cases ix)
  case (Ix_Indexed n g)
  then have "n \<le> 0x0fffffff" using assms(1,2) by (auto simp: header_at_def dest!: lookup_at_bound)
  then show ?thesis using Ix_Indexed by (simp add: writes_encode_int)
next
  case (Ix_Name n g)
  then have "g = h" "n \<le> 0x0fffffff" using assms(1,2) by (auto simp: name_at_def dest!: lookup_at_bound)
  then have "writes (int_bytes n 4 (literal_pattern (kind_of (is_sensitive h))) @ hs_bytes (string_of (value_slice h)))
      (encode_not_indexed n (value_slice h) (is_sensitive h))"
    using assms(3) by (intro writes_not_indexed) (simp_all add: strings_ok_def)
  then show ?thesis using Ix_Name \<open>g = h\<close> by (simp add: kind_of_prefix)
next
  case (Ix_Inserted s)
  then have "resolve t (Ix_Inserted s) = Some h" "\<not> is_sensitive h"
    using assms(1) by (auto simp: get_def table_headers_def map_eq_Cons_conv)
  moreover have "writes (hs_bytes (string_of (name_slice (header_name h))) @ hs_bytes (string_of (value_slice h)))
      (sbind (encode_str (name_slice (header_name h))) (\<lambda>_. encode_str (value_slice h)))"
    using assms(3) by (intro writes_rules) (auto simp: strings_ok_def)
  ultimately show ?thesis using Ix_Inserted writes_check_put by (simp add: on_header_def del: resolve.simps)
next
  case (Ix_InsertedValue n s)
  then have n: "n \<le> 0x0fffffff" "\<not> is_sensitive h" "resolve t (Ix_InsertedValue n s) = Some h"
    using assms(1,2) by (auto simp: name_at_def get_def table_headers_def map_eq_Cons_conv dest!: lookup_at_bound)
  have "writes (int_bytes n 6 0x40 @ hs_bytes (string_of (value_slice h)))
      (sbind (encode_int n 6 0x40) (\<lambda>_. encode_str (value_slice h)))"
    using n(1) assms(3) by (intro writes_rules) (auto simp: strings_ok_def)
  then show ?thesis using Ix_InsertedValue n by (simp add: on_header_def del: resolve.simps)
next
  case (Ix_NotIndexed g)
  then have "g = h" using assms(1) by simp
  moreover have "writes (int_bytes 0 4 (literal_pattern (kind_of (is_sensitive h)))
      @ hs_bytes (string_of (name_slice (header_name h))) @ hs_bytes (string_of (value_slice h)))
      (encode_not_indexed2 (name_slice (header_name h)) (value_slice h) (is_sensitive h))"
    using assms(3) by (intro writes_not_indexed2) (simp_all add: strings_ok_def)
  ultimately show ?thesis using Ix_NotIndexed by (simp only: encode_header.simps rep_of.simps rep_bytes.simps kind_of_prefix)
qed

section \<open>What the other side understands\<close>

text \<open>The dynamic table of the other side: the same headers, without the flag for sensitive values.\<close>

definition dyn_of_table :: "bytes header list \<Rightarrow> nat \<Rightarrow> dyn" where
  "dyn_of_table hs m = (map received hs, m)"

lemma fitting_received: "fitting n (map received hs) = map received (fitting n hs)"
  by (induction n hs rule: fitting.induct) auto

lemma dyn_insert_received:
  "header_len h \<le> m \<Longrightarrow>
     dyn_insert (received h) (dyn_of_table hs m) = dyn_of_table (h # fitting (m - header_len h) hs) m"
  by (simp add: dyn_of_table_def fitting_received)

lemma static_received: "list_all (\<lambda>h. received h = h) STATIC_HEADERS"
  by (simp add: static_defs)

lemma dyn_get_table:
  assumes "lookup_at hs n = Some e"
  shows "dyn_get n (dyn_of_table hs m) = Ok (received e)"
proof (cases "1 \<le> n \<and> n \<le> 61")
  case True
  then have "received (STATIC_HEADERS ! (n - 1)) = STATIC_HEADERS ! (n - 1)"
    using static_received True unfolding list_all_length by auto
  moreover have "dyn_get n (dyn_of_table hs m) = get_static n" using True by (simp add: dyn_of_table_def)
  ultimately show ?thesis using True assms by (simp add: lookup_at_def get_static_def)
next
  case False
  with assms show ?thesis by (auto simp: lookup_at_def dyn_of_table_def split: if_splits)
qed

lemma received_eqI: "header_name e = header_name h \<Longrightarrow> value_slice e = value_slice h \<Longrightarrow> received e = received h"
  by (cases e; cases h) auto

lemma meaning_rep_of:
  assumes "indexed_as m h hs ix hs'" "header_ok L h"
  shows "meaning L limit cr (rep_of h ix) (dyn_of_table hs m) = Ok (Some (received h), dyn_of_table hs' m)"
proof (cases ix)
  case (Ix_Indexed n g)
  with assms(1) obtain e where e: "lookup_at hs n = Some e" "header_name e = header_name h" "value_slice e = value_slice h"
    "hs' = hs" by (auto simp: header_at_def)
  show ?thesis unfolding Ix_Indexed rep_of.simps meaning.simps dyn_get_table [OF e(1)]
    by (simp add: received_eqI [OF e(2,3)] e(4))
next
  case (Ix_Name n g)
  with assms(1) obtain e where e: "lookup_at hs n = Some e" "header_name e = header_name h" "hs' = hs"
    by (auto simp: name_at_def)
  show ?thesis unfolding Ix_Name rep_of.simps meaning.simps dyn_get_table [OF e(1)]
    by (simp add: e(2,3) into_entry_ok [OF assms(2)] remember_kind_of)
next
  case (Ix_Inserted s)
  then have "header_len h \<le> m" "hs' = h # fitting (m - header_len h) hs" using assms(1) by auto
  then show ?thesis unfolding Ix_Inserted rep_of.simps meaning.simps
    by (simp add: header_new_ok [OF assms(2)] dyn_insert_received del: dyn_insert.simps)
next
  case (Ix_InsertedValue n s)
  with assms(1) obtain e where e: "lookup_at hs n = Some e" "header_name e = header_name h"
    "header_len h \<le> m" "hs' = h # fitting (m - header_len h) hs"
    by (auto simp: name_at_def)
  show ?thesis unfolding Ix_InsertedValue rep_of.simps meaning.simps dyn_get_table [OF e(1)]
    by (simp add: e(2-4) into_entry_ok [OF assms(2)] dyn_insert_received del: dyn_insert.simps)
next
  case (Ix_NotIndexed g)
  then have "hs' = hs" using assms(1) by simp
  then show ?thesis unfolding Ix_NotIndexed rep_of.simps meaning.simps
    by (simp add: header_new_ok [OF assms(2)] remember_kind_of)
qed

end
