(* ===== verification/Hpack_Roundtrip.thy ===== *)
theory Hpack_Roundtrip
  imports Hpack_Encoder
begin

text \<open>
  The encoder against HPACK and against the decoder: the bytes of one call are field representations whose
  meaning, for the table of the other side, are the headers the call was given; a block cut at the room of the
  frames is resumed without loss; table size changes are signalled with the effect they had one by one.
\<close>

section \<open>The headers an iterator stands for\<close>

definition field_name :: "bytes header \<Rightarrow> bytes option" where
  "field_name h = (case h of Header_Field n _ \<Rightarrow> Some n | _ \<Rightarrow> None)"

text \<open>A header without a name repeats the name of the field before it; \<open>None\<close> when there is none.\<close>

fun expanded :: "bytes option \<Rightarrow> bytes option header list \<Rightarrow> bytes header list option" where
  "expanded name [] = Some []"
| "expanded name (h # hs) =
     (case reify h of
        Ok h \<Rightarrow> map_option (Cons h) (expanded (field_name h) hs)
      | Err v \<Rightarrow>
          (case name of
             Some n \<Rightarrow> map_option (Cons (Header_Field n v)) (expanded name hs)
           | None \<Rightarrow> None)
      | Panic \<Rightarrow> None)"

lemma field_nameD: "field_name h = Some n \<Longrightarrow> header_name h = Name_Field n"
  by (cases h) (auto simp: field_name_def)

section \<open>A header without its name\<close>

fun rep_again :: "index \<Rightarrow> hvalue \<Rightarrow> rep" where
  "rep_again (Ix_NotIndexed h) v =
     RNew (kind_of (hv_sensitive v)) (string_of (name_slice (header_name h))) (string_of (hv_bytes v))"
| "rep_again ix v = RNamed (kind_of (hv_sensitive v)) (the (resolve_idx ix)) (string_of (hv_bytes v))"

text \<open>The index gives the name \<open>n\<close>, for a table with the entries \<open>hs\<close>.\<close>

definition named_by :: "bytes header list \<Rightarrow> index \<Rightarrow> hname \<Rightarrow> bool" where
  "named_by hs ix n \<longleftrightarrow> (case resolve_idx ix of
     Some k \<Rightarrow> \<exists>e. lookup_at hs k = Some e \<and> header_name e = n
   | None \<Rightarrow> \<exists>h. ix = Ix_NotIndexed h \<and> header_name h = n)"

lemma resolve_idx_None: "resolve_idx ix = None \<longleftrightarrow> (\<exists>h. ix = Ix_NotIndexed h)"
  by (cases ix) auto

lemma lookup_at_newest: "lookup_at (h # hs) DYN_OFFSET = Some h"
  by (simp add: lookup_at_def DYN_OFFSET_def)

lemma indexed_as_named: "indexed_as m h hs ix hs' \<Longrightarrow> named_by hs' ix (header_name h)"
  by (cases ix) (auto simp: named_by_def header_at_def name_at_def lookup_at_newest)

lemma named_by_cases:
  assumes "named_by hs ix n"
  obtains (not_indexed) h where "ix = Ix_NotIndexed h" "header_name h = n"
    | (indexed) k e where "resolve_idx ix = Some k" "lookup_at hs k = Some e" "header_name e = n"
      "\<And>v. rep_again ix v = RNamed (kind_of (hv_sensitive v)) k (string_of (hv_bytes v))"
      "\<And>t v. encode_header_without_name t ix v = encode_not_indexed k (hv_bytes v) (hv_sensitive v)"
proof (cases "resolve_idx ix")
  case None
  with assms not_indexed show ?thesis by (auto simp: named_by_def)
next
  case (Some k)
  moreover from Some have "rep_again ix v = RNamed (kind_of (hv_sensitive v)) k (string_of (hv_bytes v))" for v
    by (cases ix) auto
  moreover from Some have "encode_header_without_name t ix v = encode_not_indexed k (hv_bytes v) (hv_sensitive v)" for t v
    by (cases ix) (auto simp: encode_header_without_name_def)
  ultimately show ?thesis using assms indexed by (auto simp: named_by_def)
qed

lemma again_writes:
  assumes "named_by hs ix (Name_Field n)" "62 + length hs \<le> 0x0fffffff" "strings_ok (Header_Field n v)"
  shows "writes (rep_bytes (rep_again ix v)) (encode_header_without_name t ix v)" "rep_ok (rep_again ix v)"
proof -
  have s: "string_ok n" "string_ok (hv_bytes v)" using assms(3) by (auto simp: strings_ok_def)
  from assms(1) have "writes (rep_bytes (rep_again ix v)) (encode_header_without_name t ix v) \<and> rep_ok (rep_again ix v)"
  proof (cases rule: named_by_cases)
    case (not_indexed h)
    then show ?thesis using s writes_not_indexed2 [OF s, of "hv_sensitive v"]
      by (simp add: encode_header_without_name_def kind_of_prefix)
  next
    case (indexed k e)
    then have "k \<le> 2 ^ 4 - 1 + 0x0fffffff" "1 \<le> k" "k \<le> 0x0fffffff"
      using assms(2) lookup_at_bound [OF indexed(2)] by auto
    then show ?thesis using s writes_not_indexed [of k "hv_bytes v" "hv_sensitive v"] indexed(4,5)
      by (simp add: kind_of_prefix)
  qed
  then show "writes (rep_bytes (rep_again ix v)) (encode_header_without_name t ix v)" "rep_ok (rep_again ix v)"
    by auto
qed

lemma meaning_again:
  assumes "named_by hs ix (Name_Field n)" "header_ok L (Header_Field n v)"
  shows "meaning L limit cr (rep_again ix v) (dyn_of_table hs m) =
    Ok (Some (received (Header_Field n v)), dyn_of_table hs m)"
  using assms(1)
proof (cases rule: named_by_cases)
  case (not_indexed h)
  then show ?thesis using header_new_ok [OF assms(2)] by (simp add: remember_kind_of)
next
  case (indexed k e)
  then show ?thesis using into_entry_ok [OF assms(2)]
    unfolding indexed(4) meaning.simps dyn_get_table [OF indexed(2)] by (simp add: remember_kind_of)
qed

section \<open>Room\<close>

text \<open>A bound on the bytes of the representation of a header.\<close>

definition header_room :: "bytes header \<Rightarrow> nat" where
  "header_room h = 15 + length (pack (huffman_code (name_slice (header_name h))))
     + length (pack (huffman_code (value_slice h)))"

lemma length_string:
  "string_ok s \<Longrightarrow> length (hs_bytes (string_of s)) \<le> 5 + length (pack (huffman_code s))"
  using length_int_bytes [of "length (pack (huffman_code s))" 7 "0x80 :: u8"]
    length_int_bytes [of 0 7 "0 :: u8"]
  by (auto simp: string_of_def string_ok_def Let_def)

fun rep_room :: "rep \<Rightarrow> nat" where
  "rep_room (RIndexed n) = 5"
| "rep_room (RNamed k n v) = 5 + length (hs_bytes v)"
| "rep_room (RNew k n v) = 5 + length (hs_bytes n) + length (hs_bytes v)"
| "rep_room (RSize n) = 5"

lemma length_rep: "rep_ok r \<Longrightarrow> length (rep_bytes r) \<le> rep_room r"
proof -
  have *: "length (int_bytes n k f) \<le> 5" if "n \<le> 0x0fffffff" for n k f
    using that by (intro length_int_bytes) linarith
  show "rep_ok r \<Longrightarrow> length (rep_bytes r) \<le> rep_room r"
    by (cases r) (auto simp del: hs_bytes.simps intro!: add_mono *)
qed

lemma length_rep_of:
  assumes "rep_ok (rep_of h ix)" "strings_ok h"
  shows "length (rep_bytes (rep_of h ix)) \<le> header_room h"
proof -
  have "rep_room (rep_of h ix) \<le> header_room h"
    using assms(2) length_string [of "name_slice (header_name h)"] length_string [of "value_slice h"]
    by (cases ix) (simp_all add: header_room_def strings_ok_def del: hs_bytes.simps)
  with length_rep [OF assms(1)] show ?thesis by simp
qed

lemma length_rep_again:
  assumes "named_by hs ix (Name_Field n)" "rep_ok (rep_again ix v)" "strings_ok (Header_Field n v)"
  shows "length (rep_bytes (rep_again ix v)) \<le> header_room (Header_Field n v)"
proof -
  from assms(1) have "rep_room (rep_again ix v) \<le> header_room (Header_Field n v)"
    using assms(3) length_string [of n] length_string [of "hv_bytes v"]
    by (cases rule: named_by_cases) (simp_all add: header_room_def strings_ok_def del: hs_bytes.simps)
  with length_rep [OF assms(2)] show ?thesis by simp
qed

section \<open>One call\<close>

lemma table_ok_length: "table_ok H t \<Longrightarrow> 62 + length (table_headers t) \<le> 0x0fffffff"
proof -
  have "32 * length hs \<le> entries_size hs" for hs
  proof (induction hs)
    case (Cons h hs)
    then show ?case by (cases h) auto
  qed simp
  from this [of "table_headers t"] show "table_ok H t \<Longrightarrow> 62 + length (table_headers t) \<le> 0x0fffffff"
    by (auto simp: table_ok_def)
qed

text \<open>
  Where the two sides are between two calls: \<open>todo\<close> are the headers that are left, for what the encoder kept
  and for what is left of the iterator, and \<open>peer\<close> is the table of the other side. A header that has already
  been entered in the encoder's table may not have been sent.
\<close>

definition unsent ::
  "enc_table \<Rightarrow> encode_state option \<Rightarrow> bytes option header list \<Rightarrow> bytes header list \<Rightarrow> dyn \<Rightarrow> bool" where
  "unsent t st hs todo peer \<longleftrightarrow> (case st of
     None \<Rightarrow> expanded None hs = Some todo \<and> peer = dyn_of_table (table_headers t) (t_max_size t)
   | Some st \<Rightarrow>
       (case es_value st of
          None \<Rightarrow> \<exists>h rest ents. todo = h # rest \<and> expanded (field_name h) hs = Some rest
            \<and> indexed_as (t_max_size t) h ents (es_index st) (table_headers t)
            \<and> 62 + length ents \<le> 0x0fffffff \<and> peer = dyn_of_table ents (t_max_size t)
        | Some v \<Rightarrow> \<exists>n rest. todo = Header_Field n v # rest \<and> expanded (Some n) hs = Some rest
            \<and> named_by (table_headers t) (es_index st) (Name_Field n)
            \<and> peer = dyn_of_table (table_headers t) (t_max_size t)))"

definition outcome_of :: "encode_state option \<Rightarrow> encode_outcome" where
  "outcome_of st = (case st of None \<Rightarrow> Full | Some st \<Rightarrow> Partial st)"

definition sent ::
  "http_lib \<Rightarrow> (hname \<Rightarrow> u64) \<Rightarrow> nat \<Rightarrow> dst_buf \<Rightarrow> dyn \<Rightarrow> bytes header list \<Rightarrow>
     (encode_outcome \<times> bytes option header list \<times> enc_table \<times> dst_buf) option \<Rightarrow> bool" where
  "sent L H m d peer todo out \<longleftrightarrow> (\<exists>st hs t d' rs early rest peer'.
     out = Some (outcome_of st, hs, t, d')
     \<and> table_ok H t \<and> t_max_size t = m \<and> unsent t st hs rest peer' \<and> todo = early @ rest
     \<and> dst_bytes d' = dst_bytes d @ concat (map rep_bytes rs)
     \<and> length (concat (map rep_bytes rs)) \<le> dst_room d
     \<and> list_all rep_ok rs \<and> length rs = length early
     \<and> (\<forall>limit cr. block_meaning L limit cr rs peer = Ok (map received early, peer'))
     \<and> (if st = None then rest = []
        else rest \<noteq> [] \<and> dst_room d \<le> length (concat (map rep_bytes rs)) + header_room (hd rest)))"

text \<open>A header that is written, and those after it.\<close>

lemma sent_Cons:
  assumes "sent L H m (d\<lparr>dst_bytes := dst_bytes d @ rep_bytes r, dst_room := dst_room d - length (rep_bytes r)\<rparr>)
      peer1 todo out"
    "length (rep_bytes r) \<le> dst_room d" "rep_ok r"
    "\<And>limit cr. meaning L limit cr r peer = Ok (Some (received h), peer1)"
  shows "sent L H m d peer (h # todo) out"
proof -
  let ?d = "d\<lparr>dst_bytes := dst_bytes d @ rep_bytes r, dst_room := dst_room d - length (rep_bytes r)\<rparr>"
  from assms(1) [unfolded sent_def] obtain st hs t d' rs early rest peer' where *:
    "out = Some (outcome_of st, hs, t, d')"
    "table_ok H t" "t_max_size t = m" "unsent t st hs rest peer'" "todo = early @ rest"
    "dst_bytes d' = dst_bytes ?d @ concat (map rep_bytes rs)"
    "length (concat (map rep_bytes rs)) \<le> dst_room ?d"
    "list_all rep_ok rs" "length rs = length early"
    "\<forall>limit cr. block_meaning L limit cr rs peer1 = Ok (map received early, peer')"
    "if st = None then rest = []
     else rest \<noteq> [] \<and> dst_room ?d \<le> length (concat (map rep_bytes rs)) + header_room (hd rest)"
    by blast
  show ?thesis
    unfolding sent_def
  proof (intro exI conjI)
    show "out = Some (outcome_of st, hs, t, d')" by (rule *(1))
    show "h # todo = (h # early) @ rest" using *(5) by simp
    show "dst_bytes d' = dst_bytes d @ concat (map rep_bytes (r # rs))" using *(6) by simp
    show "length (concat (map rep_bytes (r # rs))) \<le> dst_room d" using *(7) assms(2) by simp
    show "list_all rep_ok (r # rs)" using *(8) assms(3) by simp
    show "\<forall>limit cr. block_meaning L limit cr (r # rs) peer = Ok (map received (h # early), peer')"
      using *(10) assms(4) by simp
    show "length (r # rs) = length (h # early)" using *(9) by simp
    show "if st = None then rest = []
        else rest \<noteq> [] \<and> dst_room d \<le> length (concat (map rep_bytes (r # rs))) + header_room (hd rest)"
      using *(11) assms(2) by (cases st) auto
  qed (rule *)+
qed

text \<open>A header that does not fit ends the call.\<close>

lemma sent_stop:
  assumes "table_ok H t" "t_max_size t = m" "unsent t (Some st) hs todo peer" "todo \<noteq> []"
    "dst_room d \<le> header_room (hd todo)" "take (length (dst_bytes d)) (dst_bytes d') = dst_bytes d"
  shows "sent L H m d peer todo (Some (Partial st, hs, t, rewind (length (dst_bytes d)) d'))"
  unfolding sent_def
  using assms by (intro exI [of _ "Some st"] exI [of _ hs] exI [of _ t] exI [of _ "rewind (length (dst_bytes d)) d'"]
      exI [of _ "[]"] exI [of _ "[]"] exI [of _ todo] exI [of _ peer]) (simp add: rewind_def outcome_of_def)

lemma sent_done:
  assumes "table_ok H t"
  shows "sent L H (t_max_size t) d (dyn_of_table (table_headers t) (t_max_size t)) [] (Some (Full, [], t, d))"
  unfolding sent_def
  using assms by (intro exI [of _ None] exI [of _ "[]"] exI [of _ t] exI [of _ d] exI [of _ "[]"]
      exI [of _ "[]"]) (simp add: unsent_def outcome_of_def)

definition sendable :: "http_lib \<Rightarrow> bytes header \<Rightarrow> bool" where
  "sendable L h \<longleftrightarrow> header_ok L h \<and> strings_ok h"

lemma encode_headers_sent:
  assumes "table_ok H t" "expanded name hs = Some todo" "list_all (sendable L) todo"
    "\<And>n. name = Some n \<Longrightarrow> \<exists>ix. last_index = Some ix \<and> named_by (table_headers t) ix (Name_Field n)"
  shows "sent L H (t_max_size t) d (dyn_of_table (table_headers t) (t_max_size t)) todo
    (encode_headers H last_index hs t d)"
  using assms
proof (induction hs arbitrary: name last_index t d todo)
  case Nil
  then show ?case by (simp add: sent_done)
next
  case (Cons x hs)
  let ?m = "t_max_size t"
  show ?case
  proof (cases "reify x")
    case (Ok h)
    with Cons.prems(2) obtain rest where todo: "todo = h # rest" "expanded (field_name h) hs = Some rest" by auto
    with Cons.prems(3) have h: "header_ok L h" "strings_ok h" "list_all (sendable L) rest"
      by (auto simp: sendable_def list_all_iff)
    obtain ix t' where ix: "table_index H h t = Some (ix, t')" "table_ok H t'" "t_max_size t' = ?m"
      "indexed_as ?m h (table_headers t) ix (table_headers t')"
      using table_index_step [OF Cons.prems(1)] by blast
    have len: "62 + length (table_headers t) \<le> 0x0fffffff" by (rule table_ok_length [OF Cons.prems(1)])
    have w: "writes (rep_bytes (rep_of h ix)) (encode_header t' ix)"
      by (rule encode_header_writes [OF ix(4) len h(2)])
    have r: "rep_ok (rep_of h ix)" by (rule indexed_as_bound [OF ix(4) len h(2)])
    have n: "named_by (table_headers t') ix (header_name h)" by (rule indexed_as_named [OF ix(4)])
    from w show ?thesis
    proof (cases rule: writesD [where d = d])
      case fits
      let ?d = "d\<lparr>dst_bytes := dst_bytes d @ rep_bytes (rep_of h ix), dst_room := dst_room d - length (rep_bytes (rep_of h ix))\<rparr>"
      have "sent L H (t_max_size t') ?d (dyn_of_table (table_headers t') (t_max_size t')) rest
          (encode_headers H (Some ix) hs t' ?d)"
        by (rule Cons.IH [OF ix(2) todo(2) h(3)]) (use n in \<open>auto dest: field_nameD\<close>)
      then have "sent L H ?m d (dyn_of_table (table_headers t) ?m) (h # rest)
          (encode_headers H (Some ix) hs t' ?d)"
        unfolding ix(3) by (rule sent_Cons [OF _ fits(2) r]) (rule meaning_rep_of [OF ix(4) h(1)])
      with Ok ix(1) fits(1) todo(1) show ?thesis by simp
    next
      case (full e d')
      have "unsent t' (Some \<lparr>es_index = ix, es_value = None\<rparr>) hs todo (dyn_of_table (table_headers t) ?m)"
        using ix(3,4) todo len by (auto simp: unsent_def)
      then have "sent L H ?m d (dyn_of_table (table_headers t) ?m) todo
          (Some (Partial \<lparr>es_index = ix, es_value = None\<rparr>, hs, t', rewind (length (dst_bytes d)) d'))"
        using ix(2,3) full(2,3) todo(1) length_rep_of [OF r h(2)] by (intro sent_stop) auto
      with Ok ix(1) full(1) show ?thesis by simp
    qed
  next
    case (Err v)
    with Cons.prems(2) obtain n rest where todo: "name = Some n" "todo = Header_Field n v # rest" "expanded name hs = Some rest"
      by (auto split: option.splits)
    with Cons.prems(3) have h: "header_ok L (Header_Field n v)" "strings_ok (Header_Field n v)" "list_all (sendable L) rest"
      by (auto simp: sendable_def list_all_iff)
    from Cons.prems(4) [OF todo(1)] obtain ix where ix: "last_index = Some ix"
      "named_by (table_headers t) ix (Name_Field n)" by blast
    note w = again_writes [OF ix(2) table_ok_length [OF Cons.prems(1)] h(2)]
    from w(1) [of t] show ?thesis
    proof (cases rule: writesD [where d = d])
      case fits
      let ?d = "d\<lparr>dst_bytes := dst_bytes d @ rep_bytes (rep_again ix v), dst_room := dst_room d - length (rep_bytes (rep_again ix v))\<rparr>"
      have "sent L H ?m ?d (dyn_of_table (table_headers t) ?m) rest (encode_headers H last_index hs t ?d)"
        by (rule Cons.IH [OF Cons.prems(1) todo(3) h(3) Cons.prems(4)])
      then have "sent L H ?m d (dyn_of_table (table_headers t) ?m) (Header_Field n v # rest)
          (encode_headers H last_index hs t ?d)"
        by (rule sent_Cons [OF _ fits(2) w(2)]) (rule meaning_again [OF ix(2) h(1)])
      with Err ix(1) fits(1) todo(2) show ?thesis by simp
    next
      case (full e d')
      have "unsent t (Some \<lparr>es_index = ix, es_value = Some v\<rparr>) hs todo (dyn_of_table (table_headers t) ?m)"
        using ix(2) todo by (auto simp: unsent_def)
      then have "sent L H ?m d (dyn_of_table (table_headers t) ?m) todo
          (Some (Partial \<lparr>es_index = ix, es_value = Some v\<rparr>, hs, t, rewind (length (dst_bytes d)) d'))"
        using Cons.prems(1) full(2,3) todo(2) length_rep_again [OF ix(2) w(2) h(2)] by (intro sent_stop) auto
      with Err ix(1) full(1) show ?thesis by simp
    qed
  qed (use Cons.prems(2) in auto)
qed

text \<open>A call that resumes with a header kept from the call before: a whole one, or one that repeats a name.\<close>

lemma encode_no_updates:
  assumes "enc_size_update e = None"
  shows "encode_size_updates (e, d) = (Ok (), e, d)"
proof -
  from assms have "e\<lparr>enc_size_update := None\<rparr> = e" by simp
  with assms show ?thesis by (simp add: encode_size_updates_def Let_def)
qed

abbreviation with_encoder ::
  "encoder \<Rightarrow> (encode_outcome \<times> bytes option header list \<times> enc_table \<times> dst_buf) option \<Rightarrow>
     (encode_outcome \<times> bytes option header list \<times> encoder \<times> dst_buf) option" where
  "with_encoder e \<equiv> map_option (\<lambda>(r, hs, t, d). (r, hs, e\<lparr>enc_table_of := t\<rparr>, d))"

lemma encode_kept_sent:
  assumes "table_ok H t" "unsent t (Some s) hs todo peer" "list_all (sendable L) todo" "es_value s = None"
    "enc_size_update e = None" "t = enc_table_of e"
  shows "\<exists>out. encode H (Some s) hs e d = with_encoder e out \<and> sent L H (t_max_size t) d peer todo out"
proof -
  from assms(2,4) obtain h rest ents where todo: "todo = h # rest" "expanded (field_name h) hs = Some rest"
    "indexed_as (t_max_size t) h ents (es_index s) (table_headers t)" "62 + length ents \<le> 0x0fffffff"
    "peer = dyn_of_table ents (t_max_size t)"
    by (auto simp: unsent_def)
  have h: "header_ok L h" "strings_ok h" "list_all (sendable L) rest"
    using assms(3) todo(1) by (auto simp: sendable_def list_all_iff)
  note r = indexed_as_bound [OF todo(3,4) h(2)]
  from encode_header_writes [OF todo(3,4) h(2)] show ?thesis
  proof (cases rule: writesD [where d = d])
    case fits
    let ?d = "d\<lparr>dst_bytes := dst_bytes d @ rep_bytes (rep_of h (es_index s)),
      dst_room := dst_room d - length (rep_bytes (rep_of h (es_index s)))\<rparr>"
    have "sent L H (t_max_size t) ?d (dyn_of_table (table_headers t) (t_max_size t)) rest
        (encode_headers H (Some (es_index s)) hs t ?d)"
      by (rule encode_headers_sent [OF assms(1) todo(2) h(3)])
        (use indexed_as_named [OF todo(3)] in \<open>auto dest: field_nameD\<close>)
    then have "sent L H (t_max_size t) d peer todo (encode_headers H (Some (es_index s)) hs t ?d)"
      unfolding todo(1,5) by (rule sent_Cons [OF _ fits(2) r]) (rule meaning_rep_of [OF todo(3) h(1)])
    moreover have "encode H (Some s) hs e d = with_encoder e (encode_headers H (Some (es_index s)) hs t ?d)"
      using assms(4,6) fits(1) by (simp add: encode_def encode_no_updates [OF assms(5)])
    ultimately show ?thesis by blast
  next
    case (full x d')
    have "sent L H (t_max_size t) d peer todo (Some (Partial s, hs, t, rewind (length (dst_bytes d)) d'))"
      by (rule sent_stop [OF assms(1) refl]) (use assms(2) todo(1) full(2,3) length_rep_of [OF r h(2)] in auto)
    moreover have "encode H (Some s) hs e d = with_encoder e (Some (Partial s, hs, t, rewind (length (dst_bytes d)) d'))"
      using assms(4,6) full(1) by (simp add: encode_def encode_no_updates [OF assms(5)])
    ultimately show ?thesis by blast
  qed
qed

lemma encode_again_sent:
  assumes "table_ok H t" "unsent t (Some s) hs todo peer" "list_all (sendable L) todo" "es_value s = Some v"
    "enc_size_update e = None" "t = enc_table_of e"
  shows "\<exists>out. encode H (Some s) hs e d = with_encoder e out \<and> sent L H (t_max_size t) d peer todo out"
proof -
  from assms(2,4) obtain n rest where todo: "todo = Header_Field n v # rest" "expanded (Some n) hs = Some rest"
    "named_by (table_headers t) (es_index s) (Name_Field n)" "peer = dyn_of_table (table_headers t) (t_max_size t)"
    by (auto simp: unsent_def)
  have h: "header_ok L (Header_Field n v)" "strings_ok (Header_Field n v)" "list_all (sendable L) rest"
    using assms(3) todo(1) by (auto simp: sendable_def list_all_iff)
  note w = again_writes [OF todo(3) table_ok_length [OF assms(1)] h(2)]
  from w(1) [of t] show ?thesis
  proof (cases rule: writesD [where d = d])
    case fits
    let ?d = "d\<lparr>dst_bytes := dst_bytes d @ rep_bytes (rep_again (es_index s) v),
      dst_room := dst_room d - length (rep_bytes (rep_again (es_index s) v))\<rparr>"
    have "sent L H (t_max_size t) ?d (dyn_of_table (table_headers t) (t_max_size t)) rest
        (encode_headers H (Some (es_index s)) hs t ?d)"
      by (rule encode_headers_sent [OF assms(1) todo(2) h(3)]) (use todo(3) in auto)
    then have "sent L H (t_max_size t) d peer todo (encode_headers H (Some (es_index s)) hs t ?d)"
      unfolding todo(1,4) by (rule sent_Cons [OF _ fits(2) w(2)]) (rule meaning_again [OF todo(3) h(1)])
    moreover have "encode H (Some s) hs e d = with_encoder e (encode_headers H (Some (es_index s)) hs t ?d)"
      using assms(4,6) fits(1) by (simp add: encode_def encode_no_updates [OF assms(5)])
    ultimately show ?thesis by blast
  next
    case (full x d')
    have "sent L H (t_max_size t) d peer todo (Some (Partial s, hs, t, rewind (length (dst_bytes d)) d'))"
      by (rule sent_stop [OF assms(1) refl])
        (use assms(2) todo(1) full(2,3) length_rep_again [OF todo(3) w(2) h(2)] in auto)
    moreover have "encode H (Some s) hs e d = with_encoder e (Some (Partial s, hs, t, rewind (length (dst_bytes d)) d'))"
      using assms(4,6) full(1) by (simp add: encode_def encode_no_updates [OF assms(5)])
    ultimately show ?thesis by blast
  qed
qed

lemma encode_sent:
  assumes "table_ok H (enc_table_of e)" "enc_size_update e = None" "unsent (enc_table_of e) st hs todo peer"
    "list_all (sendable L) todo"
  obtains out where "encode H st hs e d = with_encoder e out" "sent L H (t_max_size (enc_table_of e)) d peer todo out"
proof (cases st)
  case None
  with assms have "sent L H (t_max_size (enc_table_of e)) d peer todo (encode_headers H None hs (enc_table_of e) d)"
    by (auto simp: unsent_def intro!: encode_headers_sent [of H "enc_table_of e" None])
  then show ?thesis using that None by (simp add: encode_def encode_no_updates [OF assms(2)])
next
  case (Some s)
  show ?thesis
    using encode_kept_sent [OF assms(1) _ assms(4) _ assms(2) refl, of s hs peer d]
      encode_again_sent [OF assms(1) _ assms(4) _ assms(2) refl, of s hs peer _ d] assms(3) that
    by (cases "es_value s") (auto simp: Some)
qed

section \<open>A block over several frames\<close>

text \<open>
  The caller gives the encoder a buffer for each frame in turn, until the block is complete. The result are the
  parts of the block, one for each buffer used. It is not an operation of the encoder, but the way it is driven.
\<close>

fun encode_block ::
  "(hname \<Rightarrow> u64) \<Rightarrow> encode_state option \<Rightarrow> bytes option header list \<Rightarrow> encoder \<Rightarrow> dst_buf list \<Rightarrow>
     (bytes list \<times> encoder) option" where
  "encode_block H st hs e [] = None"
| "encode_block H st hs e (d # ds) =
     (case encode H st hs e d of
        None \<Rightarrow> None
      | Some (Full, _, e, d') \<Rightarrow> Some ([drop (length (dst_bytes d)) (dst_bytes d')], e)
      | Some (Partial st, hs, e, d') \<Rightarrow>
          map_option (\<lambda>(parts, e). (drop (length (dst_bytes d)) (dst_bytes d') # parts, e))
            (encode_block H (Some st) hs e ds))"

definition dyn_of_encoder :: "encoder \<Rightarrow> dyn" where
  "dyn_of_encoder e = dyn_of_table (table_headers (enc_table_of e)) (t_max_size (enc_table_of e))"

lemma block_meaning_append:
  assumes "block_meaning L limit cr rs p = Ok (hs, p')" "\<And>cr. block_meaning L limit cr rs' p' = Ok (hs', p'')"
  shows "block_meaning L limit cr (rs @ rs') p = Ok (hs @ hs', p'')"
  using assms(1)
proof (induction rs arbitrary: cr p hs)
  case (Cons r rs)
  from Cons.prems obtain h p1 hs1 where *: "meaning L limit cr r p = Ok (h, p1)"
    "block_meaning L limit (cr \<and> h = None) rs p1 = Ok (hs1, p')" "hs = (case h of None \<Rightarrow> hs1 | Some h \<Rightarrow> h # hs1)"
    by (auto simp: rbind_eq_Ok)
  from Cons.IH [OF *(2)] * show ?case by (cases h) simp_all
qed (simp add: assms(2))

definition roomy :: "bytes header list \<Rightarrow> dst_buf list \<Rightarrow> bool" where
  "roomy todo ds \<longleftrightarrow> length todo < length ds \<and> (\<forall>d\<in>set ds. 10 < dst_room d \<and> (\<forall>h\<in>set todo. header_room h + 10 < dst_room d))"

definition block_sent ::
  "http_lib \<Rightarrow> (hname \<Rightarrow> u64) \<Rightarrow> dyn \<Rightarrow> bytes header list \<Rightarrow> (bytes list \<times> encoder) option \<Rightarrow> bool" where
  "block_sent L H peer todo out \<longleftrightarrow> (\<exists>parts e rs.
     out = Some (parts, e) \<and> table_ok H (enc_table_of e) \<and> enc_size_update e = None
     \<and> concat parts = concat (map rep_bytes rs) \<and> list_all rep_ok rs
     \<and> (\<forall>limit cr. block_meaning L limit cr rs peer = Ok (map received todo, dyn_of_encoder e)))"

lemma encode_block_sent:
  assumes "table_ok H (enc_table_of e)" "enc_size_update e = None" "unsent (enc_table_of e) st hs todo peer"
    "list_all (sendable L) todo" "length todo < length ds" "\<forall>d\<in>set ds. \<forall>h\<in>set todo. header_room h < dst_room d"
  shows "block_sent L H peer todo (encode_block H st hs e ds)"
  using assms
proof (induction ds arbitrary: st hs e todo peer)
  case (Cons d ds)
  obtain out where out: "encode H st hs e d = with_encoder e out" "sent L H (t_max_size (enc_table_of e)) d peer todo out"
    by (rule encode_sent [OF Cons.prems(1-4)])
  from out(2) [unfolded sent_def] obtain st1 hs1 t d' rs early rest peer1 where *:
    "out = Some (outcome_of st1, hs1, t, d')" "table_ok H t" "t_max_size t = t_max_size (enc_table_of e)"
    "unsent t st1 hs1 rest peer1" "todo = early @ rest" "dst_bytes d' = dst_bytes d @ concat (map rep_bytes rs)"
    "length (concat (map rep_bytes rs)) \<le> dst_room d" "list_all rep_ok rs" "length rs = length early"
    "\<forall>limit cr. block_meaning L limit cr rs peer = Ok (map received early, peer1)"
    "if st1 = None then rest = []
     else rest \<noteq> [] \<and> dst_room d \<le> length (concat (map rep_bytes rs)) + header_room (hd rest)"
    by blast
  let ?e = "e\<lparr>enc_table_of := t\<rparr>" and ?b = "concat (map rep_bytes rs)"
  show ?case
  proof (cases st1)
    case None
    with *(4,11) have "rest = []" "peer1 = dyn_of_encoder ?e" by (simp_all add: unsent_def dyn_of_encoder_def)
    with None * out(1) Cons.prems(2) show ?thesis
      unfolding block_sent_def
      by (intro exI [of _ "[?b]"] exI [of _ ?e] exI [of _ rs]) (simp add: outcome_of_def)
  next
    case (Some s)
    with *(11) have rest: "rest \<noteq> []" "dst_room d \<le> length ?b + header_room (hd rest)" by auto
    have "early \<noteq> []"
    proof
      assume "early = []"
      moreover have "header_room (hd rest) < dst_room d" using Cons.prems(6) *(5) rest(1) by (cases rest) auto
      ultimately show False using *(9) rest(2) by simp
    qed
    then have shorter: "length rest < length ds" using Cons.prems(5) *(5) by (cases early) auto
    have "block_sent L H peer1 rest (encode_block H (Some s) hs1 ?e ds)"
      by (rule Cons.IH) (use *(2,4,5) Some Cons.prems(2,4,6) shorter in \<open>auto simp: list_all_iff\<close>)
    then obtain parts e' rs' where b: "encode_block H (Some s) hs1 ?e ds = Some (parts, e')"
      "table_ok H (enc_table_of e')" "enc_size_update e' = None" "concat parts = concat (map rep_bytes rs')"
      "list_all rep_ok rs'" "\<forall>limit cr. block_meaning L limit cr rs' peer1 = Ok (map received rest, dyn_of_encoder e')"
      unfolding block_sent_def by blast
    have "block_meaning L limit cr (rs @ rs') peer = Ok (map received todo, dyn_of_encoder e')" for limit cr
      unfolding *(5) map_append using *(10) b(6) by (intro block_meaning_append) auto
    with b * Some out(1) show ?thesis
      unfolding block_sent_def
      by (intro exI [of _ "?b # parts"] exI [of _ e'] exI [of _ "rs @ rs'"]) (simp add: outcome_of_def)
  qed
qed simp

section \<open>Table size updates\<close>

fun sizes :: "size_update option \<Rightarrow> nat list" where
  "sizes None = []"
| "sizes (Some (One v)) = [v]"
| "sizes (Some (Two lo hi)) = [lo, hi]"

lemma dyn_resize_table: "dyn_resize n (dyn_of_table hs m) = dyn_of_table (fitting n hs) n"
  by (simp add: dyn_of_table_def fitting_received)

lemma size_update_ok:
  assumes "v \<le> 0x0fffffff" "5 < dst_room d"
  shows "encode_size_update v d = (Ok (), d\<lparr>dst_bytes := dst_bytes d @ rep_bytes (RSize v),
    dst_room := dst_room d - length (rep_bytes (RSize v))\<rparr>)" "length (rep_bytes (RSize v)) \<le> 5"
proof -
  show len: "length (rep_bytes (RSize v)) \<le> 5" using length_rep [of "RSize v"] assms(1) by simp
  have "writes (rep_bytes (RSize v)) (encode_int v 5 0x20)"
    using assms(1) unfolding rep_bytes.simps by (intro writes_encode_int) simp
  then show "encode_size_update v d = (Ok (), d\<lparr>dst_bytes := dst_bytes d @ rep_bytes (RSize v),
      dst_room := dst_room d - length (rep_bytes (RSize v))\<rparr>)"
    unfolding encode_size_update_def
    by (cases rule: writesD [where d = d]) (use len assms(2) in auto)
qed

lemma resize_table_ok:
  assumes "table_ok H (enc_table_of e)" "v \<le> 0x0fffffff"
  obtains t where "resize_table v (e, d) = (Ok (), e\<lparr>enc_table_of := t\<rparr>, d)" "table_ok H t"
    "dyn_of_encoder (e\<lparr>enc_table_of := t\<rparr>) = dyn_resize v (dyn_of_encoder e)"
proof -
  have "v < 2 ^ 32" using assms(2) by simp
  from table_resize_ok [OF assms(1) this] obtain t where "table_resize v (enc_table_of e) = Some t" "table_ok H t"
    "t_max_size t = v" "table_headers t = fitting v (table_headers (enc_table_of e))" by blast
  then show ?thesis using that [of t] by (simp add: resize_table_def dyn_of_encoder_def dyn_resize_table)
qed

abbreviation size_bytes :: "nat list \<Rightarrow> bytes" where
  "size_bytes vs \<equiv> concat (map rep_bytes (map RSize vs))"

lemma encode_size_updates_ok:
  assumes "table_ok H (enc_table_of e)" "\<forall>v\<in>set (sizes (enc_size_update e)). v \<le> 0x0fffffff" "10 < dst_room d"
  shows "\<exists>e' r. encode_size_updates (e, d) =
      (Ok (), e', d\<lparr>dst_bytes := dst_bytes d @ size_bytes (sizes (enc_size_update e)), dst_room := r\<rparr>)
    \<and> dst_room d \<le> r + 10 \<and> r + length (size_bytes (sizes (enc_size_update e))) \<le> dst_room d
    \<and> table_ok H (enc_table_of e') \<and> enc_size_update e' = None
    \<and> dyn_of_encoder e' = fold dyn_resize (sizes (enc_size_update e)) (dyn_of_encoder e)"
proof -
  let ?e = "e\<lparr>enc_size_update := None\<rparr>"
  have ok: "table_ok H (enc_table_of ?e)" and dyn: "dyn_of_encoder ?e = dyn_of_encoder e"
    using assms(1) by (simp_all add: dyn_of_encoder_def)
  consider "enc_size_update e = None" | v where "enc_size_update e = Some (One v)"
    | lo hi where "enc_size_update e = Some (Two lo hi)"
    by (metis option.exhaust size_update.exhaust)
  then show ?thesis
  proof cases
    case 1
    then have "?e = e" by simp
    with 1 assms(1) show ?thesis
      by (intro exI [of _ e] exI [of _ "dst_room d"]) (simp add: encode_size_updates_def Let_def)
  next
    case 2
    with assms(2) have v: "v \<le> 0x0fffffff" by simp
    obtain t where t: "resize_table v (?e, d) = (Ok (), ?e\<lparr>enc_table_of := t\<rparr>, d)" "table_ok H t"
      "dyn_of_encoder (?e\<lparr>enc_table_of := t\<rparr>) = dyn_resize v (dyn_of_encoder ?e)"
      by (rule resize_table_ok [OF ok v])
    note w = size_update_ok [OF v, of d]
    show ?thesis
      by (intro exI [of _ "?e\<lparr>enc_table_of := t\<rparr>"] exI [of _ "dst_room d - length (rep_bytes (RSize v))"])
        (use 2 t dyn w assms(3) in \<open>simp add: encode_size_updates_def sbind_def on_dst_def Let_def del: rep_bytes.simps\<close>)
  next
    case 3
    with assms(2) have v: "lo \<le> 0x0fffffff" "hi \<le> 0x0fffffff" by simp_all
    obtain t where t: "resize_table lo (?e, d) = (Ok (), ?e\<lparr>enc_table_of := t\<rparr>, d)" "table_ok H t"
      "dyn_of_encoder (?e\<lparr>enc_table_of := t\<rparr>) = dyn_resize lo (dyn_of_encoder ?e)"
      by (rule resize_table_ok [OF ok v(1)])
    obtain u where u: "resize_table hi (?e\<lparr>enc_table_of := t\<rparr>, d) = (Ok (), ?e\<lparr>enc_table_of := u\<rparr>, d)" "table_ok H u"
      "dyn_of_encoder (?e\<lparr>enc_table_of := u\<rparr>) = dyn_resize hi (dyn_of_encoder (?e\<lparr>enc_table_of := t\<rparr>))"
      by (rule resize_table_ok [of H "?e\<lparr>enc_table_of := t\<rparr>", OF _ v(2)]) (use t(2) in auto)
    let ?d = "d\<lparr>dst_bytes := dst_bytes d @ rep_bytes (RSize lo), dst_room := dst_room d - length (rep_bytes (RSize lo))\<rparr>"
    have "5 < dst_room d" using assms(3) by simp
    note w = size_update_ok [OF v(1) this]
    have "5 < dst_room ?d" using assms(3) w(2) by simp
    note x = size_update_ok [OF v(2) this]
    have room: "dst_room d \<le> dst_room d - length (rep_bytes (RSize lo)) - length (rep_bytes (RSize hi)) + 10"
      using w(2) x(2) assms(3) by linarith
    show ?thesis
      by (intro exI [of _ "?e\<lparr>enc_table_of := u\<rparr>"]
          exI [of _ "dst_room d - length (rep_bytes (RSize lo)) - length (rep_bytes (RSize hi))"])
        (use 3 t u dyn w x assms(3) room in \<open>simp add: encode_size_updates_def sbind_def on_dst_def Let_def del: rep_bytes.simps\<close>)
  qed
qed

text \<open>The updates come before everything else.\<close>

lemma encode_updates_first:
  assumes "encode_size_updates (e, d) = (Ok (), e', d')" "enc_size_update e' = None"
  shows "encode H st hs e d = encode H st hs e' d'"
  unfolding encode_def by (simp add: assms(1) encode_no_updates [OF assms(2)])

lemma encode_extends:
  assumes "encode H st hs e d = Some (r, hs', e', d')" "table_ok H (enc_table_of e)" "enc_size_update e = None"
    "unsent (enc_table_of e) st hs todo peer" "list_all (sendable L) todo"
  shows "\<exists>b. dst_bytes d' = dst_bytes d @ b"
proof -
  obtain out where "encode H st hs e d = with_encoder e out" "sent L H (t_max_size (enc_table_of e)) d peer todo out"
    by (rule encode_sent [OF assms(2-5)])
  with assms(1) show ?thesis by (auto simp: sent_def)
qed

lemma block_meaning_sizes:
  "\<forall>v\<in>set vs. v \<le> limit \<Longrightarrow>
     block_meaning L limit True (map RSize vs @ rs) p = block_meaning L limit True rs (fold dyn_resize vs p)"
proof (induction vs arbitrary: p)
  case (Cons v vs)
  then show ?case by (cases "block_meaning L limit True rs (fold dyn_resize vs (dyn_resize v p))") auto
qed simp

lemma encode_block_first:
  assumes "table_ok H (enc_table_of e)" "\<forall>v\<in>set (sizes (enc_size_update e)). v \<le> 0x0fffffff"
    "expanded None hs = Some todo" "list_all (sendable L) todo" "roomy todo ds"
  shows "\<exists>parts e' rs. encode_block H None hs e ds = Some (parts, e') \<and> table_ok H (enc_table_of e')
    \<and> enc_size_update e' = None \<and> concat parts = size_bytes (sizes (enc_size_update e)) @ concat (map rep_bytes rs)
    \<and> list_all rep_ok rs
    \<and> (\<forall>limit cr. block_meaning L limit cr rs (fold dyn_resize (sizes (enc_size_update e)) (dyn_of_encoder e)) =
        Ok (map received todo, dyn_of_encoder e'))"
proof -
  let ?s = "size_bytes (sizes (enc_size_update e))"
  from assms(5) obtain d ds' where ds: "ds = d # ds'" by (cases ds) (auto simp: roomy_def)
  with assms(5) have room: "10 < dst_room d" by (simp add: roomy_def)
  obtain e1 r where e1: "encode_size_updates (e, d) = (Ok (), e1, d\<lparr>dst_bytes := dst_bytes d @ ?s, dst_room := r\<rparr>)"
    "dst_room d \<le> r + 10" "table_ok H (enc_table_of e1)" "enc_size_update e1 = None"
    "dyn_of_encoder e1 = fold dyn_resize (sizes (enc_size_update e)) (dyn_of_encoder e)"
    using encode_size_updates_ok [OF assms(1,2) room] by auto
  let ?d = "d\<lparr>dst_bytes := dst_bytes d @ ?s, dst_room := r\<rparr>"
  have unsent: "unsent (enc_table_of e1) None hs todo (dyn_of_encoder e1)"
    using assms(3) by (simp add: unsent_def dyn_of_encoder_def)
  then have "block_sent L H (dyn_of_encoder e1) todo (encode_block H None hs e1 (?d # ds'))"
    by (rule encode_block_sent [OF e1(3,4) _ assms(4)])
      (use assms(5) e1(2) in \<open>fastforce simp: ds roomy_def\<close>)+
  then obtain parts e' rs where b: "encode_block H None hs e1 (?d # ds') = Some (parts, e')"
    "table_ok H (enc_table_of e')" "enc_size_update e' = None" "concat parts = concat (map rep_bytes rs)"
    "list_all rep_ok rs" "\<forall>limit cr. block_meaning L limit cr rs (dyn_of_encoder e1) = Ok (map received todo, dyn_of_encoder e')"
    unfolding block_sent_def by blast
  have "encode H None hs e d = encode H None hs e1 ?d" by (rule encode_updates_first [OF e1(1,4)])
  moreover have "\<exists>b. dst_bytes d' = dst_bytes ?d @ b" if "encode H None hs e1 ?d = Some (q, hs', e2, d')" for q hs' e2 d'
    by (rule encode_extends [OF that e1(3,4) unsent assms(4)])
  ultimately have "\<exists>parts'. encode_block H None hs e ds = Some (parts', e') \<and> concat parts' = ?s @ concat parts"
    using b(1) unfolding ds by (fastforce split: option.splits encode_outcome.splits)
  with b e1(5) show ?thesis by auto
qed

section \<open>The encoder and the decoder\<close>

text \<open>
  The two ends of a connection between two header blocks: the decoder's table is the encoder's, up to the
  changes of its size the encoder has yet to announce.
\<close>

definition in_step :: "(hname \<Rightarrow> u64) \<Rightarrow> nat \<Rightarrow> encoder \<Rightarrow> hpack_decoder \<Rightarrow> bool" where
  "in_step H limit e d \<longleftrightarrow> table_ok H (enc_table_of e) \<and> decoder_at (dyn_of_encoder e) limit d
     \<and> (\<forall>v\<in>set (sizes (enc_size_update e)). v \<le> limit \<and> v \<le> 0x0fffffff)"

lemma in_step_new:
  assumes "n < 2 ^ 32"
  shows "in_step H n (encoder_new n 0) (hpack_decoder_new n)"
  using enc_table_new_ok [OF assms, where c = 0] decoder_at_new [of n]
  by (simp add: in_step_def encoder_new_def dyn_of_encoder_def dyn_of_table_def)

text \<open>
  C25: a header block that is written into the buffers of as many frames
  as it takes (more buffers than headers are always enough) is decoded to exactly the headers the iterator stands
  for, in order, a field without a name under the name before it; sensitive values lose only their mark. The two
  dynamic tables are in step before and after, table size changes included, whatever the hash function.
\<close>

theorem header_block_roundtrip:
  assumes "in_step H limit e dec" "expanded None hs = Some todo" "list_all (sendable L) todo" "roomy todo ds"
  shows "\<exists>parts e' dec' c'. encode_block H None hs e ds = Some (parts, e')
    \<and> hpack_decode L (\<lambda>h acc. acc @ [h]) ((dec, cursor_new (concat parts)), []) =
        (Ok (), (dec', c'), map received todo)
    \<and> cur_data c' = [] \<and> in_step H limit e' dec' \<and> enc_size_update e' = None"
proof -
  let ?vs = "sizes (enc_size_update e)"
  have e: "table_ok H (enc_table_of e)" "decoder_at (dyn_of_encoder e) limit dec" "\<forall>v\<in>set ?vs. v \<le> limit"
    "\<forall>v\<in>set ?vs. v \<le> 0x0fffffff"
    using assms(1) by (auto simp: in_step_def)
  obtain parts e' rs where b: "encode_block H None hs e ds = Some (parts, e')" "table_ok H (enc_table_of e')"
    "enc_size_update e' = None" "concat parts = size_bytes ?vs @ concat (map rep_bytes rs)" "list_all rep_ok rs"
    "\<forall>limit cr. block_meaning L limit cr rs (fold dyn_resize ?vs (dyn_of_encoder e)) =
      Ok (map received todo, dyn_of_encoder e')"
    using encode_block_first [OF e(1,4) assms(2-4)] by blast
  let ?rs = "map RSize ?vs @ rs"
  have "list_all rep_ok ?rs" using b(5) e(4) by (auto simp: list_all_iff)
  moreover have "block_meaning L limit True ?rs (dyn_of_encoder e) = Ok (map received todo, dyn_of_encoder e')"
    using b(6) by (simp add: block_meaning_sizes [OF e(3)])
  ultimately obtain dec' c' where
    "hpack_decode L (\<lambda>h acc. acc @ [h]) ((dec, cursor_new (concat (map rep_bytes ?rs))), []) =
      (Ok (), (dec', c'), map received todo)" "cur_data c' = []" "decoder_at (dyn_of_encoder e') limit dec'"
    using hpack_decode_at [OF _ e(2), where rs = ?rs and L = L and f = "\<lambda>h acc. acc @ [h]" and acc = "[]"] by (auto simp: fold_snoc)
  then show ?thesis using b by (auto simp: in_step_def)
qed

lemma header_block_roundtrip_witness:
  "\<exists>parts e' dec' c'. encode_block (\<lambda>_. 3) None
      [Header_Method (ascii ''GET''), Header_Field (Some [0x78]) \<lparr>hv_bytes = [0x79], hv_sensitive = False\<rparr>,
       Header_Field None \<lparr>hv_bytes = [0x7A], hv_sensitive = True\<rparr>]
      (encoder_new 4096 0) (replicate 4 \<lparr>dst_bytes = [], dst_room = 100\<rparr>) = Some (parts, e')
    \<and> hpack_decode any_lib (\<lambda>h acc. acc @ [h]) ((hpack_decoder_new 4096, cursor_new (concat parts)), []) =
      (Ok (), (dec', c'), [Header_Method (ascii ''GET''),
        Header_Field [0x78] \<lparr>hv_bytes = [0x79], hv_sensitive = False\<rparr>,
        Header_Field [0x78] \<lparr>hv_bytes = [0x7A], hv_sensitive = False\<rparr>])"
proof -
  let ?todo = "[Header_Method (ascii ''GET''), Header_Field [0x78] \<lparr>hv_bytes = [0x79], hv_sensitive = False\<rparr>,
    Header_Field [0x78] \<lparr>hv_bytes = [0x7A], hv_sensitive = True\<rparr>]"
  have ok: "string_ok b \<and> length (pack (huffman_code b)) \<le> 4 * length b" if "length b \<le> 7" for b
    using that length_pack_code [of b] by (simp add: string_ok_def)
  have "string_ok [0x78]" "string_ok [0x79]" "string_ok [0x7A]" "string_ok (ascii '':method'')" "string_ok (ascii ''GET'')"
    "length (pack (huffman_code [0x78])) \<le> 4" "length (pack (huffman_code [0x79])) \<le> 4"
    "length (pack (huffman_code [0x7A])) \<le> 4" "length (pack (huffman_code (ascii '':method''))) \<le> 28"
    "length (pack (huffman_code (ascii ''GET''))) \<le> 12"
    using ok [of "[0x78]"] ok [of "[0x79]"] ok [of "[0x7A]"] ok [of "ascii '':method''"] ok [of "ascii ''GET''"] by simp_all
  then have "list_all (sendable any_lib) ?todo" "roomy ?todo (replicate 4 \<lparr>dst_bytes = [], dst_room = 100\<rparr>)"
    by (auto simp: sendable_def strings_ok_def any_lib_def roomy_def header_room_def ascii_def)
  moreover have "expanded None [Header_Method (ascii ''GET''), Header_Field (Some [0x78]) \<lparr>hv_bytes = [0x79], hv_sensitive = False\<rparr>,
      Header_Field None \<lparr>hv_bytes = [0x7A], hv_sensitive = True\<rparr>] = Some ?todo"
    by (simp add: field_name_def)
  moreover have "in_step (\<lambda>_. 3) 4096 (encoder_new 4096 0) (hpack_decoder_new 4096)"
    by (rule in_step_new) simp
  ultimately show ?thesis
    using header_block_roundtrip [of "\<lambda>_. 3" 4096 "encoder_new 4096 0" "hpack_decoder_new 4096"] by fastforce
qed

section \<open>Table sizes\<close>

lemma fitting_fits: "entries_size hs \<le> n \<Longrightarrow> fitting n hs = hs"
  by (induction n hs rule: fitting.induct) auto

lemma fitting_fitting: "fitting n (fitting m hs) = fitting (min m n) hs"
proof (induction hs arbitrary: m n)
  case (Cons h hs)
  have "min m n - header_len h = min (m - header_len h) (n - header_len h)" by simp
  then show ?case using Cons.IH by (simp only: fitting.simps min_le_iff_disj) (auto simp: min_def)
qed simp

text \<open>The effect of a series of sizes: the smallest one evicts, the last one stays.\<close>

lemma fold_dyn_resize:
  "fold dyn_resize vs (hs, m) =
     (if vs = [] then (hs, m) else (fitting (Min (set vs)) hs, List.last vs))"
proof (induction vs arbitrary: hs m)
  case (Cons v vs)
  have "Min (insert v (set vs)) = min v (Min (set vs))" if "vs \<noteq> []" using that by (simp add: Min_insert)
  then show ?case using Cons.IH [of "fitting v hs" v] by (cases "vs = []") (auto simp: fitting_fitting)
qed simp

text \<open>What is unsent after a series of changes: nothing, the last size, or the smallest and the last.\<close>

definition updates_for :: "nat \<Rightarrow> nat list \<Rightarrow> size_update option \<Rightarrow> bool" where
  "updates_for m vs u \<longleftrightarrow> (case u of
     None \<Rightarrow> \<forall>v\<in>set vs. v = m
   | Some (One v) \<Rightarrow> vs \<noteq> [] \<and> v = List.last vs \<and> (v = Min (set vs) \<or> m \<le> Min (set vs))
   | Some (Two lo hi) \<Rightarrow> vs \<noteq> [] \<and> hi = List.last vs \<and> lo = Min (set vs))"

lemma update_max_size_for:
  assumes "updates_for m vs (enc_size_update e)" "t_max_size (enc_table_of e) = m"
  shows "updates_for m (vs @ [v]) (enc_size_update (update_max_size v e))"
proof -
  have ins: "vs \<noteq> [] \<Longrightarrow> Min (set (vs @ [v])) = min v (Min (set vs))" by (simp add: Min_insert)
  consider "enc_size_update e = None" | old where "enc_size_update e = Some (One old)"
    | lo hi where "enc_size_update e = Some (Two lo hi)"
    by (metis option.exhaust size_update.exhaust)
  then show ?thesis
  proof cases
    case 1
    with assms have "\<forall>w\<in>set vs. w = m" by (simp add: updates_for_def)
    then have "vs = [] \<or> vs \<noteq> [] \<and> Min (set vs) = m" by (meson Min_in finite_set set_empty)
    then show ?thesis
      using 1 assms(2) ins \<open>\<forall>w\<in>set vs. w = m\<close> by (elim disjE) (auto simp: update_max_size_def updates_for_def min_def)
  next
    case 2
    obtain k where k: "Min (set vs) = k" by simp
    from 2 assms have vs: "vs \<noteq> []" "old = List.last vs" "old = k \<or> m \<le> k" by (auto simp: updates_for_def k)
    then have "k \<le> old" "Min (insert v (set vs)) = min v k" using k by auto
    with 2 assms(2) vs show ?thesis by (auto simp: update_max_size_def updates_for_def simp del: Min_ge_iff Min_gr_iff)
  next
    case 3
    obtain k where k: "Min (set vs) = k" by simp
    from 3 assms have vs: "vs \<noteq> []" "hi = List.last vs" "lo = k" by (auto simp: updates_for_def k)
    then have "Min (insert v (set vs)) = min v k" using k by auto
    with 3 vs show ?thesis by (auto simp: update_max_size_def updates_for_def simp del: Min_ge_iff Min_gr_iff)
  qed
qed

lemma update_max_size_table [simp]: "enc_table_of (update_max_size v e) = enc_table_of e"
  by (auto simp: update_max_size_def split: option.splits size_update.splits)

lemma updates_for_fold:
  assumes "enc_size_update e = None"
  shows "enc_table_of (fold update_max_size vs e) = enc_table_of e
    \<and> updates_for (t_max_size (enc_table_of e)) vs (enc_size_update (fold update_max_size vs e))"
proof (induction vs rule: rev_induct)
  case Nil
  then show ?case using assms by (simp add: updates_for_def)
next
  case (snoc v vs)
  then show ?case using update_max_size_for [of _ vs "fold update_max_size vs e" v] by simp
qed

text \<open>
  C26: however often the limit of the table changes between two header
  blocks, at most two sizes are announced, and announcing them does to a table what announcing every change
  would have done.
\<close>

theorem table_size_updates_coalesce:
  assumes "table_ok H (enc_table_of e)" "enc_size_update e = None"
  shows "fold dyn_resize (sizes (enc_size_update (fold update_max_size vs e))) (dyn_of_encoder e) =
      fold dyn_resize vs (dyn_of_encoder e)
    \<and> length (sizes (enc_size_update (fold update_max_size vs e))) \<le> 2"
proof -
  let ?m = "t_max_size (enc_table_of e)" and ?u = "enc_size_update (fold update_max_size vs e)"
  have u: "updates_for ?m vs ?u" using updates_for_fold [OF assms(2)] by blast
  obtain hs where hs: "dyn_of_encoder e = (hs, ?m)" "entries_size hs \<le> ?m"
    using assms(1)
    by (auto simp: dyn_of_encoder_def dyn_of_table_def table_ok_def entries_size_def comp_def)
  have fits: "fitting n hs = hs" if "?m \<le> n" for n using that hs(2) by (intro fitting_fits) simp
  consider "?u = None" | v where "?u = Some (One v)" | lo hi where "?u = Some (Two lo hi)"
    by (metis option.exhaust size_update.exhaust)
  then show ?thesis
  proof cases
    case 1
    with u have "\<forall>v\<in>set vs. v = ?m" by (simp add: updates_for_def)
    then have "vs \<noteq> [] \<Longrightarrow> Min (set vs) = ?m \<and> List.last vs = ?m" by (meson Min_in finite_set last_in_set set_empty)
    then show ?thesis using 1 fits by (simp add: hs(1) fold_dyn_resize)
  next
    case 2
    with u have v: "vs \<noteq> []" "v = List.last vs" "v = Min (set vs) \<or> ?m \<le> Min (set vs)" by (auto simp: updates_for_def)
    moreover from v(1) have "Min (set vs) \<le> List.last vs" by simp
    ultimately have "fitting v hs = fitting (Min (set vs)) hs" using fits by (metis order_trans)
    then show ?thesis using 2 v by (simp add: hs(1) fold_dyn_resize)
  next
    case 3
    with u have v: "vs \<noteq> []" "hi = List.last vs" "lo = Min (set vs)" by (auto simp: updates_for_def)
    then have "Min (set vs) \<le> List.last vs" by simp
    then show ?thesis using 3 v by (simp add: hs(1) fold_dyn_resize fitting_fitting min_absorb1)
  qed
qed

lemma table_size_updates_coalesce_witness:
  "fold dyn_resize (sizes (enc_size_update (fold update_max_size [100, 50, 8192, 6000] (encoder_new 4096 0)))) ([], 4096) =
    fold dyn_resize [100, 50, 8192, 6000] ([], 4096)"
  using table_size_updates_coalesce [of "\<lambda>_. 3" "encoder_new 4096 0" "[100, 50, 8192, 6000]"]
    enc_table_new_ok [of 4096 0]
  by (simp add: encoder_new_def dyn_of_encoder_def dyn_of_table_def)

text \<open>
  C27: the limit of the table is what the peer announces in its
  SETTINGS frame, any 32-bit number. Above the range of \<open>encode_int\<close> the next header block ends in a panic,
  whatever it holds.
\<close>

theorem large_table_size_panics:
  assumes "0x0fffffff + 31 < v" "v \<noteq> t_max_size (enc_table_of e)" "enc_size_update e = None"
  shows "encode H st hs (update_max_size v e) d = None"
proof -
  let ?e = "update_max_size v e"
  have "enc_size_update ?e = Some (One v)" using assms(2,3) by (simp add: update_max_size_def)
  moreover have "fst (encode_int v 5 0x20 d) \<noteq> Ok ()"
  proof -
    have "0x0fffffff < v - (2 ^ 5 - 1)" "\<not> v < 2 ^ 5 - 1" using assms(1) by auto
    then show ?thesis by (simp only: encode_int_def encode_int_one_byte_def Let_def) simp
  qed
  ultimately have "fst (encode_size_updates (?e, d)) \<noteq> Ok ()"
    by (auto simp: encode_size_updates_def resize_table_def on_dst_def encode_size_update_def sbind_def Let_def
        split: option.splits prod.splits result.splits)
  then show ?thesis by (auto simp: encode_def split: prod.splits result.splits)
qed

lemma large_table_size_panics_witness:
  "encode (\<lambda>_. 3) None [] (update_max_size 0xFFFFFFFF (encoder_new 4096 0)) \<lparr>dst_bytes = [], dst_room = 100\<rparr> = None"
  by (rule large_table_size_panics) (simp_all add: encoder_new_def enc_table_new_def Let_def)

end
