(* ===== verification/Header_Encoding.thy ===== *)
theory Header_Encoding
  imports Frame_Headers Hpack_Roundtrip
begin

text \<open>
  The encoding half of \<open>h2/frame/headers.rs\<close>: the iterator over a header block, and the frames that carry its
  HPACK fragments, HEADERS or PUSH_PROMISE first and CONTINUATION after it.

  The iterator \<open>HeaderMap::into_iter\<close> of the crate \<open>http\<close> is the parameter \<open>into_iter\<close>.
\<close>

section \<open>The iterator over a header block\<close>

record iter =
  it_pseudo :: "pseudo option"
  it_fields :: "(bytes option \<times> hvalue) list"

definition iter_fields_next :: "iter \<Rightarrow> bytes option header option \<times> iter" where
  "iter_fields_next it =
     (case it_fields it of
        [] \<Rightarrow> (None, it\<lparr>it_pseudo := None\<rparr>)
      | (name, v) # fs \<Rightarrow> (Some (Header_Field name v), it\<lparr>it_pseudo := None, it_fields := fs\<rparr>))"

definition iter_next :: "iter \<Rightarrow> bytes option header option \<times> iter" where
  "iter_next it =
     (case it_pseudo it of
        Some ps \<Rightarrow>
          (case ps_method ps of
             Some m \<Rightarrow> (Some (Header_Method m), it\<lparr>it_pseudo := Some (ps\<lparr>ps_method := None\<rparr>)\<rparr>)
           | None \<Rightarrow>
          (case ps_scheme ps of
             Some s \<Rightarrow> (Some (Header_Scheme s), it\<lparr>it_pseudo := Some (ps\<lparr>ps_scheme := None\<rparr>)\<rparr>)
           | None \<Rightarrow>
          (case ps_authority ps of
             Some a \<Rightarrow> (Some (Header_Authority a), it\<lparr>it_pseudo := Some (ps\<lparr>ps_authority := None\<rparr>)\<rparr>)
           | None \<Rightarrow>
          (case ps_path ps of
             Some p \<Rightarrow> (Some (Header_Path p), it\<lparr>it_pseudo := Some (ps\<lparr>ps_path := None\<rparr>)\<rparr>)
           | None \<Rightarrow>
          (case ps_status ps of
             Some s \<Rightarrow> (Some (Header_Status s), it\<lparr>it_pseudo := Some (ps\<lparr>ps_status := None\<rparr>)\<rparr>)
           | None \<Rightarrow> iter_fields_next it)))))
      | None \<Rightarrow> iter_fields_next it)"

text \<open>What the iterator yields from a state on.\<close>

fun given :: "'a option \<Rightarrow> nat" where
  "given None = 0"
| "given (Some x) = 1"

definition iter_left :: "iter \<Rightarrow> nat" where
  "iter_left it = length (it_fields it) + (case it_pseudo it of None \<Rightarrow> 0
     | Some ps \<Rightarrow> given (ps_method ps) + given (ps_scheme ps) + given (ps_authority ps) + given (ps_path ps)
         + given (ps_status ps))"

lemma iter_next_left: "iter_next it = (Some h, it') \<Longrightarrow> iter_left it' < iter_left it"
  by (cases it) (auto simp: iter_next_def iter_fields_next_def iter_left_def split: option.splits list.splits)

function iter_list :: "iter \<Rightarrow> bytes option header list" where
  "iter_list it = (case iter_next it of (None, _) \<Rightarrow> [] | (Some h, it) \<Rightarrow> h # iter_list it)"
  by auto
termination by (relation "measure iter_left") (auto dest: iter_next_left [OF sym])

declare iter_list.simps [simp del]

section \<open>Frames with a header block\<close>

text \<open>The iterator is the list of what it will yield.\<close>

record encoding_block =
  eb_hpack :: "encode_state option"
  eb_headers :: "bytes option header list"

record continuation =
  ct_stream_id :: stream_id
  ct_block :: encoding_block

definition into_encoding :: "('m \<Rightarrow> (bytes option \<times> hvalue) list) \<Rightarrow> 'm header_block \<Rightarrow> encoding_block" where
  "into_encoding into_iter b = \<lparr>eb_hpack = None,
     eb_headers = iter_list \<lparr>it_pseudo = Some (hb_pseudo b), it_fields = into_iter (hb_fields b)\<rparr>\<rparr>"

text \<open>
  \<open>extra\<close> is what the closure writes before the fragment. The length and, when the block goes on, the flags in
  the head are corrected at the end; a position outside the buffer is a panic.
\<close>

definition patch_head :: "nat \<Rightarrow> nat \<Rightarrow> bool \<Rightarrow> bytes \<Rightarrow> bytes option" where
  "patch_head head_pos payload_pos goes_on buf =
     (let payload_len = length buf - payload_pos in
      if length buf < payload_pos \<or> payload_len \<ge> 2 ^ 24 \<or> length buf < head_pos + 3 then None
      else
        let buf = take head_pos buf @ be_u24 (of_nat payload_len) @ drop (head_pos + 3) buf in
        if goes_on then
          (if length buf \<le> head_pos + 4 then None
           else Some (buf[head_pos + 4 := buf ! (head_pos + 4) - H_END_HEADERS]))
        else Some buf)"

abbreviation put :: "bytes \<Rightarrow> (dst_buf, unit, encoder_error) op" where
  "put \<equiv> put_slice"

definition block_encode ::
  "(hname \<Rightarrow> u64) \<Rightarrow> head \<Rightarrow> bytes \<Rightarrow> encoding_block \<Rightarrow> encoder \<Rightarrow> dst_buf \<Rightarrow>
     (continuation option \<times> encoder \<times> dst_buf) option" where
  "block_encode H head extra b e d =
     (let head_pos = length (dst_bytes d) in
      case put (head_encode head 0 []) d of
        (Ok _, d) \<Rightarrow>
          let payload_pos = length (dst_bytes d) in
          (case put extra d of
             (Ok _, d) \<Rightarrow>
               (case encode H (eb_hpack b) (eb_headers b) e d of
                  None \<Rightarrow> None
                | Some (r, headers, e, d) \<Rightarrow>
                    let continuation =
                          (case r of
                             Full \<Rightarrow> None
                           | Partial state \<Rightarrow> Some \<lparr>ct_stream_id = head_stream_id head,
                               ct_block = \<lparr>eb_hpack = Some state, eb_headers = headers\<rparr>\<rparr>)
                    in map_option (\<lambda>buf. (continuation, e, d\<lparr>dst_bytes := buf\<rparr>))
                         (patch_head head_pos payload_pos (continuation \<noteq> None) (dst_bytes d)))
           | _ \<Rightarrow> None)
      | _ \<Rightarrow> None)"

definition headers_encode ::
  "(hname \<Rightarrow> u64) \<Rightarrow> ('m \<Rightarrow> (bytes option \<times> hvalue) list) \<Rightarrow> 'm headers \<Rightarrow> encoder \<Rightarrow> dst_buf \<Rightarrow>
     (continuation option \<times> encoder \<times> dst_buf) option" where
  "headers_encode H into_iter f = block_encode H (headers_head f) [] (into_encoding into_iter (h_block f))"

definition push_promise_encode ::
  "(hname \<Rightarrow> u64) \<Rightarrow> ('m \<Rightarrow> (bytes option \<times> hvalue) list) \<Rightarrow> 'm push_promise \<Rightarrow> encoder \<Rightarrow> dst_buf \<Rightarrow>
     (continuation option \<times> encoder \<times> dst_buf) option" where
  "push_promise_encode H into_iter f =
     block_encode H (push_promise_head f) (be_u32 (sid_word (pp_promised_id f)))
       (into_encoding into_iter (pp_block f))"

definition continuation_head :: "continuation \<Rightarrow> head" where
  "continuation_head c = head_new Kind_Continuation H_END_HEADERS (ct_stream_id c)"

definition continuation_encode ::
  "(hname \<Rightarrow> u64) \<Rightarrow> continuation \<Rightarrow> encoder \<Rightarrow> dst_buf \<Rightarrow> (continuation option \<times> encoder \<times> dst_buf) option" where
  "continuation_encode H c = block_encode H (continuation_head c) [] (ct_block c)"

section \<open>What the iterator yields\<close>

definition pseudo_headers :: "pseudo \<Rightarrow> bytes option header list" where
  "pseudo_headers ps =
     (case ps_method ps of Some m \<Rightarrow> [Header_Method m] | None \<Rightarrow> []) @
     (case ps_scheme ps of Some s \<Rightarrow> [Header_Scheme s] | None \<Rightarrow> []) @
     (case ps_authority ps of Some a \<Rightarrow> [Header_Authority a] | None \<Rightarrow> []) @
     (case ps_path ps of Some p \<Rightarrow> [Header_Path p] | None \<Rightarrow> []) @
     (case ps_status ps of Some s \<Rightarrow> [Header_Status s] | None \<Rightarrow> [])"

lemma iter_list_fields:
  "iter_list \<lparr>it_pseudo = None, it_fields = fs\<rparr> = map (\<lambda>(n, v). Header_Field n v) fs"
proof (induction fs)
  case (Cons f fs)
  then show ?case by (subst iter_list.simps) (simp add: iter_next_def iter_fields_next_def split: prod.splits)
qed (subst iter_list.simps, simp add: iter_next_def iter_fields_next_def)

lemma iter_list_eq:
  "iter_list \<lparr>it_pseudo = Some ps, it_fields = fs\<rparr> = pseudo_headers ps @ map (\<lambda>(n, v). Header_Field n v) fs"
proof -
  have none: "iter_list \<lparr>it_pseudo = Some ps, it_fields = fs\<rparr> = map (\<lambda>(n, v). Header_Field n v) fs"
    if "ps_method ps = None" "ps_scheme ps = None" "ps_authority ps = None" "ps_path ps = None" "ps_status ps = None" for ps
    using that by (subst iter_list.simps) (auto simp: iter_next_def iter_fields_next_def iter_list_fields split: list.splits)
  have status: "iter_list \<lparr>it_pseudo = Some ps, it_fields = fs\<rparr> = pseudo_headers ps @ map (\<lambda>(n, v). Header_Field n v) fs"
    if "ps_method ps = None" "ps_scheme ps = None" "ps_authority ps = None" "ps_path ps = None" for ps
    using that none [of ps] none [of "ps\<lparr>ps_status := None\<rparr>"]
    by (cases "ps_status ps") (simp add: pseudo_headers_def, subst iter_list.simps, simp add: iter_next_def pseudo_headers_def)
  have path: "iter_list \<lparr>it_pseudo = Some ps, it_fields = fs\<rparr> = pseudo_headers ps @ map (\<lambda>(n, v). Header_Field n v) fs"
    if "ps_method ps = None" "ps_scheme ps = None" "ps_authority ps = None" for ps
    using that status [of ps] status [of "ps\<lparr>ps_path := None\<rparr>"]
    by (cases "ps_path ps") (simp, subst iter_list.simps, simp add: iter_next_def pseudo_headers_def)
  have authority: "iter_list \<lparr>it_pseudo = Some ps, it_fields = fs\<rparr> = pseudo_headers ps @ map (\<lambda>(n, v). Header_Field n v) fs"
    if "ps_method ps = None" "ps_scheme ps = None" for ps
    using that path [of ps] path [of "ps\<lparr>ps_authority := None\<rparr>"]
    by (cases "ps_authority ps") (simp, subst iter_list.simps, simp add: iter_next_def pseudo_headers_def)
  have scheme: "iter_list \<lparr>it_pseudo = Some ps, it_fields = fs\<rparr> = pseudo_headers ps @ map (\<lambda>(n, v). Header_Field n v) fs"
    if "ps_method ps = None" for ps
    using that authority [of ps] authority [of "ps\<lparr>ps_scheme := None\<rparr>"]
    by (cases "ps_scheme ps") (simp, subst iter_list.simps, simp add: iter_next_def pseudo_headers_def)
  show ?thesis
    using scheme [of ps] scheme [of "ps\<lparr>ps_method := None\<rparr>"]
    by (cases "ps_method ps") (simp, subst iter_list.simps, simp add: iter_next_def pseudo_headers_def)
qed

section \<open>One frame\<close>

definition wire_frame :: "head \<Rightarrow> bytes \<Rightarrow> bytes" where
  "wire_frame h p = head_encode h (length p) [] @ p"

definition more_follows :: "head \<Rightarrow> head" where
  "more_follows h = h\<lparr>head_flag := head_flag h - H_END_HEADERS\<rparr>"

lemma head_encode_append: "head_encode h n dst = dst @ head_encode h n []"
  by (simp add: head_encode_def)

lemma patch_head_ok:
  assumes "length p < 2 ^ 24"
  shows "patch_head (length a) (length a + HEADER_LEN) goes_on (a @ head_encode h 0 [] @ p) =
    Some (a @ wire_frame (if goes_on then more_follows h else h) p)"
proof -
  let ?rest = "be_u32 (sid_word (head_stream_id h)) @ p"
  let ?buf = "a @ head_encode h 0 [] @ p"
  have buf: "?buf = (a @ be_u24 0) @ kind_as_u8 (head_kind h) # head_flag h # ?rest"
    by (simp add: head_encode_def)
  have three: "length (be_u24 n) = 3" for n by (simp add: be_u24_def)
  have len: "length ?buf = length a + HEADER_LEN + length p" by simp
  have parts: "take (length a) ?buf = a"
    "drop (length a + 3) ?buf = kind_as_u8 (head_kind h) # head_flag h # ?rest"
    unfolding buf by (simp_all add: three)
  have at: "((a @ be_u24 n) @ k # f # r) ! (length a + 4) = f"
    "((a @ be_u24 n) @ k # f # r)[length a + 4 := g] = (a @ be_u24 n) @ k # g # r" for n k f g and r :: bytes
    by (simp_all add: nth_append list_update_append three)
  have "patch_head (length a) (length a + HEADER_LEN) goes_on ?buf =
      (let buf = (a @ be_u24 (of_nat (length p))) @ kind_as_u8 (head_kind h) # head_flag h # ?rest in
       if goes_on then Some (buf[length a + 4 := buf ! (length a + 4) - H_END_HEADERS]) else Some buf)"
    unfolding patch_head_def parts len using assms by (simp add: Let_def HEADER_LEN_def three)
  also have "\<dots> = Some (a @ wire_frame (if goes_on then more_follows h else h) p)"
    by (simp add: Let_def at del: append_assoc)
      (simp add: wire_frame_def more_follows_def head_encode_def)
  finally show ?thesis .
qed

lemma block_encode_eq:
  assumes "encode H (eb_hpack b) (eb_headers b) e
      (d\<lparr>dst_bytes := dst_bytes d @ head_encode head 0 [] @ extra, dst_room := dst_room d - HEADER_LEN - length extra\<rparr>) =
      Some (r, hs, e', d')"
    "dst_bytes d' = dst_bytes d @ head_encode head 0 [] @ extra @ p"
    "HEADER_LEN + length extra \<le> dst_room d" "length (extra @ p) < 2 ^ 24"
  shows "block_encode H head extra b e d =
    (case r of
       Full \<Rightarrow> Some (None, e', d'\<lparr>dst_bytes := dst_bytes d @ wire_frame head (extra @ p)\<rparr>)
     | Partial st \<Rightarrow> Some (Some \<lparr>ct_stream_id = head_stream_id head, ct_block = \<lparr>eb_hpack = Some st, eb_headers = hs\<rparr>\<rparr>,
         e', d'\<lparr>dst_bytes := dst_bytes d @ wire_frame (more_follows head) (extra @ p)\<rparr>))"
proof -
  have "put (head_encode head 0 []) d =
      (Ok (), d\<lparr>dst_bytes := dst_bytes d @ head_encode head 0 [], dst_room := dst_room d - HEADER_LEN\<rparr>)"
    using assms(3) by (simp add: put_slice_def)
  moreover have "put extra (d\<lparr>dst_bytes := dst_bytes d @ head_encode head 0 [], dst_room := dst_room d - HEADER_LEN\<rparr>) =
      (Ok (), d\<lparr>dst_bytes := dst_bytes d @ head_encode head 0 [] @ extra, dst_room := dst_room d - HEADER_LEN - length extra\<rparr>)"
    using assms(3) by (simp add: put_slice_def)
  ultimately show ?thesis
    using assms(1,2) patch_head_ok [OF assms(4), of "dst_bytes d" _ head]
    by (cases r) (simp_all add: block_encode_def Let_def)
qed

section \<open>The headers of a block\<close>

text \<open>What \<open>HeaderMap::into_iter\<close> documents: the fields in the order of \<open>iter\<close>, a repeated name left out.\<close>

definition field_headers :: "(bytes \<times> hvalue) list \<Rightarrow> bytes header list" where
  "field_headers fs = map (\<lambda>(n, v). Header_Field n v) fs"

definition into_iter_ok :: "'m header_map_lib \<Rightarrow> ('m \<Rightarrow> (bytes option \<times> hvalue) list) \<Rightarrow> bool" where
  "into_iter_ok M into_iter \<longleftrightarrow>
     (\<forall>m. expanded None (map (\<lambda>(n, v). Header_Field n v) (into_iter m)) = Some (field_headers (hm_list M m)))"

definition pseudo_list :: "pseudo \<Rightarrow> bytes header list" where
  "pseudo_list ps =
     (case ps_method ps of Some m \<Rightarrow> [Header_Method m] | None \<Rightarrow> []) @
     (case ps_scheme ps of Some s \<Rightarrow> [Header_Scheme s] | None \<Rightarrow> []) @
     (case ps_authority ps of Some a \<Rightarrow> [Header_Authority a] | None \<Rightarrow> []) @
     (case ps_path ps of Some p \<Rightarrow> [Header_Path p] | None \<Rightarrow> []) @
     (case ps_status ps of Some s \<Rightarrow> [Header_Status s] | None \<Rightarrow> [])"

definition block_headers :: "'m header_map_lib \<Rightarrow> 'm header_block \<Rightarrow> bytes header list" where
  "block_headers M b = pseudo_list (hb_pseudo b) @ field_headers (hm_list M (hb_fields b))"

lemma expanded_pseudo:
  assumes "expanded None hs = Some todo"
  shows "expanded None (pseudo_headers ps @ hs) = Some (pseudo_list ps @ todo)"
  using assms
  by (cases "ps_method ps"; cases "ps_scheme ps"; cases "ps_authority ps"; cases "ps_path ps"; cases "ps_status ps")
    (simp_all add: pseudo_headers_def pseudo_list_def field_name_def)

lemma expanded_block:
  assumes "into_iter_ok M into_iter"
  shows "expanded None (eb_headers (into_encoding into_iter b)) = Some (block_headers M b)"
  unfolding into_encoding_def block_headers_def
  using expanded_pseudo assms by (simp add: iter_list_eq into_iter_ok_def)

section \<open>A frame and what its fragment means\<close>

text \<open>The fragments of a block, decoded one after the other.\<close>

fun fragments_meaning ::
  "http_lib \<Rightarrow> nat \<Rightarrow> rep list list \<Rightarrow> dyn \<Rightarrow> (bytes header list \<times> dyn, decoder_error) result" where
  "fragments_meaning L limit [] t = Ok ([], t)"
| "fragments_meaning L limit (rs # rss) t =
     rbind (block_meaning L limit True rs t) (\<lambda>(hs, t).
     rbind (fragments_meaning L limit rss t) (\<lambda>(hs', t). Ok (hs @ hs', t)))"

abbreviation fragment :: "rep list \<Rightarrow> bytes" where
  "fragment rs \<equiv> concat (map rep_bytes rs)"

text \<open>
  A frame of a block: \<open>p\<close> is its fragment, \<open>st\<close> and \<open>hs\<close> are what the encoder keeps for the next frame, which has
  to carry \<open>rest\<close>.
\<close>

definition frame_sent ::
  "http_lib \<Rightarrow> (hname \<Rightarrow> u64) \<Rightarrow> nat \<Rightarrow> head \<Rightarrow> bytes \<Rightarrow> dst_buf \<Rightarrow> dyn \<Rightarrow> bytes header list \<Rightarrow> bool \<Rightarrow>
     (continuation option \<times> encoder \<times> dst_buf) option \<Rightarrow> bool" where
  "frame_sent L H limit head extra d peer todo progress out \<longleftrightarrow> (\<exists>c e d' rs early rest peer'.
     out = Some (c, e, d') \<and> table_ok H (enc_table_of e) \<and> enc_size_update e = None
     \<and> dst_bytes d' = dst_bytes d @ wire_frame (if c = None then head else more_follows head) (extra @ fragment rs)
     \<and> HEADER_LEN + length extra + length (fragment rs) \<le> dst_room d
     \<and> list_all rep_ok rs \<and> todo = early @ rest
     \<and> block_meaning L limit True rs peer = Ok (map received early, peer')
     \<and> (case c of
          None \<Rightarrow> rest = [] \<and> peer' = dyn_of_encoder e
        | Some c \<Rightarrow> ct_stream_id c = head_stream_id head \<and> eb_hpack (ct_block c) \<noteq> None
            \<and> unsent (enc_table_of e) (eb_hpack (ct_block c)) (eb_headers (ct_block c)) rest peer')
     \<and> (progress \<longrightarrow> c = None \<or> early \<noteq> [] \<and> fragment rs \<noteq> []))"

lemma rep_bytes_ne: "rep_bytes r \<noteq> []"
  by (cases r) (simp_all add: int_bytes_ne)

lemma encode_frame_sent:
  assumes "encode H (eb_hpack b) (eb_headers b) e d1 =
      Some (outcome_of st, hs, e', d')" "d1 = d\<lparr>dst_bytes := dst_bytes d @ head_encode head 0 [] @ extra,
        dst_room := dst_room d - HEADER_LEN - length extra\<rparr>"
    "dst_bytes d' = dst_bytes d1 @ fragment rs" "length (fragment rs) \<le> dst_room d1"
    "HEADER_LEN + length extra \<le> dst_room d" "dst_room d < 2 ^ 24 + HEADER_LEN"
    "table_ok H (enc_table_of e')" "enc_size_update e' = None" "unsent (enc_table_of e') st hs rest peer'"
    "todo = early @ rest" "list_all rep_ok rs" "block_meaning L limit True rs peer = Ok (map received early, peer')"
    "st = None \<Longrightarrow> rest = []" "progress \<Longrightarrow> st = None \<or> early \<noteq> [] \<and> fragment rs \<noteq> []"
  shows "frame_sent L H limit head extra d peer todo progress (block_encode H head extra b e d)"
proof -
  have len: "length (extra @ fragment rs) < 2 ^ 24" using assms(2,4-6) by simp
  have run: "block_encode H head extra b e d =
    (case outcome_of st of
       Full \<Rightarrow> Some (None, e', d'\<lparr>dst_bytes := dst_bytes d @ wire_frame head (extra @ fragment rs)\<rparr>)
     | Partial st \<Rightarrow> Some (Some \<lparr>ct_stream_id = head_stream_id head, ct_block = \<lparr>eb_hpack = Some st, eb_headers = hs\<rparr>\<rparr>,
         e', d'\<lparr>dst_bytes := dst_bytes d @ wire_frame (more_follows head) (extra @ fragment rs)\<rparr>))"
    using assms(1-3) by (intro block_encode_eq [OF _ _ assms(5) len]) simp_all
  have room: "HEADER_LEN + length extra + length (fragment rs) \<le> dst_room d" using assms(2,4,5) by simp
  show ?thesis
  proof (cases st)
    case None
    with assms(9,13) have "rest = []" "peer' = dyn_of_encoder e'" by (simp_all add: unsent_def dyn_of_encoder_def)
    with None run room assms(7,8,10-12) show ?thesis
      unfolding frame_sent_def
      by (intro exI [of _ None] exI [of _ e'] exI [of _ "d'\<lparr>dst_bytes := dst_bytes d @ wire_frame head (extra @ fragment rs)\<rparr>"]
          exI [of _ rs] exI [of _ early] exI [of _ rest] exI [of _ peer']) (simp add: outcome_of_def)
  next
    case (Some s)
    let ?c = "\<lparr>ct_stream_id = head_stream_id head, ct_block = \<lparr>eb_hpack = Some s, eb_headers = hs\<rparr>\<rparr>"
    show ?thesis
      unfolding frame_sent_def
      by (intro exI [of _ "Some ?c"] exI [of _ e']
          exI [of _ "d'\<lparr>dst_bytes := dst_bytes d @ wire_frame (more_follows head) (extra @ fragment rs)\<rparr>"]
          exI [of _ rs] exI [of _ early] exI [of _ rest] exI [of _ peer'])
        (use Some run room assms(7-12,14) in \<open>simp add: outcome_of_def\<close>)
  qed
qed

text \<open>A CONTINUATION frame: every header fits in a frame of its own, so there is progress.\<close>

lemma continuation_sent:
  assumes "table_ok H (enc_table_of e)" "enc_size_update e = None"
    "unsent (enc_table_of e) (eb_hpack (ct_block c)) (eb_headers (ct_block c)) todo peer"
    "list_all (sendable L) todo" "\<forall>h\<in>set todo. HEADER_LEN + header_room h < dst_room d" "dst_room d < 2 ^ 24 + HEADER_LEN"
    "HEADER_LEN \<le> dst_room d"
  shows "frame_sent L H limit (continuation_head c) [] d peer todo True (continuation_encode H c e d)"
proof -
  let ?h = "continuation_head c"
  let ?d = "d\<lparr>dst_bytes := dst_bytes d @ head_encode ?h 0 [] @ [], dst_room := dst_room d - HEADER_LEN - length ([] :: bytes)\<rparr>"
  obtain out where out: "encode H (eb_hpack (ct_block c)) (eb_headers (ct_block c)) e ?d = with_encoder e out"
    "sent L H (t_max_size (enc_table_of e)) ?d peer todo out"
    by (rule encode_sent [OF assms(1-4)])
  from out(2) [unfolded sent_def] obtain st hs t d' rs early rest peer' where *:
    "out = Some (outcome_of st, hs, t, d')" "table_ok H t" "t_max_size t = t_max_size (enc_table_of e)"
    "unsent t st hs rest peer'" "todo = early @ rest" "dst_bytes d' = dst_bytes ?d @ fragment rs"
    "length (fragment rs) \<le> dst_room ?d" "list_all rep_ok rs" "length rs = length early"
    "\<forall>limit cr. block_meaning L limit cr rs peer = Ok (map received early, peer')"
    "if st = None then rest = [] else rest \<noteq> [] \<and> dst_room ?d \<le> length (fragment rs) + header_room (hd rest)"
    by blast
  have progress: "st = None \<or> early \<noteq> [] \<and> fragment rs \<noteq> []"
  proof (cases "st = None")
    case False
    with *(11) have rest: "rest \<noteq> []" "dst_room ?d \<le> length (fragment rs) + header_room (hd rest)" by auto
    then have "HEADER_LEN + header_room (hd rest) < dst_room d" using assms(5) *(5) by (cases rest) auto
    moreover have "dst_room ?d = dst_room d - HEADER_LEN" by simp
    ultimately have "1 \<le> length (fragment rs)" using rest(2) by linarith
    then have "fragment rs \<noteq> []" by (cases "fragment rs") (simp_all del: concat_eq_Nil_conv)
    moreover from this *(9) have "early \<noteq> []" by (cases early) auto
    ultimately show ?thesis by simp
  qed simp
  show ?thesis
    unfolding continuation_encode_def
    by (rule encode_frame_sent [where d = d and rs = rs and st = st and early = early and rest = rest
          and e' = "e\<lparr>enc_table_of := t\<rparr>" and hs = hs and d' = d' and peer' = peer'])
      (use out(1) * assms(2,6,7) progress in auto)
qed

text \<open>The first frame of a block, with the size updates that are due.\<close>

lemma first_frame_sent:
  assumes "table_ok H (enc_table_of e)" "\<forall>v\<in>set (sizes (enc_size_update e)). v \<le> limit \<and> v \<le> 0x0fffffff"
    "expanded None (eb_headers b) = Some todo" "eb_hpack b = None" "list_all (sendable L) todo"
    "HEADER_LEN + length extra + 10 < dst_room d" "dst_room d < 2 ^ 24 + HEADER_LEN"
  shows "frame_sent L H limit head extra d (dyn_of_encoder e) todo False (block_encode H head extra b e d)"
proof -
  let ?d = "d\<lparr>dst_bytes := dst_bytes d @ head_encode head 0 [] @ extra, dst_room := dst_room d - HEADER_LEN - length extra\<rparr>"
  let ?vs = "sizes (enc_size_update e)"
  have "10 < dst_room ?d" "\<forall>v\<in>set ?vs. v \<le> 0x0fffffff" using assms(2,6) by simp_all
  from encode_size_updates_ok [OF assms(1) this(2,1)] obtain e1 r where e1:
    "encode_size_updates (e, ?d) = (Ok (), e1, ?d\<lparr>dst_bytes := dst_bytes ?d @ size_bytes ?vs, dst_room := r\<rparr>)"
    "r + length (size_bytes ?vs) \<le> dst_room ?d" "table_ok H (enc_table_of e1)" "enc_size_update e1 = None"
    "dyn_of_encoder e1 = fold dyn_resize ?vs (dyn_of_encoder e)" by blast
  let ?d1 = "?d\<lparr>dst_bytes := dst_bytes ?d @ size_bytes ?vs, dst_room := r\<rparr>"
  have "unsent (enc_table_of e1) (eb_hpack b) (eb_headers b) todo (dyn_of_encoder e1)"
    using assms(3,4) by (simp add: unsent_def dyn_of_encoder_def)
  then obtain out where out: "encode H (eb_hpack b) (eb_headers b) e1 ?d1 = with_encoder e1 out"
    "sent L H (t_max_size (enc_table_of e1)) ?d1 (dyn_of_encoder e1) todo out"
    using encode_sent [OF e1(3,4) _ assms(5)] by blast
  from out(2) [unfolded sent_def] obtain st hs t d' rs early rest peer' where *:
    "out = Some (outcome_of st, hs, t, d')" "table_ok H t" "t_max_size t = t_max_size (enc_table_of e1)"
    "unsent t st hs rest peer'" "todo = early @ rest" "dst_bytes d' = dst_bytes ?d1 @ fragment rs"
    "length (fragment rs) \<le> dst_room ?d1" "list_all rep_ok rs" "length rs = length early"
    "\<forall>limit cr. block_meaning L limit cr rs (dyn_of_encoder e1) = Ok (map received early, peer')"
    "if st = None then rest = [] else rest \<noteq> [] \<and> dst_room ?d1 \<le> length (fragment rs) + header_room (hd rest)"
    by blast
  let ?rs = "map RSize ?vs @ rs"
  have "\<forall>v\<in>set ?vs. v \<le> limit" using assms(2) by auto
  from block_meaning_sizes [OF this] *(10) e1(5)
  have mean: "block_meaning L limit True ?rs (dyn_of_encoder e) = Ok (map received early, peer')" by simp
  have "list_all rep_ok ?rs" using *(8) assms(2) by (auto simp: list_all_iff)
  moreover have "encode H (eb_hpack b) (eb_headers b) e ?d = with_encoder e1 out"
    using encode_updates_first [OF e1(1,4)] out(1) by simp
  ultimately show ?thesis
    by (intro encode_frame_sent [where d = d and rs = ?rs and st = st and early = early and rest = rest
          and e' = "e1\<lparr>enc_table_of := t\<rparr>" and hs = hs and d' = d' and peer' = peer'])
      (use * e1(2,4) assms(6,7) mean in auto)
qed

end
