(* ===== verification/Framed_Write.thy ===== *)
theory Framed_Write
  imports Header_Encoding Framed_Read "HOL-Library.Stream"
begin

text \<open>
  The frame writer (\<open>h2/codec/framed_write.rs\<close>). Frames are encoded into a buffer; \<open>flush\<close> hands the buffer, the
  payload of a large DATA frame and the CONTINUATION frames of a header block to the transport, in pieces of the
  transport's choice.

  The transport is its answers to the coming calls, an infinite stream for each kind of call. A write takes
  as many bytes as the answer says, at most those offered. \<open>poll_write_vectored\<close> is never called:
  \<open>is_write_vectored\<close> is false. The buffer is a \<open>BytesMut\<close>, which has room for \<open>usize::MAX\<close> bytes.
\<close>

section \<open>The transport\<close>

datatype 'a io_poll = Ready 'a | Pending

type_synonym 'a io_answer = "('a, io_error) result io_poll"

record transport =
  tr_wire :: bytes
  tr_writes :: "(io_error + nat) io_poll stream"
  tr_flushes :: "(io_error + unit) io_poll stream"
  tr_closes :: "(io_error + unit) io_poll stream"

definition answer :: "(io_error + 'a) io_poll stream \<Rightarrow> 'a io_answer \<times> (io_error + 'a) io_poll stream" where
  "answer as =
     (case shd as of
        Pending \<Rightarrow> Pending
      | Ready (Inl e) \<Rightarrow> Ready (Err e)
      | Ready (Inr x) \<Rightarrow> Ready (Ok x), stl as)"

lemma answer_no_panic: "answer as = (a, as') \<Longrightarrow> a \<noteq> Ready Panic"
  by (auto simp: answer_def split: io_poll.splits sum.splits)

definition poll_write :: "bytes \<Rightarrow> transport \<Rightarrow> nat io_answer \<times> transport" where
  "poll_write chunk t =
     (case answer (tr_writes t) of
        (Ready (Ok n), as) \<Rightarrow>
          let n = min n (length chunk)
          in (Ready (Ok n), t\<lparr>tr_wire := tr_wire t @ take n chunk, tr_writes := as\<rparr>)
      | (a, as) \<Rightarrow> (a, t\<lparr>tr_writes := as\<rparr>))"

definition poll_flush :: "transport \<Rightarrow> unit io_answer \<times> transport" where
  "poll_flush t = (case answer (tr_flushes t) of (a, as) \<Rightarrow> (a, t\<lparr>tr_flushes := as\<rparr>))"

definition poll_close :: "transport \<Rightarrow> unit io_answer \<times> transport" where
  "poll_close t = (case answer (tr_closes t) of (a, as) \<Rightarrow> (a, t\<lparr>tr_closes := as\<rparr>))"

lemma poll_write_cases:
  assumes "poll_write chunk t = (a, t')"
  obtains (written) n where "a = Ready (Ok n)" "n \<le> length chunk" "tr_wire t' = tr_wire t @ take n chunk"
    | (stopped) "a \<noteq> Ready Panic" "\<And>n. a \<noteq> Ready (Ok n)" "tr_wire t' = tr_wire t"
  using assms
  by (auto simp: poll_write_def answer_def Let_def split: io_poll.splits sum.splits)

section \<open>The writer\<close>

datatype next_frame = Next_Data "bytes data_frame" | Next_Continuation continuation

record framed_write =
  fw_hpack :: encoder
  fw_buf :: bytes
  fw_pos :: nat
  fw_next :: "next_frame option"
  fw_last_data_frame :: "bytes data_frame option"
  fw_max_frame_size :: u32

definition CHAIN_THRESHOLD :: nat where
  "CHAIN_THRESHOLD = 256"

definition MIN_BUFFER_CAPACITY :: nat where
  "MIN_BUFFER_CAPACITY = HEADER_LEN + CHAIN_THRESHOLD"

definition framed_write_new :: framed_write where
  "framed_write_new = \<lparr>fw_hpack = encoder_new 4096 0, fw_buf = [], fw_pos = 0, fw_next = None,
     fw_last_data_frame = None, fw_max_frame_size = DEFAULT_MAX_FRAME_SIZE\<rparr>"

definition writer_max_frame_size :: "framed_write \<Rightarrow> nat" where
  "writer_max_frame_size fw = unat (fw_max_frame_size fw)"

definition remaining_mut :: "bytes \<Rightarrow> nat" where
  "remaining_mut buf = 2 ^ 64 - 1 - length buf"

definition has_capacity :: "framed_write \<Rightarrow> bool" where
  "has_capacity fw \<longleftrightarrow> fw_next fw = None \<and> remaining_mut (fw_buf fw) \<ge> MIN_BUFFER_CAPACITY"

definition buf_rest :: "framed_write \<Rightarrow> bytes" where
  "buf_rest fw = drop (fw_pos fw) (fw_buf fw)"

definition writer_is_empty :: "framed_write \<Rightarrow> bool" where
  "writer_is_empty fw \<longleftrightarrow>
     (case fw_next fw of Some (Next_Data frame) \<Rightarrow> data_data frame = [] | _ \<Rightarrow> buf_rest fw = [])"

definition limited_write_buf :: "framed_write \<Rightarrow> dst_buf" where
  "limited_write_buf fw = \<lparr>dst_bytes = fw_buf fw,
     dst_room = min (writer_max_frame_size fw + HEADER_LEN) (remaining_mut (fw_buf fw))\<rparr>"

definition writer_set_max_frame_size :: "nat \<Rightarrow> framed_write \<Rightarrow> (framed_write, 'e) result" where
  "writer_set_max_frame_size v fw =
     rbind (assert_that (v \<le> unat MAX_MAX_FRAME_SIZE)) (\<lambda>_. Ok (fw\<lparr>fw_max_frame_size := of_nat v\<rparr>))"

definition set_header_table_size :: "nat \<Rightarrow> framed_write \<Rightarrow> framed_write" where
  "set_header_table_size v fw = fw\<lparr>fw_hpack := update_max_size v (fw_hpack fw)\<rparr>"

definition take_last_data_frame :: "framed_write \<Rightarrow> bytes data_frame option \<times> framed_write" where
  "take_last_data_frame fw = (fw_last_data_frame fw, fw\<lparr>fw_last_data_frame := None\<rparr>)"

section \<open>Buffering a frame\<close>

definition buffer_block ::
  "(continuation option \<times> encoder \<times> dst_buf) option \<Rightarrow> (framed_write, unit, user_error) op" where
  "buffer_block out fw =
     (case out of
        None \<Rightarrow> (Panic, fw)
      | Some (continuation, e, d) \<Rightarrow>
          (Ok (), fw\<lparr>fw_hpack := e, fw_buf := dst_bytes d,
             fw_next := (case continuation of Some c \<Rightarrow> Some (Next_Continuation c) | None \<Rightarrow> fw_next fw)\<rparr>))"

definition buffer_data :: "bytes data_frame \<Rightarrow> (framed_write, unit, user_error) op" where
  "buffer_data v fw =
     (let len = length (data_data v) in
      if len > writer_max_frame_size fw then (Err PayloadTooBig, fw)
      else if len \<ge> CHAIN_THRESHOLD then
        (Ok (), fw\<lparr>fw_buf := head_encode (data_head v) len (fw_buf fw), fw_next := Some (Next_Data v)\<rparr>)
      else
        (case data_encode_chunk v (remaining_mut (fw_buf fw)) (fw_buf fw) of
           Ok (v, buf) \<Rightarrow>
             if data_data v \<noteq> [] then (Panic, fw\<lparr>fw_buf := buf\<rparr>)
             else (Ok (), fw\<lparr>fw_buf := buf, fw_last_data_frame := Some v\<rparr>)
         | Err e \<Rightarrow> (Err e, fw)
         | Panic \<Rightarrow> (Panic, fw)))"

definition buffer_frame ::
  "(hname \<Rightarrow> u64) \<Rightarrow> ('m \<Rightarrow> (bytes option \<times> hvalue) list) \<Rightarrow> 'm frame \<Rightarrow> (framed_write, unit, user_error) op" where
  "buffer_frame H into_iter item fw =
     (if \<not> has_capacity fw then (Panic, fw)
      else
        let append = (\<lambda>encode. (Ok (), fw\<lparr>fw_buf := encode (fw_buf fw)\<rparr>)) in
        case item of
          FData v \<Rightarrow> buffer_data v fw
        | FHeaders v \<Rightarrow> buffer_block (headers_encode H into_iter v (fw_hpack fw) (limited_write_buf fw)) fw
        | FPushPromise v \<Rightarrow> buffer_block (push_promise_encode H into_iter v (fw_hpack fw) (limited_write_buf fw)) fw
        | FSettings v \<Rightarrow> append (settings_encode v)
        | FGoAway v \<Rightarrow> append (go_away_encode v)
        | FPing v \<Rightarrow> append (ping_encode v)
        | FWindowUpdate v \<Rightarrow> append (window_update_encode v)
        | FPriority _ \<Rightarrow> (Panic, fw)
        | FReset v \<Rightarrow> append (reset_encode v))"

section \<open>Flushing\<close>

definition next_chunk :: "framed_write \<Rightarrow> bytes" where
  "next_chunk fw =
     (case fw_next fw of
        Some (Next_Data frame) \<Rightarrow> if buf_rest fw \<noteq> [] then buf_rest fw else data_data frame
      | _ \<Rightarrow> buf_rest fw)"

definition writer_advance :: "nat \<Rightarrow> framed_write \<Rightarrow> framed_write" where
  "writer_advance n fw =
     (let k = min n (length (buf_rest fw)) in
      case fw_next fw of
        Some (Next_Data frame) \<Rightarrow>
          fw\<lparr>fw_pos := fw_pos fw + k, fw_next := Some (Next_Data (frame\<lparr>data_data := drop (n - k) (data_data frame)\<rparr>))\<rparr>
      | _ \<Rightarrow> fw\<lparr>fw_pos := fw_pos fw + k\<rparr>)"

text \<open>\<open>None\<close> is a panic.\<close>

definition next_continuation :: "(hname \<Rightarrow> u64) \<Rightarrow> continuation \<Rightarrow> framed_write \<Rightarrow> framed_write option" where
  "next_continuation H c fw =
     (case continuation_encode H c (fw_hpack fw) (limited_write_buf fw) of
        None \<Rightarrow> None
      | Some (continuation, e, d) \<Rightarrow>
          let fw = fw\<lparr>fw_hpack := e, fw_buf := dst_bytes d\<rparr> in
          (case continuation of
             Some c \<Rightarrow>
               if length (fw_buf fw) = HEADER_LEN then None
               else Some (fw\<lparr>fw_next := Some (Next_Continuation c)\<rparr>)
           | None \<Rightarrow> Some fw))"

lemma continuation_encode_ne: "continuation_encode H c e d = Some (c', e', d') \<Longrightarrow> dst_bytes d' \<noteq> []"
  by (auto simp: continuation_encode_def block_encode_def patch_head_def Let_def be_u24_def
      split: prod.splits result.splits option.splits if_splits)

lemma next_continuation_ne:
  assumes "next_continuation H c fw = Some fw'" "fw_pos fw = 0" "fw_next fw = None"
  shows "\<not> writer_is_empty fw'"
  using assms continuation_encode_ne
  by (fastforce simp: next_continuation_def writer_is_empty_def buf_rest_def Let_def split: option.splits prod.splits if_splits)

text \<open>
  \<open>flush\<close> need not return: \<open>None\<close> means that it goes round for ever. A transport that takes no byte time after time
  keeps it busy.
\<close>

partial_function (option) flush_loop ::
  "(hname \<Rightarrow> u64) \<Rightarrow> framed_write \<Rightarrow> transport \<Rightarrow> (unit io_answer \<times> framed_write \<times> transport) option" where
  "flush_loop H fw t =
     (if \<not> writer_is_empty fw then
        (case poll_write (next_chunk fw) t of
           (Ready (Ok n), t) \<Rightarrow> flush_loop H (writer_advance n fw) t
         | (Ready (Err e), t) \<Rightarrow> Some (Ready (Err e), fw, t)
         | (Ready Panic, t) \<Rightarrow> Some (Ready Panic, fw, t)
         | (Pending, t) \<Rightarrow> Some (Pending, fw, t))
      else
        let next = fw_next fw;
            fw = fw\<lparr>fw_pos := 0, fw_buf := [], fw_next := None\<rparr>
        in case next of
             Some (Next_Data frame) \<Rightarrow> Some (Ready (Ok ()), fw\<lparr>fw_last_data_frame := Some frame\<rparr>, t)
           | Some (Next_Continuation c) \<Rightarrow>
               (case next_continuation H c fw of
                  None \<Rightarrow> Some (Ready Panic, fw, t)
                | Some fw \<Rightarrow> flush_loop H fw t)
           | None \<Rightarrow> Some (Ready (Ok ()), fw, t))"

definition flush_writer ::
  "(hname \<Rightarrow> u64) \<Rightarrow> framed_write \<Rightarrow> transport \<Rightarrow> (unit io_answer \<times> framed_write \<times> transport) option" where
  "flush_writer H fw t =
     map_option (\<lambda>r. case r of
        (Ready (Ok _), fw, t) \<Rightarrow> (case poll_flush t of (a, t) \<Rightarrow> (a, fw, t))
      | r \<Rightarrow> r) (flush_loop H fw t)"

definition writer_poll_ready ::
  "(hname \<Rightarrow> u64) \<Rightarrow> framed_write \<Rightarrow> transport \<Rightarrow> (unit io_answer \<times> framed_write \<times> transport) option" where
  "writer_poll_ready H fw t =
     (if \<not> has_capacity fw then
        map_option (\<lambda>r. case r of
           (Ready (Ok _), fw, t) \<Rightarrow> (if \<not> has_capacity fw then Pending else Ready (Ok ()), fw, t)
         | r \<Rightarrow> r) (flush_writer H fw t)
      else Some (Ready (Ok ()), fw, t))"

definition shutdown ::
  "(hname \<Rightarrow> u64) \<Rightarrow> framed_write \<Rightarrow> transport \<Rightarrow> (unit io_answer \<times> framed_write \<times> transport) option" where
  "shutdown H fw t =
     map_option (\<lambda>r. case r of
        (Ready (Ok _), fw, t) \<Rightarrow> (case poll_close t of (a, t) \<Rightarrow> (a, fw, t))
      | r \<Rightarrow> r) (flush_writer H fw t)"

section \<open>What the writer still owes\<close>

text \<open>The CONTINUATION frames that follow, with the encoder after the last one.\<close>

inductive continuation_run ::
  "(hname \<Rightarrow> u64) \<Rightarrow> dst_buf \<Rightarrow> encoder \<Rightarrow> continuation \<Rightarrow> bytes list \<Rightarrow> encoder \<Rightarrow> bool" for H d where
  run_last: "continuation_encode H c e d = Some (None, e', d') \<Longrightarrow> continuation_run H d e c [dst_bytes d'] e'"
| run_more: "continuation_encode H c e d = Some (Some c', e1, d') \<Longrightarrow> length (dst_bytes d') \<noteq> HEADER_LEN \<Longrightarrow>
     continuation_run H d e1 c' raws e' \<Longrightarrow> continuation_run H d e c (dst_bytes d' # raws) e'"

definition fresh_buf :: "framed_write \<Rightarrow> dst_buf" where
  "fresh_buf fw = limited_write_buf (fw\<lparr>fw_buf := []\<rparr>)"

text \<open>\<open>owes H fw bs e\<close>: the bytes \<open>bs\<close> are still to be written, and the encoder will be \<open>e\<close> then.\<close>

definition owes :: "(hname \<Rightarrow> u64) \<Rightarrow> framed_write \<Rightarrow> bytes \<Rightarrow> encoder \<Rightarrow> bool" where
  "owes H fw bs e \<longleftrightarrow>
     (case fw_next fw of
        None \<Rightarrow> bs = buf_rest fw \<and> e = fw_hpack fw
      | Some (Next_Data frame) \<Rightarrow> bs = buf_rest fw @ data_data frame \<and> data_data frame \<noteq> [] \<and> e = fw_hpack fw
      | Some (Next_Continuation c) \<Rightarrow>
          \<exists>raws. continuation_run H (fresh_buf fw) (fw_hpack fw) c raws e \<and> bs = buf_rest fw @ concat raws)"

text \<open>In the middle of a flush a payload may be used up.\<close>

definition owes_rest :: "(hname \<Rightarrow> u64) \<Rightarrow> framed_write \<Rightarrow> bytes \<Rightarrow> encoder \<Rightarrow> bool" where
  "owes_rest H fw bs e \<longleftrightarrow> owes H fw bs e
     \<or> (\<exists>frame. fw_next fw = Some (Next_Data frame) \<and> data_data frame = [] \<and> buf_rest fw = [] \<and> bs = [] \<and> e = fw_hpack fw)"

lemma fresh_buf_simps [simp]:
  "fresh_buf (fw\<lparr>fw_pos := p\<rparr>) = fresh_buf fw" "fresh_buf (fw\<lparr>fw_next := x\<rparr>) = fresh_buf fw"
  "fresh_buf (fw\<lparr>fw_buf := b\<rparr>) = fresh_buf fw" "fresh_buf (fw\<lparr>fw_hpack := h\<rparr>) = fresh_buf fw"
  "fresh_buf (fw\<lparr>fw_last_data_frame := f\<rparr>) = fresh_buf fw"
  by (simp_all add: fresh_buf_def limited_write_buf_def writer_max_frame_size_def)

lemma buf_rest_simps [simp]:
  "buf_rest (fw\<lparr>fw_next := x\<rparr>) = buf_rest fw" "buf_rest (fw\<lparr>fw_hpack := h\<rparr>) = buf_rest fw"
  "buf_rest (fw\<lparr>fw_pos := fw_pos fw + k\<rparr>) = drop k (buf_rest fw)"
  by (simp_all add: buf_rest_def add.commute)

lemma owes_chunk: "owes H fw bs e \<Longrightarrow> \<exists>rest. bs = next_chunk fw @ rest"
  by (auto simp: owes_def next_chunk_def split: option.splits next_frame.splits)

lemma owes_advance:
  assumes "owes H fw bs e" "n \<le> length (next_chunk fw)"
  shows "owes_rest H (writer_advance n fw) (drop n bs) e"
proof -
  consider "fw_next fw = None" | frame where "fw_next fw = Some (Next_Data frame)"
    | c where "fw_next fw = Some (Next_Continuation c)"
    by (metis option.exhaust next_frame.exhaust)
  then show ?thesis
  proof cases
    case 2
    with assms show ?thesis
      by (cases "buf_rest fw = []") (auto simp: owes_rest_def owes_def writer_advance_def next_chunk_def Let_def)
  qed (use assms in \<open>auto simp: owes_rest_def owes_def writer_advance_def next_chunk_def Let_def\<close>)
qed

lemma owes_continuation:
  assumes "continuation_run H (fresh_buf fw) (fw_hpack fw) c raws e"
    "fw_buf fw = []" "fw_pos fw = 0" "fw_next fw = None"
  shows "\<exists>fw'. next_continuation H c fw = Some fw' \<and> owes H fw' (concat raws) e"
proof -
  have d: "limited_write_buf fw = fresh_buf fw"
    using assms(2) by (simp add: fresh_buf_def limited_write_buf_def writer_max_frame_size_def)
  from assms(1) show ?thesis
  proof cases
    case (run_last d')
    with d assms(2-4) show ?thesis by (simp add: next_continuation_def owes_def buf_rest_def Let_def)
  next
    case (run_more c' e1 d' raws')
    with d assms(2-4) show ?thesis by (auto simp: next_continuation_def owes_def buf_rest_def Let_def)
  qed
qed

text \<open>The state after a flush: a prefix of what was owed is out, and what is left is owed still.\<close>

definition flushed ::
  "(hname \<Rightarrow> u64) \<Rightarrow> u32 \<Rightarrow> bytes \<Rightarrow> encoder \<Rightarrow> transport \<Rightarrow> unit io_answer \<times> framed_write \<times> transport \<Rightarrow> bool" where
  "flushed H m bs e t res \<longleftrightarrow> (case res of (r, fw, t') \<Rightarrow>
     r \<noteq> Ready Panic \<and> fw_max_frame_size fw = m \<and> (\<exists>out rest. bs = out @ rest \<and> tr_wire t' = tr_wire t @ out \<and> owes_rest H fw rest e
       \<and> (r = Ready (Ok ()) \<longrightarrow> rest = [] \<and> fw_next fw = None \<and> fw_buf fw = [] \<and> fw_pos fw = 0 \<and> fw_hpack fw = e)))"

lemma flushed_later:
  assumes "flushed H m (drop n bs) e t' res" "tr_wire t' = tr_wire t @ take n bs"
  shows "flushed H m bs e t res"
proof -
  obtain r fw u where res: "res = (r, fw, u)" by (cases res)
  with assms(1) obtain out rest where "drop n bs = out @ rest" "tr_wire u = tr_wire t' @ out" "owes_rest H fw rest e"
    "r \<noteq> Ready Panic" "fw_max_frame_size fw = m"
    "r = Ready (Ok ()) \<longrightarrow> rest = [] \<and> fw_next fw = None \<and> fw_buf fw = [] \<and> fw_pos fw = 0 \<and> fw_hpack fw = e"
    by (auto simp: flushed_def)
  moreover from this(1) have "bs = (take n bs @ out) @ rest" by (metis append.assoc append_take_drop_id)
  ultimately show ?thesis
    using assms(2) unfolding flushed_def res
    by (intro case_prodI conjI exI [of _ "take n bs @ out"] exI [of _ rest]) simp_all
qed

lemma owes_rest_empty:
  assumes "owes_rest H fw bs e" "writer_is_empty fw"
  shows "(fw_next fw = None \<and> bs = [] \<and> e = fw_hpack fw) \<or> (\<exists>frame. fw_next fw = Some (Next_Data frame) \<and> bs = [] \<and> e = fw_hpack fw)
    \<or> (\<exists>c raws. fw_next fw = Some (Next_Continuation c) \<and> continuation_run H (fresh_buf fw) (fw_hpack fw) c raws e
      \<and> bs = concat raws)"
  using assms by (auto simp: owes_rest_def owes_def writer_is_empty_def split: option.splits next_frame.splits)

lemma owes_rest_not_empty: "owes_rest H fw bs e \<Longrightarrow> \<not> writer_is_empty fw \<Longrightarrow> owes H fw bs e"
  by (auto simp: owes_rest_def writer_is_empty_def)

lemma owes_keeps_max: "fw_max_frame_size (writer_advance n fw) = fw_max_frame_size fw"
  by (simp add: writer_advance_def Let_def split: option.splits next_frame.splits)

lemma next_continuation_max:
  "next_continuation H c fw = Some fw' \<Longrightarrow> fw_max_frame_size fw' = fw_max_frame_size fw"
  by (auto simp: next_continuation_def Let_def split: option.splits prod.splits if_splits)

text \<open>Flushing keeps to it, whatever the transport answers.\<close>

lemma flush_loop_flushed:
  assumes "flush_loop H fw t = Some res" "owes_rest H fw bs e"
  shows "flushed H (fw_max_frame_size fw) bs e t res"
proof -
  have "\<forall>bs. owes_rest H fw bs e \<longrightarrow> flushed H (fw_max_frame_size fw) bs e t res"
  proof (rule flush_loop.raw_induct [where P = "\<lambda>H fw t res. \<forall>bs. owes_rest H fw bs e \<longrightarrow> flushed H (fw_max_frame_size fw) bs e t res",
        OF _ assms(1)], intro allI impI, goal_cases)
    case (1 go H fw t res bs)
    have stop: "flushed H (fw_max_frame_size fw) bs e t (r, fw, t')"
      if "tr_wire t' = tr_wire t" "r \<noteq> Ready Panic" "r \<noteq> Ready (Ok ())" for r t'
      using that 1(3) by (auto simp: flushed_def intro!: exI [of _ "[]"])
    show ?case
    proof (cases "writer_is_empty fw")
      case False
      then have o: "owes H fw bs e" by (rule owes_rest_not_empty [OF 1(3)])
      then obtain rest where chunk: "bs = next_chunk fw @ rest" using owes_chunk by blast
      obtain a t' where w: "poll_write (next_chunk fw) t = (a, t')" by fastforce
      from w show ?thesis
      proof (cases rule: poll_write_cases)
        case (written n)
        have t': "tr_wire t' = tr_wire t @ take n bs" using written(2,3) by (simp add: chunk)
        have "go H (writer_advance n fw) t' = Some res" using 1(2) False w written(1) by simp
        from 1(1) [OF this] owes_advance [OF o written(2)]
        have "flushed H (fw_max_frame_size fw) (drop n bs) e t' res" by (auto simp: owes_keeps_max)
        then show ?thesis by (rule flushed_later [OF _ t'])
      next
        case stopped
        with 1(2) False w stop [of t' Pending] stop [of t' "Ready (Err x)" for x] show ?thesis
          by (auto split: io_poll.splits result.splits)
      qed
    next
      case True
      let ?fw = "fw\<lparr>fw_pos := 0, fw_buf := [], fw_next := None\<rparr>"
      from owes_rest_empty [OF 1(3) True] consider
          (none) "fw_next fw = None" "bs = []" "e = fw_hpack fw"
        | (data) frame where "fw_next fw = Some (Next_Data frame)" "bs = []" "e = fw_hpack fw"
        | (cont) c raws where "fw_next fw = Some (Next_Continuation c)"
            "continuation_run H (fresh_buf fw) (fw_hpack fw) c raws e" "bs = concat raws"
        by (elim disjE exE conjE) auto
      then show ?thesis
      proof cases
        case none
        with 1(2) True show ?thesis by (auto simp: Let_def flushed_def owes_rest_def owes_def buf_rest_def)
      next
        case (data frame)
        with 1(2) True show ?thesis by (auto simp: Let_def flushed_def owes_rest_def owes_def buf_rest_def)
      next
        case (cont c raws)
        have "continuation_run H (fresh_buf ?fw) (fw_hpack ?fw) c raws e" using cont(2) by simp
        from owes_continuation [OF this] obtain fw' where fw': "next_continuation H c ?fw = Some fw'" "owes H fw' bs e"
          using cont(3) by auto
        have "go H fw' t = Some res" using 1(2) True cont(1) fw'(1) by (simp add: Let_def)
        from 1(1) [OF this] fw'(2) have "flushed H (fw_max_frame_size fw') bs e t res" by (simp add: owes_rest_def)
        moreover have "fw_max_frame_size fw' = fw_max_frame_size fw" using next_continuation_max [OF fw'(1)] by simp
        ultimately show ?thesis by simp
      qed
    qed
  qed
  with assms(2) show ?thesis by blast
qed

lemma poll_write_flushes: "poll_write c t = (a, t') \<Longrightarrow> tr_flushes t' = tr_flushes t"
  by (auto simp: poll_write_def Let_def split: prod.splits io_poll.splits result.splits)

lemma flush_loop_flushes: "flush_loop H fw t = Some res \<Longrightarrow> tr_flushes (snd (snd res)) = tr_flushes t"
proof (rule flush_loop.raw_induct [where P = "\<lambda>H fw t res. tr_flushes (snd (snd res)) = tr_flushes t"], goal_cases)
  case (1 go H fw t res)
  then show ?case
    by (auto simp: Let_def dest!: poll_write_flushes split: if_splits prod.splits io_poll.splits
        result.splits option.splits next_frame.splits)
qed

text \<open>What is written next is not empty, unless everything is out.\<close>

lemma owes_chunk_ne: "owes H fw bs e \<Longrightarrow> \<not> writer_is_empty fw \<Longrightarrow> next_chunk fw \<noteq> []"
  by (auto simp: writer_is_empty_def next_chunk_def owes_def split: option.splits next_frame.splits)

text \<open>One round of the loop, for a writer that owes something: the answer of the transport, or the next frame.\<close>

lemma flush_loop_round:
  assumes "owes_rest H fw bs e"
  obtains (finished) fw' where "flush_loop H fw t = Some (Ready (Ok ()), fw', t)" "bs = []"
    | (frame) fw' where "writer_is_empty fw" "flush_loop H fw t = flush_loop H fw' t" "owes H fw' bs e" "\<not> writer_is_empty fw'"
    | (written) n where "\<not> writer_is_empty fw" "shd (tr_writes t) = Ready (Inr n)"
        "owes_rest H (writer_advance (min n (length (next_chunk fw))) fw) (drop (min n (length (next_chunk fw))) bs) e"
        "flush_loop H fw t = flush_loop H (writer_advance (min n (length (next_chunk fw))) fw)
           (t\<lparr>tr_wire := tr_wire t @ take (min n (length (next_chunk fw))) (next_chunk fw), tr_writes := stl (tr_writes t)\<rparr>)"
        "0 < length (next_chunk fw)" "length (next_chunk fw) \<le> length bs"
    | (stopped) r t' where "flush_loop H fw t = Some (r, fw, t')" "\<And>n. shd (tr_writes t) \<noteq> Ready (Inr n)" "bs \<noteq> []"
proof (cases "writer_is_empty fw")
  case False
  then have o: "owes H fw bs e" by (rule owes_rest_not_empty [OF assms])
  then obtain rest where chunk: "bs = next_chunk fw @ rest" using owes_chunk by blast
  with owes_chunk_ne [OF o False] have ne: "bs \<noteq> []" by simp
  show thesis
  proof (cases "shd (tr_writes t)")
    case (Ready a)
    show thesis
    proof (cases a)
      case (Inl x)
      with False Ready ne show thesis by (intro stopped) (simp_all add: flush_loop.simps [of H fw t] poll_write_def answer_def)
    next
      case (Inr n)
      with False Ready owes_advance [OF o, of "min n (length (next_chunk fw))"] owes_chunk_ne [OF o False] chunk show thesis
        by (intro written) (simp_all add: flush_loop.simps [of H fw t] poll_write_def answer_def Let_def min.commute)
    qed
  next
    case Pending
    with False ne show thesis by (intro stopped) (simp_all add: flush_loop.simps [of H fw t] poll_write_def answer_def)
  qed
next
  case True
  let ?fw = "fw\<lparr>fw_pos := 0, fw_buf := [], fw_next := None\<rparr>"
  from owes_rest_empty [OF assms True] consider
      (plain) "\<forall>c. fw_next fw \<noteq> Some (Next_Continuation c)" "bs = []"
    | (cont) c raws where "fw_next fw = Some (Next_Continuation c)"
        "continuation_run H (fresh_buf fw) (fw_hpack fw) c raws e" "bs = concat raws"
    by (elim disjE exE conjE) auto
  then show thesis
  proof cases
    case plain
    then consider "fw_next fw = None" | f where "fw_next fw = Some (Next_Data f)"
      by (metis option.exhaust next_frame.exhaust)
    then show thesis
      by cases (use True plain(2) finished in \<open>auto simp: flush_loop.simps [of H fw t] Let_def\<close>)
  next
    case (cont c raws)
    have "continuation_run H (fresh_buf ?fw) (fw_hpack ?fw) c raws e" using cont(2) by simp
    from owes_continuation [OF this] obtain fw' where fw': "next_continuation H c ?fw = Some fw'" "owes H fw' bs e"
      using cont(3) by auto
    moreover have "\<not> writer_is_empty fw'" by (rule next_continuation_ne [OF fw'(1)]) simp_all
    ultimately show thesis using True cont(1) by (intro frame) (simp_all add: flush_loop.simps [of H fw t] Let_def)
  qed
qed

text \<open>A transport that does not answer \<open>Ok(0)\<close> for ever lets the loop come to an end.\<close>

lemma Least_stl:
  assumes "shd s = z" "\<exists>j. s !! j \<noteq> z"
  shows "(LEAST j. stl s !! j \<noteq> z) < (LEAST j. s !! j \<noteq> z)"
proof -
  let ?l = "LEAST j. s !! j \<noteq> z"
  have l: "s !! ?l \<noteq> z" by (rule LeastI_ex [OF assms(2)])
  with assms(1) obtain k where k: "?l = Suc k" by (cases ?l) auto
  with l have "stl s !! k \<noteq> z" by simp
  then have "(LEAST j. stl s !! j \<noteq> z) \<le> k" by (rule Least_le)
  with k show ?thesis by simp
qed

lemma flush_loop_returns:
  assumes "owes_rest H fw bs e" "\<forall>k. \<exists>j\<ge>k. tr_writes t !! j \<noteq> Ready (Inr 0)"
  shows "flush_loop H fw t \<noteq> None"
  using assms
proof (induction "(bs, fw, t)" arbitrary: bs fw t rule: wf_induct_rule [OF wf_measures [of "[\<lambda>(bs, fw, t). length bs,
    \<lambda>(bs, fw, t). LEAST j. tr_writes t !! j \<noteq> Ready (Inr 0), \<lambda>(bs, fw, t). if writer_is_empty fw then 1 else 0]"]])
  case (1 bs fw t)
  have later: "\<forall>k. \<exists>j\<ge>k. stl (tr_writes t) !! j \<noteq> Ready (Inr 0)"
  proof
    fix k
    obtain j where "Suc k \<le> j" "tr_writes t !! j \<noteq> Ready (Inr 0)" using 1(3) by blast
    then show "\<exists>j\<ge>k. stl (tr_writes t) !! j \<noteq> Ready (Inr 0)" by (cases j) auto
  qed
  from 1(2) show ?case
  proof (cases rule: flush_loop_round [where t = t])
    case (frame fw')
    with 1(1) [of bs fw' t] 1(3) show ?thesis by (auto simp: owes_rest_def)
  next
    case (written n)
    let ?m = "min n (length (next_chunk fw))"
    let ?t = "t\<lparr>tr_wire := tr_wire t @ take ?m (next_chunk fw), tr_writes := stl (tr_writes t)\<rparr>"
    have "((drop ?m bs, writer_advance ?m fw, ?t), (bs, fw, t)) \<in> measures [\<lambda>(bs, fw, t). length bs,
        \<lambda>(bs, fw, t). LEAST j. tr_writes t !! j \<noteq> Ready (Inr 0), \<lambda>(bs, fw, t). if writer_is_empty fw then 1 else 0]"
    proof (cases "n = 0")
      case True
      with written(2) 1(3) Least_stl [of "tr_writes t" "Ready (Inr 0)"] show ?thesis by auto
    next
      case False
      then have "length bs - ?m < length bs" using written(5,6) by (simp add: min_def del: length_greater_0_conv)
      then show ?thesis by simp
    qed
    from 1(1) [OF this written(3)] later written(4) show ?thesis by simp
  qed simp_all
qed

lemma flush_loop_ends:
  assumes "owes_rest H fw bs e" "\<forall>i<length bs. \<exists>n>0. tr_writes t !! i = Ready (Inr n)"
  shows "\<exists>fw' t'. flush_loop H fw t = Some (Ready (Ok ()), fw', t')"
  using assms
proof (induction "(bs, fw, t)" arbitrary: bs fw t rule: wf_induct_rule [OF wf_measures [of "[\<lambda>(bs, fw, t). length bs,
    \<lambda>(bs, fw, t). if writer_is_empty fw then 1 else 0]"]])
  case (1 bs fw t)
  from 1(2) show ?case
  proof (cases rule: flush_loop_round [where t = t])
    case (frame fw')
    with 1(1) [of bs fw' t] 1(3) show ?thesis by (auto simp: owes_rest_def)
  next
    case (written n)
    let ?m = "min n (length (next_chunk fw))"
    have "0 < length bs" using written(5,6) by linarith
    with 1(3) written(2) have n: "0 < n" by fastforce
    then have "length bs - ?m < length bs" using written(5,6) by (simp add: min_def del: length_greater_0_conv)
    have "\<exists>k>0. stl (tr_writes t) !! i = Ready (Inr k)" if "i < length (drop ?m bs)" for i
    proof -
      have "i < length bs - ?m" "0 < ?m" using that n written(5) by (simp_all del: length_greater_0_conv)
      then have "Suc i < length bs" by linarith
      with 1(3) show ?thesis by force
    qed
    with 1(1) [OF _ written(3), of "t\<lparr>tr_wire := tr_wire t @ take ?m (next_chunk fw), tr_writes := stl (tr_writes t)\<rparr>"]
      n written(4) \<open>length bs - ?m < length bs\<close> show ?thesis by simp
  next
    case (stopped r t')
    with 1(3) have "\<exists>n. tr_writes t !! 0 = Ready (Inr n)" by blast
    with stopped(2) show ?thesis by simp
  qed simp_all
qed

text \<open>A transport that always answers \<open>Ok(0)\<close> keeps the loop going.\<close>

lemma writer_advance_0: "writer_advance 0 fw = fw"
  by (cases fw) (auto simp: writer_advance_def split: option.split next_frame.split)

lemma flush_loop_spins:
  assumes "\<not> writer_is_empty fw" "tr_writes t = sconst (Ready (Inr 0))"
  shows "flush_loop H fw t = None"
proof -
  have "\<not> (\<not> writer_is_empty fw \<and> tr_writes t = sconst (Ready (Inr 0)))" if "flush_loop H fw t = Some res" for res
  proof (rule flush_loop.raw_induct [where P = "\<lambda>H fw t res. \<not> (\<not> writer_is_empty fw \<and> tr_writes t = sconst (Ready (Inr 0)))",
        OF _ that], goal_cases)
    case (1 go H fw t res)
    show ?case
    proof
      assume stuck: "\<not> writer_is_empty fw \<and> tr_writes t = sconst (Ready (Inr 0))"
      with 1(2) have "go H fw (t\<lparr>tr_writes := sconst (Ready (Inr 0))\<rparr>) = Some res"
        by (simp add: poll_write_def answer_def writer_advance_0)
      from 1(1) [OF this] stuck show False by simp
    qed
  qed
  with assms show ?thesis by (cases "flush_loop H fw t") auto
qed

section \<open>The frames of a header block\<close>

fun block_frames :: "head \<Rightarrow> bytes \<Rightarrow> bytes list \<Rightarrow> bytes list" where
  "block_frames h extra [] = []"
| "block_frames h extra [p] = [wire_frame h (extra @ p)]"
| "block_frames h extra (p # q # ps) = wire_frame (more_follows h) (extra @ p) #
     block_frames (head_new Kind_Continuation H_END_HEADERS (head_stream_id h)) [] (q # ps)"

lemma block_frames_more:
  "ps \<noteq> [] \<Longrightarrow> block_frames h extra (p # ps) = wire_frame (more_follows h) (extra @ p) #
     block_frames (head_new Kind_Continuation H_END_HEADERS (head_stream_id h)) [] ps"
  by (cases ps) auto

definition fragments_ok :: "http_lib \<Rightarrow> (hname \<Rightarrow> u64) \<Rightarrow> nat \<Rightarrow> nat \<Rightarrow> dyn \<Rightarrow> bytes header list \<Rightarrow> rep list list \<Rightarrow> encoder \<Rightarrow> bool" where
  "fragments_ok L H limit m peer todo rss e \<longleftrightarrow> rss \<noteq> [] \<and> table_ok H (enc_table_of e) \<and> enc_size_update e = None
     \<and> list_all (\<lambda>rs. list_all rep_ok rs \<and> length (fragment rs) \<le> m) rss
     \<and> fragments_meaning L limit rss peer = Ok (map received todo, dyn_of_encoder e)"

lemma continuation_run_exists:
  assumes "table_ok H (enc_table_of e)" "enc_size_update e = None"
    "unsent (enc_table_of e) (eb_hpack (ct_block c)) (eb_headers (ct_block c)) todo peer"
    "list_all (sendable L) todo" "\<forall>h\<in>set todo. header_room h < m" "m < 2 ^ 24"
  shows "\<exists>raws e' rss. continuation_run H \<lparr>dst_bytes = [], dst_room = m + HEADER_LEN\<rparr> e c raws e'
    \<and> raws = block_frames (continuation_head c) [] (map fragment rss) \<and> fragments_ok L H limit m peer todo rss e'"
  using assms
proof (induction "length todo" arbitrary: todo e c peer rule: less_induct)
  case less
  let ?d = "\<lparr>dst_bytes = [], dst_room = m + HEADER_LEN\<rparr>"
  have "frame_sent L H limit (continuation_head c) [] ?d peer todo True (continuation_encode H c e ?d)"
    by (rule continuation_sent [OF less.prems(1-4)]) (use less.prems(5,6) in auto)
  then obtain c' e1 d' rs early rest peer' where *:
    "continuation_encode H c e ?d = Some (c', e1, d')" "table_ok H (enc_table_of e1)" "enc_size_update e1 = None"
    "dst_bytes d' = dst_bytes ?d @ wire_frame (if c' = None then continuation_head c else more_follows (continuation_head c)) ([] @ fragment rs)"
    "HEADER_LEN + length ([] :: bytes) + length (fragment rs) \<le> dst_room ?d" "list_all rep_ok rs" "todo = early @ rest"
    "block_meaning L limit True rs peer = Ok (map received early, peer')"
    "case c' of None \<Rightarrow> rest = [] \<and> peer' = dyn_of_encoder e1
      | Some c1 \<Rightarrow> ct_stream_id c1 = head_stream_id (continuation_head c) \<and> eb_hpack (ct_block c1) \<noteq> None
          \<and> unsent (enc_table_of e1) (eb_hpack (ct_block c1)) (eb_headers (ct_block c1)) rest peer'"
    "True \<longrightarrow> c' = None \<or> early \<noteq> [] \<and> fragment rs \<noteq> []"
    unfolding frame_sent_def by blast
  show ?case
  proof (cases c')
    case None
    have run: "continuation_run H ?d e c [wire_frame (continuation_head c) (fragment rs)] e1"
      using run_last [of H c e ?d e1 d'] *(1,4) None by simp
    show ?thesis
      by (intro exI [of _ "[wire_frame (continuation_head c) (fragment rs)]"] exI [of _ e1] exI [of _ "[rs]"])
        (use run None *(2,3,5-9) in \<open>simp add: fragments_ok_def\<close>)
  next
    case (Some c1)
    with *(9,10) have later: "ct_stream_id c1 = ct_stream_id c" "early \<noteq> []" "fragment rs \<noteq> []"
      "unsent (enc_table_of e1) (eb_hpack (ct_block c1)) (eb_headers (ct_block c1)) rest peer'"
      by (auto simp: continuation_head_def head_new_def)
    from *(7) later(2) have shorter: "length rest < length todo" by (cases early) auto
    have rest: "list_all (sendable L) rest" "\<forall>h\<in>set rest. header_room h < m" using less.prems(4,5) *(7) by auto
    obtain raws e' rss where ih: "continuation_run H ?d e1 c1 raws e'"
      "raws = block_frames (continuation_head c1) [] (map fragment rss)" "fragments_ok L H limit m peer' rest rss e'"
      using less.hyps [OF shorter *(2,3) later(4) rest less.prems(6)] by blast
    let ?raw = "wire_frame (more_follows (continuation_head c)) (fragment rs)"
    have "dst_bytes d' = ?raw" using *(4) Some by simp
    moreover have "length ?raw \<noteq> HEADER_LEN" using later(3) by (simp add: wire_frame_def del: concat_eq_Nil_conv)
    ultimately have run: "continuation_run H ?d e c (?raw # raws) e'"
      using run_more [of H c e ?d c1 e1 d' raws e'] *(1) Some ih(1) by simp
    have rss: "rss \<noteq> []" using ih(3) by (simp add: fragments_ok_def)
    have frames: "?raw # raws = block_frames (continuation_head c) [] (map fragment (rs # rss))"
      using rss ih(2) by (simp add: block_frames_more continuation_head_def head_new_def later(1))
    have "fragments_ok L H limit m peer todo (rs # rss) e'"
      using ih(3) *(5-8) by (simp add: fragments_ok_def)
    with run frames show ?thesis by blast
  qed
qed

text \<open>The first frame, and those after it.\<close>

definition writer_ok :: "framed_write \<Rightarrow> bool" where
  "writer_ok fw \<longleftrightarrow> fw_pos fw \<le> length (fw_buf fw) \<and> 10 < writer_max_frame_size fw \<and> writer_max_frame_size fw < 2 ^ 24
     \<and> length (fw_buf fw) + writer_max_frame_size fw + HEADER_LEN < 2 ^ 64"

lemma limited_write_buf_ok:
  "writer_ok fw \<Longrightarrow> limited_write_buf fw = \<lparr>dst_bytes = fw_buf fw, dst_room = writer_max_frame_size fw + HEADER_LEN\<rparr>"
  "writer_ok fw \<Longrightarrow> fresh_buf fw = \<lparr>dst_bytes = [], dst_room = writer_max_frame_size fw + HEADER_LEN\<rparr>"
  by (auto simp: writer_ok_def limited_write_buf_def fresh_buf_def remaining_mut_def writer_max_frame_size_def)

lemma buffer_block_owes:
  assumes "fw_next fw = None" "writer_ok fw" "in_step H limit (fw_hpack fw) dec" "expanded None (eb_headers b) = Some todo"
    "eb_hpack b = None" "list_all (sendable L) todo" "\<forall>h\<in>set todo. header_room h < writer_max_frame_size fw"
    "length extra + 10 < writer_max_frame_size fw"
  shows "\<exists>fw' rss e. buffer_block (block_encode H head extra b (fw_hpack fw) (limited_write_buf fw)) fw = (Ok (), fw')
    \<and> owes H fw' (buf_rest fw @ concat (block_frames head extra (map fragment rss))) e
    \<and> fragments_ok L H limit (writer_max_frame_size fw) (dyn_of_encoder (fw_hpack fw)) todo rss e"
proof -
  let ?m = "writer_max_frame_size fw" and ?e = "fw_hpack fw"
  note d = limited_write_buf_ok [OF assms(2)]
  have "frame_sent L H limit head extra (limited_write_buf fw) (dyn_of_encoder ?e) todo False
      (block_encode H head extra b ?e (limited_write_buf fw))"
    by (rule first_frame_sent [OF _ _ assms(4,5,6)]) (use assms(2,3,8) in \<open>auto simp: in_step_def d writer_ok_def\<close>)
  then obtain c e1 d' rs early rest peer' where *:
    "block_encode H head extra b ?e (limited_write_buf fw) = Some (c, e1, d')" "table_ok H (enc_table_of e1)"
    "enc_size_update e1 = None"
    "dst_bytes d' = dst_bytes (limited_write_buf fw) @ wire_frame (if c = None then head else more_follows head) (extra @ fragment rs)"
    "HEADER_LEN + length extra + length (fragment rs) \<le> dst_room (limited_write_buf fw)" "list_all rep_ok rs" "todo = early @ rest"
    "block_meaning L limit True rs (dyn_of_encoder ?e) = Ok (map received early, peer')"
    "case c of None \<Rightarrow> rest = [] \<and> peer' = dyn_of_encoder e1
      | Some c \<Rightarrow> ct_stream_id c = head_stream_id head \<and> eb_hpack (ct_block c) \<noteq> None
          \<and> unsent (enc_table_of e1) (eb_hpack (ct_block c)) (eb_headers (ct_block c)) rest peer'"
    unfolding frame_sent_def by blast
  let ?fw = "fw\<lparr>fw_hpack := e1, fw_buf := dst_bytes d',
    fw_next := (case c of Some c \<Rightarrow> Some (Next_Continuation c) | None \<Rightarrow> fw_next fw)\<rparr>"
  have run: "buffer_block (block_encode H head extra b ?e (limited_write_buf fw)) fw = (Ok (), ?fw)"
    by (simp add: buffer_block_def *(1))
  have rest_buf: "buf_rest (fw\<lparr>fw_hpack := e1, fw_buf := dst_bytes d'\<rparr>) = buf_rest fw @ wire_frame (if c = None then head else more_follows head) (extra @ fragment rs)"
    using *(4) assms(2) by (simp add: buf_rest_def d(1) writer_ok_def)
  have room: "length (fragment rs) \<le> ?m" using *(5) by (simp add: d)
  show ?thesis
  proof (cases c)
    case None
    with * room have "fragments_ok L H limit ?m (dyn_of_encoder ?e) todo [rs] e1" by (simp add: fragments_ok_def)
    moreover have "owes H ?fw (buf_rest fw @ concat (block_frames head extra (map fragment [rs]))) e1"
      using None rest_buf assms(1) by (simp add: owes_def)
    ultimately show ?thesis using run by blast
  next
    case (Some c1)
    with *(9) have later: "ct_stream_id c1 = head_stream_id head"
      "unsent (enc_table_of e1) (eb_hpack (ct_block c1)) (eb_headers (ct_block c1)) rest peer'" by auto
    have "list_all (sendable L) rest" "\<forall>h\<in>set rest. header_room h < ?m" "?m < 2 ^ 24"
      using assms(2,6,7) *(7) by (auto simp: writer_ok_def)
    from continuation_run_exists [OF *(2,3) later(2) this] obtain raws e' rss where r:
      "continuation_run H \<lparr>dst_bytes = [], dst_room = ?m + HEADER_LEN\<rparr> e1 c1 raws e'"
      "raws = block_frames (continuation_head c1) [] (map fragment rss)" "fragments_ok L H limit ?m peer' rest rss e'"
      by blast
    have "rss \<noteq> []" using r(3) by (simp add: fragments_ok_def)
    then have frames: "block_frames head extra (map fragment (rs # rss)) =
        wire_frame (more_follows head) (extra @ fragment rs) # raws"
      by (simp add: block_frames_more r(2) continuation_head_def head_new_def later(1))
    have "fresh_buf ?fw = \<lparr>dst_bytes = [], dst_room = ?m + HEADER_LEN\<rparr>" using d(2) by simp
    then have "owes H ?fw (buf_rest fw @ concat (block_frames head extra (map fragment (rs # rss)))) e'"
      using Some r(1) unfolding frames owes_def by (auto simp: rest_buf intro!: exI [of _ raws])
    moreover have "fragments_ok L H limit ?m (dyn_of_encoder ?e) todo (rs # rss) e'"
      using r(3) *(6-8) room by (simp add: fragments_ok_def)
    ultimately show ?thesis using run by blast
  qed
qed

text \<open>The receiving side: the fragments go through its decoder one after the other.\<close>

fun decode_fragments :: "http_lib \<Rightarrow> hpack_decoder \<Rightarrow> bytes list \<Rightarrow> (bytes header list \<times> hpack_decoder) option" where
  "decode_fragments L d [] = Some ([], d)"
| "decode_fragments L d (p # ps) =
     (case hpack_decode L (\<lambda>h acc. acc @ [h]) ((d, cursor_new p), []) of
        (Ok _, (d, c), hs) \<Rightarrow>
          if cur_data c \<noteq> [] then None else map_option (\<lambda>(hs', d). (hs @ hs', d)) (decode_fragments L d ps)
      | _ \<Rightarrow> None)"

lemma decode_fragments_ok:
  assumes "fragments_meaning L limit rss t = Ok (hs, t')" "decoder_at t limit d" "list_all (list_all rep_ok) rss"
  shows "\<exists>d'. decode_fragments L d (map fragment rss) = Some (hs, d') \<and> decoder_at t' limit d'"
  using assms
proof (induction rss arbitrary: t d hs)
  case (Cons rs rss)
  from Cons.prems(1) obtain hs1 t1 hs2 where m: "block_meaning L limit True rs t = Ok (hs1, t1)"
    "fragments_meaning L limit rss t1 = Ok (hs2, t')" "hs = hs1 @ hs2"
    by (auto simp: rbind_eq_Ok)
  have "list_all rep_ok rs" using Cons.prems(3) by simp
  from hpack_decode_at [OF this Cons.prems(2), where L = L and f = "\<lambda>h acc. acc @ [h]" and acc = "[]"] m(1)
  obtain d1 c1 where "hpack_decode L (\<lambda>h acc. acc @ [h]) ((d, cursor_new (fragment rs)), []) = (Ok (), (d1, c1), hs1)"
    "cur_data c1 = []" "decoder_at t1 limit d1"
    by (auto simp: fold_snoc)
  with Cons.IH [OF m(2), of d1] Cons.prems(3) m(3) show ?case by auto
qed simp

section \<open>Properties\<close>

text \<open>
  C28: the bytes \<open>bs\<close> are owed, which includes that the CONTINUATION frames can be
  built (\<open>growing_field_panics\<close> is about those that cannot). However the transport answers (it may take any part of what
  it is offered, be busy or fail), a flush that returns has neither panicked nor lost or repeated a byte: a prefix
  of \<open>bs\<close> is on the wire, the rest is still owed, and \<open>Ok\<close> means that there is no rest. A flush returns unless from some
  point on the transport takes no byte time after time. When every answer takes at least one byte, all of
  \<open>bs\<close> goes out and the result is that of flushing the transport. And a transport that always answers \<open>Ok(0)\<close> makes
  the loop spin for ever: the writer does not take it for an error.
\<close>

theorem writer_sends_what_it_owes:
  assumes "owes H fw bs e"
  shows "(\<forall>r fw' t'. flush_writer H fw t = Some (r, fw', t') \<longrightarrow>
       r \<noteq> Ready Panic
       \<and> (\<exists>out rest. bs = out @ rest \<and> tr_wire t' = tr_wire t @ out \<and> owes_rest H fw' rest e
           \<and> (r = Ready (Ok ()) \<longrightarrow> rest = [] \<and> has_capacity fw' \<and> fw_hpack fw' = e)))
    \<and> ((\<forall>k. \<exists>j\<ge>k. tr_writes t !! j \<noteq> Ready (Inr 0)) \<longrightarrow> flush_writer H fw t \<noteq> None)
    \<and> ((\<forall>i<length bs. \<exists>n>0. tr_writes t !! i = Ready (Inr n)) \<longrightarrow>
         (\<exists>fw' t'. flush_writer H fw t = Some (fst (answer (tr_flushes t)), fw', t') \<and> tr_wire t' = tr_wire t @ bs
            \<and> has_capacity fw'))
    \<and> (\<not> writer_is_empty fw \<and> tr_writes t = sconst (Ready (Inr 0)) \<longrightarrow> flush_writer H fw t = None)"
proof -
  have o: "owes_rest H fw bs e" using assms by (simp add: owes_rest_def)
  have cap: "has_capacity w" if "fw_next w = None" "fw_buf w = []" for w
    using that by (simp add: has_capacity_def remaining_mut_def MIN_BUFFER_CAPACITY_def CHAIN_THRESHOLD_def HEADER_LEN_def)
  have pf: "tr_wire (snd (poll_flush t1)) = tr_wire t1" "fst (poll_flush t1) \<noteq> Ready Panic" for t1
    using answer_no_panic by (auto simp: poll_flush_def split: prod.splits)
  have loop: "\<exists>out rest. bs = out @ rest \<and> tr_wire t1 = tr_wire t @ out \<and> owes_rest H fw1 rest e \<and> r1 \<noteq> Ready Panic
      \<and> (r1 = Ready (Ok ()) \<longrightarrow> rest = [] \<and> has_capacity fw1 \<and> fw_hpack fw1 = e)"
    if "flush_loop H fw t = Some (r1, fw1, t1)" for r1 fw1 t1
    using flush_loop_flushed [OF that o] cap unfolding flushed_def by auto
  have returned: "r \<noteq> Ready Panic \<and> (\<exists>out rest. bs = out @ rest \<and> tr_wire t' = tr_wire t @ out \<and> owes_rest H fw' rest e
        \<and> (r = Ready (Ok ()) \<longrightarrow> rest = [] \<and> has_capacity fw' \<and> fw_hpack fw' = e))"
    if run: "flush_writer H fw t = Some (r, fw', t')" for r fw' t'
  proof -
    obtain r1 fw1 t1 where l: "flush_loop H fw t = Some (r1, fw1, t1)"
      using run by (cases "flush_loop H fw t") (auto simp: flush_writer_def)
    then have "r \<noteq> Ready Panic \<and> tr_wire t' = tr_wire t1 \<and> fw' = fw1 \<and> (r = Ready (Ok ()) \<longrightarrow> r1 = Ready (Ok ()))"
      using run loop [OF l] pf [of t1] by (cases r1; cases "poll_flush t1")
        (auto simp: flush_writer_def split: result.splits)
    with loop [OF l] show ?thesis by auto
  qed
  have all: "\<exists>fw' t'. flush_writer H fw t = Some (fst (answer (tr_flushes t)), fw', t') \<and> tr_wire t' = tr_wire t @ bs \<and> has_capacity fw'"
    if bites: "\<forall>i<length bs. \<exists>n>0. tr_writes t !! i = Ready (Inr n)"
  proof -
    obtain fw1 t1 where l: "flush_loop H fw t = Some (Ready (Ok ()), fw1, t1)" using flush_loop_ends [OF o bites] by blast
    have "tr_flushes t1 = tr_flushes t" using flush_loop_flushes [OF l] by simp
    with loop [OF l] l pf(1) [of t1] show ?thesis
      by (auto simp: flush_writer_def poll_flush_def split: prod.splits)
  qed
  have "flush_writer H fw t \<noteq> None" if "\<forall>k. \<exists>j\<ge>k. tr_writes t !! j \<noteq> Ready (Inr 0)"
    using flush_loop_returns [OF o that] by (auto simp: flush_writer_def)
  moreover have "flush_writer H fw t = None" if "\<not> writer_is_empty fw" "tr_writes t = sconst (Ready (Inr 0))"
    using flush_loop_spins [OF that] by (simp add: flush_writer_def)
  ultimately show ?thesis using returned all by blast
qed

text \<open>A DATA frame behind two buffered bytes, taken in small bites; and a transport that takes nothing.\<close>

lemma writer_sends_what_it_owes_witness:
  defines "H \<equiv> \<lambda>_ :: hname. 0 :: u64"
  defines "w \<equiv> framed_write_new\<lparr>fw_buf := [1, 2], fw_next := Some (Next_Data \<lparr>data_stream_id = StreamId 1, data_data = [3, 4, 5],
    data_flags = 0, data_pad_len = None\<rparr>)\<rparr>"
  defines "t \<equiv> \<lambda>as. \<lparr>tr_wire = [], tr_writes = as, tr_flushes = sconst (Ready (Inr ())), tr_closes = sconst Pending\<rparr>"
  shows "(\<exists>fw' t'. flush_writer H w (t (sconst (Ready (Inr 2)))) = Some (Ready (Ok ()), fw', t') \<and> tr_wire t' = [1, 2, 3, 4, 5])
    \<and> flush_writer H w (t (sconst (Ready (Inr 0)))) = None"
proof -
  have "owes H w [1, 2, 3, 4, 5] (fw_hpack w)"
    by (simp add: owes_def w_def framed_write_new_def buf_rest_def)
  note sends = writer_sends_what_it_owes [OF this, THEN conjunct2, THEN conjunct2]
  have "\<not> writer_is_empty w" by (simp add: w_def writer_is_empty_def)
  with sends [of "t (sconst (Ready (Inr 0)))"] have "flush_writer H w (t (sconst (Ready (Inr 0)))) = None"
    by (simp add: t_def)
  moreover from sends [of "t (sconst (Ready (Inr 2)))", THEN conjunct1] have
    "\<exists>fw' t'. flush_writer H w (t (sconst (Ready (Inr 2)))) = Some (Ready (Ok ()), fw', t') \<and> tr_wire t' = [1, 2, 3, 4, 5]"
    by (auto simp: t_def answer_def)
  ultimately show ?thesis by simp
qed

text \<open>
  C29: a HEADERS frame is accepted by a writer with room, and what it owes from
  then on is a HEADERS frame and as many CONTINUATION frames as the block needs, END_HEADERS on the
  last one only, no frame larger than the peer allows. The decoder of the other side, given the fragments one by
  one, yields the pseudo-headers and fields of the frame and stays in step with the encoder.
\<close>

theorem header_block_on_the_wire:
  assumes "has_capacity fw" "writer_ok fw" "in_step H limit (fw_hpack fw) dec" "into_iter_ok M into_iter"
    "list_all (sendable L) (block_headers M (h_block f))"
    "\<forall>h\<in>set (block_headers M (h_block f)). header_room h < writer_max_frame_size fw"
  shows "\<exists>fw' frags e dec'. buffer_frame H into_iter (FHeaders f) fw = (Ok (), fw')
    \<and> owes H fw' (buf_rest fw @ concat (block_frames (headers_head f) [] frags)) e
    \<and> list_all (\<lambda>p. length p \<le> writer_max_frame_size fw) frags
    \<and> decode_fragments L dec frags = Some (map received (block_headers M (h_block f)), dec')
    \<and> in_step H limit e dec'"
proof -
  have idle: "fw_next fw = None" using assms(1) by (simp add: has_capacity_def)
  have fresh: "eb_hpack (into_encoding into_iter (h_block f)) = None" by (simp add: into_encoding_def)
  have room: "length ([] :: bytes) + 10 < writer_max_frame_size fw" using assms(2) by (simp add: writer_ok_def)
  obtain fw' rss e where b:
    "buffer_block (block_encode H (headers_head f) [] (into_encoding into_iter (h_block f)) (fw_hpack fw) (limited_write_buf fw)) fw
      = (Ok (), fw')"
    "owes H fw' (buf_rest fw @ concat (block_frames (headers_head f) [] (map fragment rss))) e"
    "fragments_ok L H limit (writer_max_frame_size fw) (dyn_of_encoder (fw_hpack fw)) (block_headers M (h_block f)) rss e"
    using buffer_block_owes [OF idle assms(2,3) expanded_block [OF assms(4)] fresh assms(5,6) room] by blast
  have "decoder_at (dyn_of_encoder (fw_hpack fw)) limit dec" using assms(3) by (simp add: in_step_def)
  moreover have "list_all (list_all rep_ok) rss" using b(3) by (auto simp: fragments_ok_def list_all_iff)
  ultimately obtain dec' where d: "decode_fragments L dec (map fragment rss) = Some (map received (block_headers M (h_block f)), dec')"
    "decoder_at (dyn_of_encoder e) limit dec'"
    using decode_fragments_ok b(3) unfolding fragments_ok_def by blast
  have "in_step H limit e dec'" using d(2) b(3) by (simp add: in_step_def fragments_ok_def)
  moreover have "list_all (\<lambda>p. length p \<le> writer_max_frame_size fw) (map fragment rss)"
    using b(3) by (auto simp: fragments_ok_def list_all_iff)
  ultimately show ?thesis
    using assms(1) b(1,2) d(1) by (auto simp: buffer_frame_def headers_encode_def)
qed

text \<open>A response with one field, on a new connection.\<close>

lemma header_block_on_the_wire_witness:
  defines "H \<equiv> \<lambda>_ :: hname. 0 :: u64"
  defines "f \<equiv> headers_new (StreamId 1) (pseudo_response (ascii ''200'')) [([0x78], \<lparr>hv_bytes = [0x79], hv_sensitive = True\<rparr>)]"
  shows "\<exists>fw' frags e dec'. buffer_frame H (map (\<lambda>(n, x). (Some n, x))) (FHeaders f) framed_write_new = (Ok (), fw')
    \<and> owes H fw' (concat (block_frames (headers_head f) [] frags)) e
    \<and> decode_fragments any_lib (hpack_decoder_new 4096) frags =
        Some ([Header_Status (ascii ''200''), Header_Field [0x78] \<lparr>hv_bytes = [0x79], hv_sensitive = False\<rparr>], dec')"
proof -
  have ok: "string_ok b \<and> length (pack (huffman_code b)) \<le> 28" if "length b \<le> 7" for b
    using that length_pack_code [of b] by (simp add: string_ok_def)
  have todo: "block_headers list_fields (h_block f) = [Header_Status (ascii ''200''), Header_Field [0x78] \<lparr>hv_bytes = [0x79], hv_sensitive = True\<rparr>]"
    by (simp add: block_headers_def f_def headers_new_def pseudo_response_def pseudo_default_def pseudo_list_def
        field_headers_def)
  have "string_ok [0x78]" "string_ok [0x79]" "string_ok (ascii '':status'')" "string_ok (ascii ''200'')"
    "length (pack (huffman_code [0x78])) \<le> 28" "length (pack (huffman_code [0x79])) \<le> 28"
    "length (pack (huffman_code (ascii '':status''))) \<le> 28" "length (pack (huffman_code (ascii ''200''))) \<le> 28"
    using ok [of "[0x78]"] ok [of "[0x79]"] ok [of "ascii '':status''"] ok [of "ascii ''200''"] by simp_all
  then have "list_all (sendable any_lib) (block_headers list_fields (h_block f))"
    "\<forall>h\<in>set (block_headers list_fields (h_block f)). header_room h < writer_max_frame_size framed_write_new"
    by (auto simp: todo sendable_def strings_ok_def any_lib_def header_room_def writer_max_frame_size_def framed_write_new_def
        DEFAULT_MAX_FRAME_SIZE_def ascii_def)
  moreover have "has_capacity framed_write_new" "writer_ok framed_write_new" "buf_rest framed_write_new = []"
    by (simp_all add: has_capacity_def writer_ok_def framed_write_new_def remaining_mut_def MIN_BUFFER_CAPACITY_def
        CHAIN_THRESHOLD_def HEADER_LEN_def writer_max_frame_size_def DEFAULT_MAX_FRAME_SIZE_def buf_rest_def)
  moreover have "in_step H 4096 (fw_hpack framed_write_new) (hpack_decoder_new 4096)"
    using in_step_new [of 4096 H] by (simp add: framed_write_new_def)
  moreover have "into_iter_ok list_fields (map (\<lambda>(n, x). (Some n, x)))"
  proof -
    have "expanded n (map (\<lambda>(n, v). Header_Field n v) (map (\<lambda>(n, x). (Some n, x)) m)) = Some (field_headers m)" for n and m :: field_list
      by (induction m arbitrary: n) (auto simp: field_headers_def)
    then show ?thesis by (simp add: into_iter_ok_def)
  qed
  ultimately show ?thesis
    using header_block_on_the_wire [of framed_write_new H 4096 "hpack_decoder_new 4096" list_fields
        "map (\<lambda>(n, x). (Some n, x))" any_lib f]
    by (fastforce simp: todo)
qed

section \<open>A field that grows\<close>

text \<open>A \<open>cookie\<close> is never entered in the table: its index is the static one.\<close>

abbreviation cookie :: "bytes \<Rightarrow> bytes header" where
  "cookie v \<equiv> Header_Field (ascii ''cookie'') \<lparr>hv_bytes = v, hv_sensitive = False\<rparr>"

lemma index_cookie: "table_index H (cookie v) t = Some (Ix_Name 32 (cookie v), t)"
proof -
  have "index_static (cookie v) = Some (32, False)" by (simp add: STATIC_FIELD_INDEX_def)
  then show ?thesis by (simp add: table_index_def SKIP_VALUE_NAMES_def Let_def)
qed

lemma encode_cookie_full:
  assumes "dst_room d < length (pack (huffman_code v))" "length (pack (huffman_code v)) \<le> 0x0fffffff" "v \<noteq> []"
  obtains x d' where "encode_not_indexed 32 v False d = (Err x, d')" "take (length (dst_bytes d)) (dst_bytes d') = dst_bytes d"
proof -
  have "writes (int_bytes 32 4 (literal_pattern (kind_of False)) @ hs_bytes (string_of v)) (encode_not_indexed 32 v False)"
    using assms(2) by (intro writes_not_indexed) (simp_all add: string_ok_def)
  then show ?thesis
  proof (cases rule: writesD [where d = d])
    case fits
    have "length (pack (huffman_code v)) \<le> length (hs_bytes (string_of v))"
      using assms(3) by (simp add: string_of_def Let_def)
    with fits(2) assms(1) show ?thesis by simp
  qed (use that in blast)
qed

text \<open>Neither the first attempt nor the second writes anything.\<close>

lemma encode_cookie:
  assumes "dst_room d < length (pack (huffman_code v))" "length (pack (huffman_code v)) \<le> 0x0fffffff" "v \<noteq> []"
    "enc_size_update e = None"
    "st = None \<and> hs = [Header_Field (Some (ascii ''cookie'')) \<lparr>hv_bytes = v, hv_sensitive = False\<rparr>]
      \<or> st = Some \<lparr>es_index = Ix_Name 32 (cookie v), es_value = None\<rparr> \<and> hs = []"
  shows "\<exists>d'. encode H st hs e d =
      Some (Partial \<lparr>es_index = Ix_Name 32 (cookie v), es_value = None\<rparr>, [], e, d') \<and> dst_bytes d' = dst_bytes d"
proof -
  obtain x d' where x: "encode_not_indexed 32 v False d = (Err x, d')" "take (length (dst_bytes d)) (dst_bytes d') = dst_bytes d"
    by (rule encode_cookie_full [OF assms(1-3)])
  have w: "with_encoder e (Some (r, hs, enc_table_of e, d)) = Some (r, hs, e, d)" for r hs and d :: dst_buf by simp
  show ?thesis
    using assms(5) x by (elim disjE)
      (auto simp: encode_def encode_no_updates [OF assms(4)] index_cookie rewind_def)
qed

lemma cookie_block:
  assumes "dst_room d < length (pack (huffman_code v))" "length (pack (huffman_code v)) \<le> 0x0fffffff" "v \<noteq> []"
    "enc_size_update e = None" "HEADER_LEN \<le> dst_room d"
    "eb_hpack b = None \<and> eb_headers b = [Header_Field (Some (ascii ''cookie'')) \<lparr>hv_bytes = v, hv_sensitive = False\<rparr>]
      \<or> eb_hpack b = Some \<lparr>es_index = Ix_Name 32 (cookie v), es_value = None\<rparr> \<and> eb_headers b = []"
  shows "\<exists>d'. block_encode H head [] b e d = Some (Some \<lparr>ct_stream_id = head_stream_id head,
      ct_block = \<lparr>eb_hpack = Some \<lparr>es_index = Ix_Name 32 (cookie v), es_value = None\<rparr>, eb_headers = []\<rparr>\<rparr>, e, d')
    \<and> dst_bytes d' = dst_bytes d @ wire_frame (more_follows head) []"
proof -
  let ?d = "d\<lparr>dst_bytes := dst_bytes d @ head_encode head 0 [] @ [], dst_room := dst_room d - HEADER_LEN - length ([] :: bytes)\<rparr>"
  have "dst_room ?d < length (pack (huffman_code v))" using assms(1) by simp
  from encode_cookie [OF this assms(2-4,6)] obtain d' where
    "encode H (eb_hpack b) (eb_headers b) e ?d =
      Some (Partial \<lparr>es_index = Ix_Name 32 (cookie v), es_value = None\<rparr>, [], e, d')" "dst_bytes d' = dst_bytes ?d" by blast
  from block_encode_eq [OF this(1), of "[]"] this(2) assms(5) show ?thesis by simp
qed

text \<open>
  C30: the check for fields that are too big looks at the length of the text, but
  what has to fit in a frame is its Huffman code, which is longer for bytes that are rare in HTTP. Such a field
  passes the check, the writer accepts the frame, and flushing it panics.
\<close>

theorem growing_field_panics:
  fixes v :: bytes and H :: "hname \<Rightarrow> u64" and sid :: stream_id and t :: transport
  assumes "v \<noteq> []" "length v \<le> MAX_HEADER_LENGTH - 38" "unat DEFAULT_MAX_FRAME_SIZE + HEADER_LEN < length (pack (huffman_code v))"
    "shd (tr_writes t) = Ready (Inr 9)"
  defines "f \<equiv> headers_trailers sid [(ascii ''cookie'', \<lparr>hv_bytes = v, hv_sensitive = False\<rparr>)]"
  shows "\<not> has_too_big_field list_fields (h_block f)
    \<and> (\<exists>fw. buffer_frame H (map (\<lambda>(n, x). (Some n, x))) (FHeaders f) framed_write_new = (Ok (), fw)
        \<and> map_option fst (flush_writer H fw t) = Some (Ready Panic))"
proof
  show "\<not> has_too_big_field list_fields (h_block f)"
    using assms(2) by (simp add: has_too_big_field_def f_def headers_trailers_def pseudo_default_def pseudo_size_def
        field_size_def decoded_header_size_def MAX_HEADER_LENGTH_def)
  let ?w = framed_write_new and ?v = "cookie v" and ?head = "headers_head f"
  let ?b = "into_encoding (map (\<lambda>(n, x). (Some n, x))) (h_block f)"
  let ?c = "\<lparr>ct_stream_id = head_stream_id ?head,
    ct_block = \<lparr>eb_hpack = Some \<lparr>es_index = Ix_Name 32 ?v, es_value = None\<rparr>, eb_headers = []\<rparr>\<rparr>"
  have small: "length (pack (huffman_code v)) \<le> 0x0fffffff"
    using assms(2) length_pack_code [of v] by (simp add: MAX_HEADER_LENGTH_def)
  have e: "enc_size_update (fw_hpack ?w) = None" by (simp add: framed_write_new_def encoder_new_def)
  have room: "limited_write_buf (?w\<lparr>fw_buf := [], fw_next := x\<rparr>) = \<lparr>dst_bytes = [], dst_room = unat DEFAULT_MAX_FRAME_SIZE + HEADER_LEN\<rparr>"
    "limited_write_buf ?w = \<lparr>dst_bytes = [], dst_room = unat DEFAULT_MAX_FRAME_SIZE + HEADER_LEN\<rparr>" for x
    by (simp_all add: limited_write_buf_def framed_write_new_def writer_max_frame_size_def remaining_mut_def
        DEFAULT_MAX_FRAME_SIZE_def HEADER_LEN_def)
  have b: "eb_hpack ?b = None" "eb_headers ?b = [Header_Field (Some (ascii ''cookie'')) \<lparr>hv_bytes = v, hv_sensitive = False\<rparr>]"
    by (simp_all add: into_encoding_def f_def headers_trailers_def iter_list_eq pseudo_headers_def pseudo_default_def)
  obtain d1 where d1: "block_encode H ?head [] ?b (fw_hpack ?w) (limited_write_buf ?w) = Some (Some ?c, fw_hpack ?w, d1)"
    "dst_bytes d1 = wire_frame (more_follows ?head) []"
    using cookie_block [of "limited_write_buf ?w" v "fw_hpack ?w" ?b H ?head] assms(1,3) small e b room(2) by auto
  let ?fw = "?w\<lparr>fw_buf := dst_bytes d1, fw_next := Some (Next_Continuation ?c)\<rparr>"
  have buffered: "buffer_frame H (map (\<lambda>(n, x). (Some n, x))) (FHeaders f) ?w = (Ok (), ?fw)"
    using d1(1) by (simp add: buffer_frame_def has_capacity_def remaining_mut_def MIN_BUFFER_CAPACITY_def CHAIN_THRESHOLD_def
        HEADER_LEN_def framed_write_new_def headers_encode_def buffer_block_def)
  let ?w0 = "?w\<lparr>fw_buf := [], fw_next := None\<rparr>"
  have "\<exists>d'. continuation_encode H ?c (fw_hpack ?w) (limited_write_buf ?w0) = Some (Some ?c, fw_hpack ?w, d')
      \<and> dst_bytes d' = wire_frame (more_follows (continuation_head ?c)) []"
    using cookie_block [of "limited_write_buf ?w0" v "fw_hpack ?w" "ct_block ?c" H "continuation_head ?c"]
      assms(1,3) small e room(1)
    by (simp add: continuation_encode_def) (simp add: continuation_head_def head_new_def)
  then have stuck: "next_continuation H ?c ?w0 = None"
    by (auto simp: next_continuation_def wire_frame_def Let_def)
  have len: "length (dst_bytes d1) = HEADER_LEN" by (simp add: d1(2) wire_frame_def)
  then have ne: "\<not> writer_is_empty ?fw" "next_chunk ?fw = dst_bytes d1"
    by (auto simp: writer_is_empty_def next_chunk_def buf_rest_def framed_write_new_def HEADER_LEN_def)
  have written: "writer_is_empty (?fw\<lparr>fw_pos := 9\<rparr>)" "writer_advance 9 ?fw = ?fw\<lparr>fw_pos := 9\<rparr>"
    using len by (auto simp: writer_is_empty_def writer_advance_def buf_rest_def framed_write_new_def HEADER_LEN_def)
  have w0: "?fw\<lparr>fw_pos := 0, fw_buf := [], fw_next := None\<rparr> = ?w0" by (simp add: framed_write_new_def)
  let ?t = "t\<lparr>tr_wire := tr_wire t @ dst_bytes d1, tr_writes := stl (tr_writes t)\<rparr>"
  have "poll_write (next_chunk ?fw) t = (Ready (Ok 9), ?t)"
    using len assms(4) by (simp add: poll_write_def answer_def ne(2) HEADER_LEN_def)
  then have "flush_loop H ?fw t = flush_loop H (?fw\<lparr>fw_pos := 9\<rparr>) ?t"
    using ne(1) written(2) by (subst flush_loop.simps) simp
  also have "\<dots> = Some (Ready Panic, ?w0, ?t)"
    using written(1) stuck w0 by (subst flush_loop.simps) (simp add: Let_def)
  finally have "map_option fst (flush_writer H ?fw t) = Some (Ready Panic)" by (simp add: flush_writer_def)
  with buffered show "\<exists>fw. buffer_frame H (map (\<lambda>(n, x). (Some n, x))) (FHeaders f) framed_write_new = (Ok (), fw)
        \<and> map_option fst (flush_writer H fw t) = Some (Ready Panic)" by blast
qed

lemma code_of_FF: "length (code_of 0xFF) = 26"
proof -
  have "ENCODE_TABLE ! 0xFF = encode_at 15 15"
    using encode_entry_eq [of 255] by (simp add: encode_entry_def)
  also have "\<dots> = (26, 0x3ffffee)"
    unfolding encode_at_def ENCODE_CHUNKS_def ENCODE_TABLE_15_def by simp
  finally show ?thesis unfolding code_of_def by (simp only: prod.case length_bits)
qed

lemma growing_field_panics_witness:
  defines "H \<equiv> \<lambda>_ :: hname. 0 :: u64"
  defines "f \<equiv> headers_trailers (StreamId 1) [(ascii ''cookie'', \<lparr>hv_bytes = replicate 6000 0xFF, hv_sensitive = False\<rparr>)]"
  shows "\<exists>fw. buffer_frame H (map (\<lambda>(n, x). (Some n, x))) (FHeaders f) framed_write_new = (Ok (), fw)
    \<and> map_option fst (flush_writer H fw \<lparr>tr_wire = [], tr_writes = sconst (Ready (Inr 9)), tr_flushes = sconst Pending,
        tr_closes = sconst Pending\<rparr>) = Some (Ready Panic)"
proof -
  obtain n and v :: bytes where v: "v = replicate n 0xFF" and n: "n = 6000" by blast
  have code: "length (huffman_code (replicate k 0xFF)) = 26 * k" for k
    by (induction k) (simp_all add: huffman_code_def code_of_FF)
  have "length (octets (huffman_code v)) = 19500" unfolding length_octets v code n by simp
  then have "19500 \<le> length (pack (huffman_code v))" by (simp add: pack_def)
  then have 1: "unat DEFAULT_MAX_FRAME_SIZE + HEADER_LEN < length (pack (huffman_code v))"
    by (simp add: DEFAULT_MAX_FRAME_SIZE_def HEADER_LEN_def)
  have len: "length v = n" unfolding v by (rule length_replicate)
  have 2: "length v \<le> MAX_HEADER_LENGTH - 38" unfolding len n by (simp add: MAX_HEADER_LENGTH_def)
  have 3: "v \<noteq> []" using len n by (metis list.size(3) zero_neq_numeral)
  have 4: "shd (tr_writes \<lparr>tr_wire = [], tr_writes = sconst (Ready (Inr 9)), tr_flushes = sconst Pending,
      tr_closes = sconst Pending\<rparr>) = Ready (Inr 9)" by simp
  show ?thesis
    using growing_field_panics [OF 3 2 1 4, of "StreamId 1" H] unfolding f_def v n by blast
qed

end
