(* ===== verification/Linked_Lists.thy ===== *)
theory Linked_Lists
  imports Rust_Prelude
begin

text \<open>
  Lists that are linked through their nodes: the queues of a connection (\<open>streams/store.rs\<close>) link
  streams through a field of the stream, the deques of frames and events (\<open>streams/buffer.rs\<close>) link
  the slots of a shared buffer. Both keep the keys of the first and of the last node. This theory
  holds the key pair, the slab the nodes live in, and what the two have in common, as a
  locale over the link field.
\<close>

section \<open>Slabs\<close>

text \<open>
  A slab (the crate \<open>slab\<close>) maps keys to values and chooses the key of an insertion among the
  vacant ones. The choice is the crate's: the model reads it from a list of wishes, which is
  arbitrary, and takes a key that was never used when the wished one is occupied or the list is
  empty. So every vacant key can be the outcome of an insertion.
\<close>

record 'a slab =
  slab_slots :: "'a option list"
  slab_wishes :: "nat list"

definition slab_new :: "nat list \<Rightarrow> 'a slab" where
  "slab_new wishes = \<lparr>slab_slots = [], slab_wishes = wishes\<rparr>"

definition slab_get :: "'a slab \<Rightarrow> nat \<Rightarrow> 'a option" where
  "slab_get s k = (if k < length (slab_slots s) then slab_slots s ! k else None)"

definition slab_vacant :: "'a slab \<Rightarrow> nat" where
  "slab_vacant s =
     (case slab_wishes s of
        [] \<Rightarrow> length (slab_slots s)
      | k # _ \<Rightarrow> (if slab_get s k = None then k else length (slab_slots s)))"

definition slab_set :: "nat \<Rightarrow> 'a option \<Rightarrow> 'a slab \<Rightarrow> 'a slab" where
  "slab_set k v s =
     s\<lparr>slab_slots := (slab_slots s @ replicate (Suc k - length (slab_slots s)) None)[k := v]\<rparr>"

definition slab_insert :: "'a \<Rightarrow> 'a slab \<Rightarrow> nat \<times> 'a slab" where
  "slab_insert v s =
     (let k = slab_vacant s in (k, slab_set k (Some v) (s\<lparr>slab_wishes := tl (slab_wishes s)\<rparr>)))"

text \<open>\<open>slab[k] = f(slab[k])\<close> and \<open>slab.remove(k)\<close>, which panic when there is no such value.\<close>

definition slab_update :: "nat \<Rightarrow> ('a \<Rightarrow> 'a) \<Rightarrow> 'a slab \<Rightarrow> ('a slab, 'e) result" where
  "slab_update k f s =
     (case slab_get s k of Some v \<Rightarrow> Ok (slab_set k (Some (f v)) s) | None \<Rightarrow> Panic)"

definition slab_remove :: "nat \<Rightarrow> 'a slab \<Rightarrow> ('a \<times> 'a slab, 'e) result" where
  "slab_remove k s =
     (case slab_get s k of Some v \<Rightarrow> Ok (v, slab_set k None s) | None \<Rightarrow> Panic)"

lemma slab_get_new [simp]: "slab_get (slab_new ws) k = None"
  by (simp add: slab_get_def slab_new_def)

lemma slab_get_set: "slab_get (slab_set k v s) j = (if j = k then v else slab_get s j)"
  by (auto simp: slab_get_def slab_set_def nth_append nth_list_update)

lemma slab_get_set_map [simp]: "slab_get (slab_set k v s) = (slab_get s)(k := v)"
  by (auto simp: slab_get_set)

lemma slab_get_wishes [simp]: "slab_get (s\<lparr>slab_wishes := ws\<rparr>) = slab_get s"
  by (auto simp: slab_get_def)

lemma slab_vacant_free [simp]: "slab_get s (slab_vacant s) = None"
  by (auto simp: slab_vacant_def slab_get_def split: list.splits)

lemma slab_insert_map:
  assumes "slab_insert v s = (k, s')"
  shows "slab_get s k = None" "slab_get s' = (slab_get s)(k \<mapsto> v)"
  using assms by (auto simp: slab_insert_def Let_def)

lemma slab_update_Ok: "slab_get s k = Some v \<Longrightarrow> slab_update k f s = Ok (slab_set k (Some (f v)) s)"
  by (simp add: slab_update_def)

lemma slab_remove_Ok: "slab_get s k = Some v \<Longrightarrow> slab_remove k s = Ok (v, slab_set k None s)"
  by (simp add: slab_remove_def)

text \<open>A sum over the values of a slab.\<close>

definition slab_sum :: "('a \<Rightarrow> 'b :: comm_monoid_add) \<Rightarrow> 'a slab \<Rightarrow> 'b" where
  "slab_sum f s = sum_list (map (\<lambda>v. case v of None \<Rightarrow> 0 | Some v \<Rightarrow> f v) (slab_slots s))"

lemma sum_list_replicate_0 [simp]: "sum_list (replicate n (0 :: 'b :: comm_monoid_add)) = 0"
  by (induction n) simp_all

lemma sum_list_change:
  fixes xs :: "'b :: comm_monoid_add list"
  assumes "k < length xs"
  shows "sum_list (xs[k := x]) + xs ! k = sum_list xs + x"
  using assms
proof (induction xs arbitrary: k)
  case (Cons y ys)
  then show ?case by (cases k) (simp_all add: ac_simps)
qed simp

lemma slab_sum_set:
  "slab_sum f (slab_set k v s) + (case slab_get s k of None \<Rightarrow> 0 | Some u \<Rightarrow> f u)
     = slab_sum f s + (case v of None \<Rightarrow> 0 | Some u \<Rightarrow> f u)"
proof -
  let ?g = "\<lambda>v. case v of None \<Rightarrow> 0 | Some v \<Rightarrow> f v"
  let ?xs = "slab_slots s @ replicate (Suc k - length (slab_slots s)) None"
  have k: "k < length (map ?g ?xs)" by simp
  have "map ?g ?xs ! k = ?g (slab_get s k)"
    by (auto simp: slab_get_def nth_append)
  with sum_list_change [OF k, of "?g v"] show ?thesis
    by (simp add: slab_sum_def slab_set_def map_update)
qed

lemma slab_sum_put:
  "slab_get s k = Some u \<Longrightarrow> slab_sum f (slab_set k (Some v) s) + f u = slab_sum f s + f v"
  using slab_sum_set [of f k "Some v" s] by simp

lemma slab_sum_delete:
  "slab_get s k = Some u \<Longrightarrow> slab_sum f (slab_set k None s) + f u = slab_sum f s"
  using slab_sum_set [of f k None s] by simp

lemma slab_sum_fresh:
  "slab_get s k = None \<Longrightarrow> slab_sum f (slab_set k (Some v) s) = slab_sum f s + f v"
  using slab_sum_set [of f k "Some v" s] by simp

lemma slab_sum_wishes [simp]: "slab_sum f (s\<lparr>slab_wishes := ws\<rparr>) = slab_sum f s"
  by (simp add: slab_sum_def)

lemma slab_sum_new [simp]: "slab_sum f (slab_new ws) = 0"
  by (simp add: slab_sum_def slab_new_def)

section \<open>Paths along links\<close>

datatype 'k indices = Indices (head_key: 'k) (tail_key: 'k)

fun path :: "('n \<Rightarrow> 'k option) \<Rightarrow> ('k \<rightharpoonup> 'n) \<Rightarrow> 'k option \<Rightarrow> 'k list \<Rightarrow> 'k option \<Rightarrow> bool" where
  "path nx m p [] q \<longleftrightarrow> p = q"
| "path nx m p (k # ks) q \<longleftrightarrow> p = Some k \<and> (case m k of None \<Rightarrow> False | Some n \<Rightarrow> path nx m (nx n) ks q)"

definition linked_list :: "('n \<Rightarrow> 'k option) \<Rightarrow> ('k \<rightharpoonup> 'n) \<Rightarrow> 'k indices option \<Rightarrow> 'k list \<Rightarrow> bool" where
  "linked_list nx m idx ks \<longleftrightarrow> distinct ks \<and>
     (case idx of
        None \<Rightarrow> ks = []
      | Some (Indices h t) \<Rightarrow> ks \<noteq> [] \<and> t = last ks \<and> path nx m (Some h) ks None)"

lemma path_append: "path nx m p (ks @ ks') q \<longleftrightarrow> (\<exists>r. path nx m p ks r \<and> path nx m r ks' q)"
  by (induction ks arbitrary: p) (auto split: option.splits)

lemma path_cong:
  assumes "\<And>k. k \<in> set ks \<Longrightarrow> map_option nx (m' k) = map_option nx (m k)"
  shows "path nx m' p ks q = path nx m p ks q"
  using assms
proof (induction ks arbitrary: p)
  case (Cons k ks)
  then have "map_option nx (m' k) = map_option nx (m k)" by simp
  with Cons show ?case by (cases "m k"; cases "m' k") simp_all
qed simp

lemma path_in: "path nx m p ks q \<Longrightarrow> k \<in> set ks \<Longrightarrow> \<exists>n. m k = Some n"
  by (induction ks arbitrary: p) (auto split: option.splits)

lemma linked_list_cong:
  assumes "\<And>k. k \<in> set ks \<Longrightarrow> map_option nx (m' k) = map_option nx (m k)"
  shows "linked_list nx m' idx ks = linked_list nx m idx ks"
  by (auto simp: linked_list_def path_cong [OF assms] split: option.splits indices.splits)

text \<open>Writing to a node that is not in the list.\<close>

lemma linked_list_relink:
  assumes "linked_list nx m idx ks" "k \<notin> set ks"
  shows "linked_list nx (m(k := v)) idx ks"
  using assms by (subst linked_list_cong [where m = m]) auto

lemma linked_list_in: "linked_list nx m idx ks \<Longrightarrow> k \<in> set ks \<Longrightarrow> \<exists>n. m k = Some n"
  by (auto simp: linked_list_def dest: path_in split: option.splits indices.splits)

lemma linked_list_None [simp]: "linked_list nx m None ks \<longleftrightarrow> ks = []"
  by (auto simp: linked_list_def)

lemma linked_list_Nil [simp]: "linked_list nx m idx [] \<longleftrightarrow> idx = None"
  by (auto simp: linked_list_def split: option.splits indices.splits)

lemma linked_list_Some:
  assumes "linked_list nx m (Some (Indices h t)) ks"
  obtains ks' n where "ks = h # ks'" "m h = Some n" "path nx m (nx n) ks' None" "distinct ks" "t = last ks"
  using assms by (cases ks) (auto simp: linked_list_def split: option.splits)

lemma linked_list_one: "m k = Some n \<Longrightarrow> nx n = None \<Longrightarrow> linked_list nx m (Some (Indices k k)) [k]"
  by (simp add: linked_list_def)

text \<open>A new node in front, that links to the old head.\<close>

lemma linked_list_push_front:
  assumes "linked_list nx m (Some (Indices h t)) ks" "k \<notin> set ks" "m k = Some n" "nx n = Some h"
  shows "linked_list nx m (Some (Indices k t)) (k # ks)"
  using assms by (auto simp: linked_list_def)

text \<open>The head is the only node, or it links to the next one.\<close>

lemma linked_list_head:
  assumes "linked_list nx m (Some (Indices h t)) (k # ks)"
  shows "k = h" "h = t \<longleftrightarrow> ks = []" "\<exists>n. m h = Some n \<and> (nx n = None \<longleftrightarrow> ks = [])"
proof -
  obtain n where n: "k = h" "m h = Some n" "path nx m (nx n) ks None" "distinct (h # ks)" "t = last (h # ks)"
    using assms by (elim linked_list_Some) simp
  then show "k = h" by simp
  show "h = t \<longleftrightarrow> ks = []" using n(4,5) by (cases ks) auto
  show "\<exists>n. m h = Some n \<and> (nx n = None \<longleftrightarrow> ks = [])" using n by (cases ks) auto
qed

lemma linked_list_tl:
  assumes "linked_list nx m (Some (Indices h t)) (k # ks)" "m h = Some n" "nx n = Some h'"
  shows "linked_list nx m (Some (Indices h' t)) ks" "h \<notin> set ks"
  using assms by (auto simp: linked_list_def elim!: linked_list_Some split: option.splits; cases ks; auto)+

section \<open>The link field\<close>

text \<open>
  What the lists need of the field of a node that holds the link: writing it is what reading it
  returns.
\<close>

locale link_field =
  fixes next_of :: "'n \<Rightarrow> 'k option" and link :: "'k option \<Rightarrow> 'n \<Rightarrow> 'n"
  assumes next_of_link [simp]: "next_of (link q n) = q"
begin

text \<open>The last node is linked to a new one.\<close>

lemma linked_list_push_back:
  assumes "linked_list next_of m (Some (Indices h t)) ks" "k \<notin> set ks" "m k = Some n" "next_of n = None"
    "m t = Some l"
  shows "linked_list next_of (m(t \<mapsto> link (Some k) l)) (Some (Indices h k)) (ks @ [k])"
proof -
  obtain ks' where ks: "ks = ks' @ [t]"
    using assms(1) by (auto simp: linked_list_def intro!: append_butlast_last_id [symmetric] that)
  with assms have d: "distinct (ks' @ [t])" "k \<noteq> t" "t \<notin> set ks'"
    and p: "path next_of m (Some h) ks' (Some t)"
    by (auto simp: linked_list_def path_append split: option.splits)
  have "path next_of (m(t \<mapsto> link (Some k) l)) (Some h) ks' (Some t)"
    using p d(3) by (subst path_cong [where m = m]) auto
  with ks assms d show ?thesis
    by (auto simp: linked_list_def path_append)
qed

end

end
