(* ===== verification/Stream_Buffer.thy ===== *)
theory Stream_Buffer
  imports Linked_Lists
begin

text \<open>
  The buffer of frames and events (\<open>streams/buffer.rs\<close>): one slab of slots that many deques share,
  one per stream. A deque keeps the keys of its first and its last slot; the slots link to each
  other. The theorem: whatever the order in which the deques are used, each behaves as a
  list of its own.
\<close>

section \<open>Slots and deques\<close>

record 'a buffer_slot =
  slot_value :: 'a
  slot_next :: "nat option"

type_synonym 'a buffer = "'a buffer_slot slab"
type_synonym deque = "nat indices option"

definition deque_new :: deque where
  "deque_new = None"

definition deque_is_empty :: "deque \<Rightarrow> bool" where
  "deque_is_empty d \<longleftrightarrow> d = None"

definition set_slot_next :: "nat option \<Rightarrow> 'a buffer_slot \<Rightarrow> 'a buffer_slot" where
  "set_slot_next q s = s\<lparr>slot_next := q\<rparr>"

definition deque_push_back :: "'a \<Rightarrow> deque \<times> 'a buffer \<Rightarrow> (deque \<times> 'a buffer, 'e) result" where
  "deque_push_back v = (\<lambda>(d, b).
     (case slab_insert \<lparr>slot_value = v, slot_next = None\<rparr> b of (key, b) \<Rightarrow>
        (case d of
           Some (Indices head tail) \<Rightarrow>
             rbind (slab_update tail (set_slot_next (Some key)) b) (\<lambda>b. Ok (Some (Indices head key), b))
         | None \<Rightarrow> Ok (Some (Indices key key), b))))"

definition deque_push_front :: "'a \<Rightarrow> deque \<times> 'a buffer \<Rightarrow> (deque \<times> 'a buffer, 'e) result" where
  "deque_push_front v = (\<lambda>(d, b).
     (case slab_insert \<lparr>slot_value = v, slot_next = None\<rparr> b of (key, b) \<Rightarrow>
        (case d of
           Some (Indices head tail) \<Rightarrow>
             rbind (slab_update key (set_slot_next (Some head)) b) (\<lambda>b. Ok (Some (Indices key tail), b))
         | None \<Rightarrow> Ok (Some (Indices key key), b))))"

definition deque_pop_front :: "deque \<times> 'a buffer \<Rightarrow> ('a option \<times> deque \<times> 'a buffer, 'e) result" where
  "deque_pop_front = (\<lambda>(d, b).
     (case d of
        Some (Indices head tail) \<Rightarrow>
          rbind (slab_remove head b) (\<lambda>(slot, b).
            if head = tail then
              rbind (assert_that (slot_next slot = None)) (\<lambda>_. Ok (Some (slot_value slot), None, b))
            else
              (case slot_next slot of
                 None \<Rightarrow> Panic
               | Some head \<Rightarrow> Ok (Some (slot_value slot), Some (Indices head tail), b)))
      | None \<Rightarrow> Ok (None, None, b)))"

interpretation slot_link: link_field slot_next set_slot_next
  by unfold_locales (simp add: set_slot_next_def)

section \<open>The list of a deque\<close>

text \<open>\<open>deque_holds b d ks vs\<close>: the deque owns the slots \<open>ks\<close>, in this order, with the values \<open>vs\<close>.\<close>

definition slot_values :: "'a buffer \<Rightarrow> nat list \<Rightarrow> 'a option list" where
  "slot_values b ks = map (\<lambda>k. map_option slot_value (slab_get b k)) ks"

lemma slot_values_simps [simp]:
  "slot_values b [] = []" "slot_values b (k # ks) = map_option slot_value (slab_get b k) # slot_values b ks"
  "slot_values b (ks @ ks') = slot_values b ks @ slot_values b ks'"
  by (simp_all add: slot_values_def)

lemma slot_values_cong:
  "(\<And>k. k \<in> set ks \<Longrightarrow> map_option slot_value (slab_get b' k) = map_option slot_value (slab_get b k)) \<Longrightarrow>
     slot_values b' ks = slot_values b ks"
  by (simp add: slot_values_def)

lemma length_slot_values [simp]: "length (slot_values b ks) = length ks"
  by (simp add: slot_values_def)

lemma slot_values_Nil_iff [simp]: "slot_values b ks = [] \<longleftrightarrow> ks = []"
  by (simp add: slot_values_def)

definition deque_holds :: "'a buffer \<Rightarrow> deque \<Rightarrow> nat list \<Rightarrow> 'a list \<Rightarrow> bool" where
  "deque_holds b d ks vs \<longleftrightarrow> linked_list slot_next (slab_get b) d ks
     \<and> slot_values b ks = map Some vs"

lemma deque_holds_Nil [simp]: "deque_holds b d ks [] \<longleftrightarrow> ks = [] \<and> d = None"
  by (auto simp: deque_holds_def)

lemma deque_holds_None: "deque_holds b None ks vs \<longleftrightarrow> ks = [] \<and> vs = []"
  by (auto simp: deque_holds_def)

lemma deque_holds_length: "deque_holds b d ks vs \<Longrightarrow> length ks = length vs"
  unfolding deque_holds_def by (metis length_map length_slot_values)

lemma deque_holds_frame:
  assumes "deque_holds b d ks vs" "\<And>k. k \<in> set ks \<Longrightarrow> slab_get b' k = slab_get b k"
  shows "deque_holds b' d ks vs"
proof -
  have "linked_list slot_next (slab_get b') d ks = linked_list slot_next (slab_get b) d ks"
    using assms(2) by (intro linked_list_cong) simp
  moreover have "slot_values b' ks = slot_values b ks"
    using assms(2) by (intro slot_values_cong) simp
  ultimately show ?thesis using assms(1) by (simp add: deque_holds_def)
qed

lemma deque_holds_owns: "deque_holds b d ks vs \<Longrightarrow> k \<in> set ks \<Longrightarrow> slab_get b k \<noteq> None"
  by (auto simp: deque_holds_def dest: linked_list_in)

text \<open>Each operation on the slots it owns, with the slots it leaves alone.\<close>

lemma deque_push_back_holds:
  assumes "deque_holds b d ks vs"
  shows "\<exists>k d' b'. deque_push_back v (d, b) = Ok (d', b') \<and> slab_get b k = None
    \<and> deque_holds b' d' (ks @ [k]) (vs @ [v])
    \<and> (\<forall>j. j \<notin> set (k # ks) \<longrightarrow> slab_get b' j = slab_get b j)"
proof -
  obtain k b1 where ins: "slab_insert \<lparr>slot_value = v, slot_next = None\<rparr> b = (k, b1)" by fastforce
  note b1 = slab_insert_map [OF ins]
  have k: "k \<notin> set ks" using deque_holds_owns [OF assms] b1(1) by blast
  show ?thesis
  proof (cases d)
    case None
    with assms have "ks = []" "vs = []" by (simp_all add: deque_holds_None)
    with None ins b1 show ?thesis
      by (auto simp: deque_push_back_def deque_holds_def linked_list_def)
  next
    case (Some idx)
    then obtain h t where d: "d = Some (Indices h t)" by (cases idx) simp
    have ll: "linked_list slot_next (slab_get b) (Some (Indices h t)) ks" using assms d by (simp add: deque_holds_def)
    then have t: "t \<in> set ks" "ks \<noteq> []" by (auto simp: linked_list_def)
    then obtain l where l: "slab_get b t = Some l" using linked_list_in [OF ll] by blast
    with b1 k t have l1: "slab_get b1 t = Some l" by auto
    define b2 where "b2 = slab_set t (Some (set_slot_next (Some k) l)) b1"
    have ll1: "linked_list slot_next (slab_get b1) (Some (Indices h t)) ks"
      using linked_list_relink [OF ll k] b1 by simp
    have "linked_list slot_next (slab_get b2) (Some (Indices h k)) (ks @ [k])"
      using slot_link.linked_list_push_back [OF ll1 k _ _ l1, of "\<lparr>slot_value = v, slot_next = None\<rparr>"] b1
      by (simp add: b2_def del: fun_upd_apply) simp
    moreover have "slot_values b2 ks = slot_values b ks"
      using k b1 l l1 by (intro slot_values_cong) (auto simp: b2_def set_slot_next_def)
    moreover have "deque_push_back v (d, b) = Ok (Some (Indices h k), b2)"
      using ins l1 by (simp add: deque_push_back_def d b2_def slab_update_Ok)
    moreover have "map_option slot_value (slab_get b2 k) = Some v"
      using t k b1 by (auto simp: b2_def)
    moreover have "slab_get b2 j = slab_get b j" if "j \<notin> set (k # ks)" for j
      using that b1 t by (auto simp: b2_def)
    ultimately show ?thesis
      using assms b1(1) by (intro exI [of _ k] exI) (auto simp: deque_holds_def)
  qed
qed

lemma deque_push_front_holds:
  assumes "deque_holds b d ks vs"
  shows "\<exists>k d' b'. deque_push_front v (d, b) = Ok (d', b') \<and> slab_get b k = None
    \<and> deque_holds b' d' (k # ks) (v # vs)
    \<and> (\<forall>j. j \<noteq> k \<longrightarrow> slab_get b' j = slab_get b j)"
proof -
  obtain k b1 where ins: "slab_insert \<lparr>slot_value = v, slot_next = None\<rparr> b = (k, b1)" by fastforce
  note b1 = slab_insert_map [OF ins]
  have k: "k \<notin> set ks" using deque_holds_owns [OF assms] b1(1) by blast
  show ?thesis
  proof (cases d)
    case None
    with assms have "ks = []" "vs = []" by (simp_all add: deque_holds_None)
    with None ins b1 show ?thesis
      by (auto simp: deque_push_front_def deque_holds_def linked_list_def)
  next
    case (Some idx)
    then obtain h t where d: "d = Some (Indices h t)" by (cases idx) simp
    define b2 where "b2 = slab_set k (Some \<lparr>slot_value = v, slot_next = Some h\<rparr>) b1"
    have g2: "slab_get b2 = (slab_get b)(k \<mapsto> \<lparr>slot_value = v, slot_next = Some h\<rparr>)"
      using b1 by (simp add: b2_def)
    have ll: "linked_list slot_next (slab_get b) (Some (Indices h t)) ks" using assms d by (simp add: deque_holds_def)
    have "linked_list slot_next (slab_get b2) (Some (Indices k t)) (k # ks)"
      unfolding g2 using linked_list_relink [OF ll k] k by (intro linked_list_push_front) auto
    moreover have "deque_push_front v (d, b) = Ok (Some (Indices k t), b2)"
      using ins b1 by (simp add: deque_push_front_def d b2_def slab_update_Ok set_slot_next_def)
    moreover have "slab_get b2 j = slab_get b j" if "j \<noteq> k" for j
      using that by (simp add: g2)
    moreover have "slot_values b2 ks = slot_values b ks"
      using k by (intro slot_values_cong) (auto simp: g2)
    moreover have "map_option slot_value (slab_get b2 k) = Some v" by (simp add: g2)
    ultimately show ?thesis
      using assms b1(1) by (intro exI [of _ k] exI) (auto simp: deque_holds_def)
  qed
qed

lemma deque_pop_front_holds:
  assumes "deque_holds b d (k # ks) (v # vs)"
  shows "\<exists>d' b'. deque_pop_front (d, b) = (Ok (Some v, d', b') :: (_, 'e) result) \<and> deque_holds b' d' ks vs
    \<and> slab_get b' = (slab_get b)(k := None) \<and> k \<notin> set ks"
proof -
  obtain idx where "d = Some idx" using assms by (cases d) (simp_all add: deque_holds_None)
  then obtain h t where d: "d = Some (Indices h t)" by (cases idx) simp
  have ll: "linked_list slot_next (slab_get b) (Some (Indices h t)) (k # ks)" using assms d by (simp add: deque_holds_def)
  note head = linked_list_head [OF ll]
  obtain n where n: "slab_get b h = Some n" "slot_next n = None \<longleftrightarrow> ks = []"
    using head(3) by (elim exE conjE) (rule that)
  have v: "slot_value n = v" using assms n(1) head(1) by (simp add: deque_holds_def)
  define b' where "b' = slab_set h None b"
  have g': "slab_get b' = (slab_get b)(h := None)" by (simp add: b'_def)
  have h: "h \<notin> set ks" using ll head(1) by (simp add: linked_list_def)
  have "slot_values b' ks = slot_values b ks"
  proof (rule slot_values_cong)
    fix j assume "j \<in> set ks"
    with h have "j \<noteq> h" by blast
    then show "map_option slot_value (slab_get b' j) = map_option slot_value (slab_get b j)" by (simp add: g')
  qed
  with assms have vals: "slot_values b' ks = map Some vs" by (simp add: deque_holds_def)
  have "\<exists>d'. deque_pop_front (d, b) = (Ok (Some v, d', b') :: (_, 'e) result) \<and> deque_holds b' d' ks vs"
  proof (cases "slot_next n")
    case None
    then have "ks = []" "h = t" using n(2) head(2) by simp_all
    then have "deque_pop_front (d, b) = (Ok (Some v, None, b') :: (_, 'e) result)"
      using None n(1) v by (simp add: deque_pop_front_def d slab_remove_Ok b'_def)
    moreover have "deque_holds b' None ks vs" using vals \<open>ks = []\<close> by (simp add: deque_holds_None)
    ultimately show ?thesis by blast
  next
    case (Some h')
    then have "h \<noteq> t" using n(2) head(2) by simp
    have "linked_list slot_next (slab_get b) (Some (Indices h' t)) ks"
      using linked_list_tl(1) [OF ll n(1) Some] .
    then have "linked_list slot_next (slab_get b') (Some (Indices h' t)) ks"
      unfolding g' by (rule linked_list_relink [OF _ h])
    with vals have "deque_holds b' (Some (Indices h' t)) ks vs" by (simp add: deque_holds_def)
    moreover have "deque_pop_front (d, b) = (Ok (Some v, Some (Indices h' t), b') :: (_, 'e) result)"
      using n(1) v Some \<open>h \<noteq> t\<close> by (simp add: deque_pop_front_def d slab_remove_Ok b'_def)
    ultimately show ?thesis by blast
  qed
  then obtain d' where "deque_pop_front (d, b) = (Ok (Some v, d', b') :: (_, 'e) result)" "deque_holds b' d' ks vs"
    by (elim exE conjE)
  with g' h show ?thesis unfolding head(1) by (intro exI conjI)
qed

section \<open>Many deques in one buffer\<close>

datatype 'a deque_op = Push_Back 'a | Push_Front 'a | Pop_Front

type_synonym 'a deques = "(nat \<Rightarrow> deque) \<times> 'a buffer"

text \<open>One call on the deque number \<open>i\<close>, with what it returns.\<close>

definition deque_step :: "nat \<times> 'a deque_op \<Rightarrow> 'a deques \<Rightarrow> ('a option \<times> 'a deques, 'e) result" where
  "deque_step = (\<lambda>(i, op) (ds, b).
     (case op of
        Push_Back v \<Rightarrow> map_ok (\<lambda>(d, b). (None, ds(i := d), b)) (deque_push_back v (ds i, b))
      | Push_Front v \<Rightarrow> map_ok (\<lambda>(d, b). (None, ds(i := d), b)) (deque_push_front v (ds i, b))
      | Pop_Front \<Rightarrow> map_ok (\<lambda>(r, d, b). (r, ds(i := d), b)) (deque_pop_front (ds i, b))))"

fun deque_run :: "(nat \<times> 'a deque_op) list \<Rightarrow> 'a deques \<Rightarrow> ('a option list \<times> 'a deques, 'e) result" where
  "deque_run [] s = Ok ([], s)"
| "deque_run (op # ops) s =
     rbind (deque_step op s) (\<lambda>(r, s). map_ok (\<lambda>(rs, s). (r # rs, s)) (deque_run ops s))"

text \<open>The specification: every deque is a list.\<close>

fun lists_step :: "nat \<times> 'a deque_op \<Rightarrow> (nat \<Rightarrow> 'a list) \<Rightarrow> 'a option \<times> (nat \<Rightarrow> 'a list)" where
  "lists_step (i, Push_Back v) ls = (None, ls(i := ls i @ [v]))"
| "lists_step (i, Push_Front v) ls = (None, ls(i := v # ls i))"
| "lists_step (i, Pop_Front) ls =
     (case ls i of [] \<Rightarrow> (None, ls) | v # vs \<Rightarrow> (Some v, ls(i := vs)))"

fun lists_run :: "(nat \<times> 'a deque_op) list \<Rightarrow> (nat \<Rightarrow> 'a list) \<Rightarrow> 'a option list" where
  "lists_run [] ls = []"
| "lists_run (op # ops) ls = (case lists_step op ls of (r, ls) \<Rightarrow> r # lists_run ops ls)"

definition deques_hold :: "'a deques \<Rightarrow> (nat \<Rightarrow> nat list) \<Rightarrow> (nat \<Rightarrow> 'a list) \<Rightarrow> bool" where
  "deques_hold = (\<lambda>(ds, b) ks ls. (\<forall>i. deque_holds b (ds i) (ks i) (ls i))
     \<and> (\<forall>i j. i \<noteq> j \<longrightarrow> set (ks i) \<inter> set (ks j) = {}))"

lemma deques_hold_upd:
  assumes "deques_hold (ds, b) ks ls" "deque_holds b' d' ks' vs'"
    "set ks' \<subseteq> insert k (set (ks i))" "k \<in> set (ks i) \<or> slab_get b k = None"
    "\<And>j. j \<notin> insert k (set (ks i)) \<Longrightarrow> slab_get b' j = slab_get b j"
  shows "deques_hold (ds(i := d'), b') (ks(i := ks')) (ls(i := vs'))"
proof -
  have other: "k \<notin> set (ks j)" if "j \<noteq> i" for j
    using assms(1,4) that deque_holds_owns [of b "ds j" "ks j" "ls j" k] by (auto simp: deques_hold_def)
  have "deque_holds b' (ds j) (ks j) (ls j)" if "j \<noteq> i" for j
  proof (rule deque_holds_frame)
    show "deque_holds b (ds j) (ks j) (ls j)" using assms(1) by (simp add: deques_hold_def)
    fix x assume "x \<in> set (ks j)"
    then have "x \<notin> set (ks i)" "x \<noteq> k" using assms(1) that other [OF that] by (auto simp: deques_hold_def)
    then show "slab_get b' x = slab_get b x" using assms(5) by simp
  qed
  with assms(1,2,3) other show ?thesis by (fastforce simp: deques_hold_def)
qed

lemma deque_step_lists:
  assumes "deques_hold s ks ls"
  shows "\<exists>r s' ks' ls'. deque_step op s = (Ok (r, s') :: (_, 'e) result) \<and> lists_step op ls = (r, ls') \<and> deques_hold s' ks' ls'"
proof -
  obtain ds b where s: "s = (ds, b)" by fastforce
  obtain i op' where op: "op = (i, op')" by fastforce
  have holds: "deque_holds b (ds i) (ks i) (ls i)" using assms s by (simp add: deques_hold_def)
  show ?thesis
  proof (cases op')
    case (Push_Back v)
    obtain k d' b' where *: "deque_push_back v (ds i, b) = (Ok (d', b') :: (_, 'e) result)" "slab_get b k = None"
      "deque_holds b' d' (ks i @ [k]) (ls i @ [v])" "\<forall>j. j \<notin> set (k # ks i) \<longrightarrow> slab_get b' j = slab_get b j"
      using deque_push_back_holds [OF holds, of v] by blast
    have "deques_hold (ds(i := d'), b') (ks(i := ks i @ [k])) (ls(i := ls i @ [v]))"
      using assms s * by (intro deques_hold_upd [where k = k and b = b]) auto
    with * show ?thesis by (auto simp: deque_step_def s op Push_Back)
  next
    case (Push_Front v)
    obtain k d' b' where *: "deque_push_front v (ds i, b) = (Ok (d', b') :: (_, 'e) result)" "slab_get b k = None"
      "deque_holds b' d' (k # ks i) (v # ls i)" "\<forall>j. j \<noteq> k \<longrightarrow> slab_get b' j = slab_get b j"
      using deque_push_front_holds [OF holds, of v] by blast
    have "deques_hold (ds(i := d'), b') (ks(i := k # ks i)) (ls(i := v # ls i))"
      using assms s * by (intro deques_hold_upd [where k = k and b = b]) auto
    with * show ?thesis by (auto simp: deque_step_def s op Push_Front)
  next
    case Pop_Front
    show ?thesis
    proof (cases "ls i")
      case Nil
      with holds have "ds i = None" by simp
      with assms s op Pop_Front Nil show ?thesis
        by (auto simp: deque_step_def deque_pop_front_def fun_upd_idem)
    next
      case (Cons v vs)
      then obtain k ks' where ks: "ks i = k # ks'" using deque_holds_length [OF holds] by (cases "ks i") auto
      obtain d' b' where *: "deque_pop_front (ds i, b) = (Ok (Some v, d', b') :: (_, 'e) result)" "deque_holds b' d' ks' vs"
        "slab_get b' = (slab_get b)(k := None)"
        using deque_pop_front_holds holds ks Cons by metis
      have "deques_hold (ds(i := d'), b') (ks(i := ks')) (ls(i := vs))"
        using assms s * ks by (intro deques_hold_upd [where k = k and b = b]) auto
      with * Cons show ?thesis by (auto simp: deque_step_def s op Pop_Front)
    qed
  qed
qed

lemma deque_run_lists:
  assumes "deques_hold s ks ls"
  shows "\<exists>s'. deque_run ops s = (Ok (lists_run ops ls, s') :: (_, 'e) result)"
  using assms
proof (induction ops arbitrary: s ks ls)
  case (Cons op ops)
  obtain r s' ks' ls' where *: "deque_step op s = (Ok (r, s') :: (_, 'e) result)" "lists_step op ls = (r, ls')" "deques_hold s' ks' ls'"
    using deque_step_lists [OF Cons.prems, of op] by blast
  with Cons.IH [OF *(3)] show ?case by auto
qed simp

text \<open>
  C31: any history of calls on any number of deques that share one
  buffer, whatever keys the slab gives out, returns what the same history returns on separate
  lists: no call panics, and a deque never sees a value that was pushed to another.
\<close>

theorem deques_are_lists:
  "\<exists>s. deque_run ops (\<lambda>_. deque_new, slab_new wishes) = Ok (lists_run ops (\<lambda>_. []), s)"
  by (rule deque_run_lists [where ks = "\<lambda>_. []"])
    (simp add: deques_hold_def deque_new_def)

end
