(* ===== verification/Stream_Record.thy ===== *)
theory Stream_Record
  imports Stream_State Flow_Control Frame_Data Stream_Buffer
begin

text \<open>
  The record of one stream (\<open>streams/stream.rs\<close>) with its own operations, and the six link fields
  through which the queues of a connection run. A \<open>Waker\<close> is a number; what an operation
  wakes is part of its result. \<open>Instant\<close> is a number of ticks.
\<close>

section \<open>The record\<close>

type_synonym waker = nat
type_synonym instant = nat

text \<open>The key of a stream in the store: the index in the slab and the identifier.\<close>

datatype key = Key (key_index: nat) (key_stream_id: stream_id)

type_synonym queue = "key indices option"

datatype content_length = Omitted | Head_Method | Remaining u64

definition is_head_method :: "content_length \<Rightarrow> bool" where
  "is_head_method c \<longleftrightarrow> c = Head_Method"

record stream =
  st_id :: stream_id
  st_state :: stream_state
  is_counted :: bool
  ref_count :: nat
  next_pending_send :: "key option"
  is_pending_send :: bool
  send_flow :: flow_control
  requested_send_capacity :: u32
  buffered_send_data :: u32
  send_task :: "waker option"
  pending_send :: deque
  next_pending_send_capacity :: "key option"
  is_pending_send_capacity :: bool
  send_capacity_inc :: bool
  next_open :: "key option"
  is_pending_open :: bool
  is_pending_push :: bool
  next_pending_accept :: "key option"
  is_pending_accept :: bool
  recv_flow :: flow_control
  in_flight_recv_data :: u32
  next_window_update :: "key option"
  is_pending_window_update :: bool
  reset_at :: "instant option"
  next_reset_expire :: "key option"
  pending_recv :: deque
  recv_task :: "waker option"
  pending_push_promises :: queue
  st_content_length :: content_length

definition stream_new :: "stream_id \<Rightarrow> u32 \<Rightarrow> u32 \<Rightarrow> (stream, 'e) result" where
  "stream_new i init_send_window init_recv_window =
     (case (inc_window init_recv_window flow_new, inc_window init_send_window flow_new) of
        (Ok recv, Ok send) \<Rightarrow>
          Ok \<lparr>st_id = i, st_state = Idle, is_counted = False, ref_count = 0,
              next_pending_send = None, is_pending_send = False, send_flow = send,
              requested_send_capacity = 0, buffered_send_data = 0, send_task = None,
              pending_send = deque_new, next_pending_send_capacity = None,
              is_pending_send_capacity = False, send_capacity_inc = False, next_open = None,
              is_pending_open = False, is_pending_push = False, next_pending_accept = None,
              is_pending_accept = False, recv_flow = flow_assign_capacity init_recv_window recv,
              in_flight_recv_data = 0, next_window_update = None,
              is_pending_window_update = False, reset_at = None, next_reset_expire = None,
              pending_recv = deque_new, recv_task = None, pending_push_promises = None,
              st_content_length = Omitted\<rparr>
      | _ \<Rightarrow> Panic)"

definition ref_inc :: "stream \<Rightarrow> (stream, 'e) result" where
  "ref_inc s = rbind (assert_that (ref_count s < USIZE_MAX)) (\<lambda>_. Ok (s\<lparr>ref_count := ref_count s + 1\<rparr>))"

definition ref_dec :: "stream \<Rightarrow> (stream, 'e) result" where
  "ref_dec s = rbind (assert_that (ref_count s > 0)) (\<lambda>_. Ok (s\<lparr>ref_count := ref_count s - 1\<rparr>))"

definition is_pending_reset_expiration :: "stream \<Rightarrow> bool" where
  "is_pending_reset_expiration s \<longleftrightarrow> reset_at s \<noteq> None"

definition is_send_ready :: "stream \<Rightarrow> bool" where
  "is_send_ready s \<longleftrightarrow> \<not> is_pending_open s \<and> \<not> is_pending_push s"

definition stream_is_closed :: "stream \<Rightarrow> bool" where
  "stream_is_closed s \<longleftrightarrow>
     state_is_closed (st_state s) \<and> deque_is_empty (pending_send s) \<and> buffered_send_data s = 0"

definition is_released :: "stream \<Rightarrow> bool" where
  "is_released s \<longleftrightarrow>
     stream_is_closed s \<and> ref_count s = 0 \<and> \<not> is_pending_send s \<and> \<not> is_pending_send_capacity s
     \<and> \<not> is_pending_accept s \<and> \<not> is_pending_window_update s \<and> \<not> is_pending_open s
     \<and> \<not> (reset_at s \<noteq> None)"

definition is_canceled_interest :: "stream \<Rightarrow> bool" where
  "is_canceled_interest s \<longleftrightarrow> ref_count s = 0 \<and> \<not> state_is_closed (st_state s)"

definition notify_send :: "stream \<Rightarrow> stream \<times> waker list" where
  "notify_send s =
     (case send_task s of
        Some task \<Rightarrow> (s\<lparr>send_task := None\<rparr>, [task])
      | None \<Rightarrow> (s, []))"

definition notify_recv :: "stream \<Rightarrow> stream \<times> waker list" where
  "notify_recv s =
     (case recv_task s of
        Some task \<Rightarrow> (s\<lparr>recv_task := None\<rparr>, [task])
      | None \<Rightarrow> (s, []))"

definition wait_send :: "waker \<Rightarrow> stream \<Rightarrow> stream" where
  "wait_send cx s = s\<lparr>send_task := Some cx\<rparr>"

text \<open>\<open>Window > WindowSize\<close>, through \<open>PartialOrd::partial_cmp\<close>.\<close>

definition window_greater_size :: "i32 \<Rightarrow> u32 \<Rightarrow> bool" where
  "window_greater_size w n \<longleftrightarrow> (if w <s 0 then False else w > n)"

definition stream_assign_capacity :: "u32 \<Rightarrow> stream \<Rightarrow> stream \<times> waker list" where
  "stream_assign_capacity capacity s =
     (let s = s\<lparr>send_capacity_inc := True, send_flow := flow_assign_capacity capacity (send_flow s)\<rparr>
      in if window_greater_size (fc_available (send_flow s)) (buffered_send_data s) then notify_send s
         else (s, []))"

definition dec_content_length :: "nat \<Rightarrow> stream \<Rightarrow> (stream, unit) result" where
  "dec_content_length n s =
     (case st_content_length s of
        Remaining rem \<Rightarrow>
          (if word_of_nat n \<le> rem then Ok (s\<lparr>st_content_length := Remaining (rem - word_of_nat n)\<rparr>)
           else Err ())
      | Head_Method \<Rightarrow> (if n \<noteq> 0 then Err () else Ok s)
      | Omitted \<Rightarrow> Ok s)"

definition ensure_content_length_zero :: "stream \<Rightarrow> (unit, unit) result" where
  "ensure_content_length_zero s =
     (case st_content_length s of
        Remaining rem \<Rightarrow> (if rem = 0 then Ok () else Err ())
      | _ \<Rightarrow> Ok ())"

section \<open>The link fields of the queues\<close>

text \<open>
  \<open>trait Next\<close> (\<open>streams/store.rs\<close>) and its six implementations: the link to the next stream of the
  queue, and the flag that the stream is in the queue. Setting the flag of the queue of
  expiring resets reads the clock, which is therefore an argument of that implementation.
\<close>

record next_ops =
  nx_next :: "stream \<Rightarrow> key option"
  nx_set_next :: "key option \<Rightarrow> stream \<Rightarrow> stream"
  nx_is_queued :: "stream \<Rightarrow> bool"
  nx_set_queued :: "bool \<Rightarrow> stream \<Rightarrow> stream"

definition take_next :: "next_ops \<Rightarrow> stream \<Rightarrow> key option \<times> stream" where
  "take_next N s = (nx_next N s, nx_set_next N None s)"

definition NextAccept :: next_ops where
  "NextAccept =
     \<lparr>nx_next = next_pending_accept, nx_set_next = (\<lambda>k s. s\<lparr>next_pending_accept := k\<rparr>),
      nx_is_queued = is_pending_accept, nx_set_queued = (\<lambda>b s. s\<lparr>is_pending_accept := b\<rparr>)\<rparr>"

definition NextSend :: next_ops where
  "NextSend =
     \<lparr>nx_next = next_pending_send, nx_set_next = (\<lambda>k s. s\<lparr>next_pending_send := k\<rparr>),
      nx_is_queued = is_pending_send, nx_set_queued = (\<lambda>b s. s\<lparr>is_pending_send := b\<rparr>)\<rparr>"

definition NextSendCapacity :: next_ops where
  "NextSendCapacity =
     \<lparr>nx_next = next_pending_send_capacity, nx_set_next = (\<lambda>k s. s\<lparr>next_pending_send_capacity := k\<rparr>),
      nx_is_queued = is_pending_send_capacity,
      nx_set_queued = (\<lambda>b s. s\<lparr>is_pending_send_capacity := b\<rparr>)\<rparr>"

definition NextWindowUpdate :: next_ops where
  "NextWindowUpdate =
     \<lparr>nx_next = next_window_update, nx_set_next = (\<lambda>k s. s\<lparr>next_window_update := k\<rparr>),
      nx_is_queued = is_pending_window_update,
      nx_set_queued = (\<lambda>b s. s\<lparr>is_pending_window_update := b\<rparr>)\<rparr>"

definition NextOpen :: next_ops where
  "NextOpen =
     \<lparr>nx_next = next_open, nx_set_next = (\<lambda>k s. s\<lparr>next_open := k\<rparr>),
      nx_is_queued = is_pending_open, nx_set_queued = (\<lambda>b s. s\<lparr>is_pending_open := b\<rparr>)\<rparr>"

definition NextResetExpire :: "instant \<Rightarrow> next_ops" where
  "NextResetExpire now =
     \<lparr>nx_next = next_reset_expire, nx_set_next = (\<lambda>k s. s\<lparr>next_reset_expire := k\<rparr>),
      nx_is_queued = (\<lambda>s. reset_at s \<noteq> None),
      nx_set_queued = (\<lambda>b s. s\<lparr>reset_at := (if b then Some now else None)\<rparr>)\<rparr>"

lemmas next_defs = NextAccept_def NextSend_def NextSendCapacity_def NextWindowUpdate_def NextOpen_def
  NextResetExpire_def

section \<open>The contract of the link fields\<close>

text \<open>
  What the queues rely on: the link and the flag are two independent fields, and neither
  is the identifier.
\<close>

locale next_fields =
  fixes N :: next_ops
  assumes next_set_next [simp]: "nx_next N (nx_set_next N k s) = k"
    and next_set_queued [simp]: "nx_next N (nx_set_queued N b s) = nx_next N s"
    and queued_set_queued [simp]: "nx_is_queued N (nx_set_queued N b s) = b"
    and queued_set_next [simp]: "nx_is_queued N (nx_set_next N k s) = nx_is_queued N s"
    and id_set_next [simp]: "st_id (nx_set_next N k s) = st_id s"
    and id_set_queued [simp]: "st_id (nx_set_queued N b s) = st_id s"
    and next_counted [simp]: "nx_next N (s\<lparr>is_counted := b\<rparr>) = nx_next N s"

sublocale next_fields \<subseteq> link_field "nx_next N" "nx_set_next N"
  by unfold_locales simp

interpretation next_accept: next_fields NextAccept
  by unfold_locales (simp_all add: next_defs)

interpretation next_send: next_fields NextSend
  by unfold_locales (simp_all add: next_defs)

interpretation next_send_capacity: next_fields NextSendCapacity
  by unfold_locales (simp_all add: next_defs)

interpretation next_window_update: next_fields NextWindowUpdate
  by unfold_locales (simp_all add: next_defs)

interpretation next_open_field: next_fields NextOpen
  by unfold_locales (simp_all add: next_defs)

interpretation next_reset_expire_field: next_fields "NextResetExpire now" for now
  by unfold_locales (simp_all add: next_defs)

end
