(* ===== verification/Stream_Store.thy ===== *)
theory Stream_Store
  imports Stream_Record
begin

text \<open>
  The store of the streams of a connection and the queues that run through it
  (\<open>streams/store.rs\<close>). The map of identifiers is an \<open>IndexMap\<close>: an association list whose order
  the iteration follows and from which \<open>swap_remove\<close> takes an entry by moving the last one into
  its place. A key that does not resolve is a panic. (An index is a natural number: the cast of
  \<open>SlabIndex\<close> to \<open>u32\<close> loses nothing below \<open>2 ^ 32\<close> streams.)
\<close>

section \<open>The store\<close>

type_synonym ids = "(stream_id \<times> nat) list"

record store =
  store_slab :: "stream slab"
  store_ids :: ids

definition store_new :: "nat list \<Rightarrow> store" where
  "store_new wishes = \<lparr>store_slab = slab_new wishes, store_ids = []\<rparr>"

definition store_find :: "stream_id \<Rightarrow> store \<Rightarrow> key option" where
  "store_find i st = (case map_of (store_ids st) i of Some index \<Rightarrow> Some (Key index i) | None \<Rightarrow> None)"

text \<open>\<open>find_entry\<close> tells a vacant from an occupied entry; this is \<open>VacantEntry::insert\<close>.\<close>

definition vacant_insert :: "stream_id \<Rightarrow> stream \<Rightarrow> store \<Rightarrow> key \<times> store" where
  "vacant_insert i s st =
     (case slab_insert s (store_slab st) of (index, slab) \<Rightarrow>
        (Key index (st_id s), \<lparr>store_slab = slab, store_ids = store_ids st @ [(i, index)]\<rparr>))"

definition store_insert :: "stream_id \<Rightarrow> stream \<Rightarrow> store \<Rightarrow> (key \<times> store, 'e) result" where
  "store_insert i s st =
     (case slab_insert s (store_slab st) of (index, slab) \<Rightarrow>
        rbind (assert_that (map_of (store_ids st) i = None)) (\<lambda>_.
          Ok (Key index i, \<lparr>store_slab = slab, store_ids = store_ids st @ [(i, index)]\<rparr>)))"

definition store_get :: "store \<Rightarrow> key \<Rightarrow> stream option" where
  "store_get st k =
     (case slab_get (store_slab st) (key_index k) of
        Some s \<Rightarrow> (if st_id s = key_stream_id k then Some s else None)
      | None \<Rightarrow> None)"

definition store_index :: "key \<Rightarrow> store \<Rightarrow> (stream, 'e) result" where
  "store_index k st = (case store_get st k of Some s \<Rightarrow> Ok s | None \<Rightarrow> Panic)"

definition store_put :: "key \<Rightarrow> stream \<Rightarrow> store \<Rightarrow> store" where
  "store_put k s st = st\<lparr>store_slab := slab_set (key_index k) (Some s) (store_slab st)\<rparr>"

definition store_modify :: "key \<Rightarrow> (stream \<Rightarrow> stream) \<Rightarrow> store \<Rightarrow> (store, 'e) result" where
  "store_modify k f st = rbind (store_index k st) (\<lambda>s. Ok (store_put k (f s) st))"

fun swap_remove :: "'k \<Rightarrow> ('k \<times> 'v) list \<Rightarrow> ('k \<times> 'v) list" where
  "swap_remove i [] = []"
| "swap_remove i ((j, v) # xs) =
     (if i = j then (case xs of [] \<Rightarrow> [] | _ \<Rightarrow> last xs # butlast xs) else (j, v) # swap_remove i xs)"

definition store_unlink :: "key \<Rightarrow> store \<Rightarrow> store" where
  "store_unlink k st = st\<lparr>store_ids := swap_remove (key_stream_id k) (store_ids st)\<rparr>"

definition store_remove :: "key \<Rightarrow> store \<Rightarrow> (store, 'e) result" where
  "store_remove k st =
     rbind (slab_remove (key_index k) (store_slab st)) (\<lambda>(s, slab).
       rbind (assert_that (st_id s = key_stream_id k)) (\<lambda>_. Ok (st\<lparr>store_slab := slab\<rparr>)))"

lemma store_index_Ok: "store_index k st = Ok s \<longleftrightarrow> store_get st k = Some s"
  by (auto simp: store_index_def split: option.splits)

lemma store_get_slab: "store_get st k = Some s \<Longrightarrow> slab_get (store_slab st) (key_index k) = Some s \<and> st_id s = key_stream_id k"
  by (auto simp: store_get_def split: option.splits if_splits)

lemma store_get_ids [simp]: "store_get (st\<lparr>store_ids := xs\<rparr>) = store_get st"
  by (rule ext) (simp add: store_get_def)

lemma store_get_unlink [simp]: "store_get (store_unlink k st) = store_get st"
  by (simp add: store_unlink_def)

lemma store_get_put:
  assumes "store_get st k = Some s" "st_id s' = st_id s"
  shows "store_get (store_put k s' st) = (store_get st)(k \<mapsto> s')"
proof
  fix j
  show "store_get (store_put k s' st) j = ((store_get st)(k \<mapsto> s')) j"
    using store_get_slab [OF assms(1)] assms(2)
    by (cases j; cases k) (auto simp: store_get_def store_put_def)
qed

lemma store_ids_put [simp]: "store_ids (store_put k s st) = store_ids st"
  by (simp add: store_put_def)

lemma store_modify_Ok:
  assumes "store_get st k = Some s" "st_id (f s) = st_id s"
  shows "store_modify k f st = Ok (store_put k (f s) st)"
    "store_get (store_put k (f s) st) = (store_get st)(k \<mapsto> f s)"
  using assms by (simp_all add: store_modify_def store_index_def store_get_put)

lemma store_remove_Ok:
  assumes "store_get st k = Some s"
  shows "\<exists>st'. store_remove k st = Ok st' \<and> store_get st' = (store_get st)(k := None)
    \<and> store_ids st' = store_ids st \<and> store_slab st' = slab_set (key_index k) None (store_slab st)"
proof -
  note s = store_get_slab [OF assms]
  let ?st = "st\<lparr>store_slab := slab_set (key_index k) None (store_slab st)\<rparr>"
  have "store_get ?st j = ((store_get st)(k := None)) j" for j
    using s by (cases j; cases k) (auto simp: store_get_def)
  with s show ?thesis by (intro exI [of _ ?st]) (auto simp: store_remove_def slab_remove_def)
qed

text \<open>The map of identifiers as a map.\<close>

lemma rotated_map:
  assumes "xs \<noteq> []"
  shows "set (last xs # butlast xs) = set xs"
    "distinct (map fst (last xs # butlast xs)) \<longleftrightarrow> distinct (map fst xs)"
proof -
  obtain ys y where "xs = ys @ [y]" using assms by (cases xs rule: rev_cases) auto
  then show "set (last xs # butlast xs) = set xs"
    "distinct (map fst (last xs # butlast xs)) \<longleftrightarrow> distinct (map fst xs)" by auto
qed

lemma swap_remove_head: "swap_remove i ((i, v) # xs) = (if xs = [] then [] else last xs # butlast xs)"
  by (simp split: list.split)

lemma swap_remove_set: "distinct (map fst xs) \<Longrightarrow> set (swap_remove i xs) = {p \<in> set xs. fst p \<noteq> i}"
proof (induction i xs rule: swap_remove.induct)
  case (2 i j v xs)
  show ?case
  proof (cases "i = j")
    case True
    moreover have "fst p \<noteq> i" if "p \<in> set xs" for p using 2(2) True that by force
    moreover have "set (swap_remove i ((i, v) # xs)) = set xs"
      using rotated_map(1) [of xs] unfolding swap_remove_head by (cases "xs = []") simp_all
    ultimately show ?thesis by auto
  qed (use 2 in auto)
qed simp

lemma swap_remove_distinct: "distinct (map fst xs) \<Longrightarrow> distinct (map fst (swap_remove i xs))"
proof (induction i xs rule: swap_remove.induct)
  case (2 i j v xs)
  show ?case
  proof (cases "i = j")
    case True
    moreover have "distinct (map fst (swap_remove i ((i, v) # xs)))"
      using 2(2) rotated_map(2) [of xs] unfolding swap_remove_head by (cases "xs = []") simp_all
    ultimately show ?thesis by simp
  next
    case False
    with 2 have "distinct (map fst (swap_remove i xs))" by simp
    moreover have "j \<notin> fst ` set (swap_remove i xs)" using 2(2) by (auto simp: swap_remove_set)
    ultimately show ?thesis using False by simp
  qed
qed simp

lemma swap_remove_map:
  assumes "distinct (map fst xs)"
  shows "map_of (swap_remove i xs) = (map_of xs)(i := None)"
proof
  fix j
  have "map_of (swap_remove i xs) j = Some v \<longleftrightarrow> ((map_of xs)(i := None)) j = Some v" for v
    using map_of_eq_Some_iff [OF swap_remove_distinct [OF assms, of i]] map_of_eq_Some_iff [OF assms]
    by (simp add: swap_remove_set [OF assms])
  then show "map_of (swap_remove i xs) j = ((map_of xs)(i := None)) j"
    by (metis option.exhaust)
qed

section \<open>Queues through the store\<close>

definition queue_push :: "next_ops \<Rightarrow> key \<Rightarrow> queue \<times> store \<Rightarrow> (bool \<times> queue \<times> store, 'e) result" where
  "queue_push N k = (\<lambda>(q, st).
     rbind (store_index k st) (\<lambda>s.
       if nx_is_queued N s then Ok (False, q, st)
       else
         rbind (store_modify k (nx_set_queued N True) st) (\<lambda>st.
           case q of
             Some (Indices head tail) \<Rightarrow>
               rbind (store_modify tail (nx_set_next N (Some k)) st) (\<lambda>st.
                 Ok (True, Some (Indices head k), st))
           | None \<Rightarrow> Ok (True, Some (Indices k k), st))))"

definition queue_pop :: "next_ops \<Rightarrow> queue \<times> store \<Rightarrow> (key option \<times> queue \<times> store, 'e) result" where
  "queue_pop N = (\<lambda>(q, st).
     (case q of
        None \<Rightarrow> Ok (None, None, st)
      | Some (Indices head tail) \<Rightarrow>
          rbind (store_index head st) (\<lambda>s.
            rbind
              (if head = tail then
                 rbind (assert_that (nx_next N s = None)) (\<lambda>_. Ok (None, st))
               else
                 (case take_next N s of
                    (None, s) \<Rightarrow> Panic
                  | (Some next, s) \<Rightarrow> Ok (Some (Indices next tail), store_put head s st)))
              (\<lambda>(q, st).
                 rbind (store_modify head (nx_set_queued N False) st) (\<lambda>st.
                   Ok (Some head, q, st))))))"

definition queue_pop_if ::
  "next_ops \<Rightarrow> (stream \<Rightarrow> bool) \<Rightarrow> queue \<times> store \<Rightarrow> (key option \<times> queue \<times> store, 'e) result" where
  "queue_pop_if N f = (\<lambda>(q, st).
     (case q of
        Some (Indices head tail) \<Rightarrow>
          rbind (store_index head st) (\<lambda>s. if f s then queue_pop N (q, st) else Ok (None, q, st))
      | None \<Rightarrow> Ok (None, q, st)))"

text \<open>
  \<open>queue_holds N m q ks\<close>: in the streams \<open>m\<close>, the queue \<open>q\<close> holds exactly the streams \<open>ks\<close>, in
  this order; the streams outside it have neither flag nor link.
\<close>

definition queue_holds :: "next_ops \<Rightarrow> (key \<rightharpoonup> stream) \<Rightarrow> queue \<Rightarrow> key list \<Rightarrow> bool" where
  "queue_holds N m q ks \<longleftrightarrow> linked_list (nx_next N) m q ks
     \<and> (\<forall>k s. m k = Some s \<longrightarrow> (nx_is_queued N s \<longleftrightarrow> k \<in> set ks) \<and> (k \<notin> set ks \<longrightarrow> nx_next N s = None))"

lemma queue_holds_in: "queue_holds N m q ks \<Longrightarrow> k \<in> set ks \<Longrightarrow> \<exists>s. m k = Some s"
  unfolding queue_holds_def using linked_list_in by metis

lemma queue_holds_queued: "queue_holds N m q ks \<Longrightarrow> m k = Some s \<Longrightarrow> nx_is_queued N s \<longleftrightarrow> k \<in> set ks"
  by (auto simp: queue_holds_def)

lemma queue_holds_None: "queue_holds N m None ks \<Longrightarrow> ks = []"
  by (simp add: queue_holds_def)

text \<open>The other fields of the streams do not matter.\<close>

lemma queue_holds_cong:
  assumes "queue_holds N m q ks"
    "\<And>k. map_option (nx_next N) (m' k) = map_option (nx_next N) (m k)"
    "\<And>k. map_option (nx_is_queued N) (m' k) = map_option (nx_is_queued N) (m k)"
  shows "queue_holds N m' q ks"
proof -
  have "linked_list (nx_next N) m' q ks"
    using assms(1) linked_list_cong [of ks "nx_next N" m' m q] assms(2) by (auto simp: queue_holds_def)
  moreover have "(nx_is_queued N s \<longleftrightarrow> k \<in> set ks) \<and> (k \<notin> set ks \<longrightarrow> nx_next N s = None)" if s: "m' k = Some s" for k s
  proof -
    obtain s0 where "m k = Some s0" "nx_next N s = nx_next N s0" "nx_is_queued N s = nx_is_queued N s0"
      using assms(2) [of k] assms(3) [of k] s by (cases "m k") auto
    with assms(1) show ?thesis by (auto simp: queue_holds_def)
  qed
  ultimately show ?thesis by (auto simp: queue_holds_def)
qed

lemma queue_holds_upd:
  assumes "queue_holds N m q ks" "m k = Some s" "nx_next N s' = nx_next N s" "nx_is_queued N s' = nx_is_queued N s"
  shows "queue_holds N (m(k \<mapsto> s')) q ks"
  using assms by (intro queue_holds_cong [OF assms(1)]) auto

text \<open>A stream that is not in the queue leaves or enters the store.\<close>

lemma queue_holds_delete:
  assumes "queue_holds N m q ks" "k \<notin> set ks"
  shows "queue_holds N (m(k := None)) q ks"
  using assms linked_list_relink [of "nx_next N" m q ks k None] by (auto simp: queue_holds_def)

lemma queue_holds_add:
  assumes "queue_holds N m q ks" "m k = None" "\<not> nx_is_queued N s" "nx_next N s = None"
  shows "queue_holds N (m(k \<mapsto> s)) q ks"
proof -
  have "k \<notin> set ks" using assms(1,2) queue_holds_in by fastforce
  then show ?thesis
    using assms linked_list_relink [of "nx_next N" m q ks k "Some s"] by (auto simp: queue_holds_def)
qed

context next_fields
begin

lemma queue_push_holds:
  assumes "queue_holds N (store_get st) q ks" "store_get st k = Some s"
  shows "\<exists>q' st'. queue_push N k (q, st) = (Ok (k \<notin> set ks, q', st') :: (_, 'e) result)
    \<and> queue_holds N (store_get st') q' (if k \<in> set ks then ks else ks @ [k])
    \<and> store_ids st' = store_ids st"
proof (cases "k \<in> set ks")
  case True
  then have "nx_is_queued N s" using queue_holds_queued [OF assms] by simp
  with assms True show ?thesis by (auto simp: queue_push_def store_index_def)
next
  case False
  then have s: "\<not> nx_is_queued N s" "nx_next N s = None" using assms by (auto simp: queue_holds_def)
  define s1 where "s1 = nx_set_queued N True s"
  define st1 where "st1 = store_put k s1 st"
  have m1: "store_get st1 = (store_get st)(k \<mapsto> s1)" "store_modify k (nx_set_queued N True) st = (Ok st1 :: (_, 'e) result)"
    using store_modify_Ok [OF assms(2), of "nx_set_queued N True"] by (simp_all add: s1_def st1_def)
  have s1: "nx_is_queued N s1" "nx_next N s1 = None" using s by (simp_all add: s1_def)
  have ll: "linked_list (nx_next N) (store_get st) q ks" using assms(1) by (simp add: queue_holds_def)
  then have ll1: "linked_list (nx_next N) (store_get st1) q ks" using False by (simp add: m1 linked_list_relink)
  show ?thesis
  proof (cases q)
    case None
    then have "ks = []" using assms(1) queue_holds_None by blast
    moreover have "linked_list (nx_next N) (store_get st1) (Some (Indices k k)) [k]"
      using s1 by (intro linked_list_one) (simp_all add: m1)
    moreover have "queue_push N k (q, st) = (Ok (True, Some (Indices k k), st1) :: (_, 'e) result)"
      using assms(2) s m1 None by (simp add: queue_push_def store_index_def)
    ultimately show ?thesis using False assms(1) s1 m1
      by (auto simp: queue_holds_def st1_def)
  next
    case (Some idx)
    then obtain h t where q: "q = Some (Indices h t)" by (cases idx) simp
    have t: "t \<in> set ks" using ll q by (auto simp: linked_list_def)
    then obtain l where l: "store_get st t = Some l" using queue_holds_in [OF assms(1)] by blast
    have l1: "store_get st1 t = Some l" using l t False by (auto simp: m1)
    define st2 where "st2 = store_put t (nx_set_next N (Some k) l) st1"
    have m2: "store_get st2 = (store_get st1)(t \<mapsto> nx_set_next N (Some k) l)"
      "store_modify t (nx_set_next N (Some k)) st1 = (Ok st2 :: (_, 'e) result)"
      using store_modify_Ok [OF l1, of "nx_set_next N (Some k)"] by (simp_all add: st2_def)
    have "linked_list (nx_next N) (store_get st2) (Some (Indices h k)) (ks @ [k])"
      unfolding m2 using ll1 False s1 l1
      by (intro linked_list_push_back [where n = s1]) (simp_all add: q m1)
    moreover have "queue_push N k (q, st) = (Ok (True, Some (Indices h k), st2) :: (_, 'e) result)"
      using assms(2) s m1 m2 q by (simp add: queue_push_def store_index_def)
    moreover have "(nx_is_queued N u \<longleftrightarrow> j \<in> set (ks @ [k])) \<and> (j \<notin> set (ks @ [k]) \<longrightarrow> nx_next N u = None)"
      if "store_get st2 j = Some u" for j u
      using that assms(1) s1 l t by (auto simp: m1 m2 queue_holds_def split: if_splits)
    ultimately show ?thesis using False by (auto simp: queue_holds_def st1_def st2_def)
  qed
qed

lemma queue_pop_holds:
  assumes "queue_holds N (store_get st) q (k # ks)"
  shows "\<exists>q' st'. queue_pop N (q, st) = (Ok (Some k, q', st') :: (_, 'e) result)
    \<and> queue_holds N (store_get st') q' ks \<and> store_ids st' = store_ids st"
proof -
  obtain idx where "q = Some idx" using assms by (cases q) (simp_all add: queue_holds_def)
  then obtain h t where q: "q = Some (Indices h t)" by (cases idx) simp
  have ll: "linked_list (nx_next N) (store_get st) (Some (Indices h t)) (k # ks)"
    using assms q by (simp add: queue_holds_def)
  note head = linked_list_head [OF ll]
  obtain s where s: "store_get st h = Some s" "nx_next N s = None \<longleftrightarrow> ks = []"
    using head(3) by (elim exE conjE) (rule that)
  have h: "h \<notin> set ks" using ll head(1) by (simp add: linked_list_def)
  have queued: "nx_is_queued N u \<longleftrightarrow> j \<in> set (h # ks)" "j \<notin> set (h # ks) \<Longrightarrow> nx_next N u = None"
    if "store_get st j = Some u" for j u
    using assms that head(1) by (auto simp: queue_holds_def)
  show ?thesis
  proof (cases "nx_next N s")
    case None
    then have ht: "ks = []" "h = t" using s(2) head(2) by simp_all
    define st1 where "st1 = store_put h (nx_set_queued N False s) st"
    have m1: "store_get st1 = (store_get st)(h \<mapsto> nx_set_queued N False s)"
      "store_modify h (nx_set_queued N False) st = (Ok st1 :: (_, 'e) result)"
      using store_modify_Ok [OF s(1), of "nx_set_queued N False"] by (simp_all add: st1_def)
    have "queue_pop N (q, st) = (Ok (Some h, None, st1) :: (_, 'e) result)"
      using s(1) None ht m1 by (simp add: queue_pop_def q store_index_def)
    moreover have "queue_holds N (store_get st1) None []"
      using queued ht None by (auto simp: queue_holds_def m1)
    ultimately show ?thesis using ht head(1) by (auto simp: st1_def)
  next
    case (Some h')
    then have ht: "h \<noteq> t" using s(2) head(2) by simp
    define s1 where "s1 = nx_set_next N None s"
    define st1 where "st1 = store_put h s1 st"
    define st2 where "st2 = store_put h (nx_set_queued N False s1) st1"
    have m1: "store_get st1 = (store_get st)(h \<mapsto> s1)"
      using store_get_put [OF s(1)] by (simp add: st1_def s1_def)
    then have m2: "store_get st2 = (store_get st)(h \<mapsto> nx_set_queued N False s1)"
      "store_modify h (nx_set_queued N False) st1 = (Ok st2 :: (_, 'e) result)"
      using store_modify_Ok [of st1 h s1 "nx_set_queued N False"] by (simp_all add: st2_def)
    have "queue_pop N (q, st) = (Ok (Some h, Some (Indices h' t), st2) :: (_, 'e) result)"
      using s(1) Some ht m2(2) by (simp add: queue_pop_def q store_index_def take_next_def s1_def st1_def)
    moreover have "linked_list (nx_next N) (store_get st2) (Some (Indices h' t)) ks"
      unfolding m2 using linked_list_tl(1) [OF ll s(1) Some] h by (rule linked_list_relink)
    moreover have "(nx_is_queued N u \<longleftrightarrow> j \<in> set ks) \<and> (j \<notin> set ks \<longrightarrow> nx_next N u = None)"
      if "store_get st2 j = Some u" for j u
      using that queued h by (auto simp: m2 s1_def split: if_splits)
    ultimately show ?thesis using head(1) by (auto simp: queue_holds_def st1_def st2_def)
  qed
qed

end

text \<open>
  \<open>store_view g st\<close>: what \<open>g\<close> sees of the streams. A queue writes only its two fields, so nothing
  changes for a \<open>g\<close> that does not look at them.
\<close>

lemma store_modify_eq_Ok:
  "store_modify k f st = Ok st' \<longleftrightarrow> (\<exists>s. store_get st k = Some s \<and> st' = store_put k (f s) st)"
  by (auto simp: store_modify_def store_index_def rbind_eq_Ok split: option.splits)

definition store_view :: "(stream \<Rightarrow> 'b) \<Rightarrow> store \<Rightarrow> 'b option list" where
  "store_view g st = map (map_option g) (slab_slots (store_slab st))"

lemma store_view_put:
  assumes "store_get st k = Some s" "g s' = g s"
  shows "store_view g (store_put k s' st) = store_view g st"
proof -
  have k: "key_index k < length (slab_slots (store_slab st))" "slab_slots (store_slab st) ! key_index k = Some s"
    using store_get_slab [OF assms(1)] by (auto simp: slab_get_def split: if_splits)
  then have "slab_slots (store_slab (store_put k s' st)) = (slab_slots (store_slab st))[key_index k := Some s']"
    by (simp add: store_put_def slab_set_def)
  then have "store_view g (store_put k s' st) = (store_view g st)[key_index k := Some (g s)]"
    by (simp add: store_view_def map_update assms(2))
  also have "\<dots> = store_view g st"
    using k by (metis list_update_id length_map nth_map option.map(2) store_view_def)
  finally show ?thesis .
qed

lemma store_view_get:
  assumes "store_view g st' = store_view g st"
  shows "map_option g (slab_get (store_slab st') i) = map_option g (slab_get (store_slab st) i)"
proof -
  have n: "length (slab_slots (store_slab st')) = length (slab_slots (store_slab st))"
    using assms unfolding store_view_def by (metis length_map)
  show ?thesis
  proof (cases "i < length (slab_slots (store_slab st))")
    case True
    then have "store_view g st' ! i = map_option g (slab_slots (store_slab st') ! i)"
      "store_view g st ! i = map_option g (slab_slots (store_slab st) ! i)"
      using n by (simp_all add: store_view_def)
    with assms True n show ?thesis by (simp add: slab_get_def)
  qed (simp add: slab_get_def n)
qed

lemma store_sum_view:
  "slab_sum (\<lambda>s. f (g s)) (store_slab st)
     = sum_list (map (\<lambda>v. case v of None \<Rightarrow> 0 | Some x \<Rightarrow> f x) (store_view g st))"
  by (auto simp: slab_sum_def store_view_def comp_def intro!: arg_cong [of _ _ sum_list] split: option.splits)

lemma queue_push_view:
  assumes "queue_push N k (q, st) = Ok (b, q', st')"
    "\<And>k s. g (nx_set_next N k s) = g s" "\<And>b s. g (nx_set_queued N b s) = g s"
  shows "store_view g st' = store_view g st \<and> store_ids st' = store_ids st"
proof (cases q)
  case None
  with assms(1) show ?thesis
    by (auto simp: queue_push_def rbind_eq_Ok store_modify_eq_Ok store_view_put assms(2,3) split: if_splits)
next
  case (Some idx)
  with assms(1) show ?thesis
    by (cases idx) (auto simp: queue_push_def rbind_eq_Ok store_modify_eq_Ok store_view_put assms(2,3) split: if_splits)
qed

lemma queue_pop_view:
  assumes "queue_pop N (q, st) = Ok (r, q', st')"
    "\<And>k s. g (nx_set_next N k s) = g s" "\<And>b s. g (nx_set_queued N b s) = g s"
  shows "store_view g st' = store_view g st \<and> store_ids st' = store_ids st"
proof (cases q)
  case None
  with assms(1) show ?thesis by (simp add: queue_pop_def)
next
  case (Some idx)
  with assms(1) show ?thesis
    by (cases idx) (auto simp: queue_pop_def rbind_eq_Ok store_modify_eq_Ok store_index_Ok store_view_put assms(2,3)
        take_next_def split: if_splits option.splits)
qed

section \<open>A queue is a list of streams without repetition\<close>

datatype queue_op = Queue_Push key | Queue_Pop

fun queue_step :: "next_ops \<Rightarrow> queue_op \<Rightarrow> queue \<times> store \<Rightarrow> (key option \<times> queue \<times> store, 'e) result" where
  "queue_step N (Queue_Push k) s = map_ok (\<lambda>(b, s). (if b then Some k else None, s)) (queue_push N k s)"
| "queue_step N Queue_Pop s = queue_pop N s"

fun queue_run :: "next_ops \<Rightarrow> queue_op list \<Rightarrow> queue \<times> store \<Rightarrow> (key option list \<times> queue \<times> store, 'e) result" where
  "queue_run N [] s = Ok ([], s)"
| "queue_run N (op # ops) s =
     rbind (queue_step N op s) (\<lambda>(r, s). map_ok (\<lambda>(rs, s). (r # rs, s)) (queue_run N ops s))"

text \<open>The specification: a push returns the key if it enters the queue.\<close>

fun fifo_step :: "queue_op \<Rightarrow> key list \<Rightarrow> key option \<times> key list" where
  "fifo_step (Queue_Push k) ks = (if k \<in> set ks then (None, ks) else (Some k, ks @ [k]))"
| "fifo_step Queue_Pop [] = (None, [])"
| "fifo_step Queue_Pop (k # ks) = (Some k, ks)"

fun fifo_run :: "queue_op list \<Rightarrow> key list \<Rightarrow> key option list" where
  "fifo_run [] ks = []"
| "fifo_run (op # ops) ks = (case fifo_step op ks of (r, ks) \<Rightarrow> r # fifo_run ops ks)"

fun pushed :: "queue_op \<Rightarrow> key set" where
  "pushed (Queue_Push k) = {k}"
| "pushed Queue_Pop = {}"

text \<open>The streams of the store stay.\<close>

lemma view_dom:
  assumes "store_view st_id st' = store_view st_id st"
  shows "store_get st' k = None \<longleftrightarrow> store_get st k = None"
  using store_view_get [OF assms, of "key_index k"]
  by (cases "slab_get (store_slab st') (key_index k)"; cases "slab_get (store_slab st) (key_index k)")
    (simp_all add: store_get_def)

context next_fields
begin

lemma queue_step_fifo:
  assumes "queue_holds N (store_get st) q ks" "\<And>k. k \<in> pushed op \<Longrightarrow> store_get st k \<noteq> None"
  shows "\<exists>q' st'. queue_step N op (q, st) = (Ok (fst (fifo_step op ks), q', st') :: (_, 'e) result)
    \<and> queue_holds N (store_get st') q' (snd (fifo_step op ks))
    \<and> store_view st_id st' = store_view st_id st"
proof (cases op)
  case (Queue_Push k)
  then obtain s where s: "store_get st k = Some s" using assms(2) by auto
  obtain q' st' where run: "queue_push N k (q, st) = (Ok (k \<notin> set ks, q', st') :: (_, 'e) result)"
    and holds: "queue_holds N (store_get st') q' (if k \<in> set ks then ks else ks @ [k])"
    using queue_push_holds [OF assms(1) s, where 'e = 'e] by (elim exE conjE) (rule that)
  have "store_view st_id st' = store_view st_id st" using queue_push_view [OF run, of st_id] by simp
  with run holds Queue_Push show ?thesis by (simp split: if_splits)
next
  case Queue_Pop
  show ?thesis
  proof (cases ks)
    case Nil
    then have "q = None" using assms(1) by (simp add: queue_holds_def)
    with Queue_Pop Nil assms(1) show ?thesis by (simp add: queue_pop_def)
  next
    case (Cons k ks')
    obtain q' st' where run: "queue_pop N (q, st) = (Ok (Some k, q', st') :: (_, 'e) result)"
      and holds: "queue_holds N (store_get st') q' ks'"
      using queue_pop_holds [OF assms(1) [unfolded Cons], where 'e = 'e] by (elim exE conjE) (rule that)
    have "store_view st_id st' = store_view st_id st" using queue_pop_view [OF run, of st_id] by simp
    with run holds Queue_Pop Cons show ?thesis by simp
  qed
qed

lemma queue_run_fifo:
  assumes "queue_holds N (store_get st) q ks" "\<And>k. k \<in> \<Union> (pushed ` set ops) \<Longrightarrow> store_get st k \<noteq> None"
  shows "\<exists>q' st'. queue_run N ops (q, st) = (Ok (fifo_run ops ks, q', st') :: (_, 'e) result)"
  using assms
proof (induction ops arbitrary: q st ks)
  case (Cons op ops)
  have "\<exists>q' st'. queue_step N op (q, st) = (Ok (fst (fifo_step op ks), q', st') :: (_, 'e) result)
      \<and> queue_holds N (store_get st') q' (snd (fifo_step op ks))
      \<and> store_view st_id st' = store_view st_id st"
    by (rule queue_step_fifo [OF Cons.prems(1)]) (use Cons.prems(2) in simp)
  then obtain q' st' where step: "queue_step N op (q, st) = (Ok (fst (fifo_step op ks), q', st') :: (_, 'e) result)"
    and holds: "queue_holds N (store_get st') q' (snd (fifo_step op ks))"
    and view: "store_view st_id st' = store_view st_id st"
    by (elim exE conjE) (rule that)
  have "\<And>k. k \<in> \<Union> (pushed ` set ops) \<Longrightarrow> store_get st' k \<noteq> None"
    using Cons.prems(2) view_dom [OF view] by simp
  then have "\<exists>q2 st2. queue_run N ops (q', st') = (Ok (fifo_run ops (snd (fifo_step op ks)), q2, st2) :: (_, 'e) result)"
    by (rule Cons.IH [OF holds])
  then obtain q2 st2 where "queue_run N ops (q', st') = (Ok (fifo_run ops (snd (fifo_step op ks)), q2, st2) :: (_, 'e) result)"
    by (elim exE)
  with step show ?case by (simp split: prod.split)
qed simp

lemma queue_holds_fresh:
  "(\<And>k s. m k = Some s \<Longrightarrow> \<not> nx_is_queued N s \<and> nx_next N s = None) \<Longrightarrow> queue_holds N m None []"
  by (auto simp: queue_holds_def)

end

text \<open>
  C32. The six queues of a connection behave as lists of streams without
  repetition, although a queue is two keys and its links are fields of the streams in the store: from an
  empty queue, any sequence of pushes of stored streams and of pops runs without a panic and
  returns what the list would (a push of a stream that is in the queue changes nothing, a pop takes the
  stream that was pushed first).
\<close>

theorem queues_are_fifo:
  assumes "N \<in> {NextAccept, NextSend, NextSendCapacity, NextWindowUpdate, NextOpen, NextResetExpire now}"
    and "\<And>k s. store_get st k = Some s \<Longrightarrow> \<not> nx_is_queued N s \<and> nx_next N s = None"
    and "\<And>k. k \<in> \<Union> (pushed ` set ops) \<Longrightarrow> store_get st k \<noteq> None"
  shows "\<exists>q st'. queue_run N ops (None, st) = (Ok (fifo_run ops [], q, st') :: (_, 'e) result)"
proof -
  have N: "next_fields N"
    using assms(1) by (elim insertE emptyE)
      (simp_all add: next_accept.next_fields_axioms next_send.next_fields_axioms
        next_send_capacity.next_fields_axioms next_window_update.next_fields_axioms
        next_open_field.next_fields_axioms next_reset_expire_field.next_fields_axioms)
  have "queue_holds N (store_get st) None []"
    using next_fields.queue_holds_fresh [OF N] assms(2) by blast
  then show ?thesis
    by (rule next_fields.queue_run_fifo [OF N]) (rule assms(3))
qed

text \<open>A store of two new streams, to run the queue of opening streams on.\<close>

definition two_streams :: store where
  "two_streams =
     (case (stream_new (StreamId 1) 10 10, stream_new (StreamId 3) 10 10) :: (stream, unit) result \<times> (stream, unit) result of
        (Ok s, Ok t) \<Rightarrow> snd (vacant_insert (StreamId 3) t (snd (vacant_insert (StreamId 1) s (store_new []))))
      | _ \<Rightarrow> store_new [])"

lemma two_streams_get:
  "store_get two_streams k = Some s \<Longrightarrow> \<not> nx_is_queued NextOpen s \<and> nx_next NextOpen s = None"
  "store_get two_streams (Key 0 (StreamId 1)) \<noteq> None" "store_get two_streams (Key 1 (StreamId 3)) \<noteq> None"
  by (auto simp: two_streams_def stream_new_def inc_window_def overflowing_add_def flow_new_def
      vacant_insert_def slab_insert_def slab_vacant_def slab_set_def slab_new_def store_new_def store_get_def
      slab_get_def Let_def next_defs MAX_WINDOW_SIZE_def word_sless_alt nth_Cons' split: if_splits)

theorem queues_are_fifo_witness:
  "\<exists>q st'. queue_run NextOpen [Queue_Push (Key 1 (StreamId 3)), Queue_Push (Key 0 (StreamId 1)), Queue_Push (Key 1 (StreamId 3)), Queue_Pop, Queue_Pop, Queue_Pop]
     (None, two_streams)
   = (Ok ([Some (Key 1 (StreamId 3)), Some (Key 0 (StreamId 1)), None, Some (Key 1 (StreamId 3)), Some (Key 0 (StreamId 1)), None], q, st') :: (_, unit) result)"
  using queues_are_fifo [of NextOpen 0 two_streams
      "[Queue_Push (Key 1 (StreamId 3)), Queue_Push (Key 0 (StreamId 1)), Queue_Push (Key 1 (StreamId 3)), Queue_Pop, Queue_Pop, Queue_Pop]",
      where 'e = unit] two_streams_get
  by (simp add: insert_commute del: queue_run.simps) blast

end
