(* ===== verification/Stream_World.thy ===== *)
theory Stream_World
  imports Stream_Store Framed_Read
begin

text \<open>
  The state the sending side of a connection works on: the store of streams, the counts
  (\<open>streams/counts.rs\<close>), the state of the prioritizer (\<open>streams/prioritize.rs\<close>), the buffer of
  frames to be sent, and the task to wake. The code hands these out as separate mutable
  references (\<open>streams/streams.rs\<close>, \<open>Inner\<close>, \<open>Actions\<close> and \<open>SendBuffer\<close>); here they are one record,
  and an operation on a \<open>store::Ptr\<close> takes the key of the stream. What is woken is logged in
  \<open>ss_woken\<close>. The operations of \<open>Counts\<close> follow.
\<close>

section \<open>Peers and configuration\<close>

datatype peer_dyn = Client | Server

definition peer_is_server :: "peer_dyn \<Rightarrow> bool" where
  "peer_is_server p \<longleftrightarrow> p = Server"

definition is_local_init :: "stream_id \<Rightarrow> peer_dyn \<Rightarrow> (bool, 'e) result" where
  "is_local_init i p =
     rbind (assert_that (\<not> stream_id_is_zero i)) (\<lambda>_. Ok (peer_is_server p = is_server_initiated i))"

datatype open_mode = Open_PushPromise | Open_Headers

definition ensure_can_open :: "stream_id \<Rightarrow> open_mode \<Rightarrow> peer_dyn \<Rightarrow> (unit, recv_error) result" where
  "ensure_can_open i mode p =
     (if peer_is_server p then
        (if mode = Open_PushPromise \<or> \<not> is_client_initiated i then Err (Recv_Connection PROTOCOL_ERROR)
         else Ok ())
      else
        (if mode \<noteq> Open_PushPromise \<or> \<not> is_server_initiated i then Err (Recv_Connection PROTOCOL_ERROR)
         else Ok ()))"

record config =
  local_init_window_sz :: u32
  initial_max_send_streams :: nat
  local_next_stream_id :: stream_id
  local_push_enabled :: bool
  local_reset_duration :: nat
  local_reset_max :: nat
  remote_init_window_sz :: u32
  remote_max_initiated :: "nat option"

section \<open>The records\<close>

record counts =
  peer :: peer_dyn
  max_send_streams :: nat
  num_send_streams :: nat
  max_recv_streams :: nat
  num_recv_streams :: nat
  max_reset_streams :: nat
  num_reset_streams :: nat

datatype in_flight_data = Nothing_In_Flight | In_Flight key | Drop_In_Flight

record prioritize =
  prio_pending_send :: queue
  prio_pending_capacity :: queue
  prio_pending_open :: queue
  prio_flow :: flow_control
  in_flight_data_frame :: in_flight_data

record 'f world =
  ss_store :: store
  ss_counts :: counts
  ss_prio :: prioritize
  ss_buffer :: "'f buffer"
  ss_task :: "waker option"
  ss_woken :: "waker list"

section \<open>Access to the parts\<close>

definition wake :: "waker list \<Rightarrow> (('f, 'z) world_scheme, unit, 'e) op" where
  "wake ws w = (Ok (), w\<lparr>ss_woken := ss_woken w @ ws\<rparr>)"

text \<open>\<open>if let Some(task) = task.take() { task.wake() }\<close>\<close>

definition wake_task :: "(('f, 'z) world_scheme, unit, 'e) op" where
  "wake_task w =
     (case ss_task w of
        Some t \<Rightarrow> wake [t] (w\<lparr>ss_task := None\<rparr>)
      | None \<Rightarrow> (Ok (), w))"

definition stream_at :: "key \<Rightarrow> (('f, 'z) world_scheme, stream, 'e) op" where
  "stream_at k w = (store_index k (ss_store w), w)"

definition modify_stream :: "key \<Rightarrow> (stream \<Rightarrow> stream) \<Rightarrow> (('f, 'z) world_scheme, unit, 'e) op" where
  "modify_stream k f w =
     (case store_modify k f (ss_store w) of
        Ok st \<Rightarrow> (Ok (), w\<lparr>ss_store := st\<rparr>)
      | Err e \<Rightarrow> (Err e, w)
      | Panic \<Rightarrow> (Panic, w))"

text \<open>An operation of the stream that may fail, and one that may wake a task.\<close>

definition try_stream :: "key \<Rightarrow> (stream \<Rightarrow> (stream, 'e) result) \<Rightarrow> (('f, 'z) world_scheme, unit, 'e) op" where
  "try_stream k f = sbind (stream_at k) (\<lambda>s. sbind (slift (f s)) (\<lambda>s. modify_stream k (\<lambda>_. s)))"

definition waking_stream :: "key \<Rightarrow> (stream \<Rightarrow> stream \<times> waker list) \<Rightarrow> (('f, 'z) world_scheme, unit, 'e) op" where
  "waking_stream k f =
     sbind (stream_at k) (\<lambda>s. case f s of (s, ws) \<Rightarrow> sbind (modify_stream k (\<lambda>_. s)) (\<lambda>_. wake ws))"

definition modify_counts :: "(counts \<Rightarrow> counts) \<Rightarrow> (('f, 'z) world_scheme, unit, 'e) op" where
  "modify_counts f w = (Ok (), w\<lparr>ss_counts := f (ss_counts w)\<rparr>)"

definition modify_prio :: "(prioritize \<Rightarrow> prioritize) \<Rightarrow> (('f, 'z) world_scheme, unit, 'e) op" where
  "modify_prio f w = (Ok (), w\<lparr>ss_prio := f (ss_prio w)\<rparr>)"

definition world_counts :: "(('f, 'z) world_scheme, counts, 'e) op" where
  "world_counts w = (Ok (ss_counts w), w)"

definition world_prio :: "(('f, 'z) world_scheme, prioritize, 'e) op" where
  "world_prio w = (Ok (ss_prio w), w)"

definition assert_op :: "bool \<Rightarrow> ('w, unit, 'e) op" where
  "assert_op b = slift (assert_that b)"

text \<open>The deque of frames of a stream, in the shared buffer.\<close>

definition on_pending_send ::
  "key \<Rightarrow> (deque \<times> 'f buffer \<Rightarrow> ('a \<times> deque \<times> 'f buffer, 'e) result) \<Rightarrow> (('f, 'z) world_scheme, 'a, 'e) op" where
  "on_pending_send k f =
     sbind (stream_at k) (\<lambda>s w.
       case f (pending_send s, ss_buffer w) of
         Ok (x, d, b) \<Rightarrow> sbind (modify_stream k (\<lambda>s. s\<lparr>pending_send := d\<rparr>)) (\<lambda>_. sret x) (w\<lparr>ss_buffer := b\<rparr>)
       | Err e \<Rightarrow> (Err e, w)
       | Panic \<Rightarrow> (Panic, w))"

definition pending_push_back :: "key \<Rightarrow> 'f \<Rightarrow> (('f, 'z) world_scheme, unit, 'e) op" where
  "pending_push_back k f = on_pending_send k (\<lambda>db. map_ok (\<lambda>(d, b). ((), d, b)) (deque_push_back f db))"

definition pending_push_front :: "key \<Rightarrow> 'f \<Rightarrow> (('f, 'z) world_scheme, unit, 'e) op" where
  "pending_push_front k f = on_pending_send k (\<lambda>db. map_ok (\<lambda>(d, b). ((), d, b)) (deque_push_front f db))"

definition pending_pop_front :: "key \<Rightarrow> (('f, 'z) world_scheme, 'f option, 'e) op" where
  "pending_pop_front k = on_pending_send k deque_pop_front"

text \<open>The three queues of the prioritizer.\<close>

datatype prio_queue = Q_Send | Q_Capacity | Q_Open

fun queue_next :: "prio_queue \<Rightarrow> next_ops" where
  "queue_next Q_Send = NextSend"
| "queue_next Q_Capacity = NextSendCapacity"
| "queue_next Q_Open = NextOpen"

fun get_queue :: "prio_queue \<Rightarrow> prioritize \<Rightarrow> queue" where
  "get_queue Q_Send = prio_pending_send"
| "get_queue Q_Capacity = prio_pending_capacity"
| "get_queue Q_Open = prio_pending_open"

fun put_queue :: "prio_queue \<Rightarrow> queue \<Rightarrow> prioritize \<Rightarrow> prioritize" where
  "put_queue Q_Send q p = p\<lparr>prio_pending_send := q\<rparr>"
| "put_queue Q_Capacity q p = p\<lparr>prio_pending_capacity := q\<rparr>"
| "put_queue Q_Open q p = p\<lparr>prio_pending_open := q\<rparr>"

definition push_queue :: "prio_queue \<Rightarrow> key \<Rightarrow> (('f, 'z) world_scheme, unit, 'e) op" where
  "push_queue n k w =
     (case queue_push (queue_next n) k (get_queue n (ss_prio w), ss_store w) of
        Ok (_, q, st) \<Rightarrow> (Ok (), w\<lparr>ss_prio := put_queue n q (ss_prio w), ss_store := st\<rparr>)
      | Err e \<Rightarrow> (Err e, w)
      | Panic \<Rightarrow> (Panic, w))"

definition pop_queue :: "prio_queue \<Rightarrow> (('f, 'z) world_scheme, key option, 'e) op" where
  "pop_queue n w =
     (case queue_pop (queue_next n) (get_queue n (ss_prio w), ss_store w) of
        Ok (k, q, st) \<Rightarrow> (Ok k, w\<lparr>ss_prio := put_queue n q (ss_prio w), ss_store := st\<rparr>)
      | Err e \<Rightarrow> (Err e, w)
      | Panic \<Rightarrow> (Panic, w))"

section \<open>Iteration over the streams\<close>

text \<open>
  \<open>Store::for_each\<close>: the body may unlink the stream it is given, which moves the last one into its
  place. The state is the world, or the world with the variables the closure captures; the first
  argument reads the map of identifiers out of it.
\<close>

function store_for_each_from ::
  "('s \<Rightarrow> ids) \<Rightarrow> (key \<Rightarrow> ('s, unit, 'e) op) \<Rightarrow> nat \<Rightarrow> nat \<Rightarrow> ('s, unit, 'e) op" where
  "store_for_each_from ids f i n w =
     (if i < n then
        (if i < length (ids w) then
           (case ids w ! i of (stream_id, index) \<Rightarrow>
              (case f (Key index stream_id) w of
                 (Ok _, w') \<Rightarrow>
                   (if length (ids w') < n then store_for_each_from ids f i (n - 1) w'
                    else store_for_each_from ids f (i + 1) n w')
               | (Err e, w') \<Rightarrow> (Err e, w')
               | (Panic, w') \<Rightarrow> (Panic, w')))
         else (Panic, w))
      else (Ok (), w))"
  by pat_completeness auto

termination
  by (relation "measure (\<lambda>(ids, f, i, n, w). n - i)") auto

declare store_for_each_from.simps [simp del]

definition store_for_each :: "('s \<Rightarrow> ids) \<Rightarrow> (key \<Rightarrow> ('s, unit, 'e) op) \<Rightarrow> ('s, unit, 'e) op" where
  "store_for_each ids f w = store_for_each_from ids f 0 (length (ids w)) w"

definition world_ids :: "('f, 'z) world_scheme \<Rightarrow> ids" where
  "world_ids w = store_ids (ss_store w)"

section \<open>Counts\<close>

definition counts_new :: "peer_dyn \<Rightarrow> config \<Rightarrow> counts" where
  "counts_new p c =
     \<lparr>peer = p, max_send_streams = initial_max_send_streams c, num_send_streams = 0,
      max_recv_streams = (case remote_max_initiated c of Some n \<Rightarrow> n | None \<Rightarrow> USIZE_MAX),
      num_recv_streams = 0, max_reset_streams = local_reset_max c, num_reset_streams = 0\<rparr>"

definition has_streams :: "counts \<Rightarrow> bool" where
  "has_streams c \<longleftrightarrow> num_send_streams c \<noteq> 0 \<or> num_recv_streams c \<noteq> 0"

definition can_inc_num_recv_streams :: "counts \<Rightarrow> bool" where
  "can_inc_num_recv_streams c \<longleftrightarrow> max_recv_streams c > num_recv_streams c"

definition inc_num_recv_streams :: "key \<Rightarrow> (('f, 'z) world_scheme, unit, 'e) op" where
  "inc_num_recv_streams k =
     sbind world_counts (\<lambda>c. sbind (assert_op (can_inc_num_recv_streams c)) (\<lambda>_.
     sbind (stream_at k) (\<lambda>s. sbind (assert_op (\<not> is_counted s)) (\<lambda>_.
     sbind (modify_counts (\<lambda>c. c\<lparr>num_recv_streams := num_recv_streams c + 1\<rparr>)) (\<lambda>_.
     modify_stream k (\<lambda>s. s\<lparr>is_counted := True\<rparr>))))))"

definition can_inc_num_send_streams :: "counts \<Rightarrow> bool" where
  "can_inc_num_send_streams c \<longleftrightarrow> max_send_streams c > num_send_streams c"

definition inc_num_send_streams :: "key \<Rightarrow> (('f, 'z) world_scheme, unit, 'e) op" where
  "inc_num_send_streams k =
     sbind world_counts (\<lambda>c. sbind (assert_op (can_inc_num_send_streams c)) (\<lambda>_.
     sbind (stream_at k) (\<lambda>s. sbind (assert_op (\<not> is_counted s)) (\<lambda>_.
     sbind (modify_counts (\<lambda>c. c\<lparr>num_send_streams := num_send_streams c + 1\<rparr>)) (\<lambda>_.
     modify_stream k (\<lambda>s. s\<lparr>is_counted := True\<rparr>))))))"

definition can_inc_num_reset_streams :: "counts \<Rightarrow> bool" where
  "can_inc_num_reset_streams c \<longleftrightarrow> max_reset_streams c > num_reset_streams c"

definition inc_num_reset_streams :: "(('f, 'z) world_scheme, unit, 'e) op" where
  "inc_num_reset_streams =
     sbind world_counts (\<lambda>c. sbind (assert_op (can_inc_num_reset_streams c)) (\<lambda>_.
     modify_counts (\<lambda>c. c\<lparr>num_reset_streams := num_reset_streams c + 1\<rparr>)))"

definition counts_apply_remote_settings :: "settings \<Rightarrow> counts \<Rightarrow> counts" where
  "counts_apply_remote_settings f c =
     (case max_concurrent_streams f of
        Some n \<Rightarrow> c\<lparr>max_send_streams := unat n\<rparr>
      | None \<Rightarrow> c)"

definition dec_num_streams :: "key \<Rightarrow> (('f, 'z) world_scheme, unit, 'e) op" where
  "dec_num_streams k =
     sbind (stream_at k) (\<lambda>s. sbind (assert_op (is_counted s)) (\<lambda>_.
     sbind world_counts (\<lambda>c. sbind (slift (is_local_init (st_id s) (peer c))) (\<lambda>local.
       if local then
         sbind (assert_op (num_send_streams c > 0)) (\<lambda>_.
         sbind (modify_counts (\<lambda>c. c\<lparr>num_send_streams := num_send_streams c - 1\<rparr>)) (\<lambda>_.
         modify_stream k (\<lambda>s. s\<lparr>is_counted := False\<rparr>)))
       else
         sbind (assert_op (num_recv_streams c > 0)) (\<lambda>_.
         sbind (modify_counts (\<lambda>c. c\<lparr>num_recv_streams := num_recv_streams c - 1\<rparr>)) (\<lambda>_.
         modify_stream k (\<lambda>s. s\<lparr>is_counted := False\<rparr>)))))))"

definition dec_num_reset_streams :: "(('f, 'z) world_scheme, unit, 'e) op" where
  "dec_num_reset_streams =
     sbind world_counts (\<lambda>c. sbind (assert_op (num_reset_streams c > 0)) (\<lambda>_.
     modify_counts (\<lambda>c. c\<lparr>num_reset_streams := num_reset_streams c - 1\<rparr>)))"

definition unlink_stream :: "key \<Rightarrow> (('f, 'z) world_scheme, unit, 'e) op" where
  "unlink_stream k w = (Ok (), w\<lparr>ss_store := store_unlink k (ss_store w)\<rparr>)"

definition remove_stream :: "key \<Rightarrow> (('f, 'z) world_scheme, unit, 'e) op" where
  "remove_stream k w =
     (case store_remove k (ss_store w) of
        Ok st \<Rightarrow> (Ok (), w\<lparr>ss_store := st\<rparr>)
      | Err e \<Rightarrow> (Err e, w)
      | Panic \<Rightarrow> (Panic, w))"

definition transition_after :: "key \<Rightarrow> bool \<Rightarrow> (('f, 'z) world_scheme, unit, 'e) op" where
  "transition_after k is_reset_counted =
     sbind (stream_at k) (\<lambda>s.
     sbind
       (if stream_is_closed s then
          sbind
            (if \<not> is_pending_reset_expiration s then
               sbind (unlink_stream k) (\<lambda>_.
                 if is_reset_counted then dec_num_reset_streams else sret ())
             else sret ())
            (\<lambda>_. if is_counted s then dec_num_streams k else sret ())
        else sret ()) (\<lambda>_.
     sbind (stream_at k) (\<lambda>s. if is_released s then remove_stream k else sret ())))"

text \<open>\<open>Counts::transition\<close>: the bookkeeping runs whatever the closure returns.\<close>

definition transition :: "key \<Rightarrow> (('f, 'z) world_scheme, 'a, 'e) op \<Rightarrow> (('f, 'z) world_scheme, 'a, 'e) op" where
  "transition k f =
     sbind (stream_at k) (\<lambda>s w.
       case f w of
         (Panic, w) \<Rightarrow> (Panic, w)
       | (r, w) \<Rightarrow>
           (case transition_after k (is_pending_reset_expiration s) w of
              (Ok _, w) \<Rightarrow> (r, w)
            | (Err e, w) \<Rightarrow> (Err e, w)
            | (Panic, w) \<Rightarrow> (Panic, w)))"

section \<open>Windows as integers\<close>

lemma uint_window_as_size: "uint (window_as_size w) = max 0 (sint w)"
proof (cases "w <s 0")
  case False
  then have "0 \<le> sint w" by (simp add: word_sless_alt)
  with False sint_nonneg [OF this] show ?thesis by (simp add: window_as_size_def)
qed (simp add: window_as_size_def word_sless_alt)

lemma window_compare:
  "window_less_size w n \<longleftrightarrow> sint w < uint n"
  "window_greater_size w n \<longleftrightarrow> uint n < sint w"
proof -
  have n: "0 \<le> uint n" by simp
  have w: "uint w = sint w" if "\<not> w <s 0"
    using that sint_nonneg [of w] by (simp add: word_sless_alt)
  have neg: "sint w < uint n" if "sint w < 0" using that n by linarith
  show "window_less_size w n \<longleftrightarrow> sint w < uint n"
    using neg w by (auto simp: window_less_size_def word_sless_alt word_less_def)
  show "window_greater_size w n \<longleftrightarrow> uint n < sint w"
    using neg w by (auto simp: window_greater_size_def word_sless_alt word_less_def)
qed

lemma has_unavailable_iff:
  "has_unavailable fc \<longleftrightarrow> 0 \<le> sint (fc_window_size fc) \<and> sint (fc_available fc) < sint (fc_window_size fc)"
  by (auto simp: has_unavailable_def window_compare word_sless_alt)

lemma sint_sub_size:
  assumes "uint n \<le> max 0 (sint (w :: i32))"
  shows "sint (w - n) = sint w - uint n"
proof (cases "n = 0")
  case False
  then have "0 < uint n" by (simp add: uint_0_iff word_gt_0_no less_le)
  with assms have "uint n \<le> sint w" by linarith
  moreover have "sint n = uint n" using calculation sint_i32_range(2) [of w] by (intro sint_size) linarith
  ultimately show ?thesis using sint_diff_i32 [of w n] sint_i32_range [of w] \<open>0 < uint n\<close> by simp
qed simp

section \<open>Weakest preconditions\<close>

text \<open>
  \<open>wp m Q w\<close>: the outcome and the state in which \<open>m\<close> ends from \<open>w\<close> satisfy \<open>Q\<close>. The operations are
  deterministic and total, so this is an equation for each of them; a property that excludes
  panics says so in \<open>Q\<close>.
\<close>

definition wp :: "('s, 'a, 'e) op \<Rightarrow> (('a, 'e) result \<Rightarrow> 's \<Rightarrow> bool) \<Rightarrow> 's \<Rightarrow> bool" where
  "wp m Q s \<longleftrightarrow> (case m s of (r, s') \<Rightarrow> Q r s')"

named_theorems wp_simps \<open>weakest preconditions of the basic operations\<close>

lemma wpI: "(\<And>r s'. m s = (r, s') \<Longrightarrow> Q r s') \<Longrightarrow> wp m Q s"
  by (simp add: wp_def split: prod.splits)

lemma wpD: "wp m Q s \<Longrightarrow> m s = (r, s') \<Longrightarrow> Q r s'"
  by (simp add: wp_def)

lemma wp_mono: "wp m P s \<Longrightarrow> (\<And>r s'. P r s' \<Longrightarrow> Q r s') \<Longrightarrow> wp m Q s"
  by (auto simp: wp_def)

lemma wp_conj: "wp m P s \<Longrightarrow> wp m Q s \<Longrightarrow> wp m (\<lambda>r s'. P r s' \<and> Q r s') s"
  by (auto simp: wp_def)

lemma wp_sret [wp_simps]: "wp (sret x) Q s = Q (Ok x) s"
  by (simp add: wp_def)

lemma wp_slift [wp_simps]: "wp (slift r) Q s = Q r s"
  by (simp add: wp_def)

lemma wp_sbind [wp_simps]:
  "wp (sbind m f) Q s =
     wp m (\<lambda>r s'. case r of Ok x \<Rightarrow> wp (f x) Q s' | Err e \<Rightarrow> Q (Err e) s' | Panic \<Rightarrow> Q Panic s') s"
  by (auto simp: wp_def sbind_def split: prod.splits result.splits)

lemma wp_if [wp_simps]: "wp (if b then m else m') Q s = (if b then wp m Q s else wp m' Q s)"
  by simp

lemma wp_assert_op [wp_simps]: "wp (assert_op b) Q s = (if b then Q (Ok ()) s else Q Panic s)"
  by (simp add: wp_def assert_op_def assert_that_def)

lemma wp_wake [wp_simps]: "wp (wake ws) Q w = Q (Ok ()) (w\<lparr>ss_woken := ss_woken w @ ws\<rparr>)"
  by (simp add: wp_def wake_def)

lemma wp_wake_task [wp_simps]:
  "wp wake_task Q w =
     (case ss_task w of
        Some t \<Rightarrow> Q (Ok ()) (w\<lparr>ss_task := None, ss_woken := ss_woken w @ [t]\<rparr>)
      | None \<Rightarrow> Q (Ok ()) w)"
  by (simp add: wp_def wake_task_def wake_def split: option.split)

lemma wp_stream_at [wp_simps]:
  "wp (stream_at k) Q w = (case store_get (ss_store w) k of Some s \<Rightarrow> Q (Ok s) w | None \<Rightarrow> Q Panic w)"
  by (simp add: wp_def stream_at_def store_index_def split: option.split)

lemma wp_modify_stream [wp_simps]:
  "wp (modify_stream k f) Q w =
     (case store_get (ss_store w) k of
        Some s \<Rightarrow> Q (Ok ()) (w\<lparr>ss_store := store_put k (f s) (ss_store w)\<rparr>)
      | None \<Rightarrow> Q Panic w)"
  by (simp add: wp_def modify_stream_def store_modify_def store_index_def split: option.split)

lemma wp_modify_counts [wp_simps]: "wp (modify_counts f) Q w = Q (Ok ()) (w\<lparr>ss_counts := f (ss_counts w)\<rparr>)"
  by (simp add: wp_def modify_counts_def)

lemma wp_modify_prio [wp_simps]: "wp (modify_prio f) Q w = Q (Ok ()) (w\<lparr>ss_prio := f (ss_prio w)\<rparr>)"
  by (simp add: wp_def modify_prio_def)

lemma wp_world_counts [wp_simps]: "wp world_counts Q w = Q (Ok (ss_counts w)) w"
  by (simp add: wp_def world_counts_def)

lemma wp_world_prio [wp_simps]: "wp world_prio Q w = Q (Ok (ss_prio w)) w"
  by (simp add: wp_def world_prio_def)

lemma wp_unlink_stream [wp_simps]:
  "wp (unlink_stream k) Q w = Q (Ok ()) (w\<lparr>ss_store := store_unlink k (ss_store w)\<rparr>)"
  by (simp add: wp_def unlink_stream_def)

lemma wp_transition:
  "wp (transition k f) Q w =
     (case store_get (ss_store w) k of
        None \<Rightarrow> Q Panic w
      | Some s \<Rightarrow>
          wp f (\<lambda>r w'. case r of
              Panic \<Rightarrow> Q Panic w'
            | _ \<Rightarrow> wp (transition_after k (is_pending_reset_expiration s))
                (\<lambda>r' w''. case r' of Ok _ \<Rightarrow> Q r w'' | Err e \<Rightarrow> Q (Err e) w'' | Panic \<Rightarrow> Q Panic w'') w') w)"
  by (auto simp: transition_def wp_def sbind_def stream_at_def store_index_def
      split: option.splits prod.splits result.splits)

text \<open>
  \<open>steps R m\<close>: whatever the outcome, \<open>m\<close> goes from a state to one that is related by \<open>R\<close>, a
  preorder. The relations say what an operation leaves alone.
\<close>

definition steps :: "('s \<Rightarrow> 's \<Rightarrow> bool) \<Rightarrow> ('s, 'a, 'e) op \<Rightarrow> bool" where
  "steps R m \<longleftrightarrow> (\<forall>s r s'. m s = (r, s') \<longrightarrow> R s s')"

lemma wp_steps: "steps R m \<Longrightarrow> (\<And>r s'. R s s' \<Longrightarrow> Q r s') \<Longrightarrow> wp m Q s"
  by (auto simp: steps_def wp_def split: prod.splits)

named_theorems steps_rules \<open>relations between the states before and after an operation\<close>

lemma stepsI: "(\<And>s r s'. m s = (r, s') \<Longrightarrow> R s s') \<Longrightarrow> steps R m"
  by (simp add: steps_def)

lemma stepsD: "steps R m \<Longrightarrow> m s = (r, s') \<Longrightarrow> R s s'"
  by (simp add: steps_def)

lemma steps_wp: "steps R m \<longleftrightarrow> (\<forall>s. wp m (\<lambda>_ s'. R s s') s)"
  by (auto simp: steps_def wp_def split: prod.splits)

lemma steps_wpD: "steps R m \<Longrightarrow> wp m (\<lambda>_ s'. R s s') s"
  by (simp add: steps_wp)

lemma steps_sret [steps_rules]: "reflp R \<Longrightarrow> steps R (sret x)"
  by (simp add: steps_def reflpD)

lemma steps_slift [steps_rules]: "reflp R \<Longrightarrow> steps R (slift r)"
  by (simp add: steps_def reflpD)

lemma steps_sbind [steps_rules]:
  assumes "transp R" "steps R m" "\<And>x. steps R (f x)"
  shows "steps R (sbind m f)"
proof (rule stepsI)
  fix s r s' assume run: "sbind m f s = (r, s')"
  obtain r1 s1 where m: "m s = (r1, s1)" by fastforce
  then have R: "R s s1" using assms(2) by (rule stepsD [rotated])
  show "R s s'"
  proof (cases r1)
    case (Ok x)
    with run m have "f x s1 = (r, s')" by simp
    then have "R s1 s'" by (rule stepsD [OF assms(3)])
    with R show ?thesis by (rule transpD [OF assms(1)])
  qed (use run m R in simp_all)
qed

lemma steps_if [steps_rules]: "(b \<Longrightarrow> steps R m) \<Longrightarrow> (\<not> b \<Longrightarrow> steps R m') \<Longrightarrow> steps R (if b then m else m')"
  by simp

lemma steps_assert [steps_rules]: "reflp R \<Longrightarrow> steps R (assert_op b)"
  by (simp add: assert_op_def steps_slift)

lemma steps_stream_at [steps_rules]: "reflp R \<Longrightarrow> steps R (stream_at k)"
  by (simp add: steps_def stream_at_def reflpD)

lemma steps_world [steps_rules]:
  "reflp R \<Longrightarrow> steps R world_counts" "reflp R \<Longrightarrow> steps R world_prio"
  by (simp_all add: steps_def world_counts_def world_prio_def reflpD)

lemma steps_transition [steps_rules]:
  fixes f :: "(('f, 'z) world_scheme, 'a, 'e) op"
  assumes "reflp R" "transp R" "steps R f" "\<And>b. steps R (transition_after k b :: (('f, 'z) world_scheme, unit, 'e) op)"
  shows "steps R (transition k f)"
proof (rule stepsI)
  fix w r w' assume run: "transition k f w = (r, w')"
  show "R w w'"
  proof (cases "store_get (ss_store w) k")
    case None
    with run show ?thesis using assms(1) by (simp add: transition_def sbind_def stream_at_def store_index_def reflpD)
  next
    case (Some s)
    obtain r1 w1 where f: "f w = (r1, w1)" by fastforce
    obtain r2 :: "(unit, 'e) result" and w2 where a: "transition_after k (is_pending_reset_expiration s) w1 = (r2, w2)"
      by fastforce
    have "w' = w1 \<or> w' = w2"
      using run Some f a by (cases r1; cases r2) (auto simp: transition_def sbind_def stream_at_def store_index_def)
    moreover have "R w w1" "R w1 w2" using stepsD [OF assms(3) f] stepsD [OF assms(4) a] by simp_all
    ultimately show ?thesis using transpD [OF assms(2)] by blast
  qed
qed

section \<open>Links\<close>

text \<open>The loops take a link out of a queue in every round; the bookkeeping after a transition touches no queue.\<close>

definition links :: "next_ops \<Rightarrow> store \<Rightarrow> nat" where
  "links N st = slab_sum (\<lambda>s. if nx_next N s = None then 0 else 1) (store_slab st)"

lemma store_put_sum:
  fixes f :: "stream \<Rightarrow> nat"
  assumes "store_get st k = Some s"
  shows "slab_sum f (store_slab (store_put k s' st)) + f s = slab_sum f (store_slab st) + f s'"
  using slab_sum_put [of "store_slab st" "key_index k" s f s'] store_get_slab [OF assms]
  by (simp add: store_put_def)

lemma links_put:
  assumes "store_get st k = Some s" "nx_next N s' = nx_next N s"
  shows "links N (store_put k s' st) = links N st"
  using store_put_sum [OF assms(1), of "\<lambda>s. if nx_next N s = None then 0 else 1" s'] assms(2)
  by (simp add: links_def)

lemma links_put_None:
  assumes "store_get st k = Some s" "nx_next N s = Some j" "nx_next N s' = None"
  shows "links N (store_put k s' st) + 1 = links N st"
  using store_put_sum [OF assms(1), of "\<lambda>s. if nx_next N s = None then 0 else 1" s'] assms(2,3)
  by (simp add: links_def)

lemma links_remove: "store_remove k st = Ok st' \<Longrightarrow> links N st' \<le> links N st"
proof -
  assume "store_remove k st = Ok st'"
  then obtain s where "slab_get (store_slab st) (key_index k) = Some s"
    "store_slab st' = slab_set (key_index k) None (store_slab st)"
    by (auto simp: store_remove_def slab_remove_def rbind_eq_Ok split: option.splits)
  then show ?thesis
    using slab_sum_delete [of "store_slab st" "key_index k" s "\<lambda>s. if nx_next N s = None then 0 else (1 :: nat)"]
    by (simp add: links_def split: if_splits)
qed

lemma links_unlink [simp]: "links N (store_unlink k st) = links N st"
  by (simp add: links_def store_unlink_def)

lemma links_view: "links N st = sum_list (map (\<lambda>v. case v of None \<Rightarrow> 0 | Some q \<Rightarrow> if q = None then 0 else 1)
    (store_view (nx_next N) st))"
  using store_sum_view [of "\<lambda>q. if q = None then 0 else 1" "nx_next N" st] by (simp add: links_def)

definition fewer_links :: "next_ops \<Rightarrow> ('f, 'z) world_scheme \<Rightarrow> ('f, 'z) world_scheme \<Rightarrow> bool" where
  "fewer_links N w w' \<longleftrightarrow> links N (ss_store w') \<le> links N (ss_store w) \<and> ss_prio w' = ss_prio w
     \<and> world.more w' = world.more w"

lemma fewer_links_order [simp]: "reflp (fewer_links N)" "transp (fewer_links N)"
  by (auto simp: fewer_links_def intro!: reflpI transpI)

lemma dec_num_reset_streams_links: "steps (fewer_links N) dec_num_reset_streams"
  by (auto simp: steps_wp dec_num_reset_streams_def wp_simps fewer_links_def)

lemma remove_stream_links: "steps (fewer_links N) (remove_stream k)"
  by (auto simp: steps_def remove_stream_def fewer_links_def dest: links_remove split: result.splits)

lemma unlink_stream_links: "steps (fewer_links N) (unlink_stream k)"
  by (auto simp: steps_wp wp_simps fewer_links_def)

context next_fields
begin

lemma queue_pop_links:
  assumes "queue_pop N (q, st) = Ok (Some k, q', st')"
  shows "links N st' + (if q' = None then 0 else 1) < links N st + (if q = None then 0 else 1)"
proof -
  obtain h t where q: "q = Some (Indices h t)"
    using assms by (auto simp: queue_pop_def split: option.splits indices.splits)
  obtain s where s: "store_get st h = Some s"
    using assms by (auto simp: queue_pop_def q rbind_eq_Ok store_index_Ok)
  show ?thesis
  proof (cases "h = t")
    case True
    with assms s have "q' = None" "st' = store_put h (nx_set_queued N False s) st"
      by (auto simp: queue_pop_def q rbind_eq_Ok store_modify_eq_Ok)
    with s show ?thesis by (simp add: q links_put)
  next
    case False
    define st1 where "st1 = store_put h (nx_set_next N None s) st"
    from False assms s obtain h' s2 where *: "nx_next N s = Some h'"
      "q' = Some (Indices h' t)" "store_get st1 h = Some s2"
      "st' = store_put h (nx_set_queued N False s2) st1"
      by (auto simp: queue_pop_def q rbind_eq_Ok store_modify_eq_Ok store_index_Ok take_next_def st1_def
          split: option.splits)
    then have "links N st' = links N st1" by (simp add: links_put)
    moreover have "links N st1 + 1 = links N st" unfolding st1_def by (rule links_put_None [OF s *(1)]) simp
    ultimately show ?thesis using *(2) q by simp
  qed
qed

lemma dec_num_streams_links: "steps (fewer_links N) (dec_num_streams k)"
  by (auto simp: steps_wp dec_num_streams_def wp_simps links_put fewer_links_def split: option.splits result.splits)

lemma transition_after_links: "steps (fewer_links N) (transition_after k b)"
  unfolding transition_after_def
  by (intro steps_rules dec_num_streams_links dec_num_reset_streams_links remove_stream_links unlink_stream_links)
    simp_all

lemma transition_links: "steps (fewer_links N) f \<Longrightarrow> steps (fewer_links N) (transition k f)"
  by (intro steps_rules transition_after_links) simp_all

end

end
