(* ===== verification/Prioritize.thy ===== *)
theory Prioritize
  imports Stream_World
begin

text \<open>
  The prioritizer (\<open>streams/prioritize.rs\<close>): which stream may send how much, and which frame is
  next on the wire. The connection window is split: capacity is assigned to streams out of it,
  waits in the streams, and goes back when a stream does not need it. This theory has the operations
  and shows how much a stream is assigned; the loops end because every round takes a link out of a queue
  or capacity out of the connection.
\<close>

section \<open>The prioritizer\<close>

definition prioritize_new :: "config \<Rightarrow> (prioritize, 'e) result" where
  "prioritize_new c =
     (case inc_window (remote_init_window_sz c) flow_new of
        Ok fl \<Rightarrow>
          Ok \<lparr>prio_pending_send = None, prio_pending_capacity = None, prio_pending_open = None,
              prio_flow = flow_assign_capacity (remote_init_window_sz c) fl,
              in_flight_data_frame = Nothing_In_Flight\<rparr>
      | _ \<Rightarrow> Panic)"

text \<open>
  \<open>Prioritized<B>\<close>: the part of a payload that goes into one DATA frame. \<open>Take<B>\<close> is the buffer and
  how many of its bytes may be read.
\<close>

record prioritized =
  pr_inner :: bytes
  pr_limit :: nat
  pr_end_of_stream :: bool
  pr_stream :: key

definition pr_remaining :: "prioritized \<Rightarrow> nat" where
  "pr_remaining p = min (length (pr_inner p)) (pr_limit p)"

definition pr_chunk :: "prioritized \<Rightarrow> bytes" where
  "pr_chunk p = take (pr_limit p) (pr_inner p)"

definition pr_advance :: "nat \<Rightarrow> prioritized \<Rightarrow> (prioritized, 'e) result" where
  "pr_advance cnt p =
     rbind (assert_that (cnt \<le> pr_limit p)) (\<lambda>_.
     rbind (assert_that (cnt \<le> length (pr_inner p))) (\<lambda>_.
       Ok (p\<lparr>pr_inner := drop cnt (pr_inner p), pr_limit := pr_limit p - cnt\<rparr>)))"

text \<open>\<open>Frame::map\<close>: the closure is called on the payload of a DATA frame only, and it may panic.\<close>

fun frame_map :: "('b \<Rightarrow> ('c, 'e) result) \<Rightarrow> ('b, 'm) payload_frame \<Rightarrow> (('c, 'm) payload_frame, 'e) result" where
  "frame_map f (FData frame) = map_ok (\<lambda>x. FData (data_map (\<lambda>_. x) frame)) (f (data_data frame))"
| "frame_map f (FHeaders frame) = Ok (FHeaders frame)"
| "frame_map f (FPriority frame) = Ok (FPriority frame)"
| "frame_map f (FPushPromise frame) = Ok (FPushPromise frame)"
| "frame_map f (FSettings frame) = Ok (FSettings frame)"
| "frame_map f (FPing frame) = Ok (FPing frame)"
| "frame_map f (FGoAway frame) = Ok (FGoAway frame)"
| "frame_map f (FWindowUpdate frame) = Ok (FWindowUpdate frame)"
| "frame_map f (FReset frame) = Ok (FReset frame)"

type_synonym ('m, 'z) sending = "((bytes, 'm) payload_frame, 'z) world_scheme"

section \<open>Queueing frames\<close>

definition schedule_send :: "key \<Rightarrow> (('f, 'z) world_scheme, unit, 'e) op" where
  "schedule_send k =
     sbind (stream_at k) (\<lambda>s.
       if is_send_ready s then sbind (push_queue Q_Send k) (\<lambda>_. wake_task) else sret ())"

definition queue_frame :: "'f \<Rightarrow> key \<Rightarrow> (('f, 'z) world_scheme, unit, 'e) op" where
  "queue_frame f k = sbind (pending_push_back k f) (\<lambda>_. schedule_send k)"

definition queue_open :: "key \<Rightarrow> (('f, 'z) world_scheme, unit, 'e) op" where
  "queue_open k = push_queue Q_Open k"

section \<open>Capacity\<close>

definition conn_available :: "('f, 'z) world_scheme \<Rightarrow> u32" where
  "conn_available w = window_as_size (fc_available (prio_flow (ss_prio w)))"

text \<open>How much more a stream may have: what it asked for, as far as its window allows.\<close>

definition additional_capacity :: "stream \<Rightarrow> u32" where
  "additional_capacity s =
     (let available = window_as_size (fc_available (send_flow s))
      in min (requested_send_capacity s - available) (flow_window_size (send_flow s) - available))"

definition try_assign_capacity :: "key \<Rightarrow> (('f, 'z) world_scheme, unit, 'e) op" where
  "try_assign_capacity k =
     sbind (stream_at k) (\<lambda>s.
       let additional = additional_capacity s in
       if additional = 0 then sret ()
       else
         sbind world_prio (\<lambda>p.
           let conn_available = window_as_size (fc_available (prio_flow p)) in
           sbind
             (if conn_available > 0 then
                let assign = min conn_available additional in
                sbind (waking_stream k (stream_assign_capacity assign)) (\<lambda>_.
                  modify_prio (\<lambda>p. p\<lparr>prio_flow := claim_capacity assign (prio_flow p)\<rparr>))
              else sret ()) (\<lambda>_.
           sbind (stream_at k) (\<lambda>s.
           sbind
             (if window_less_size (fc_available (send_flow s)) (requested_send_capacity s)
                 \<and> has_unavailable (send_flow s)
              then push_queue Q_Capacity k else sret ()) (\<lambda>_.
           if buffered_send_data s > 0 \<and> is_send_ready s then push_queue Q_Send k else sret ())))))"

definition link_count :: "prio_queue \<Rightarrow> ('f, 'z) world_scheme \<Rightarrow> nat" where
  "link_count n w = links (queue_next n) (ss_store w) + (if get_queue n (ss_prio w) = None then 0 else 1)"

lemma get_put_queue [simp]: "get_queue n (put_queue n q p) = q"
  by (cases n) simp_all

lemma prio_flow_put_queue [simp]: "prio_flow (put_queue n q p) = prio_flow p"
  by (cases n) simp_all

interpretation queue_next_fields: next_fields "queue_next n" for n
  by unfold_locales (cases n; simp_all add: next_defs)+

lemmas prio_transition_after_links = queue_next_fields.transition_after_links
lemmas prio_transition_links = queue_next_fields.transition_links

lemma pop_queue_links:
  "pop_queue n w = (Ok (Some k), w') \<Longrightarrow> link_count n w' < link_count n w"
  using queue_next_fields.queue_pop_links
  by (fastforce simp: pop_queue_def link_count_def split: result.splits)

lemma pop_queue_flow: "pop_queue n w = (r, w') \<Longrightarrow> conn_available w' = conn_available w"
  by (auto simp: pop_queue_def conn_available_def split: result.splits prod.splits)

text \<open>Assigning capacity takes it out of the connection.\<close>

lemma push_queue_flow: "steps (\<lambda>w w'. conn_available w' = conn_available w) (push_queue n k)"
  by (auto simp: steps_def push_queue_def conn_available_def split: result.splits prod.splits)

lemma claim_capacity_less:
  assumes "0 < window_as_size (fc_available fc)" "0 < n" "n \<le> window_as_size (fc_available fc)"
  shows "window_as_size (fc_available (claim_capacity n fc)) < window_as_size (fc_available fc)"
proof -
  have n: "uint n \<le> max 0 (sint (fc_available fc))" "0 < uint n" "0 < sint (fc_available fc)"
    using assms by (simp_all add: word_le_def word_less_def uint_window_as_size)
  with sint_sub_size [OF n(1)] show ?thesis
    by (simp add: claim_capacity_def word_less_def uint_window_as_size)
qed

lemma try_assign_capacity_progress:
  assumes "conn_available w > 0"
  shows "wp (try_assign_capacity k) (\<lambda>r w'. r = Ok () \<longrightarrow> w' = w \<or> conn_available w' < conn_available w) w"
  using assms claim_capacity_less [of "prio_flow (ss_prio w)"]
  by (simp add: try_assign_capacity_def wp_simps Let_def waking_stream_def conn_available_def [of w] split: option.split prod.split)
    (auto intro!: wp_steps [OF push_queue_flow] simp: wp_simps conn_available_def min_def word_gt_0
      split: result.splits if_splits)

text \<open>One round on a stream out of the queue: either it took capacity, or nothing changed but the bookkeeping.\<close>

lemma assign_round:
  assumes "transition k (try_assign_capacity k) w = (Ok () :: (unit, 'e) result, w')" "conn_available w > 0"
  shows "conn_available w' < conn_available w \<or> conn_available w' = conn_available w \<and> link_count n w' \<le> link_count n w"
proof -
  obtain s where s: "store_get (ss_store w) k = Some s"
    using assms(1) by (cases "store_get (ss_store w) k") (auto simp: transition_def sbind_def stream_at_def store_index_def)
  obtain r1 :: "(unit, 'e) result" and w1 where f: "try_assign_capacity k w = (r1, w1)" by fastforce
  obtain r2 :: "(unit, 'e) result" and w2 where a: "transition_after k (is_pending_reset_expiration s) w1 = (r2, w2)"
    by fastforce
  have "r1 = Ok ()" "w' = w2"
    using assms(1) s f a by (cases r1; cases r2; simp add: transition_def sbind_def stream_at_def store_index_def)+
  with try_assign_capacity_progress [OF assms(2), of k] f have "w1 = w \<or> conn_available w1 < conn_available w"
    by (auto dest!: wpD)
  moreover have "fewer_links (queue_next n) w1 w2" using stepsD [OF prio_transition_after_links a] .
  ultimately show ?thesis using \<open>w' = w2\<close>
    by (auto simp: fewer_links_def conn_available_def link_count_def)
qed

lemma pop_round:
  "pop_queue n w = (Ok (Some k), w') \<Longrightarrow>
     unat (conn_available w') = unat (conn_available w) \<and> link_count n w' < link_count n w"
  by (simp add: pop_queue_links pop_queue_flow)

lemma stream_at_same: "stream_at k w = (r, w') \<Longrightarrow> w' = w"
  by (simp add: stream_at_def)

lemma conn_available_pos: "window_greater_size (fc_available (prio_flow (ss_prio w))) 0 \<longleftrightarrow> conn_available w > 0"
  by (simp add: window_compare conn_available_def word_less_def uint_window_as_size less_max_iff_disj)

lemma pop_assign_round:
  assumes pop: "(Ok (Some k), w1) = pop_queue Q_Capacity w"
    and run: "(Ok () :: (unit, 'e) result, w2) = transition k (try_assign_capacity k) w1" "conn_available w > 0"
  shows "unat (conn_available w2) < unat (conn_available w)
    \<or> unat (conn_available w2) = unat (conn_available w) \<and> link_count Q_Capacity w2 < link_count Q_Capacity w"
  using pop_queue_flow [OF pop [symmetric]] pop_queue_links [OF pop [symmetric]]
    assign_round [OF run(1) [symmetric], of Q_Capacity] run(2)
  by (auto simp: word_less_nat_alt)

text \<open>\<open>while self.flow.available() > 0\<close>, in \<open>assign_connection_capacity\<close>.\<close>

function assign_loop :: "('f, 'z) world_scheme \<Rightarrow> (unit, 'e) result \<times> ('f, 'z) world_scheme" where
  "assign_loop w =
     (if window_greater_size (fc_available (prio_flow (ss_prio w))) 0 then
        (case pop_queue Q_Capacity w of
           (Ok None, w) \<Rightarrow> (Ok (), w)
         | (Ok (Some k), w) \<Rightarrow>
             (case stream_at k w of
                (Ok s, w) \<Rightarrow>
                  (if \<not> (is_send_streaming (st_state s) \<or> buffered_send_data s > 0) then assign_loop w
                   else
                     (case transition k (try_assign_capacity k) w of
                        (Ok _, w) \<Rightarrow> assign_loop w
                      | r \<Rightarrow> r))
              | (Err e, w) \<Rightarrow> (Err e, w)
              | (Panic, w) \<Rightarrow> (Panic, w))
         | (Err e, w) \<Rightarrow> (Err e, w)
         | (Panic, w) \<Rightarrow> (Panic, w))
      else (Ok (), w))"
  by pat_completeness auto

termination
proof (relation "measures [\<lambda>w. unat (conn_available w), link_count Q_Capacity]", goal_cases)
  case 1
  show ?case by simp
next
  case 2
  then show ?case by (auto dest!: pop_round [OF sym] stream_at_same [OF sym])
next
  case 3
  then show ?case
    by (auto simp: conn_available_pos dest!: stream_at_same [OF sym] dest!: pop_assign_round)
qed

declare assign_loop.simps [simp del]

definition assign_connection_capacity :: "u32 \<Rightarrow> (('f, 'z) world_scheme, unit, 'e) op" where
  "assign_connection_capacity inc =
     sbind (modify_prio (\<lambda>p. p\<lparr>prio_flow := flow_assign_capacity inc (prio_flow p)\<rparr>)) (\<lambda>_ w. assign_loop w)"

definition reserve_capacity :: "u32 \<Rightarrow> key \<Rightarrow> (('f, 'z) world_scheme, unit, 'e) op" where
  "reserve_capacity n k =
     sbind (stream_at k) (\<lambda>s.
       let capacity = n + buffered_send_data s in
       if capacity = requested_send_capacity s then sret ()
       else if capacity < requested_send_capacity s then
         sbind (modify_stream k (\<lambda>s. s\<lparr>requested_send_capacity := capacity\<rparr>)) (\<lambda>_.
           let available = window_as_size (fc_available (send_flow s)) in
           if available > capacity then
             sbind (modify_stream k (\<lambda>s. s\<lparr>send_flow := claim_capacity (available - capacity) (send_flow s)\<rparr>)) (\<lambda>_.
               assign_connection_capacity (available - capacity))
           else sret ())
       else if is_send_closed (st_state s) then sret ()
       else
         sbind (modify_stream k (\<lambda>s. s\<lparr>requested_send_capacity := capacity\<rparr>)) (\<lambda>_. try_assign_capacity k))"

definition prio_send_data :: "bytes data_frame \<Rightarrow> key \<Rightarrow> (('m, 'z) sending, unit, user_error) op" where
  "prio_send_data frame k =
     (let sz = length (data_data frame) in
      if sz > unat MAX_WINDOW_SIZE then sfail PayloadTooBig
      else
        sbind (stream_at k) (\<lambda>s.
          if \<not> is_send_streaming (st_state s) then
            (if state_is_closed (st_state s) then sfail InactiveStreamId else sfail UnexpectedFrameType)
          else
            sbind (modify_stream k (\<lambda>s. s\<lparr>buffered_send_data := buffered_send_data s + word_of_nat sz\<rparr>)) (\<lambda>_.
            sbind (stream_at k) (\<lambda>s.
            sbind
              (if requested_send_capacity s < buffered_send_data s then
                 sbind (modify_stream k (\<lambda>s. s\<lparr>requested_send_capacity := buffered_send_data s\<rparr>)) (\<lambda>_.
                   try_assign_capacity k)
               else sret ()) (\<lambda>_.
            sbind
              (if data_is_end_stream frame then
                 sbind (try_stream k (\<lambda>s. map_ok (\<lambda>st. s\<lparr>st_state := st\<rparr>) (state_send_close (st_state s)))) (\<lambda>_.
                   reserve_capacity 0 k)
               else sret ()) (\<lambda>_.
            sbind (stream_at k) (\<lambda>s.
              if window_greater_size (fc_available (send_flow s)) 0 \<or> buffered_send_data s = 0 then
                queue_frame (FData frame) k
              else pending_push_back k (FData frame)))))))) "

definition prio_recv_stream_window_update :: "u32 \<Rightarrow> key \<Rightarrow> (('f, 'z) world_scheme, unit, reason) op" where
  "prio_recv_stream_window_update inc k =
     sbind (stream_at k) (\<lambda>s.
       if is_send_closed (st_state s) \<and> buffered_send_data s = 0 then sret ()
       else
         sbind (try_stream k (\<lambda>s. map_ok (\<lambda>fl. s\<lparr>send_flow := fl\<rparr>) (inc_window inc (send_flow s)))) (\<lambda>_.
           try_assign_capacity k))"

definition prio_recv_connection_window_update :: "u32 \<Rightarrow> (('f, 'z) world_scheme, unit, reason) op" where
  "prio_recv_connection_window_update inc =
     sbind world_prio (\<lambda>p.
     sbind (slift (inc_window inc (prio_flow p))) (\<lambda>fl.
     sbind (modify_prio (\<lambda>p. p\<lparr>prio_flow := fl\<rparr>)) (\<lambda>_.
       assign_connection_capacity inc)))"

definition reclaim_all_capacity :: "key \<Rightarrow> (('f, 'z) world_scheme, unit, 'e) op" where
  "reclaim_all_capacity k =
     sbind (stream_at k) (\<lambda>s.
       let available = window_as_size (fc_available (send_flow s)) in
       sbind (modify_stream k (\<lambda>s. s\<lparr>send_flow := claim_capacity available (send_flow s)\<rparr>)) (\<lambda>_.
         assign_connection_capacity available))"

definition reclaim_reserved_capacity :: "key \<Rightarrow> (('f, 'z) world_scheme, unit, 'e) op" where
  "reclaim_reserved_capacity k =
     sbind (stream_at k) (\<lambda>s.
       if requested_send_capacity s > buffered_send_data s then
         (let reserved = requested_send_capacity s - buffered_send_data s in
          sbind (modify_stream k (\<lambda>s. s\<lparr>send_flow := claim_capacity reserved (send_flow s)\<rparr>)) (\<lambda>_.
            assign_connection_capacity reserved))
       else sret ())"

section \<open>Taking frames out\<close>

text \<open>The part of \<open>pop_frame\<close> that splits the next DATA frame of the stream.\<close>

definition pop_data ::
  "nat \<Rightarrow> key \<Rightarrow> bytes data_frame \<Rightarrow> (('m, 'z) sending, (prioritized, 'm) payload_frame, 'e) op" where
  "pop_data max_len k frame =
     sbind (stream_at k) (\<lambda>s.
       let sz = length (data_data frame);
           n = min (min sz max_len) (unat (window_as_size (fc_available (send_flow s))))
       in
       sbind (try_stream k (\<lambda>s. map_ok (\<lambda>fl. s\<lparr>send_flow := fl\<rparr>) (flow_send_data (word_of_nat n) (send_flow s)))) (\<lambda>_.
       sbind (modify_stream k (\<lambda>s. s\<lparr>buffered_send_data := buffered_send_data s - word_of_nat n,
           requested_send_capacity := requested_send_capacity s - word_of_nat n\<rparr>)) (\<lambda>_.
       sbind (modify_prio (\<lambda>p. p\<lparr>prio_flow := flow_assign_capacity (word_of_nat n) (prio_flow p)\<rparr>)) (\<lambda>_.
       sbind world_prio (\<lambda>p.
       sbind (slift (flow_send_data (word_of_nat n) (prio_flow p))) (\<lambda>fl.
       sbind (modify_prio (\<lambda>p. p\<lparr>prio_flow := fl\<rparr>)) (\<lambda>_.
       let eos = data_is_end_stream frame;
           frame = (if sz > n then data_set_end_stream False frame else frame)
       in sret (FData (data_map (\<lambda>buf. \<lparr>pr_inner = buf, pr_limit = n, pr_end_of_stream = eos, pr_stream = k\<rparr>)
            frame)))))))))"

definition pop_push_promise :: "stream_id \<Rightarrow> (('f, 'z) world_scheme, unit, 'e) op" where
  "pop_push_promise promised_id w =
     (case store_find promised_id (ss_store w) of
        None \<Rightarrow> (Panic, w)
      | Some promised \<Rightarrow>
          sbind (modify_stream promised (\<lambda>s. s\<lparr>is_pending_push := False\<rparr>)) (\<lambda>_.
          sbind (stream_at promised) (\<lambda>s.
            if \<not> deque_is_empty (pending_send s) then
              sbind world_counts (\<lambda>c.
                if can_inc_num_send_streams c then
                  sbind (inc_num_send_streams promised) (\<lambda>_. push_queue Q_Send promised)
                else queue_open promised)
            else sret ())) w)"

text \<open>
  The last part of \<open>pop_frame\<close>: a stream with more to send goes back to the queue. (The bookkeeping
  of \<open>last_opened_id\<close> is in debug builds only.)
\<close>

definition pop_finish :: "key \<Rightarrow> bool \<Rightarrow> 'b \<Rightarrow> (('f, 'z) world_scheme, 'b option, 'e) op" where
  "pop_finish k is_pending_reset frame =
     sbind (stream_at k) (\<lambda>s.
     sbind
       (if \<not> deque_is_empty (pending_send s) \<or> is_scheduled_reset (st_state s) then push_queue Q_Send k
        else sret ()) (\<lambda>_.
     sbind (transition_after k is_pending_reset) (\<lambda>_. sret (Some frame))))"

text \<open>A stream whose frames are all sent: its scheduled reset, or nothing (\<open>None\<close>).\<close>

definition pop_scheduled_reset :: "key \<Rightarrow> (('f, 'z) world_scheme, ('b, 'm) payload_frame option, 'e) op" where
  "pop_scheduled_reset k =
     sbind (stream_at k) (\<lambda>s.
       case get_scheduled_reset (st_state s) of
         Some reason \<Rightarrow>
           sbind (modify_stream k (\<lambda>s. s\<lparr>st_state := state_set_reset reason (st_state s)\<rparr>)) (\<lambda>_.
             sret (Some (FReset (reset_new (st_id s) reason))))
       | None \<Rightarrow> sret None)"

text \<open>
  What \<open>pop_frame\<close> does with a stream of the queue: \<open>None\<close> is \<open>continue\<close>. A DATA frame that the
  window does not allow goes back to the front; the stream comes back to the queue with its capacity.
\<close>

definition pop_stream ::
  "nat \<Rightarrow> key \<Rightarrow> (('m, 'z) sending, (prioritized, 'm) payload_frame option, 'e) op" where
  "pop_stream max_len k =
     sbind (stream_at k) (\<lambda>s.
       let is_pending_reset = is_pending_reset_expiration s in
       sbind (pending_pop_front k) (\<lambda>f.
         case f of
           Some (FData frame) \<Rightarrow>
             if length (data_data frame) > 0 \<and> fc_available (send_flow s) = 0 then
               sbind (pending_push_front k (FData frame)) (\<lambda>_. sret None)
             else sbind (pop_data max_len k frame) (pop_finish k is_pending_reset)
         | Some (FPushPromise pp) \<Rightarrow>
             sbind (pop_push_promise (pp_promised_id pp)) (\<lambda>_.
               pop_finish k is_pending_reset (FPushPromise pp))
         | Some frame \<Rightarrow> sbind (slift (frame_map (\<lambda>_. Panic) frame)) (pop_finish k is_pending_reset)
         | None \<Rightarrow>
             sbind (pop_scheduled_reset k) (\<lambda>f.
               case f of
                 Some frame \<Rightarrow> pop_finish k is_pending_reset frame
               | None \<Rightarrow> sbind (transition_after k is_pending_reset) (\<lambda>_. sret None))))"

text \<open>A stream without a frame to send leaves the queue for good.\<close>

lemma modify_stream_links:
  assumes "\<And>s. nx_next (queue_next n) (f s) = nx_next (queue_next n) s"
  shows "steps (fewer_links (queue_next n)) (modify_stream k f)"
  using assms by (auto simp: steps_wp wp_simps fewer_links_def links_put split: option.splits)

lemma steps_buffer:
  fixes R :: "('f, 'z) world_scheme \<Rightarrow> ('f, 'z) world_scheme \<Rightarrow> bool"
  assumes "transp R" "reflp R" "\<And>w b. R w (w\<lparr>ss_buffer := b\<rparr>)" "\<And>d. steps R (modify_stream k (\<lambda>s. s\<lparr>pending_send := d\<rparr>) :: (('f, 'z) world_scheme, unit, 'e) op)"
  shows "steps R (on_pending_send k f :: (('f, 'z) world_scheme, 'a, 'e) op)"
proof (rule stepsI)
  fix w w' :: "('f, 'z) world_scheme" and r :: "('a, 'e) result"
  assume run: "on_pending_send k f w = (r, w')"
  show "R w w'"
  proof (cases "store_get (ss_store w) k")
    case None
    with run show ?thesis using assms(2) by (simp add: on_pending_send_def sbind_def stream_at_def store_index_def reflpD)
  next
    case (Some s)
    show ?thesis
    proof (cases "f (pending_send s, ss_buffer w)")
      case (Ok x)
      obtain y d b where x: "x = (y, d, b)" by (cases x)
      have "steps R (sbind (modify_stream k (\<lambda>s. s\<lparr>pending_send := d\<rparr>)) (\<lambda>_. sret y)
          :: (('f, 'z) world_scheme, 'a, 'e) op)"
        by (intro steps_rules assms)
      moreover have "sbind (modify_stream k (\<lambda>s. s\<lparr>pending_send := d\<rparr>)) (\<lambda>_. sret y) (w\<lparr>ss_buffer := b\<rparr>) = (r, w')"
        using run Some Ok x by (simp add: on_pending_send_def sbind_def [of "stream_at k"] stream_at_def store_index_def)
      ultimately have "R (w\<lparr>ss_buffer := b\<rparr>) w'" by (rule stepsD)
      then show ?thesis by (rule transpD [OF assms(1) assms(3)])
    qed (use run Some assms(2) in \<open>simp_all add: on_pending_send_def sbind_def [of "stream_at k"] stream_at_def store_index_def reflpD\<close>)
  qed
qed

lemma pending_links: "steps (fewer_links (queue_next n)) (on_pending_send k f)"
proof (rule steps_buffer)
  show "steps (fewer_links (queue_next n)) (modify_stream k (\<lambda>s. s\<lparr>pending_send := d\<rparr>))" for d
    by (rule modify_stream_links) (cases n; simp add: next_defs)
qed (simp_all add: fewer_links_def)

lemma pop_finish_Some: "pop_finish k b f w = (Ok None, w') \<Longrightarrow> False"
  by (auto simp: pop_finish_def sbind_eq_Ok)

lemma pop_stream_None:
  assumes "pop_stream max_len k w = (Ok None :: (_, 'e) result, w')"
  shows "fewer_links (queue_next n) w w'"
proof -
  obtain s f w1 where s: "store_get (ss_store w) k = Some s" and f: "pending_pop_front k w = (Ok f :: (_, 'e) result, w1)"
    using assms by (auto simp: pop_stream_def sbind_eq_Ok stream_at_def store_index_def Let_def split: option.splits)
  then have w1: "fewer_links (queue_next n) w w1" by (auto simp: pending_pop_front_def dest: stepsD [OF pending_links])
  have "fewer_links (queue_next n) w1 w'"
  proof (cases f)
    case None
    then have "w' = w1 \<or> transition_after k (is_pending_reset_expiration s) w1 = (Ok () :: (_, 'e) result, w')"
      using assms s f
      by (auto simp: pop_stream_def pop_scheduled_reset_def sbind_eq_Ok stream_at_def store_index_def Let_def
          split: option.splits dest: pop_finish_Some)
    then show ?thesis by (auto dest: stepsD [OF prio_transition_after_links] simp: fewer_links_def [of "queue_next n" w1 w1])
  next
    case (Some g)
    then obtain frame where "pending_push_front k frame w1 = (Ok () :: (_, 'e) result, w')"
      using assms s f
      by (cases g) (auto simp: pop_stream_def sbind_eq_Ok stream_at_def store_index_def Let_def
          split: option.splits if_splits dest: pop_finish_Some)
    then show ?thesis by (auto simp: pending_push_front_def dest: stepsD [OF pending_links])
  qed
  then show ?thesis using transpD [OF fewer_links_order(2) w1] by blast
qed

lemma pop_frame_round:
  assumes "(Ok (Some k), w1) = pop_queue Q_Send w"
    "(Ok None :: (_, 'e) result, w2) = pop_stream max_len k w1"
  shows "link_count Q_Send w2 < link_count Q_Send w"
  using pop_queue_links [OF assms(1) [symmetric]] pop_stream_None [OF assms(2) [symmetric], of Q_Send]
  by (simp add: fewer_links_def link_count_def)

function pop_frame ::
  "nat \<Rightarrow> ('m, 'z) sending \<Rightarrow> ((prioritized, 'm) payload_frame option, 'e) result \<times> ('m, 'z) sending" where
  "pop_frame max_len w =
     (case pop_queue Q_Send w of
        (Ok None, w) \<Rightarrow> (Ok None, w)
      | (Ok (Some k), w) \<Rightarrow>
          (case pop_stream max_len k w of
             (Ok None, w) \<Rightarrow> pop_frame max_len w
           | r \<Rightarrow> r)
      | (Err e, w) \<Rightarrow> (Err e, w)
      | (Panic, w) \<Rightarrow> (Panic, w))"
  by pat_completeness auto

termination
proof (relation "measure (\<lambda>(max_len, w). link_count Q_Send w)", goal_cases)
  case 1
  show ?case by simp
next
  case 2
  then show ?case by (auto dest!: pop_frame_round)
qed

declare pop_frame.simps [simp del]

section \<open>Giving frames back, clearing queues\<close>

definition push_back_frame :: "'f \<Rightarrow> key \<Rightarrow> (('f, 'z) world_scheme, unit, 'e) op" where
  "push_back_frame f k =
     sbind (pending_push_front k f) (\<lambda>_.
     sbind (stream_at k) (\<lambda>s.
       if window_greater_size (fc_available (send_flow s)) 0 then push_queue Q_Send k else sret ()))"

text \<open>The argument is what \<open>dst.take_last_data_frame()\<close> returned.\<close>

definition reclaim_frame :: "prioritized data_frame option \<Rightarrow> (('m, 'z) sending, bool, 'e) op" where
  "reclaim_frame taken =
     (case taken of
        None \<Rightarrow> sret False
      | Some frame \<Rightarrow>
          sbind world_prio (\<lambda>p.
          sbind (modify_prio (\<lambda>p. p\<lparr>in_flight_data_frame := Nothing_In_Flight\<rparr>)) (\<lambda>_.
            case in_flight_data_frame p of
              Nothing_In_Flight \<Rightarrow> spanic
            | Drop_In_Flight \<Rightarrow> sret False
            | In_Flight _ \<Rightarrow>
                let k = pr_stream (data_data frame);
                    eos = pr_end_of_stream (data_data frame);
                    frame = data_map pr_inner frame
                in if data_data frame \<noteq> [] then
                     sbind (push_back_frame
                         (FData (if eos then data_set_end_stream True frame else frame)) k) (\<lambda>_. sret True)
                   else sret False)))"

text \<open>\<open>while let Some(frame) = stream.pending_send.pop_front(buffer)\<close>\<close>

lemma pending_pop_front_less:
  assumes "pending_pop_front k w = (Ok (Some f), w')"
  shows "slab_sum (\<lambda>_. 1 :: nat) (ss_buffer w') < slab_sum (\<lambda>_. 1) (ss_buffer w)"
proof -
  obtain s d b where s: "store_get (ss_store w) k = Some s"
    and pop: "deque_pop_front (pending_send s, ss_buffer w) = (Ok (Some f, d, b) :: (_, 'b) result)" and b: "ss_buffer w' = b"
    using assms by (auto simp: pending_pop_front_def on_pending_send_def sbind_eq_Ok stream_at_def store_index_def
        modify_stream_def store_modify_def sbind_def split: option.splits result.splits prod.splits)
  then obtain i v where "slab_get (ss_buffer w) i = Some v" "b = slab_set i None (ss_buffer w)"
    by (auto simp: deque_pop_front_def slab_remove_def rbind_eq_Ok
        split: option.splits indices.splits if_splits)
  with b show ?thesis using slab_sum_delete [of "ss_buffer w" i v "\<lambda>_. 1 :: nat"] by simp
qed

function clear_frames :: "key \<Rightarrow> ('f, 'z) world_scheme \<Rightarrow> (unit, 'e) result \<times> ('f, 'z) world_scheme" where
  "clear_frames k w =
     (case pending_pop_front k w of
        (Ok (Some _), w) \<Rightarrow> clear_frames k w
      | (Ok None, w) \<Rightarrow> (Ok (), w)
      | (Err e, w) \<Rightarrow> (Err e, w)
      | (Panic, w) \<Rightarrow> (Panic, w))"
  by pat_completeness auto

termination
  by (relation "measure (\<lambda>(k, w). slab_sum (\<lambda>_. 1) (ss_buffer w))") (auto dest: pending_pop_front_less [OF sym])

declare clear_frames.simps [simp del]

definition clear_queue :: "key \<Rightarrow> (('f, 'z) world_scheme, unit, 'e) op" where
  "clear_queue k =
     sbind (clear_frames k) (\<lambda>_.
     sbind (modify_stream k (\<lambda>s. s\<lparr>buffered_send_data := 0, requested_send_capacity := 0\<rparr>)) (\<lambda>_.
       modify_prio (\<lambda>p.
         if in_flight_data_frame p = In_Flight k then p\<lparr>in_flight_data_frame := Drop_In_Flight\<rparr> else p)))"

text \<open>
  \<open>clear_pending_capacity\<close>, \<open>clear_pending_send\<close> and \<open>clear_pending_open\<close>: the three loops are the same,
  since a transition with an empty closure is the bookkeeping alone.
\<close>

lemma drain_round:
  assumes "(Ok (Some k), w1) = pop_queue n w" "(Ok s, w2) = stream_at k w1"
    "(Ok () :: (_, 'e) result, w3) = transition_after k b w2"
  shows "link_count n w3 < link_count n w"
  using pop_queue_links [OF assms(1) [symmetric]] stream_at_same [OF assms(2) [symmetric]]
    stepsD [OF prio_transition_after_links assms(3) [symmetric], of n]
  by (simp add: fewer_links_def link_count_def)

function clear_prio_queue :: "prio_queue \<Rightarrow> ('f, 'z) world_scheme \<Rightarrow> (unit, 'e) result \<times> ('f, 'z) world_scheme" where
  "clear_prio_queue n w =
     (case pop_queue n w of
        (Ok (Some k), w) \<Rightarrow>
          (case stream_at k w of
             (Ok s, w) \<Rightarrow>
               (case transition_after k (is_pending_reset_expiration s) w of
                  (Ok _, w) \<Rightarrow> clear_prio_queue n w
                | r \<Rightarrow> r)
           | (Err e, w) \<Rightarrow> (Err e, w)
           | (Panic, w) \<Rightarrow> (Panic, w))
      | (Ok None, w) \<Rightarrow> (Ok (), w)
      | (Err e, w) \<Rightarrow> (Err e, w)
      | (Panic, w) \<Rightarrow> (Panic, w))"
  by pat_completeness auto

termination
  by (relation "measure (\<lambda>(n, w). link_count n w)") (auto dest!: drain_round)

declare clear_prio_queue.simps [simp del]

definition clear_pending_capacity :: "(('f, 'z) world_scheme, unit, 'e) op" where
  "clear_pending_capacity w = clear_prio_queue Q_Capacity w"

definition clear_pending_send :: "(('f, 'z) world_scheme, unit, 'e) op" where
  "clear_pending_send w = clear_prio_queue Q_Send w"

definition clear_pending_open :: "(('f, 'z) world_scheme, unit, 'e) op" where
  "clear_pending_open w = clear_prio_queue Q_Open w"

text \<open>\<open>schedule_pending_open\<close>: streams are opened while the peer allows more of them.\<close>

definition open_stream :: "key \<Rightarrow> (('f, 'z) world_scheme, unit, 'e) op" where
  "open_stream k =
     sbind (inc_num_send_streams k) (\<lambda>_. sbind (push_queue Q_Send k) (\<lambda>_. waking_stream k notify_send))"

lemma queue_next_other:
  "m \<noteq> n \<Longrightarrow> nx_next (queue_next m) (nx_set_next (queue_next n) k s) = nx_next (queue_next m) s"
  "nx_next (queue_next m) (nx_set_queued (queue_next n) b s) = nx_next (queue_next m) s"
  by (cases m; cases n; simp add: next_defs)+

lemma push_queue_links:
  assumes "m \<noteq> n"
  shows "steps (\<lambda>w w'. link_count m w' = link_count m w) (push_queue n k)"
proof (rule stepsI)
  fix w w' :: "('f, 'z) world_scheme" and r :: "(unit, 'e) result"
  assume run: "push_queue n k w = (r, w')"
  have other: "get_queue m (put_queue n q p) = get_queue m p" for q p
    using assms by (cases m; cases n) simp_all
  show "link_count m w' = link_count m w"
  proof (cases "queue_push (queue_next n) k (get_queue n (ss_prio w), ss_store w) :: (bool \<times> queue \<times> store, 'e) result")
    case (Ok x)
    obtain b q st where x: "x = (b, q, st)" by (cases x)
    have "store_view (nx_next (queue_next m)) st = store_view (nx_next (queue_next m)) (ss_store w)"
      using queue_push_view [OF Ok [unfolded x], of "nx_next (queue_next m)"] queue_next_other assms by simp
    with run Ok x show ?thesis by (auto simp: push_queue_def link_count_def links_view other)
  qed (use run in \<open>auto simp: push_queue_def\<close>)
qed

lemma open_stream_links: "steps (\<lambda>w w'. link_count Q_Open w' = link_count Q_Open w) (open_stream k)"
proof -
  let ?R = "\<lambda>w w'. link_count Q_Open w' = link_count Q_Open w"
  have R: "reflp ?R" "transp ?R" by (auto intro: reflpI transpI)
  have "steps ?R (inc_num_send_streams k)"
    by (auto simp: steps_wp inc_num_send_streams_def wp_simps link_count_def links_put next_defs split: option.splits)
  moreover have "steps ?R (waking_stream k notify_send)"
    by (auto simp: steps_wp waking_stream_def notify_send_def wp_simps link_count_def links_put next_defs split: option.splits)
  ultimately show ?thesis unfolding open_stream_def by (intro steps_rules R push_queue_links) simp_all
qed

function schedule_pending_open :: "('f, 'z) world_scheme \<Rightarrow> (unit, 'e) result \<times> ('f, 'z) world_scheme" where
  "schedule_pending_open w =
     (if can_inc_num_send_streams (ss_counts w) then
        (case pop_queue Q_Open w of
           (Ok (Some k), w) \<Rightarrow>
             (case open_stream k w of
                (Ok _, w) \<Rightarrow> schedule_pending_open w
              | r \<Rightarrow> r)
         | (Ok None, w) \<Rightarrow> (Ok (), w)
         | (Err e, w) \<Rightarrow> (Err e, w)
         | (Panic, w) \<Rightarrow> (Panic, w))
      else (Ok (), w))"
  by pat_completeness auto

termination
  by (relation "measure (link_count Q_Open)")
    (auto dest!: pop_queue_links [OF sym] stepsD [OF open_stream_links, OF sym])

declare schedule_pending_open.simps [simp del]

section \<open>What a stream gets\<close>

lemma sint_of_int_i32: "- (2 ^ 31) \<le> z \<Longrightarrow> z \<le> MAX_WINDOW \<Longrightarrow> sint (word_of_int z :: i32) = z"
  by (simp add: sint_sbintrunc' signed_take_bit_int_eq_self)

lemma queue_push_get:
  assumes "queue_push (queue_next n) k (q, st) = Ok (b, q', st')"
    "\<And>k s. g (nx_set_next (queue_next n) k s) = g s" "\<And>b s. g (nx_set_queued (queue_next n) b s) = g s"
  shows "map_option g (store_get st' j) = map_option g (store_get st j)"
proof -
  have "store_view (\<lambda>s. (st_id s, g s)) st' = store_view (\<lambda>s. (st_id s, g s)) st"
    using queue_push_view [OF assms(1), of "\<lambda>s. (st_id s, g s)"] assms(2,3) by simp
  from store_view_get [OF this, of "key_index j"] show ?thesis
    by (cases "slab_get (store_slab st') (key_index j)"; cases "slab_get (store_slab st) (key_index j)") (auto simp: store_get_def)
qed

lemma queue_push_queued:
  assumes "queue_push (queue_next n) k (q, st) = Ok (b, q', st')"
  shows "\<exists>s. store_get st' k = Some s \<and> nx_is_queued (queue_next n) s"
proof -
  obtain s where s: "store_get st k = Some s"
    using assms by (auto simp: queue_push_def rbind_eq_Ok store_index_Ok)
  show ?thesis
  proof (cases "nx_is_queued (queue_next n) s")
    case True
    with assms s show ?thesis by (simp add: queue_push_def store_index_def)
  next
    case False
    let ?st = "store_put k (nx_set_queued (queue_next n) True s) st"
    have put: "store_get ?st = (store_get st)(k \<mapsto> nx_set_queued (queue_next n) True s)"
      by (rule store_get_put [OF s]) simp
    show ?thesis
    proof (cases q)
      case None
      with assms s False put show ?thesis by (auto simp: queue_push_def store_index_def store_modify_def)
    next
      case (Some i)
      obtain head tail where i: "i = Indices head tail" by (cases i)
      with assms s False Some obtain t where t: "store_get ?st tail = Some t"
        "st' = store_put tail (nx_set_next (queue_next n) (Some k) t) ?st"
        by (auto simp: queue_push_def rbind_eq_Ok store_modify_eq_Ok store_index_def)
      have "store_get st' = (store_get ?st)(tail \<mapsto> nx_set_next (queue_next n) (Some k) t)"
        unfolding t(2) by (rule store_get_put [OF t(1)]) simp
      with put t(1) show ?thesis by (auto split: if_splits)
    qed
  qed
qed

text \<open>What the capacity of a stream depends on, and what matters to the other streams.\<close>

definition capacity_view :: "stream \<Rightarrow> flow_control \<times> u32 \<times> u32 \<times> stream_state \<times> bool" where
  "capacity_view s = (send_flow s, requested_send_capacity s, buffered_send_data s, st_state s, is_send_ready s)"

lemma capacity_view_links:
  "capacity_view (nx_set_next (queue_next n) k s) = capacity_view s"
  "n \<noteq> Q_Open \<Longrightarrow> capacity_view (nx_set_queued (queue_next n) b s) = capacity_view s"
  by (cases n; simp add: capacity_view_def next_defs is_send_ready_def)+

lemma push_queue_view:
  assumes "push_queue n k w = (Ok () :: (_, 'e) result, w')" "n \<noteq> Q_Open"
  shows "map_option capacity_view (store_get (ss_store w') j) = map_option capacity_view (store_get (ss_store w) j)"
    "prio_flow (ss_prio w') = prio_flow (ss_prio w)"
    "\<exists>s. store_get (ss_store w') k = Some s \<and> nx_is_queued (queue_next n) s"
    "m \<noteq> n \<Longrightarrow> map_option (nx_is_queued (queue_next m)) (store_get (ss_store w') j)
      = map_option (nx_is_queued (queue_next m)) (store_get (ss_store w) j)"
proof -
  obtain b q st where p: "queue_push (queue_next n) k (get_queue n (ss_prio w), ss_store w) = (Ok (b, q, st) :: (_, 'e) result)"
    "w' = w\<lparr>ss_prio := put_queue n q (ss_prio w), ss_store := st\<rparr>"
    using assms(1) by (auto simp: push_queue_def split: result.splits)
  show "map_option capacity_view (store_get (ss_store w') j) = map_option capacity_view (store_get (ss_store w) j)"
    using queue_push_get [OF p(1), of capacity_view j] capacity_view_links assms(2) p(2) by simp
  show "prio_flow (ss_prio w') = prio_flow (ss_prio w)" by (simp add: p(2))
  show "\<exists>s. store_get (ss_store w') k = Some s \<and> nx_is_queued (queue_next n) s"
    using queue_push_queued [OF p(1)] p(2) by simp
  assume "m \<noteq> n"
  then have "nx_is_queued (queue_next m) (nx_set_next (queue_next n) k s) = nx_is_queued (queue_next m) s"
    "nx_is_queued (queue_next m) (nx_set_queued (queue_next n) b s) = nx_is_queued (queue_next m) s" for k b s
    by (cases m; cases n; simp add: next_defs)+
  with queue_push_get [OF p(1), of "nx_is_queued (queue_next m)" j] p(2)
  show "map_option (nx_is_queued (queue_next m)) (store_get (ss_store w') j)
      = map_option (nx_is_queued (queue_next m)) (store_get (ss_store w) j)" by simp
qed

text \<open>The last part of \<open>try_assign_capacity\<close>: the queues.\<close>

definition requeue :: "key \<Rightarrow> (('f, 'z) world_scheme, unit, 'e) op" where
  "requeue k =
     sbind (stream_at k) (\<lambda>s.
     sbind
       (if window_less_size (fc_available (send_flow s)) (requested_send_capacity s) \<and> has_unavailable (send_flow s)
        then push_queue Q_Capacity k else sret ()) (\<lambda>_.
       if buffered_send_data s > 0 \<and> is_send_ready s then push_queue Q_Send k else sret ()))"

lemma requeue_view:
  assumes "requeue k w = (Ok () :: (_, 'e) result, w')" "store_get (ss_store w) k = Some s"
  shows "map_option capacity_view (store_get (ss_store w') j) = map_option capacity_view (store_get (ss_store w) j)"
    "prio_flow (ss_prio w') = prio_flow (ss_prio w)"
    "\<exists>s'. store_get (ss_store w') k = Some s'
       \<and> (window_less_size (fc_available (send_flow s)) (requested_send_capacity s) \<and> has_unavailable (send_flow s)
           \<longrightarrow> is_pending_send_capacity s')
       \<and> (buffered_send_data s > 0 \<and> is_send_ready s \<longrightarrow> is_pending_send s')"
proof -
  let ?wait = "window_less_size (fc_available (send_flow s)) (requested_send_capacity s) \<and> has_unavailable (send_flow s)"
  let ?ready = "buffered_send_data s > 0 \<and> is_send_ready s"
  obtain w1 where w1: "(if ?wait then push_queue Q_Capacity k else sret ()) w = (Ok () :: (_, 'e) result, w1)"
    "(if ?ready then push_queue Q_Send k else sret ()) w1 = (Ok () :: (_, 'e) result, w')"
    using assms by (auto simp: requeue_def sbind_eq_Ok stream_at_def store_index_def)
  have first: "map_option capacity_view (store_get (ss_store w1) j) = map_option capacity_view (store_get (ss_store w) j)
    \<and> prio_flow (ss_prio w1) = prio_flow (ss_prio w)
    \<and> (\<exists>s1. store_get (ss_store w1) k = Some s1 \<and> (?wait \<longrightarrow> is_pending_send_capacity s1))" for j
  proof (cases ?wait)
    case True
    with w1(1) have "push_queue Q_Capacity k w = (Ok () :: (_, 'e) result, w1)" by simp
    from push_queue_view(1-3) [OF this prio_queue.distinct(5)] show ?thesis by (auto simp: next_defs)
  next
    case False
    with w1(1) have "w1 = w" by (simp only: if_False sret_def prod.inject)
    with False assms(2) show ?thesis by blast
  qed
  have second: "map_option capacity_view (store_get (ss_store w') j) = map_option capacity_view (store_get (ss_store w1) j)
    \<and> prio_flow (ss_prio w') = prio_flow (ss_prio w1)
    \<and> map_option is_pending_send_capacity (store_get (ss_store w') j) = map_option is_pending_send_capacity (store_get (ss_store w1) j)
    \<and> (\<exists>s'. store_get (ss_store w') k = Some s' \<and> (?ready \<longrightarrow> is_pending_send s'))" for j
  proof (cases ?ready)
    case True
    with w1(2) have p: "push_queue Q_Send k w1 = (Ok () :: (_, 'e) result, w')" by simp
    show ?thesis
      using push_queue_view(1-3) [OF p prio_queue.distinct(3)] push_queue_view(4) [OF p, of Q_Capacity j]
      by (auto simp: next_defs)
  next
    case False
    with w1(2) have "w' = w1" by (simp only: if_False sret_def prod.inject)
    with False first show ?thesis by blast
  qed
  show "map_option capacity_view (store_get (ss_store w') j) = map_option capacity_view (store_get (ss_store w) j)"
    "prio_flow (ss_prio w') = prio_flow (ss_prio w)"
    using first second by simp_all
  show "\<exists>s'. store_get (ss_store w') k = Some s' \<and> (?wait \<longrightarrow> is_pending_send_capacity s') \<and> (?ready \<longrightarrow> is_pending_send s')"
  proof -
    obtain s1 s' where "store_get (ss_store w1) k = Some s1" "?wait \<longrightarrow> is_pending_send_capacity s1"
      "store_get (ss_store w') k = Some s'" "?ready \<longrightarrow> is_pending_send s'"
      using first second by blast
    moreover from this have "is_pending_send_capacity s' = is_pending_send_capacity s1" using second [of k] by simp
    ultimately show ?thesis by blast
  qed
qed

text \<open>The first part: bytes move from the connection to the stream.\<close>

definition assigned :: "key \<Rightarrow> stream \<Rightarrow> int \<Rightarrow> ('f, 'z) world_scheme \<Rightarrow> ('f, 'z) world_scheme \<Rightarrow> bool" where
  "assigned k s g w w' \<longleftrightarrow>
     (\<exists>s'. store_get (ss_store w') = (store_get (ss_store w))(k \<mapsto> s')
        \<and> capacity_view s' = capacity_view (s\<lparr>send_flow := (send_flow s)\<lparr>fc_available := fc_available (send_flow s) + word_of_int g\<rparr>\<rparr>))
     \<and> prio_flow (ss_prio w') = (prio_flow (ss_prio w))\<lparr>fc_available := fc_available (prio_flow (ss_prio w)) - word_of_int g\<rparr>"

lemma assign_step:
  assumes "store_get (ss_store w) k = Some s"
  shows "\<exists>w'. sbind (waking_stream k (stream_assign_capacity n)) (\<lambda>_. modify_prio (\<lambda>p. p\<lparr>prio_flow := claim_capacity n (prio_flow p)\<rparr>)) w
      = (Ok () :: (_, 'e) result, w') \<and> assigned k s (uint n) w w'"
proof -
  let ?s = "fst (stream_assign_capacity n s)"
  have view: "capacity_view ?s = capacity_view (s\<lparr>send_flow := (send_flow s)\<lparr>fc_available := fc_available (send_flow s) + n\<rparr>\<rparr>)"
    "st_id ?s = st_id s"
    by (simp_all add: stream_assign_capacity_def capacity_view_def flow_assign_capacity_def notify_send_def is_send_ready_def Let_def
        split: option.split)
  have "store_get (store_put k ?s (ss_store w)) = (store_get (ss_store w))(k \<mapsto> ?s)"
    by (rule store_get_put [OF assms]) (rule view(2))
  with assms view(1) show ?thesis
    by (cases "stream_assign_capacity n s", simp add: waking_stream_def sbind_def stream_at_def store_index_def modify_stream_def
        store_modify_def wake_def modify_prio_def assigned_def claim_capacity_def, blast)
qed

text \<open>How much it is, as numbers.\<close>

definition send_want :: "stream \<Rightarrow> int" where
  "send_want s = min (uint (requested_send_capacity s)) (sint (fc_window_size (send_flow s)))"

definition capacity_ok :: "stream \<Rightarrow> bool" where
  "capacity_ok s \<longleftrightarrow> 0 \<le> sint (fc_available (send_flow s)) \<and> sint (fc_available (send_flow s)) \<le> send_want s"

lemma uint_additional:
  assumes "capacity_ok s"
  shows "uint (additional_capacity s) = send_want s - sint (fc_available (send_flow s))"
proof -
  have "uint (window_as_size (fc_available (send_flow s))) = sint (fc_available (send_flow s))"
    "uint (flow_window_size (send_flow s)) = sint (fc_window_size (send_flow s))"
    using assms by (simp_all add: capacity_ok_def send_want_def flow_window_size_def uint_window_as_size)
  then have "uint (requested_send_capacity s - window_as_size (fc_available (send_flow s))) =
      uint (requested_send_capacity s) - sint (fc_available (send_flow s))"
    "uint (flow_window_size (send_flow s) - window_as_size (fc_available (send_flow s))) =
      sint (fc_window_size (send_flow s)) - sint (fc_available (send_flow s))"
    using assms by (simp_all add: capacity_ok_def send_want_def uint_sub_if')
  then show ?thesis by (auto simp: additional_capacity_def Let_def send_want_def min_def word_le_def)
qed

lemma short_of_capacity:
  assumes "0 \<le> sint (fc_available (send_flow s))" "sint (fc_available (send_flow s)) < send_want s"
  shows "window_less_size (fc_available (send_flow s)) (requested_send_capacity s) \<and> has_unavailable (send_flow s)"
  using assms by (auto simp: has_unavailable_def send_want_def word_sless_alt window_compare)

lemma try_assign_parts:
  assumes "store_get (ss_store w) k = Some s" "try_assign_capacity k w = (Ok () :: (_, 'e) result, w')" "additional_capacity s \<noteq> 0"
    "capacity_ok s" "0 \<le> sint (fc_available (prio_flow (ss_prio w)))"
  shows "\<exists>w1. assigned k s (min (sint (fc_available (prio_flow (ss_prio w)))) (send_want s - sint (fc_available (send_flow s)))) w w1
    \<and> requeue k w1 = (Ok () :: (_, 'e) result, w')"
proof -
  let ?conn = "window_as_size (fc_available (prio_flow (ss_prio w)))"
  let ?n = "min ?conn (additional_capacity s)"
  let ?assign = "sbind (waking_stream k (stream_assign_capacity ?n)) (\<lambda>_. modify_prio (\<lambda>p. p\<lparr>prio_flow := claim_capacity ?n (prio_flow p)\<rparr>))"
  have n: "uint ?n = min (sint (fc_available (prio_flow (ss_prio w)))) (send_want s - sint (fc_available (send_flow s)))"
    using uint_additional [OF assms(4)] assms(5) by (auto simp: min_def word_le_def uint_window_as_size)
  have run: "sbind (if ?conn > 0 then ?assign else sret ()) (\<lambda>_. requeue k) w = (Ok () :: (_, 'e) result, w')"
    using assms(1-3) by (simp add: try_assign_capacity_def requeue_def [symmetric] sbind_def [of "stream_at k"] sbind_def [of world_prio]
        stream_at_def store_index_def world_prio_def Let_def cong: if_cong)
  show ?thesis
  proof (cases "?conn > 0")
    case True
    obtain w1 where "?assign w = (Ok () :: (_, 'e) result, w1)" "assigned k s (uint ?n) w w1"
      using assign_step [OF assms(1)] by blast
    with run True n show ?thesis by (auto simp: sbind_def [of "sbind _ _"])
  next
    case False
    then have "?conn = 0" by (simp add: word_gt_0)
    then have "uint ?n = 0" by simp
    then have "assigned k s (uint ?n) w w" using assms(1) by (auto simp: assigned_def intro!: exI [of _ s])
    with run False show ?thesis unfolding n by auto
  qed
qed

text \<open>
  C33. \<open>try_assign_capacity\<close> for a stream that holds no more than it asked for and its window
  allows: it gets all that it asked for, as far as its own window and the capacity of the connection go, and the connection
  loses as much. A stream that is left with less than that waits for capacity; a stream that could get something and has
  data to send is queued for sending. The capacity of no other stream changes.
\<close>

theorem capacity_is_assigned:
  fixes w :: "('f, 'z) world_scheme"
  defines "held \<equiv> \<lambda>s. sint (fc_available (send_flow s))"
    and "conn \<equiv> \<lambda>w :: ('f, 'z) world_scheme. sint (fc_available (prio_flow (ss_prio w)))"
  assumes s: "store_get (ss_store w) k = Some s" and run: "try_assign_capacity k w = (Ok () :: (_, 'e) result, w')"
    and ok: "capacity_ok s" "0 \<le> conn w"
  defines "got \<equiv> min (conn w) (send_want s - held s)"
  shows "\<exists>s'. store_get (ss_store w') k = Some s' \<and> held s' = held s + got \<and> conn w' = conn w - got
    \<and> capacity_ok s' \<and> send_want s' = send_want s
    \<and> (held s' < send_want s \<longrightarrow> is_pending_send_capacity s')
    \<and> (held s < send_want s \<and> buffered_send_data s > 0 \<and> is_send_ready s \<longrightarrow> is_pending_send s')
    \<and> (\<forall>j. j \<noteq> k \<longrightarrow> map_option capacity_view (store_get (ss_store w') j) = map_option capacity_view (store_get (ss_store w) j))"
proof (cases "additional_capacity s = 0")
  case True
  with run s have "w' = w" by (simp add: try_assign_capacity_def sbind_def stream_at_def store_index_def)
  moreover have "send_want s = held s" using uint_additional [OF ok(1)] True by (simp add: held_def)
  ultimately show ?thesis using s ok by (auto simp: got_def)
next
  case False
  obtain w1 where w1: "assigned k s got w w1" "requeue k w1 = (Ok () :: (_, 'e) result, w')"
    using try_assign_parts [OF s run False ok(1)] ok(2) by (auto simp: got_def conn_def held_def)
  then obtain s1 where s1: "store_get (ss_store w1) = (store_get (ss_store w))(k \<mapsto> s1)"
    "capacity_view s1 = capacity_view (s\<lparr>send_flow := (send_flow s)\<lparr>fc_available := fc_available (send_flow s) + word_of_int got\<rparr>\<rparr>)"
    "prio_flow (ss_prio w1) = (prio_flow (ss_prio w))\<lparr>fc_available := fc_available (prio_flow (ss_prio w)) - word_of_int got\<rparr>"
    by (auto simp: assigned_def)
  have range: "0 \<le> held s" "held s \<le> send_want s" "send_want s \<le> 2147483647" "conn w \<le> 2147483647"
    using ok sint_i32_range(2) [of "fc_window_size (send_flow s)"] sint_i32_range(2)
    by (auto simp: capacity_ok_def held_def conn_def send_want_def min_le_iff_disj)
  then have got: "0 \<le> got" "held s + got \<le> send_want s" "got \<le> conn w" using ok(2) by (auto simp: got_def)
  have word: "sint (word_of_int got :: i32) = got" using got range by (intro sint_of_int_i32) auto
  have sums: "sint (fc_available (send_flow s) + word_of_int got) = held s + got"
    "sint (fc_available (prio_flow (ss_prio w)) - word_of_int got) = conn w - got"
    using got range ok(2) sint_add_i32 [of "fc_available (send_flow s)" "word_of_int got"]
      sint_diff_i32 [of "fc_available (prio_flow (ss_prio w))" "word_of_int got"]
    by (simp_all add: word held_def conn_def)
  have at: "store_get (ss_store w1) k = Some s1" by (simp add: s1(1))
  obtain s' where s': "store_get (ss_store w') k = Some s'"
    "window_less_size (fc_available (send_flow s1)) (requested_send_capacity s1) \<and> has_unavailable (send_flow s1) \<longrightarrow> is_pending_send_capacity s'"
    "buffered_send_data s1 > 0 \<and> is_send_ready s1 \<longrightarrow> is_pending_send s'"
    using requeue_view(3) [OF w1(2) at] by blast
  have view: "capacity_view s' = capacity_view s1" using requeue_view(1) [OF w1(2) at, of k] s'(1) at by simp
  have held: "held s' = held s + got" "held s1 = held s + got" "send_want s1 = send_want s" "send_want s' = send_want s"
    using view s1(2) sums(1) by (simp_all add: capacity_view_def held_def send_want_def)
  have "conn w' = conn w - got" using requeue_view(2) [OF w1(2) at] s1(3) sums(2) by (simp add: conn_def)
  moreover have "is_pending_send_capacity s'" if "held s' < send_want s"
    using that s'(2) held range(1) got(1) short_of_capacity [of s1] by (simp add: held_def)
  moreover have "is_pending_send s'" if "buffered_send_data s > 0" "is_send_ready s"
    using that s'(3) s1(2) by (simp add: capacity_view_def is_send_ready_def)
  moreover have "capacity_ok s'" using held range got by (simp add: capacity_ok_def held_def)
  moreover have "map_option capacity_view (store_get (ss_store w') j) = map_option capacity_view (store_get (ss_store w) j)" if "j \<noteq> k" for j
    using requeue_view(1) [OF w1(2) at, of j] s1(1) that by simp
  ultimately show ?thesis using s'(1) held by blast
qed

text \<open>A connection without streams, with a window of ten bytes that are all available.\<close>

definition idle_world :: "'f world" where
  "idle_world =
     \<lparr>ss_store = store_new [],
      ss_counts = \<lparr>peer = Client, max_send_streams = 1, num_send_streams = 0, max_recv_streams = 1,
        num_recv_streams = 0, max_reset_streams = 1, num_reset_streams = 0\<rparr>,
      ss_prio = \<lparr>prio_pending_send = None, prio_pending_capacity = None, prio_pending_open = None,
        prio_flow = \<lparr>fc_window_size = 10, fc_available = 10\<rparr>, in_flight_data_frame = Nothing_In_Flight\<rparr>,
      ss_buffer = slab_new [], ss_task = None, ss_woken = []\<rparr>"

section \<open>Two ways to lose the connection\<close>

lemma assign_loop_alone:
  "prio_pending_capacity (ss_prio w) = None \<Longrightarrow> assign_loop w = (Ok (), w)"
  by (cases "ss_prio w") (simp add: assign_loop.simps [of w] pop_queue_def queue_pop_def)

lemma sint_change_size:
  "- (2 ^ 31) \<le> sint (w :: i32) + uint n \<Longrightarrow> sint w + uint n \<le> MAX_WINDOW \<Longrightarrow> sint (w + n) = sint w + uint n"
  "- (2 ^ 31) \<le> sint (w :: i32) - uint n \<Longrightarrow> sint w - uint n \<le> MAX_WINDOW \<Longrightarrow> sint (w - n) = sint w - uint n"
  using sint_of_int_i32 [of "sint w + uint n"] sint_of_int_i32 [of "sint w - uint n"] by simp_all

text \<open>
  C35. What happens to a reservation when the stream goes
  away with it: \<open>reclaim_reserved_capacity\<close> takes back all that was reserved beyond the buffered
  data, whether or not it was ever assigned. The connection gains \<open>requested - buffered\<close> bytes of capacity
  and the stream loses as many; where less was assigned, the stream is left with a negative capacity
  and the connection hands out bytes that other streams still hold.
\<close>

theorem dropped_reservation_overcommits:
  fixes w :: "('f, 'z) world_scheme"
  defines "reserved \<equiv> \<lambda>s. uint (requested_send_capacity s) - uint (buffered_send_data s)"
  assumes s: "store_get (ss_store w) k = Some s" and less: "buffered_send_data s < requested_send_capacity s"
    and alone: "prio_pending_capacity (ss_prio w) = None"
    and bounds: "sint (fc_available (prio_flow (ss_prio w))) + reserved s \<le> MAX_WINDOW"
      "- (2 ^ 31) \<le> sint (fc_available (send_flow s)) - reserved s"
  shows "\<exists>w' s'. reclaim_reserved_capacity k w = (Ok () :: (_, 'e) result, w')
    \<and> sint (fc_available (prio_flow (ss_prio w'))) = sint (fc_available (prio_flow (ss_prio w))) + reserved s
    \<and> fc_window_size (prio_flow (ss_prio w')) = fc_window_size (prio_flow (ss_prio w))
    \<and> store_get (ss_store w') k = Some s'
    \<and> sint (fc_available (send_flow s')) = sint (fc_available (send_flow s)) - reserved s"
proof -
  let ?n = "requested_send_capacity s - buffered_send_data s"
  let ?s = "s\<lparr>send_flow := claim_capacity ?n (send_flow s)\<rparr>"
  let ?w = "w\<lparr>ss_store := store_put k ?s (ss_store w),
    ss_prio := (ss_prio w)\<lparr>prio_flow := flow_assign_capacity ?n (prio_flow (ss_prio w))\<rparr>\<rparr>"
  have n: "uint ?n = reserved s"
    using less by (simp add: reserved_def uint_sub_if' word_less_def)
  have "reclaim_reserved_capacity k w = (Ok () :: (_, 'e) result, ?w)"
    using s less alone
    by (simp add: reclaim_reserved_capacity_def sbind_def stream_at_def modify_stream_def store_modify_def
        store_index_def Let_def assign_connection_capacity_def modify_prio_def assign_loop_alone)
  moreover have "store_get (ss_store ?w) k = Some ?s" using store_get_put [OF s] by simp
  moreover have "sint (fc_available (send_flow ?s)) = sint (fc_available (send_flow s)) - reserved s"
    using n bounds(2) sint_i32_range [of "fc_available (send_flow s)"] less
      sint_change_size(2) [of "fc_available (send_flow s)" ?n]
    by (simp add: claim_capacity_def reserved_def word_less_def)
  moreover have "sint (fc_available (prio_flow (ss_prio ?w))) = sint (fc_available (prio_flow (ss_prio w))) + reserved s"
    using n bounds(1) sint_i32_range [of "fc_available (prio_flow (ss_prio w))"] less
      sint_change_size(1) [of "fc_available (prio_flow (ss_prio w))" ?n]
    by (simp add: flow_assign_capacity_def reserved_def word_less_def)
  moreover have "fc_window_size (prio_flow (ss_prio ?w)) = fc_window_size (prio_flow (ss_prio w))"
    by (simp add: flow_assign_capacity_def)
  ultimately show ?thesis by (intro exI [of _ ?w] exI [of _ ?s]) simp
qed

text \<open>Worlds with one stream, to run the two cases on.\<close>

definition example_key :: key where
  "example_key = Key 0 (StreamId 1)"

definition one_stream :: "(stream \<Rightarrow> stream) \<Rightarrow> store" where
  "one_stream f =
     (case stream_new (StreamId 1) 10 10 :: (stream, unit) result of
        Ok s \<Rightarrow> \<lparr>store_slab = \<lparr>slab_slots = [Some (f s)], slab_wishes = []\<rparr>, store_ids = [(StreamId 1, 0)]\<rparr>
      | _ \<Rightarrow> store_new [])"

lemma one_stream_get:
  assumes "\<And>s. st_id (f s) = st_id s"
  obtains s where "store_get (one_stream f) example_key = Some (f s)" "buffered_send_data s = 0"
    "pending_send s = None" "nx_next NextSend s = None" "is_send_ready s"
  using assms by (auto simp: one_stream_def stream_new_def inc_window_def overflowing_add_def flow_new_def store_get_def
      slab_get_def example_key_def MAX_WINDOW_SIZE_def word_sless_alt next_defs deque_new_def is_send_ready_def intro!: that)

definition starved_world :: "bytes world" where
  "starved_world =
     idle_world\<lparr>
       ss_store := one_stream (\<lambda>s. s\<lparr>requested_send_capacity := 10, send_flow := \<lparr>fc_window_size = 10, fc_available = 4\<rparr>\<rparr>),
       ss_prio := (ss_prio (idle_world :: bytes world))\<lparr>prio_flow := \<lparr>fc_window_size = 10, fc_available = 6\<rparr>\<rparr>\<rparr>"

theorem dropped_reservation_overcommits_witness:
  "\<exists>w' s'. reclaim_reserved_capacity example_key starved_world = (Ok () :: (_, unit) result, w')
    \<and> sint (fc_available (prio_flow (ss_prio w'))) = 16 \<and> fc_window_size (prio_flow (ss_prio w')) = 10
    \<and> store_get (ss_store w') example_key = Some s' \<and> sint (fc_available (send_flow s')) = - 6"
proof -
  obtain s where s: "store_get (ss_store starved_world) example_key
      = Some (s\<lparr>requested_send_capacity := 10, send_flow := \<lparr>fc_window_size = 10, fc_available = 4\<rparr>\<rparr>)"
    "buffered_send_data s = 0"
    by (rule one_stream_get [of "\<lambda>s. s\<lparr>requested_send_capacity := 10, send_flow := \<lparr>fc_window_size = 10, fc_available = 4\<rparr>\<rparr>"])
      (simp_all add: starved_world_def)
  then show ?thesis
    using dropped_reservation_overcommits [OF s(1), where 'e = unit] by (simp add: starved_world_def idle_world_def)
qed

definition waiting_world :: "bytes world" where
  "waiting_world =
     idle_world\<lparr>
       ss_store := one_stream (\<lambda>s. s\<lparr>st_state := Open Streaming AwaitingHeaders, buffered_send_data := 10,
         requested_send_capacity := 10, send_flow := \<lparr>fc_window_size = 10, fc_available = 4\<rparr>\<rparr>),
       ss_prio := (ss_prio (idle_world :: bytes world))\<lparr>prio_flow := \<lparr>fc_window_size = 10, fc_available = 3\<rparr>\<rparr>\<rparr>"

theorem capacity_is_assigned_witness:
  "\<exists>w' s'. try_assign_capacity example_key waiting_world = (Ok () :: (_, unit) result, w')
    \<and> store_get (ss_store w') example_key = Some s' \<and> sint (fc_available (send_flow s')) = 7
    \<and> is_pending_send_capacity s' \<and> is_pending_send s' \<and> sint (fc_available (prio_flow (ss_prio w'))) = 0"
proof -
  let ?f = "\<lambda>s. s\<lparr>st_state := Open Streaming AwaitingHeaders, buffered_send_data := 10,
    requested_send_capacity := 10, send_flow := \<lparr>fc_window_size = 10, fc_available = 4\<rparr>\<rparr>"
  obtain s where s: "store_get (ss_store waiting_world) example_key = Some (?f s)" and ready: "is_send_ready s"
    by (rule one_stream_get [of ?f]) (simp_all add: waiting_world_def)
  have "fst (try_assign_capacity example_key waiting_world) = (Ok () :: (_, unit) result)" by code_simp
  then obtain w' where run: "try_assign_capacity example_key waiting_world = (Ok () :: (_, unit) result, w')"
    by (cases "try_assign_capacity example_key waiting_world :: (_, unit) result \<times> _") simp
  have "fc_available (prio_flow (ss_prio waiting_world)) = 3" by (simp add: waiting_world_def)
  moreover have "capacity_ok (?f s)" by (simp add: capacity_ok_def send_want_def)
  ultimately show ?thesis
    using capacity_is_assigned [OF s run] run ready by (auto simp: send_want_def is_send_ready_def)
qed

text \<open>
  C36. An empty DATA frame (the usual way to end a body) on a stream whose
  window is negative, as it is after a SETTINGS frame that shrinks the windows below what is in flight: the
  frame passes the test for blocked streams, since it carries nothing, and sending its zero bytes
  fails the assertion that the window is large enough. The connection task panics.
\<close>

theorem empty_data_panics:
  fixes w :: "('m, 'z) sending"
  assumes pop: "pop_queue Q_Send w = (Ok (Some k) :: (_, 'e) result, w1)" and s: "store_get (ss_store w1) k = Some s"
    and front: "pending_pop_front k w1 = (Ok (Some (FData frame)) :: (_, 'e) result, w2)"
    and empty: "data_data frame = []" and negative: "sint (fc_window_size (send_flow s)) < 0"
  shows "fst (pop_frame max_len w) = (Panic :: (_, 'e) result)"
proof -
  obtain t where t: "store_get (ss_store w2) k = Some t" "send_flow t = send_flow s"
    using front s store_get_put [OF s]
    by (auto simp: pending_pop_front_def on_pending_send_def sbind_def stream_at_def store_index_def
        modify_stream_def store_modify_def split: result.splits prod.splits)
  have "\<not> size_le_window 0 (fc_window_size (send_flow s))"
    using negative by (simp add: size_le_window_def word_sless_alt)
  with t have "fst (pop_data max_len k frame w2) = (Panic :: (_, 'e) result)"
    by (simp add: pop_data_def sbind_def stream_at_def store_index_def try_stream_def slift_def Let_def empty
        flow_send_data_def assert_that_def)
  then have "fst (pop_stream max_len k w1) = (Panic :: (_, 'e) result)"
    using s front empty by (cases "pop_data max_len k frame w2 :: (_, 'e) result \<times> _")
      (simp add: pop_stream_def sbind_def stream_at_def store_index_def Let_def)
  with pop show ?thesis
    by (cases "pop_stream max_len k w1 :: (_, 'e) result \<times> _") (simp add: pop_frame.simps [of max_len w])
qed

definition negative_world :: "(bytes, unit) payload_frame world" where
  "negative_world =
     idle_world\<lparr>
       ss_store := one_stream (\<lambda>s. s\<lparr>send_flow := \<lparr>fc_window_size = - 1, fc_available = 0\<rparr>, is_pending_send := True,
         pending_send := Some (Indices 0 0)\<rparr>),
       ss_prio := (ss_prio (idle_world :: bytes world))\<lparr>prio_pending_send := Some (Indices example_key example_key)\<rparr>,
       ss_buffer := \<lparr>slab_slots = [Some \<lparr>slot_value = FData \<lparr>data_stream_id = StreamId 1, data_data = [],
         data_flags = END_STREAM, data_pad_len = None\<rparr>, slot_next = None\<rparr>], slab_wishes = []\<rparr>\<rparr>"

theorem empty_data_panics_witness:
  "fst (pop_frame 16384 negative_world) = (Panic :: (_, unit) result)"
proof -
  let ?f = "\<lambda>s. s\<lparr>send_flow := \<lparr>fc_window_size = - 1, fc_available = 0\<rparr>, is_pending_send := True,
    pending_send := Some (Indices 0 0)\<rparr>"
  obtain s where s: "store_get (ss_store negative_world) example_key = Some (?f s)" "nx_next NextSend s = None"
    by (rule one_stream_get [of ?f]) (simp_all add: negative_world_def)
  let ?s = "?f s\<lparr>is_pending_send := False\<rparr>"
  let ?w = "negative_world\<lparr>ss_prio := ss_prio (idle_world :: bytes world), ss_store := store_put example_key ?s (ss_store negative_world)\<rparr>"
  have pop: "pop_queue Q_Send negative_world = (Ok (Some example_key) :: (_, unit) result, ?w)"
  proof -
    have "prio_pending_send (ss_prio negative_world) = Some (Indices example_key example_key)"
      "(ss_prio negative_world)\<lparr>prio_pending_send := None\<rparr> = ss_prio (idle_world :: bytes world)"
      by (simp_all add: negative_world_def idle_world_def)
    with s show ?thesis
      by (simp add: pop_queue_def queue_pop_def store_index_def store_modify_def next_defs)
  qed
  have at: "store_get (ss_store ?w) example_key = Some ?s"
    using store_get_put [OF s(1)] by simp
  then obtain w' where front: "pending_pop_front example_key ?w = (Ok (Some (FData \<lparr>data_stream_id = StreamId 1,
      data_data = [], data_flags = END_STREAM, data_pad_len = None\<rparr>)) :: (_, unit) result, w')"
    by (simp add: pending_pop_front_def on_pending_send_def sbind_def stream_at_def store_index_def deque_pop_front_def
        modify_stream_def store_modify_def slab_remove_def slab_get_def negative_world_def)
  show ?thesis by (rule empty_data_panics [OF pop at front]) simp_all
qed

end
