(* ===== verification/Stream_Send.thy ===== *)
theory Stream_Send
  imports Framed_Write Prioritize
begin

text \<open>
  The sending half of the streams (\<open>streams/send.rs\<close>): opening streams, sending headers, data,
  trailers and resets, and the reaction to window updates and settings of the peer. It checks the
  state of the stream and hands frames to the prioritizer.
\<close>

section \<open>The state\<close>

record send =
  next_stream_id :: "(stream_id, stream_id_overflow) result"
  max_stream_id :: stream_id
  init_window_sz :: u32
  is_push_enabled_by_peer :: bool

record 'f send_world = "'f world" +
  ss_send :: send

text \<open>The prioritizer of \<open>Send\<close> is the field \<open>ss_prio\<close> of the world.\<close>

definition send_new :: "config \<Rightarrow> send" where
  "send_new c =
     \<lparr>next_stream_id = Ok (local_next_stream_id c), max_stream_id = stream_id_MAX,
      init_window_sz = remote_init_window_sz c, is_push_enabled_by_peer = True\<rparr>"

definition world_send :: "(('f, 'y) send_world_scheme, send, 'e) op" where
  "world_send w = (Ok (ss_send w), w)"

definition modify_send :: "(send \<Rightarrow> send) \<Rightarrow> (('f, 'y) send_world_scheme, unit, 'e) op" where
  "modify_send f w = (Ok (), w\<lparr>ss_send := f (ss_send w)\<rparr>)"

text \<open>\<open>Result::map_err\<close> on the outcome of an operation.\<close>

definition smap_err :: "('e \<Rightarrow> 'd) \<Rightarrow> ('s, 'a, 'e) op \<Rightarrow> ('s, 'a, 'd) op" where
  "smap_err g m w = (case m w of (r, w) \<Rightarrow> (map_err g r, w))"

section \<open>Stream identifiers\<close>

definition ensure_next_stream_id :: "send \<Rightarrow> (stream_id, user_error) result" where
  "ensure_next_stream_id s = map_err (\<lambda>_. OverflowedStreamId) (next_stream_id s)"

definition send_open :: "(('f, 'y) send_world_scheme, stream_id, user_error) op" where
  "send_open =
     sbind world_send (\<lambda>s.
     sbind (slift (ensure_next_stream_id s)) (\<lambda>stream_id.
     sbind (modify_send (\<lambda>s. s\<lparr>next_stream_id := next_id stream_id\<rparr>)) (\<lambda>_. sret stream_id)))"

definition reserve_local :: "(('f, 'y) send_world_scheme, stream_id, user_error) op" where
  "reserve_local =
     sbind world_send (\<lambda>s.
     sbind (slift (ensure_next_stream_id s)) (\<lambda>stream_id.
     sbind (modify_send (\<lambda>s. s\<lparr>next_stream_id := next_id stream_id\<rparr>)) (\<lambda>_. sret stream_id)))"

definition send_ensure_not_idle :: "stream_id \<Rightarrow> send \<Rightarrow> (unit, reason) result" where
  "send_ensure_not_idle i s =
     (case next_stream_id s of
        Ok next \<Rightarrow> (if i \<ge> next then Err PROTOCOL_ERROR else Ok ())
      | _ \<Rightarrow> Ok ())"

definition send_may_have_created_stream :: "stream_id \<Rightarrow> send \<Rightarrow> bool" where
  "send_may_have_created_stream i s =
     (case next_stream_id s of Ok next \<Rightarrow> i < next | _ \<Rightarrow> True)"

section \<open>Headers\<close>

definition check_headers :: "'m header_map_lib \<Rightarrow> 'm \<Rightarrow> (unit, user_error) result" where
  "check_headers H fs =
     (if list_ex (\<lambda>n. values_of n (hm_list H fs) \<noteq> []) CONNECTION_HEADERS then Err MalformedHeaders
      else
        (case values_of (ascii ''te'') (hm_list H fs) of
           te # _ \<Rightarrow> (if hv_bytes te \<noteq> ascii ''trailers'' then Err MalformedHeaders else Ok ())
         | [] \<Rightarrow> Ok ()))"

type_synonym ('m, 'y) sender = "((bytes, 'm) payload_frame, 'y) send_world_scheme"

definition send_push_promise ::
  "'m header_map_lib \<Rightarrow> 'm push_promise \<Rightarrow> key \<Rightarrow> (('m, 'y) sender, unit, user_error) op" where
  "send_push_promise H frame k =
     sbind world_send (\<lambda>s.
       if \<not> is_push_enabled_by_peer s then sfail PeerDisabledServerPush
       else
         sbind (slift (check_headers H (hb_fields (pp_block frame)))) (\<lambda>_.
           queue_frame (FPushPromise frame) k))"

definition send_headers ::
  "'m header_map_lib \<Rightarrow> 'm headers \<Rightarrow> key \<Rightarrow> (('m, 'y) sender, unit, user_error) op" where
  "send_headers H frame k =
     sbind (slift (check_headers H (hb_fields (h_block frame)))) (\<lambda>_.
       if has_too_big_field H (h_block frame) then sfail HeaderTooBig
       else
         sbind (try_stream k (\<lambda>s. map_ok (\<lambda>st. s\<lparr>st_state := st\<rparr>)
             (state_send_open (headers_is_end_stream frame) (st_state s)))) (\<lambda>_.
         sbind world_counts (\<lambda>c.
         sbind (slift (is_local_init (h_stream_id frame) (peer c))) (\<lambda>local.
         sbind (stream_at k) (\<lambda>s.
         sbind
           (if local then
              (if \<not> is_pending_push s then
                 (if can_inc_num_send_streams c then inc_num_send_streams k else queue_open k)
               else sret ())
            else sret ()) (\<lambda>_.
           queue_frame (FHeaders frame) k))))))"

definition send_trailers ::
  "'m header_map_lib \<Rightarrow> 'm headers \<Rightarrow> key \<Rightarrow> (('m, 'y) sender, unit, user_error) op" where
  "send_trailers H frame k =
     sbind (stream_at k) (\<lambda>s.
       if \<not> is_send_streaming (st_state s) then sfail UnexpectedFrameType
       else if has_too_big_field H (h_block frame) then sfail HeaderTooBig
       else
         sbind (try_stream k (\<lambda>s. map_ok (\<lambda>st. s\<lparr>st_state := st\<rparr>) (state_send_close (st_state s)))) (\<lambda>_.
         sbind (queue_frame (FHeaders frame) k) (\<lambda>_.
           reserve_capacity 0 k)))"

section \<open>Resets\<close>

definition send_reset :: "reason \<Rightarrow> key \<Rightarrow> (('m, 'z) sending, unit, 'e) op" where
  "send_reset reason k =
     sbind (stream_at k) (\<lambda>s.
       let is_reset = is_reset (st_state s);
           is_closed = state_is_closed (st_state s);
           is_empty = deque_is_empty (pending_send s)
       in
       if is_reset then sret ()
       else
         sbind (modify_stream k (\<lambda>s. s\<lparr>st_state := state_set_reset reason (st_state s)\<rparr>)) (\<lambda>_.
           if is_closed \<and> is_empty then sret ()
           else
             sbind (clear_queue k) (\<lambda>_.
             sbind (queue_frame (FReset (reset_new (st_id s) reason)) k) (\<lambda>_.
               reclaim_all_capacity k))))"

definition schedule_implicit_reset :: "key \<Rightarrow> reason \<Rightarrow> (('m, 'z) sending, unit, 'e) op" where
  "schedule_implicit_reset k reason =
     sbind (stream_at k) (\<lambda>s.
       if state_is_closed (st_state s) then sret ()
       else
         sbind (modify_stream k (\<lambda>s. s\<lparr>st_state := state_set_scheduled_reset reason (st_state s)\<rparr>)) (\<lambda>_.
         sbind (reclaim_reserved_capacity k) (\<lambda>_.
           schedule_send k)))"

definition send_recv_err :: "key \<Rightarrow> (('m, 'z) sending, unit, 'e) op" where
  "send_recv_err k = sbind (clear_queue k) (\<lambda>_. reclaim_all_capacity k)"

section \<open>Data and capacity\<close>

definition send_data :: "bytes data_frame \<Rightarrow> key \<Rightarrow> (('m, 'z) sending, unit, user_error) op" where
  "send_data frame k = prio_send_data frame k"

definition capacity_of :: "stream \<Rightarrow> u32" where
  "capacity_of s =
     (let available = window_as_size (fc_available (send_flow s));
          buffered = buffered_send_data s
      in if available \<le> buffered then 0 else available - buffered)"

definition poll_capacity :: "waker \<Rightarrow> key \<Rightarrow> (('f, 'z) world_scheme, u32 option io_poll, 'e) op" where
  "poll_capacity cx k =
     sbind (stream_at k) (\<lambda>s.
       if \<not> is_send_streaming (st_state s) then sret (Ready None)
       else if \<not> send_capacity_inc s then
         sbind (modify_stream k (wait_send cx)) (\<lambda>_. sret Pending)
       else
         sbind (modify_stream k (\<lambda>s. s\<lparr>send_capacity_inc := False\<rparr>)) (\<lambda>_. sret (Ready (Some (capacity_of s)))))"

definition send_poll_reset :: "waker \<Rightarrow> key \<Rightarrow> poll_reset \<Rightarrow> (('f, 'z) world_scheme, reason io_poll, h2_error) op" where
  "send_poll_reset cx k mode =
     sbind (stream_at k) (\<lambda>s.
     sbind (slift (ensure_reason mode (st_state s))) (\<lambda>r.
       case r of
         Some reason \<Rightarrow> sret (Ready reason)
       | None \<Rightarrow> sbind (modify_stream k (wait_send cx)) (\<lambda>_. sret Pending)))"

section \<open>Frames of the peer\<close>

definition send_recv_connection_window_update :: "window_update \<Rightarrow> (('f, 'z) world_scheme, unit, reason) op" where
  "send_recv_connection_window_update frame = prio_recv_connection_window_update (wu_size_increment frame)"

definition send_recv_stream_window_update :: "u32 \<Rightarrow> key \<Rightarrow> (('m, 'z) sending, unit, reason) op" where
  "send_recv_stream_window_update sz k w =
     (case prio_recv_stream_window_update sz k w of
        (Err e, w) \<Rightarrow> sbind (send_reset FLOW_CONTROL_ERROR k) (\<lambda>_. sfail e) w
      | (Ok _, w) \<Rightarrow> (Ok (), w)
      | (Panic, w) \<Rightarrow> (Panic, w))"

definition send_recv_go_away :: "stream_id \<Rightarrow> (('f, 'y) send_world_scheme, unit, recv_error) op" where
  "send_recv_go_away last_stream_id =
     sbind world_send (\<lambda>s.
       if last_stream_id > max_stream_id s then sfail (Recv_Connection PROTOCOL_ERROR)
       else modify_send (\<lambda>s. s\<lparr>max_stream_id := last_stream_id\<rparr>))"

text \<open>The closure of \<open>apply_remote_settings\<close> for a smaller window, with \<open>total_reclaimed\<close>.\<close>

definition with_total :: "('w, 'a, 'e) op \<Rightarrow> (u32 \<times> 'w, 'a, 'e) op" where
  "with_total m = (\<lambda>(t, w). case m w of (r, w) \<Rightarrow> (r, t, w))"

definition dec_stream_window :: "u32 \<Rightarrow> key \<Rightarrow> (u32 \<times> ('f, 'z) world_scheme, unit, 'e) op" where
  "dec_stream_window dec k =
     sbind (with_total (modify_stream k (\<lambda>s. s\<lparr>send_flow := dec_send_window dec (send_flow s)\<rparr>))) (\<lambda>_.
     sbind (with_total (stream_at k)) (\<lambda>s.
       let window_size = flow_window_size (send_flow s);
           available = window_as_size (fc_available (send_flow s))
       in
       if available > window_size then
         (let reclaim = available - window_size in
          sbind (with_total (modify_stream k (\<lambda>s. s\<lparr>send_flow := claim_capacity reclaim (send_flow s)\<rparr>)))
            (\<lambda>_ (t, w). (Ok (), t + reclaim, w)))
       else sret ()))"

definition send_apply_remote_settings :: "settings \<Rightarrow> (('m, 'y) sender, unit, recv_error) op" where
  "send_apply_remote_settings f =
     sbind
       (case initial_window_size f of
          Some n \<Rightarrow>
            sbind world_send (\<lambda>s.
            let old = init_window_sz s in
            sbind (modify_send (\<lambda>s. s\<lparr>init_window_sz := n\<rparr>)) (\<lambda>_ w.
              if n < old then
                (case store_for_each (world_ids \<circ> snd) (dec_stream_window (old - n)) (0, w) of
                   (Ok _, t, w) \<Rightarrow> assign_connection_capacity t w
                 | (Err e, t, w) \<Rightarrow> (Err e, w)
                 | (Panic, t, w) \<Rightarrow> (Panic, w))
              else if n > old then
                store_for_each world_ids
                  (\<lambda>k. smap_err Recv_Connection (send_recv_stream_window_update (n - old) k)) w
              else (Ok (), w)))
        | None \<Rightarrow> sret ()) (\<lambda>_.
     case is_push_enabled f of
       Some b \<Rightarrow> modify_send (\<lambda>s. s\<lparr>is_push_enabled_by_peer := b\<rparr>)
     | None \<Rightarrow> sret ())"

definition send_clear_queues :: "(('f, 'z) world_scheme, unit, 'e) op" where
  "send_clear_queues =
     sbind clear_pending_capacity (\<lambda>_. sbind clear_pending_send (\<lambda>_. clear_pending_open))"

end
