(* ===== verification/Peer_Messages.thy ===== *)
theory Peer_Messages
  imports Frame_Headers H2_Errors
begin

text \<open>
  Requests and responses as the two peers exchange them with the streams: the conversions of
  \<open>h2/client.rs\<close> and \<open>h2/server.rs\<close> between the messages of the crate \<open>http\<close> and the header blocks of frames. What
  the crate accepts as the parts of a \<open>Uri\<close> is a parameter.
\<close>

section \<open>Messages\<close>

record 'm http_request =
  rq_method :: bytes
  rq_uri :: uri_parts
  rq_is_http2 :: bool
  rq_fields :: 'm

record 'm http_response =
  rs_status :: bytes
  rs_fields :: 'm

datatype 'm poll_message = Message_Client "'m http_response" | Message_Server "'m http_request"

text \<open>
  What the crate makes of a text as an authority, a scheme or a path with its query (\<open>None\<close> when it does not take it; a
  path loses its fragment, for example), whether the given parts make a \<open>Uri\<close>, and whether a message with this status
  can be built.
\<close>

record uri_lib =
  authority_parse :: "bytes \<Rightarrow> bytes option"
  scheme_parse :: "bytes \<Rightarrow> bytes option"
  path_parse :: "bytes \<Rightarrow> bytes option"
  uri_ok :: "uri_parts \<Rightarrow> bool"
  uri_status_ok :: "bytes \<Rightarrow> bool"

section \<open>The server\<close>

definition server_convert_send_message :: "stream_id \<Rightarrow> 'm http_response \<Rightarrow> bool \<Rightarrow> 'm headers" where
  "server_convert_send_message i response end_of_stream =
     (let frame = headers_new i (pseudo_response (rs_status response)) (rs_fields response)
      in if end_of_stream then headers_set_end_stream frame else frame)"

definition first_value :: "'m header_map_lib \<Rightarrow> bytes \<Rightarrow> 'm \<Rightarrow> bytes option" where
  "first_value H n fs = (case values_of n (hm_list H fs) of v # _ \<Rightarrow> Some (hv_bytes v) | [] \<Rightarrow> None)"

definition convert_push_message ::
  "'m header_map_lib \<Rightarrow> stream_id \<Rightarrow> stream_id \<Rightarrow> 'm http_request \<Rightarrow> ('m push_promise, user_error) result" where
  "convert_push_message H i promised_id request =
     (case validate_request (rq_method request) (first_value H (ascii ''content-length'') (rq_fields request)) of
        Ok _ \<Rightarrow> Ok (push_promise_new i promised_id (pseudo_request (rq_method request) (rq_uri request)) (rq_fields request))
      | _ \<Rightarrow> Err MalformedHeaders)"

text \<open>The macro \<open>malformed!\<close> ends the function with a stream error.\<close>

definition malformed :: "stream_id \<Rightarrow> ('a, recv_error) result" where
  "malformed i = Err (Recv_Stream i PROTOCOL_ERROR)"

definition server_convert_poll_message ::
  "uri_lib \<Rightarrow> pseudo \<Rightarrow> 'm \<Rightarrow> stream_id \<Rightarrow> ('m http_request, recv_error) result" where
  "server_convert_poll_message U ps fs i =
     (case ps_method ps of
        None \<Rightarrow> malformed i
      | Some method \<Rightarrow>
          let is_connect = (method = ascii ''CONNECT'') in
          if ps_status ps \<noteq> None then Err (Recv_Connection PROTOCOL_ERROR)
          else
            rbind
              (case ps_authority ps of
                 Some a \<Rightarrow> (case authority_parse U a of Some a \<Rightarrow> Ok (Some a) | None \<Rightarrow> malformed i)
               | None \<Rightarrow> Ok None) (\<lambda>authority.
            rbind
              (case ps_scheme ps of
                 Some sch \<Rightarrow>
                   (if is_connect then malformed i
                    else
                      (case scheme_parse U sch of
                         None \<Rightarrow> malformed i
                       | Some sch \<Rightarrow> Ok (if authority \<noteq> None then Some sch else None)))
               | None \<Rightarrow> if \<not> is_connect then malformed i else Ok None) (\<lambda>scheme.
            rbind
              (case ps_path ps of
                 Some path \<Rightarrow>
                   (if is_connect then malformed i
                    else if path = [] then malformed i
                    else
                      (case path_parse U path of
                         Some path \<Rightarrow> Ok (Some path)
                       | None \<Rightarrow> malformed i))
               | None \<Rightarrow> Ok None) (\<lambda>path.
              let parts = \<lparr>uri_scheme = scheme, uri_authority = authority, uri_path_and_query = path\<rparr> in
              if uri_ok U parts
              then Ok \<lparr>rq_method = method, rq_uri = parts, rq_is_http2 = True, rq_fields = fs\<rparr>
              else malformed i))))"

section \<open>The client\<close>

definition client_convert_send_message ::
  "stream_id \<Rightarrow> 'm http_request \<Rightarrow> bool \<Rightarrow> ('m headers, send_error) result" where
  "client_convert_send_message i request end_of_stream =
     (let ps = pseudo_request (rq_method request) (rq_uri request) in
      rbind
        (if ps_scheme ps = None \<and> ps_authority ps = None then
           (if rq_is_http2 request then Err (Send_User MissingUriSchemeAndAuthority)
            else Ok (set_scheme (ascii ''http'') ps))
         else Ok ps) (\<lambda>ps.
        let frame = headers_new i ps (rq_fields request)
        in Ok (if end_of_stream then headers_set_end_stream frame else frame)))"

definition client_convert_poll_message ::
  "uri_lib \<Rightarrow> pseudo \<Rightarrow> 'm \<Rightarrow> stream_id \<Rightarrow> ('m http_response, recv_error) result" where
  "client_convert_poll_message U ps fs i =
     (let status = (case ps_status ps of Some s \<Rightarrow> s | None \<Rightarrow> ascii ''200'') in
      if uri_status_ok U status then Ok \<lparr>rs_status = status, rs_fields = fs\<rparr>
      else Err (Recv_Stream i PROTOCOL_ERROR))"

section \<open>What a client sends is what a server takes\<close>

text \<open>The scheme and the path that the client puts into its frame.\<close>

definition sent_scheme :: "'m http_request \<Rightarrow> bytes option" where
  "sent_scheme request =
     (case uri_scheme (rq_uri request) of
        Some sch \<Rightarrow> Some sch
      | None \<Rightarrow> if uri_authority (rq_uri request) = None \<and> \<not> rq_is_http2 request then Some (ascii ''http'') else None)"

definition sent_path :: "'m http_request \<Rightarrow> bytes" where
  "sent_path request =
     (let p = (case uri_path_and_query (rq_uri request) of Some p \<Rightarrow> p | None \<Rightarrow> [])
      in if p = [] \<and> rq_method request \<noteq> ascii ''OPTIONS'' then ascii ''/'' else p)"


lemma client_frame:
  assumes "client_convert_send_message i request eos = Ok frame"
  shows "hb_pseudo (h_block frame) = \<lparr>ps_method = Some (rq_method request), ps_scheme = sent_scheme request,
      ps_authority = uri_authority (rq_uri request), ps_path = Some (sent_path request), ps_status = None\<rparr>"
    "hb_fields (h_block frame) = rq_fields request" "h_stream_id frame = i"
  using assms
  by (auto simp: client_convert_send_message_def Let_def pseudo_request_def set_scheme_def set_authority_def headers_new_def
      headers_set_end_stream_def rbind_eq_Ok sent_scheme_def sent_path_def split: if_splits option.splits)


definition http_1_libs :: uri_lib where
  "http_1_libs = \<lparr>authority_parse = (\<lambda>a. if a \<noteq> [] then Some a else None),
     scheme_parse = (\<lambda>s. if s = ascii ''http'' then Some s else None),
     path_parse = (\<lambda>p. if p \<noteq> [] then Some (takeWhile (\<lambda>c. c \<noteq> 35) p) else None),
     uri_ok = (\<lambda>_. True), uri_status_ok = (\<lambda>_. True)\<rparr>"

definition example_request :: "field_list http_request" where
  "example_request = \<lparr>rq_method = ascii ''GET'', rq_uri = \<lparr>uri_scheme = Some (ascii ''http''),
     uri_authority = Some (ascii ''a''), uri_path_and_query = Some (ascii ''/b'')\<rparr>, rq_is_http2 = True, rq_fields = []\<rparr>"

lemma example_sends: "\<exists>frame. client_convert_send_message (StreamId 1) (example_request\<lparr>rq_uri := u, rq_method := m\<rparr>) True = Ok frame"
  if "uri_authority u \<noteq> None"
  using that by (auto simp: client_convert_send_message_def example_request_def pseudo_request_def set_scheme_def
      set_authority_def Let_def split: option.split)


text \<open>
  C38. \<open>CONNECT\<close> does not work between the two: RFC 7540 wants it without a path,
  but the client gives every request one, and the server refuses a \<open>CONNECT\<close> that has a path (or a scheme).
\<close>

theorem connect_is_refused:
  assumes sent: "client_convert_send_message i request eos = Ok frame" and connect: "rq_method request = ascii ''CONNECT''"
  shows "server_convert_poll_message U (hb_pseudo (h_block frame)) fs i = Err (Recv_Stream i PROTOCOL_ERROR)"
  unfolding client_frame [OF sent] using connect
  by (auto simp: server_convert_poll_message_def malformed_def Let_def split: option.splits)

theorem connect_is_refused_witness:
  "\<exists>frame. client_convert_send_message (StreamId 1) (example_request\<lparr>rq_method := ascii ''CONNECT''\<rparr>) True = Ok frame
    \<and> server_convert_poll_message http_1_libs (hb_pseudo (h_block frame)) [] (StreamId 1)
      = Err (Recv_Stream (StreamId 1) PROTOCOL_ERROR)"
proof -
  obtain frame where sent:
    "client_convert_send_message (StreamId 1) (example_request\<lparr>rq_method := ascii ''CONNECT''\<rparr>) True = Ok frame"
    using example_sends [of "rq_uri example_request" "ascii ''CONNECT''"] by (auto simp: example_request_def)
  with connect_is_refused [OF sent, of http_1_libs "[]"] show ?thesis by (simp add: example_request_def)
qed

end
