(* ===== verification/Stream_Recv.thy ===== *)
theory Stream_Recv
  imports Stream_Send Peer_Messages
begin

text \<open>
  The receiving half of the streams (\<open>streams/recv.rs\<close>): frames of the peer become events of a stream,
  the windows the peer may use are counted down and announced again when the application has released
  what it has read. The state adds \<open>Recv\<close> and the rest of \<open>Inner\<close> and \<open>Actions\<close>
  (\<open>streams/streams.rs\<close>) to the state of the sending half.
\<close>

section \<open>The state\<close>

datatype 'm event = Event_Headers "'m poll_message" | Event_Data bytes | Event_Trailers 'm

record 'm recv =
  rv_init_window_sz :: u32
  rv_flow :: flow_control
  rv_in_flight_data :: u32
  rv_next_stream_id :: "(stream_id, stream_id_overflow) result"
  last_processed_id :: stream_id
  rv_max_stream_id :: stream_id
  pending_window_updates :: queue
  pending_accept :: queue
  pending_reset_expired :: queue
  reset_duration :: nat
  rv_buffer :: "'m event buffer"
  refused :: "stream_id option"
  is_push_enabled_here :: bool

record 'm streams_world = "(bytes, 'm) payload_frame send_world" +
  ss_recv :: "'m recv"
  ss_conn_error :: "proto_error option"
  ss_refs :: nat

definition recv_new :: "peer_dyn \<Rightarrow> config \<Rightarrow> nat list \<Rightarrow> ('m recv, 'e) result" where
  "recv_new p c wishes =
     (case inc_window DEFAULT_INITIAL_WINDOW_SIZE flow_new of
        Ok fl \<Rightarrow>
          Ok \<lparr>rv_init_window_sz = local_init_window_sz c,
              rv_flow = flow_assign_capacity DEFAULT_INITIAL_WINDOW_SIZE fl,
              rv_in_flight_data = 0, rv_next_stream_id = Ok (StreamId (if peer_is_server p then 1 else 2)),
              last_processed_id = stream_id_ZERO, rv_max_stream_id = stream_id_MAX,
              pending_window_updates = None, pending_accept = None, pending_reset_expired = None,
              reset_duration = local_reset_duration c, rv_buffer = slab_new wishes, refused = None,
              is_push_enabled_here = local_push_enabled c\<rparr>
      | _ \<Rightarrow> Panic)"

definition world_recv :: "(('m, 'y) streams_world_scheme, 'm recv, 'e) op" where
  "world_recv w = (Ok (ss_recv w), w)"

definition modify_recv :: "('m recv \<Rightarrow> 'm recv) \<Rightarrow> (('m, 'y) streams_world_scheme, unit, 'e) op" where
  "modify_recv f w = (Ok (), w\<lparr>ss_recv := f (ss_recv w)\<rparr>)"

text \<open>The deque of events of a stream, in the buffer of \<open>Recv\<close>.\<close>

definition on_pending_recv ::
  "key \<Rightarrow> (deque \<times> 'm event buffer \<Rightarrow> ('a \<times> deque \<times> 'm event buffer, 'e) result) \<Rightarrow> (('m, 'y) streams_world_scheme, 'a, 'e) op" where
  "on_pending_recv k f =
     sbind (stream_at k) (\<lambda>s.
     sbind world_recv (\<lambda>r w.
       case f (pending_recv s, rv_buffer r) of
         Ok (x, d, b) \<Rightarrow>
           sbind (modify_stream k (\<lambda>s. s\<lparr>pending_recv := d\<rparr>)) (\<lambda>_. sret x) (w\<lparr>ss_recv := r\<lparr>rv_buffer := b\<rparr>\<rparr>)
       | Err e \<Rightarrow> (Err e, w)
       | Panic \<Rightarrow> (Panic, w)))"

definition event_push_back :: "key \<Rightarrow> 'm event \<Rightarrow> (('m, 'y) streams_world_scheme, unit, 'e) op" where
  "event_push_back k ev = on_pending_recv k (\<lambda>db. map_ok (\<lambda>(d, b). ((), d, b)) (deque_push_back ev db))"

definition event_push_front :: "key \<Rightarrow> 'm event \<Rightarrow> (('m, 'y) streams_world_scheme, unit, 'e) op" where
  "event_push_front k ev = on_pending_recv k (\<lambda>db. map_ok (\<lambda>(d, b). ((), d, b)) (deque_push_front ev db))"

definition event_pop_front :: "key \<Rightarrow> (('m, 'y) streams_world_scheme, 'm event option, 'e) op" where
  "event_pop_front k = on_pending_recv k deque_pop_front"

text \<open>The three queues of \<open>Recv\<close>; entering the queue of expiring resets reads the clock.\<close>

datatype recv_queue = Q_Window_Updates | Q_Accept | Q_Expire instant

fun recv_queue_next :: "recv_queue \<Rightarrow> next_ops" where
  "recv_queue_next Q_Window_Updates = NextWindowUpdate"
| "recv_queue_next Q_Accept = NextAccept"
| "recv_queue_next (Q_Expire now) = NextResetExpire now"

fun get_recv_queue :: "recv_queue \<Rightarrow> 'm recv \<Rightarrow> queue" where
  "get_recv_queue Q_Window_Updates = pending_window_updates"
| "get_recv_queue Q_Accept = pending_accept"
| "get_recv_queue (Q_Expire _) = pending_reset_expired"

fun put_recv_queue :: "recv_queue \<Rightarrow> queue \<Rightarrow> 'm recv \<Rightarrow> 'm recv" where
  "put_recv_queue Q_Window_Updates q r = r\<lparr>pending_window_updates := q\<rparr>"
| "put_recv_queue Q_Accept q r = r\<lparr>pending_accept := q\<rparr>"
| "put_recv_queue (Q_Expire _) q r = r\<lparr>pending_reset_expired := q\<rparr>"

definition recv_push_queue :: "recv_queue \<Rightarrow> key \<Rightarrow> (('m, 'y) streams_world_scheme, unit, 'e) op" where
  "recv_push_queue n k w =
     (case queue_push (recv_queue_next n) k (get_recv_queue n (ss_recv w), ss_store w) of
        Ok (_, q, st) \<Rightarrow> (Ok (), w\<lparr>ss_recv := put_recv_queue n q (ss_recv w), ss_store := st\<rparr>)
      | Err e \<Rightarrow> (Err e, w)
      | Panic \<Rightarrow> (Panic, w))"

definition recv_pop_queue :: "recv_queue \<Rightarrow> (('m, 'y) streams_world_scheme, key option, 'e) op" where
  "recv_pop_queue n w =
     (case queue_pop (recv_queue_next n) (get_recv_queue n (ss_recv w), ss_store w) of
        Ok (k, q, st) \<Rightarrow> (Ok k, w\<lparr>ss_recv := put_recv_queue n q (ss_recv w), ss_store := st\<rparr>)
      | Err e \<Rightarrow> (Err e, w)
      | Panic \<Rightarrow> (Panic, w))"

section \<open>Streams of the peer\<close>

definition recv_next_stream_id :: "'m recv \<Rightarrow> (stream_id, recv_error) result" where
  "recv_next_stream_id r =
     (case rv_next_stream_id r of Ok i \<Rightarrow> Ok i | _ \<Rightarrow> Err (Recv_Connection PROTOCOL_ERROR))"

definition recv_may_have_created_stream :: "stream_id \<Rightarrow> 'm recv \<Rightarrow> bool" where
  "recv_may_have_created_stream i r = (case rv_next_stream_id r of Ok next \<Rightarrow> i < next | _ \<Rightarrow> True)"

definition recv_ensure_not_idle :: "stream_id \<Rightarrow> 'm recv \<Rightarrow> (unit, reason) result" where
  "recv_ensure_not_idle i r =
     (case rv_next_stream_id r of
        Ok next \<Rightarrow> (if i \<ge> next then Err PROTOCOL_ERROR else Ok ())
      | _ \<Rightarrow> Ok ())"

definition ensure_can_reserve :: "'m recv \<Rightarrow> (unit, recv_error) result" where
  "ensure_can_reserve r = (if \<not> is_push_enabled_here r then Err (Recv_Connection PROTOCOL_ERROR) else Ok ())"

definition recv_open :: "stream_id \<Rightarrow> open_mode \<Rightarrow> (('m, 'y) streams_world_scheme, stream_id option, recv_error) op" where
  "recv_open i mode =
     sbind world_recv (\<lambda>r.
     sbind (assert_op (refused r = None)) (\<lambda>_.
     sbind world_counts (\<lambda>c.
     sbind (slift (ensure_can_open i mode (peer c))) (\<lambda>_.
     sbind (slift (recv_next_stream_id r)) (\<lambda>next.
       if i < next then sfail (Recv_Connection PROTOCOL_ERROR)
       else
         sbind (modify_recv (\<lambda>r. r\<lparr>rv_next_stream_id := next_id i\<rparr>)) (\<lambda>_.
           if \<not> can_inc_num_recv_streams c then
             sbind (modify_recv (\<lambda>r. r\<lparr>refused := Some i\<rparr>)) (\<lambda>_. sret None)
           else sret (Some i)))))))"

definition recv_go_away_sent :: "stream_id \<Rightarrow> (('m, 'y) streams_world_scheme, unit, 'e) op" where
  "recv_go_away_sent last_processed =
     sbind world_recv (\<lambda>r.
     sbind (assert_op (rv_max_stream_id r \<ge> last_processed)) (\<lambda>_.
       modify_recv (\<lambda>r. r\<lparr>rv_max_stream_id := last_processed\<rparr>)))"

section \<open>Headers\<close>

datatype 'm header_block_error = Oversize "'m headers option" | Block_State recv_error

definition recv_headers ::
  "'m header_map_lib \<Rightarrow> uri_lib \<Rightarrow> 'm headers \<Rightarrow> key \<Rightarrow> (('m, 'y) streams_world_scheme, unit, 'm header_block_error) op" where
  "recv_headers H U frame k =
     sbind (stream_at k) (\<lambda>s.
     sbind (slift (map_err Block_State (state_recv_open (headers_is_end_stream frame) (st_state s)))) (\<lambda>(is_initial, st).
     sbind (modify_stream k (\<lambda>s. s\<lparr>st_state := st\<rparr>)) (\<lambda>_.
     sbind
       (if is_initial then
          sbind (modify_recv (\<lambda>r. if h_stream_id frame > last_processed_id r
              then r\<lparr>last_processed_id := h_stream_id frame\<rparr> else r)) (\<lambda>_.
            inc_num_recv_streams k)
        else sret ()) (\<lambda>_.
     sbind
       (if \<not> is_head_method (st_content_length s) then
          (case first_value H (ascii ''content-length'') (hb_fields (h_block frame)) of
             Some v \<Rightarrow>
               (case parse_u64 v of
                  Ok n \<Rightarrow> modify_stream k (\<lambda>s. s\<lparr>st_content_length := Remaining n\<rparr>)
                | _ \<Rightarrow> sfail (Block_State (Recv_Stream (st_id s) PROTOCOL_ERROR)))
           | None \<Rightarrow> sret ())
        else sret ()) (\<lambda>_.
     sbind world_counts (\<lambda>c.
       if headers_is_over_size frame then
         (if peer_is_server (peer c) \<and> is_initial then
            sfail (Oversize (Some (headers_set_end_stream
              (headers_new (st_id s) (pseudo_response (ascii ''431'')) (hm_new H)))))
          else sfail (Oversize None))
       else
         sbind (slift (map_err Block_State
             (if peer_is_server (peer c) then
                map_ok Message_Server
                  (server_convert_poll_message U (hb_pseudo (h_block frame)) (hb_fields (h_block frame)) (h_stream_id frame))
              else
                map_ok Message_Client
                  (client_convert_poll_message U (hb_pseudo (h_block frame)) (hb_fields (h_block frame)) (h_stream_id frame)))))
           (\<lambda>message.
         sbind (event_push_back k (Event_Headers message)) (\<lambda>_.
         sbind (waking_stream k notify_recv) (\<lambda>_.
           if peer_is_server (peer c) then recv_push_queue Q_Accept k else sret ())))))))))"

definition recv_trailers :: "'m headers \<Rightarrow> key \<Rightarrow> (('m, 'y) streams_world_scheme, unit, recv_error) op" where
  "recv_trailers frame k =
     sbind (try_stream k (\<lambda>s. map_ok (\<lambda>st. s\<lparr>st_state := st\<rparr>) (state_recv_close (st_state s)))) (\<lambda>_.
     sbind (stream_at k) (\<lambda>s.
       if ensure_content_length_zero s \<noteq> Ok () then sfail (Recv_Stream (st_id s) PROTOCOL_ERROR)
       else
         sbind (event_push_back k (Event_Trailers (hb_fields (h_block frame)))) (\<lambda>_.
           waking_stream k notify_recv)))"

definition recv_push_promise ::
  "'m header_map_lib \<Rightarrow> uri_lib \<Rightarrow> 'm push_promise \<Rightarrow> key \<Rightarrow> (('m, 'y) streams_world_scheme, unit, recv_error) op" where
  "recv_push_promise H U frame k =
     sbind (try_stream k (\<lambda>s. map_ok (\<lambda>st. s\<lparr>st_state := st\<rparr>) (state_reserve_remote (st_state s)))) (\<lambda>_.
       if hb_is_over_size (pp_block frame) then sfail (Recv_Stream (pp_promised_id frame) REFUSED_STREAM)
       else
         sbind (slift (server_convert_poll_message U (hb_pseudo (pp_block frame)) (hb_fields (pp_block frame))
             (pp_promised_id frame))) (\<lambda>req.
           case validate_request (rq_method req) (first_value H (ascii ''content-length'') (rq_fields req)) of
             Ok _ \<Rightarrow>
               sbind (event_push_back k (Event_Headers (Message_Server req))) (\<lambda>_. waking_stream k notify_recv)
           | _ \<Rightarrow> sfail (Recv_Stream (pp_promised_id frame) PROTOCOL_ERROR)))"

section \<open>Data and windows\<close>

text \<open>The flag says whether the code passes the task of the connection or \<open>None\<close>.\<close>

definition release_connection_capacity :: "u32 \<Rightarrow> bool \<Rightarrow> (('m, 'y) streams_world_scheme, unit, 'e) op" where
  "release_connection_capacity capacity with_task =
     sbind (modify_recv (\<lambda>r. r\<lparr>rv_in_flight_data := rv_in_flight_data r - capacity,
         rv_flow := flow_assign_capacity capacity (rv_flow r)\<rparr>)) (\<lambda>_.
     sbind world_recv (\<lambda>r.
       if unclaimed_capacity (rv_flow r) \<noteq> None \<and> with_task then wake_task else sret ()))"

definition release_capacity :: "u32 \<Rightarrow> key \<Rightarrow> (('m, 'y) streams_world_scheme, unit, user_error) op" where
  "release_capacity capacity k =
     sbind (stream_at k) (\<lambda>s.
       if capacity > in_flight_recv_data s then sfail ReleaseCapacityTooBig
       else
         sbind (release_connection_capacity capacity True) (\<lambda>_.
         sbind (modify_stream k (\<lambda>s. s\<lparr>in_flight_recv_data := in_flight_recv_data s - capacity,
             recv_flow := flow_assign_capacity capacity (recv_flow s)\<rparr>)) (\<lambda>_.
         sbind (stream_at k) (\<lambda>s.
           if unclaimed_capacity (recv_flow s) \<noteq> None then
             sbind (recv_push_queue Q_Window_Updates k) (\<lambda>_. wake_task)
           else sret ()))))"

lemma event_pop_front_less:
  assumes "event_pop_front k w = (Ok (Some ev), w')"
  shows "slab_sum (\<lambda>_. 1 :: nat) (rv_buffer (ss_recv w')) < slab_sum (\<lambda>_. 1) (rv_buffer (ss_recv w))"
proof -
  obtain s d b where s: "store_get (ss_store w) k = Some s"
    and pop: "deque_pop_front (pending_recv s, rv_buffer (ss_recv w)) = (Ok (Some ev, d, b) :: (_, 'b) result)"
    and b: "rv_buffer (ss_recv w') = b"
    using assms by (auto simp: event_pop_front_def on_pending_recv_def sbind_eq_Ok stream_at_def store_index_def
        world_recv_def modify_stream_def store_modify_def sbind_def split: option.splits result.splits prod.splits)
  then obtain i v where "slab_get (rv_buffer (ss_recv w)) i = Some v" "b = slab_set i None (rv_buffer (ss_recv w))"
    by (auto simp: deque_pop_front_def slab_remove_def rbind_eq_Ok
        split: option.splits indices.splits if_splits)
  with b show ?thesis using slab_sum_delete [of "rv_buffer (ss_recv w)" i v "\<lambda>_. 1 :: nat"] by simp
qed

function clear_recv_buffer ::
  "key \<Rightarrow> ('m, 'y) streams_world_scheme \<Rightarrow> (unit, 'e) result \<times> ('m, 'y) streams_world_scheme" where
  "clear_recv_buffer k w =
     (case event_pop_front k w of
        (Ok (Some _), w) \<Rightarrow> clear_recv_buffer k w
      | (Ok None, w) \<Rightarrow> (Ok (), w)
      | (Err e, w) \<Rightarrow> (Err e, w)
      | (Panic, w) \<Rightarrow> (Panic, w))"
  by pat_completeness auto

termination
  by (relation "measure (\<lambda>(k, w). slab_sum (\<lambda>_. 1) (rv_buffer (ss_recv w)))") (auto dest: event_pop_front_less [OF sym])

declare clear_recv_buffer.simps [simp del]

definition release_closed_capacity :: "key \<Rightarrow> (('m, 'y) streams_world_scheme, unit, 'e) op" where
  "release_closed_capacity k =
     sbind (stream_at k) (\<lambda>s.
       if in_flight_recv_data s = 0 then sret ()
       else
         sbind (release_connection_capacity (in_flight_recv_data s) True) (\<lambda>_.
         sbind (modify_stream k (\<lambda>s. s\<lparr>in_flight_recv_data := 0\<rparr>)) (\<lambda>_ w. clear_recv_buffer k w)))"

definition set_target_connection_window :: "u32 \<Rightarrow> (('m, 'y) streams_world_scheme, unit, 'e) op" where
  "set_target_connection_window target =
     sbind world_recv (\<lambda>r.
     sbind (slift (window_checked_size (fc_available (rv_flow r) + rv_in_flight_data r))) (\<lambda>current.
     sbind
       (if target > current then modify_recv (\<lambda>r. r\<lparr>rv_flow := flow_assign_capacity (target - current) (rv_flow r)\<rparr>)
        else modify_recv (\<lambda>r. r\<lparr>rv_flow := claim_capacity (current - target) (rv_flow r)\<rparr>)) (\<lambda>_.
     sbind world_recv (\<lambda>r.
       if unclaimed_capacity (rv_flow r) \<noteq> None then wake_task else sret ()))))"

definition apply_local_settings :: "settings \<Rightarrow> (('m, 'y) streams_world_scheme, unit, recv_error) op" where
  "apply_local_settings f =
     (case initial_window_size f of
        None \<Rightarrow> sret ()
      | Some target \<Rightarrow>
          sbind world_recv (\<lambda>r.
          let old_sz = rv_init_window_sz r in
          sbind (modify_recv (\<lambda>r. r\<lparr>rv_init_window_sz := target\<rparr>)) (\<lambda>_ w.
            if target < old_sz then
              store_for_each world_ids
                (\<lambda>k. modify_stream k (\<lambda>s. s\<lparr>recv_flow := dec_recv_window (old_sz - target) (recv_flow s)\<rparr>)) w
            else if target > old_sz then
              store_for_each world_ids
                (\<lambda>k. try_stream k (\<lambda>s.
                   rbind (map_err Recv_Connection (inc_window (target - old_sz) (recv_flow s))) (\<lambda>fl.
                     Ok (s\<lparr>recv_flow := flow_assign_capacity (target - old_sz) fl\<rparr>)))) w
            else (Ok (), w))))"

definition is_end_stream :: "stream \<Rightarrow> bool" where
  "is_end_stream s \<longleftrightarrow> is_recv_closed (st_state s) \<and> deque_is_empty (pending_recv s)"

definition consume_connection_window :: "u32 \<Rightarrow> (('m, 'y) streams_world_scheme, unit, recv_error) op" where
  "consume_connection_window sz =
     sbind world_recv (\<lambda>r.
       if flow_window_size (rv_flow r) < sz then sfail (Recv_Connection FLOW_CONTROL_ERROR)
       else
         sbind (slift (flow_send_data sz (rv_flow r))) (\<lambda>fl.
           modify_recv (\<lambda>r. r\<lparr>rv_flow := fl, rv_in_flight_data := rv_in_flight_data r + sz\<rparr>)))"

definition ignore_data :: "u32 \<Rightarrow> (('m, 'y) streams_world_scheme, unit, recv_error) op" where
  "ignore_data sz = sbind (consume_connection_window sz) (\<lambda>_. release_connection_capacity sz False)"

definition recv_data :: "bytes data_frame \<Rightarrow> key \<Rightarrow> (('m, 'y) streams_world_scheme, unit, recv_error) op" where
  "recv_data frame k =
     (let len = length (data_data frame); sz = word_of_nat len in
      sbind (assert_op (len \<le> unat MAX_WINDOW_SIZE)) (\<lambda>_.
      sbind (stream_at k) (\<lambda>s.
      let is_ignoring_frame = is_local_reset (st_state s) in
      if \<not> is_ignoring_frame \<and> \<not> is_recv_streaming (st_state s) then sfail (Recv_Connection PROTOCOL_ERROR)
      else if is_ignoring_frame then ignore_data sz
      else
        sbind (consume_connection_window sz) (\<lambda>_.
          if flow_window_size (recv_flow s) < sz then sfail (Recv_Stream (st_id s) FLOW_CONTROL_ERROR)
          else
            sbind (try_stream k (\<lambda>s. map_err (\<lambda>_. Recv_Stream (st_id s) PROTOCOL_ERROR) (dec_content_length len s))) (\<lambda>_.
            sbind (stream_at k) (\<lambda>s.
            sbind
              (if data_is_end_stream frame then
                 (if ensure_content_length_zero s \<noteq> Ok () then sfail (Recv_Stream (st_id s) PROTOCOL_ERROR)
                  else
                    try_stream k (\<lambda>s. map_err (\<lambda>_. Recv_Connection PROTOCOL_ERROR)
                      (map_ok (\<lambda>st. s\<lparr>st_state := st\<rparr>) (state_recv_close (st_state s)))))
               else sret ()) (\<lambda>_.
            sbind (try_stream k (\<lambda>s. map_ok (\<lambda>fl. s\<lparr>recv_flow := fl\<rparr>) (flow_send_data sz (recv_flow s)))) (\<lambda>_.
            sbind (modify_stream k (\<lambda>s. s\<lparr>in_flight_recv_data := in_flight_recv_data s + sz\<rparr>)) (\<lambda>_.
            sbind (event_push_back k (Event_Data (data_data frame))) (\<lambda>_.
              waking_stream k notify_recv)))))))))) "

section \<open>Errors and resets\<close>

text \<open>What a stream is told: both tasks are woken.\<close>

definition notify_both :: "key \<Rightarrow> (('f, 'z) world_scheme, unit, 'e) op" where
  "notify_both k = sbind (waking_stream k notify_send) (\<lambda>_. waking_stream k notify_recv)"

definition recv_reset :: "reason \<Rightarrow> key \<Rightarrow> (('f, 'z) world_scheme, unit, 'e) op" where
  "recv_reset reason k =
     sbind (modify_stream k (\<lambda>s. s\<lparr>st_state := state_recv_reset reason (is_pending_send s) (st_state s)\<rparr>)) (\<lambda>_.
       notify_both k)"

definition recv_recv_err :: "proto_error \<Rightarrow> key \<Rightarrow> (('f, 'z) world_scheme, unit, 'e) op" where
  "recv_recv_err err k =
     sbind (modify_stream k (\<lambda>s. s\<lparr>st_state := state_recv_err err (st_state s)\<rparr>)) (\<lambda>_. notify_both k)"

definition recv_recv_eof :: "key \<Rightarrow> (('f, 'z) world_scheme, unit, 'e) op" where
  "recv_recv_eof k =
     sbind (modify_stream k (\<lambda>s. s\<lparr>st_state := state_recv_eof (st_state s)\<rparr>)) (\<lambda>_. notify_both k)"

text \<open>The time is read when the stream enters the queue.\<close>

definition enqueue_reset_expiration :: "instant \<Rightarrow> key \<Rightarrow> (('m, 'y) streams_world_scheme, unit, 'e) op" where
  "enqueue_reset_expiration now k =
     sbind (stream_at k) (\<lambda>s.
       if \<not> is_local_reset (st_state s) \<or> is_pending_reset_expiration s then sret ()
       else
         sbind world_counts (\<lambda>c.
         sbind
           (if \<not> can_inc_num_reset_streams c then
              sbind (recv_pop_queue (Q_Expire now)) (\<lambda>evicted.
                case evicted of
                  Some j \<Rightarrow> transition_after j True
                | None \<Rightarrow> sret ())
            else sret ()) (\<lambda>_.
         sbind world_counts (\<lambda>c.
           if can_inc_num_reset_streams c then
             sbind inc_num_reset_streams (\<lambda>_. recv_push_queue (Q_Expire now) k)
           else sret ()))))"

section \<open>The loops over the queues\<close>

definition recv_link_count :: "recv_queue \<Rightarrow> ('m, 'y) streams_world_scheme \<Rightarrow> nat" where
  "recv_link_count n w = links (recv_queue_next n) (ss_store w) + (if get_recv_queue n (ss_recv w) = None then 0 else 1)"

interpretation recv_next_fields: next_fields "recv_queue_next n" for n
  by unfold_locales (cases n; simp_all add: next_defs)+

lemma get_put_recv_queue [simp]: "get_recv_queue n (put_recv_queue n q r) = q"
  by (cases n) simp_all

lemma recv_pop_queue_links:
  "recv_pop_queue n w = (Ok (Some k), w') \<Longrightarrow> recv_link_count n w' < recv_link_count n w"
  using recv_next_fields.queue_pop_links
  by (fastforce simp: recv_pop_queue_def recv_link_count_def split: result.splits)

lemma fewer_links_recv:
  assumes "fewer_links (recv_queue_next n) w w'"
  shows "recv_link_count n w' \<le> recv_link_count n w"
proof -
  have "ss_recv w' = ss_recv w" using assms by (cases w; cases w') (simp add: fewer_links_def)
  with assms show ?thesis by (simp add: fewer_links_def recv_link_count_def)
qed

lemma recv_drain_round:
  assumes "(Ok (Some k), w1) = recv_pop_queue n w" "(Ok () :: (_, 'e) result, w2) = transition_after k b w1"
  shows "recv_link_count n w2 < recv_link_count n w"
  using recv_pop_queue_links [OF assms(1) [symmetric]]
    fewer_links_recv [OF stepsD [OF recv_next_fields.transition_after_links assms(2) [symmetric]]]
  by (rule order_le_less_trans [rotated])

text \<open>
  \<open>clear_all_reset_streams\<close> and \<open>clear_all_pending_accept\<close>; \<open>clear_stream_window_update_queue\<close> runs an empty
  transition, whose flag is that of the stream.
\<close>

function recv_clear_queue ::
  "recv_queue \<Rightarrow> (stream \<Rightarrow> bool) \<Rightarrow> ('m, 'y) streams_world_scheme \<Rightarrow> (unit, 'e) result \<times> ('m, 'y) streams_world_scheme" where
  "recv_clear_queue n flag w =
     (case recv_pop_queue n w of
        (Ok (Some k), w) \<Rightarrow>
          (case store_get (ss_store w) k of
             None \<Rightarrow> (Panic, w)
           | Some s \<Rightarrow>
               (case transition_after k (flag s) w of
                  (Ok _, w) \<Rightarrow> recv_clear_queue n flag w
                | r \<Rightarrow> r))
      | (Ok None, w) \<Rightarrow> (Ok (), w)
      | (Err e, w) \<Rightarrow> (Err e, w)
      | (Panic, w) \<Rightarrow> (Panic, w))"
  by pat_completeness auto

termination
  by (relation "measure (\<lambda>(n, flag, w). recv_link_count n w)") (auto dest!: recv_drain_round)

declare recv_clear_queue.simps [simp del]

definition clear_stream_window_update_queue :: "(('m, 'y) streams_world_scheme, unit, 'e) op" where
  "clear_stream_window_update_queue w = recv_clear_queue Q_Window_Updates is_pending_reset_expiration w"

definition clear_all_reset_streams :: "(('m, 'y) streams_world_scheme, unit, 'e) op" where
  "clear_all_reset_streams w = recv_clear_queue (Q_Expire 0) (\<lambda>_. True) w"

definition clear_all_pending_accept :: "(('m, 'y) streams_world_scheme, unit, 'e) op" where
  "clear_all_pending_accept w = recv_clear_queue Q_Accept (\<lambda>_. False) w"

definition recv_clear_queues :: "bool \<Rightarrow> (('m, 'y) streams_world_scheme, unit, 'e) op" where
  "recv_clear_queues clear_pending_accept =
     sbind clear_stream_window_update_queue (\<lambda>_.
     sbind clear_all_reset_streams (\<lambda>_.
       if clear_pending_accept then clear_all_pending_accept else sret ()))"

end
