(* ===== verification/Stream_Polls.thy ===== *)
theory Stream_Polls
  imports Stream_Recv
begin

text \<open>
  What the application takes out of the receiving half, the clock that forgets reset streams, and the
  part of the streams that writes to the codec: refusals, window updates and the frames of the
  prioritizer (\<open>streams/recv.rs\<close>, \<open>streams/prioritize.rs\<close>). The codec is given by its operations.
\<close>

section \<open>Events for the application\<close>

definition take_request :: "key \<Rightarrow> (('m, 'y) streams_world_scheme, 'm http_request, 'e) op" where
  "take_request k =
     sbind (event_pop_front k) (\<lambda>ev.
       case ev of
         Some (Event_Headers (Message_Server request)) \<Rightarrow> sret request
       | _ \<Rightarrow> spanic)"

text \<open>The answer of a poll for an item; \<open>Ready None\<close> is the end.\<close>

definition schedule_recv :: "waker \<Rightarrow> key \<Rightarrow> (('m, 'y) streams_world_scheme, 'a option io_poll, proto_error) op" where
  "schedule_recv cx k =
     sbind (stream_at k) (\<lambda>s.
     sbind (slift (ensure_recv_open (st_state s))) (\<lambda>is_open.
       if is_open then sbind (modify_stream k (\<lambda>s. s\<lparr>recv_task := Some cx\<rparr>)) (\<lambda>_. sret Pending)
       else sret (Ready None)))"

definition poll_pushed ::
  "waker \<Rightarrow> key \<Rightarrow> (('m, 'y) streams_world_scheme, ('m http_request \<times> key) option io_poll, proto_error) op" where
  "poll_pushed cx k =
     sbind (stream_at k) (\<lambda>s w.
       case queue_pop NextAccept (pending_push_promises s, store_put k (s\<lparr>pending_push_promises := None\<rparr>) (ss_store w)) of
         Ok (popped, q, st) \<Rightarrow>
           sbind
             (case popped of
                Some j \<Rightarrow>
                  sbind (event_pop_front j) (\<lambda>ev.
                    case ev of
                      Some (Event_Headers (Message_Server headers)) \<Rightarrow> sret (Some (headers, j))
                    | _ \<Rightarrow> spanic)
              | None \<Rightarrow> sret None) (\<lambda>res.
           sbind (modify_stream k (\<lambda>s. s\<lparr>pending_push_promises := q\<rparr>)) (\<lambda>_.
             case res of
               Some p \<Rightarrow> sret (Ready (Some p))
             | None \<Rightarrow> schedule_recv cx k)) (w\<lparr>ss_store := st\<rparr>)
       | Err e \<Rightarrow> (Err e, w)
       | Panic \<Rightarrow> (Panic, w))"

definition poll_response :: "waker \<Rightarrow> key \<Rightarrow> (('m, 'y) streams_world_scheme, 'm http_response io_poll, proto_error) op" where
  "poll_response cx k =
     sbind (event_pop_front k) (\<lambda>ev.
       case ev of
         Some (Event_Headers (Message_Client response)) \<Rightarrow> sret (Ready response)
       | Some _ \<Rightarrow> spanic
       | None \<Rightarrow>
           sbind (stream_at k) (\<lambda>s.
           sbind (slift (ensure_recv_open (st_state s))) (\<lambda>_.
           sbind (modify_stream k (\<lambda>s. s\<lparr>recv_task := Some cx\<rparr>)) (\<lambda>_. sret Pending))))"

definition poll_data :: "waker \<Rightarrow> key \<Rightarrow> (('m, 'y) streams_world_scheme, bytes option io_poll, proto_error) op" where
  "poll_data cx k =
     sbind (event_pop_front k) (\<lambda>ev.
       case ev of
         Some (Event_Data payload) \<Rightarrow> sret (Ready (Some payload))
       | Some ev \<Rightarrow>
           sbind (event_push_front k ev) (\<lambda>_.
           sbind (waking_stream k notify_recv) (\<lambda>_. sret (Ready None)))
       | None \<Rightarrow> schedule_recv cx k)"

definition poll_trailers :: "waker \<Rightarrow> key \<Rightarrow> (('m, 'y) streams_world_scheme, 'm option io_poll, proto_error) op" where
  "poll_trailers cx k =
     sbind (event_pop_front k) (\<lambda>ev.
       case ev of
         Some (Event_Trailers trailers) \<Rightarrow> sret (Ready (Some trailers))
       | Some ev \<Rightarrow> sbind (event_push_front k ev) (\<lambda>_. sret Pending)
       | None \<Rightarrow> schedule_recv cx k)"

definition next_incoming :: "(('m, 'y) streams_world_scheme, key option, 'e) op" where
  "next_incoming = recv_pop_queue Q_Accept"

section \<open>Reset streams that have been kept long enough\<close>

text \<open>\<open>expect\<close>: a stream in this queue knows when it was reset.\<close>

definition reset_at_missing :: "('m, 'y) streams_world_scheme \<Rightarrow> bool" where
  "reset_at_missing w =
     (case pending_reset_expired (ss_recv w) of
        Some (Indices head _) \<Rightarrow>
          (case store_get (ss_store w) head of Some s \<Rightarrow> reset_at s = None | None \<Rightarrow> False)
      | None \<Rightarrow> False)"

definition pop_expired :: "instant \<Rightarrow> (('m, 'y) streams_world_scheme, key option, 'e) op" where
  "pop_expired now w =
     (if reset_at_missing w then (Panic, w)
      else case queue_pop_if (NextResetExpire now)
        (\<lambda>s. case reset_at s of Some at \<Rightarrow> now - at > reset_duration (ss_recv w) | None \<Rightarrow> False)
        (pending_reset_expired (ss_recv w), ss_store w) of
        Ok (k, q, st) \<Rightarrow> (Ok k, w\<lparr>ss_recv := (ss_recv w)\<lparr>pending_reset_expired := q\<rparr>, ss_store := st\<rparr>)
      | Err e \<Rightarrow> (Err e, w)
      | Panic \<Rightarrow> (Panic, w))"

lemma queue_pop_if_Some:
  assumes "queue_pop_if N f (q, st) = (Ok (Some k, q', st') :: (_, 'e) result)"
  shows "queue_pop N (q, st) = (Ok (Some k, q', st') :: (_, 'e) result)"
proof -
  obtain h t where "q = Some (Indices h t)"
    using assms by (auto simp: queue_pop_if_def split: option.splits indices.splits)
  with assms show ?thesis by (auto simp: queue_pop_if_def rbind_eq_Ok split: if_splits)
qed

lemma pop_expired_links:
  assumes "(Ok (Some k) :: (_, 'e) result, w1) = pop_expired now w"
  shows "recv_link_count (Q_Expire now) w1 < recv_link_count (Q_Expire now) w"
proof -
  obtain q st where pop: "queue_pop (NextResetExpire now) (pending_reset_expired (ss_recv w), ss_store w)
      = (Ok (Some k, q, st) :: (_, 'e) result)"
    and w1: "w1 = w\<lparr>ss_recv := (ss_recv w)\<lparr>pending_reset_expired := q\<rparr>, ss_store := st\<rparr>"
    using assms by (auto simp: pop_expired_def split: result.splits if_splits dest: queue_pop_if_Some)
  from recv_next_fields.queue_pop_links [of "Q_Expire now"] pop show ?thesis
    by (fastforce simp: w1 recv_link_count_def)
qed

lemma expired_round:
  assumes "(Ok (Some k), w1) = pop_expired now w" "(Ok () :: (_, 'e) result, w2) = transition_after k b w1"
  shows "recv_link_count (Q_Expire now) w2 < recv_link_count (Q_Expire now) w"
  using pop_expired_links [OF assms(1)]
    fewer_links_recv [OF stepsD [OF recv_next_fields.transition_after_links assms(2) [symmetric]]]
  by (rule order_le_less_trans [rotated])

function clear_expired_reset_streams ::
  "instant \<Rightarrow> ('m, 'y) streams_world_scheme \<Rightarrow> (unit, 'e) result \<times> ('m, 'y) streams_world_scheme" where
  "clear_expired_reset_streams now w =
     (case pop_expired now w of
        (Ok (Some k), w) \<Rightarrow>
          (case transition_after k True w of
             (Ok _, w) \<Rightarrow> clear_expired_reset_streams now w
           | r \<Rightarrow> r)
      | (Ok None, w) \<Rightarrow> (Ok (), w)
      | (Err e, w) \<Rightarrow> (Err e, w)
      | (Panic, w) \<Rightarrow> (Panic, w))"
  by pat_completeness auto

termination
  by (relation "measure (\<lambda>(now, w). recv_link_count (Q_Expire now) w)") (auto dest!: expired_round)

declare clear_expired_reset_streams.simps [simp del]

section \<open>The codec\<close>

record ('c, 'm) codec_ops =
  co_poll_ready :: "('c, unit io_poll, io_error) op"
  co_flush :: "('c, unit io_poll, io_error) op"
  co_buffer :: "(prioritized, 'm) payload_frame \<Rightarrow> ('c, unit, user_error) op"
  co_max_send_frame_size :: "'c \<Rightarrow> nat"
  co_take_last_data_frame :: "'c \<Rightarrow> prioritized data_frame option \<times> 'c"

record ('m, 'c) wired_world = "'m streams_world" +
  ss_codec :: 'c

definition on_codec :: "('c, 'a, 'e) op \<Rightarrow> (('m, 'c, 'y) wired_world_scheme, 'a, 'e) op" where
  "on_codec m w = (case m (ss_codec w) of (r, c) \<Rightarrow> (r, w\<lparr>ss_codec := c\<rparr>))"

text \<open>\<open>ready!(m)?\<close> followed by the rest.\<close>

definition sready :: "('s, unit io_poll, 'e) op \<Rightarrow> ('s, 'a io_poll, 'e) op \<Rightarrow> ('s, 'a io_poll, 'e) op" where
  "sready m m' = sbind m (\<lambda>p. case p of Pending \<Rightarrow> sret Pending | Ready _ \<Rightarrow> m')"

text \<open>\<open>dst.buffer(frame).expect(..)\<close>\<close>

definition buffer_expect :: "('c, 'm) codec_ops \<Rightarrow> (prioritized, 'm) payload_frame \<Rightarrow> (('m, 'c, 'y) wired_world_scheme, unit, 'e) op" where
  "buffer_expect C f w =
     (case on_codec (co_buffer C f) w of
        (Ok _, w) \<Rightarrow> (Ok (), w)
      | (_, w) \<Rightarrow> (Panic, w))"

section \<open>What the receiving half writes\<close>

definition send_pending_refusal :: "('c, 'm) codec_ops \<Rightarrow> (('m, 'c, 'y) wired_world_scheme, unit io_poll, io_error) op" where
  "send_pending_refusal C =
     sbind world_recv (\<lambda>r.
     let finish = sbind (modify_recv (\<lambda>r. r\<lparr>refused := None\<rparr>)) (\<lambda>_. sret (Ready ())) in
       case refused r of
         Some i \<Rightarrow>
           sready (on_codec (co_poll_ready C))
             (sbind (buffer_expect C (FReset (reset_new i REFUSED_STREAM))) (\<lambda>_. finish))
       | None \<Rightarrow> finish)"

definition send_connection_window_update ::
  "('c, 'm) codec_ops \<Rightarrow> (('m, 'c, 'y) wired_world_scheme, unit io_poll, io_error) op" where
  "send_connection_window_update C =
     sbind world_recv (\<lambda>r.
       case unclaimed_capacity (rv_flow r) of
         Some incr \<Rightarrow>
           sready (on_codec (co_poll_ready C))
             (sbind (buffer_expect C (FWindowUpdate (window_update_new stream_id_ZERO incr))) (\<lambda>_.
              case inc_window incr (rv_flow r) of
                Ok fl \<Rightarrow> sbind (modify_recv (\<lambda>r. r\<lparr>rv_flow := fl\<rparr>)) (\<lambda>_. sret (Ready ()))
              | _ \<Rightarrow> spanic))
       | None \<Rightarrow> sret (Ready ()))"

definition announce_stream_window :: "('c, 'm) codec_ops \<Rightarrow> key \<Rightarrow> (('m, 'c, 'y) wired_world_scheme, unit, 'e) op" where
  "announce_stream_window C k =
     sbind (stream_at k) (\<lambda>s.
       if \<not> is_recv_streaming (st_state s) then sret ()
       else
         (case unclaimed_capacity (recv_flow s) of
            Some incr \<Rightarrow>
              sbind (buffer_expect C (FWindowUpdate (window_update_new (st_id s) incr))) (\<lambda>_.
              case inc_window incr (recv_flow s) of
                Ok fl \<Rightarrow> modify_stream k (\<lambda>s. s\<lparr>recv_flow := fl\<rparr>)
              | _ \<Rightarrow> spanic)
          | None \<Rightarrow> sret ()))"

definition window_links :: "('m, 'c, 'y) wired_world_scheme \<Rightarrow> ('m, 'c, 'y) wired_world_scheme \<Rightarrow> bool" where
  "window_links w w' \<longleftrightarrow> recv_link_count Q_Window_Updates w' \<le> recv_link_count Q_Window_Updates w"

lemma window_links_order [simp]: "reflp window_links" "transp window_links"
  by (auto simp: window_links_def intro!: reflpI transpI)

lemma on_codec_links: "steps window_links (on_codec m)"
  by (auto simp: steps_def on_codec_def window_links_def recv_link_count_def split: prod.splits)

lemma buffer_expect_links: "steps window_links (buffer_expect C f)"
proof (rule stepsI)
  fix w r w' assume run: "buffer_expect C f w = (r, w')"
  obtain r1 w1 where "on_codec (co_buffer C f) w = (r1, w1)" by fastforce
  with run stepsD [OF on_codec_links this] show "window_links w w'"
    by (cases r1) (auto simp: buffer_expect_def)
qed

lemma announce_links: "steps window_links (announce_stream_window C k)"
proof -
  have put: "steps window_links (modify_stream k (\<lambda>s. s\<lparr>recv_flow := fl\<rparr>))" for fl k
    by (auto simp: steps_wp wp_simps window_links_def recv_link_count_def links_put next_defs split: option.splits)
  have "steps window_links (case inc_window incr fl of Ok fl \<Rightarrow> modify_stream k (\<lambda>s. s\<lparr>recv_flow := fl\<rparr>) | _ \<Rightarrow> spanic)"
    for incr fl
    by (cases "inc_window incr fl") (simp_all add: put, simp_all add: steps_def window_links_def)
  note that = this
  then have "steps window_links (case unclaimed_capacity (recv_flow s) of
      Some incr \<Rightarrow>
        sbind (buffer_expect C (FWindowUpdate (window_update_new (st_id s) incr))) (\<lambda>_.
          case inc_window incr (recv_flow s) of
            Ok fl \<Rightarrow> modify_stream k (\<lambda>s. s\<lparr>recv_flow := fl\<rparr>)
          | _ \<Rightarrow> spanic)
      | None \<Rightarrow> sret ())" for s
    by (cases "unclaimed_capacity (recv_flow s)"; simp; intro steps_rules buffer_expect_links that) simp_all
  then show ?thesis
    unfolding announce_stream_window_def by (intro steps_rules) simp_all
qed

lemma transition_after_window_links:
  "steps window_links (transition_after k b :: (('m, 'c, 'y) wired_world_scheme, unit, 'e) op)"
proof (rule stepsI)
  fix w w' :: "('m, 'c, 'y) wired_world_scheme" and r :: "(unit, 'e) result"
  assume "transition_after k b w = (r, w')"
  from stepsD [OF recv_next_fields.transition_after_links this, of Q_Window_Updates] fewer_links_recv
  show "window_links w w'" unfolding window_links_def by blast
qed

lemma transition_announce_links: "steps window_links (transition k (announce_stream_window C k))"
  by (intro steps_rules announce_links transition_after_window_links) simp_all

lemma on_codec_recv: "on_codec m w = (r, w') \<Longrightarrow> recv_link_count n w' = recv_link_count n w"
  by (auto simp: on_codec_def recv_link_count_def split: prod.splits)

lemma window_update_round:
  assumes "(Ok (Ready u), w1) = on_codec m w" "(Ok (Some k), w2) = recv_pop_queue Q_Window_Updates w1"
    "(Ok () :: (_, 'e) result, w3) = transition k (announce_stream_window C k) w2"
  shows "recv_link_count Q_Window_Updates w3 < recv_link_count Q_Window_Updates w"
  using on_codec_recv [OF assms(1) [symmetric]] recv_pop_queue_links [OF assms(2) [symmetric]]
    stepsD [OF transition_announce_links assms(3) [symmetric]]
  by (simp add: window_links_def)

function send_stream_window_updates ::
  "('c, 'm) codec_ops \<Rightarrow> ('m, 'c, 'y) wired_world_scheme \<Rightarrow> (unit io_poll, io_error) result \<times> ('m, 'c, 'y) wired_world_scheme" where
  "send_stream_window_updates C w =
     (case on_codec (co_poll_ready C) w of
        (Ok (Ready _), w) \<Rightarrow>
          (case recv_pop_queue Q_Window_Updates w of
             (Ok (Some k), w) \<Rightarrow>
               (case transition k (announce_stream_window C k) w of
                  (Ok _, w) \<Rightarrow> send_stream_window_updates C w
                | (Err e, w) \<Rightarrow> (Err e, w)
                | (Panic, w) \<Rightarrow> (Panic, w))
           | (Ok None, w) \<Rightarrow> (Ok (Ready ()), w)
           | (Err e, w) \<Rightarrow> (Err e, w)
           | (Panic, w) \<Rightarrow> (Panic, w))
      | (Ok Pending, w) \<Rightarrow> (Ok Pending, w)
      | (Err e, w) \<Rightarrow> (Err e, w)
      | (Panic, w) \<Rightarrow> (Panic, w))"
  by pat_completeness auto

termination
  by (relation "measure (\<lambda>(C, w). recv_link_count Q_Window_Updates w)") (auto dest!: window_update_round)

declare send_stream_window_updates.simps [simp del]

definition recv_poll_complete :: "('c, 'm) codec_ops \<Rightarrow> (('m, 'c, 'y) wired_world_scheme, unit io_poll, io_error) op" where
  "recv_poll_complete C =
     sready (send_connection_window_update C) (sready (send_stream_window_updates C) (sret (Ready ())))"

section \<open>What the prioritizer writes\<close>

definition reclaim_from_codec :: "('c, 'm) codec_ops \<Rightarrow> (('m, 'c, 'y) wired_world_scheme, bool, 'e) op" where
  "reclaim_from_codec C w =
     (case co_take_last_data_frame C (ss_codec w) of (f, c) \<Rightarrow> reclaim_frame f (w\<lparr>ss_codec := c\<rparr>))"

text \<open>
  The loop of \<open>poll_complete\<close> ends when the codec says so: the value is \<open>None\<close> if it never does.
\<close>

partial_function (option) prio_write_loop ::
  "('c, 'm) codec_ops \<Rightarrow> nat \<Rightarrow> ('m, 'c, 'y) wired_world_scheme \<Rightarrow>
     ((unit io_poll, io_error) result \<times> ('m, 'c, 'y) wired_world_scheme) option" where
  "prio_write_loop C max_frame_len w =
     (case sbind schedule_pending_open (\<lambda>_. pop_frame max_frame_len) w of
        (Ok (Some f), w) \<Rightarrow>
          (case
             sbind
               (case f of
                  FData df \<Rightarrow> modify_prio (\<lambda>p. p\<lparr>in_flight_data_frame := In_Flight (pr_stream (data_data df))\<rparr>)
                | _ \<Rightarrow> sret ()) (\<lambda>_.
             sbind (buffer_expect C f) (\<lambda>_.
             sbind (on_codec (co_poll_ready C)) (\<lambda>p.
               case p of
                 Ready _ \<Rightarrow> sbind (reclaim_from_codec C) (\<lambda>_. sret (Ready ()))
               | Pending \<Rightarrow> sret Pending))) w of
             (Ok (Ready _), w) \<Rightarrow> prio_write_loop C max_frame_len w
           | r \<Rightarrow> Some r)
      | (Ok None, w) \<Rightarrow>
          (case on_codec (co_flush C) w of
             (Ok (Ready _), w) \<Rightarrow>
               (case reclaim_from_codec C w of
                  (Ok again, w) \<Rightarrow>
                    (if again then prio_write_loop C max_frame_len w else Some (Ok (Ready ()), w))
                | (Err e, w) \<Rightarrow> Some (Err e, w)
                | (Panic, w) \<Rightarrow> Some (Panic, w))
           | r \<Rightarrow> Some r)
      | (Err e, w) \<Rightarrow> Some (Err e, w)
      | (Panic, w) \<Rightarrow> Some (Panic, w))"

definition prio_poll_complete ::
  "('c, 'm) codec_ops \<Rightarrow> ('m, 'c, 'y) wired_world_scheme \<Rightarrow>
     ((unit io_poll, io_error) result \<times> ('m, 'c, 'y) wired_world_scheme) option" where
  "prio_poll_complete C w =
     (case on_codec (co_poll_ready C) w of
        (Ok (Ready _), w) \<Rightarrow>
          (case reclaim_from_codec C w of
             (Ok _, w) \<Rightarrow> prio_write_loop C (co_max_send_frame_size C (ss_codec w)) w
           | (Err e, w) \<Rightarrow> Some (Err e, w)
           | (Panic, w) \<Rightarrow> Some (Panic, w))
      | r \<Rightarrow> Some r)"

text \<open>\<open>Send::poll_complete\<close> forwards; \<open>Streams::poll_complete\<close> remembers the task when both halves are done.\<close>

definition streams_poll_complete ::
  "('c, 'm) codec_ops \<Rightarrow> waker \<Rightarrow> ('m, 'c, 'y) wired_world_scheme \<Rightarrow>
     ((unit io_poll, io_error) result \<times> ('m, 'c, 'y) wired_world_scheme) option" where
  "streams_poll_complete C cx w =
     (case recv_poll_complete C w of
        (Ok (Ready _), w) \<Rightarrow>
          map_option (\<lambda>(r, w).
            (case r of
               Ok (Ready _) \<Rightarrow> (Ok (Ready ()), w\<lparr>ss_task := Some cx\<rparr>)
             | _ \<Rightarrow> (r, w))) (prio_poll_complete C w)
      | r \<Rightarrow> Some r)"

end
