(* ===== verification/Streams.thy ===== *)
theory Streams
  imports Stream_Polls
begin

text \<open>
  The streams of a connection as the connection and the application see them
  (\<open>streams/streams.rs\<close>): \<open>Streams\<close> receives the frames of the peer and opens streams, \<open>StreamRef\<close> and
  \<open>OpaqueStreamRef\<close> are the handles of one stream. A handle is the key of its stream; the mutexes
  make every method one step on the state. The static peer \<open>P\<close> is the peer of the counts.
\<close>

section \<open>Helpers of Actions\<close>

text \<open>The result of an operation as a value; a panic is not caught.\<close>

definition attempt :: "('s, 'a, 'e) op \<Rightarrow> ('s, ('a, 'e) result, 'd) op" where
  "attempt m w =
     (case m w of
        (Ok x, w) \<Rightarrow> (Ok (Ok x), w)
      | (Err e, w) \<Rightarrow> (Ok (Err e), w)
      | (Panic, w) \<Rightarrow> (Panic, w))"

definition set_refs :: "(nat \<Rightarrow> nat) \<Rightarrow> (('m, 'y) streams_world_scheme, unit, 'e) op" where
  "set_refs f w = (Ok (), w\<lparr>ss_refs := f (ss_refs w)\<rparr>)"

definition set_conn_error :: "proto_error \<Rightarrow> (('m, 'y) streams_world_scheme, unit, 'e) op" where
  "set_conn_error err w = (Ok (), w\<lparr>ss_conn_error := Some err\<rparr>)"

definition find_stream :: "stream_id \<Rightarrow> (('f, 'z) world_scheme, key option, 'e) op" where
  "find_stream i w = (Ok (store_find i (ss_store w)), w)"

definition ensure_no_conn_error :: "(('m, 'y) streams_world_scheme, unit, proto_error) op" where
  "ensure_no_conn_error w =
     (case ss_conn_error w of
        Some err \<Rightarrow> (Err (shallow_clone err), w)
      | None \<Rightarrow> (Ok (), w))"

definition ensure_not_idle :: "stream_id \<Rightarrow> (('m, 'y) streams_world_scheme, unit, reason) op" where
  "ensure_not_idle i =
     sbind world_counts (\<lambda>c.
     sbind (slift (is_local_init i (peer c))) (\<lambda>local.
       if local then sbind world_send (\<lambda>s. slift (send_ensure_not_idle i s))
       else sbind world_recv (\<lambda>r. slift (recv_ensure_not_idle i r))))"

definition may_have_forgotten_stream :: "stream_id \<Rightarrow> (('m, 'y) streams_world_scheme, bool, 'e) op" where
  "may_have_forgotten_stream i =
     (if stream_id_is_zero i then sret False
      else
        sbind world_counts (\<lambda>c.
        sbind (slift (is_local_init i (peer c))) (\<lambda>local.
          if local then sbind world_send (\<lambda>s. sret (send_may_have_created_stream i s))
          else sbind world_recv (\<lambda>r. sret (recv_may_have_created_stream i r)))))"

definition actions_clear_queues :: "bool \<Rightarrow> (('m, 'y) streams_world_scheme, unit, 'e) op" where
  "actions_clear_queues clear_pending_accept =
     sbind (recv_clear_queues clear_pending_accept) (\<lambda>_. send_clear_queues)"

definition actions_send_reset :: "instant \<Rightarrow> key \<Rightarrow> reason \<Rightarrow> (('m, 'y) streams_world_scheme, unit, 'e) op" where
  "actions_send_reset now k reason =
     transition k
       (sbind (send_reset reason k) (\<lambda>_.
        sbind (enqueue_reset_expiration now k) (\<lambda>_. waking_stream k notify_recv)))"

definition reset_on_recv_stream_err ::
  "key \<Rightarrow> (unit, recv_error) result \<Rightarrow> (('m, 'y) streams_world_scheme, unit, recv_error) op" where
  "reset_on_recv_stream_err k res =
     (case res of
        Err (Recv_Stream _ reason) \<Rightarrow> send_reset reason k
      | _ \<Rightarrow> slift res)"

text \<open>A new stream with the windows in force.\<close>

definition new_stream :: "stream_id \<Rightarrow> (('m, 'y) streams_world_scheme, stream, 'e) op" where
  "new_stream i =
     sbind world_send (\<lambda>s. sbind world_recv (\<lambda>r. slift (stream_new i (init_window_sz s) (rv_init_window_sz r))))"

definition insert_vacant :: "stream_id \<Rightarrow> stream \<Rightarrow> (('f, 'z) world_scheme, key, 'e) op" where
  "insert_vacant i stream w =
     (case vacant_insert i stream (ss_store w) of (k, st) \<Rightarrow> (Ok k, w\<lparr>ss_store := st\<rparr>))"

definition insert_stream :: "stream_id \<Rightarrow> stream \<Rightarrow> (('f, 'z) world_scheme, key, 'e) op" where
  "insert_stream i stream w =
     (case store_insert i stream (ss_store w) of
        Ok (k, st) \<Rightarrow> (Ok k, w\<lparr>ss_store := st\<rparr>)
      | Err e \<Rightarrow> (Err e, w)
      | Panic \<Rightarrow> (Panic, w))"

text \<open>The value of a handle for the caller: the reference is counted twice.\<close>

definition new_ref :: "key \<Rightarrow> (('m, 'y) streams_world_scheme, key, 'e) op" where
  "new_ref k = sbind (set_refs (\<lambda>n. n + 1)) (\<lambda>_. sbind (try_stream k ref_inc) (\<lambda>_. sret k))"

section \<open>Streams: frames of the peer\<close>

definition streams_new ::
  "peer_dyn \<Rightarrow> config \<Rightarrow> nat list \<Rightarrow> nat list \<Rightarrow> nat list \<Rightarrow> ('m streams_world, 'e) result" where
  "streams_new p c wishes wishes_send wishes_recv =
     rbind (recv_new p c wishes_recv) (\<lambda>r.
     rbind (prioritize_new c) (\<lambda>prio.
       Ok \<lparr>ss_store = store_new wishes, ss_counts = counts_new p c, ss_prio = prio,
           ss_buffer = slab_new wishes_send, ss_task = None, ss_woken = [], ss_send = send_new c,
           ss_recv = r, ss_conn_error = None, ss_refs = 1\<rparr>))"

definition streams_recv_headers ::
  "'m header_map_lib \<Rightarrow> uri_lib \<Rightarrow> instant \<Rightarrow> 'm headers \<Rightarrow> (('m, 'y) streams_world_scheme, unit, recv_error) op" where
  "streams_recv_headers H U now frame =
     (let i = h_stream_id frame in
      sbind world_recv (\<lambda>r.
      if i > rv_max_stream_id r then sret ()
      else
        sbind world_counts (\<lambda>c.
        sbind (find_stream i) (\<lambda>found.
        sbind
          (case found of
             Some k \<Rightarrow> sret (Some k)
           | None \<Rightarrow>
               sbind (if \<not> peer_is_server (peer c) then may_have_forgotten_stream i else sret False) (\<lambda>forgotten.
                 if forgotten then sfail (Recv_Stream i STREAM_CLOSED)
                 else
                   sbind (recv_open i Open_Headers) (\<lambda>opened.
                     case opened of
                       Some j \<Rightarrow> sbind (new_stream j) (\<lambda>stream. sbind (insert_vacant i stream) (\<lambda>k. sret (Some k)))
                     | None \<Rightarrow> sret None))) (\<lambda>key.
        case key of
          None \<Rightarrow> sret ()
        | Some k \<Rightarrow>
            sbind (stream_at k) (\<lambda>s.
            if is_local_reset (st_state s) then sret ()
            else
              transition k
                (sbind (stream_at k) (\<lambda>s.
                 if is_recv_headers (st_state s) then
                   sbind (attempt (recv_headers H U frame k)) (\<lambda>res.
                   sbind
                     (case res of
                        Ok _ \<Rightarrow> sret (Ok ())
                      | Err (Oversize (Some resp)) \<Rightarrow>
                          sbind (attempt (send_headers H resp k)) (\<lambda>_.
                          sbind (schedule_implicit_reset k REFUSED_STREAM) (\<lambda>_.
                          sbind (enqueue_reset_expiration now k) (\<lambda>_. sret (Ok ()))))
                      | Err (Oversize None) \<Rightarrow> sret (Err (Recv_Stream (st_id s) REFUSED_STREAM))
                      | Err (Block_State err) \<Rightarrow> sret (Err err)
                      | Panic \<Rightarrow> spanic) (\<lambda>res. reset_on_recv_stream_err k res))
                 else if \<not> headers_is_end_stream frame then sfail (Recv_Stream (st_id s) PROTOCOL_ERROR)
                 else
                   sbind (attempt (recv_trailers frame k)) (\<lambda>res. reset_on_recv_stream_err k res)))))))))"

definition streams_recv_data :: "bytes data_frame \<Rightarrow> (('m, 'y) streams_world_scheme, unit, recv_error) op" where
  "streams_recv_data frame =
     (let i = data_stream_id frame; len = length (data_data frame) in
      sbind (find_stream i) (\<lambda>found.
      case found of
        None \<Rightarrow>
          sbind world_recv (\<lambda>r.
          if i > rv_max_stream_id r then sret ()
          else
            sbind (may_have_forgotten_stream i) (\<lambda>forgotten.
              if forgotten then
                sbind (assert_op (len \<le> unat MAX_WINDOW_SIZE)) (\<lambda>_.
                sbind (ignore_data (word_of_nat len)) (\<lambda>_. sfail (Recv_Stream i STREAM_CLOSED)))
              else sfail (Recv_Connection PROTOCOL_ERROR)))
      | Some k \<Rightarrow>
          transition k
            (sbind (attempt (recv_data frame k)) (\<lambda>res.
             sbind
               (case res of
                  Err (Recv_Stream _ _) \<Rightarrow> release_connection_capacity (word_of_nat len) False
                | _ \<Rightarrow> sret ()) (\<lambda>_.
               reset_on_recv_stream_err k res)))))"

definition streams_recv_reset :: "reset \<Rightarrow> (('m, 'y) streams_world_scheme, unit, recv_error) op" where
  "streams_recv_reset frame =
     (let i = reset_stream_id frame in
      if stream_id_is_zero i then sfail (Recv_Connection PROTOCOL_ERROR)
      else
        sbind world_recv (\<lambda>r.
        if i > rv_max_stream_id r then sret ()
        else
          sbind (find_stream i) (\<lambda>found.
          case found of
            None \<Rightarrow> smap_err Recv_Connection (ensure_not_idle i)
          | Some k \<Rightarrow>
              transition k
                (sbind (recv_reset (reset_error_code frame) k) (\<lambda>_.
                 sbind (send_recv_err k) (\<lambda>_.
                 sbind (stream_at k) (\<lambda>s. assert_op (state_is_closed (st_state s)))))))))"

text \<open>The loop body of \<open>recv_err\<close>, \<open>recv_go_away\<close> and, with another first part, of \<open>recv_eof\<close>.\<close>

definition fail_stream :: "proto_error \<Rightarrow> key \<Rightarrow> (('m, 'y) streams_world_scheme, unit, 'e) op" where
  "fail_stream err k = transition k (sbind (recv_recv_err err k) (\<lambda>_. send_recv_err k))"

definition streams_recv_err :: "proto_error \<Rightarrow> (('m, 'y) streams_world_scheme, stream_id, 'e) op" where
  "streams_recv_err err =
     sbind world_recv (\<lambda>r.
     sbind (store_for_each world_ids (fail_stream err)) (\<lambda>_.
     sbind (set_conn_error (shallow_clone err)) (\<lambda>_. sret (last_processed_id r))))"

definition streams_recv_go_away :: "go_away \<Rightarrow> (('m, 'y) streams_world_scheme, unit, recv_error) op" where
  "streams_recv_go_away frame =
     (let last_stream_id = ga_last_stream_id frame; err = Proto_Reason (ga_error_code frame) in
      sbind (send_recv_go_away last_stream_id) (\<lambda>_.
      sbind (store_for_each world_ids (\<lambda>k.
          sbind (stream_at k) (\<lambda>s. if st_id s > last_stream_id then fail_stream err k else sret ()))) (\<lambda>_.
        set_conn_error err)))"

definition streams_recv_window_update :: "window_update \<Rightarrow> (('m, 'y) streams_world_scheme, unit, recv_error) op" where
  "streams_recv_window_update frame =
     (let i = wu_stream_id frame in
      if stream_id_is_zero i then
        smap_err Recv_Connection (send_recv_connection_window_update frame)
      else
        sbind (find_stream i) (\<lambda>found.
        case found of
          Some k \<Rightarrow> sbind (attempt (send_recv_stream_window_update (wu_size_increment frame) k)) (\<lambda>_. sret ())
        | None \<Rightarrow> smap_err Recv_Connection (ensure_not_idle i)))"

text \<open>The child enters the queue of promises that its parent holds.\<close>

definition push_promised :: "key \<Rightarrow> key \<Rightarrow> (('f, 'z) world_scheme, unit, 'e) op" where
  "push_promised parent promised =
     sbind (stream_at parent) (\<lambda>s w.
       case queue_push NextAccept promised
           (pending_push_promises s, store_put parent (s\<lparr>pending_push_promises := None\<rparr>) (ss_store w)) of
         Ok (_, q, st) \<Rightarrow>
           sbind (modify_stream parent (\<lambda>s. s\<lparr>pending_push_promises := q\<rparr>))
             (\<lambda>_. waking_stream parent notify_recv) (w\<lparr>ss_store := st\<rparr>)
       | Err e \<Rightarrow> (Err e, w)
       | Panic \<Rightarrow> (Panic, w))"

definition streams_recv_push_promise ::
  "'m header_map_lib \<Rightarrow> uri_lib \<Rightarrow> 'm push_promise \<Rightarrow> (('m, 'y) streams_world_scheme, unit, recv_error) op" where
  "streams_recv_push_promise H U frame =
     (let i = pp_stream_id frame; promised_id = pp_promised_id frame in
      sbind (find_stream i) (\<lambda>found.
      case found of
        None \<Rightarrow> sfail (Recv_Connection PROTOCOL_ERROR)
      | Some parent \<Rightarrow>
          sbind world_recv (\<lambda>r.
          if i > rv_max_stream_id r then sret ()
          else
            sbind (stream_at parent) (\<lambda>s.
            sbind (smap_err recv_error_of_proto (slift (ensure_recv_open (st_state s)))) (\<lambda>_.
            sbind (slift (ensure_can_reserve r)) (\<lambda>_.
            sbind (recv_open promised_id Open_PushPromise) (\<lambda>opened.
              case opened of
                None \<Rightarrow> sret ()
              | Some _ \<Rightarrow>
                  sbind (new_stream promised_id) (\<lambda>stream.
                  sbind (insert_stream promised_id stream) (\<lambda>k.
                  sbind
                    (transition k
                      (sbind (attempt (recv_push_promise H U frame k)) (\<lambda>stream_valid.
                         case stream_valid of
                           Ok _ \<Rightarrow> sret (Some k)
                         | _ \<Rightarrow> sbind (reset_on_recv_stream_err k stream_valid) (\<lambda>_. sret None)))) (\<lambda>child_key.
                    case child_key of
                      Some j \<Rightarrow> push_promised parent j
                    | None \<Rightarrow> sret ()))))))))))"

definition streams_recv_eof :: "bool \<Rightarrow> (('m, 'y) streams_world_scheme, unit, 'e) op" where
  "streams_recv_eof clear_pending_accept =
     sbind (\<lambda>w. (Ok (), if ss_conn_error w = None then w\<lparr>ss_conn_error := Some (Proto_Io BrokenPipe)\<rparr> else w)) (\<lambda>_.
     sbind (store_for_each world_ids (\<lambda>k. transition k (sbind (recv_recv_eof k) (\<lambda>_. send_recv_err k)))) (\<lambda>_.
       actions_clear_queues clear_pending_accept))"

definition streams_apply_remote_settings :: "settings \<Rightarrow> (('m, 'y) streams_world_scheme, unit, recv_error) op" where
  "streams_apply_remote_settings f =
     sbind (modify_counts (counts_apply_remote_settings f)) (\<lambda>_. send_apply_remote_settings f)"

section \<open>Streams: the connection and the application\<close>

definition streams_next_incoming :: "(('m, 'y) streams_world_scheme, key option, 'e) op" where
  "streams_next_incoming =
     sbind next_incoming (\<lambda>k.
       case k of
         Some k \<Rightarrow> sbind (new_ref k) (\<lambda>k. sret (Some k))
       | None \<Rightarrow> sret None)"

definition streams_send_request ::
  "'m header_map_lib \<Rightarrow> 'm http_request \<Rightarrow> bool \<Rightarrow> key option \<Rightarrow> (('m, 'y) streams_world_scheme, key, send_error) op" where
  "streams_send_request H request end_of_stream pending =
     sbind (smap_err send_error_of_proto ensure_no_conn_error) (\<lambda>_.
     sbind world_send (\<lambda>s.
     sbind (smap_err Send_User (slift (ensure_next_stream_id s))) (\<lambda>_.
     sbind
       (case pending of
          Some k \<Rightarrow> sbind (stream_at k) (\<lambda>s. if is_pending_open s then sfail (Send_User Rejected) else sret ())
        | None \<Rightarrow> sret ()) (\<lambda>_.
     sbind world_counts (\<lambda>c.
       if peer_is_server (peer c) then sfail (Send_User UnexpectedFrameType)
       else
         sbind (smap_err Send_User send_open) (\<lambda>i.
         sbind (new_stream i) (\<lambda>stream.
         let stream = (if rq_method request = ascii ''HEAD'' then stream\<lparr>st_content_length := Head_Method\<rparr> else stream) in
         sbind (slift (client_convert_send_message i request end_of_stream)) (\<lambda>headers.
         sbind (insert_stream (st_id stream) stream) (\<lambda>k.
         sbind (attempt (send_headers H headers k)) (\<lambda>sent.
           case sent of
             Err err \<Rightarrow> sbind (unlink_stream k) (\<lambda>_. sbind (remove_stream k) (\<lambda>_. sfail (Send_User err)))
           | _ \<Rightarrow> new_ref k))))))))))"

definition streams_send_reset :: "instant \<Rightarrow> stream_id \<Rightarrow> reason \<Rightarrow> (('m, 'y) streams_world_scheme, unit, 'e) op" where
  "streams_send_reset now i reason =
     sbind (find_stream i) (\<lambda>found.
     sbind
       (case found of
          Some k \<Rightarrow> sret k
        | None \<Rightarrow> sbind (slift (stream_new i 0 0)) (insert_vacant i)) (\<lambda>k.
       actions_send_reset now k reason))"

definition streams_poll_pending_open ::
  "waker \<Rightarrow> key option \<Rightarrow> (('m, 'y) streams_world_scheme, unit io_poll, h2_error) op" where
  "streams_poll_pending_open cx pending =
     sbind (smap_err h2_error_of_proto ensure_no_conn_error) (\<lambda>_.
     sbind world_send (\<lambda>s.
     sbind (smap_err H2_User (slift (ensure_next_stream_id s))) (\<lambda>_.
       case pending of
         Some k \<Rightarrow>
           sbind (stream_at k) (\<lambda>s.
             if is_pending_open s then sbind (modify_stream k (wait_send cx)) (\<lambda>_. sret Pending)
             else sret (Ready ()))
       | None \<Rightarrow> sret (Ready ()))))"

definition has_streams_or_other_references :: "('m, 'y) streams_world_scheme \<Rightarrow> bool" where
  "has_streams_or_other_references w \<longleftrightarrow> has_streams (ss_counts w) \<or> ss_refs w > 1"

definition streams_clone :: "(('m, 'y) streams_world_scheme, unit, 'e) op" where
  "streams_clone = set_refs (\<lambda>n. n + 1)"

definition streams_drop :: "(('m, 'y) streams_world_scheme, unit, 'e) op" where
  "streams_drop = set_refs (\<lambda>n. n - 1)"

section \<open>The handles\<close>

definition ref_send_data :: "key \<Rightarrow> bytes \<Rightarrow> bool \<Rightarrow> (('m, 'y) streams_world_scheme, unit, user_error) op" where
  "ref_send_data k payload end_stream =
     transition k
       (sbind (stream_at k) (\<lambda>s.
        sbind (slift (data_new (st_id s) payload)) (\<lambda>frame.
          send_data (data_set_end_stream end_stream frame) k)))"

definition ref_send_trailers ::
  "'m header_map_lib \<Rightarrow> key \<Rightarrow> 'm \<Rightarrow> (('m, 'y) streams_world_scheme, unit, user_error) op" where
  "ref_send_trailers H k trailers =
     transition k (sbind (stream_at k) (\<lambda>s. send_trailers H (headers_trailers (st_id s) trailers) k))"

definition ref_send_reset :: "instant \<Rightarrow> key \<Rightarrow> reason \<Rightarrow> (('m, 'y) streams_world_scheme, unit, 'e) op" where
  "ref_send_reset now k reason = actions_send_reset now k reason"

definition ref_send_response ::
  "'m header_map_lib \<Rightarrow> key \<Rightarrow> 'm http_response \<Rightarrow> bool \<Rightarrow> (('m, 'y) streams_world_scheme, unit, user_error) op" where
  "ref_send_response H k response end_of_stream =
     transition k
       (sbind (stream_at k) (\<lambda>s. send_headers H (server_convert_send_message (st_id s) response end_of_stream) k))"

definition ref_send_push_promise ::
  "'m header_map_lib \<Rightarrow> key \<Rightarrow> 'm http_request \<Rightarrow> (('m, 'y) streams_world_scheme, key, user_error) op" where
  "ref_send_push_promise H k request =
     sbind reserve_local (\<lambda>promised_id.
     sbind (new_stream promised_id) (\<lambda>stream.
     sbind (insert_stream promised_id stream) (\<lambda>j.
     sbind (try_stream j (\<lambda>s. map_ok (\<lambda>st. s\<lparr>st_state := st\<rparr>) (state_reserve_local (st_state s)))) (\<lambda>_.
     sbind (modify_stream j (\<lambda>s. s\<lparr>is_pending_push := True\<rparr>)) (\<lambda>_.
     sbind (stream_at k) (\<lambda>s.
     sbind (slift (convert_push_message H (st_id s) promised_id request)) (\<lambda>frame.
     sbind (attempt (send_push_promise H frame k)) (\<lambda>res.
       case res of
         Err err \<Rightarrow> sbind (unlink_stream j) (\<lambda>_. sbind (remove_stream j) (\<lambda>_. sfail err))
       | _ \<Rightarrow> new_ref j))))))))"

definition ref_clone :: "key \<Rightarrow> (('m, 'y) streams_world_scheme, key, 'e) op" where
  "ref_clone k = sbind (try_stream k ref_inc) (\<lambda>_. sbind (set_refs (\<lambda>n. n + 1)) (\<lambda>_. sret k))"

definition ref_poll_pushed ::
  "waker \<Rightarrow> key \<Rightarrow> (('m, 'y) streams_world_scheme, ('m http_request \<times> key) option io_poll, proto_error) op" where
  "ref_poll_pushed cx k =
     sbind (poll_pushed cx k) (\<lambda>p.
       case p of
         Ready (Some (h, j)) \<Rightarrow> sbind (new_ref j) (\<lambda>j. sret (Ready (Some (h, j))))
       | _ \<Rightarrow> sret p)"

section \<open>Dropping a handle\<close>

definition maybe_cancel :: "instant \<Rightarrow> key \<Rightarrow> (('m, 'y) streams_world_scheme, unit, 'e) op" where
  "maybe_cancel now k =
     sbind (stream_at k) (\<lambda>s.
       if is_canceled_interest s then
         sbind (schedule_implicit_reset k CANCEL) (\<lambda>_. enqueue_reset_expiration now k)
       else sret ())"

text \<open>Canceling a stream puts no stream in a queue of promises: the links of these queues become fewer.\<close>

definition accept_links :: "('f, 'z) world_scheme \<Rightarrow> ('f, 'z) world_scheme \<Rightarrow> bool" where
  "accept_links w w' \<longleftrightarrow> links NextAccept (ss_store w') \<le> links NextAccept (ss_store w)"

lemma accept_links_order [simp]: "reflp accept_links" "transp accept_links"
  by (auto simp: accept_links_def intro!: reflpI transpI)

named_theorems accept_rules \<open>operations that leave the queues of promises alone\<close>

lemma accept_transition_after [accept_rules]: "steps accept_links (transition_after k b)"
  using next_accept.transition_after_links [of k b] by (auto simp: steps_def fewer_links_def accept_links_def)

lemma accept_transition [accept_rules]:
  fixes f :: "(('f, 'z) world_scheme, 'a, 'e) op"
  shows "steps accept_links f \<Longrightarrow> steps accept_links (transition k f)"
  by (intro steps_rules accept_transition_after) simp_all

lemma accept_modify [accept_rules]:
  "(\<And>s. next_pending_accept (f s) = next_pending_accept s) \<Longrightarrow> steps accept_links (modify_stream k f)"
  by (auto simp: steps_wp wp_simps accept_links_def links_put NextAccept_def split: option.splits)

lemma accept_others [accept_rules]:
  "steps accept_links (modify_prio p)" "steps accept_links (modify_counts c)" "steps accept_links (wake ws)"
  "steps accept_links wake_task"
  by (auto simp: steps_wp wp_simps accept_links_def split: option.splits)

lemma accept_recv [accept_rules]: "steps accept_links (modify_recv r)" "steps accept_links world_recv"
  by (auto simp: steps_def modify_recv_def world_recv_def accept_links_def)

lemma waking_stream_run:
  "waking_stream k f w =
     (case store_get (ss_store w) k of
        None \<Rightarrow> (Panic, w)
      | Some s \<Rightarrow> (Ok (), w\<lparr>ss_store := store_put k (fst (f s)) (ss_store w), ss_woken := ss_woken w @ snd (f s)\<rparr>))"
  by (auto simp: waking_stream_def sbind_def stream_at_def store_index_def modify_stream_def store_modify_def wake_def
      split: option.splits prod.splits)

lemma accept_waking [accept_rules]:
  fixes f :: "stream \<Rightarrow> stream \<times> waker list"
  assumes "\<And>s. next_pending_accept (fst (f s)) = next_pending_accept s"
  shows "steps accept_links (waking_stream k f)"
proof (rule stepsI)
  fix w w' :: "('f, 'z) world_scheme" and r :: "(unit, 'e) result"
  assume "waking_stream k f w = (r, w')"
  with assms show "accept_links w w'"
    by (cases "store_get (ss_store w) k") (auto simp: waking_stream_run accept_links_def links_put NextAccept_def)
qed

lemma links_same: "store_view next_pending_accept st' = store_view next_pending_accept st \<Longrightarrow>
    links NextAccept st' = links NextAccept st"
  by (simp add: links_view NextAccept_def)

lemma accept_push_queue [accept_rules]: "steps accept_links (push_queue n k)"
proof (rule stepsI)
  fix w w' :: "('f, 'z) world_scheme" and r :: "(unit, 'e) result"
  assume run: "push_queue n k w = (r, w')"
  show "accept_links w w'"
  proof (cases "queue_push (queue_next n) k (get_queue n (ss_prio w), ss_store w) :: (bool \<times> queue \<times> store, 'e) result")
    case (Ok x)
    obtain b q st where x: "x = (b, q, st)" by (cases x)
    have "links NextAccept st = links NextAccept (ss_store w)"
      using queue_push_view [OF Ok [unfolded x], of next_pending_accept]
      by (intro links_same) (cases n; simp add: next_defs)
    with run Ok x show ?thesis by (auto simp: push_queue_def accept_links_def)
  qed (use run in \<open>auto simp: push_queue_def accept_links_def\<close>)
qed

lemma accept_pop_queue [accept_rules]: "steps accept_links (pop_queue n)"
proof (rule stepsI)
  fix w w' :: "('f, 'z) world_scheme" and r :: "(key option, 'e) result"
  assume run: "pop_queue n w = (r, w')"
  show "accept_links w w'"
  proof (cases "queue_pop (queue_next n) (get_queue n (ss_prio w), ss_store w) :: (key option \<times> queue \<times> store, 'e) result")
    case (Ok x)
    obtain k q st where x: "x = (k, q, st)" by (cases x)
    have "links NextAccept st = links NextAccept (ss_store w)"
      using queue_pop_view [OF Ok [unfolded x], of next_pending_accept]
      by (intro links_same) (cases n; simp add: next_defs)
    with run Ok x show ?thesis by (auto simp: pop_queue_def accept_links_def)
  qed (use run in \<open>auto simp: pop_queue_def accept_links_def\<close>)
qed

lemma accept_recv_push [accept_rules]: "steps accept_links (recv_push_queue (Q_Expire now) k)"
proof (rule stepsI)
  fix w w' :: "('m, 'y) streams_world_scheme" and r :: "(unit, 'e) result"
  assume run: "recv_push_queue (Q_Expire now) k w = (r, w')"
  show "accept_links w w'"
  proof (cases "queue_push (NextResetExpire now) k (pending_reset_expired (ss_recv w), ss_store w) :: (bool \<times> queue \<times> store, 'e) result")
    case (Ok x)
    obtain b q st where x: "x = (b, q, st)" by (cases x)
    have "links NextAccept st = links NextAccept (ss_store w)"
      using queue_push_view [OF Ok [unfolded x], of next_pending_accept]
      by (intro links_same) (simp add: next_defs)
    with run Ok x show ?thesis by (auto simp: recv_push_queue_def accept_links_def)
  qed (use run in \<open>auto simp: recv_push_queue_def accept_links_def\<close>)
qed

lemma accept_recv_pop [accept_rules]: "steps accept_links (recv_pop_queue (Q_Expire now))"
proof (rule stepsI)
  fix w w' :: "('m, 'y) streams_world_scheme" and r :: "(key option, 'e) result"
  assume run: "recv_pop_queue (Q_Expire now) w = (r, w')"
  show "accept_links w w'"
  proof (cases "queue_pop (NextResetExpire now) (pending_reset_expired (ss_recv w), ss_store w) :: (key option \<times> queue \<times> store, 'e) result")
    case (Ok x)
    obtain k q st where x: "x = (k, q, st)" by (cases x)
    have "links NextAccept st = links NextAccept (ss_store w)"
      using queue_pop_view [OF Ok [unfolded x], of next_pending_accept]
      by (intro links_same) (simp add: next_defs)
    with run Ok x show ?thesis by (auto simp: recv_pop_queue_def accept_links_def)
  qed (use run in \<open>auto simp: recv_pop_queue_def accept_links_def\<close>)
qed

lemma accept_try_assign [accept_rules]: "steps accept_links (try_assign_capacity k)"
  unfolding try_assign_capacity_def Let_def
  by (intro steps_rules accept_rules) (simp_all add: stream_assign_capacity_def notify_send_def Let_def split: option.splits)

lemma accept_assign_loop [accept_rules]: "steps accept_links (\<lambda>w. assign_loop w :: (unit, 'e) result \<times> _)"
proof -
  have "accept_links w w'" if "assign_loop w = (r :: (unit, 'e) result, w')" for w w' :: "('f, 'z) world_scheme" and r
    using that
  proof (induction w rule: assign_loop.induct [where 'c = 'e])
    case (1 w)
    note run = "1.prems" [unfolded assign_loop.simps [of w] conn_available_pos]
    obtain r1 :: "(key option, 'e) result" and w1 where pop: "pop_queue Q_Capacity w = (r1, w1)" by fastforce
    have A1: "accept_links w w1" by (rule stepsD [OF accept_pop_queue pop])
    show ?case
    proof (cases "conn_available w > 0 \<and> (\<exists>j s. r1 = Ok (Some j) \<and> store_get (ss_store w1) j = Some s)")
      case False
      then have "w' = w \<or> w' = w1"
        using run pop by (auto simp: stream_at_def store_index_def split: result.splits option.splits if_splits)
      with A1 show ?thesis by (auto simp: accept_links_def)
    next
      case True
      then obtain j s where j: "conn_available w > 0" "r1 = Ok (Some j)" "store_get (ss_store w1) j = Some s" by blast
      then have s: "stream_at j w1 = (Ok s :: (_, 'e) result, w1)" by (simp add: stream_at_def store_index_def)
      show ?thesis
      proof (cases "is_send_streaming (st_state s) \<or> buffered_send_data s > 0")
        case False
        with run j s pop have "assign_loop w1 = (r, w')" by simp
        with "1.IH"(1) False pop j s have "accept_links w1 w'" by (simp add: conn_available_pos)
        with A1 show ?thesis by (simp add: accept_links_def)
      next
        case True
        obtain r2 :: "(unit, 'e) result" and w2 where t: "transition j (try_assign_capacity j) w1 = (r2, w2)" by fastforce
        have A2: "accept_links w1 w2" by (rule stepsD [OF accept_transition [OF accept_try_assign] t])
        show ?thesis
        proof (cases "r2 = Ok ()")
          case True
          with run j s pop t \<open>is_send_streaming _ \<or> _\<close> have "assign_loop w2 = (r, w')" by auto
          with "1.IH"(2) \<open>is_send_streaming _ \<or> _\<close> pop j s t True have "accept_links w2 w'" by (simp add: conn_available_pos)
          with A1 A2 show ?thesis by (simp add: accept_links_def)
        next
          case False
          with run j s pop t \<open>is_send_streaming _ \<or> _\<close> have "w' = w2" by (cases r2) auto
          with A1 A2 show ?thesis by (simp add: accept_links_def)
        qed
      qed
    qed
  qed
  then show ?thesis by (rule stepsI)
qed

lemma accept_maybe_cancel: "steps accept_links (maybe_cancel now k)"
proof -
  have "steps accept_links (assign_connection_capacity n)" for n
    unfolding assign_connection_capacity_def by (intro steps_rules accept_rules) simp_all
  then have "steps accept_links (reclaim_reserved_capacity k)"
    unfolding reclaim_reserved_capacity_def Let_def by (intro steps_rules accept_rules) simp_all
  moreover have "steps accept_links (schedule_send k)"
    unfolding schedule_send_def by (intro steps_rules accept_rules) simp_all
  ultimately have "steps accept_links (schedule_implicit_reset k CANCEL)"
    unfolding schedule_implicit_reset_def by (intro steps_rules accept_rules) simp_all
  moreover have "steps accept_links (case j of Some j \<Rightarrow> transition_after j True | None \<Rightarrow> sret ())" for j
    by (cases j) (simp_all add: accept_rules steps_rules)
  then have "steps accept_links (enqueue_reset_expiration now k)"
    unfolding enqueue_reset_expiration_def inc_num_reset_streams_def by (intro steps_rules accept_rules) simp_all
  ultimately show ?thesis unfolding maybe_cancel_def by (intro steps_rules) simp_all
qed

lemma drop_round:
  assumes "queue_pop NextAccept (q, ss_store w) = Ok (Some j, q', st)"
    "transition j (maybe_cancel now j) (w\<lparr>ss_store := st\<rparr>) = (Ok () :: (_, 'e) result, w')"
  shows "links NextAccept (ss_store w') + (if q' = None then 0 else 1)
    < links NextAccept (ss_store w) + (if q = None then 0 else 1)"
  using next_accept.queue_pop_links [OF assms(1)] stepsD [OF accept_transition [OF accept_maybe_cancel] assms(2)]
  by (simp add: accept_links_def)

text \<open>\<open>while let Some(promise) = ppp.pop(..)\<close>: the promises that nobody has taken are canceled.\<close>

function drop_promises ::
  "instant \<Rightarrow> queue \<Rightarrow> ('m, 'y) streams_world_scheme \<Rightarrow> (unit, 'e) result \<times> ('m, 'y) streams_world_scheme" where
  "drop_promises now q w =
     (case queue_pop NextAccept (q, ss_store w) of
        Ok (Some j, q', st) \<Rightarrow>
          (case transition j (maybe_cancel now j) (w\<lparr>ss_store := st\<rparr>) of
             (Ok _, w') \<Rightarrow> drop_promises now q' w'
           | r \<Rightarrow> r)
      | Ok (None, _, st) \<Rightarrow> (Ok (), w\<lparr>ss_store := st\<rparr>)
      | Err e \<Rightarrow> (Err e, w)
      | Panic \<Rightarrow> (Panic, w))"
  by pat_completeness auto

termination
  by (relation "measure (\<lambda>(now, q, w). links NextAccept (ss_store w) + (if q = None then 0 else 1))")
    (auto dest!: drop_round [OF _ sym])

declare drop_promises.simps [simp del]

definition drop_stream_ref :: "instant \<Rightarrow> key \<Rightarrow> (('m, 'y) streams_world_scheme, unit, 'e) op" where
  "drop_stream_ref now k =
     sbind (set_refs (\<lambda>n. n - 1)) (\<lambda>_.
     sbind (try_stream k ref_dec) (\<lambda>_.
     sbind (stream_at k) (\<lambda>s.
     sbind (if ref_count s = 0 \<and> stream_is_closed s then wake_task else sret ()) (\<lambda>_.
       transition k
         (sbind (maybe_cancel now k) (\<lambda>_.
          sbind (stream_at k) (\<lambda>s.
            if ref_count s = 0 then
              sbind (release_closed_capacity k) (\<lambda>_.
              sbind (stream_at k) (\<lambda>s.
              sbind (modify_stream k (\<lambda>s. s\<lparr>pending_push_promises := None\<rparr>)) (\<lambda>_ w.
                drop_promises now (pending_push_promises s) w)))
            else sret ())))))))"

end
