(* ===== verification/Recv_Accounting.thy ===== *)
theory Recv_Accounting
  imports Streams
begin

text \<open>
  The window of the connection, seen from the receiver: what the peer may still send, what the
  application holds, and what has been promised. Few operations touch these; for all the others a
  frame rule says so, one per operation, loops included.
\<close>

section \<open>Rules for cases and loops\<close>

named_theorems steps_cases \<open>operations that start with a case distinction\<close>

lemma steps_cases_rules [steps_cases]:
  "(\<And>x. o1 = Some x \<Longrightarrow> steps R (f x)) \<Longrightarrow> (o1 = None \<Longrightarrow> steps R g) \<Longrightarrow> steps R (case o1 of Some x \<Rightarrow> f x | None \<Rightarrow> g)"
  "(\<And>x. r1 = Ok x \<Longrightarrow> steps R (h x)) \<Longrightarrow> (\<And>e. r1 = Err e \<Longrightarrow> steps R (h' e)) \<Longrightarrow> (r1 = Panic \<Longrightarrow> steps R h'') \<Longrightarrow>
    steps R (case r1 of Ok x \<Rightarrow> h x | Err e \<Rightarrow> h' e | Panic \<Rightarrow> h'')"
  "(\<And>x y. p = (x, y) \<Longrightarrow> steps R (i x y)) \<Longrightarrow> steps R (case p of (x, y) \<Rightarrow> i x y)"
  "(\<And>x. q = Ready x \<Longrightarrow> steps R (j x)) \<Longrightarrow> (q = Pending \<Longrightarrow> steps R j') \<Longrightarrow> steps R (case q of Ready x \<Rightarrow> j x | Pending \<Rightarrow> j')"
  by (auto split: option.splits result.splits prod.splits io_poll.splits)

lemma steps_event [steps_cases]:
  "(\<And>x. steps R (f x)) \<Longrightarrow> (\<And>x. steps R (g x)) \<Longrightarrow> (\<And>x. steps R (h x)) \<Longrightarrow>
    steps R (case ev of Event_Headers x \<Rightarrow> f x | Event_Data x \<Rightarrow> g x | Event_Trailers x \<Rightarrow> h x)"
  "(\<And>x. steps R (k x)) \<Longrightarrow> (\<And>x. steps R (l x)) \<Longrightarrow> steps R (case pm of Message_Client x \<Rightarrow> k x | Message_Server x \<Rightarrow> l x)"
  "(\<And>x. steps R (m x)) \<Longrightarrow> (\<And>x. steps R (n x)) \<Longrightarrow> steps R (case he of Oversize x \<Rightarrow> m x | Block_State x \<Rightarrow> n x)"
  "(\<And>x. steps R (a x)) \<Longrightarrow> (\<And>x y. steps R (b x y)) \<Longrightarrow> (\<And>x. steps R (c x)) \<Longrightarrow>
    steps R (case re of Recv_Connection x \<Rightarrow> a x | Recv_Stream x y \<Rightarrow> b x y | Recv_Io x \<Rightarrow> c x)"
  by (auto split: event.splits poll_message.splits header_block_error.splits recv_error.splits)

lemma steps_frame_case [steps_cases]:
  "\<lbrakk>\<And>x. steps R (f1 x); \<And>x. steps R (f2 x); \<And>x. steps R (f3 x); \<And>x. steps R (f4 x); \<And>x. steps R (f5 x); \<And>x. steps R (f6 x);
    \<And>x. steps R (f7 x); \<And>x. steps R (f8 x); \<And>x. steps R (f9 x)\<rbrakk> \<Longrightarrow>
    steps R (case_payload_frame f1 f2 f3 f4 f5 f6 f7 f8 f9 fr)"
  by (cases fr) auto

lemma steps_in_flight_case [steps_cases]:
  "steps R a \<Longrightarrow> (\<And>k. steps R (b k)) \<Longrightarrow> steps R c \<Longrightarrow> steps R (case_in_flight_data a b c d)"
  by (cases d) auto

lemma steps_panic [steps_rules]: "reflp R \<Longrightarrow> steps R spanic" "reflp R \<Longrightarrow> steps R (sfail e)"
  by (simp_all add: steps_def reflpD)

lemma steps_fun_if [steps_cases]: "steps R m \<Longrightarrow> steps R m' \<Longrightarrow> steps R (\<lambda>w. if b then m w else m' w)"
  by (simp add: steps_def)

lemma steps_fun_ret [steps_cases]: "reflp R \<Longrightarrow> steps R (\<lambda>w. (r, w))"
  by (simp add: steps_def reflpD)

text \<open>What a state leads to, for the bodies of loops.\<close>

definition leads :: "('s \<Rightarrow> 's \<Rightarrow> bool) \<Rightarrow> 's \<Rightarrow> 'a \<times> 's \<Rightarrow> bool" where
  "leads R w p \<longleftrightarrow> R w (snd p)"

lemma leads_pair [simp]: "leads R w (r, w') = R w w'"
  by (simp add: leads_def)

lemma leads_op: "steps R m \<Longrightarrow> leads R w (m w)"
  unfolding leads_def by (cases "m w") (auto dest: stepsD)

lemma stepsI_leads: "(\<And>w. leads R w (m w)) \<Longrightarrow> steps R m"
  unfolding leads_def by (rule stepsI) (metis snd_conv)

lemma leads_case:
  assumes "steps R m" "transp R" "\<And>r w1. (r, w1) = m w \<Longrightarrow> leads R w1 (F r w1)"
  shows "leads R w (case m w of (r, w1) \<Rightarrow> F r w1)"
proof (cases "m w")
  case (Pair r w1)
  then have "R w w1" using stepsD [OF assms(1)] by blast
  moreover have "R w1 (snd (F r w1))" using assms(3) [OF Pair [symmetric]] by (simp add: leads_def)
  ultimately show ?thesis using transpD [OF assms(2)] Pair by (simp add: leads_def)
qed

lemma steps_smap_err [steps_rules]: "steps R m \<Longrightarrow> steps R (smap_err g m)"
  by (auto simp: steps_def smap_err_def split: prod.splits)

lemma steps_attempt [steps_rules]: "steps R m \<Longrightarrow> steps R (attempt m)"
  by (fastforce simp: steps_def attempt_def split: prod.splits result.splits)

lemma steps_sready [steps_rules]: "reflp R \<Longrightarrow> transp R \<Longrightarrow> steps R m \<Longrightarrow> steps R m' \<Longrightarrow> steps R (sready m m')"
  unfolding sready_def by (intro steps_rules steps_cases) simp_all

lemma steps_for_each:
  fixes f :: "key \<Rightarrow> ('s, unit, 'e) op"
  assumes "reflp R" "transp R" "\<And>k. steps R (f k)"
  shows "steps R (store_for_each ids f)"
proof -
  have "leads R w (store_for_each_from ids f i n w)" for i n w
  proof (induction "n - i" arbitrary: i n w rule: less_induct)
    case less
    obtain stream_id index where "ids w ! i = (stream_id, index)" by (cases "ids w ! i")
    with assms(1) show ?case
      by (subst store_for_each_from.simps)
        (auto intro!: leads_case [OF assms(3,2)] less simp: reflpD split: result.split)
  qed
  then show ?thesis unfolding store_for_each_def by (auto intro: stepsI_leads)
qed

section \<open>Operations that leave the accounts alone\<close>

definition in_flight_sum :: "store \<Rightarrow> nat" where
  "in_flight_sum st = slab_sum (\<lambda>s. unat (in_flight_recv_data s)) (store_slab st)"

text \<open>
  The books of the connection: what has been announced and is still in the hands of the application adds up to the
  target \<open>T\<close>; window and data in flight together stay below the largest target \<open>M\<close> so far;
  the streams hold no more than the connection knows of, and \<open>d\<close> bytes less while a frame is being processed.
\<close>

definition books :: "int \<Rightarrow> int \<Rightarrow> 'm recv \<Rightarrow> bool" where
  "books T M r \<longleftrightarrow>
     0 \<le> T \<and> T \<le> M \<and> M \<le> MAX_WINDOW
     \<and> sint (fc_available (rv_flow r)) + uint (rv_in_flight_data r) = T
     \<and> 0 \<le> sint (fc_window_size (rv_flow r)) \<and> sint (fc_window_size (rv_flow r)) + uint (rv_in_flight_data r) \<le> M"

definition accounts :: "nat \<Rightarrow> int \<Rightarrow> int \<Rightarrow> ('m, 'y) streams_world_scheme \<Rightarrow> bool" where
  "accounts d T M w \<longleftrightarrow> books T M (ss_recv w) \<and> in_flight_sum (ss_store w) + d \<le> unat (rv_in_flight_data (ss_recv w))"

definition sound :: "('m, 'y) streams_world_scheme \<Rightarrow> ('m, 'y) streams_world_scheme \<Rightarrow> bool" where
  "sound w w' \<longleftrightarrow> (\<forall>d T M. accounts d T M w \<longrightarrow> accounts d T M w')"

lemma sound_order [simp]: "reflp sound" "transp sound"
  by (auto simp: sound_def intro!: reflpI transpI)

lemma sound_refl [simp]: "sound w w"
  by (simp add: sound_def)

lemma quiet_sound:
  "rv_flow (ss_recv w') = rv_flow (ss_recv w) \<Longrightarrow> rv_in_flight_data (ss_recv w') = rv_in_flight_data (ss_recv w) \<Longrightarrow>
    in_flight_sum (ss_store w') \<le> in_flight_sum (ss_store w) \<Longrightarrow> sound w w'"
  by (auto simp: sound_def accounts_def books_def)

named_theorems sound_rules \<open>operations that keep the books\<close>

lemma in_flight_put:
  assumes "store_get st k = Some s" "in_flight_recv_data s' = in_flight_recv_data s"
  shows "in_flight_sum (store_put k s' st) = in_flight_sum st"
  using store_put_sum [OF assms(1), of "\<lambda>s. unat (in_flight_recv_data s)" s'] assms(2)
  by (simp add: in_flight_sum_def)

lemma sound_modify [sound_rules]:
  "(\<And>s. in_flight_recv_data (f s) = in_flight_recv_data s) \<Longrightarrow> steps sound (modify_stream k f)"
  by (auto simp: steps_wp wp_simps in_flight_put intro!: quiet_sound split: option.splits)

lemma sound_others [sound_rules]:
  "steps sound (modify_prio p)" "steps sound (modify_counts c)" "steps sound (wake ws)" "steps sound wake_task"
  "steps sound (set_refs n)" "steps sound (set_conn_error e)" "steps sound (modify_send f)" "steps sound world_send"
  "steps sound world_recv" "steps sound (find_stream i)" "steps sound ensure_no_conn_error"
  by (rule stepsI, rule quiet_sound; auto simp: modify_prio_def modify_counts_def wake_task_def wake_def set_refs_def
      set_conn_error_def modify_send_def world_send_def world_recv_def find_stream_def ensure_no_conn_error_def split: option.splits)+

lemma sound_modify_recv [sound_rules]:
  "(\<And>r. rv_flow (f r) = rv_flow r \<and> rv_in_flight_data (f r) = rv_in_flight_data r) \<Longrightarrow> steps sound (modify_recv f)"
  by (auto simp: steps_def modify_recv_def intro!: quiet_sound)

lemma sound_waking [sound_rules]:
  "(\<And>s. in_flight_recv_data (fst (f s)) = in_flight_recv_data s) \<Longrightarrow> steps sound (waking_stream k f)"
  by (rule stepsI) (auto simp: waking_stream_run in_flight_put intro!: quiet_sound split: option.splits)

lemma try_stream_run:
  "try_stream k f w =
     (case store_get (ss_store w) k of
        None \<Rightarrow> (Panic, w)
      | Some s \<Rightarrow>
          (case f s of
             Ok s' \<Rightarrow> (Ok (), w\<lparr>ss_store := store_put k s' (ss_store w)\<rparr>)
           | Err e \<Rightarrow> (Err e, w)
           | Panic \<Rightarrow> (Panic, w)))"
  by (auto simp: try_stream_def sbind_def stream_at_def store_index_def modify_stream_def store_modify_def
      split: option.splits result.splits)

lemma sound_try [sound_rules]:
  "(\<And>s s'. f s = Ok s' \<Longrightarrow> in_flight_recv_data s' = in_flight_recv_data s) \<Longrightarrow> steps sound (try_stream k f)"
  by (rule stepsI) (auto simp: try_stream_run in_flight_put intro!: quiet_sound split: option.splits result.splits)

lemma in_flight_view:
  "store_view in_flight_recv_data st' = store_view in_flight_recv_data st \<Longrightarrow> in_flight_sum st' = in_flight_sum st"
  using store_sum_view [of unat in_flight_recv_data st] store_sum_view [of unat in_flight_recv_data st']
  by (simp add: in_flight_sum_def)

lemma next_fields_in_flight:
  "in_flight_recv_data (nx_set_next (queue_next n) j s) = in_flight_recv_data s"
  "in_flight_recv_data (nx_set_queued (queue_next n) b s) = in_flight_recv_data s"
  "in_flight_recv_data (nx_set_next (recv_queue_next m) j s) = in_flight_recv_data s"
  "in_flight_recv_data (nx_set_queued (recv_queue_next m) b s) = in_flight_recv_data s"
  by (cases n; cases m; simp add: next_defs)+

lemma sound_push_queue [sound_rules]: "steps sound (push_queue n k)"
  by (rule stepsI) (auto simp: push_queue_def intro!: quiet_sound eq_imp_le [OF in_flight_view]
      dest!: queue_push_view [of _ _ _ _ _ _ _ in_flight_recv_data] simp: next_fields_in_flight split: result.splits)

lemma sound_pop_queue [sound_rules]: "steps sound (pop_queue n)"
  by (rule stepsI) (auto simp: pop_queue_def intro!: quiet_sound eq_imp_le [OF in_flight_view]
      dest!: queue_pop_view [of _ _ _ _ _ _ in_flight_recv_data] simp: next_fields_in_flight split: result.splits)

lemma put_recv_queue_flow [simp]: "rv_flow (put_recv_queue n q r) = rv_flow r" "rv_in_flight_data (put_recv_queue n q r) = rv_in_flight_data r"
  by (cases n; simp)+

lemma sound_recv_push_queue [sound_rules]: "steps sound (recv_push_queue n k)"
  by (rule stepsI) (auto simp: recv_push_queue_def intro!: quiet_sound eq_imp_le [OF in_flight_view]
      dest!: queue_push_view [of _ _ _ _ _ _ _ in_flight_recv_data] simp: next_fields_in_flight split: result.splits)

lemma sound_recv_pop_queue [sound_rules]: "steps sound (recv_pop_queue n)"
  by (rule stepsI) (auto simp: recv_pop_queue_def intro!: quiet_sound eq_imp_le [OF in_flight_view]
      dest!: queue_pop_view [of _ _ _ _ _ _ in_flight_recv_data] simp: next_fields_in_flight split: result.splits)

text \<open>The deques of frames and of events are elsewhere in the stream.\<close>

lemma sound_pending_send [sound_rules]: "steps sound (on_pending_send k f)"
  by (rule stepsI) (auto simp: on_pending_send_def sbind_def stream_at_def store_index_def modify_stream_def store_modify_def
      in_flight_put intro!: quiet_sound split: option.splits result.splits)

lemma sound_pending_recv [sound_rules]: "steps sound (on_pending_recv k f)"
  by (rule stepsI) (auto simp: on_pending_recv_def world_recv_def sbind_def stream_at_def store_index_def modify_stream_def
      store_modify_def in_flight_put intro!: quiet_sound split: option.splits result.splits)

lemma sound_deques [sound_rules]:
  "steps sound (pending_push_back k f)" "steps sound (pending_push_front k f)" "steps sound (pending_pop_front k)"
  "steps sound (event_push_back k ev)" "steps sound (event_push_front k ev)" "steps sound (event_pop_front k)"
  by (simp_all add: pending_push_back_def pending_push_front_def pending_pop_front_def event_push_back_def
      event_push_front_def event_pop_front_def sound_rules)

text \<open>Streams come with nothing in flight, and what one that goes still holds is no longer counted.\<close>

lemma slab_insert_sum: "slab_insert v s = (k, s') \<Longrightarrow> slab_sum f s' = slab_sum f s + f v"
  using slab_sum_fresh [of "s\<lparr>slab_wishes := tl (slab_wishes s)\<rparr>" k f v] by (auto simp: slab_insert_def Let_def)

lemma stream_new_in_flight: "stream_new i a b = Ok s \<Longrightarrow> in_flight_recv_data s = 0"
  by (auto simp: stream_new_def rbind_eq_Ok split: result.splits)

lemma sound_unlink [sound_rules]: "steps sound (unlink_stream k)"
  by (auto simp: steps_def unlink_stream_def store_unlink_def in_flight_sum_def intro!: quiet_sound)

lemma sound_remove [sound_rules]: "steps sound (remove_stream k)"
proof -
  have "in_flight_sum st' \<le> in_flight_sum st" if "store_remove k st = Ok st'" for st st'
  proof -
    from that obtain s where "slab_get (store_slab st) (key_index k) = Some s"
      "store_slab st' = slab_set (key_index k) None (store_slab st)"
      by (auto simp: store_remove_def slab_remove_def rbind_eq_Ok split: option.splits)
    then show ?thesis
      using slab_sum_delete [of "store_slab st" "key_index k" s "\<lambda>s. unat (in_flight_recv_data s)"]
      by (simp add: in_flight_sum_def)
  qed
  then show ?thesis by (auto simp: steps_def remove_stream_def intro!: quiet_sound split: result.splits)
qed

lemma sound_insert_vacant [sound_rules]:
  "in_flight_recv_data s = 0 \<Longrightarrow> steps sound (insert_vacant i s)"
  by (rule stepsI) (auto simp: insert_vacant_def vacant_insert_def in_flight_sum_def dest!: slab_insert_sum [where f = "\<lambda>s. unat (in_flight_recv_data s)"]
      intro!: quiet_sound split: prod.splits)

lemma sound_insert_stream [sound_rules]:
  "in_flight_recv_data s = 0 \<Longrightarrow> steps sound (insert_stream i s)"
  by (rule stepsI) (auto simp: insert_stream_def store_insert_def in_flight_sum_def rbind_eq_Ok dest!: slab_insert_sum [where f = "\<lambda>s. unat (in_flight_recv_data s)"]
      intro!: quiet_sound split: prod.splits result.splits)

text \<open>The bookkeeping after a transition.\<close>

lemma sound_counts [sound_rules]:
  "steps sound (inc_num_recv_streams k)" "steps sound (inc_num_send_streams k)" "steps sound inc_num_reset_streams"
  "steps sound (dec_num_streams k)" "steps sound dec_num_reset_streams"
  unfolding inc_num_recv_streams_def inc_num_send_streams_def inc_num_reset_streams_def dec_num_streams_def dec_num_reset_streams_def
  by (intro steps_rules sound_rules; simp)+

lemma sound_transition_after [sound_rules]: "steps sound (transition_after k b)"
  unfolding transition_after_def by (intro steps_rules sound_rules) simp_all

lemma sound_transition [sound_rules]:
  fixes f :: "(('m, 'y) streams_world_scheme, 'a, 'e) op"
  shows "steps sound f \<Longrightarrow> steps sound (transition k f)"
  by (intro steps_rules sound_rules) simp_all

section \<open>The sending half\<close>

lemma sound_schedule_send [sound_rules]:
  "steps sound (schedule_send k)" "steps sound (queue_frame f k)" "steps sound (queue_open k)"
  unfolding queue_frame_def schedule_send_def queue_open_def by (intro steps_rules sound_rules; simp)+

lemma in_flight_ops [simp]:
  "in_flight_recv_data (fst (notify_send s)) = in_flight_recv_data s"
  "in_flight_recv_data (fst (notify_recv s)) = in_flight_recv_data s"
  "in_flight_recv_data (fst (stream_assign_capacity n s)) = in_flight_recv_data s"
  "in_flight_recv_data (wait_send cx s) = in_flight_recv_data s"
  by (simp_all add: notify_send_def notify_recv_def stream_assign_capacity_def wait_send_def Let_def split: option.splits)

lemma sound_try_assign [sound_rules]: "steps sound (try_assign_capacity k)"
  unfolding try_assign_capacity_def Let_def by (intro steps_rules sound_rules) simp_all

lemma sound_assign_loop [sound_rules]:
  "steps sound (\<lambda>w :: ('m, 'y) streams_world_scheme. assign_loop w :: (unit, 'e) result \<times> _)"
proof (rule stepsI_leads)
  fix w :: "('m, 'y) streams_world_scheme"
  show "leads sound w (assign_loop w :: (unit, 'e) result \<times> _)"
  proof (induction w rule: assign_loop.induct [where 'c = 'e])
    case (1 w)
    show ?case
      by (subst assign_loop.simps, auto intro!: leads_case [OF sound_pop_queue sound_order(2)] leads_case [OF steps_stream_at [OF sound_order(1)] sound_order(2)]
          leads_case [OF sound_transition [OF sound_try_assign] sound_order(2)] split: result.split option.split)
        (blast intro: "1.IH")+
  qed
qed

lemma sound_assign_connection [sound_rules]: "steps sound (assign_connection_capacity n)"
  unfolding assign_connection_capacity_def by (intro steps_rules sound_rules) simp_all

lemma sound_capacity [sound_rules]:
  "steps sound (reserve_capacity n k)" "steps sound (prio_recv_stream_window_update n k)"
  "steps sound (prio_recv_connection_window_update n)" "steps sound (reclaim_all_capacity k)"
  "steps sound (reclaim_reserved_capacity k)"
  unfolding reserve_capacity_def prio_recv_stream_window_update_def prio_recv_connection_window_update_def
    reclaim_all_capacity_def reclaim_reserved_capacity_def Let_def
  by (intro steps_rules sound_rules; auto simp: map_ok_eq_Ok)+

lemma sound_prio_send_data [sound_rules]: "steps sound (prio_send_data frame k)"
  unfolding prio_send_data_def Let_def by (intro steps_rules sound_rules) (auto simp: map_ok_eq_Ok)

lemma sound_pop_data [sound_rules]: "steps sound (pop_data n k frame)"
  unfolding pop_data_def Let_def by (intro steps_rules sound_rules) (auto simp: map_ok_eq_Ok)

lemma sound_pop_finish [sound_rules]: "steps sound (pop_finish k b f)"
  unfolding pop_finish_def by (intro steps_rules sound_rules) simp_all

lemma sound_pop_push_promise [sound_rules]: "steps sound (pop_push_promise i)"
proof -
  have "steps sound
     (sbind (modify_stream promised (\<lambda>s. s\<lparr>is_pending_push := False\<rparr>)) (\<lambda>_.
      sbind (stream_at promised) (\<lambda>s.
        if \<not> deque_is_empty (pending_send s) then
          sbind world_counts (\<lambda>c.
            if can_inc_num_send_streams c then
              sbind (inc_num_send_streams promised) (\<lambda>_. push_queue Q_Send promised)
            else queue_open promised)
        else sret ())))" for promised
    by (intro steps_rules sound_rules) simp_all
  then show ?thesis
    by (auto simp: steps_def pop_push_promise_def split: option.splits)
qed

lemma sound_pop_stream [sound_rules]: "steps sound (pop_stream n k)"
  unfolding pop_stream_def pop_scheduled_reset_def Let_def
  by (intro steps_rules sound_rules steps_cases) simp_all

lemma sound_pop_frame [sound_rules]:
  "steps sound (\<lambda>w :: ('m, 'y) streams_world_scheme. pop_frame n w :: (_, 'e) result \<times> _)"
proof (rule stepsI_leads)
  fix w :: "('m, 'y) streams_world_scheme"
  show "leads sound w (pop_frame n w :: (_, 'e) result \<times> _)"
  proof (induction n w rule: pop_frame.induct [where 'c = 'e])
    case (1 n w)
    show ?case
      by (subst pop_frame.simps, auto intro!: leads_case [OF sound_pop_queue sound_order(2)]
          leads_case [OF sound_pop_stream sound_order(2)] split: result.split option.split)
        (blast intro: "1.IH")+
  qed
qed

lemma sound_reclaim_frame [sound_rules]: "steps sound (reclaim_frame t)"
  unfolding reclaim_frame_def push_back_frame_def Let_def
  by (intro steps_rules sound_rules steps_cases) simp_all

lemma sound_clear_frames [sound_rules]:
  "steps sound (\<lambda>w :: ('m, 'y) streams_world_scheme. clear_frames k w :: (unit, 'e) result \<times> _)"
proof (rule stepsI_leads)
  fix w :: "('m, 'y) streams_world_scheme"
  show "leads sound w (clear_frames k w :: (unit, 'e) result \<times> _)"
  proof (induction k w rule: clear_frames.induct [where 'c = 'e])
    case (1 k w)
    show ?case
      by (subst clear_frames.simps, auto intro!: leads_case [OF sound_deques(3) sound_order(2)] split: result.split option.split)
        (blast intro: "1.IH")+
  qed
qed

lemma sound_clear_queue [sound_rules]: "steps sound (clear_queue k)"
  unfolding clear_queue_def by (intro steps_rules sound_rules) simp_all

lemma sound_clear_prio_queue [sound_rules]:
  "steps sound (\<lambda>w :: ('m, 'y) streams_world_scheme. clear_prio_queue n w :: (unit, 'e) result \<times> _)"
proof (rule stepsI_leads)
  fix w :: "('m, 'y) streams_world_scheme"
  show "leads sound w (clear_prio_queue n w :: (unit, 'e) result \<times> _)"
  proof (induction n w rule: clear_prio_queue.induct [where 'c = 'e])
    case (1 n w)
    show ?case
      by (subst clear_prio_queue.simps, auto intro!: leads_case [OF sound_pop_queue sound_order(2)]
          leads_case [OF steps_stream_at [OF sound_order(1)] sound_order(2)]
          leads_case [OF sound_transition_after sound_order(2)] split: result.split option.split)
        (blast intro: "1.IH")+
  qed
qed

lemma sound_open_stream [sound_rules]: "steps sound (open_stream k)"
  unfolding open_stream_def by (intro steps_rules sound_rules) simp_all

lemma sound_schedule_pending_open [sound_rules]:
  "steps sound (\<lambda>w :: ('m, 'y) streams_world_scheme. schedule_pending_open w :: (unit, 'e) result \<times> _)"
proof (rule stepsI_leads)
  fix w :: "('m, 'y) streams_world_scheme"
  show "leads sound w (schedule_pending_open w :: (unit, 'e) result \<times> _)"
  proof (induction w rule: schedule_pending_open.induct [where 'c = 'e])
    case (1 w)
    show ?case
      by (subst schedule_pending_open.simps, auto intro!: leads_case [OF sound_pop_queue sound_order(2)]
          leads_case [OF sound_open_stream sound_order(2)] split: result.split option.split)
        (blast intro: "1.IH")+
  qed
qed

lemma sound_send_clear_queues [sound_rules]: "steps sound send_clear_queues"
  unfolding send_clear_queues_def clear_pending_capacity_def clear_pending_send_def clear_pending_open_def
  by (intro steps_rules sound_rules) simp_all

lemma sound_opening [sound_rules]: "steps sound send_open" "steps sound reserve_local"
  unfolding send_open_def reserve_local_def by (intro steps_rules sound_rules; simp)+

lemma sound_send_headers [sound_rules]:
  "steps sound (send_push_promise H pp k)" "steps sound (send_headers H frame k)" "steps sound (send_trailers H frame k)"
  unfolding send_push_promise_def send_headers_def send_trailers_def
  by (intro steps_rules sound_rules; auto simp: map_ok_eq_Ok)+

lemma sound_send_reset [sound_rules]:
  "steps sound (send_reset reason k)" "steps sound (schedule_implicit_reset k reason)" "steps sound (send_recv_err k)"
  unfolding send_reset_def schedule_implicit_reset_def send_recv_err_def Let_def
  by (intro steps_rules sound_rules; simp)+

lemma sound_send_polls [sound_rules]:
  "steps sound (send_data df k)" "steps sound (poll_capacity cx k)" "steps sound (send_poll_reset cx k mode)"
  unfolding send_data_def poll_capacity_def send_poll_reset_def
  by (intro steps_rules sound_rules steps_cases; simp)+

lemma sound_send_window_update [sound_rules]:
  "steps sound (send_recv_connection_window_update wu)" "steps sound (send_recv_stream_window_update n k)"
proof -
  show "steps sound (send_recv_connection_window_update wu)"
    unfolding send_recv_connection_window_update_def by (intro sound_rules)
  have "steps sound (sbind (send_reset FLOW_CONTROL_ERROR k) (\<lambda>_. sfail e))" for e
    by (intro steps_rules sound_rules) simp_all
  note [intro!] = leads_op [OF this]
  show "steps sound (send_recv_stream_window_update n k)"
    by (intro stepsI_leads, unfold send_recv_stream_window_update_def)
      (auto intro!: leads_case [OF sound_capacity(2) sound_order(2)] split: result.split)
qed

lemma sound_send_go_away [sound_rules]: "steps sound (send_recv_go_away i)"
  unfolding send_recv_go_away_def by (intro steps_rules sound_rules) simp_all

text \<open>The closure over \<open>total_reclaimed\<close> works on a pair.\<close>

definition sound_snd :: "u32 \<times> ('m, 'y) streams_world_scheme \<Rightarrow> u32 \<times> ('m, 'y) streams_world_scheme \<Rightarrow> bool" where
  "sound_snd p q \<longleftrightarrow> sound (snd p) (snd q)"

lemma sound_snd_order [simp]: "reflp sound_snd" "transp sound_snd"
  using transpD [OF sound_order(2)] by (auto simp: sound_snd_def intro!: reflpI transpI)

lemma sound_with_total: "steps sound m \<Longrightarrow> steps sound_snd (with_total m)"
  by (auto simp: steps_def with_total_def sound_snd_def split: prod.splits)

lemma sound_dec_stream_window: "steps sound_snd (dec_stream_window n k)"
proof -
  have "steps sound_snd (\<lambda>(t, w). (Ok (), t + c, w))" for c by (simp add: steps_def sound_snd_def)
  then show ?thesis
    unfolding dec_stream_window_def Let_def by (intro steps_rules sound_with_total sound_modify) simp_all
qed

lemma sound_dec_stream_windows:
  "steps sound (\<lambda>w :: ('m, 'y) streams_world_scheme.
     case store_for_each (world_ids \<circ> snd) (dec_stream_window n) (0, w) :: (unit, recv_error) result \<times> _ of
       (Ok _, t, w) \<Rightarrow> assign_connection_capacity t w
     | (Err e, t, w) \<Rightarrow> (Err e, w)
     | (Panic, t, w) \<Rightarrow> (Panic, w))"
proof (rule stepsI_leads)
  fix w :: "('m, 'y) streams_world_scheme"
  obtain r :: "(unit, recv_error) result" and t w1
    where run: "store_for_each (world_ids \<circ> snd) (dec_stream_window n) (0, w) = (r, t, w1)" by (metis prod_cases3)
  have "steps sound_snd (store_for_each (world_ids \<circ> snd) (dec_stream_window n) :: (_, unit, recv_error) op)"
    by (intro steps_for_each sound_dec_stream_window) simp_all
  from stepsD [OF this run] have "sound w w1" by (simp add: sound_snd_def)
  with run leads_op [OF sound_assign_connection, of w1 t] transpD [OF sound_order(2)]
  show "leads sound w (case store_for_each (world_ids \<circ> snd) (dec_stream_window n) (0, w) :: (unit, recv_error) result \<times> _ of
       (Ok _, t, w) \<Rightarrow> assign_connection_capacity t w
     | (Err e, t, w) \<Rightarrow> (Err e, w)
     | (Panic, t, w) \<Rightarrow> (Panic, w))"
    by (cases r) (auto simp: leads_def)
qed

lemma sound_apply_remote_settings [sound_rules]: "steps sound (send_apply_remote_settings f)"
proof -
  have inc: "steps sound (\<lambda>w. store_for_each world_ids (\<lambda>k. smap_err g (send_recv_stream_window_update n k)) w)" for n g
    by (intro steps_for_each steps_rules sound_rules) simp_all
  show ?thesis
    unfolding send_apply_remote_settings_def Let_def
    by (intro steps_rules steps_cases sound_rules sound_dec_stream_windows inc) simp_all
qed

section \<open>The receiving half\<close>

lemma sound_recv_open [sound_rules]: "steps sound (recv_open i mode)" "steps sound (recv_go_away_sent i)"
  unfolding recv_open_def recv_go_away_sent_def by (intro steps_rules sound_rules; simp)+

lemma sound_recv_headers [sound_rules]: "steps sound (recv_headers H U frame k)"
  unfolding recv_headers_def by (intro steps_rules steps_cases sound_rules) simp_all

lemma sound_recv_trailers [sound_rules]:
  "steps sound (recv_trailers frame k)" "steps sound (recv_push_promise H U pp k)"
  unfolding recv_trailers_def recv_push_promise_def
  by (intro steps_rules steps_cases sound_rules; auto simp: map_ok_eq_Ok)+

lemma sound_recv_resets [sound_rules]:
  "steps sound (notify_both k)" "steps sound (recv_reset reason k)" "steps sound (recv_recv_err err k)"
  "steps sound (recv_recv_eof k)"
  unfolding notify_both_def recv_reset_def recv_recv_err_def recv_recv_eof_def
  by (intro steps_rules sound_rules; simp)+

lemma sound_clear_recv_buffer [sound_rules]:
  "steps sound (\<lambda>w :: ('m, 'y) streams_world_scheme. clear_recv_buffer k w :: (unit, 'e) result \<times> _)"
proof (rule stepsI_leads)
  fix w :: "('m, 'y) streams_world_scheme"
  show "leads sound w (clear_recv_buffer k w :: (unit, 'e) result \<times> _)"
  proof (induction k w rule: clear_recv_buffer.induct [where 'c = 'e])
    case (1 k w)
    show ?case
      by (subst clear_recv_buffer.simps, auto intro!: leads_case [OF sound_deques(6) sound_order(2)] split: result.split option.split)
        (blast intro: "1.IH")+
  qed
qed

lemma sound_apply_local_settings [sound_rules]: "steps sound (apply_local_settings f)"
proof -
  have dec: "steps sound (\<lambda>w. store_for_each world_ids (\<lambda>k. modify_stream k (\<lambda>s. s\<lparr>recv_flow := g s\<rparr>)) w)" for g
    by (intro steps_for_each sound_rules) simp_all
  have inc: "steps sound (\<lambda>w. store_for_each world_ids (\<lambda>k. try_stream k (\<lambda>s. rbind (g s) (\<lambda>fl. Ok (s\<lparr>recv_flow := h fl\<rparr>)))) w)"
    for g h
    by (intro steps_for_each sound_rules) (auto simp: rbind_eq_Ok)
  show ?thesis
    unfolding apply_local_settings_def Let_def by (intro steps_rules steps_cases sound_rules dec inc) simp_all
qed

lemma sound_enqueue_reset [sound_rules]: "steps sound (enqueue_reset_expiration now k)"
  unfolding enqueue_reset_expiration_def by (intro steps_rules steps_cases sound_rules) simp_all

lemma sound_recv_clear_queue [sound_rules]:
  "steps sound (\<lambda>w :: ('m, 'y) streams_world_scheme. recv_clear_queue n flag w :: (unit, 'e) result \<times> _)"
proof (rule stepsI_leads)
  fix w :: "('m, 'y) streams_world_scheme"
  show "leads sound w (recv_clear_queue n flag w :: (unit, 'e) result \<times> _)"
  proof (induction n flag w rule: recv_clear_queue.induct [where 'c = 'e])
    case (1 n flag w)
    show ?case
      by (subst recv_clear_queue.simps, auto intro!: leads_case [OF sound_recv_pop_queue sound_order(2)]
          leads_case [OF sound_transition_after sound_order(2)] split: result.split option.split)
        (blast intro: "1.IH")+
  qed
qed

lemma sound_recv_clear_queues [sound_rules]: "steps sound (recv_clear_queues b)"
  unfolding recv_clear_queues_def clear_stream_window_update_queue_def clear_all_reset_streams_def clear_all_pending_accept_def
  by (intro steps_rules sound_rules) simp_all

section \<open>Polls\<close>

lemma sound_polls [sound_rules]:
  "steps sound (take_request k)" "steps sound (schedule_recv cx k)" "steps sound (poll_response cx k)"
  unfolding take_request_def schedule_recv_def poll_response_def
  by (intro steps_rules steps_cases sound_rules; simp)+

lemma leads_stream_at:
  assumes "reflp R" "\<And>s. store_get (ss_store w) k = Some s \<Longrightarrow> leads R w (F s w)"
  shows "leads R w (sbind (stream_at k) F w)"
  using assms by (cases "store_get (ss_store w) k") (auto simp: sbind_def stream_at_def store_index_def leads_def reflpD)

lemma leads_store:
  assumes "in_flight_sum st \<le> in_flight_sum (ss_store w)" "steps sound m"
  shows "leads sound w (m (w\<lparr>ss_store := st\<rparr>))"
proof -
  have "sound w (w\<lparr>ss_store := st\<rparr>)" using assms(1) by (intro quiet_sound) simp_all
  moreover have "sound (w\<lparr>ss_store := st\<rparr>) (snd (m (w\<lparr>ss_store := st\<rparr>)))"
    using leads_op [OF assms(2)] by (simp add: leads_def)
  ultimately show ?thesis using transpD [OF sound_order(2)] by (simp add: leads_def) blast
qed

lemma next_accept_in_flight: "in_flight_recv_data (nx_set_next NextAccept j s) = in_flight_recv_data s"
  "in_flight_recv_data (nx_set_queued NextAccept b s) = in_flight_recv_data s"
  by (simp_all add: next_defs)

lemma promises_in_flight:
  assumes "store_get st k = Some s"
  shows "queue_pop NextAccept (q, store_put k (s\<lparr>pending_push_promises := None\<rparr>) st) = Ok (r, q', st') \<Longrightarrow>
      in_flight_sum st' = in_flight_sum st"
    "queue_push NextAccept j (q, store_put k (s\<lparr>pending_push_promises := None\<rparr>) st) = Ok (b, q', st') \<Longrightarrow>
      in_flight_sum st' = in_flight_sum st"
  using in_flight_put [OF assms, of "s\<lparr>pending_push_promises := None\<rparr>"]
    queue_pop_view [of NextAccept q "store_put k (s\<lparr>pending_push_promises := None\<rparr>) st" r q' st' in_flight_recv_data]
    queue_push_view [of NextAccept j q "store_put k (s\<lparr>pending_push_promises := None\<rparr>) st" b q' st' in_flight_recv_data]
    in_flight_view [of st' "store_put k (s\<lparr>pending_push_promises := None\<rparr>) st"]
  by (auto simp: next_accept_in_flight)

lemma sound_poll_pushed [sound_rules]:
  "steps sound (poll_pushed cx k :: (('m, 'y) streams_world_scheme, _, _) op)"
proof (rule stepsI_leads, unfold poll_pushed_def, rule leads_stream_at [OF sound_order(1)])
  fix w :: "('m, 'y) streams_world_scheme" and s
  assume s: "store_get (ss_store w) k = Some s"
  show "leads sound w
     (case queue_pop NextAccept (pending_push_promises s, store_put k (s\<lparr>pending_push_promises := None\<rparr>) (ss_store w)) of
         Ok (popped, q, st) \<Rightarrow>
           sbind
             (case popped of
                Some j \<Rightarrow>
                  sbind (event_pop_front j) (\<lambda>ev.
                    case ev of
                      Some (Event_Headers (Message_Server headers)) \<Rightarrow> sret (Some (headers, j))
                    | _ \<Rightarrow> spanic)
              | None \<Rightarrow> sret None) (\<lambda>res.
           sbind (modify_stream k (\<lambda>s. s\<lparr>pending_push_promises := q\<rparr>)) (\<lambda>_.
             case res of
               Some p \<Rightarrow> sret (Ready (Some p))
             | None \<Rightarrow> schedule_recv cx k)) (w\<lparr>ss_store := st\<rparr>)
       | Err e \<Rightarrow> (Err e, w)
       | Panic \<Rightarrow> (Panic, w))"
    by (auto split: result.split intro!: leads_store steps_rules steps_cases sound_rules simp: promises_in_flight [OF s])
qed

lemma sound_event_polls [sound_rules]:
  "steps sound (poll_data cx k)" "steps sound (poll_trailers cx k)" "steps sound next_incoming"
  unfolding poll_data_def poll_trailers_def next_incoming_def
  by (intro steps_rules steps_cases sound_rules; simp)+

lemma sound_pop_expired: "steps sound (pop_expired now)"
proof (rule stepsI)
  fix w w' :: "('m, 'y) streams_world_scheme" and r :: "(key option, 'e) result"
  assume "pop_expired now w = (r, w')"
  then show "sound w w'"
    using next_fields_in_flight(3,4) [of "Q_Expire now"]
    by (auto simp: pop_expired_def queue_pop_if_def rbind_eq_Ok intro!: quiet_sound eq_imp_le [OF in_flight_view]
        dest!: queue_pop_view [of "NextResetExpire now" _ _ _ _ _ in_flight_recv_data]
        split: if_splits result.splits option.splits indices.splits)
qed

lemma sound_clear_expired [sound_rules]:
  "steps sound (\<lambda>w :: ('m, 'y) streams_world_scheme. clear_expired_reset_streams now w :: (unit, 'e) result \<times> _)"
proof (rule stepsI_leads)
  fix w :: "('m, 'y) streams_world_scheme"
  show "leads sound w (clear_expired_reset_streams now w :: (unit, 'e) result \<times> _)"
  proof (induction now w rule: clear_expired_reset_streams.induct [where 'c = 'e])
    case (1 now w)
    show ?case
      by (subst clear_expired_reset_streams.simps, auto intro!: leads_case [OF sound_pop_expired sound_order(2)]
          leads_case [OF sound_transition_after sound_order(2)] split: result.split option.split)
        (blast intro: "1.IH")+
  qed
qed

section \<open>Writing to the codec\<close>

lemma sound_on_codec [sound_rules]: "steps sound (on_codec m)"
  by (auto simp: steps_def on_codec_def intro!: quiet_sound split: prod.splits)

lemma sound_buffer_expect [sound_rules]: "steps sound (buffer_expect C f)"
  by (rule stepsI_leads, unfold buffer_expect_def)
    (auto intro!: leads_case [OF sound_on_codec sound_order(2)] split: result.split)

lemma sound_pending_refusal [sound_rules]: "steps sound (send_pending_refusal C)"
  unfolding send_pending_refusal_def Let_def by (intro steps_rules steps_cases sound_rules) simp_all

lemma sound_announce [sound_rules]: "steps sound (announce_stream_window C k)"
  unfolding announce_stream_window_def by (intro steps_rules steps_cases sound_rules) simp_all

lemma sound_send_window_updates [sound_rules]:
  "steps sound (\<lambda>w :: ('m, 'c, 'y) wired_world_scheme. send_stream_window_updates C w)"
proof (rule stepsI_leads)
  fix w :: "('m, 'c, 'y) wired_world_scheme"
  show "leads sound w (send_stream_window_updates C w)"
  proof (induction C w rule: send_stream_window_updates.induct)
    case (1 C w)
    show ?case
      by (subst send_stream_window_updates.simps, auto intro!: leads_case [OF sound_on_codec sound_order(2)]
          leads_case [OF sound_recv_pop_queue sound_order(2)]
          leads_case [OF sound_transition [OF sound_announce] sound_order(2)] split: result.split option.split io_poll.split)
        (blast intro: "1.IH")+
  qed
qed

lemma sound_reclaim_codec [sound_rules]:
  "steps sound (reclaim_from_codec C :: (('m, 'c, 'y) wired_world_scheme, _, _) op)"
proof (rule stepsI_leads)
  fix w :: "('m, 'c, 'y) wired_world_scheme"
  have "sound w (w\<lparr>ss_codec := c\<rparr>)" for c :: 'c by (rule quiet_sound) simp_all
  then show "leads sound w (reclaim_from_codec C w)"
    using leads_op [OF sound_reclaim_frame] transpD [OF sound_order(2)]
    by (fastforce simp: reclaim_from_codec_def leads_def split: prod.split)
qed

text \<open>The loop of the prioritizer, if it ends.\<close>

definition leads_some :: "('s \<Rightarrow> 's \<Rightarrow> bool) \<Rightarrow> 's \<Rightarrow> ('a \<times> 's) option \<Rightarrow> bool" where
  "leads_some R w p \<longleftrightarrow> (\<forall>q. p = Some q \<longrightarrow> leads R w q)"

lemma leads_some_simps [simp]: "leads_some R w (Some q) = leads R w q" "leads_some R w None"
  by (simp_all add: leads_some_def)

lemma leads_some_case:
  assumes "steps R m" "transp R" "\<And>r w1. (r, w1) = m w \<Longrightarrow> leads_some R w1 (F r w1)"
  shows "leads_some R w (case m w of (r, w1) \<Rightarrow> F r w1)"
proof (cases "m w")
  case (Pair r w1)
  then have "R w w1" using stepsD [OF assms(1)] by blast
  with assms(3) [OF Pair [symmetric]] Pair transpD [OF assms(2)] show ?thesis
    by (auto simp: leads_some_def leads_def)
qed

lemma sound_write_loop: "leads_some sound (w :: ('m, 'c, 'y) wired_world_scheme) (prio_write_loop C n w)"
proof -
  have "leads sound w q" if "prio_write_loop C n w = Some q" for q
  proof (rule prio_write_loop.raw_induct [where P = "\<lambda>C n w q. leads sound w q", OF _ that], goal_cases)
    case (1 loop C n w q)
    have loop: "leads_some sound w (loop C n w)" for C n w using 1(1) by (auto simp: leads_some_def)
    have pop: "steps sound (sbind schedule_pending_open (\<lambda>_. pop_frame n))" by (intro steps_rules sound_rules) simp_all
    have sent: "steps sound (sbind
        (case f of
           FData df \<Rightarrow> modify_prio (\<lambda>p. p\<lparr>in_flight_data_frame := In_Flight (pr_stream (data_data df))\<rparr>)
         | _ \<Rightarrow> sret ()) (\<lambda>_.
      sbind (buffer_expect C f) (\<lambda>_.
      sbind (on_codec (co_poll_ready C)) (\<lambda>p.
        case p of
          Ready _ \<Rightarrow> sbind (reclaim_from_codec C) (\<lambda>_. sret (Ready ()))
        | Pending \<Rightarrow> sret Pending))))" for f
      by (intro steps_rules steps_cases sound_rules) simp_all
    have "leads_some sound w (Some q)"
      unfolding 1(2) [symmetric]
      by (auto intro!: leads_some_case [OF pop sound_order(2)] leads_some_case [OF sent sound_order(2)]
          leads_some_case [OF sound_on_codec sound_order(2)] leads_some_case [OF sound_reclaim_codec sound_order(2)] loop
          split: result.split option.split io_poll.split)
    then show ?case by simp
  qed
  then show ?thesis by (simp add: leads_some_def)
qed

end
