(* ===== verification/Window_Accounting.thy ===== *)
theory Window_Accounting
  imports Recv_Accounting
begin

text \<open>
  The window of the connection over every history of calls: the frames of the peer, the
  connection task and the handles of the application. \<open>Recv_Accounting\<close> has the frame rules of the operations that
  leave the books alone; here are those that move bytes, the methods of \<open>Streams\<close> and of the handles, and
  the invariant.
\<close>

section \<open>The operations that keep the books\<close>

lemma in_flight_at: "store_get (ss_store w) k = Some s \<Longrightarrow> unat (in_flight_recv_data s) \<le> in_flight_sum (ss_store w)"
  using store_put_sum [of "ss_store w" k s "\<lambda>s. unat (in_flight_recv_data s)" "s\<lparr>in_flight_recv_data := 0\<rparr>"]
  by (simp add: in_flight_sum_def)

lemma books_range:
  assumes "books T M r"
  shows "uint (rv_in_flight_data r) \<le> 2147483647" "- 2147483647 \<le> sint (fc_available (rv_flow r))"
    "sint (fc_available (rv_flow r)) + uint (rv_in_flight_data r) \<le> 2147483647"
  using assms by (auto simp: books_def)

lemma books_release:
  assumes "books T M r" "uint c \<le> uint (rv_in_flight_data r)"
  shows "books T M (r\<lparr>rv_in_flight_data := rv_in_flight_data r - c, rv_flow := flow_assign_capacity c (rv_flow r)\<rparr>)"
proof -
  note range = books_range [OF assms(1)] uint_ge_0 [of c] assms(2)
  have F: "uint (rv_in_flight_data r - c) = uint (rv_in_flight_data r) - uint c"
    using assms(2) by (simp add: uint_sub_if')
  have "uint c < 2147483648" using range by linarith
  then have c: "sint c = uint c" by (intro sint_size) simp
  have "- 2147483648 \<le> sint (fc_available (rv_flow r)) + uint c" "sint (fc_available (rv_flow r)) + uint c \<le> 2147483647"
    using range by linarith+
  then have "sint (fc_available (rv_flow r) + c) = sint (fc_available (rv_flow r)) + sint c"
    unfolding c [symmetric] by (intro sint_add_i32) simp_all
  moreover have "sint (fc_window_size (rv_flow r)) + (uint (rv_in_flight_data r) - uint c) \<le> M"
    using assms(1) [unfolded books_def] uint_ge_0 [of c] by linarith
  ultimately show ?thesis using assms F c by (simp add: books_def flow_assign_capacity_def)
qed

lemma books_consume:
  assumes "books T M r" "uint sz \<le> sint (fc_window_size (rv_flow r))" "flow_send_data sz (rv_flow r) = Ok fl"
  shows "books T M (r\<lparr>rv_flow := fl, rv_in_flight_data := rv_in_flight_data r + sz\<rparr>)"
    "uint (rv_in_flight_data r + sz) = uint (rv_in_flight_data r) + uint sz"
proof -
  have small: "uint (rv_in_flight_data r) + uint sz \<le> 2147483647" using assms(1,2) by (simp add: books_def)
  then show F: "uint (rv_in_flight_data r + sz) = uint (rv_in_flight_data r) + uint sz" by (simp add: uint_plus_if')
  note range = books_range [OF assms(1)] uint_ge_0 [of sz] uint_ge_0 [of "rv_in_flight_data r"] small
  have "uint sz < 2147483648" using range by linarith
  then have sz: "sint sz = uint sz" by (intro sint_size) simp
  have W: "sint (fc_window_size (rv_flow r) - sz) = sint (fc_window_size (rv_flow r)) - uint sz"
    using assms(2) by (intro sint_sub_size) simp
  have "- 2147483648 \<le> sint (fc_available (rv_flow r)) - uint sz" "sint (fc_available (rv_flow r)) - uint sz \<le> 2147483647"
    using range assms(1) by (simp_all only: books_def) linarith+
  then have A: "sint (fc_available (rv_flow r) - sz) = sint (fc_available (rv_flow r)) - uint sz"
    unfolding sz [symmetric] by (intro sint_diff_i32) simp_all
  have "fl = (rv_flow r)\<lparr>fc_window_size := fc_window_size (rv_flow r) - sz, fc_available := fc_available (rv_flow r) - sz\<rparr>"
    using assms(3) by (auto simp: flow_send_data_def rbind_eq_Ok)
  with assms(1,2) F W A show "books T M (r\<lparr>rv_flow := fl, rv_in_flight_data := rv_in_flight_data r + sz\<rparr>)"
    by (simp add: books_def)
qed

lemma wp_modify_recv [wp_simps]: "wp (modify_recv f) Q w = Q (Ok ()) (w\<lparr>ss_recv := f (ss_recv w)\<rparr>)"
  by (simp add: wp_def modify_recv_def)

lemma wp_world_recv [wp_simps]: "wp world_recv Q w = Q (Ok (ss_recv w)) w"
  by (simp add: wp_def world_recv_def)

lemma wp_sfail [wp_simps]: "wp (sfail e) Q w = Q (Err e) w"
  by (simp add: wp_def)

lemma wp_spanic: "wp spanic Q w = Q Panic w"
  by (simp add: wp_def)

lemma wp_sound: "steps sound m \<Longrightarrow> accounts d T M w \<Longrightarrow> (\<And>r w'. accounts d T M w' \<Longrightarrow> Q r w') \<Longrightarrow> wp m Q w"
  by (cases "m w") (auto simp: wp_def sound_def dest: stepsD)

lemma steps_soundI:
  assumes "\<And>d T M w. accounts d T M w \<Longrightarrow> wp m (\<lambda>_. accounts d T M) w"
  shows "steps sound m"
proof (rule stepsI)
  fix w r w' assume run: "m w = (r, w')"
  have "accounts d T M w'" if "accounts d T M w" for d T M
    using assms [OF that] run by (simp add: wp_def)
  then show "sound w w'" by (simp add: sound_def)
qed

lemma accounts_less: "accounts d T M w \<Longrightarrow> d' \<le> d \<Longrightarrow> accounts d' T M w"
  by (simp add: accounts_def)

lemma accounts_woken [simp]:
  "accounts d T M (w\<lparr>ss_task := t, ss_woken := ws\<rparr>) = accounts d T M w"
  by (simp add: accounts_def)

lemma wp_sbind_assert: "wp (sbind (assert_op b) f) Q w = (if b then wp (f ()) Q w else Q Panic w)"
  by (simp add: wp_simps)

lemma wp_sbind_stream_at:
  "wp (sbind (stream_at k) f) Q w = (case store_get (ss_store w) k of Some s \<Rightarrow> wp (f s) Q w | None \<Rightarrow> Q Panic w)"
  by (simp add: wp_simps split: option.split)

text \<open>Bytes that are set aside can be released.\<close>

lemma unat_minus: "unat c \<le> unat (n :: u32) \<Longrightarrow> unat (n - c) + unat c = unat n"
  by (simp add: unat_sub word_le_nat_alt)

lemma uint_le_unat: "unat (c :: u32) \<le> unat (n :: u32) \<Longrightarrow> uint c \<le> uint n"
  using word_le_nat_alt [of c n] word_le_def [of c n] by blast

lemma release_reserved:
  assumes "accounts (d + unat c) T M w"
  shows "wp (release_connection_capacity c b) (\<lambda>r w'. r = Ok () \<and> accounts d T M w') w"
proof -
  let ?r = "ss_recv w"
  let ?r' = "?r\<lparr>rv_in_flight_data := rv_in_flight_data ?r - c, rv_flow := flow_assign_capacity c (rv_flow ?r)\<rparr>"
  have le: "unat c \<le> unat (rv_in_flight_data ?r)" using assms by (simp add: accounts_def)
  have "books T M ?r'" using assms uint_le_unat [OF le] by (intro books_release) (simp_all add: accounts_def)
  then have "accounts d T M (w\<lparr>ss_recv := ?r'\<rparr>)" using assms unat_minus [OF le] by (simp add: accounts_def)
  then show ?thesis by (simp add: release_connection_capacity_def wp_simps split: option.split)
qed

lemma consume_reserves:
  assumes "accounts d T M w"
  shows "wp (consume_connection_window sz)
    (\<lambda>r w'. accounts (case r of Ok _ \<Rightarrow> d + unat sz | _ \<Rightarrow> d) T M w' \<and> (\<forall>i e. r \<noteq> Err (Recv_Stream i e))) w"
proof (cases "flow_window_size (rv_flow (ss_recv w)) < sz")
  case True
  with assms show ?thesis by (simp add: consume_connection_window_def wp_simps)
next
  case False
  let ?r = "ss_recv w"
  have "0 \<le> sint (fc_window_size (rv_flow ?r))" using assms by (simp add: accounts_def books_def)
  with False have sz: "uint sz \<le> sint (fc_window_size (rv_flow ?r))"
    by (simp add: flow_window_size_def word_less_def uint_window_as_size)
  then obtain fl where fl: "flow_send_data sz (rv_flow ?r) = (Ok fl :: (_, recv_error) result)"
    by (simp add: flow_send_data_def size_le_window_iff)
  have books: "books T M ?r" using assms by (simp add: accounts_def)
  have "unat (rv_in_flight_data ?r + sz) = unat (rv_in_flight_data ?r) + unat sz"
    using books_consume(2) [OF books sz fl] by (simp only: unat_eq_nat_uint nat_add_distrib uint_ge_0)
  with assms books_consume(1) [OF books sz fl]
  have "accounts (d + unat sz) T M (w\<lparr>ss_recv := ?r\<lparr>rv_flow := fl, rv_in_flight_data := rv_in_flight_data ?r + sz\<rparr>\<rparr>)"
    by (simp add: accounts_def)
  with False fl show ?thesis by (simp add: consume_connection_window_def wp_simps)
qed

lemma ignore_data_books:
  assumes "accounts d T M w"
  shows "wp (ignore_data sz) (\<lambda>r w'. accounts d T M w' \<and> (\<forall>i e. r \<noteq> Err (Recv_Stream i e))) w"
  unfolding ignore_data_def wp_sbind
  by (rule wp_mono [OF consume_reserves [OF assms]])
    (auto split: result.splits intro: wp_mono [OF release_reserved])

lemma sound_ignore_data [sound_rules]: "steps sound (ignore_data sz)"
  by (rule steps_soundI, erule wp_mono [OF ignore_data_books]) simp

text \<open>Releasing what a stream holds.\<close>

lemma release_stream:
  assumes "accounts d T M (w :: ('m, 'y) streams_world_scheme)" "store_get (ss_store w) k = Some s" "c \<le> in_flight_recv_data s"
    "in_flight_recv_data (f s) = in_flight_recv_data s - c"
  shows "books T M ((ss_recv w)\<lparr>rv_in_flight_data := rv_in_flight_data (ss_recv w) - c,
      rv_flow := flow_assign_capacity c (rv_flow (ss_recv w))\<rparr>)"
    "in_flight_sum (store_put k (f s) (ss_store w)) + d \<le> unat (rv_in_flight_data (ss_recv w) - c)"
proof -
  let ?r = "ss_recv w"
  let ?r' = "?r\<lparr>rv_in_flight_data := rv_in_flight_data ?r - c, rv_flow := flow_assign_capacity c (rv_flow ?r)\<rparr>"
  have c: "unat c \<le> unat (in_flight_recv_data s)" using assms(3) by (simp add: word_le_nat_alt)
  then have sum: "in_flight_sum (store_put k (f s) (ss_store w)) + unat c = in_flight_sum (ss_store w)"
    using store_put_sum [OF assms(2), of "\<lambda>s. unat (in_flight_recv_data s)" "f s"] unat_minus [OF c]
    by (simp add: in_flight_sum_def assms(4))
  have le: "unat c \<le> unat (rv_in_flight_data ?r)"
    using in_flight_at [OF assms(2)] assms(1) c by (simp add: accounts_def)
  show "books T M ?r'" using assms(1) uint_le_unat [OF le] by (intro books_release) (simp_all add: accounts_def)
  show "in_flight_sum (store_put k (f s) (ss_store w)) + d \<le> unat (rv_in_flight_data ?r - c)"
    using assms(1) unat_minus [OF le] sum by (simp add: accounts_def)
qed

lemma sound_release [sound_rules]:
  "steps sound (release_capacity c k)" "steps sound (release_closed_capacity k)"
proof -
  show "steps sound (release_capacity c k :: (('m, 'y) streams_world_scheme, _, _) op)"
  proof (rule steps_soundI)
    fix d T M and w :: "('m, 'y) streams_world_scheme"
    assume w: "accounts d T M w"
    show "wp (release_capacity c k) (\<lambda>_. accounts d T M) w"
      using w release_stream [OF w, of k _ c "\<lambda>s. s\<lparr>in_flight_recv_data := in_flight_recv_data s - c,
          recv_flow := flow_assign_capacity c (recv_flow s)\<rparr>"]
      by (auto simp: release_capacity_def release_connection_capacity_def wp_simps Let_def not_less accounts_def
          intro!: wp_sound [OF sound_recv_push_queue, of d T M] split: option.split result.split)
  qed
  show "steps sound (release_closed_capacity k :: (('m, 'y) streams_world_scheme, unit, 'e) op)"
  proof (rule steps_soundI)
    fix d T M and w :: "('m, 'y) streams_world_scheme"
    assume w: "accounts d T M w"
    show "wp (release_closed_capacity k) (\<lambda>_. accounts d T M :: _ \<Rightarrow> bool) w"
      using w release_stream [OF w, of k _ _ "\<lambda>s. s\<lparr>in_flight_recv_data := 0\<rparr>"]
      by (auto simp: release_closed_capacity_def release_connection_capacity_def wp_simps accounts_def
          intro!: wp_sound [OF sound_clear_recv_buffer, of d T M] split: option.split)
  qed
qed

text \<open>A DATA frame: its bytes are set aside until the stream has them.\<close>

definition data_books :: "nat \<Rightarrow> nat \<Rightarrow> int \<Rightarrow> int \<Rightarrow> (unit, recv_error) result \<Rightarrow> ('m, 'y) streams_world_scheme \<Rightarrow> bool" where
  "data_books d n T M r w \<longleftrightarrow> accounts (case r of Err (Recv_Stream _ _) \<Rightarrow> d + n | _ \<Rightarrow> d) T M w"

lemma data_booksI: "accounts (d + n) T M w \<Longrightarrow> data_books d n T M r w"
  by (auto simp: data_books_def split: result.split recv_error.split elim: accounts_less)

lemma data_books_bind:
  assumes "accounts (d + n) T M w" "steps sound m" "\<And>x w'. accounts (d + n) T M w' \<Longrightarrow> wp (f x) (data_books d n T M) w'"
  shows "wp (sbind m f) (data_books d n T M) w"
  unfolding wp_sbind
  by (rule wp_sound [OF assms(2,1)]) (auto intro: assms(3) data_booksI split: result.split)

lemma map_ok_eq_Err: "map_ok f r = Err e \<longleftrightarrow> r = Err e"
  by (cases r) simp_all

lemma data_books_if:
  "(b \<Longrightarrow> wp m (data_books d n T M) w) \<Longrightarrow> (\<not> b \<Longrightarrow> wp m' (data_books d n T M) w) \<Longrightarrow> wp (if b then m else m') (data_books d n T M) w"
  by simp

lemma event_push_no_error: "event_push_back k ev w \<noteq> (Err e, w')"
  by (auto simp: event_push_back_def on_pending_recv_def world_recv_def sbind_def stream_at_def store_index_def modify_stream_def
      store_modify_def deque_push_back_def slab_update_def map_ok_eq_Err rbind_eq_Err
      split: option.splits result.splits prod.splits indices.splits)

lemma waking_no_error: "waking_stream k f w \<noteq> (Err e, w')"
  by (auto simp: waking_stream_run split: option.splits)

lemma deliver_books:
  assumes "accounts (d + unat sz) T M (w :: ('m, 'y) streams_world_scheme)"
  shows "wp (sbind (modify_stream k (\<lambda>s. s\<lparr>in_flight_recv_data := in_flight_recv_data s + sz\<rparr>)) (\<lambda>_.
      sbind (event_push_back k ev) (\<lambda>_. waking_stream k notify_recv))) (data_books d n T M) w"
proof (cases "store_get (ss_store w) k")
  case None
  with assms show ?thesis by (simp add: wp_simps data_books_def accounts_def)
next
  case (Some s)
  let ?s = "s\<lparr>in_flight_recv_data := in_flight_recv_data s + sz\<rparr>"
  have "unat (in_flight_recv_data s) + unat sz \<le> unat (rv_in_flight_data (ss_recv w))"
    using assms in_flight_at [OF Some] by (simp add: accounts_def)
  also have "\<dots> < 2 ^ 32" using unsigned_less [of "rv_in_flight_data (ss_recv w)"] by simp
  finally have "unat (in_flight_recv_data s + sz) = unat (in_flight_recv_data s) + unat sz"
    by (simp add: unat_word_ariths)
  then have w1: "accounts d T M (w\<lparr>ss_store := store_put k ?s (ss_store w)\<rparr>)"
    using assms store_put_sum [OF Some, of "\<lambda>s. unat (in_flight_recv_data s)" ?s] by (simp add: accounts_def in_flight_sum_def)
  let ?tail = "sbind (event_push_back k ev) (\<lambda>_. waking_stream k notify_recv) :: (('m, 'y) streams_world_scheme, unit, recv_error) op"
  obtain r w2 where run: "?tail (w\<lparr>ss_store := store_put k ?s (ss_store w)\<rparr>) = (r, w2)" by fastforce
  have "steps sound ?tail" by (intro steps_rules sound_rules) simp_all
  from stepsD [OF this run] w1 have w2: "accounts d T M w2" by (simp add: sound_def)
  have "\<forall>e. r \<noteq> Err e"
    using run by (auto simp: sbind_eq_Err event_push_no_error waking_no_error)
  with w2 have "data_books d n T M r w2" by (cases r) (simp_all add: data_books_def)
  moreover have "sbind (modify_stream k (\<lambda>s. s\<lparr>in_flight_recv_data := in_flight_recv_data s + sz\<rparr>)) (\<lambda>_. ?tail) w = (r, w2)"
    using Some run by (simp add: sbind_def [of "modify_stream _ _"] modify_stream_def store_modify_def store_index_def)
  ultimately show ?thesis by (simp add: wp_def)
qed

lemma recv_data_books:
  assumes "accounts d T M w"
  shows "wp (recv_data frame k) (data_books d (length (data_data frame)) T M) w"
proof (cases "length (data_data frame) \<le> unat MAX_WINDOW_SIZE")
  case False
  with assms show ?thesis by (simp add: recv_data_def Let_def wp_simps data_books_def)
next
  case True
  define n where "n = length (data_data frame)"
  have sz: "unat (word_of_nat n :: u32) = n" using True by (simp add: n_def MAX_WINDOW_SIZE_eq unat_of_nat)
  have start: "data_books d n T M (Err (Recv_Connection e)) w" "data_books d n T M Panic w" for e
    using assms by (simp_all add: data_books_def)
  have ignored: "wp (ignore_data (word_of_nat n)) (data_books d n T M) w"
    by (rule wp_mono [OF ignore_data_books [OF assms]]) (auto simp: data_books_def split: result.splits recv_error.splits)
  have rest: "wp
      (if flow_window_size (recv_flow s) < word_of_nat n then sfail (Recv_Stream (st_id s) FLOW_CONTROL_ERROR)
       else
         sbind (try_stream k (\<lambda>s. map_err (\<lambda>_. Recv_Stream (st_id s) PROTOCOL_ERROR) (dec_content_length n s))) (\<lambda>_.
         sbind (stream_at k) (\<lambda>s.
         sbind
           (if data_is_end_stream frame then
              (if ensure_content_length_zero s \<noteq> Ok () then sfail (Recv_Stream (st_id s) PROTOCOL_ERROR)
               else
                 try_stream k (\<lambda>s. map_err (\<lambda>_. Recv_Connection PROTOCOL_ERROR)
                   (map_ok (\<lambda>st. s\<lparr>st_state := st\<rparr>) (state_recv_close (st_state s)))))
            else sret ()) (\<lambda>_.
         sbind (try_stream k (\<lambda>s. map_ok (\<lambda>fl. s\<lparr>recv_flow := fl\<rparr>) (flow_send_data (word_of_nat n) (recv_flow s)))) (\<lambda>_.
         sbind (modify_stream k (\<lambda>s. s\<lparr>in_flight_recv_data := in_flight_recv_data s + word_of_nat n\<rparr>)) (\<lambda>_.
         sbind (event_push_back k (Event_Data (data_data frame))) (\<lambda>_.
           waking_stream k notify_recv))))))) (data_books d n T M) w1"
    if w1: "accounts (d + n) T M w1" for w1 s
    apply (rule data_books_if)
     apply (simp add: wp_simps data_booksI w1)
    apply (rule data_books_bind [OF w1])
     apply (intro sound_rules)
     apply (auto simp: dec_content_length_def split: content_length.splits if_splits)[1]
    apply (rule data_books_bind, assumption)
     apply (intro steps_rules, simp)
    apply (rule data_books_bind, assumption)
     apply (intro steps_rules sound_rules; auto simp: map_ok_eq_Ok)
    apply (rule data_books_bind, assumption)
     apply (intro sound_rules; auto simp: map_ok_eq_Ok)
    apply (rule deliver_books, simp add: sz)
    done
  have consumed: "wp (sbind (consume_connection_window (word_of_nat n)) (\<lambda>_. m)) (data_books d n T M) w"
    if "\<And>w1. accounts (d + n) T M w1 \<Longrightarrow> wp m (data_books d n T M) w1" for m
    unfolding wp_sbind
    by (rule wp_mono [OF consume_reserves [OF assms]])
      (auto simp: sz data_books_def intro: that split: result.splits recv_error.splits)
  note unfolded = recv_data_def Let_def n_def [symmetric] wp_sbind_assert wp_sbind_stream_at
  show ?thesis
  proof (cases "store_get (ss_store w) k")
    case None
    with True start show ?thesis unfolding unfolded by (simp add: n_def [symmetric])
  next
    case (Some s)
    consider "\<not> is_local_reset (st_state s)" "\<not> is_recv_streaming (st_state s)" | "is_local_reset (st_state s)"
      | "\<not> is_local_reset (st_state s)" "is_recv_streaming (st_state s)" by blast
    then show ?thesis
    proof cases
      case 3
      then show ?thesis
        unfolding unfolded using True Some consumed [OF rest [of _ s]]
        by (simp only: n_def [symmetric] option.case if_True if_False simp_thms)
    qed (use True Some start ignored in \<open>unfold unfolded, simp_all add: n_def [symmetric] wp_sfail\<close>)
  qed
qed

lemma wp_attempt: "wp (attempt m) Q w = wp m (\<lambda>r w'. case r of Panic \<Rightarrow> Q Panic w' | _ \<Rightarrow> Q (Ok r) w') w"
  by (auto simp: wp_def attempt_def split: prod.splits result.splits)

lemma sound_reset_on_err [sound_rules]: "steps sound (reset_on_recv_stream_err k res)"
  unfolding reset_on_recv_stream_err_def
  by (cases res; simp add: steps_rules split: recv_error.split; intro conjI impI allI sound_rules steps_rules; simp)

lemma sound_recv_data_stream:
  "steps sound (sbind (attempt (recv_data frame k)) (\<lambda>res.
     sbind
       (case res of
          Err (Recv_Stream _ _) \<Rightarrow> release_connection_capacity (word_of_nat (length (data_data frame))) False
        | _ \<Rightarrow> sret ()) (\<lambda>_.
       reset_on_recv_stream_err k res)))"
proof (rule steps_soundI)
  fix d T M w
  assume w: "accounts d T M w"
  let ?n = "length (data_data frame)" let ?release = "release_connection_capacity (word_of_nat ?n) False"
  show "wp (sbind (attempt (recv_data frame k)) (\<lambda>res.
     sbind (case res of Err (Recv_Stream _ _) \<Rightarrow> ?release | _ \<Rightarrow> sret ()) (\<lambda>_. reset_on_recv_stream_err k res))) (\<lambda>_. accounts d T M) w"
  proof (cases "?n \<le> unat MAX_WINDOW_SIZE")
    case False
    with w show ?thesis by (simp add: recv_data_def Let_def wp_simps wp_attempt)
  next
    case True
    then have n: "unat (word_of_nat ?n :: u32) = ?n" by (simp add: MAX_WINDOW_SIZE_eq unat_of_nat)
    have freed: "accounts (d + ?n) T M w' \<Longrightarrow> wp ?release (\<lambda>r. accounts d T M) w'" for w'
      using release_reserved [of d "word_of_nat ?n" T M w' False] by (rule wp_mono) (simp_all add: n)
    show ?thesis
      unfolding wp_sbind [of "attempt _"] wp_attempt
      by (rule wp_mono [OF recv_data_books [OF w]])
        (auto simp: data_books_def wp_sbind wp_sret split: result.splits recv_error.splits
          intro!: wp_sound [OF sound_reset_on_err] wp_mono [OF freed])
  qed
qed

lemma sound_streams_recv_data [sound_rules]: "steps sound (streams_recv_data frame)"
proof -
  have "steps sound (if may then sbind (assert_op b) (\<lambda>_. sbind (ignore_data n) (\<lambda>_. sfail e)) else sfail e')" for may b n e e'
    by (intro steps_rules sound_rules) simp_all
  moreover have "steps sound (may_have_forgotten_stream i)" for i
    unfolding may_have_forgotten_stream_def by (intro steps_rules sound_rules) simp_all
  ultimately show ?thesis
    unfolding streams_recv_data_def Let_def
    by (intro steps_rules steps_cases sound_rules sound_recv_data_stream) simp_all
qed

text \<open>The window of the connection goes up to what may be announced.\<close>

lemma unclaimed_raises:
  assumes "books T M r" "unclaimed_capacity (rv_flow r) = Some incr" "inc_window incr (rv_flow r) = Ok fl"
  shows "books T M (r\<lparr>rv_flow := fl\<rparr>)"
proof -
  have "fl = (rv_flow r)\<lparr>fc_window_size := fc_available (rv_flow r)\<rparr>" "\<not> fc_available (rv_flow r) \<le>s fc_window_size (rv_flow r)"
    using assms(2,3) by (auto simp: unclaimed_capacity_def inc_window_def Let_def overflowing_add_def split: if_splits)
  with assms(1) show ?thesis by (simp add: books_def word_sle_eq)
qed

definition same_streams :: "('m, 'y) streams_world_scheme \<Rightarrow> ('m, 'y) streams_world_scheme \<Rightarrow> bool" where
  "same_streams w w' \<longleftrightarrow> ss_recv w' = ss_recv w \<and> ss_store w' = ss_store w"

lemma same_streams_order [simp]: "reflp same_streams" "transp same_streams"
  by (auto simp: same_streams_def intro!: reflpI transpI)

lemma same_on_codec: "steps same_streams (on_codec m)"
  by (auto simp: steps_def on_codec_def same_streams_def split: prod.splits)

lemma same_buffer_expect: "steps same_streams (buffer_expect C f)"
  by (rule stepsI_leads, unfold buffer_expect_def)
    (auto intro!: leads_case [OF same_on_codec same_streams_order(2)] simp: same_streams_def split: result.split)

lemma sound_connection_update [sound_rules]:
  "steps sound (send_connection_window_update C :: (('m, 'c, 'y) wired_world_scheme, _, _) op)"
proof (rule steps_soundI)
  fix d T M and w :: "('m, 'c, 'y) wired_world_scheme"
  assume w: "accounts d T M w"
  have same: "same_streams w w1 \<Longrightarrow> same_streams w1 w2 \<Longrightarrow> accounts d T M w2" for w1 w2
    using w by (simp add: accounts_def same_streams_def)
  have raise: "accounts d T M (w2\<lparr>ss_recv := (ss_recv w2)\<lparr>rv_flow := fl\<rparr>\<rparr>)"
    if "unclaimed_capacity (rv_flow (ss_recv w)) = Some incr" "inc_window incr (rv_flow (ss_recv w)) = Ok fl"
      "same_streams w w1" "same_streams w1 w2" for incr fl w1 w2
    using w unclaimed_raises [OF _ that(1,2), of T M] that(3,4) by (simp add: accounts_def same_streams_def)
  show "wp (send_connection_window_update C) (\<lambda>_. accounts d T M) w"
  proof (cases "unclaimed_capacity (rv_flow (ss_recv w))")
    case None
    with w show ?thesis by (simp add: send_connection_window_update_def wp_simps)
  next
    case (Some incr)
    show ?thesis
      unfolding send_connection_window_update_def sready_def wp_sbind wp_world_recv Some option.case result.case
      by (rule wp_steps [OF same_on_codec])
        (auto simp: wp_simps wp_spanic split: result.split io_poll.split
          intro!: wp_steps [OF same_buffer_expect] intro: same raise [OF Some] same [OF _ reflpD [OF same_streams_order(1)]])
  qed
qed

text \<open>A new target moves the capacity that may be announced.\<close>

lemma books_retarget:
  assumes "books T M r" "uint t \<le> 2147483647"
  shows "window_checked_size (fc_available (rv_flow r) + rv_in_flight_data r) = Ok (word_of_int T)"
    "books (uint t) (max M (uint t)) (r\<lparr>rv_flow := if t > word_of_int T
       then flow_assign_capacity (t - word_of_int T) (rv_flow r) else claim_capacity (word_of_int T - t) (rv_flow r)\<rparr>)"
proof -
  define A F where "A = fc_available (rv_flow r)" and "F = rv_in_flight_data r"
  have T: "0 \<le> T" "T \<le> 2147483647" "sint A + uint F = T" and F: "uint F \<le> 2147483647"
    using assms(1) books_range(1) [OF assms(1)] by (simp_all add: books_def A_def F_def)
  have sF: "sint F = uint F" using F by (intro sint_size) simp
  have uT: "uint (word_of_int T :: u32) = T" using T by (simp add: uint_word_of_int)
  have "sint (A + F) = sint A + sint F" using T by (intro sint_add_i32) (simp_all add: sF)
  then have sum: "sint (A + F) = T" using T sF by simp
  have "(word_of_int (sint (A + F)) :: i32) = A + F" by simp
  then have wT: "word_of_int T = A + F" by (simp only: sum)
  with wT sum T show "window_checked_size (fc_available (rv_flow r) + rv_in_flight_data r) = Ok (word_of_int T)"
    by (simp add: window_checked_size_def word_sle_eq A_def F_def)
  have st: "sint t = uint t" using assms(2) by (intro sint_size) simp
  have "A + (t - word_of_int T) = t - F" by (simp add: wT)
  moreover have "- 2147483648 \<le> uint t - uint F" "uint t - uint F \<le> 2147483647"
    using assms(2) F uint_ge_0 [of t] uint_ge_0 [of F] by linarith+
  then have "sint (t - F) = sint t - sint F" by (intro sint_diff_i32) (simp_all add: st sF)
  ultimately have "sint (A + (t - word_of_int T)) = uint t - uint F" by (simp only: st sF)
  moreover have "A - (word_of_int T - t) = A + (t - word_of_int T)" by simp
  ultimately show "books (uint t) (max M (uint t)) (r\<lparr>rv_flow := if t > word_of_int T
       then flow_assign_capacity (t - word_of_int T) (rv_flow r) else claim_capacity (word_of_int T - t) (rv_flow r)\<rparr>)"
    using assms by (auto simp: books_def flow_assign_capacity_def claim_capacity_def A_def F_def)
qed

lemma set_target_books:
  assumes "accounts d T M w" "uint target \<le> 2147483647"
  shows "wp (set_target_connection_window target) (\<lambda>r. accounts d (uint target) (max M (uint target))) w"
  using assms books_retarget(2) [of T M "ss_recv w" target]
  by (auto simp: set_target_connection_window_def wp_simps accounts_def books_retarget(1) [of T M "ss_recv w" target]
      split: option.split if_splits)

section \<open>The methods of the connection and of the handles\<close>

lemma sound_small [sound_rules]:
  "steps sound (ensure_not_idle i)" "steps sound (may_have_forgotten_stream i)" "steps sound (actions_clear_queues b)"
  "steps sound (actions_send_reset now k reason)" "steps sound (new_ref k)" "steps sound (fail_stream err k)"
  unfolding ensure_not_idle_def may_have_forgotten_stream_def actions_clear_queues_def actions_send_reset_def new_ref_def fail_stream_def
  by (intro steps_rules sound_rules; auto simp: ref_inc_def rbind_eq_Ok)+

lemma sound_new_stream:
  assumes "\<And>s. in_flight_recv_data s = 0 \<Longrightarrow> steps sound (f s)"
  shows "steps sound (sbind (slift (stream_new i a b)) f)" "steps sound (sbind (new_stream i) f)"
proof -
  show slift: "steps sound (sbind (slift (stream_new i a b)) f)" for a b
  proof (rule stepsI_leads)
    fix w
    show "leads sound w (sbind (slift (stream_new i a b)) f w)"
      by (auto simp: sbind_def split: result.split intro!: leads_op [OF assms] dest: stream_new_in_flight)
  qed
  have "sbind (new_stream i) f w
      = sbind (slift (stream_new i (init_window_sz (ss_send w)) (rv_init_window_sz (ss_recv w)))) f w" for w
    by (simp add: new_stream_def sbind_def world_send_def world_recv_def split: result.split)
  then show "steps sound (sbind (new_stream i) f)" using slift by (fastforce simp: steps_def)
qed

lemma sound_recv_frames [sound_rules]:
  "steps sound (streams_recv_reset rst)" "steps sound (streams_recv_err err)" "steps sound (streams_recv_go_away ga)"
  "steps sound (streams_recv_window_update wu)" "steps sound (streams_recv_eof b)" "steps sound (streams_apply_remote_settings f)"
proof -
  have eof: "steps sound (\<lambda>w. (Ok (), if ss_conn_error w = None then w\<lparr>ss_conn_error := Some e\<rparr> else w))" for e
    by (auto simp: steps_def intro!: quiet_sound)
  show "steps sound (streams_recv_reset rst)" "steps sound (streams_recv_err err)" "steps sound (streams_recv_go_away ga)"
    "steps sound (streams_recv_window_update wu)" "steps sound (streams_recv_eof b)" "steps sound (streams_apply_remote_settings f)"
    unfolding streams_recv_reset_def streams_recv_err_def streams_recv_go_away_def streams_recv_window_update_def
      streams_recv_eof_def streams_apply_remote_settings_def Let_def
    by (intro steps_rules steps_cases sound_rules steps_for_each eof; simp)+
qed

lemma sound_streams_recv_headers [sound_rules]: "steps sound (streams_recv_headers H U now frame)"
  unfolding streams_recv_headers_def Let_def
  by (intro sound_new_stream(2) steps_rules steps_cases sound_rules) simp_all

lemma sound_push_promised [sound_rules]: "steps sound (push_promised parent promised :: (('m, 'y) streams_world_scheme, unit, 'e) op)"
proof (rule stepsI_leads, unfold push_promised_def, rule leads_stream_at [OF sound_order(1)])
  fix w :: "('m, 'y) streams_world_scheme" and s
  assume s: "store_get (ss_store w) parent = Some s"
  show "leads sound w
     (case queue_push NextAccept promised
         (pending_push_promises s, store_put parent (s\<lparr>pending_push_promises := None\<rparr>) (ss_store w)) of
         Ok (_, q, st) \<Rightarrow>
           sbind (modify_stream parent (\<lambda>s. s\<lparr>pending_push_promises := q\<rparr>))
             (\<lambda>_. waking_stream parent notify_recv) (w\<lparr>ss_store := st\<rparr>)
       | Err e \<Rightarrow> (Err e :: (unit, 'e) result, w)
       | Panic \<Rightarrow> (Panic, w))"
    by (auto split: result.split intro!: leads_store steps_rules sound_rules simp: promises_in_flight [OF s])
qed

lemma sound_recv_push_promises [sound_rules]: "steps sound (streams_recv_push_promise H U frame)"
  unfolding streams_recv_push_promise_def Let_def
  by (intro sound_new_stream(2) steps_rules steps_cases sound_rules) simp_all

lemma sound_application [sound_rules]:
  "steps sound streams_next_incoming" "steps sound (streams_send_request H request eos pending)"
  "steps sound (streams_send_reset now i reason)" "steps sound (streams_poll_pending_open cx pending)"
  "steps sound streams_clone" "steps sound streams_drop"
  unfolding streams_next_incoming_def streams_send_request_def streams_send_reset_def streams_poll_pending_open_def
    streams_clone_def streams_drop_def Let_def
  by (intro sound_new_stream steps_rules steps_cases sound_rules; simp)+

lemma sound_refs [sound_rules]:
  "steps sound (ref_send_data k payload eos)" "steps sound (ref_send_trailers H k fs)" "steps sound (ref_send_reset now k reason)"
  "steps sound (ref_send_response H k response eos)" "steps sound (ref_send_push_promise H k request)"
  "steps sound (ref_clone k)" "steps sound (ref_poll_pushed cx k)"
  unfolding ref_send_data_def ref_send_trailers_def ref_send_reset_def ref_send_response_def ref_send_push_promise_def
    ref_clone_def ref_poll_pushed_def
  by (intro sound_new_stream steps_rules steps_cases sound_rules; auto simp: ref_inc_def rbind_eq_Ok map_ok_eq_Ok)+

lemma sound_maybe_cancel [sound_rules]: "steps sound (maybe_cancel now k)"
  unfolding maybe_cancel_def by (intro steps_rules sound_rules) simp_all

lemma pop_promise_in_flight: "queue_pop NextAccept (q, st) = Ok (r, q', st') \<Longrightarrow> in_flight_sum st' = in_flight_sum st"
  using queue_pop_view [of NextAccept q st r q' st' in_flight_recv_data] in_flight_view [of st' st]
  by (auto simp: next_accept_in_flight)

lemma sound_drop_promises [sound_rules]:
  "steps sound (\<lambda>w :: ('m, 'y) streams_world_scheme. drop_promises now q w :: (unit, 'e) result \<times> _)"
proof (rule stepsI_leads)
  fix w :: "('m, 'y) streams_world_scheme"
  show "leads sound w (drop_promises now q w :: (unit, 'e) result \<times> _)"
  proof (induction now q w rule: drop_promises.induct [where 'c = 'e])
    case (1 now q w)
    show ?case
    proof (cases "queue_pop NextAccept (q, ss_store w) :: (key option \<times> queue \<times> store, 'e) result")
      case (Ok x)
      obtain jo q' st where x: "x = (jo, q', st)" by (cases x)
      define w1 where "w1 = w\<lparr>ss_store := st\<rparr>"
      have w1: "sound w w1"
        using pop_promise_in_flight [OF Ok [unfolded x]] by (intro quiet_sound) (simp_all add: w1_def)
      have "leads sound w1 (drop_promises now q w :: (unit, 'e) result \<times> _)"
      proof (cases jo)
        case None
        then show ?thesis by (subst drop_promises.simps) (simp add: Ok x w1_def)
      next
        case (Some j)
        have "leads sound w1 (case transition j (maybe_cancel now j) w1 of (r, w') \<Rightarrow>
            case r of Ok _ \<Rightarrow> drop_promises now q' w' | Err e \<Rightarrow> (Err e, w') | Panic \<Rightarrow> (Panic :: (unit, 'e) result, w'))"
        proof (rule leads_case [OF sound_transition [OF sound_maybe_cancel] sound_order(2)])
          fix r :: "(unit, 'e) result" and w2
          assume run: "(r, w2) = transition j (maybe_cancel now j) w1"
          show "leads sound w2 (case r of Ok _ \<Rightarrow> drop_promises now q' w2 | Err e \<Rightarrow> (Err e, w2) | Panic \<Rightarrow> (Panic, w2))"
            using "1.IH" [OF Ok x [symmetric] Some refl run [unfolded w1_def]] by (cases r) simp_all
        qed
        then show ?thesis
          by (subst drop_promises.simps) (simp only: Ok x Some w1_def [symmetric] result.case prod.case option.case)
      qed
      with transpD [OF sound_order(2) w1] show ?thesis by (simp add: leads_def)
    qed (subst drop_promises.simps, simp)+
  qed
qed

lemma sound_drop_ref [sound_rules]: "steps sound (drop_stream_ref now k)"
  unfolding drop_stream_ref_def
  by (intro steps_rules sound_rules; auto simp: ref_dec_def rbind_eq_Ok)

lemma sound_streams_poll_complete:
  "leads_some sound (w :: ('m, 'c, 'y) wired_world_scheme) (streams_poll_complete C cx w)"
proof -
  have task: "sound w (w\<lparr>ss_task := t\<rparr>)" for w :: "('m, 'c, 'y) wired_world_scheme" and t by (rule quiet_sound) simp_all
  have recv: "steps sound (recv_poll_complete C :: (('m, 'c, 'y) wired_world_scheme, _, _) op)"
    unfolding recv_poll_complete_def by (intro steps_rules sound_rules) simp_all
  have prio: "leads_some sound w (prio_poll_complete C w)" for w :: "('m, 'c, 'y) wired_world_scheme"
    by (auto simp: prio_poll_complete_def intro!: leads_some_case [OF sound_on_codec sound_order(2)]
        leads_some_case [OF sound_reclaim_codec sound_order(2)] sound_write_loop split: result.split io_poll.split)
  have "leads_some sound w (map_option (\<lambda>(r, w). (case r of Ok (Ready _) \<Rightarrow> (Ok (Ready ()), w\<lparr>ss_task := Some cx\<rparr>) | _ \<Rightarrow> (r, w)))
      (prio_poll_complete C w))" for w :: "('m, 'c, 'y) wired_world_scheme"
  proof (cases "prio_poll_complete C w")
    case (Some p)
    obtain r w1 where p: "p = (r, w1)" by (cases p)
    have "sound w w1" using prio [of w] by (simp add: Some p)
    moreover have "sound w (w1\<lparr>ss_task := Some cx\<rparr>)" using transpD [OF sound_order(2) calculation task] .
    ultimately show ?thesis by (auto simp: Some p split: result.split io_poll.split)
  qed simp
  then show ?thesis
    by (auto simp: streams_poll_complete_def intro!: leads_some_case [OF recv sound_order(2)] split: result.split io_poll.split)
qed

section \<open>Histories\<close>

datatype 'm stream_call =
    Call_Recv_Headers instant "'m headers"
  | Call_Recv_Data "bytes data_frame"
  | Call_Recv_Reset reset
  | Call_Recv_Err proto_error
  | Call_Recv_Go_Away go_away
  | Call_Recv_Window_Update window_update
  | Call_Recv_Push_Promise "'m push_promise"
  | Call_Recv_Eof bool
  | Call_Remote_Settings settings
  | Call_Local_Settings settings
  | Call_Next_Incoming
  | Call_Send_Request "'m http_request" bool "key option"
  | Call_Send_Reset instant stream_id reason
  | Call_Poll_Pending_Open waker "key option"
  | Call_Clone
  | Call_Drop
  | Call_Set_Target u32
  | Call_Go_Away_Sent stream_id
  | Call_Clear_Expired instant
  | Call_Send_Refusal
  | Call_Poll_Complete waker
  | Call_Send_Data key bytes bool
  | Call_Send_Trailers key 'm
  | Call_Ref_Reset instant key reason
  | Call_Send_Response key "'m http_response" bool
  | Call_Send_Push_Promise key "'m http_request"
  | Call_Ref_Clone key
  | Call_Poll_Pushed waker key
  | Call_Drop_Ref instant key
  | Call_Reserve_Capacity u32 key
  | Call_Poll_Capacity waker key
  | Call_Poll_Reset waker key poll_reset
  | Call_Take_Request key
  | Call_Poll_Response waker key
  | Call_Poll_Data waker key
  | Call_Poll_Trailers waker key
  | Call_Release_Capacity u32 key

text \<open>The state after an operation, whatever its outcome.\<close>

definition state_after :: "('s, 'a, 'e) op \<Rightarrow> 's \<Rightarrow> 's option" where
  "state_after m w = Some (snd (m w))"

definition quietly :: "('s, 'a, unit) op \<Rightarrow> 's \<Rightarrow> 's option" where
  "quietly m w = Some (snd (m w))"

fun call_step ::
  "'m header_map_lib \<Rightarrow> uri_lib \<Rightarrow> ('c, 'm) codec_ops \<Rightarrow> 'm stream_call \<Rightarrow> ('m, 'c) wired_world \<Rightarrow> ('m, 'c) wired_world option" where
  "call_step H U C (Call_Recv_Headers now frame) = state_after (streams_recv_headers H U now frame)"
| "call_step H U C (Call_Recv_Data frame) = state_after (streams_recv_data frame)"
| "call_step H U C (Call_Recv_Reset frame) = state_after (streams_recv_reset frame)"
| "call_step H U C (Call_Recv_Err err) = quietly (streams_recv_err err)"
| "call_step H U C (Call_Recv_Go_Away frame) = state_after (streams_recv_go_away frame)"
| "call_step H U C (Call_Recv_Window_Update frame) = state_after (streams_recv_window_update frame)"
| "call_step H U C (Call_Recv_Push_Promise frame) = state_after (streams_recv_push_promise H U frame)"
| "call_step H U C (Call_Recv_Eof b) = quietly (streams_recv_eof b)"
| "call_step H U C (Call_Remote_Settings f) = state_after (streams_apply_remote_settings f)"
| "call_step H U C (Call_Local_Settings f) = state_after (apply_local_settings f)"
| "call_step H U C Call_Next_Incoming = quietly streams_next_incoming"
| "call_step H U C (Call_Send_Request request eos pending) = state_after (streams_send_request H request eos pending)"
| "call_step H U C (Call_Send_Reset now i reason) = quietly (streams_send_reset now i reason)"
| "call_step H U C (Call_Poll_Pending_Open cx pending) = state_after (streams_poll_pending_open cx pending)"
| "call_step H U C Call_Clone = quietly streams_clone"
| "call_step H U C Call_Drop = quietly streams_drop"
| "call_step H U C (Call_Set_Target n) = quietly (set_target_connection_window n)"
| "call_step H U C (Call_Go_Away_Sent i) = quietly (recv_go_away_sent i)"
| "call_step H U C (Call_Clear_Expired now) = quietly (\<lambda>w. clear_expired_reset_streams now w)"
| "call_step H U C Call_Send_Refusal = state_after (send_pending_refusal C)"
| "call_step H U C (Call_Poll_Complete cx) = (\<lambda>w. map_option snd (streams_poll_complete C cx w))"
| "call_step H U C (Call_Send_Data k payload eos) = state_after (ref_send_data k payload eos)"
| "call_step H U C (Call_Send_Trailers k fs) = state_after (ref_send_trailers H k fs)"
| "call_step H U C (Call_Ref_Reset now k reason) = quietly (ref_send_reset now k reason)"
| "call_step H U C (Call_Send_Response k response eos) = state_after (ref_send_response H k response eos)"
| "call_step H U C (Call_Send_Push_Promise k request) = state_after (ref_send_push_promise H k request)"
| "call_step H U C (Call_Ref_Clone k) = quietly (ref_clone k)"
| "call_step H U C (Call_Poll_Pushed cx k) = state_after (ref_poll_pushed cx k)"
| "call_step H U C (Call_Drop_Ref now k) = quietly (drop_stream_ref now k)"
| "call_step H U C (Call_Reserve_Capacity n k) = quietly (reserve_capacity n k)"
| "call_step H U C (Call_Poll_Capacity cx k) = quietly (poll_capacity cx k)"
| "call_step H U C (Call_Poll_Reset cx k mode) = state_after (send_poll_reset cx k mode)"
| "call_step H U C (Call_Take_Request k) = quietly (take_request k)"
| "call_step H U C (Call_Poll_Response cx k) = state_after (poll_response cx k)"
| "call_step H U C (Call_Poll_Data cx k) = state_after (poll_data cx k)"
| "call_step H U C (Call_Poll_Trailers cx k) = state_after (poll_trailers cx k)"
| "call_step H U C (Call_Release_Capacity n k) = state_after (release_capacity n k)"

fun run_calls ::
  "'m header_map_lib \<Rightarrow> uri_lib \<Rightarrow> ('c, 'm) codec_ops \<Rightarrow> 'm stream_call list \<Rightarrow> ('m, 'c) wired_world \<Rightarrow> ('m, 'c) wired_world option" where
  "run_calls H U C [] w = Some w"
| "run_calls H U C (call # calls) w = Option.bind (call_step H U C call w) (run_calls H U C calls)"

text \<open>
  The target for the window is the last one that was set, 65,535 at first. The public functions that set it
  assert that it is a window size (\<open>h2/client.rs\<close>, \<open>h2/server.rs\<close>).
\<close>

fun target_of :: "int \<Rightarrow> 'm stream_call \<Rightarrow> int" where
  "target_of T (Call_Set_Target n) = uint n"
| "target_of T _ = T"

fun valid_call :: "'m stream_call \<Rightarrow> bool" where
  "valid_call (Call_Set_Target n) \<longleftrightarrow> n \<le> MAX_WINDOW_SIZE"
| "valid_call _ \<longleftrightarrow> True"

fun targets :: "int \<Rightarrow> 'm stream_call list \<Rightarrow> int list" where
  "targets T [] = [T]"
| "targets T (call # calls) = T # targets (target_of T call) calls"

definition connected :: "'m streams_world \<Rightarrow> 'c \<Rightarrow> ('m, 'c) wired_world" where
  "connected w c = streams_world.extend w (wired_world.fields c)"

lemma state_after_sound:
  "steps sound m \<Longrightarrow> accounts d T M w \<Longrightarrow> state_after m w = Some w' \<Longrightarrow> accounts d T M w'"
  "steps sound m' \<Longrightarrow> accounts d T M w \<Longrightarrow> quietly m' w = Some w' \<Longrightarrow> accounts d T M w'"
  using leads_op [of sound m w] leads_op [of sound m' w] by (auto simp: state_after_def quietly_def leads_def sound_def)

lemma call_step_books:
  assumes "accounts 0 T M w" "valid_call call" "call_step H U C call w = Some w'"
  shows "accounts 0 (target_of T call) (max M (target_of T call)) w'"
proof -
  have le: "max M T = M" using assms(1) by (simp add: accounts_def books_def)
  note keep = state_after_sound [OF _ assms(1), of _ w'] and poll = sound_streams_poll_complete [of w C]
  show ?thesis
  proof (cases call)
    case (Call_Set_Target n)
    then have "uint n \<le> 2147483647" using assms(2) by (simp add: MAX_WINDOW_SIZE_eq word_le_def)
    have "wp (set_target_connection_window n :: (_, _, unit) op) (\<lambda>r. accounts 0 (uint n) (max M (uint n))) w"
      by (rule set_target_books [OF assms(1) \<open>uint n \<le> 2147483647\<close>])
    with assms(3) Call_Set_Target show ?thesis
      by (auto simp: quietly_def wp_def split: prod.splits)
  next
    case (Call_Poll_Complete cx)
    with assms poll [of cx] le show ?thesis by (auto simp: leads_some_def leads_def sound_def)
  qed (use assms(3) le in \<open>auto elim!: keep [rotated] intro!: sound_rules\<close>)
qed

lemma run_calls_books:
  assumes "accounts 0 T M w" "list_all valid_call calls" "run_calls H U C calls w = Some w'"
  shows "accounts 0 (last (targets T calls)) (fold max (targets T calls) M) w'"
  using assms
proof (induction calls arbitrary: T M w)
  case Nil
  then have "max T M = M" by (simp add: accounts_def books_def)
  with Nil show ?case by simp
next
  case (Cons call calls)
  then obtain w1 where w1: "call_step H U C call w = Some w1" "run_calls H U C calls w1 = Some w'"
    by (auto simp: bind_eq_Some_conv)
  have "accounts 0 (target_of T call) (max M (target_of T call)) w1"
    using call_step_books [OF Cons.prems(1) _ w1(1)] Cons.prems(2) by simp
  from Cons.IH [OF this _ w1(2)] Cons.prems(1,2) have
    "accounts 0 (last (targets (target_of T call) calls)) (fold max (targets (target_of T call) calls) (max M (target_of T call))) w'"
    by simp
  moreover have "max T M = M" using Cons.prems(1) by (simp add: accounts_def books_def)
  moreover have "fold max (targets t calls) (max M t) = fold max (targets t calls) M" for t
    by (cases calls) (simp_all add: max.commute max.left_commute)
  ultimately show ?case by (cases calls) simp_all
qed

lemma fold_max: "fold max ts M = (Max (set (M # ts)) :: int)"
proof (induction ts arbitrary: M)
  case (Cons t ts)
  then show ?case by (cases "ts = []") (simp_all add: max.commute max.left_commute)
qed simp

lemma in_flight_sum_new: "in_flight_sum (store_new ws) = 0"
  by (simp add: in_flight_sum_def store_new_def slab_new_def slab_sum_def)

lemma connected_fields [simp]: "ss_recv (connected w c) = ss_recv w" "ss_store (connected w c) = ss_store w"
  by (simp_all add: connected_def streams_world.defs wired_world.defs)

lemma accounts_new:
  assumes "streams_new p cfg ws1 ws2 ws3 = Ok w"
  shows "accounts 0 65535 65535 (connected w c)"
  using assms
  by (auto simp: streams_new_def recv_new_def rbind_eq_Ok accounts_def books_def in_flight_sum_new flow_new_def
      inc_window_def overflowing_add_def Let_def flow_assign_capacity_def DEFAULT_INITIAL_WINDOW_SIZE_def MAX_WINDOW_SIZE_def
      split: result.splits if_splits)

section \<open>No byte of the window is lost or invented\<close>

text \<open>
  C34. After any sequence of calls on a new connection (frames of the
  peer, the connection task, the handles of the application, whatever their outcome): what may be announced to the
  peer and what the application still holds add up to the target that was set last (65,535 before
  that); the window the peer sees is never negative, and together with the bytes in flight it does not
  exceed the largest target so far, so a target is never exceeded by what the peer may
  send; and the streams together hold no more bytes than the connection has on its books, so
  each of them can be released.
\<close>

theorem receive_window_accounting:
  assumes "streams_new p cfg ws1 ws2 ws3 = Ok w0" "list_all valid_call calls"
    "run_calls H U C calls (connected w0 codec) = Some w"
  defines "r \<equiv> ss_recv w" and "ts \<equiv> targets 65535 calls"
  shows "sint (fc_available (rv_flow r)) + uint (rv_in_flight_data r) = last ts
     \<and> 0 \<le> sint (fc_window_size (rv_flow r))
     \<and> sint (fc_window_size (rv_flow r)) + uint (rv_in_flight_data r) \<le> Max (set ts)
     \<and> in_flight_sum (ss_store w) \<le> unat (rv_in_flight_data r)"
proof -
  have "accounts 0 (last ts) (fold max ts 65535) w"
    unfolding ts_def by (rule run_calls_books [OF accounts_new [OF assms(1)] assms(2,3)])
  moreover have "fold max ts 65535 = Max (set ts)"
  proof -
    have "65535 \<in> set ts" unfolding ts_def by (cases calls) simp_all
    then show ?thesis unfolding fold_max by (metis insert_absorb list.simps(15))
  qed
  ultimately show ?thesis by (simp add: accounts_def books_def r_def)
qed

text \<open>A client that raises its target and gets data for a stream it does not know.\<close>

definition client_config :: config where
  "client_config = \<lparr>local_init_window_sz = 65535, initial_max_send_streams = 100, local_next_stream_id = StreamId 1,
     local_push_enabled = True, local_reset_duration = 30, local_reset_max = 10, remote_init_window_sz = 65535,
     remote_max_initiated = None\<rparr>"

definition no_codec :: "(unit, 'm) codec_ops" where
  "no_codec = \<lparr>co_poll_ready = sret (Ready ()), co_flush = sret (Ready ()), co_buffer = (\<lambda>_. sret ()),
     co_max_send_frame_size = (\<lambda>_. 16384), co_take_last_data_frame = (\<lambda>c. (None, c))\<rparr>"

lemma receive_window_accounting_witness:
  "\<exists>w0 w. (streams_new Client client_config [] [] [] :: (_, unit) result) = Ok w0
     \<and> run_calls list_fields http_1_libs no_codec
         [Call_Set_Target 100000, Call_Recv_Data \<lparr>data_stream_id = StreamId 1, data_data = [1, 2, 3], data_flags = 0, data_pad_len = None\<rparr>]
         (connected w0 ()) = Some w
     \<and> sint (fc_available (rv_flow (ss_recv w))) + uint (rv_in_flight_data (ss_recv w)) = 100000"
proof -
  let ?calls = "[Call_Set_Target 100000, Call_Recv_Data \<lparr>data_stream_id = StreamId 1, data_data = [1, 2, 3], data_flags = 0,
    data_pad_len = None\<rparr>] :: field_list stream_call list"
  obtain w0 where new: "(streams_new Client client_config [] [] [] :: (field_list streams_world, unit) result) = Ok w0"
    by (simp add: streams_new_def recv_new_def prioritize_new_def client_config_def flow_new_def inc_window_def
        overflowing_add_def DEFAULT_INITIAL_WINDOW_SIZE_def MAX_WINDOW_SIZE_def word_sless_alt)
  obtain w where run: "run_calls list_fields http_1_libs no_codec ?calls (connected w0 ()) = Some w"
    by (simp add: state_after_def quietly_def)
  have "list_all valid_call ?calls" by (simp add: MAX_WINDOW_SIZE_eq)
  from receive_window_accounting [OF new this run] new run show ?thesis by auto
qed

end
