(* ===== verification/Http_Date.thy ===== *)
theory Http_Date
  imports Hpack_Header "HOL-Library.Signed_Division"
begin

text \<open>
  The dates of HTTP (\<open>proto/h1/date.rs\<close>): from a time of the system clock to the calendar and back,
  the fixed format that is written and the three formats that are read. The reference is a calendar that goes
  forward one day at a time.
\<close>

section \<open>Times and dates\<close>

text \<open>\<open>SystemTime\<close>: nanoseconds since the epoch.\<close>

type_synonym system_time = int

definition from_secs :: "nat \<Rightarrow> system_time" where
  "from_secs n = int n * 1000000000"

definition as_secs :: "system_time \<Rightarrow> nat" where
  "as_secs t = nat (t div 1000000000)"

record http_date =
  d_second :: u8
  d_minute :: u8
  d_hour :: u8
  d_day :: u8
  d_month :: u8
  d_year :: u16
  d_week_day :: u8

datatype date_error = Date_Message string | Date_Utf8 | Date_Parse_Int

definition date_is_valid :: "http_date \<Rightarrow> bool" where
  "date_is_valid d \<longleftrightarrow>
     d_second d < 60 \<and> d_minute d < 60 \<and> d_hour d < 24 \<and> 0 < d_day d \<and> d_day d < 32 \<and> 0 < d_month d \<and> d_month d \<le> 12
     \<and> d_year d \<ge> 1970 \<and> d_year d \<le> 9999 \<and> d_week_day d \<ge> 1 \<and> d_week_day d < 8"

definition YEAR_9999_SECONDS :: nat where
  "YEAR_9999_SECONDS = 253402300800"

definition is_leap_year :: "u16 \<Rightarrow> bool" where
  "is_leap_year year \<longleftrightarrow> year mod 4 = 0 \<and> (year mod 100 \<noteq> 0 \<or> year mod 400 = 0)"

section \<open>From a time to a date\<close>

text \<open>
  \<open>From<SystemTime>\<close>. The years begin in March and count from the one of 2000; \<open>date_cycles\<close> splits the days since then into
  cycles of 400, 100, 4 and 1 years. The quotients are those of \<open>i64\<close>, rounded towards zero; no value here
  leaves its range.
\<close>

definition LEAPOCH :: int where "LEAPOCH = 11017"
definition DAYS_PER_400Y :: int where "DAYS_PER_400Y = 365 * 400 + 97"
definition DAYS_PER_100Y :: int where "DAYS_PER_100Y = 365 * 100 + 24"
definition DAYS_PER_4Y :: int where "DAYS_PER_4Y = 365 * 4 + 1"

definition date_cycles :: "int \<Rightarrow> int \<times> int" where
  "date_cycles days =
     (let qc_cycles = days sdiv DAYS_PER_400Y; remdays = days smod DAYS_PER_400Y;
          (qc_cycles, remdays) = (if remdays < 0 then (qc_cycles - 1, remdays + DAYS_PER_400Y) else (qc_cycles, remdays));
          c_cycles = remdays sdiv DAYS_PER_100Y;
          c_cycles = (if c_cycles = 4 then c_cycles - 1 else c_cycles);
          remdays = remdays - c_cycles * DAYS_PER_100Y;
          q_cycles = remdays sdiv DAYS_PER_4Y;
          q_cycles = (if q_cycles = 25 then q_cycles - 1 else q_cycles);
          remdays = remdays - q_cycles * DAYS_PER_4Y;
          remyears = remdays sdiv 365;
          remyears = (if remyears = 4 then remyears - 1 else remyears);
          remdays = remdays - remyears * 365
      in (2000 + remyears + 4 * q_cycles + 100 * c_cycles + 400 * qc_cycles, remdays))"

fun month_loop :: "int list \<Rightarrow> int \<Rightarrow> int \<Rightarrow> int \<times> int" where
  "month_loop [] month remdays = (month, remdays)"
| "month_loop (month_len # months) month remdays =
     (let month = month + 1
      in if remdays < month_len then (month, remdays) else month_loop months month (remdays - month_len))"

definition date_months :: "int list" where
  "date_months = [31, 30, 31, 30, 31, 31, 30, 31, 30, 31, 31, 29]"

text \<open>Year, month and day of the month for the days since March 2000.\<close>

definition civil_date :: "int \<Rightarrow> int \<times> int \<times> int" where
  "civil_date days =
     (let (year, remdays) = date_cycles days; (month, remdays) = month_loop date_months 0 remdays; mday = remdays + 1
      in if month + 2 > 12 then (year + 1, month - 10, mday) else (year, month + 2, mday))"

definition civil_week_day :: "int \<Rightarrow> int" where
  "civil_week_day days = (let week_day = (3 + days) smod 7 in if week_day \<le> 0 then week_day + 7 else week_day)"

definition http_date_from :: "system_time \<Rightarrow> (http_date, 'e) result" where
  "http_date_from t =
     (if t < 0 then Panic
      else
        let secs_since_epoch = as_secs t in
        if secs_since_epoch \<ge> YEAR_9999_SECONDS then Panic
        else
          let days = int (secs_since_epoch div 86400) - LEAPOCH;
              secs_of_day = secs_since_epoch mod 86400;
              (year, month, mday) = civil_date days
          in Ok \<lparr>d_second = of_nat (secs_of_day mod 60),
                 d_minute = of_nat ((secs_of_day mod 3600) div 60),
                 d_hour = of_nat (secs_of_day div 3600),
                 d_day = of_int mday, d_month = of_int month, d_year = of_int year,
                 d_week_day = of_int (civil_week_day days)\<rparr>)"

section \<open>From a date to a time\<close>

text \<open>The days of the year before the first of the month.\<close>

definition month_days :: "u8 \<Rightarrow> u64 option" where
  "month_days month =
     map_of [(1, 0), (2, 31), (3, 59), (4, 90), (5, 120), (6, 151), (7, 181), (8, 212), (9, 243), (10, 273), (11, 304),
       (12, 334)] month"

definition date_leap_years :: "u16 \<Rightarrow> u16" where
  "date_leap_years year = ((year - 1) - 1968) div 4 - ((year - 1) - 1900) div 100 + ((year - 1) - 1600) div 400"

definition date_secs :: "http_date \<Rightarrow> u64 \<Rightarrow> u64" where
  "date_secs d month_start =
     (let ydays = month_start + ucast (d_day d) - 1;
          ydays = (if is_leap_year (d_year d) \<and> d_month d > 2 then ydays + 1 else ydays);
          days = (ucast (d_year d) - 1970) * 365 + ucast (date_leap_years (d_year d)) + ydays
      in ucast (d_second d) + ucast (d_minute d) * 60 + ucast (d_hour d) * 3600 + days * 86400)"

text \<open>
  \<open>From<HttpDate>\<close>. \<open>UNIX_EPOCH + duration\<close> panics when the sum is more than a \<open>SystemTime\<close> can hold,
  which has its seconds in an \<open>i64\<close>.
\<close>

definition http_date_into :: "http_date \<Rightarrow> (system_time, 'e) result" where
  "http_date_into d =
     (case month_days (d_month d) of
        None \<Rightarrow> Panic
      | Some start \<Rightarrow>
          let secs = unat (date_secs d start) in if secs < 2 ^ 63 then Ok (from_secs secs) else Panic)"

section \<open>Writing\<close>

definition DAY_NAMES :: "string list" where
  "DAY_NAMES = [''Mon'', ''Tue'', ''Wed'', ''Thu'', ''Fri'', ''Sat'', ''Sun'']"

definition MONTH_NAMES :: "string list" where
  "MONTH_NAMES = [''Jan'', ''Feb'', ''Mar'', ''Apr'', ''May'', ''Jun'', ''Jul'', ''Aug'', ''Sep'', ''Oct'', ''Nov'', ''Dec'']"

text \<open>\<open>match n { 1 => .., 2 => .., _ => unreachable!() }\<close> over a table of names.\<close>

definition name_of :: "string list \<Rightarrow> u8 \<Rightarrow> (bytes, 'e) result" where
  "name_of names n = (if 1 \<le> unat n \<and> unat n \<le> length names then Ok (ascii (names ! (unat n - 1))) else Panic)"

definition ascii_digit :: "u8 \<Rightarrow> u8" where
  "ascii_digit n = 0x30 + n"

definition http_date_fmt :: "http_date \<Rightarrow> (bytes, 'e) result" where
  "http_date_fmt d =
     rbind (name_of DAY_NAMES (d_week_day d)) (\<lambda>week_day.
     rbind (name_of MONTH_NAMES (d_month d)) (\<lambda>month.
     Ok [week_day ! 0, week_day ! 1, week_day ! 2, 0x2C, 0x20,
         ascii_digit (d_day d div 10), ascii_digit (d_day d mod 10), 0x20,
         month ! 0, month ! 1, month ! 2, 0x20,
         ascii_digit (ucast (d_year d div 1000)), ascii_digit (ucast (d_year d div 100 mod 10)),
         ascii_digit (ucast (d_year d div 10 mod 10)), ascii_digit (ucast (d_year d mod 10)), 0x20,
         ascii_digit (d_hour d div 10), ascii_digit (d_hour d mod 10), 0x3A,
         ascii_digit (d_minute d div 10), ascii_digit (d_minute d mod 10), 0x3A,
         ascii_digit (d_second d div 10), ascii_digit (d_second d mod 10), 0x20, 0x47, 0x4D, 0x54]))"

definition fmt_http_date :: "system_time \<Rightarrow> (bytes, 'e) result" where
  "fmt_http_date t = rbind (http_date_from t) http_date_fmt"

section \<open>Reading\<close>

text \<open>\<open>str::parse\<close> for an unsigned integer: a plus sign and digits, no more than fit.\<close>

fun parse_digits :: "nat \<Rightarrow> nat \<Rightarrow> bytes \<Rightarrow> (nat, date_error) result" where
  "parse_digits limit acc [] = Ok acc"
| "parse_digits limit acc (c # cs) =
     (if c < 0x30 \<or> 0x39 < c then Err Date_Parse_Int
      else let acc = acc * 10 + unat (c - 0x30) in if acc < limit then parse_digits limit acc cs else Err Date_Parse_Int)"

definition parse_uint :: "bytes \<Rightarrow> ('a :: len word, date_error) result" where
  "parse_uint s =
     (if s = [] \<or> s = [0x2B] \<or> s = [0x2D] then Err Date_Parse_Int
      else map_ok of_nat (parse_digits (2 ^ LENGTH('a)) 0 (if hd s = 0x2B then tl s else s)))"

definition date_utf8 :: "bytes \<Rightarrow> (bytes, date_error) result" where
  "date_utf8 s = (if utf8_ok s then Ok s else Err Date_Utf8)"

text \<open>\<open>from_utf8(&s[i..j])?.parse()?\<close>\<close>

definition field_uint :: "bytes \<Rightarrow> nat \<Rightarrow> nat \<Rightarrow> ('a :: len word, date_error) result" where
  "field_uint s i j = rbind (slice_range s i j) (\<lambda>s. rbind (date_utf8 s) parse_uint)"

text \<open>\<open>match &s[i..j]\<close> over a table of names with what surrounds them.\<close>

definition lookup_name :: "string list \<Rightarrow> string \<Rightarrow> string \<Rightarrow> bytes \<Rightarrow> u8 option" where
  "lookup_name names before after s =
     map_of (zip (map (\<lambda>n. ascii (before @ n @ after)) names) (map of_nat [1..<Suc (length names)])) s"

definition field_named :: "string \<Rightarrow> string list \<Rightarrow> string \<Rightarrow> string \<Rightarrow> bytes \<Rightarrow> nat \<Rightarrow> nat \<Rightarrow> (u8, date_error) result" where
  "field_named msg names before after s i j =
     rbind (slice_range s i j) (\<lambda>s.
     case lookup_name names before after s of Some n \<Rightarrow> Ok n | None \<Rightarrow> Err (Date_Message msg))"

definition parse_imf_fixdate :: "bytes \<Rightarrow> (http_date, date_error) result" where
  "parse_imf_fixdate s =
     (if length s \<noteq> 29 \<or> drop 25 s \<noteq> ascii '' GMT'' \<or> s ! 16 \<noteq> 0x20 \<or> s ! 19 \<noteq> 0x3A \<or> s ! 22 \<noteq> 0x3A
      then Err (Date_Message ''Date time not in imf fixdate format'')
      else
        rbind (field_uint s 23 25) (\<lambda>second.
        rbind (field_uint s 20 22) (\<lambda>minute.
        rbind (field_uint s 17 19) (\<lambda>hour.
        rbind (field_uint s 5 7) (\<lambda>day.
        rbind (field_named ''Invalid Month'' MONTH_NAMES '' '' '' '' s 7 12) (\<lambda>month.
        rbind (field_uint s 12 16) (\<lambda>year.
        rbind (field_named ''Invalid Day'' DAY_NAMES '''' '', '' s 0 5) (\<lambda>week_day.
        Ok \<lparr>d_second = second, d_minute = minute, d_hour = hour, d_day = day, d_month = month, d_year = year,
            d_week_day = week_day\<rparr>))))))))"

text \<open>The long names of the days come first; \<open>week_day\<close> cuts off the one that fits.\<close>

definition LONG_DAY_NAMES :: "string list" where
  "LONG_DAY_NAMES = [''Monday, '', ''Tuesday, '', ''Wednesday, '', ''Thursday, '', ''Friday, '', ''Saturday, '', ''Sunday, '']"

fun cut_week_day :: "string list \<Rightarrow> u8 \<Rightarrow> bytes \<Rightarrow> (u8 \<times> bytes, date_error) result" where
  "cut_week_day [] n s = Err (Date_Message ''Invalid day'')"
| "cut_week_day (name # names) n s =
     rbind (slice_range s 0 (length name)) (\<lambda>t.
     if t = ascii name then Ok (n, drop (length name) s) else cut_week_day names (n + 1) s)"

definition parse_rfc850_date :: "bytes \<Rightarrow> (http_date, date_error) result" where
  "parse_rfc850_date s =
     (if \<not> length s \<ge> 23 then Err (Date_Message ''Date time not in rfc850 format'')
      else
        rbind (cut_week_day LONG_DAY_NAMES 1 s) (\<lambda>(week_day, s).
        if length s \<noteq> 22 \<or> s ! 12 \<noteq> 0x3A \<or> s ! 15 \<noteq> 0x3A \<or> take 4 (drop 18 s) \<noteq> ascii '' GMT''
        then Err (Date_Message ''Date time not in rfc950 fmt'')
        else
          rbind (field_uint s 7 9) (\<lambda>year.
          let year = (if year < 70 then year + 2000 else year + 1900) in
          rbind (field_uint s 16 18) (\<lambda>second.
          rbind (field_uint s 13 15) (\<lambda>minute.
          rbind (field_uint s 10 12) (\<lambda>hour.
          rbind (field_uint s 0 2) (\<lambda>day.
          rbind (field_named ''Invalid month'' MONTH_NAMES ''-'' ''-'' s 2 7) (\<lambda>month.
          Ok \<lparr>d_second = second, d_minute = minute, d_hour = hour, d_day = day, d_month = month, d_year = year,
              d_week_day = week_day\<rparr>))))))))"

definition parse_asctime :: "bytes \<Rightarrow> (http_date, date_error) result" where
  "parse_asctime s =
     (if length s \<noteq> 24 \<or> s ! 10 \<noteq> 0x20 \<or> s ! 13 \<noteq> 0x3A \<or> s ! 16 \<noteq> 0x3A \<or> s ! 19 \<noteq> 0x20
      then Err (Date_Message ''Date time not in asctime format'')
      else
        rbind (field_uint s 17 19) (\<lambda>second.
        rbind (field_uint s 14 16) (\<lambda>minute.
        rbind (field_uint s 11 13) (\<lambda>hour.
        rbind (if s ! 8 = 0x20 then field_uint s 9 10 else field_uint s 8 10) (\<lambda>day.
        rbind (field_named ''Invalid month'' MONTH_NAMES '''' '' '' s 4 8) (\<lambda>month.
        rbind (field_uint s 20 24) (\<lambda>year.
        rbind (field_named ''Invalid day'' DAY_NAMES '''' '' '' s 0 4) (\<lambda>week_day.
        Ok \<lparr>d_second = second, d_minute = minute, d_hour = hour, d_day = day, d_month = month, d_year = year,
            d_week_day = week_day\<rparr>))))))))"

definition or_else :: "('a, 'e) result \<Rightarrow> ('a, 'd) result \<Rightarrow> ('a, 'd) result" where
  "or_else r r' = (case r of Ok x \<Rightarrow> Ok x | Err _ \<Rightarrow> r' | Panic \<Rightarrow> Panic)"

definition is_ascii :: "bytes \<Rightarrow> bool" where
  "is_ascii s = list_all (\<lambda>c. c < 0x80) s"

definition ascii_space :: "u8 \<Rightarrow> bool" where
  "ascii_space c \<longleftrightarrow> 9 \<le> c \<and> c \<le> 13 \<or> c = 0x20"

text \<open>\<open>str::trim\<close> on ASCII.\<close>

definition trim_ascii :: "bytes \<Rightarrow> bytes" where
  "trim_ascii s = rev (dropWhile ascii_space (rev (dropWhile ascii_space s)))"

definition http_date_from_str :: "bytes \<Rightarrow> (http_date, date_error) result" where
  "http_date_from_str s =
     (if \<not> is_ascii s then Err (Date_Message ''String slice is not valid ASCII'')
      else
        let x = trim_ascii s in
        rbind (or_else (parse_imf_fixdate x) (or_else (parse_rfc850_date x) (parse_asctime x))) (\<lambda>date.
        if date_is_valid date then Ok date else Err (Date_Message ''Invalid date time'')))"

text \<open>\<open>PartialEq\<close> compares the times.\<close>

definition http_date_eq :: "http_date \<Rightarrow> http_date \<Rightarrow> (bool, 'e) result" where
  "http_date_eq d e = rbind (http_date_into d) (\<lambda>t. rbind (http_date_into e) (\<lambda>u. Ok (t = u)))"

definition parse_http_date :: "bytes \<Rightarrow> (system_time, date_error) result" where
  "parse_http_date s = rbind (http_date_from_str s) http_date_into"

section \<open>The calendar\<close>

definition gregorian_leap :: "int \<Rightarrow> bool" where
  "gregorian_leap y \<longleftrightarrow> y mod 4 = 0 \<and> (y mod 100 \<noteq> 0 \<or> y mod 400 = 0)"

definition month_length :: "int \<Rightarrow> int \<Rightarrow> int" where
  "month_length y m = (if m = 2 then if gregorian_leap y then 29 else 28 else if m \<in> {4, 6, 9, 11} then 30 else 31)"

fun next_day :: "int \<times> int \<times> int \<Rightarrow> int \<times> int \<times> int" where
  "next_day (y, m, d) =
     (if d < month_length y m then (y, m, d + 1) else if m < 12 then (y, m + 1, 1) else (y + 1, 1, 1))"

text \<open>The day that is \<open>n\<close> days after the first of January 1970, which was a Thursday.\<close>

definition calendar :: "nat \<Rightarrow> int \<times> int \<times> int" where
  "calendar n = (next_day ^^ n) (1970, 1, 1)"

definition calendar_date :: "nat \<Rightarrow> http_date" where
  "calendar_date secs =
     (let n = secs div 86400; (y, m, d) = calendar n in
      \<lparr>d_second = of_nat (secs mod 60), d_minute = of_nat (secs div 60 mod 60), d_hour = of_nat (secs div 3600 mod 24),
       d_day = of_int d, d_month = of_int m, d_year = of_int y, d_week_day = of_nat ((n + 3) mod 7 + 1)\<rparr>)"

section \<open>The cycles are right\<close>

lemma floor_division:
  fixes a n :: int
  assumes "0 < n"
  shows "(if a smod n < 0 then (a sdiv n - 1, a smod n + n) else (a sdiv n, a smod n)) = (a div n, a mod n)"
proof (cases "0 \<le> a")
  case True
  with assms show ?thesis
    by (simp add: signed_divide_int_def signed_modulo_int_def sgn_if minus_div_mult_eq_mod not_less)
next
  case False
  define b where "b = - a"
  with False assms have "a sdiv n = - (b div n)" "a smod n = - (b mod n)"
    by (simp_all add: signed_divide_int_def signed_modulo_int_def sgn_if algebra_simps minus_mult_div_eq_mod)
  with assms show ?thesis
    using zdiv_zminus1_eq_if [of n b] zmod_zminus1_eq_if [of b n] pos_mod_sign [of n b] pos_mod_bound [of n b]
    by (simp add: b_def less_le)
qed

lemma floor_remainder: "0 < n \<Longrightarrow> a mod n = (if a smod n < 0 then a smod n + n else a smod (n :: int))"
  using floor_division [of n a] by (simp split: if_splits)

lemma sdiv_nonneg: "0 \<le> a \<Longrightarrow> 0 < n \<Longrightarrow> a sdiv n = a div (n :: int)"
  by (simp add: signed_divide_int_def sgn_if)

text \<open>The days before the first of March of a year, counted from the year 2000, and the length of the year that begins there.\<close>

definition march_start :: "int \<Rightarrow> int" where
  "march_start y = 365 * (y - 2000) + (y - 2000) div 4 - (y - 2000) div 100 + (y - 2000) div 400"

definition march_length :: "int \<Rightarrow> int" where
  "march_length y = (if gregorian_leap (y + 1) then 366 else 365)"

lemma date_cycles_eq:
  assumes "c = min 3 (r div 36524)" "r = days mod 146097" "r' = r - c * 36524" "q = min 24 (r' div 1461)"
    "r'' = r' - q * 1461" "z = min 3 (r'' div 365)"
  shows "date_cycles days = (2000 + z + 4 * q + 100 * c + 400 * (days div 146097), r'' - z * 365)"
proof -
  have r: "0 \<le> r" "r < 146097" using assms(2) by simp_all
  then have c: "(if r div 36524 = 4 then r div 36524 - 1 else r div 36524) = c" using assms(1) by simp
  have r': "0 \<le> r'" "r' \<le> 36524" using r assms(1,3) by simp_all
  then have q: "(if r' div 1461 = 25 then r' div 1461 - 1 else r' div 1461) = q" using assms(4) by simp
  have r'': "0 \<le> r''" "r'' < 1461" using r' assms(4,5) by simp_all
  then have z: "(if r'' div 365 = 4 then r'' div 365 - 1 else r'' div 365) = z" using assms(6) by simp
  have days_per: "DAYS_PER_400Y = 146097" "DAYS_PER_100Y = 36524" "DAYS_PER_4Y = 1461"
    by (simp_all add: DAYS_PER_400Y_def DAYS_PER_100Y_def DAYS_PER_4Y_def)
  have quotients: "r sdiv 36524 = r div 36524" "r' sdiv 1461 = r' div 1461" "r'' sdiv 365 = r'' div 365"
    using r r' r'' by (simp_all add: sdiv_nonneg)
  have cycles: "(if days smod 146097 < 0 then (days sdiv 146097 - 1, days smod 146097 + 146097)
      else (days sdiv 146097, days smod 146097)) = (days div 146097, r)"
    using floor_division [of 146097 days] assms(2) by simp
  show ?thesis
    by (simp only: date_cycles_def days_per Let_def cycles prod.case quotients c q z assms(3,5) [symmetric])
qed

lemma date_cycles_march:
  assumes "date_cycles days = (y, r)"
  shows "march_start y + r = days" "0 \<le> r" "r < march_length y"
proof -
  define m where "m = days mod 146097"
  define qc where "qc = days div 146097"
  define c where "c = min 3 (m div 36524)"
  define m' where "m' = m - c * 36524"
  define q where "q = min 24 (m' div 1461)"
  define m'' where "m'' = m' - q * 1461"
  define z where "z = min 3 (m'' div 365)"
  have days: "days = 146097 * qc + m" by (simp add: m_def qc_def)
  have m: "0 \<le> m" "m < 146097" by (simp_all add: m_def)
  have c: "0 \<le> c" "c \<le> 3" and m': "0 \<le> m'" "m' \<le> 36524" "c < 3 \<Longrightarrow> m' < 36524"
    using m by (simp_all add: c_def m'_def) 
  have q: "0 \<le> q" "q \<le> 24" and m'': "0 \<le> m''" "m'' \<le> 1460" "q = 24 \<Longrightarrow> c < 3 \<Longrightarrow> m'' < 1460"
    using m' by (simp_all add: q_def m''_def) 
  have z: "0 \<le> z" "z \<le> 3" and r': "0 \<le> m'' - z * 365" "m'' - z * 365 \<le> 365" "z < 3 \<Longrightarrow> m'' - z * 365 < 365"
    using m'' by (simp_all add: z_def) 
  have yr: "y = 2000 + z + 4 * q + 100 * c + 400 * qc" "r = m'' - z * 365"
    using date_cycles_eq [OF c_def m_def m'_def q_def m''_def z_def] assms by (simp_all add: qc_def)
  have div: "(y - 2000) div 4 = q + 25 * c + 100 * qc" "(y - 2000) div 100 = c + 4 * qc" "(y - 2000) div 400 = qc"
    using q c z int_div_pos_eq [of "y - 2000" 4 "q + 25 * c + 100 * qc" z]
      int_div_pos_eq [of "y - 2000" 100 "c + 4 * qc" "z + 4 * q"] int_div_pos_eq [of "y - 2000" 400 qc "z + 4 * q + 100 * c"]
    by (simp_all add: yr(1))
  show "march_start y + r = days" "0 \<le> r"
    using r' by (simp_all add: march_start_def div days) (simp_all add: yr m''_def m'_def)
  have "gregorian_leap (y + 1)" if "r = 365"
  proof -
    have "m'' - z * 365 = 365" using that yr by simp
    moreover have z3: "z = 3" using calculation z r'(3) by fastforce
    ultimately have m1460: "m'' = 1460" by simp
    have "y + 1 = 4 * (501 + q + 25 * c + 100 * qc)" using yr z3 by simp
    then have "(y + 1) mod 4 = 0" by (simp only: mod_mult_self1_is_0)
    moreover have "(y + 1) mod 100 \<noteq> 0" if "q < 24"
      using int_mod_pos_eq [of "y + 1" 100 "20 + c + 4 * qc" "4 * q + 4"] yr z3 q that by simp
    moreover have "(y + 1) mod 400 = 0" if "q = 24" "c = 3"
    proof -
      have "y + 1 = 400 * (6 + qc)" using yr z3 that by simp
      then show ?thesis by (simp only: mod_mult_self1_is_0)
    qed
    moreover have "q < 24 \<or> q = 24 \<and> c = 3" using m''(3) m1460 q(2) c(2) by fastforce
    ultimately show ?thesis by (auto simp: gregorian_leap_def)
  qed
  with r'(2) yr(2) show "r < march_length y" by (cases "r = 365") (simp_all add: march_length_def)
qed

lemma div_step:
  assumes "0 < (n :: int)"
  shows "(x + 1) div n = x div n + (if (x + 1) mod n = 0 then 1 else 0)"
proof -
  have x: "x + 1 = n * (x div n) + (x mod n + 1)" by simp
  show ?thesis
  proof (cases "x mod n + 1 = n")
    case True
    with x have "x + 1 = n * (x div n + 1)" by (simp add: distrib_left)
    with assms show ?thesis by simp
  next
    case False
    with assms have bound: "0 \<le> x mod n + 1" "x mod n + 1 < n" using pos_mod_bound [OF assms, of x] by (simp_all add: less_le)
    have "(x + 1) div n = x div n" "(x + 1) mod n = x mod n + 1"
      using int_div_pos_eq [OF x bound] int_mod_pos_eq [OF x bound] by auto
    with pos_mod_sign [OF assms, of x] show ?thesis by simp
  qed
qed

lemma march_start_next: "march_start (y + 1) = march_start y + march_length y"
proof -
  define x where "x = y - 2000"
  have y: "y = x + 2000" by (simp add: x_def)
  define leap where "leap n \<longleftrightarrow> (x + 1) mod n = 0" for n
  have "(x + 2000 + 1) mod 4 = (x + 1) mod 4" "(x + 2000 + 1) mod 100 = (x + 1) mod 100"
    using mod_mult_self2 [of "x + 1" 4 500] mod_mult_self2 [of "x + 1" 100 20] by (simp_all add: algebra_simps)
  moreover have "(x + 2000 + 1) mod 400 = (x + 1) mod 400"
    using mod_mult_self2 [of "x + 1" 400 5] by (simp add: algebra_simps)
  ultimately have leap_next: "gregorian_leap (y + 1) \<longleftrightarrow> leap 4 \<and> (\<not> leap 100 \<or> leap 400)"
    by (simp only: gregorian_leap_def leap_def y simp_thms)
  have "leap 100 \<Longrightarrow> leap 4" "leap 400 \<Longrightarrow> leap 100"
    using dvd_trans [of 4 100 "x + 1"] dvd_trans [of 100 400 "x + 1"] by (simp_all add: leap_def mod_eq_0_iff_dvd)
  then have 1: "march_length y = 365 + of_bool (leap 4) - of_bool (leap 100) + of_bool (leap 400)"
    unfolding march_length_def leap_next by (cases "leap 4"; cases "leap 100"; cases "leap 400") simp_all
  have 2: "(x + 1) div n = x div n + of_bool (leap n)" if "0 < n" for n
    using div_step [OF that, of x] by (simp add: leap_def)
  have 3: "march_start (y + 1) = 365 * (x + 1) + (x + 1) div 4 - (x + 1) div 100 + (x + 1) div 400"
    by (simp add: march_start_def y add.commute)
  have 4: "march_start y = 365 * x + x div 4 - x div 100 + x div 400" by (simp add: march_start_def y)
  have "365 * (x + 1) + (a + p) - (b + q) + (c + r) = 365 * x + a - b + c + (365 + p - q + r)" for a b c p q r :: int
    by simp
  then show ?thesis by (simp only: 1 3 4 2 [OF zero_less_numeral])
qed

lemma march_start_less:
  assumes "y < y'"
  shows "march_start y + march_length y \<le> march_start y'"
proof -
  have "march_start z \<le> march_start (z + int n)" for z n
  proof (induction n)
    case (Suc n)
    have "march_start (z + int (Suc n)) = march_start (z + int n) + march_length (z + int n)"
      using march_start_next [of "z + int n"] by (simp add: ac_simps)
    with Suc show ?case by (simp add: march_length_def)
  qed simp
  from this [of "y + 1" "nat (y' - y - 1)"] assms show ?thesis by (simp add: march_start_next)
qed

lemma march_unique:
  assumes "march_start y + r = march_start y' + r'" "0 \<le> r" "r < march_length y" "0 \<le> r'" "r' < march_length y'"
  shows "y = y' \<and> r = r'"
  using assms march_start_less [of y y'] march_start_less [of y' y] by (cases y y' rule: linorder_cases) auto

lemma date_cycles_next:
  assumes "date_cycles days = (y, r)"
  shows "date_cycles (days + 1) = (if r + 1 < march_length y then (y, r + 1) else (y + 1, 0))"
proof -
  obtain y' r' where next_eq: "date_cycles (days + 1) = (y', r')" by fastforce
  have pos: "0 < march_length (y + 1)" by (simp add: march_length_def)
  show ?thesis
    using date_cycles_march [OF assms] date_cycles_march [OF next_eq] march_start_next [of y] pos
      march_unique [of y' r' y "r + 1"] march_unique [of y' r' "y + 1" 0]
    by (cases "r + 1 < march_length y") (simp_all add: next_eq)
qed

definition march_date :: "int \<times> int \<Rightarrow> int \<times> int \<times> int" where
  "march_date p =
     (case p of (year, remdays) \<Rightarrow> case month_loop date_months 0 remdays of (month, remdays) \<Rightarrow>
      if month + 2 > 12 then (year + 1, month - 10, remdays + 1) else (year, month + 2, remdays + 1))"

lemma civil_date_march: "civil_date days = march_date (date_cycles days)"
  by (simp add: civil_date_def march_date_def Let_def split: prod.splits)

lemma month_loop_date:
  assumes "r < 366"
  shows "month_loop date_months 0 r =
    (if r < 31 then (1, r) else if r < 61 then (2, r - 31) else if r < 92 then (3, r - 61) else if r < 122 then (4, r - 92)
     else if r < 153 then (5, r - 122) else if r < 184 then (6, r - 153) else if r < 214 then (7, r - 184)
     else if r < 245 then (8, r - 214) else if r < 275 then (9, r - 245) else if r < 306 then (10, r - 275)
     else if r < 337 then (11, r - 306) else (12, r - 337))"
  using assms by (simp add: date_months_def Let_def)

lemma march_date_next:
  assumes "0 \<le> r" "r < march_length y"
  shows "march_date (if r + 1 < march_length y then (y, r + 1) else (y + 1, 0)) = next_day (march_date (y, r))"
proof -
  have r: "r < 366" using assms by (simp add: march_length_def split: if_splits)
  have next_r: "month_loop date_months 0 0 = (1, 0)" by (simp add: date_months_def)
  show ?thesis
  proof (cases "r + 1 < march_length y")
    case True
    then have "r + 1 < 366" by (simp add: march_length_def split: if_splits)
    with True assms r show ?thesis
      by (cases "gregorian_leap (y + 1)") (simp_all add: march_date_def month_loop_date month_length_def march_length_def)
  next
    case False
    with assms have "r = march_length y - 1" by simp
    with r next_r show ?thesis by (simp add: march_date_def month_loop_date month_length_def march_length_def)
  qed
qed

lemma civil_date_calendar: "civil_date (int n - LEAPOCH) = calendar n"
proof (induction n)
  case 0
  show ?case by (simp add: calendar_def LEAPOCH_def) code_simp
next
  case (Suc n)
  obtain y r where yr: "date_cycles (int n - LEAPOCH) = (y, r)" by fastforce
  have "civil_date (int (Suc n) - LEAPOCH) = march_date (date_cycles (int n - LEAPOCH + 1))"
    by (simp add: civil_date_march algebra_simps)
  also have "\<dots> = next_day (march_date (y, r))"
    using march_date_next [OF date_cycles_march(2,3) [OF yr]] by (simp add: date_cycles_next [OF yr])
  also have "march_date (y, r) = calendar n" using Suc by (simp add: civil_date_march yr)
  finally show ?case by (simp add: calendar_def)
qed

lemma civil_week_day_eq: "civil_week_day (int n - LEAPOCH) = int ((n + 3) mod 7 + 1)"
proof -
  define x where "x = 3 + (int n - LEAPOCH)"
  define k where "k = x mod 7"
  have k: "0 \<le> k" "k < 7" by (simp_all add: k_def)
  have x: "x = 7 * (x div 7) + k" by (simp add: k_def)
  have previous: "(x - 1) mod 7 = (if k = 0 then 6 else k - 1)"
    using int_mod_pos_eq [of "x - 1" 7 "x div 7 - 1" 6] int_mod_pos_eq [of "x - 1" 7 "x div 7" "k - 1"] x k by simp
  consider "x smod 7 = k" | "x smod 7 = k - 7" "x smod 7 < 0" "k \<noteq> 0"
  proof (cases "x smod 7 < 0")
    case True
    then have "x smod 7 = k - 7" "- 7 < x smod 7"
      using floor_remainder [of 7 x] smod_int_compares(2,3) [of x 7] by (cases "0 \<le> x"; simp add: k_def [symmetric])+
    with True that show ?thesis by auto
  qed (use floor_remainder [of 7 x] that in \<open>simp add: k_def [symmetric]\<close>)
  then have "(if x smod 7 \<le> 0 then x smod 7 + 7 else x smod 7) = (x - 1) mod 7 + 1"
    unfolding previous using k by cases simp_all
  also have "(x - 1) mod 7 = (int n + 3) mod 7"
    using mod_mult_self2 [of "int n + 3" 7 "- 1574"] by (simp add: x_def LEAPOCH_def)
  finally show ?thesis by (simp add: civil_week_day_def Let_def x_def [symmetric] zmod_int)
qed

text \<open>What the fields of a date can be.\<close>

lemma calendar_fields:
  assumes "calendar n = (y, m, d)"
  shows "1 \<le> m" "m \<le> 12" "1 \<le> d" "d \<le> month_length y m" "1970 \<le> y"
proof -
  have "1 \<le> m \<and> m \<le> 12 \<and> 1 \<le> d \<and> d \<le> month_length y m \<and> 1970 \<le> y"
    using assms
  proof (induction n arbitrary: y m d)
    case 0
    then show ?case by (simp add: calendar_def month_length_def)
  next
    case (Suc n)
    obtain y' m' d' where "calendar n = (y', m', d')" by (cases "calendar n")
    with Suc.IH [OF this] Suc.prems show ?case
      by (auto simp: calendar_def month_length_def split: if_splits)
  qed
  then show "1 \<le> m" "m \<le> 12" "1 \<le> d" "d \<le> month_length y m" "1970 \<le> y" by auto
qed

lemma month_length_bound: "month_length y m \<le> 31"
  by (simp add: month_length_def)

text \<open>The number of a day, as \<open>From<HttpDate>\<close> counts.\<close>

definition leaps :: "int \<Rightarrow> int" where
  "leaps y = (y - 1969) div 4 - (y - 1901) div 100 + (y - 1601) div 400"

definition month_start :: "int \<Rightarrow> int" where
  "month_start m = [0, 31, 59, 90, 120, 151, 181, 212, 243, 273, 304, 334] ! nat (m - 1)"

definition day_number :: "int \<Rightarrow> int \<Rightarrow> int \<Rightarrow> int" where
  "day_number y m d = (y - 1970) * 365 + leaps y + month_start m + d - 1 + of_bool (gregorian_leap y \<and> m > 2)"

lemma leaps_next: "leaps (y + 1) = leaps y + of_bool (gregorian_leap y)"
proof -
  have "(y - 1969 + 1) mod 4 = y mod 4" "(y - 1901 + 1) mod 100 = y mod 100"
    using mod_mult_self2 [of y 4 "- 492"] mod_mult_self2 [of y 100 "- 19"] by simp_all
  moreover have "(y - 1601 + 1) mod 400 = y mod 400" using mod_mult_self2 [of y 400 "- 4"] by simp
  ultimately have step: "(y - 1969 + 1) div 4 = (y - 1969) div 4 + of_bool (y mod 4 = 0)"
      "(y - 1901 + 1) div 100 = (y - 1901) div 100 + of_bool (y mod 100 = 0)"
      "(y - 1601 + 1) div 400 = (y - 1601) div 400 + of_bool (y mod 400 = 0)"
    using div_step [of 4 "y - 1969"] div_step [of 100 "y - 1901"] div_step [of 400 "y - 1601"] by (simp_all only: of_bool_def)
  have "leaps (y + 1) = (y - 1969 + 1) div 4 - (y - 1901 + 1) div 100 + (y - 1601 + 1) div 400"
    by (simp add: leaps_def algebra_simps)
  then have 1: "leaps (y + 1) = leaps y + (of_bool (y mod 4 = 0) - of_bool (y mod 100 = 0) + of_bool (y mod 400 = 0))"
    unfolding step leaps_def by (simp only: ring_distribs diff_conv_add_uminus ac_simps)
  have "y mod 100 = 0 \<Longrightarrow> y mod 4 = 0" "y mod 400 = 0 \<Longrightarrow> y mod 100 = 0"
    using dvd_trans [of 4 100 y] dvd_trans [of 100 400 y] by (simp_all add: mod_eq_0_iff_dvd)
  then have "of_bool (y mod 4 = 0) - of_bool (y mod 100 = 0) + of_bool (y mod 400 = 0) = (of_bool (gregorian_leap y) :: int)"
    unfolding gregorian_leap_def by (cases "y mod 4 = 0"; cases "y mod 100 = 0"; cases "y mod 400 = 0") simp_all
  with 1 show ?thesis by simp
qed

lemma month_cases:
  assumes "1 \<le> m" "m \<le> (12 :: int)"
  obtains "m = 1" | "m = 2" | "m = 3" | "m = 4" | "m = 5" | "m = 6" | "m = 7" | "m = 8" | "m = 9" | "m = 10" | "m = 11" | "m = 12"
proof -
  have "m = 1 \<or> m = 2 \<or> m = 3 \<or> m = 4 \<or> m = 5 \<or> m = 6 \<or> m = 7 \<or> m = 8 \<or> m = 9 \<or> m = 10 \<or> m = 11 \<or> m = 12"
    using assms by presburger
  then show thesis using that by blast
qed

lemma month_start_next:
  assumes "1 \<le> m" "m < 12"
  shows "month_start (m + 1) + of_bool (gregorian_leap y \<and> m + 1 > 2)
    = month_start m + month_length y m + of_bool (gregorian_leap y \<and> m > 2)"
proof -
  have "m \<le> 12" using assms by simp
  from month_cases [OF assms(1) this] show ?thesis
    using assms(2) by cases (simp_all add: month_start_def month_length_def)
qed

lemma calendar_day_number: "calendar n = (y, m, d) \<Longrightarrow> day_number y m d = int n"
proof (induction n arbitrary: y m d)
  case 0
  then show ?case by (auto simp: calendar_def day_number_def month_start_def leaps_def gregorian_leap_def)
next
  case (Suc n)
  obtain y' m' d' where n: "calendar n = (y', m', d')" by (cases "calendar n")
  note fields = calendar_fields [OF n] and number = Suc.IH [OF n]
  have step: "(y, m, d) = next_day (y', m', d')" using Suc.prems n by (simp add: calendar_def)
  consider "d' < month_length y' m'" | "d' = month_length y' m'" "m' < 12" | "d' = month_length y' m'" "m' = 12"
    using fields by linarith
  then show ?case
  proof cases
    case 1
    with step number show ?thesis by (simp add: day_number_def)
  next
    case 2
    with step number month_start_next [OF fields(1), of y'] show ?thesis by (simp add: day_number_def)
  next
    case 3
    then have "y = y' + 1" "m = 1" "d = 1" "d' = 31" using step by (simp_all add: month_length_def)
    with number 3 show ?thesis by (simp add: day_number_def leaps_next month_start_def)
  qed
qed

lemma leaps_bound: "400 * leaps y \<ge> 100 * (y - 1972) - 4 * (y - 1901) + (y - 2000)"
proof -
  have "y - 1972 \<le> 4 * ((y - 1969) div 4)" using div_mod_decomp_int [of "y - 1969" 4] pos_mod_bound [of 4 "y - 1969"] by linarith
  moreover have "100 * ((y - 1901) div 100) \<le> y - 1901"
    using div_mod_decomp_int [of "y - 1901" 100] pos_mod_sign [of 100 "y - 1901"] by linarith
  moreover have "y - 2000 \<le> 400 * ((y - 1601) div 400)"
    using div_mod_decomp_int [of "y - 1601" 400] pos_mod_bound [of 400 "y - 1601"] by linarith
  moreover have "y - 1972 \<le> 4 * a \<Longrightarrow> 100 * b \<le> y - 1901 \<Longrightarrow> y - 2000 \<le> 400 * c \<Longrightarrow>
      100 * (y - 1972) - 4 * (y - 1901) + (y - 2000) \<le> 400 * (a - b + c)" for a b c :: int
    by simp
  ultimately show ?thesis unfolding leaps_def by blast
qed

lemma calendar_year:
  assumes "calendar n = (y, m, d)" "n < 2932897"
  shows "y \<le> 9999"
proof (rule ccontr)
  assume "\<not> y \<le> 9999"
  then have y: "10000 \<le> y" by simp
  have "0 \<le> month_start m"
    using calendar_fields(1,2) [OF assms(1)] by (rule month_cases) (simp_all add: month_start_def)
  then have "(y - 1970) * 365 + leaps y \<le> int n"
    using calendar_day_number [OF assms(1), unfolded day_number_def] calendar_fields(3) [OF assms(1)]
      zero_less_eq_of_bool [of "gregorian_leap y \<and> m > 2", where 'a = int] by linarith
  moreover have "int n \<le> 2932896" using assms(2) by simp
  ultimately show False using leaps_bound [of y] y by simp
qed

section \<open>A time becomes the date of the calendar\<close>

lemma seconds_of_day:
  fixes s :: nat
  shows "s mod 86400 mod 60 = s mod 60" "s mod 86400 mod 3600 div 60 = s div 60 mod 60" "s mod 86400 div 3600 = s div 3600 mod 24"
proof -
  show "s mod 86400 mod 60 = s mod 60" by (simp add: mod_mod_cancel)
  have "s mod 86400 mod 3600 = s mod 3600" by (simp add: mod_mod_cancel)
  also have "\<dots> = 60 * (s div 60 mod 60) + s mod 60" using mod_mult2_eq [of s 60 60] by simp
  finally show "s mod 86400 mod 3600 div 60 = s div 60 mod 60" by simp
  have "s mod 86400 = 3600 * (s div 3600 mod 24) + s mod 3600" using mod_mult2_eq [of s 3600 24] by simp
  then show "s mod 86400 div 3600 = s div 3600 mod 24" by simp
qed

lemma http_date_from_calendar:
  assumes "0 \<le> t" "as_secs t < YEAR_9999_SECONDS"
  shows "http_date_from t = Ok (calendar_date (as_secs t))"
proof -
  obtain y m d where "calendar (as_secs t div 86400) = (y, m, d)" by (cases "calendar (as_secs t div 86400)")
  with assms show ?thesis
    by (simp add: http_date_from_def calendar_date_def Let_def civil_date_calendar civil_week_day_eq seconds_of_day)
qed

text \<open>C39 A time becomes the date of the calendar that is as many days after the first of
  January 1970: the cycles of 400, 100, 4 and 1 years with March first and the corrections of their
  quotients give what going forward day by day gives, with leap years by the Gregorian rule and the right day
  of the week. Times before 1970 and from the year 10000 on are the only ones that panic.\<close>

theorem date_is_the_calendar:
  "http_date_from t =
     (if 0 \<le> t \<and> as_secs t < YEAR_9999_SECONDS then Ok (calendar_date (as_secs t)) else (Panic :: (http_date, 'e) result))"
  using http_date_from_calendar [of t] by (auto simp: http_date_from_def Let_def)

section \<open>What is written is read\<close>

lemma utf8_ok_ascii: "list_all (\<lambda>c. c < 0x80) s \<Longrightarrow> utf8_ok s"
  by (induction s) (simp_all add: utf8_ok.simps)

lemma parse_digits_step:
  assumes "k < 10"
  shows "parse_digits limit acc (ascii_digit (of_nat k) # cs) =
    (if acc * 10 + k < limit then parse_digits limit (acc * 10 + k) cs else Err Date_Parse_Int)"
proof -
  have "k = 0 \<or> k = 1 \<or> k = 2 \<or> k = 3 \<or> k = 4 \<or> k = 5 \<or> k = 6 \<or> k = 7 \<or> k = 8 \<or> k = 9" using assms by presburger
  then show ?thesis by (auto simp: ascii_digit_def Let_def)
qed

lemma ascii_digit_bounds:
  assumes "k < 10"
  shows "ascii_digit (of_nat k) < 0x80" "ascii_digit (of_nat k) \<noteq> 0x2B" "ascii_digit (of_nat k) \<noteq> 0x2D"
proof -
  have "k = 0 \<or> k = 1 \<or> k = 2 \<or> k = 3 \<or> k = 4 \<or> k = 5 \<or> k = 6 \<or> k = 7 \<or> k = 8 \<or> k = 9" using assms by presburger
  then show "ascii_digit (of_nat k) < 0x80" "ascii_digit (of_nat k) \<noteq> 0x2B" "ascii_digit (of_nat k) \<noteq> 0x2D"
    by (auto simp: ascii_digit_def)
qed

text \<open>The digits that are written, as numbers below ten.\<close>

lemma byte_digits:
  assumes "(w :: u8) < 100"
  shows "w div 10 = of_nat (unat w div 10)" "w mod 10 = of_nat (unat w mod 10)" "unat w div 10 < 10"
  using assms by (auto simp: word_unat_eq_iff unat_div unat_mod unat_of_nat word_less_nat_alt)

lemma year_digits:
  assumes "(y :: u16) \<le> 9999"
  shows "(ucast (y div 1000) :: u8) = of_nat (unat y div 1000)" "(ucast (y div 100 mod 10) :: u8) = of_nat (unat y div 100 mod 10)"
    "(ucast (y div 10 mod 10) :: u8) = of_nat (unat y div 10 mod 10)" "(ucast (y mod 10) :: u8) = of_nat (unat y mod 10)"
    "unat y div 1000 < 10"
proof -
  have cast: "(ucast z :: u8) = of_nat (unat z)" for z :: u16 by (simp add: word_of_nat_eq_iff)
  show "(ucast (y div 1000) :: u8) = of_nat (unat y div 1000)" "(ucast (y div 100 mod 10) :: u8) = of_nat (unat y div 100 mod 10)"
    "(ucast (y div 10 mod 10) :: u8) = of_nat (unat y div 10 mod 10)" "(ucast (y mod 10) :: u8) = of_nat (unat y mod 10)"
    by (simp_all add: cast unat_div unat_mod)
  show "unat y div 1000 < 10" using assms by (simp add: word_le_nat_alt)
qed

lemma parse_two_digits:
  assumes "(w :: u8) < 100"
  shows "parse_uint [ascii_digit (w div 10), ascii_digit (w mod 10)] = Ok w"
proof -
  have "unat w div 10 * 10 + unat w mod 10 = unat w" by simp
  moreover have "unat w < 256" using unsigned_less [of w] by simp
  ultimately show ?thesis
    using byte_digits [OF assms] by (simp add: parse_uint_def parse_digits_step ascii_digit_bounds del: parse_digits.simps(2))
qed

lemma parse_four_digits:
  assumes "(y :: u16) \<le> 9999"
  shows "parse_uint [ascii_digit (ucast (y div 1000)), ascii_digit (ucast (y div 100 mod 10)),
    ascii_digit (ucast (y div 10 mod 10)), ascii_digit (ucast (y mod 10))] = Ok y"
proof -
  have "unat y div 1000 * 10 + unat y div 100 mod 10 = unat y div 100" "unat y div 100 * 10 + unat y div 10 mod 10 = unat y div 10"
    "unat y div 10 * 10 + unat y mod 10 = unat y"
    using div_mult2_eq [of "unat y" 100 10] div_mult2_eq [of "unat y" 10 10] by simp_all
  moreover have small: "unat y < 65536" using unsigned_less [of y] by simp
  moreover have "unat y div 10 < 65536" "unat y div 100 < 65536" "unat y div 1000 < 65536"
    using small by (simp_all add: less_mult_imp_div_less)
  ultimately show ?thesis
    using year_digits [OF assms] by (simp add: parse_uint_def parse_digits_step ascii_digit_bounds del: parse_digits.simps(2))
qed

lemma digit_bytes_ascii:
  assumes "(w :: u8) < 100"
  shows "ascii_digit (w div 10) < 0x80" "ascii_digit (w mod 10) < 0x80"
  using byte_digits [OF assms] by (simp_all add: ascii_digit_bounds)

lemma year_bytes_ascii:
  assumes "(y :: u16) \<le> 9999"
  shows "ascii_digit (ucast (y div 1000)) < 0x80" "ascii_digit (ucast (y div 100 mod 10)) < 0x80"
    "ascii_digit (ucast (y div 10 mod 10)) < 0x80" "ascii_digit (ucast (y mod 10)) < 0x80"
  using year_digits [OF assms] by (simp_all add: ascii_digit_bounds)

text \<open>A row of a table of three letters is read back.\<close>

definition named :: "string list \<Rightarrow> string \<Rightarrow> string \<Rightarrow> bytes \<Rightarrow> bytes \<Rightarrow> u8 \<Rightarrow> bool" where
  "named names before after l r n \<longleftrightarrow>
     1 \<le> unat n \<and> unat n \<le> length names \<and>
     (let t = ascii (names ! (unat n - 1)) in
      length t = 3 \<and> lookup_name names before after (l @ t @ r) = Some n \<and> list_all (\<lambda>c. c < 0x80) t \<and> \<not> ascii_space (hd t))"

lemma named_days: "1 \<le> n \<Longrightarrow> n < 8 \<Longrightarrow> named DAY_NAMES '''' '', '' [] [0x2C, 0x20] n"
proof -
  have "\<forall>k \<in> set [1..<8]. named DAY_NAMES '''' '', '' [] [0x2C, 0x20] (of_nat k)" by code_simp
  moreover assume "1 \<le> n" "n < 8"
  then have "unat n \<in> set [1..<8]" by (simp add: word_less_nat_alt word_le_nat_alt)
  ultimately show ?thesis by (fastforce dest: bspec [where x = "unat n"])
qed

lemma named_months: "0 < n \<Longrightarrow> n \<le> 12 \<Longrightarrow> named MONTH_NAMES '' '' '' '' [0x20] [0x20] n"
proof -
  have "\<forall>k \<in> set [1..<13]. named MONTH_NAMES '' '' '' '' [0x20] [0x20] (of_nat k)" by code_simp
  moreover assume "0 < n" "n \<le> 12"
  then have "unat n \<in> set [1..<13]" by (simp add: word_less_nat_alt word_le_nat_alt)
  ultimately show ?thesis by (fastforce dest: bspec [where x = "unat n"])
qed

lemma named_obtain:
  assumes "named names before after l r n"
  obtains a b c where "name_of names n = (Ok [a, b, c] :: (bytes, 'e) result)"
    "lookup_name names before after (l @ [a, b, c] @ r) = Some n" "a < 0x80" "b < 0x80" "c < 0x80" "\<not> ascii_space a"
  using assms by (auto simp: named_def name_of_def Let_def length_Suc_conv numeral_3_eq_3)

lemma imf_fixdate_of_fmt:
  assumes "date_is_valid d"
  obtains s where "http_date_fmt d = (Ok s :: (bytes, 'e) result)" "is_ascii s" "trim_ascii s = s" "parse_imf_fixdate s = Ok d"
proof -
  obtain a b c where day: "name_of DAY_NAMES (d_week_day d) = (Ok [a, b, c] :: (bytes, 'e) result)"
    "lookup_name DAY_NAMES '''' '', '' [a, b, c, 0x2C, 0x20] = Some (d_week_day d)"
    "a < 0x80" "b < 0x80" "c < 0x80" "\<not> ascii_space a"
    using named_obtain [OF named_days [of "d_week_day d"]] assms by (auto simp: date_is_valid_def)
  obtain a' b' c' where month: "name_of MONTH_NAMES (d_month d) = (Ok [a', b', c'] :: (bytes, 'e) result)"
    "lookup_name MONTH_NAMES '' '' '' '' [0x20, a', b', c', 0x20] = Some (d_month d)" "a' < 0x80" "b' < 0x80" "c' < 0x80"
    "\<not> ascii_space a'"
    using named_obtain [OF named_months [of "d_month d"]] assms by (auto simp: date_is_valid_def)
  have small: "d_day d < 100" "d_hour d < 100" "d_minute d < 100" "d_second d < 100" and year: "d_year d \<le> 9999"
    using assms by (auto simp: date_is_valid_def word_less_nat_alt)
  note digits = small [THEN parse_two_digits] parse_four_digits [OF year]
  note low = small [THEN digit_bytes_ascii(1)] small [THEN digit_bytes_ascii(2)] year_bytes_ascii [OF year]
  define s where "s = [a, b, c, 0x2C, 0x20, ascii_digit (d_day d div 10), ascii_digit (d_day d mod 10), 0x20, a', b', c', 0x20,
      ascii_digit (ucast (d_year d div 1000)), ascii_digit (ucast (d_year d div 100 mod 10)),
      ascii_digit (ucast (d_year d div 10 mod 10)), ascii_digit (ucast (d_year d mod 10)), 0x20,
      ascii_digit (d_hour d div 10), ascii_digit (d_hour d mod 10), 0x3A,
      ascii_digit (d_minute d div 10), ascii_digit (d_minute d mod 10), 0x3A,
      ascii_digit (d_second d div 10), ascii_digit (d_second d mod 10), 0x20, 0x47, 0x4D, 0x54]"
  have "http_date_fmt d = (Ok s :: (bytes, 'e) result)" by (simp add: http_date_fmt_def day(1) month(1) s_def)
  moreover have "is_ascii s" using day month low by (simp add: s_def is_ascii_def)
  moreover have "trim_ascii s = s" using day(6) by (simp add: s_def trim_ascii_def ascii_space_def)
  moreover have "parse_imf_fixdate s = Ok d"
    unfolding s_def parse_imf_fixdate_def
    by (simp add: field_uint_def field_named_def slice_range_def date_utf8_def utf8_ok_ascii low digits day(2) month(2) ascii_def)
  ultimately show thesis using that by blast
qed

section \<open>From the calendar back to the time\<close>

text \<open>The date of a second, with natural numbers in the fields.\<close>

lemma calendar_date_fields:
  assumes "n < YEAR_9999_SECONDS"
  obtains y m d where "calendar (n div 86400) = (int y, int m, int d)" "1 \<le> m" "m \<le> 12" "1 \<le> d" "d \<le> 31" "1970 \<le> y" "y \<le> 9999"
    "calendar_date n = \<lparr>d_second = of_nat (n mod 60), d_minute = of_nat (n div 60 mod 60), d_hour = of_nat (n div 3600 mod 24),
       d_day = of_nat d, d_month = of_nat m, d_year = of_nat y, d_week_day = of_nat ((n div 86400 + 3) mod 7 + 1)\<rparr>"
proof -
  obtain y m d where cal: "calendar (n div 86400) = (y, m, d)" by (cases "calendar (n div 86400)")
  have "n div 86400 < 2932897" using assms by (simp add: YEAR_9999_SECONDS_def less_mult_imp_div_less)
  with cal have year: "y \<le> 9999" by (rule calendar_year)
  note bounds = calendar_fields [OF cal] month_length_bound [of y m]
  show thesis
    by (rule that [of "nat y" "nat m" "nat d"]) (use cal year bounds in \<open>auto simp: calendar_date_def Let_def\<close>)
qed

lemma calendar_date_valid:
  assumes "n < YEAR_9999_SECONDS"
  shows "date_is_valid (calendar_date n)"
proof (rule calendar_date_fields [OF assms])
  fix y m d :: nat
  assume fields: "1 \<le> m" "m \<le> 12" "1 \<le> d" "d \<le> 31" "1970 \<le> y" "y \<le> 9999"
    and date: "calendar_date n = \<lparr>d_second = of_nat (n mod 60), d_minute = of_nat (n div 60 mod 60), d_hour = of_nat (n div 3600 mod 24),
       d_day = of_nat d, d_month = of_nat m, d_year = of_nat y, d_week_day = of_nat ((n div 86400 + 3) mod 7 + 1)\<rparr>"
  have small: "n mod 60 < 60" "n div 60 mod 60 < 60" "n div 3600 mod 24 < 24" "(n div 86400 + 3) mod 7 < 7" by simp_all
  have byte: "k < 256 \<Longrightarrow> unat (of_nat k :: u8) = k" for k by (simp add: unat_of_nat)
  have short: "k < 65536 \<Longrightarrow> unat (of_nat k :: u16) = k" for k by (simp add: unat_of_nat)
  show ?thesis
    using fields small by (simp add: date date_is_valid_def word_less_nat_alt word_le_nat_alt byte short del: of_nat_add of_nat_Suc)
qed

lemma word_quotient:
  assumes "a < 65536"
  shows "(of_nat a :: u16) div 4 = of_nat (a div 4)" "(of_nat a :: u16) div 100 = of_nat (a div 100)"
    "(of_nat a :: u16) div 400 = of_nat (a div 400)"
proof -
  have "a div 4 < 65536" "a div 100 < 65536" "a div 400 < 65536" using assms by (simp_all add: less_mult_imp_div_less)
  with assms show "(of_nat a :: u16) div 4 = of_nat (a div 4)" "(of_nat a :: u16) div 100 = of_nat (a div 100)"
    "(of_nat a :: u16) div 400 = of_nat (a div 400)"
    by (simp_all add: word_unat_eq_iff unat_div unat_of_nat)
qed

lemma date_leap_years_eq:
  assumes "1970 \<le> y" "y \<le> 9999"
  shows "int (unat (date_leap_years (of_nat y))) = leaps (int y)"
proof -
  have minus: "(of_nat y - 1 - of_nat k :: u16) = of_nat (y - (k + 1))" if "k + 1 \<le> y" for k
    using that by (simp add: of_nat_diff)
  have minuses: "(of_nat y - 1 - 1968 :: u16) = of_nat (y - 1969)" "(of_nat y - 1 - 1900 :: u16) = of_nat (y - 1901)"
    "(of_nat y - 1 - 1600 :: u16) = of_nat (y - 1601)"
    using minus [of 1968] minus [of 1900] minus [of 1600] assms by simp_all
  define a b c where "a = (y - 1969) div 4" and "b = (y - 1901) div 100" and "c = (y - 1601) div 400"
  have "100 * b \<le> y - 1901" "y - 1969 < 4 * a + 4" by (simp_all only: a_def b_def)
  then have "b \<le> a" using assms by linarith
  moreover have "a \<le> y" "c \<le> y" by (simp_all add: a_def c_def div_le_dividend le_trans [OF div_le_dividend])
  ultimately have le: "b \<le> a" "a - b + c < 65536" using assms by linarith+
  have "date_leap_years (of_nat y) = of_nat a - of_nat b + of_nat c"
    unfolding date_leap_years_def minuses a_def b_def c_def using assms by (simp add: word_quotient del: of_nat_diff)
  also have "\<dots> = of_nat (a - b + c)" using le by (simp add: of_nat_diff)
  finally have "unat (date_leap_years (of_nat y)) = unat (of_nat (a - b + c) :: u16)" by (simp only:)
  also have "\<dots> = a - b + c" using le(2) by (simp add: unat_of_nat del: of_nat_add of_nat_diff)
  finally have "unat (date_leap_years (of_nat y)) = a - b + c" .
  moreover have "int a = (int y - 1969) div 4" "int b = (int y - 1901) div 100" "int c = (int y - 1601) div 400"
    using assms by (simp_all add: a_def b_def c_def zdiv_int of_nat_diff)
  ultimately show ?thesis using le by (simp add: leaps_def of_nat_diff)
qed

lemma word_leap_year:
  assumes "y < 65536"
  shows "is_leap_year (of_nat y) \<longleftrightarrow> gregorian_leap (int y)"
proof -
  have "unat (of_nat y :: u16) = y" using assms by (simp add: unat_of_nat)
  moreover have "int y mod int k = 0 \<longleftrightarrow> y mod k = 0" for k by (metis of_nat_eq_0_iff zmod_int)
  from this [of 4] this [of 100] this [of 400] have "gregorian_leap (int y) \<longleftrightarrow> y mod 4 = 0 \<and> (y mod 100 \<noteq> 0 \<or> y mod 400 = 0)"
    by (simp add: gregorian_leap_def)
  ultimately show ?thesis by (simp add: is_leap_year_def word_unat_eq_iff unat_mod)
qed

lemma month_days_start:
  assumes "1 \<le> m" "m \<le> 12"
  shows "month_days (of_nat m) = Some (of_int (month_start (int m)))"
proof -
  have "\<forall>m \<in> set [1..<13]. month_days (of_nat m) = Some (of_int (month_start (int m)))" by code_simp
  moreover have "m \<in> set [1..<13]" using assms by simp
  ultimately show ?thesis by blast
qed

lemma seconds_split: "(n :: nat) = n mod 60 + n div 60 mod 60 * 60 + n div 3600 mod 24 * 3600 + n div 86400 * 86400"
proof -
  have split: "n = r + a * 60 \<Longrightarrow> a = r' + b * 60 \<Longrightarrow> b = r'' + c * 24 \<Longrightarrow> n = r + r' * 60 + r'' * 3600 + c * 86400" for n a b c r r' r'' :: nat
    by simp
  have "n div 3600 = n div 60 div 60" "n div 86400 = n div 60 div 60 div 24" by (simp_all add: div_mult2_eq [symmetric])
  then show ?thesis
    by (simp only:) (intro split [where a = "n div 60" and b = "n div 60 div 60"] mod_div_mult_eq [symmetric])
qed

lemma date_secs_fields:
  assumes "sec < 256" "mi < 256" "h < 256" "d < 256" "m < 256" "1970 \<le> y" "y \<le> 9999"
  shows "date_secs \<lparr>d_second = of_nat sec, d_minute = of_nat mi, d_hour = of_nat h, d_day = of_nat d, d_month = of_nat m,
      d_year = of_nat y, d_week_day = w\<rparr> (of_int (month_start (int m)))
    = of_int (int sec + int mi * 60 + int h * 3600 + day_number (int y) (int m) (int d) * 86400)"
proof -
  have cast: "(ucast v :: u64) = of_nat (unat v)" "(ucast w :: u64) = of_nat (unat w)" for v :: u8 and w :: u16
    by (simp_all add: word_of_nat_eq_iff)
  have byte: "k < 256 \<Longrightarrow> (ucast (of_nat k :: u8) :: u64) = of_int (int k)" for k by (simp add: cast unat_of_nat)
  have short: "(ucast (of_nat y :: u16) :: u64) = of_int (int y)" using assms by (simp add: cast unat_of_nat)
  have month: "(2 < (of_nat m :: u8)) = (2 < int m)" using assms by (simp add: word_less_nat_alt unat_of_nat)
  have leap: "(ucast (date_leap_years (of_nat y)) :: u64) = of_int (leaps (int y))"
    unfolding cast using date_leap_years_eq [OF assms(6,7)] by (metis of_int_of_nat_eq)
  have year: "is_leap_year (of_nat y) = gregorian_leap (int y)" using assms by (intro word_leap_year) simp
  show ?thesis
    unfolding date_secs_def Let_def day_number_def
    by (simp add: assms byte short month leap year algebra_simps)
qed

lemma calendar_date_into:
  assumes "n < YEAR_9999_SECONDS"
  shows "http_date_into (calendar_date n) = Ok (from_secs n)"
proof (rule calendar_date_fields [OF assms])
  fix y m d :: nat
  assume cal: "calendar (n div 86400) = (int y, int m, int d)" and fields: "1 \<le> m" "m \<le> 12" "1 \<le> d" "d \<le> 31" "1970 \<le> y" "y \<le> 9999"
    and date: "calendar_date n = \<lparr>d_second = of_nat (n mod 60), d_minute = of_nat (n div 60 mod 60), d_hour = of_nat (n div 3600 mod 24),
       d_day = of_nat d, d_month = of_nat m, d_year = of_nat y, d_week_day = of_nat ((n div 86400 + 3) mod 7 + 1)\<rparr>"
  have small: "n mod 60 < 256" "n div 60 mod 60 < 256" "n div 3600 mod 24 < 256" "d < 256" "m < 256"
    using fields by (auto intro: less_trans [OF mod_less_divisor])
  have "date_secs (calendar_date n) (of_int (month_start (int m)))
      = of_int (int (n mod 60 + n div 60 mod 60 * 60 + n div 3600 mod 24 * 3600 + n div 86400 * 86400))"
    unfolding date date_secs_fields [OF small fields(5,6)] calendar_day_number [OF cal]
    by (simp only: of_nat_add of_nat_mult of_nat_numeral)
  also have "\<dots> = of_nat n" by (simp only: seconds_split [of n, symmetric] of_int_of_nat_eq)
  finally have secs: "unat (date_secs (calendar_date n) (of_int (month_start (int m)))) = n"
    using assms by (simp only:) (simp add: YEAR_9999_SECONDS_def unat_of_nat)
  have "month_days (d_month (calendar_date n)) = Some (of_int (month_start (int m)))"
    using month_days_start [OF fields(1,2)] by (simp only: date http_date.simps)
  moreover have "n < 2 ^ 63" using assms by (simp add: YEAR_9999_SECONDS_def)
  ultimately show ?thesis by (simp only: http_date_into_def option.simps Let_def secs if_True)
qed

text \<open>C40 A time before the year 10000, written as an HTTP date and read again, is the same time
  to the second: the writer always finds a valid date, the reader recognises the fixed format, and the
  arithmetic on 16 and 64 bits that goes back to the clock does not wrap.\<close>

theorem date_roundtrip:
  assumes "0 \<le> t" "as_secs t < YEAR_9999_SECONDS"
  shows "\<exists>s. fmt_http_date t = (Ok s :: (bytes, 'e) result) \<and> parse_http_date s = Ok (from_secs (as_secs t))"
proof -
  from calendar_date_valid [OF assms(2)] obtain s where "http_date_fmt (calendar_date (as_secs t)) = (Ok s :: (bytes, 'e) result)"
    "is_ascii s" "trim_ascii s = s" "parse_imf_fixdate s = Ok (calendar_date (as_secs t))"
    by (rule imf_fixdate_of_fmt)
  with assms calendar_date_valid [OF assms(2)] calendar_date_into [OF assms(2)] show ?thesis
    by (auto simp: fmt_http_date_def http_date_from_calendar parse_http_date_def http_date_from_str_def or_else_def Let_def)
qed

lemma date_roundtrip_witness:
  "\<exists>s. fmt_http_date (from_secs 784111777) = (Ok s :: (bytes, unit) result) \<and> parse_http_date s = Ok (from_secs 784111777)"
  using date_roundtrip [of "from_secs 784111777", where 'e = unit] by (simp add: as_secs_def from_secs_def YEAR_9999_SECONDS_def)

end
