(* ===== verification/Spec2Isabelle.thy ===== *)
theory Spec2Isabelle
  imports Rust_Prelude Frame_Head Frame_Control Frame_Settings Frame_Data Hpack_Integer Huffman_Tables
    Huffman_Trie Huffman_Codec Hpack_Header Hpack_Decoder Hpack_Block Flow_Control H2_Errors Stream_State
    Frame_Headers Framed_Read Framed_Codec Length_Delimited Lines_Codec Hpack_Probing Hpack_Table Hpack_Encoder
    Hpack_Roundtrip Header_Encoding Framed_Write Linked_Lists Stream_Buffer Stream_Record Stream_Store Stream_World
    Prioritize Stream_Send Peer_Messages Stream_Recv Stream_Polls Streams Recv_Accounting
    Window_Accounting Http_Date
begin

text \<open>
  A model of the HTTP/2 core of \<open>nephele\<close>, with the theorems that make it correct. Paths are relative to
  \<open>nephele/src\<close>; \<open>h2\<close> abbreviates \<open>proto/h2\<close>.

  \<^item> The way of the bytes. The transport delivers chunks; \<open>Framed_Codec\<close> (\<open>common/codec/framed_impl.rs\<close>,
  \<open>decoder.rs\<close>) feeds them to a decoder and hands out frames. \<open>Length_Delimited\<close>
  (\<open>common/codec/length_delimited.rs\<close> with the configuration of \<open>h2/codec/mod.rs\<close>) cuts them into raw HTTP/2
  frames; \<open>Lines_Codec\<close> (\<open>common/codec/lines_codec.rs\<close>, \<open>bytes_codec.rs\<close>) are the other decoders. The contract
  between reader and decoder is the locale \<open>streaming_decoder\<close>, interpreted for both.

  \<^item> Frames. \<open>Frame_Head\<close> (\<open>h2/frame/head.rs\<close>, \<open>stream_id.rs\<close>, \<open>reason.rs\<close>, the errors of \<open>h2/frame/mod.rs\<close>),
  \<open>Frame_Control\<close> (\<open>reset.rs\<close>, \<open>priority.rs\<close>, \<open>window_update.rs\<close>, \<open>ping.rs\<close>, \<open>go_away.rs\<close>), \<open>Frame_Settings\<close>
  (\<open>settings.rs\<close>), \<open>Frame_Data\<close> (\<open>data.rs\<close>, \<open>util.rs\<close>) and \<open>Frame_Headers\<close> (\<open>headers.rs\<close>: flags, payload,
  header blocks over several fragments with the size limit) hold records, constructors, decoders
  and encoders of the frames. \<open>Framed_Read\<close> (\<open>h2/codec/framed_read.rs\<close>) decodes raw frames and assembles
  header blocks from HEADERS, PUSH_PROMISE and CONTINUATION frames. \<open>Header_Encoding\<close> (the other half of
  \<open>headers.rs\<close>) splits a block over frames, \<open>Framed_Write\<close> (\<open>h2/codec/framed_write.rs\<close>) buffers frames and hands
  them to the transport; what it still has to write is the relation \<open>owes\<close>.

  \<^item> HPACK. \<open>Hpack_Integer\<close> (integers and the buffers of \<open>h2/hpack/encoder.rs\<close> and \<open>decoder.rs\<close>),
  \<open>Huffman_Tables\<close>, \<open>Huffman_Trie\<close> and \<open>Huffman_Codec\<close> (\<open>h2/hpack/huffman\<close>), \<open>Hpack_Header\<close> (\<open>header.rs\<close> and the
  static tables of \<open>decoder.rs\<close> and \<open>table.rs\<close>), \<open>Hpack_Decoder\<close> (the decoder with its dynamic table).
  \<open>Hpack_Block\<close> gives the specification \<open>block_meaning\<close> of a header block and shows that the decoder
  implements it. \<open>Hpack_Probing\<close> and \<open>Hpack_Table\<close> (\<open>table.rs\<close>) are the encoder's table: the Robin Hood index array
  alone, and the table with its slots and chains of equal names. \<open>Hpack_Encoder\<close> (\<open>encoder.rs\<close>) writes header
  blocks; \<open>Hpack_Roundtrip\<close> shows that what it writes means what it was given, frame by frame, for the
  decoder of the other side.

  \<^item> Streams (\<open>h2/proto/streams\<close>). \<open>Flow_Control\<close> (\<open>flow_control.rs\<close>) and \<open>Stream_State\<close> (\<open>state.rs\<close>) are parts of
  one stream, \<open>Stream_Record\<close> (\<open>stream.rs\<close>) is its record. \<open>Linked_Lists\<close> has slabs and lists that are linked through their
  nodes, with a locale over the link field; its instances are the deques of frames in \<open>Stream_Buffer\<close>
  (\<open>buffer.rs\<close>) and the queues of streams in \<open>Stream_Store\<close> (\<open>store.rs\<close>), with one locale \<open>next_fields\<close> for
  the six link fields. \<open>Stream_World\<close> is the state the operations share, the counts (\<open>counts.rs\<close>, \<open>peer.rs\<close>) and
  a calculus of preconditions; \<open>Prioritize\<close> (\<open>prioritize.rs\<close>) distributes the window of the connection and picks the
  next frame; \<open>Stream_Send\<close> (\<open>send.rs\<close>) is the sending half, \<open>Stream_Recv\<close> and
  \<open>Stream_Polls\<close> (\<open>recv.rs\<close>) are the receiving half, with the loops that write to the codec; \<open>Streams\<close> (\<open>streams.rs\<close>) has the
  frames of the peer, the handles of the application and their ends. \<open>Recv_Accounting\<close> and
  \<open>Window_Accounting\<close> follow the window of the connection through all of these operations.
  \<open>Peer_Messages\<close> (\<open>h2/client.rs\<close>, \<open>server.rs\<close>) converts requests and responses.
  \<open>H2_Errors\<close> has the error types of the layers and the conversions between them.

  \<^item> Dates. \<open>Http_Date\<close> (\<open>proto/h1/date.rs\<close>) converts times to dates, writes them and reads the three formats of HTTP;
  it is the one part of HTTP/1 that is modelled.

  Conventions. \<open>Rust_Prelude\<close> explains the outcome type \<open>result\<close>: every \<open>Err\<close> and every panic of the
  source is a branch of the model. A method that mutates its receiver returns the new state; a buffer that may
  be inspected after an error is part of the state even then. Machine integers are words of
  their width where they wrap or are masked, lengths and indices of type \<open>usize\<close> are \<open>nat\<close>. Release
  builds are modelled: arithmetic wraps and \<open>debug_assert!\<close> does nothing.

  Parameters. Code that is not in the repository is a parameter: \<open>http_lib\<close> says which byte strings the
  constructors of the crate \<open>http\<close> accept, \<open>uri_lib\<close> what they make of the parts of a URI, \<open>header_map_lib\<close> and \<open>into_iter\<close> are the operations of its \<open>HeaderMap\<close>
  that the code calls; \<open>hm_append\<close> is partial, since a \<open>HeaderMap\<close> panics when it is full, and \<open>hm_max\<close> is a number of fields
  it has room for in any case. \<open>H\<close> is the hash function of the crate \<open>fnv\<close>. A transport that is written to is an infinite stream of
  answers for each kind of call, so that it may also take nothing for ever. The types of the crate \<open>bytes\<close> are byte lists. The crate \<open>slab\<close> is modelled by a map
  whose choice of vacant keys is arbitrary.

  Loops. The loops of the modelled code are functions with a termination proof, with three exceptions, which are partial
  functions. Those of \<open>Hpack_Probing\<close> and \<open>Hpack_Table\<close> end because of the invariant of the table, and the theorems show
  that they return. The loop of \<open>flush\<close> in \<open>Framed_Write\<close> ends when the transport takes a byte now and then: the theorem
  says when it returns and when it does not. The loop of \<open>poll_complete\<close> in \<open>Stream_Polls\<close> depends on the codec, which is a
  parameter there; what is shown of it holds for the runs that return. The polls of a reader are counted, and the theorems give the number that is enough.

  What the lemmas show. For the frames: lengths and round trips. For Huffman: the tables are a prefix code
  and its decoding automaton, and both directions of the codec are exact. For HPACK: integers,
  the decoder as an implementation of \<open>block_meaning\<close>, its table invariant and absence of panics, the
  encoder's table as the list of entries HPACK prescribes, the encoder and the decoder in step. For
  the readers: the frames do not depend on the chunking, header blocks are not interrupted, nothing
  panics. For the writer: a flush in any pieces sends what is owed, header blocks are cut at the size limit
  and read back. For streams: window arithmetic without wrap-around, the transitions of RFC 7540; deques and queues
  as lists; the capacity of the connection goes to the streams that ask for it; the window the peer sees, the bytes in
  flight and the target add up. Where the code goes wrong, a theorem says how: blocks that are cut inside a
  field, header maps and frames that overflow, negative windows, reservations that are returned twice, requests that
  the other side refuses.

  Not modelled: the transport itself and everything asynchronous around it, Debug and Display
  output, tracing; the HTTP/1 client and server, which drive the third-party parser \<open>httparse\<close>, with their
  chunked bodies; the TLS wrapper; the data carriers of \<open>common/http_types\<close>. Of HTTP/2 the task of the connection
  (\<open>proto/connection.rs\<close> with \<open>ping_pong.rs\<close>, \<open>go_away.rs\<close> and \<open>settings.rs\<close>) and the handshake are not modelled: they
  are asynchronous loops around the parts that are.
\<close>

end
